(* ===== verification/Prelude.thy ===== *)
theory Prelude
  imports Main "HOL-Library.Word" "HOL-Library.List_Lexorder" "HOL-Library.Char_ord"
    "HOL-Library.AList" "HOL-Library.Signed_Division" "HOL-Library.Multiset"
begin

text \<open>
  Shared base of the development: the parts of the Go language and of its standard library
  that the modelled packages use, and the generic lemmas the component theories rest on.

  \<^item> A fallible Go function returns a sum: \<open>Inl e\<close> is a non-nil error, \<open>Inr v\<close> a value.
  \<^item> A Go map is an association list with distinct keys. Its order stands for the unspecified
    iteration order of \<^verbatim>\<open>range\<close>, so a theorem that holds for every list holds for
    every iteration order.
  \<^item> \<open>int64\<close> and \<open>int\<close> values are HOL integers; the arithmetic that may overflow is written
    with \<open>wrap64\<close>. Unsigned integers are words.
  \<^item> Strings are byte strings. \<open>TrimSpace\<close>, \<open>ToLower\<close> and \<open>Fields\<close> are the ASCII part of the
    functions of package strings.
  \<^item> \<open>sort_by\<close> is \<^verbatim>\<open>sort.SliceStable\<close> with a less function; the locale \<open>go_order\<close>
    holds what it guarantees for a strict weak order, \<open>go_total_order\<close> what follows when ties
    are equal values (then the unstable \<^verbatim>\<open>sort.Slice\<close> gives the same list).
  \<^item> \<open>first_fit\<close> is the interface of the lowest-index-first allocators.
\<close>

named_theorems go_lib \<open>unfolding rules of the Go library functions\<close>
named_theorems alist_lib \<open>lemmas on association lists used as Go maps\<close>

section \<open>Results\<close>

fun is_err :: "'e + 'a \<Rightarrow> bool" where
  "is_err (Inl _) = True"
| "is_err (Inr _) = False"

fun is_ok :: "'e + 'a \<Rightarrow> bool" where
  "is_ok (Inl _) = False"
| "is_ok (Inr _) = True"

section \<open>Machine integers\<close>

text \<open>Two's complement wrap-around of \<open>int64\<close> (and of \<open>int\<close> on the 64-bit targets).\<close>

definition wrap64 :: "int \<Rightarrow> int" where
  "wrap64 x = (x + 2 ^ 63) mod 2 ^ 64 - 2 ^ 63"

definition max_int64 :: int where
  "max_int64 = 2 ^ 63 - 1"

definition min_int64 :: int where
  "min_int64 = - (2 ^ 63)"

definition in_int64 :: "int \<Rightarrow> bool" where
  "in_int64 x \<longleftrightarrow> min_int64 \<le> x \<and> x \<le> max_int64"

section \<open>Strings\<close>

definition is_space :: "char \<Rightarrow> bool" where
  "is_space c \<longleftrightarrow> c \<in> {CHR '' '', CHR 0x09, CHR 0x0A, CHR 0x0B, CHR 0x0C, CHR 0x0D}"

definition TrimSpace :: "string \<Rightarrow> string" where
  "TrimSpace s = rev (dropWhile is_space (rev (dropWhile is_space s)))"

definition to_lower_char :: "char \<Rightarrow> char" where
  "to_lower_char c =
     (let n = (of_char c :: nat) in if 65 \<le> n \<and> n \<le> 90 then char_of (n + 32) else c)"

definition ToLower :: "string \<Rightarrow> string" where
  "ToLower s = map to_lower_char s"

definition HasPrefix :: "string \<Rightarrow> string \<Rightarrow> bool" where
  "HasPrefix s p \<longleftrightarrow> take (length p) s = p"

definition TrimPrefix :: "string \<Rightarrow> string \<Rightarrow> string" where
  "TrimPrefix s p = (if HasPrefix s p then drop (length p) s else s)"

fun Contains :: "string \<Rightarrow> string \<Rightarrow> bool" where
  "Contains [] p = (p = [])"
| "Contains (c # s) p = (HasPrefix (c # s) p \<or> Contains s p)"

text \<open>\<^verbatim>\<open>strings.Split\<close> with a one-byte separator: one more piece than separators.\<close>

fun Split :: "string \<Rightarrow> char \<Rightarrow> string list" where
  "Split [] d = [[]]"
| "Split (c # s) d =
     (if c = d then [] # Split s d
      else case Split s d of [] \<Rightarrow> [[c]] | p # ps \<Rightarrow> (c # p) # ps)"

fun Join :: "string list \<Rightarrow> string \<Rightarrow> string" where
  "Join [] sep = []"
| "Join [s] sep = s"
| "Join (s # t # ts) sep = s @ sep @ Join (t # ts) sep"

text \<open>\<^verbatim>\<open>strings.Fields\<close>: the maximal runs of non-space bytes.\<close>

fun fields_aux :: "string \<Rightarrow> string \<Rightarrow> string list" where
  "fields_aux [] acc = (if acc = [] then [] else [rev acc])"
| "fields_aux (c # s) acc =
     (if is_space c then (if acc = [] then fields_aux s [] else rev acc # fields_aux s [])
      else fields_aux s (c # acc))"

definition Fields :: "string \<Rightarrow> string list" where
  "Fields s = fields_aux s []"

text \<open>\<^verbatim>\<open>strconv.Itoa\<close> and \<^verbatim>\<open>%d\<close>.\<close>

fun nat_digits :: "nat \<Rightarrow> string" where
  "nat_digits n =
     (if n < 10 then [char_of (48 + n)] else nat_digits (n div 10) @ [char_of (48 + n mod 10)])"

declare nat_digits.simps [simp del]

definition Itoa :: "int \<Rightarrow> string" where
  "Itoa i = (if i < 0 then CHR ''-'' # nat_digits (nat (- i)) else nat_digits (nat i))"

definition is_digit :: "char \<Rightarrow> bool" where
  "is_digit c \<longleftrightarrow> (48::nat) \<le> of_char c \<and> of_char c \<le> (57::nat)"

definition digit_val :: "char \<Rightarrow> nat" where
  "digit_val c = of_char c - 48"

definition digits_val :: "string \<Rightarrow> nat" where
  "digits_val s = foldl (\<lambda>a c. 10 * a + digit_val c) 0 s"

section \<open>Sorting\<close>

fun insert_by :: "('a \<Rightarrow> 'a \<Rightarrow> bool) \<Rightarrow> 'a \<Rightarrow> 'a list \<Rightarrow> 'a list" where
  "insert_by lt x [] = [x]"
| "insert_by lt x (y # ys) = (if lt y x then y # insert_by lt x ys else x # y # ys)"

definition sort_by :: "('a \<Rightarrow> 'a \<Rightarrow> bool) \<Rightarrow> 'a list \<Rightarrow> 'a list" where
  "sort_by lt xs = foldr (insert_by lt) xs []"

section \<open>First-fit search\<close>

text \<open>
  The allocation loops \<^verbatim>\<open>for index := lo; index < hi; index++\<close> of the source: compute
  the candidate of the index, return an error of that computation, stop at the first
  candidate that is not in use; \<open>Inr None\<close> when the loop runs out.
\<close>

fun first_free :: "(nat \<Rightarrow> 'e + 'a) \<Rightarrow> 'a list \<Rightarrow> nat list \<Rightarrow> 'e + 'a option" where
  "first_free mk used [] = Inr None"
| "first_free mk used (i # is) =
     (case mk i of
        Inl e \<Rightarrow> Inl e
      | Inr c \<Rightarrow> if c \<notin> set used then Inr (Some c) else first_free mk used is)"

section \<open>Lemmas on machine integers\<close>

lemma wrap64_id [simp]: "in_int64 x \<Longrightarrow> wrap64 x = x"
  unfolding wrap64_def in_int64_def min_int64_def max_int64_def by simp

lemma wrap64_in_int64: "in_int64 (wrap64 x)"
proof -
  have "0 \<le> (x + 2 ^ 63) mod 2 ^ 64" "(x + 2 ^ 63) mod 2 ^ 64 < 2 ^ 64"
    by simp_all
  then show ?thesis
    unfolding wrap64_def in_int64_def min_int64_def max_int64_def by simp
qed

lemma in_int64_between:
  "in_int64 a \<Longrightarrow> in_int64 b \<Longrightarrow> a \<le> x \<Longrightarrow> x \<le> b \<Longrightarrow> in_int64 x"
  unfolding in_int64_def by linarith

section \<open>Lemmas on strings\<close>

lemma HasPrefix_append [simp]: "HasPrefix (p @ s) p"
  by (simp add: HasPrefix_def)

lemma HasPrefix_iff: "HasPrefix s p \<longleftrightarrow> (\<exists>t. s = p @ t)"
  unfolding HasPrefix_def by (metis append_eq_conv_conj append_take_drop_id)

lemma Contains_append: "Contains (a @ p @ b) p"
proof (induction a)
  case Nil
  have "HasPrefix (p @ b) p" by simp
  then show ?case by (cases "p @ b") auto
next
  case (Cons c a)
  then show ?case by simp
qed

lemma Contains_iff: "Contains s p \<longleftrightarrow> (\<exists>a b. s = a @ p @ b)"
proof
  show "Contains s p \<Longrightarrow> \<exists>a b. s = a @ p @ b"
  proof (induction s)
    case Nil
    then show ?case by simp
  next
    case (Cons c s)
    show ?case
    proof (cases "HasPrefix (c # s) p")
      case True
      then show ?thesis by (auto simp: HasPrefix_iff intro: exI [of _ "[]"])
    next
      case False
      with Cons obtain a b where "s = a @ p @ b" by auto
      then have "c # s = (c # a) @ p @ b" by simp
      then show ?thesis by blast
    qed
  qed
  show "\<exists>a b. s = a @ p @ b \<Longrightarrow> Contains s p"
    using Contains_append by auto
qed

lemma Split_not_Nil [simp]: "Split s d \<noteq> []"
  by (cases s) (auto split: list.splits)

lemma Split_no_sep: "d \<notin> set s \<Longrightarrow> Split s d = [s]"
  by (induction s) auto

lemma Split_append_sep: "d \<notin> set a \<Longrightarrow> Split (a @ d # s) d = a # Split s d"
  by (induction a) auto

lemma Split_Join:
  assumes "xs \<noteq> []" and "\<And>x. x \<in> set xs \<Longrightarrow> d \<notin> set x"
  shows "Split (Join xs [d]) d = xs"
  using assms
proof (induction xs rule: induct_list012)
  case (3 s t ts)
  have "Split (Join (t # ts) [d]) d = t # ts"
    using "3.prems" by (intro "3.IH"(2)) auto
  with "3.prems" show ?case by (simp add: Split_append_sep)
qed (auto simp: Split_no_sep)

lemma digits_val_append: "digits_val (s @ [c]) = 10 * digits_val s + digit_val c"
  by (simp add: digits_val_def)

lemma of_char_char_of_small: "n < 256 \<Longrightarrow> of_char (char_of (n::nat) :: char) = n"
  by (simp add: of_char_mod_256)

lemma nat_digits_is_digit: "c \<in> set (nat_digits n) \<Longrightarrow> is_digit c"
proof (induction n rule: nat_digits.induct)
  case (1 n)
  have d: "is_digit (char_of (48 + m))" if "m < 10" for m :: nat
    using that by (simp add: is_digit_def of_char_char_of_small)
  show ?case
  proof (cases "n < 10")
    case True
    with 1 show ?thesis by (simp add: nat_digits.simps [of n] d)
  next
    case False
    with 1 show ?thesis by (auto simp: nat_digits.simps [of n] d)
  qed
qed

lemma nat_digits_not_Nil [simp]: "nat_digits n \<noteq> []"
  by (subst nat_digits.simps) simp

lemma digits_val_nat_digits [simp]: "digits_val (nat_digits n) = n"
proof (induction n rule: nat_digits.induct)
  case (1 n)
  have d: "digit_val (char_of (48 + m)) = m" if "m < 10" for m :: nat
    using that by (simp add: digit_val_def of_char_char_of_small)
  show ?case
  proof (cases "n < 10")
    case True
    then show ?thesis by (simp add: nat_digits.simps [of n] digits_val_def d)
  next
    case False
    with 1 show ?thesis by (simp add: nat_digits.simps [of n] digits_val_append d)
  qed
qed

lemma nat_digits_inj: "nat_digits m = nat_digits n \<Longrightarrow> m = n"
  by (metis digits_val_nat_digits)

lemma takeWhile_digits:
  assumes "\<And>c. c \<in> set s \<Longrightarrow> is_digit c" and "t = [] \<or> \<not> is_digit (hd t)"
  shows "takeWhile is_digit (s @ t) = s \<and> dropWhile is_digit (s @ t) = t"
  using assms by (cases t) (auto simp: takeWhile_append dropWhile_append)

section \<open>Association lists as Go maps\<close>

lemma map_of_update [alist_lib]: "map_of (AList.update k v al) = (map_of al)(k \<mapsto> v)"
  by (rule update_conv')

lemma map_of_delete [alist_lib]: "map_of (AList.delete k al) = (map_of al)(k := None)"
  by (rule delete_conv')

lemma update_fresh [alist_lib]: "map_of al k = None \<Longrightarrow> AList.update k v al = al @ [(k, v)]"
  by (induction al) (auto split: if_splits)

lemma set_update_distinct:
  "distinct (map fst al) \<Longrightarrow> set (AList.update k v al) = {(m, x) \<in> set al. m \<noteq> k} \<union> {(k, v)}"
  by (induction al) (auto simp: image_iff)

lemma map_of_fold_update:
  "map_of (fold (\<lambda>(k, v). AList.update (f k) (g v)) kvs al) x =
   (case map_of (rev (map (\<lambda>(k, v). (f k, g v)) kvs)) x of Some v \<Rightarrow> Some v | None \<Rightarrow> map_of al x)"
  by (induction kvs arbitrary: al) (auto simp: update_conv' map_of_append split: option.splits prod.splits)

lemma distinct_fold_update:
  "distinct (map fst al) \<Longrightarrow> distinct (map fst (fold (\<lambda>(k, v). AList.update (f k) (g v)) kvs al))"
  by (induction kvs arbitrary: al) (auto simp: distinct_update)

lemma map_of_Some_in_set: "map_of al k = Some v \<Longrightarrow> (k, v) \<in> set al"
  by (rule map_of_SomeD)

lemma distinct_keys_filter:
  "distinct (map fst al) \<Longrightarrow> distinct (map fst (filter P al))"
  by (induction al) (auto simp: image_iff)

lemma map_of_filter_key:
  "map_of (filter (\<lambda>(k, v). P k) al) k = (if P k then map_of al k else None)"
  by (induction al) auto

lemma map_of_filter_value:
  "distinct (map fst al) \<Longrightarrow>
   map_of (filter (\<lambda>(k, v). P v) al) k =
     (case map_of al k of Some v \<Rightarrow> if P v then Some v else None | None \<Rightarrow> None)"
proof (induction al)
  case Nil
  then show ?case by simp
next
  case (Cons kv al)
  obtain k' v where kv: "kv = (k', v)" by (cases kv)
  with Cons.prems have "k' \<notin> fst ` set al" "distinct (map fst al)" by auto
  then have "map_of al k' = None" by (simp add: map_of_eq_None_iff)
  with Cons.IH \<open>distinct (map fst al)\<close> show ?case by (auto simp: kv)
qed

lemma map_of_permute:
  assumes "mset xs = mset ys" and "distinct (map fst xs)"
  shows "map_of xs = map_of ys"
proof -
  have "mset (map fst xs) = mset (map fst ys)"
    using assms(1) by (metis mset_map)
  then have "distinct (map fst ys)"
    using assms(2) by (metis mset_eq_imp_distinct_iff)
  with assms show ?thesis
    by (metis map_of_inject_set mset_eq_setD)
qed

section \<open>Sorting with a less function\<close>

lemma mset_insert_by [simp]: "mset (insert_by lt x xs) = add_mset x (mset xs)"
  by (induction xs) auto

lemma mset_sort_by [simp]: "mset (sort_by lt xs) = mset xs"
  unfolding sort_by_def by (induction xs) auto

lemma set_insert_by [simp]: "set (insert_by lt x xs) = insert x (set xs)"
  by (induction xs) auto

lemma set_sort_by [simp]: "set (sort_by lt xs) = set xs"
  by (metis mset_sort_by set_mset_mset)

lemma length_sort_by [simp]: "length (sort_by lt xs) = length xs"
  by (metis mset_sort_by size_mset)

lemma distinct_sort_by [simp]: "distinct (sort_by lt xs) = distinct xs"
  by (metis mset_sort_by mset_eq_imp_distinct_iff)

locale go_order =
  fixes lt :: "'a \<Rightarrow> 'a \<Rightarrow> bool"
  assumes less_asym: "lt x y \<Longrightarrow> \<not> lt y x"
    and less_ntrans: "lt x z \<Longrightarrow> lt x y \<or> lt y z"
begin

lemma less_irrefl: "\<not> lt x x"
  using less_asym by blast

lemma less_trans: "lt x y \<Longrightarrow> lt y z \<Longrightarrow> lt x z"
  using less_asym less_ntrans by blast

lemma nless_trans: "\<not> lt y x \<Longrightarrow> \<not> lt z y \<Longrightarrow> \<not> lt z x"
  using less_ntrans by blast

lemma sorted_insert_by:
  "sorted_wrt (\<lambda>x y. \<not> lt y x) xs \<Longrightarrow> sorted_wrt (\<lambda>x y. \<not> lt y x) (insert_by lt x xs)"
proof (induction xs)
  case Nil
  then show ?case by simp
next
  case (Cons y ys)
  show ?case
  proof (cases "lt y x")
    case True
    with Cons less_asym show ?thesis by auto
  next
    case False
    with Cons.prems have "\<forall>z \<in> set ys. \<not> lt z x"
      by (metis nless_trans sorted_wrt.simps(2))
    with False Cons.prems show ?thesis by simp
  qed
qed

lemma sorted_sort_by: "sorted_wrt (\<lambda>x y. \<not> lt y x) (sort_by lt xs)"
  unfolding sort_by_def by (induction xs) (auto intro: sorted_insert_by)

end

locale go_total_order = go_order +
  assumes less_total: "\<not> lt x y \<Longrightarrow> \<not> lt y x \<Longrightarrow> x = y"
begin

lemma sorted_unique:
  "mset xs = mset ys \<Longrightarrow> sorted_wrt (\<lambda>x y. \<not> lt y x) xs \<Longrightarrow>
   sorted_wrt (\<lambda>x y. \<not> lt y x) ys \<Longrightarrow> xs = ys"
proof (induction xs arbitrary: ys)
  case Nil
  then show ?case by simp
next
  case (Cons x xs)
  then obtain y ys' where ys: "ys = y # ys'"
    by (cases ys) auto
  have "x \<in> set ys" "y \<in> set (x # xs)"
    using Cons.prems(1) ys by (metis list.set_intros(1) mset_eq_setD)+
  then have xy: "x = y"
    using Cons.prems(2,3) ys less_total by auto
  with Cons.prems ys have "mset xs = mset ys'" by simp
  with Cons.IH [of ys'] Cons.prems xy ys show ?case by simp
qed

lemma sort_by_cong: "mset xs = mset ys \<Longrightarrow> sort_by lt xs = sort_by lt ys"
  by (rule sorted_unique) (simp_all add: sorted_sort_by)

end

section \<open>First-fit allocation\<close>

lemma first_free_no_err:
  "(\<And>i. i \<in> set is \<Longrightarrow> \<exists>c. mk i = Inr c) \<Longrightarrow> \<exists>r. first_free mk used is = Inr r"
  by (induction "is") (fastforce split: sum.splits)+

lemma first_free_None:
  "first_free mk used is = Inr None \<Longrightarrow> i \<in> set is \<Longrightarrow> \<exists>c. mk i = Inr c \<and> c \<in> set used"
  by (induction "is") (auto split: sum.splits if_splits)

lemma first_free_Some:
  "first_free mk used is = Inr (Some x) \<Longrightarrow> x \<notin> set used \<and> (\<exists>i \<in> set is. mk i = Inr x)"
  by (induction "is") (auto split: sum.splits if_splits)

lemma first_free_lowest:
  assumes "first_free mk used [lo ..< hi] = Inr (Some x)" and "lo \<le> j" "j < hi"
    and "mk j = Inr y" "y \<notin> set used"
  shows "\<exists>i. lo \<le> i \<and> i \<le> j \<and> mk i = Inr x"
  using assms
proof (induction "[lo ..< hi]" arbitrary: lo)
  case Nil
  then show ?case by simp
next
  case (Cons k ks)
  have "[lo ..< hi] = k # ks" by (rule Cons.hyps(2) [symmetric])
  then have k: "k = lo" and ks: "ks = [Suc lo ..< hi]"
    by (auto simp: upt_eq_Cons_conv)
  show ?case
  proof (cases "first_free mk used [Suc lo ..< hi] = Inr (Some x) \<and> j \<noteq> lo")
    case True
    then have "\<exists>i. Suc lo \<le> i \<and> i \<le> j \<and> mk i = Inr x"
      using Cons.prems by (intro Cons.hyps(1) [OF ks]) auto
    then show ?thesis using Suc_leD by blast
  next
    case False
    have "first_free mk used (lo # ks) = Inr (Some x)"
      using Cons.hyps(2) Cons.prems(1) k by simp
    then have "mk lo = Inr x"
      using False Cons.prems ks by (auto split: sum.splits if_splits)
    then show ?thesis using Cons.prems by blast
  qed
qed

text \<open>
  The interface of the allocators: in a good pool \<open>p\<close> every index of \<open>[lo, hi)\<close> has a
  candidate and distinct indices have distinct candidates. The clients rely on the lemmas.
\<close>

locale first_fit =
  fixes mk :: "'p \<Rightarrow> nat \<Rightarrow> 'e + 'a" and good :: "'p \<Rightarrow> bool" and lo hi :: nat
  assumes mk_total: "good p \<Longrightarrow> lo \<le> i \<Longrightarrow> i < hi \<Longrightarrow> \<exists>c. mk p i = Inr c"
    and mk_inj: "good p \<Longrightarrow> lo \<le> i \<Longrightarrow> i < hi \<Longrightarrow> lo \<le> j \<Longrightarrow> j < hi \<Longrightarrow>
      mk p i = Inr c \<Longrightarrow> mk p j = Inr c \<Longrightarrow> i = j"
begin

lemma no_err: "good p \<Longrightarrow> \<exists>r. first_free (mk p) used [lo ..< hi] = Inr r"
  by (rule first_free_no_err) (simp add: mk_total)

lemma fresh: "first_free (mk p) used [lo ..< hi] = Inr (Some x) \<Longrightarrow> x \<notin> set used"
  by (drule first_free_Some) simp

lemma in_pool:
  "first_free (mk p) used [lo ..< hi] = Inr (Some x) \<Longrightarrow> \<exists>i. lo \<le> i \<and> i < hi \<and> mk p i = Inr x"
  by (drule first_free_Some) auto

lemma lowest:
  "first_free (mk p) used [lo ..< hi] = Inr (Some x) \<Longrightarrow> lo \<le> j \<Longrightarrow> j < hi \<Longrightarrow>
   mk p j = Inr y \<Longrightarrow> y \<notin> set used \<Longrightarrow> \<exists>i. lo \<le> i \<and> i \<le> j \<and> mk p i = Inr x"
  by (rule first_free_lowest)

text \<open>As long as fewer than \<open>hi - lo\<close> candidates are in use, the search succeeds.\<close>

lemma succeeds_below_capacity:
  assumes "good p" and "card (set used) < hi - lo"
  shows "\<exists>x. first_free (mk p) used [lo ..< hi] = Inr (Some x)"
proof (rule ccontr)
  assume no: "\<not> ?thesis"
  obtain r where "first_free (mk p) used [lo ..< hi] = Inr r"
    using no_err [OF assms(1)] by blast
  with no have none: "first_free (mk p) used [lo ..< hi] = Inr None"
    by (cases r) auto
  define c where "c i = (case mk p i of Inr x \<Rightarrow> x)" for i
  have c: "mk p i = Inr (c i) \<and> c i \<in> set used" if "i \<in> {lo ..< hi}" for i
    using first_free_None [OF none, of i] that by (auto simp: c_def)
  have "inj_on c {lo ..< hi}"
    using c mk_inj [OF assms(1)] by (intro inj_onI) (metis atLeastLessThan_iff)
  moreover have "c ` {lo ..< hi} \<subseteq> set used"
    using c by auto
  ultimately have "hi - lo \<le> card (set used)"
    by (metis card_atLeastLessThan card_image card_mono List.finite_set)
  with assms(2) show False by simp
qed

end

end
