(* ===== verification/Netip.thy ===== *)
theory Netip
  imports Prelude
begin

unbundle bit_operations_syntax

text \<open>
  The part of Go's package net/netip that the modelled code uses, at the width of the code:
  an IPv4 address is a \<open>32 word\<close>, an IPv6 address a \<open>128 word\<close> with its zone, and the zero
  \<open>Addr\<close> is \<open>NoAddr\<close>. A prefix keeps netip's representation, the address and the number of
  bits plus one, so that the zero \<open>Prefix\<close> and the prefixes that \<open>PrefixFrom\<close> makes of a
  bad length are the invalid ones they are in Go.

  The lemmas give the arithmetic reading: an IPv4 prefix of length n contains exactly the
  addresses with the same quotient by \<open>2 ^ (32 - n)\<close>, and two prefixes overlap exactly when
  they have a common address.
\<close>

datatype addr = NoAddr | V4 "32 word" | V6 "128 word" string

datatype prefix = Prefix (p_addr: addr) (bits_plus_one: nat)

definition no_prefix :: prefix where
  "no_prefix = Prefix NoAddr 0"

fun IsValid :: "addr \<Rightarrow> bool" where
  "IsValid NoAddr = False"
| "IsValid _ = True"

fun Is4 :: "addr \<Rightarrow> bool" where
  "Is4 (V4 _) = True"
| "Is4 _ = False"

fun BitLen :: "addr \<Rightarrow> nat" where
  "BitLen NoAddr = 0"
| "BitLen (V4 _) = 32"
| "BitLen (V6 _ _) = 128"

fun IsUnspecified :: "addr \<Rightarrow> bool" where
  "IsUnspecified (V4 a) = (a = 0)"
| "IsUnspecified (V6 a z) = (a = 0 \<and> z = [])"
| "IsUnspecified NoAddr = False"

fun hasZone :: "addr \<Rightarrow> bool" where
  "hasZone (V6 _ z) = (z \<noteq> [])"
| "hasZone _ = False"

fun withoutZone :: "addr \<Rightarrow> addr" where
  "withoutZone (V6 a _) = V6 a []"
| "withoutZone a = a"

text \<open>\<^verbatim>\<open>Addr.Next\<close>: the zero \<open>Addr\<close> after the last address.\<close>

fun Next :: "addr \<Rightarrow> addr" where
  "Next NoAddr = NoAddr"
| "Next (V4 a) = (if a = - 1 then NoAddr else V4 (a + 1))"
| "Next (V6 a z) = (if a = - 1 then NoAddr else V6 (a + 1) z)"

definition p_valid :: "prefix \<Rightarrow> bool" where
  "p_valid p \<longleftrightarrow> 0 < bits_plus_one p"

definition Bits :: "prefix \<Rightarrow> int" where
  "Bits p = int (bits_plus_one p) - 1"

definition PrefixFrom :: "addr \<Rightarrow> int \<Rightarrow> prefix" where
  "PrefixFrom a b =
     Prefix (withoutZone a)
       (if a \<noteq> NoAddr \<and> 0 \<le> b \<and> b \<le> int (BitLen a) then Suc (nat b) else 0)"

text \<open>Clearing the host part: the lowest \<open>w - n\<close> bits of a \<open>w\<close>-bit address.\<close>

fun mask_addr :: "addr \<Rightarrow> nat \<Rightarrow> addr" where
  "mask_addr NoAddr n = NoAddr"
| "mask_addr (V4 a) n = V4 (push_bit (32 - n) (drop_bit (32 - n) a))"
| "mask_addr (V6 a z) n = V6 (push_bit (128 - n) (drop_bit (128 - n) a)) []"

definition Masked :: "prefix \<Rightarrow> prefix" where
  "Masked p =
     (if p_valid p then Prefix (mask_addr (p_addr p) (bits_plus_one p - 1)) (bits_plus_one p)
      else no_prefix)"

fun p_contains :: "prefix \<Rightarrow> addr \<Rightarrow> bool" where
  "p_contains (Prefix (V4 p) b) (V4 a) \<longleftrightarrow> 0 < b \<and> drop_bit (32 - (b - 1)) (a XOR p) = 0"
| "p_contains (Prefix (V6 p z) b) (V6 a z') \<longleftrightarrow>
     0 < b \<and> z' = [] \<and> drop_bit (128 - (b - 1)) (a XOR p) = 0"
| "p_contains _ _ \<longleftrightarrow> False"

definition Overlaps :: "prefix \<Rightarrow> prefix \<Rightarrow> bool" where
  "Overlaps p q \<longleftrightarrow>
     p_valid p \<and> p_valid q \<and>
     (p = q \<or>
      Is4 (p_addr p) = Is4 (p_addr q) \<and>
      (let m = min (bits_plus_one p - 1) (bits_plus_one q - 1)
       in m = 0 \<or> mask_addr (p_addr p) m = mask_addr (p_addr q) m))"

section \<open>Text forms\<close>

definition octet :: "32 word \<Rightarrow> nat \<Rightarrow> nat" where
  "octet a k = unat (take_bit 8 (drop_bit (8 * k) a))"

definition v4_string :: "32 word \<Rightarrow> string" where
  "v4_string a = Join (map (\<lambda>k. nat_digits (octet a k)) [3, 2, 1, 0]) ''.''"

definition hex_char :: "nat \<Rightarrow> char" where
  "hex_char n = (if n < 10 then char_of (48 + n) else char_of (87 + n))"

fun hex_digits :: "nat \<Rightarrow> string" where
  "hex_digits n = (if n < 16 then [hex_char n] else hex_digits (n div 16) @ [hex_char (n mod 16)])"

declare hex_digits.simps [simp del]

definition v6_group :: "128 word \<Rightarrow> nat \<Rightarrow> nat" where
  "v6_group a k = unat (take_bit 16 (drop_bit (112 - 16 * k) a))"

definition zero_run :: "128 word \<Rightarrow> nat \<Rightarrow> nat" where
  "zero_run a i = length (takeWhile (\<lambda>k. v6_group a k = 0) [i ..< 8])"

text \<open>The leftmost longest run of at least two zero groups, as (start, length).\<close>

definition best_run :: "128 word \<Rightarrow> nat \<times> nat" where
  "best_run a =
     foldl (\<lambda>(s, l) i. if 2 \<le> zero_run a i \<and> l < zero_run a i then (i, zero_run a i) else (s, l))
       (8, 0) [0 ..< 8]"

definition v6_groups_string :: "128 word \<Rightarrow> string" where
  "v6_groups_string a =
     (case best_run a of (s, l) \<Rightarrow>
        if l = 0 then Join (map (\<lambda>k. hex_digits (v6_group a k)) [0 ..< 8]) '':''
        else Join (map (\<lambda>k. hex_digits (v6_group a k)) [0 ..< s]) '':'' @ ''::'' @
             Join (map (\<lambda>k. hex_digits (v6_group a k)) [s + l ..< 8]) '':'')"

fun addr_string :: "addr \<Rightarrow> string" where
  "addr_string NoAddr = ''invalid IP''"
| "addr_string (V4 a) = v4_string a"
| "addr_string (V6 a z) =
     (if drop_bit 32 a = 0xffff then ''::ffff:'' @ v4_string (ucast a) else v6_groups_string a) @
     (if z = [] then [] else CHR ''%'' # z)"

definition prefix_string :: "prefix \<Rightarrow> string" where
  "prefix_string p =
     (if p_valid p then addr_string (p_addr p) @ ''/'' @ Itoa (Bits p) else ''invalid Prefix'')"

text \<open>
  \<^verbatim>\<open>ParseAddr\<close> and \<^verbatim>\<open>ParsePrefix\<close> for the callers that accept IPv4 only: \<open>None\<close> is a
  parse error or an address that is not IPv4.
\<close>

definition parse_octet :: "string \<Rightarrow> nat option" where
  "parse_octet s =
     (if s \<noteq> [] \<and> length s \<le> 3 \<and> list_all is_digit s \<and> (length s = 1 \<or> hd s \<noteq> CHR ''0'') \<and>
         digits_val s \<le> 255
      then Some (digits_val s) else None)"

definition ParseAddr4 :: "string \<Rightarrow> addr option" where
  "ParseAddr4 s =
     (case map parse_octet (Split s (CHR ''.'')) of
        [Some a, Some b, Some c, Some d] \<Rightarrow>
          Some (V4 (((of_nat a * 256 + of_nat b) * 256 + of_nat c) * 256 + of_nat d))
      | _ \<Rightarrow> None)"

definition parse_bits :: "string \<Rightarrow> nat option" where
  "parse_bits s =
     (if s \<noteq> [] \<and> list_all is_digit s \<and> (length s = 1 \<or> hd s \<noteq> CHR ''0'') \<and> digits_val s \<le> 32
      then Some (digits_val s) else None)"

definition ParsePrefix4 :: "string \<Rightarrow> prefix option" where
  "ParsePrefix4 s =
     (case rev (Split s (CHR ''/'')) of
        b # a # rest \<Rightarrow>
          (case (ParseAddr4 (Join (rev (a # rest)) ''/''), parse_bits b) of
             (Some ip, Some n) \<Rightarrow> Some (PrefixFrom ip (int n))
           | _ \<Rightarrow> None)
      | _ \<Rightarrow> None)"

section \<open>The arithmetic reading of IPv4 prefixes\<close>

definition v4_prefix :: "32 word \<Rightarrow> nat \<Rightarrow> prefix" where
  "v4_prefix a n = Prefix (V4 a) (Suc n)"

definition block_of :: "32 word \<Rightarrow> nat \<Rightarrow> nat" where
  "block_of a n = unat a div 2 ^ (32 - n)"

lemma v4_prefix_sel [simp]:
  "p_addr (v4_prefix a n) = V4 a" "bits_plus_one (v4_prefix a n) = Suc n"
  "p_valid (v4_prefix a n)" "Bits (v4_prefix a n) = int n"
  by (simp_all add: v4_prefix_def p_valid_def Bits_def)

lemma v4_prefix_inject [simp]: "v4_prefix a n = v4_prefix b m \<longleftrightarrow> a = b \<and> n = m"
  by (simp add: v4_prefix_def)

lemma v4_prefix_not_zero [simp]: "v4_prefix a n \<noteq> no_prefix"
  by (simp add: v4_prefix_def no_prefix_def)

lemma PrefixFrom_V4: "n \<le> 32 \<Longrightarrow> PrefixFrom (V4 a) (int n) = v4_prefix a n"
  by (simp add: PrefixFrom_def v4_prefix_def)

lemma v4_prefixI: "p_addr p = V4 a \<Longrightarrow> Bits p = int n \<Longrightarrow> p = v4_prefix a n"
  by (cases p) (auto simp: v4_prefix_def Bits_def)

lemma Masked_v4: "Masked (v4_prefix a n) = v4_prefix (push_bit (32 - n) (drop_bit (32 - n) a)) n"
  by (simp add: Masked_def) (simp add: v4_prefix_def)

lemma word_xor_eq_0_iff: "x XOR y = 0 \<longleftrightarrow> x = (y :: 'a::len word)"
  by (auto simp: bit_eq_iff bit_simps)

lemma unat_drop_bit: "unat (drop_bit k (a :: 32 word)) = unat a div 2 ^ k"
proof -
  have "unat (drop_bit k a) = drop_bit k (take_bit LENGTH(32) (unat a))"
    by (rule unsigned_drop_bit_eq)
  also have "unat a < 2 ^ 32"
    using unsigned_less [of a] by simp
  then have "take_bit LENGTH(32) (unat a) = unat a"
    by (simp add: take_bit_nat_eq_self)
  finally show ?thesis by (simp only: drop_bit_eq_div)
qed

lemma drop_bit_eq_iff_block: "drop_bit k a = drop_bit k (b :: 32 word) \<longleftrightarrow> unat a div 2 ^ k = unat b div 2 ^ k"
  by (metis unat_drop_bit word_unat_eq_iff)

lemma contains_v4_iff: "p_contains (v4_prefix p n) (V4 a) \<longleftrightarrow> block_of a n = block_of p n"
  by (simp add: v4_prefix_def drop_bit_xor word_xor_eq_0_iff drop_bit_eq_iff_block block_of_def)

lemma drop_push_drop: "drop_bit k (push_bit k (drop_bit k x)) = drop_bit k (x :: 32 word)"
  by (rule bit_word_eqI) (auto simp: bit_simps dest: bit_imp_le_length)

lemma mask_addr_eq_iff: "mask_addr (V4 a) n = mask_addr (V4 b) n \<longleftrightarrow> block_of a n = block_of b n"
proof -
  have "push_bit (32 - n) (drop_bit (32 - n) a) = push_bit (32 - n) (drop_bit (32 - n) b) \<longleftrightarrow>
      drop_bit (32 - n) a = drop_bit (32 - n) b"
    by (metis drop_push_drop)
  then show ?thesis
    by (simp add: drop_bit_eq_iff_block block_of_def)
qed

lemma block_of_coarser: "m \<le> n \<Longrightarrow> n \<le> 32 \<Longrightarrow> block_of a m = block_of a n div 2 ^ (n - m)"
  by (simp add: block_of_def div_mult2_eq [symmetric] power_add [symmetric])

lemma block_of_0: "block_of a 0 = 0"
proof -
  have "unat a < 2 ^ 32" using unsigned_less [of a] by simp
  then show ?thesis by (simp add: block_of_def)
qed

lemma overlaps_v4_iff:
  assumes "n \<le> 32" "m \<le> 32"
  shows "Overlaps (v4_prefix a n) (v4_prefix b m) \<longleftrightarrow> block_of a (min n m) = block_of b (min n m)"
  unfolding Overlaps_def
  by (auto simp: p_valid_def Let_def mask_addr_eq_iff block_of_0 simp del: mask_addr.simps)

text \<open>Two prefixes overlap exactly when some address is in both.\<close>

lemma overlaps_v4_witness:
  assumes "n \<le> 32" "m \<le> 32"
  shows "Overlaps (v4_prefix a n) (v4_prefix b m) \<longleftrightarrow>
    (\<exists>x. p_contains (v4_prefix a n) (V4 x) \<and> p_contains (v4_prefix b m) (V4 x))"
proof
  assume h: "Overlaps (v4_prefix a n) (v4_prefix b m)"
  show "\<exists>x. p_contains (v4_prefix a n) (V4 x) \<and> p_contains (v4_prefix b m) (V4 x)"
  proof (cases "n \<le> m")
    case True
    then have "block_of b n = block_of a n"
      using h overlaps_v4_iff [OF assms] by (simp add: min_def)
    then have "p_contains (v4_prefix a n) (V4 b) \<and> p_contains (v4_prefix b m) (V4 b)"
      by (simp add: contains_v4_iff)
    then show ?thesis by blast
  next
    case False
    then have "block_of a m = block_of b m"
      using h overlaps_v4_iff [OF assms] by (simp add: min_def)
    then have "p_contains (v4_prefix a n) (V4 a) \<and> p_contains (v4_prefix b m) (V4 a)"
      by (simp add: contains_v4_iff)
    then show ?thesis by blast
  qed
next
  assume "\<exists>x. p_contains (v4_prefix a n) (V4 x) \<and> p_contains (v4_prefix b m) (V4 x)"
  then obtain x where "block_of x n = block_of a n" "block_of x m = block_of b m"
    by (auto simp only: contains_v4_iff)
  then have "block_of a (min n m) = block_of b (min n m)"
    using assms block_of_coarser [of "min n m" n] block_of_coarser [of "min n m" m]
    by (metis min.cobounded1 min.cobounded2)
  then show "Overlaps (v4_prefix a n) (v4_prefix b m)"
    by (simp add: overlaps_v4_iff [OF assms])
qed

lemma Masked_valid [simp]: "p_valid (Masked p) = p_valid p"
  by (simp add: Masked_def p_valid_def no_prefix_def)

lemma block_of_mask: "mask_addr (V4 a) n = V4 b \<Longrightarrow> block_of b n = block_of a n"
  using drop_push_drop [of "32 - n" a] by (auto simp: drop_bit_eq_iff_block block_of_def)

lemma unat_mask_addr:
  assumes "mask_addr (V4 a) n = V4 b"
  shows "unat b = 2 ^ (32 - n) * block_of a n"
proof -
  have "2 ^ (32 - n) * (unat a div 2 ^ (32 - n)) \<le> unat a"
    by simp
  also have "unat a < 2 ^ 32"
    using unsigned_less [of a] by simp
  finally have "take_bit 32 (2 ^ (32 - n) * (unat a div 2 ^ (32 - n))) = 2 ^ (32 - n) * (unat a div 2 ^ (32 - n))"
    by (simp add: take_bit_nat_eq_self)
  moreover have "b = push_bit (32 - n) (drop_bit (32 - n) a)"
    using assms by simp
  moreover have "unat (push_bit (32 - n) (drop_bit (32 - n) a)) =
      take_bit LENGTH(32) (push_bit (32 - n) (unat (drop_bit (32 - n) a)))"
    by (rule unsigned_push_bit_eq)
  moreover have "push_bit (32 - n) (unat a div 2 ^ (32 - n)) = 2 ^ (32 - n) * (unat a div 2 ^ (32 - n))"
    by (simp only: push_bit_eq_mult mult.commute)
  ultimately show ?thesis
    by (simp add: unat_drop_bit block_of_def)
qed


lemma Masked_v4_base:
  assumes "Masked p = v4_prefix b n"
  obtains a where "mask_addr (V4 a) n = V4 b"
proof -
  have v: "p_valid p" using assms by (metis Masked_valid v4_prefix_sel(3))
  then have "mask_addr (p_addr p) (bits_plus_one p - 1) = V4 b" "bits_plus_one p = Suc n"
    using assms by (auto simp: Masked_def v4_prefix_def)
  then show ?thesis using that by (cases "p_addr p") auto
qed

section \<open>IPv4 prefixes print and parse back\<close>

lemma nat_digits_length: "n < 10 ^ Suc k \<Longrightarrow> length (nat_digits n) \<le> Suc k"
proof (induction k arbitrary: n)
  case 0
  then show ?case by (simp add: nat_digits.simps [of n])
next
  case (Suc k)
  then have "n div 10 < 10 ^ Suc k" by (simp add: div_less_iff_less_mult mult.commute)
  from Suc.IH [OF this] show ?case by (simp add: nat_digits.simps [of n])
qed

lemma nat_digits_hd: "0 < n \<Longrightarrow> hd (nat_digits n) \<noteq> CHR ''0''"
proof (induction n rule: nat_digits.induct)
  case (1 n)
  show ?case
  proof (cases "n < 10")
    case True
    have "of_char (char_of (48 + n) :: char) = 48 + n" by (rule of_char_char_of_small) (use True in simp)
    moreover have "of_char (CHR ''0'') = (48 :: nat)" by simp
    ultimately have "char_of (48 + n) \<noteq> CHR ''0''" using "1.prems" by (metis add_cancel_right_right not_gr_zero)
    then show ?thesis using True by (simp add: nat_digits.simps [of n])
  next
    case False
    then have "0 < n div 10" by (simp add: div_greater_zero_iff)
    with "1.IH" False show ?thesis by (simp add: nat_digits.simps [of n])
  qed
qed

lemma nat_digits_canonical: "length (nat_digits n) = 1 \<or> hd (nat_digits n) \<noteq> CHR ''0''"
proof (cases "n = 0")
  case True
  then show ?thesis by (simp add: nat_digits.simps [of 0])
next
  case False
  then show ?thesis using nat_digits_hd by simp
qed

lemma nat_digits_all: "list_all is_digit (nat_digits n)"
  using nat_digits_is_digit by (auto simp: list_all_iff)

lemma parse_octet_digits: "k < 256 \<Longrightarrow> parse_octet (nat_digits k) = Some k"
  using nat_digits_length [of k 2] nat_digits_canonical [of k] nat_digits_all [of k]
  by (simp add: parse_octet_def)

lemma parse_bits_digits: "k \<le> 32 \<Longrightarrow> parse_bits (nat_digits k) = Some k"
  using nat_digits_canonical [of k] nat_digits_all [of k] by (simp add: parse_bits_def)

lemma octet_nat: "octet a k = unat a div 2 ^ (8 * k) mod 256"
proof -
  have "unat (take_bit 8 (drop_bit (8 * k) a)) = take_bit 8 (unat (drop_bit (8 * k) a))"
    by (simp add: unsigned_take_bit_eq)
  then show ?thesis by (simp add: octet_def unat_drop_bit take_bit_eq_mod)
qed

lemma digits_no_sep: "\<not> is_digit c \<Longrightarrow> c \<notin> set (nat_digits n)"
  using nat_digits_is_digit by blast

lemma quads:
  fixes n :: nat
  assumes "n < 4294967296"
  shows "((n div 16777216 mod 256 * 256 + n div 65536 mod 256) * 256 + n div 256 mod 256) * 256 + n mod 256 = n"
proof -
  have d: "n div 65536 = n div 256 div 256" "n div 16777216 = n div 256 div 256 div 256"
    by (simp_all add: div_mult2_eq [symmetric])
  have "n div 256 div 256 div 256 < 256" using assms by (simp add: div_mult2_eq [symmetric] div_less_iff_less_mult)
  then show ?thesis
    unfolding d by (simp add: div_mult_mod_eq)
qed

lemma ParseAddr4_v4_string: "ParseAddr4 (v4_string a) = Some (V4 a)"
proof -
  have "Split (v4_string a) (CHR ''.'') = map (\<lambda>k. nat_digits (octet a k)) [3, 2, 1, 0]"
    unfolding v4_string_def by (rule Split_Join) (auto simp: digits_no_sep is_digit_def)
  moreover have "octet a k < 256" for k by (simp add: octet_nat)
  ultimately have "ParseAddr4 (v4_string a) =
      Some (V4 (((of_nat (octet a 3) * 256 + of_nat (octet a 2)) * 256 + of_nat (octet a 1)) * 256 + of_nat (octet a 0)))"
    by (simp add: ParseAddr4_def parse_octet_digits)
  moreover have "((of_nat (octet a 3) * 256 + of_nat (octet a 2)) * 256 + of_nat (octet a 1)) * 256 + of_nat (octet a 0) =
      (of_nat (((octet a 3 * 256 + octet a 2) * 256 + octet a 1) * 256 + octet a 0) :: 32 word)"
    by simp
  moreover have "unat a < 4294967296" using unsigned_less [of a] by simp
  then have "((octet a 3 * 256 + octet a 2) * 256 + octet a 1) * 256 + octet a 0 = unat a"
    using quads [of "unat a"] by (simp add: octet_nat)
  ultimately show ?thesis by (simp only: of_nat_unat ucast_id)
qed

lemma ParsePrefix4_prefix_string:
  assumes "n \<le> 32"
  shows "ParsePrefix4 (prefix_string (v4_prefix a n)) = Some (v4_prefix a n)"
proof -
  have "CHR ''/'' \<notin> set (v4_string a)"
    by (auto simp: v4_string_def digits_no_sep is_digit_def)
  then have "Split (v4_string a @ CHR ''/'' # nat_digits n) (CHR ''/'') = [v4_string a, nat_digits n]"
    by (simp add: Split_append_sep Split_no_sep digits_no_sep is_digit_def)
  moreover have "prefix_string (v4_prefix a n) = v4_string a @ CHR ''/'' # nat_digits n"
    by (simp add: prefix_string_def Itoa_def)
  ultimately show ?thesis
    using assms PrefixFrom_V4 [of n a]
    by (simp add: ParsePrefix4_def ParseAddr4_v4_string parse_bits_digits)
qed

end
