(* ===== verification/Iso_Net.thy ===== *)
theory Iso_Net
  imports Netip
begin

text \<open>
  Package iso (\<^verbatim>\<open>src/pkg/iso\<close>): the address plan of the isolated network.

  \<^item> layout.go: a /16 pool is split into 8192 /30 links in its lower half and 1024 /27 projects
    in its upper half (\<open>NewLayout\<close>, \<open>Link\<close>, \<open>Project\<close>).
  \<^item> components.go: \<open>PlanComponents\<close> assigns addresses of a project to component names, keeping
    the addresses in use.
  \<^item> modes.go: \<open>NormalizeModes\<close> and \<open>ValidateNetwork\<close> decide which network modes combine.
  \<^item> ranges.go: the table of non-public ranges and \<open>IsPublicIPv4\<close>.

  The lemmas show that links and projects never overlap, that component addresses are stable,
  distinct and inside the project, and that the two readings of the range table agree.
\<close>

datatype iso_err =
    AddrNotIPv4 addr
  | AddrOverflow addr
  | PoolNotSlash16 prefix
  | ErrLinkCapacity
  | ErrProjectCapacity
  | ErrComponentCapacity
  | ProjectNotSlash27 prefix
  | ComponentNamesNotUnique
  | ComponentOutside string addr prefix
  | ComponentReserved string addr
  | ComponentDuplicated addr
  | ModeEmpty
  | ModeUnsupported string
  | HostCombined
  | IsoWithSvcOrLan
  | ErrPublishedPorts
  | VMIsoOnly
  | ContainerIsoModes
  | SingleIsoOnly string
  | PayloadWithoutIso string

section \<open>layout.go\<close>

definition MaxLinks :: int where "MaxLinks = 8192"

definition MaxProjects :: int where "MaxProjects = 1024"

definition MaxComponents :: nat where "MaxComponents = 29"

definition AllocatorVersion :: int where "AllocatorVersion = 1"

definition PolicyVersion :: int where "PolicyVersion = 1"

record Layout =
  Pool :: prefix
  Links :: prefix
  Projects :: prefix

definition addIPv4 :: "addr \<Rightarrow> 32 word \<Rightarrow> iso_err + addr" where
  "addIPv4 a offset =
     (case a of
        V4 base \<Rightarrow>
          if - 1 - base < offset then Inl (AddrOverflow a) else Inr (V4 (base + offset))
      | _ \<Rightarrow> Inl (AddrNotIPv4 a))"

definition NewLayout :: "prefix \<Rightarrow> iso_err + Layout" where
  "NewLayout pool0 =
     (let pool = Masked pool0 in
      if \<not> p_valid pool \<or> \<not> Is4 (p_addr pool) \<or> Bits pool \<noteq> 16 then Inl (PoolNotSlash16 pool)
      else (case addIPv4 (p_addr pool) 32768 of
             Inl e \<Rightarrow> Inl e
           | Inr projectBase \<Rightarrow>
               Inr \<lparr>Pool = pool, Links = PrefixFrom (p_addr pool) 17,
                    Projects = PrefixFrom projectBase 17\<rparr>))"

definition Link :: "Layout \<Rightarrow> int \<Rightarrow> iso_err + prefix" where
  "Link l index =
     (if index < 0 \<or> MaxLinks \<le> index then Inl ErrLinkCapacity
      else (case addIPv4 (p_addr (Links l)) (word_of_int (index * 4)) of
              Inl e \<Rightarrow> Inl e
            | Inr a \<Rightarrow> Inr (PrefixFrom a 30)))"

definition Project :: "Layout \<Rightarrow> int \<Rightarrow> iso_err + prefix" where
  "Project l index =
     (if index < 0 \<or> MaxProjects \<le> index then Inl ErrProjectCapacity
      else (case addIPv4 (p_addr (Projects l)) (word_of_int (index * 32)) of
              Inl e \<Rightarrow> Inl e
            | Inr a \<Rightarrow> Inr (PrefixFrom a 27)))"

section \<open>components.go\<close>

definition StateReserved :: string where "StateReserved = ''reserved''"

definition StateReady :: string where "StateReady = ''ready''"

definition StateStopped :: string where "StateStopped = ''stopped''"

definition StateDegraded :: string where "StateDegraded = ''degraded''"

definition StateRemoving :: string where "StateRemoving = ''removing''"

definition StateQuarantined :: string where "StateQuarantined = ''quarantined''"

definition StateTombstoned :: string where "StateTombstoned = ''tombstoned''"

type_synonym component_addrs = "(string \<times> addr) list"

record ComponentPlan =
  Desired :: component_addrs
  Retired :: component_addrs

text \<open>The loop of \<open>normalizeComponentNames\<close> over the sorted names: empty or equal to its predecessor.\<close>

fun names_ok :: "string list \<Rightarrow> bool" where
  "names_ok [] = True"
| "names_ok [n] = (n \<noteq> [])"
| "names_ok (m # n # ns) = (m \<noteq> [] \<and> n \<noteq> m \<and> names_ok (n # ns))"

definition normalizeComponentNames :: "string list \<Rightarrow> iso_err + string list" where
  "normalizeComponentNames desired =
     (let names = sort desired in
      if \<not> names_ok names then Inl ComponentNamesNotUnique
      else if MaxComponents < length names then Inl ErrComponentCapacity
      else Inr names)"

text \<open>
  \<^verbatim>\<open>addr.As4()[3]\<close>, the last octet. The code only reads it of an address that the IPv4
  project contains.
\<close>

fun last_octet :: "addr \<Rightarrow> 8 word" where
  "last_octet (V4 a) = ucast a"
| "last_octet (V6 a _) = ucast a"
| "last_octet NoAddr = 0"

fun validateCurrentComponents :: "prefix \<Rightarrow> component_addrs \<Rightarrow> addr list \<Rightarrow> iso_err + addr list" where
  "validateCurrentComponents project [] used = Inr used"
| "validateCurrentComponents project ((name, a) # rest) used =
     (if name = [] \<or> \<not> p_contains project a then Inl (ComponentOutside name a project)
      else let offset = unat (last_octet a - last_octet (p_addr project)) in
        if offset < 2 \<or> 30 < offset then Inl (ComponentReserved name a)
        else if a \<in> set used then Inl (ComponentDuplicated a)
        else validateCurrentComponents project rest (a # used))"

definition planExistingComponents :: "component_addrs \<Rightarrow> string list \<Rightarrow> ComponentPlan" where
  "planExistingComponents current names =
     \<lparr>Desired = List.map_filter (\<lambda>n. map_option (Pair n) (map_of current n)) names,
      Retired = filter (\<lambda>(n, a). n \<notin> set names) current\<rparr>"

text \<open>The inner loop \<^verbatim>\<open>for host := 2; host <= 30; host++\<close>, until the first unused address.\<close>

definition component_host :: "prefix \<Rightarrow> nat \<Rightarrow> iso_err + addr" where
  "component_host project host = addIPv4 (p_addr project) (word_of_nat host)"

definition free_component_host :: "prefix \<Rightarrow> addr list \<Rightarrow> iso_err + addr option" where
  "free_component_host project used = first_free (component_host project) used [2 ..< 31]"

fun allocateComponentAddresses ::
  "prefix \<Rightarrow> string list \<Rightarrow> addr list \<Rightarrow> component_addrs \<Rightarrow> iso_err + component_addrs" where
  "allocateComponentAddresses project [] used desired = Inr desired"
| "allocateComponentAddresses project (name # names) used desired =
     (if map_of desired name \<noteq> None then allocateComponentAddresses project names used desired
      else (case free_component_host project used of
              Inl e \<Rightarrow> Inl e
            | Inr None \<Rightarrow> Inl ErrComponentCapacity
            | Inr (Some a) \<Rightarrow>
                allocateComponentAddresses project names (a # used) (AList.update name a desired)))"

definition PlanComponents :: "prefix \<Rightarrow> component_addrs \<Rightarrow> string list \<Rightarrow> iso_err + ComponentPlan" where
  "PlanComponents project0 current desired =
     (let project = Masked project0 in
      if \<not> p_valid project \<or> \<not> Is4 (p_addr project) \<or> Bits project \<noteq> 27
      then Inl (ProjectNotSlash27 project)
      else (case normalizeComponentNames desired of
             Inl e \<Rightarrow> Inl e
           | Inr names \<Rightarrow>
               (case validateCurrentComponents project current [] of
                  Inl e \<Rightarrow> Inl e
                | Inr used \<Rightarrow>
                    (let out = planExistingComponents current names in
                     case allocateComponentAddresses project names used (Desired out) of
                       Inl e \<Rightarrow> Inl e
                     | Inr d \<Rightarrow> Inr (out\<lparr>Desired := d\<rparr>)))))"

section \<open>modes.go\<close>

definition PayloadVM :: string where "PayloadVM = ''vm''"

definition PayloadCompose :: string where "PayloadCompose = ''compose''"

definition PayloadContainer :: string where "PayloadContainer = ''container''"

definition PayloadNative :: string where "PayloadNative = ''native''"

definition PayloadCron :: string where "PayloadCron = ''cron''"

record NetworkRequest =
  Payload :: string
  Modes :: "string list"
  Published :: bool

definition known_modes :: "string list" where
  "known_modes = [''host'', ''svc'', ''lan'', ''ts'', ''iso'']"

fun normalize_modes_loop :: "string list \<Rightarrow> string list \<Rightarrow> iso_err + string list" where
  "normalize_modes_loop [] out = Inr out"
| "normalize_modes_loop (raw # rest) out =
     (let mode = ToLower (TrimSpace raw) in
      if mode = [] then Inl ModeEmpty
      else if mode \<notin> set known_modes then Inl (ModeUnsupported raw)
      else if mode \<notin> set out then normalize_modes_loop rest (out @ [mode])
      else normalize_modes_loop rest out)"

definition NormalizeModes :: "string list \<Rightarrow> iso_err + string list" where
  "NormalizeModes modes =
     (case normalize_modes_loop modes [] of Inl e \<Rightarrow> Inl e | Inr out \<Rightarrow> Inr (sort out))"

fun hasMode :: "string list \<Rightarrow> string \<Rightarrow> bool" where
  "hasMode [] want = False"
| "hasMode (m # ms) want = (m = want \<or> hasMode ms want)"

definition validateISOCombinations :: "NetworkRequest \<Rightarrow> string list \<Rightarrow> iso_err + unit" where
  "validateISOCombinations req modes =
     (if hasMode modes ''svc'' \<or> hasMode modes ''lan'' then Inl IsoWithSvcOrLan
      else if Published req then Inl ErrPublishedPorts
      else Inr ())"

definition validateVMISOModes :: "string list \<Rightarrow> iso_err + unit" where
  "validateVMISOModes modes = (if length modes \<noteq> 1 then Inl VMIsoOnly else Inr ())"

definition validateContainerISOModes :: "string list \<Rightarrow> iso_err + unit" where
  "validateContainerISOModes modes =
     (if 2 < length modes \<or> length modes = 2 \<and> \<not> hasMode modes ''ts'' then Inl ContainerIsoModes
      else Inr ())"

definition validateSingleISOMode :: "string list \<Rightarrow> string \<Rightarrow> iso_err + unit" where
  "validateSingleISOMode modes payload =
     (if length modes \<noteq> 1 then Inl (SingleIsoOnly payload) else Inr ())"

definition validateISOPayload :: "string \<Rightarrow> string list \<Rightarrow> iso_err + unit" where
  "validateISOPayload payload modes =
     (if payload = PayloadVM then validateVMISOModes modes
      else if payload = PayloadCompose \<or> payload = PayloadContainer then validateContainerISOModes modes
      else if payload = PayloadNative then validateSingleISOMode modes ''native''
      else if payload = PayloadCron then validateSingleISOMode modes ''timer''
      else Inl (PayloadWithoutIso payload))"

definition ValidateNetwork :: "NetworkRequest \<Rightarrow> iso_err + unit" where
  "ValidateNetwork req =
     (case NormalizeModes (Modes req) of
        Inl e \<Rightarrow> Inl e
      | Inr modes \<Rightarrow>
          if hasMode modes ''host'' \<and> length modes \<noteq> 1 then Inl HostCombined
          else if \<not> hasMode modes ''iso'' then Inr ()
          else (case validateISOCombinations req modes of
                  Inl e \<Rightarrow> Inl e
                | Inr _ \<Rightarrow> validateISOPayload (Payload req) modes))"

section \<open>ranges.go\<close>

text \<open>
  \<^verbatim>\<open>netip.MustParsePrefix\<close> panics on a bad literal; \<open>nonPublic_parses\<close> below shows that
  no literal of the table is bad.
\<close>

definition MustParsePrefix :: "string \<Rightarrow> prefix" where
  "MustParsePrefix s = (case ParsePrefix4 s of Some p \<Rightarrow> p | None \<Rightarrow> no_prefix)"

definition mustPrefixes :: "string list \<Rightarrow> prefix list" where
  "mustPrefixes raw = map MustParsePrefix raw"

definition nonPublicIPv4_raw :: "string list" where
  "nonPublicIPv4_raw =
     [''0.0.0.0/8'', ''10.0.0.0/8'', ''100.64.0.0/10'', ''127.0.0.0/8'', ''169.254.0.0/16'',
      ''172.16.0.0/12'', ''192.0.0.0/29'', ''192.0.0.8/32'', ''192.0.0.11/32'', ''192.0.0.12/30'',
      ''192.0.0.16/28'', ''192.0.0.32/27'', ''192.0.0.64/26'', ''192.0.0.128/25'', ''192.0.2.0/24'',
      ''192.88.99.0/24'', ''192.168.0.0/16'', ''198.18.0.0/15'', ''198.51.100.0/24'',
      ''203.0.113.0/24'', ''224.0.0.0/4'', ''240.0.0.0/4'']"

definition nonPublicIPv4 :: "prefix list" where
  "nonPublicIPv4 = mustPrefixes nonPublicIPv4_raw"

definition IsPublicIPv4 :: "addr \<Rightarrow> prefix \<Rightarrow> bool" where
  "IsPublicIPv4 a isoPool =
     (if \<not> IsValid a \<or> \<not> Is4 a \<or> IsUnspecified a then False
      else if p_valid isoPool \<and> p_contains isoPool a then False
      else \<not> (\<exists>p \<in> set nonPublicIPv4. p_contains p a))"

definition NonPublicIPv4Prefixes :: "prefix \<Rightarrow> prefix list" where
  "NonPublicIPv4Prefixes isoPool =
     nonPublicIPv4 @ (if p_valid isoPool then [Masked isoPool] else [])"

section \<open>Address arithmetic\<close>

lemma v4_bound: "unat (b :: 32 word) < 4294967296"
  using unsigned_less [of b] by simp

lemma unat_v4_add:
  assumes "unat b + n < 4294967296"
  shows "unat (b + of_nat n :: 32 word) = unat b + n"
proof -
  have "unat (of_nat n :: 32 word) = n"
    using assms by (simp add: unat_of_nat)
  with assms show ?thesis
    by (simp add: unat_word_ariths)
qed

lemma unat_complement: "unat (- 1 - b :: 32 word) = 4294967295 - unat b"
proof -
  have "unat (- 1 :: 32 word) = 4294967295"
    by (simp add: unsigned_minus_1_eq_mask mask_eq_exp_minus_1)
  moreover have "b \<le> - 1" by simp
  ultimately show ?thesis by (simp only: unat_sub)
qed

lemma addIPv4_within:
  assumes "unat b + n < 4294967296"
  shows "addIPv4 (V4 b) (of_nat n) = Inr (V4 (b + of_nat n))"
proof -
  have "unat (of_nat n :: 32 word) = n"
    using assms by (simp add: unat_of_nat)
  then have "\<not> - 1 - b < of_nat n"
    using assms by (simp add: word_less_nat_alt unat_complement)
  then show ?thesis by (simp add: addIPv4_def)
qed

lemma addIPv4_exact: "addIPv4 (V4 b) off = Inr a \<Longrightarrow> \<exists>c. a = V4 c \<and> unat c = unat b + unat off"
proof -
  assume h: "addIPv4 (V4 b) off = Inr a"
  then have "\<not> - 1 - b < off" and a: "a = V4 (b + off)"
    by (auto simp: addIPv4_def split: if_splits)
  then have "unat off \<le> 4294967295 - unat b"
    by (simp add: word_less_nat_alt unat_complement)
  then have "unat b + unat off < 4294967296"
    using v4_bound [of b] by linarith
  then have "unat (b + off) = unat b + unat off"
    by (simp add: unat_word_ariths)
  with a show ?thesis by blast
qed

section \<open>Layout\<close>

definition layout_at :: "Layout \<Rightarrow> 32 word \<Rightarrow> bool" where
  "layout_at l b \<longleftrightarrow>
     unat b mod 65536 = 0 \<and> Pool l = v4_prefix b 16 \<and> Links l = v4_prefix b 17 \<and>
     Projects l = v4_prefix (b + of_nat 32768) 17"

lemma base_room: "unat (b :: 32 word) mod 65536 = 0 \<Longrightarrow> unat b + 65535 < 4294967296"
proof -
  assume "unat b mod 65536 = 0"
  then obtain k where "unat b = 65536 * k" by (auto simp: mod_eq_0_iff_dvd)
  with v4_bound [of b] show ?thesis by simp
qed

lemma NewLayout_at:
  assumes "NewLayout pool = Inr l"
  obtains b where "layout_at l b"
proof -
  let ?p = "Masked pool"
  from assms have ok: "p_valid ?p" "Is4 (p_addr ?p)" "Bits ?p = int 16"
    by (auto simp: NewLayout_def Let_def split: if_splits)
  then obtain b where "p_addr ?p = V4 b"
    by (cases "p_addr ?p") auto
  then have p: "?p = v4_prefix b 16"
    using ok(3) by (rule v4_prefixI)
  then obtain a where "mask_addr (V4 a) 16 = V4 b"
    by (rule Masked_v4_base)
  then have m: "unat b mod 65536 = 0"
    by (drule_tac unat_mask_addr) simp
  have "addIPv4 (V4 b) (of_nat 32768) = Inr (V4 (b + of_nat 32768))"
    by (rule addIPv4_within) (use base_room [OF m] in simp)
  with assms p m have "layout_at l b"
    using PrefixFrom_V4 [of 17 b] PrefixFrom_V4 [of 17 "b + of_nat 32768"]
    by (auto simp: NewLayout_def layout_at_def)
  then show ?thesis by (rule that)
qed

lemma Link_at:
  assumes "layout_at l b" and "i < 8192"
  shows "Link l (int i) = Inr (v4_prefix (b + of_nat (4 * i)) 30)"
proof -
  have "addIPv4 (V4 b) (of_nat (4 * i)) = Inr (V4 (b + of_nat (4 * i)))"
    by (rule addIPv4_within) (use assms base_room [of b] in \<open>auto simp: layout_at_def\<close>)
  moreover have "(word_of_int (int i * 4) :: 32 word) = of_nat (4 * i)"
    by (simp add: mult.commute)
  ultimately show ?thesis
    using assms PrefixFrom_V4 [of 30 "b + of_nat (4 * i)"]
    by (simp add: Link_def MaxLinks_def layout_at_def del: of_nat_mult)
qed

lemma Project_at:
  assumes "layout_at l b" and "i < 1024"
  shows "Project l (int i) = Inr (v4_prefix (b + of_nat (32768 + 32 * i)) 27)"
proof -
  have u: "unat (b + of_nat 32768) = unat b + 32768"
    by (rule unat_v4_add) (use assms base_room [of b] in \<open>auto simp: layout_at_def\<close>)
  have "addIPv4 (V4 (b + of_nat 32768)) (of_nat (32 * i)) = Inr (V4 (b + of_nat 32768 + of_nat (32 * i)))"
    by (rule addIPv4_within) (use assms base_room [of b] u in \<open>auto simp: layout_at_def\<close>)
  moreover have "(word_of_int (int i * 32) :: 32 word) = of_nat (32 * i)"
    by (simp add: mult.commute)
  moreover have "b + 32768 + of_nat (32 * i) = b + of_nat (32768 + 32 * i)"
    by (simp add: add.assoc)
  ultimately show ?thesis
    using assms PrefixFrom_V4 [of 27 "b + of_nat (32768 + 32 * i)"]
    by (simp add: Project_def MaxProjects_def layout_at_def del: of_nat_mult of_nat_add add.assoc)
qed

lemma Link_index: "Link l i = Inr p \<Longrightarrow> \<exists>n < 8192. i = int n"
  by (auto simp: Link_def MaxLinks_def split: if_splits intro: exI [of _ "nat i"])

lemma Project_index: "Project l i = Inr p \<Longrightarrow> \<exists>n < 1024. i = int n"
  by (auto simp: Project_def MaxProjects_def split: if_splits intro: exI [of _ "nat i"])

lemma block_of_offset:
  assumes "unat b mod 65536 = 0" and "k < 65536" and "16 \<le> n" "n \<le> 32"
  shows "block_of (b + of_nat k) n = unat b div 2 ^ (32 - n) + k div 2 ^ (32 - n)"
proof -
  have "unat (b + of_nat k) = unat b + k"
    by (rule unat_v4_add) (use assms base_room [of b] in auto)
  moreover have "(2::nat) ^ (32 - n) dvd unat b"
  proof -
    have "(2::nat) ^ (32 - n) dvd 2 ^ 16"
      using assms by (intro le_imp_power_dvd) simp
    moreover have "(2::nat) ^ 16 dvd unat b"
      using assms by (simp add: dvd_eq_mod_eq_0)
    ultimately show ?thesis by (rule dvd_trans)
  qed
  ultimately show ?thesis
    by (simp add: block_of_def div_plus_div_distrib_dvd_left)
qed

text \<open>The link and project tables as pools of the first-fit interface.\<close>

definition wf_layout :: "Layout \<Rightarrow> bool" where
  "wf_layout l \<longleftrightarrow> (case p_addr (Pool l) of V4 b \<Rightarrow> layout_at l b | _ \<Rightarrow> False)"

lemma wf_layoutE: "wf_layout l \<Longrightarrow> (\<And>b. layout_at l b \<Longrightarrow> thesis) \<Longrightarrow> thesis"
  by (auto simp: wf_layout_def split: addr.splits)

lemma layout_at_wf: "layout_at l b \<Longrightarrow> wf_layout l"
  by (auto simp: wf_layout_def layout_at_def)

lemma NewLayout_wf: "NewLayout pool = Inr l \<Longrightarrow> wf_layout l"
  by (erule NewLayout_at) (rule layout_at_wf)

lemma links_disjoint:
  assumes "wf_layout l" and "Link l i = Inr p" and "Link l j = Inr q" and "i \<noteq> j"
  shows "\<not> Overlaps p q"
proof -
  obtain b where b: "layout_at l b" using assms(1) by (rule wf_layoutE)
  obtain m n where mn: "i = int m" "j = int n" "m < 8192" "n < 8192"
    using Link_index assms(2,3) by metis
  have "block_of (b + of_nat (4 * k)) 30 = unat b div 4 + k" if "k < 8192" for k
    using that b block_of_offset [of b "4 * k" 30] by (simp add: layout_at_def)
  moreover have "p = v4_prefix (b + of_nat (4 * m)) 30" "q = v4_prefix (b + of_nat (4 * n)) 30"
    using Link_at [OF b] mn assms(2,3) by auto
  ultimately show ?thesis
    using mn assms(4) by (simp add: overlaps_v4_iff del: of_nat_mult)
qed

lemma projects_disjoint:
  assumes "wf_layout l" and "Project l i = Inr p" and "Project l j = Inr q" and "i \<noteq> j"
  shows "\<not> Overlaps p q"
proof -
  obtain b where b: "layout_at l b" using assms(1) by (rule wf_layoutE)
  obtain m n where mn: "i = int m" "j = int n" "m < 1024" "n < 1024"
    using Project_index assms(2,3) by metis
  have "block_of (b + of_nat (32768 + 32 * k)) 27 = unat b div 32 + 1024 + k" if "k < 1024" for k
    using that b block_of_offset [of b "32768 + 32 * k" 27] by (simp add: layout_at_def)
  moreover have "p = v4_prefix (b + of_nat (32768 + 32 * m)) 27"
      "q = v4_prefix (b + of_nat (32768 + 32 * n)) 27"
    using Project_at [OF b] mn assms(2,3) by auto
  ultimately show ?thesis
    using mn assms(4) by (simp add: overlaps_v4_iff del: of_nat_mult of_nat_add)
qed

lemma link_project_disjoint:
  assumes "wf_layout l" and "Link l i = Inr p" and "Project l j = Inr q"
  shows "\<not> Overlaps p q"
proof -
  obtain b where b: "layout_at l b" using assms(1) by (rule wf_layoutE)
  obtain m n where mn: "i = int m" "j = int n" "m < 8192" "n < 1024"
    using Link_index Project_index assms(2,3) by metis
  have "block_of (b + of_nat (4 * m)) 27 = unat b div 32 + m div 8"
    using mn b block_of_offset [of b "4 * m" 27] by (simp add: layout_at_def div_mult2_eq [symmetric])
  moreover have "block_of (b + of_nat (32768 + 32 * n)) 27 = unat b div 32 + 1024 + n"
    using mn b block_of_offset [of b "32768 + 32 * n" 27] by (simp add: layout_at_def)
  moreover have "m div 8 < 1024" using mn by simp
  moreover have "p = v4_prefix (b + of_nat (4 * m)) 30" "q = v4_prefix (b + of_nat (32768 + 32 * n)) 27"
    using Link_at [OF b] Project_at [OF b] mn assms(2,3) by auto
  ultimately show ?thesis
    by (simp add: overlaps_v4_iff del: of_nat_mult of_nat_add)
qed

lemma valid_overlaps_self: "p_valid p \<Longrightarrow> Overlaps p p"
  by (simp add: Overlaps_def)

interpretation link_pool: first_fit "\<lambda>l i. Link l (int i)" wf_layout 0 8192
proof
  fix l c and i j :: nat
  assume l: "wf_layout l" and "i < 8192"
  then show "\<exists>c. Link l (int i) = Inr c"
    by (metis Link_at wf_layoutE)
  assume "j < 8192" "Link l (int i) = Inr c" "Link l (int j) = Inr c"
  then show "i = j"
    using links_disjoint [OF l] Link_at l \<open>i < 8192\<close>
    by (metis valid_overlaps_self of_nat_eq_iff sum.inject(2) v4_prefix_sel(3) wf_layoutE)
qed

interpretation project_pool: first_fit "\<lambda>l i. Project l (int i)" wf_layout 0 1024
proof
  fix l c and i j :: nat
  assume l: "wf_layout l" and "i < 1024"
  then show "\<exists>c. Project l (int i) = Inr c"
    by (metis Project_at wf_layoutE)
  assume "j < 1024" "Project l (int i) = Inr c" "Project l (int j) = Inr c"
  then show "i = j"
    using projects_disjoint [OF l] Project_at l \<open>i < 1024\<close>
    by (metis valid_overlaps_self of_nat_eq_iff sum.inject(2) v4_prefix_sel(3) wf_layoutE)
qed

section \<open>Component planning\<close>

definition good_project :: "prefix \<Rightarrow> bool" where
  "good_project p \<longleftrightarrow>
     p_valid p \<and> Bits p = 27 \<and> (case p_addr p of V4 b \<Rightarrow> unat b mod 32 = 0 | _ \<Rightarrow> False)"

lemma good_projectE:
  assumes "good_project p"
  obtains b where "p = v4_prefix b 27" "unat b mod 32 = 0" "unat b + 31 < 4294967296"
proof -
  obtain b where b: "p_addr p = V4 b" "unat b mod 32 = 0" "Bits p = int 27"
    using assms by (auto simp: good_project_def split: addr.splits)
  have "p = v4_prefix b 27" using b(1,3) by (rule v4_prefixI)
  moreover obtain k where k: "unat b = 32 * k"
    using b(2) by (auto simp: mod_eq_0_iff_dvd)
  then have "k < 134217728"
    using v4_bound [of b] by linarith
  then have "unat b + 31 < 4294967296"
    using k by linarith
  ultimately show ?thesis using b(2) by (intro that)
qed

lemma good_project_Masked:
  assumes "p_valid (Masked p)" "Is4 (p_addr (Masked p))" "Bits (Masked p) = 27"
  shows "good_project (Masked p)"
proof -
  obtain b where "p_addr (Masked p) = V4 b"
    using assms(2) by (cases "p_addr (Masked p)") auto
  moreover have "Bits (Masked p) = int 27" using assms(3) by simp
  ultimately have p: "Masked p = v4_prefix b 27" by (rule v4_prefixI)
  then obtain a where "mask_addr (V4 a) 27 = V4 b" by (rule Masked_v4_base)
  then have "unat b mod 32 = 0"
    by (drule_tac unat_mask_addr) simp
  with p show ?thesis by (simp add: good_project_def)
qed

lemma component_host_at:
  "unat b + 31 < 4294967296 \<Longrightarrow> k < 32 \<Longrightarrow>
   component_host (v4_prefix b 27) k = Inr (V4 (b + of_nat k))"
  unfolding component_host_def by (simp add: addIPv4_within)

lemma component_offset:
  assumes "unat b mod 32 = 0" "unat b + 31 < 4294967296" "p_contains (v4_prefix b 27) a"
  obtains k where "k < 32" "a = V4 (b + of_nat k)" "unat (last_octet a - last_octet (V4 b)) = k"
proof -
  obtain c where a: "a = V4 c"
    using assms(3) by (cases a) (auto simp: v4_prefix_def)
  then have "unat c div 32 = unat b div 32"
    using assms(3) by (simp add: contains_v4_iff block_of_def)
  moreover have "unat c = 32 * (unat c div 32) + unat c mod 32" by simp
  moreover have "unat b = 32 * (unat b div 32)" using assms(1) by auto
  ultimately have c: "unat c = unat b + unat c mod 32" by simp
  define k where "k = unat c mod 32"
  have k: "k < 32" by (simp add: k_def)
  have "unat (b + of_nat k) = unat b + k"
    using assms(2) k by (intro unat_v4_add) simp
  then have cb: "c = b + of_nat k"
    using c by (simp add: k_def word_unat_eq_iff)
  have low: "unat (ucast x :: 8 word) = unat x mod 256" for x :: "32 word"
    by (simp add: unsigned_ucast_eq take_bit_eq_mod)
  have "(ucast (b + of_nat k) :: 8 word) = ucast b + of_nat k"
    using \<open>unat (b + of_nat k) = unat b + k\<close>
    by (simp add: word_unat_eq_iff unat_word_ariths low unat_of_nat mod_simps)
  then have "last_octet a - last_octet (V4 b) = of_nat k"
    by (simp add: a cb)
  moreover have "unat (of_nat k :: 8 word) = k"
    using k by (simp add: unat_of_nat)
  ultimately show ?thesis
    using that [of k] a cb k by simp
qed

interpretation component_pool: first_fit component_host good_project 2 31
proof
  fix p c and i j :: nat
  assume p: "good_project p" and i: "i < 31"
  obtain b where b: "p = v4_prefix b 27" "unat b + 31 < 4294967296"
    using p by (rule good_projectE)
  with i show "\<exists>c. component_host p i = Inr c"
    by (simp add: component_host_at)
  assume "j < 31" "component_host p i = Inr c" "component_host p j = Inr c"
  with b i have "V4 (b + of_nat i) = V4 (b + of_nat j)"
    using component_host_at [of b i] component_host_at [of b j] by simp
  then have "unat (b + of_nat i) = unat (b + of_nat j)" by simp
  then show "i = j"
    using b i \<open>j < 31\<close> by (simp add: unat_v4_add)
qed

text \<open>An address the project hands out to components: its hosts 2 to 30.\<close>

definition component_addr :: "prefix \<Rightarrow> addr \<Rightarrow> bool" where
  "component_addr p a \<longleftrightarrow> (\<exists>k \<in> {2 ..< 31}. component_host p k = Inr a)"

lemma validateCurrentComponents_ok:
  assumes "good_project p" and "validateCurrentComponents p cur used0 = Inr used"
    and "distinct used0"
  shows "set used = snd ` set cur \<union> set used0 \<and> distinct (map snd cur @ used0) \<and>
    (\<forall>(n, a) \<in> set cur. n \<noteq> [] \<and> component_addr p a)"
  using assms(2,3)
proof (induction cur arbitrary: used0)
  case Nil
  then show ?case by simp
next
  case (Cons na cur)
  obtain n a where na: "na = (n, a)" by (cases na)
  obtain b where b: "p = v4_prefix b 27" "unat b mod 32 = 0" "unat b + 31 < 4294967296"
    using assms(1) by (rule good_projectE)
  from Cons.prems na have h: "n \<noteq> []" "p_contains p a"
      "2 \<le> unat (last_octet a - last_octet (p_addr p))" "unat (last_octet a - last_octet (p_addr p)) \<le> 30"
      "a \<notin> set used0" "validateCurrentComponents p cur (a # used0) = Inr used"
    by (auto simp: Let_def split: if_splits)
  have "p_contains (v4_prefix b 27) a" using b(1) h(2) by simp
  with b(2,3) obtain k where "k < 32" "a = V4 (b + of_nat k)" "unat (last_octet a - last_octet (V4 b)) = k"
    by (rule component_offset)
  with b h(3,4) have "component_addr p a"
    by (auto simp: component_addr_def component_host_at intro!: bexI [of _ k])
  with Cons.IH [OF h(6)] Cons.prems(2) h na show ?case by auto
qed

lemma names_ok_sorted: "sorted ns \<Longrightarrow> names_ok ns \<longleftrightarrow> distinct ns \<and> [] \<notin> set ns"
  by (induction ns rule: names_ok.induct) (auto simp: order.antisym)

lemma normalizeComponentNames_ok:
  "normalizeComponentNames desired = Inr names \<longleftrightarrow>
   names = sort desired \<and> distinct desired \<and> [] \<notin> set desired \<and> length desired \<le> MaxComponents"
  by (auto simp: normalizeComponentNames_def Let_def names_ok_sorted)

lemma allocateComponentAddresses_ok:
  assumes "allocateComponentAddresses p names used desired = Inr d"
    and "distinct (map fst desired)" "distinct (map snd desired)" "snd ` set desired \<subseteq> set used"
  shows "\<exists>new. d = desired @ new \<and> distinct (map fst d) \<and> distinct (map snd d) \<and>
    fst ` set d = fst ` set desired \<union> set names \<and>
    (\<forall>(n, a) \<in> set new. a \<notin> set used \<and> component_addr p a)"
  using assms
proof (induction p names used desired rule: allocateComponentAddresses.induct)
  case (1 p used desired)
  then show ?case by simp
next
  case (2 p name names used desired)
  show ?case
  proof (cases "map_of desired name")
    case (Some a)
    then have "name \<in> fst ` set desired"
      by (metis domI dom_map_of_conv_image_fst)
    then have names: "fst ` set desired \<union> set (name # names) = fst ` set desired \<union> set names"
      by auto
    show ?thesis
      unfolding names using Some "2.prems" by (intro "2.IH"(1)) simp_all
  next
    case None
    then have fresh: "name \<notin> fst ` set desired"
      by (simp add: map_of_eq_None_iff)
    from None "2.prems"(1) obtain a where a: "free_component_host p used = Inr (Some a)"
        and rec: "allocateComponentAddresses p names (a # used) (desired @ [(name, a)]) = Inr d"
      by (auto simp: update_fresh split: sum.splits option.splits)
    have a': "a \<notin> set used" "component_addr p a"
      using component_pool.fresh component_pool.in_pool a
      unfolding free_component_host_def component_addr_def by fastforce+
    have "a \<notin> snd ` set desired" using a'(1) "2.prems"(4) by blast
    with fresh "2.prems" have "distinct (map fst (desired @ [(name, a)]))"
        "distinct (map snd (desired @ [(name, a)]))" "snd ` set (desired @ [(name, a)]) \<subseteq> set (a # used)"
      by auto
    then obtain new where new: "d = (desired @ [(name, a)]) @ new" "distinct (map fst d)"
        "distinct (map snd d)" "fst ` set d = fst ` set (desired @ [(name, a)]) \<union> set names"
        "\<forall>(n, x) \<in> set new. x \<notin> set (a # used) \<and> component_addr p x"
      using "2.IH"(2) [OF _ a refl] None rec by (auto simp: update_fresh)
    show ?thesis
    proof (intro exI [of _ "(name, a) # new"] conjI)
      show "fst ` set d = fst ` set desired \<union> set (name # names)"
        using new(4) by auto
      show "\<forall>(n, x) \<in> set ((name, a) # new). x \<notin> set used \<and> component_addr p x"
        using new(5) a' by auto
    qed (use new in simp_all)
  qed
qed

lemma planExisting_Desired:
  "set (Desired (planExistingComponents cur names)) = {(n, a). n \<in> set names \<and> map_of cur n = Some a}"
  by (force simp: planExistingComponents_def List.map_filter_def)

lemma planExisting_lookup:
  "map_of (Desired (planExistingComponents cur names)) n = None \<longleftrightarrow> n \<notin> set names \<or> n \<notin> fst ` set cur"
proof -
  have "map_of cur n = None \<longleftrightarrow> n \<notin> fst ` set cur" by (rule map_of_eq_None_iff)
  moreover have "n \<in> fst ` {(m, a). m \<in> set names \<and> map_of cur m = Some a} \<longleftrightarrow>
      n \<in> set names \<and> map_of cur n \<noteq> None"
    by force
  ultimately show ?thesis
    by (subst map_of_eq_None_iff) (simp add: planExisting_Desired)
qed

lemma map_fst_map_filter:
  "map fst (List.map_filter (\<lambda>n. map_option (Pair n) (f n)) ns) = filter (\<lambda>n. f n \<noteq> None) ns"
  by (induction ns) (auto simp: List.map_filter_def)

lemma planExisting_ok:
  assumes "distinct names" and "distinct (map snd cur)"
  defines "d \<equiv> Desired (planExistingComponents cur names)"
  shows "distinct (map fst d) \<and> distinct (map snd d) \<and> set d \<subseteq> set cur"
proof -
  have keys: "distinct (map fst d)"
    using assms(1) by (simp add: d_def planExistingComponents_def map_fst_map_filter)
  have sub: "set d \<subseteq> set cur"
    unfolding d_def planExisting_Desired by (auto dest: map_of_SomeD)
  have "inj_on snd (set cur)"
    using assms(2) by (simp add: distinct_map)
  with sub have "inj_on snd (set d)" by (rule inj_on_subset [rotated])
  moreover have "distinct d" using keys by (simp add: distinct_map)
  ultimately show ?thesis using keys sub by (simp add: distinct_map)
qed

lemma free_component_host_succeeds:
  "good_project p \<Longrightarrow> card (set used) < 29 \<Longrightarrow> \<exists>a. free_component_host p used = Inr (Some a)"
  unfolding free_component_host_def by (rule component_pool.succeeds_below_capacity) simp_all

lemma allocateComponentAddresses_succeeds:
  assumes "good_project p" and "distinct names"
    and "card (set used) + length (filter (\<lambda>n. map_of desired n = None) names) \<le> 29"
  shows "\<exists>d. allocateComponentAddresses p names used desired = Inr d"
  using assms(2,3)
proof (induction names arbitrary: used desired)
  case Nil
  then show ?case by simp
next
  case (Cons name names)
  show ?case
  proof (cases "map_of desired name")
    case (Some a)
    with Cons show ?thesis by simp
  next
    case None
    with Cons.prems have "card (set used) < 29" by simp
    then obtain a where a: "free_component_host p used = Inr (Some a)"
      using free_component_host_succeeds [OF assms(1)] by blast
    let ?d = "AList.update name a desired"
    have "filter (\<lambda>n. map_of ?d n = None) names = filter (\<lambda>n. map_of desired n = None) names"
      using Cons.prems(1) by (intro filter_cong) (auto simp: map_of_update)
    moreover have "card (set (a # used)) \<le> Suc (card (set used))"
      by (simp add: card_insert_if)
    ultimately have "card (set (a # used)) + length (filter (\<lambda>n. map_of ?d n = None) names) \<le> 29"
      using Cons.prems None by simp
    then have "\<exists>d. allocateComponentAddresses p names (a # used) ?d = Inr d"
      using Cons.prems(1) by (intro Cons.IH) simp_all
    with None a show ?thesis by simp
  qed
qed

section \<open>Modes\<close>

lemma hasMode_iff [simp]: "hasMode ms m \<longleftrightarrow> m \<in> set ms"
  by (induction ms) auto

lemma normalize_modes_loop_ok:
  "normalize_modes_loop ms out = Inr r \<Longrightarrow> distinct out \<Longrightarrow> set out \<subseteq> set known_modes \<Longrightarrow>
   distinct r \<and> set r \<subseteq> set known_modes \<and> set r = set out \<union> (\<lambda>m. ToLower (TrimSpace m)) ` set ms"
  by (induction ms out rule: normalize_modes_loop.induct) (auto simp: Let_def split: if_splits)

lemma NormalizeModes_ok:
  assumes "NormalizeModes ms = Inr r"
  shows "sorted r \<and> distinct r \<and> set r \<subseteq> set known_modes \<and>
    set r = (\<lambda>m. ToLower (TrimSpace m)) ` set ms"
proof -
  obtain out where "normalize_modes_loop ms [] = Inr out" "r = sort out"
    using assms by (auto simp: NormalizeModes_def split: sum.splits)
  then show ?thesis using normalize_modes_loop_ok [of ms "[]" out] by auto
qed

lemma sorted_distinct_subset2:
  "sorted ms \<Longrightarrow> distinct ms \<Longrightarrow> set ms = {x, y} \<Longrightarrow> x < y \<Longrightarrow> ms = [x, y :: string]"
  by (rule sorted_distinct_set_unique) auto

lemma contains_Masked_v4: "p_contains (Masked p) (V4 a) = p_contains p (V4 a)"
proof (cases "p_valid p \<and> Is4 (p_addr p)")
  case True
  then obtain b where "p_addr p = V4 b" by (cases "p_addr p") auto
  then have p: "p = v4_prefix b (bits_plus_one p - 1)"
    using True by (cases p) (auto simp: v4_prefix_def p_valid_def)
  have "p_contains (Masked (v4_prefix b n)) (V4 a) = p_contains (v4_prefix b n) (V4 a)" for n
    unfolding Masked_v4 contains_v4_iff by (metis block_of_mask mask_addr.simps(2))
  then show ?thesis by (metis p)
next
  case False
  then show ?thesis
    by (cases p; cases "p_addr p") (auto simp: Masked_def p_valid_def no_prefix_def)
qed

lemma Link_cases:
  assumes "wf_layout l" "Link l i = Inr p"
  obtains b n where "layout_at l b" "n < 8192" "i = int n" "p = v4_prefix (b + of_nat (4 * n)) 30"
proof -
  obtain b where b: "layout_at l b" using assms(1) by (rule wf_layoutE)
  obtain n where n: "n < 8192" "i = int n" using Link_index assms(2) by blast
  with Link_at [OF b n(1)] assms(2) show ?thesis using that [OF b n] by simp
qed

lemma Project_cases:
  assumes "wf_layout l" "Project l i = Inr p"
  obtains b n where "layout_at l b" "n < 1024" "i = int n" "p = v4_prefix (b + of_nat (32768 + 32 * n)) 27"
proof -
  obtain b where b: "layout_at l b" using assms(1) by (rule wf_layoutE)
  obtain n where n: "n < 1024" "i = int n" using Project_index assms(2) by blast
  with Project_at [OF b n(1)] assms(2) show ?thesis using that [OF b n] by simp
qed

lemma aligned_Masked:
  assumes "n \<le> 32" "unat a mod 2 ^ (32 - n) = 0"
  shows "Masked (v4_prefix a n) = v4_prefix a n"
proof -
  obtain b where b: "mask_addr (V4 a) n = V4 b" by simp
  have "unat b = unat a" using unat_mask_addr [OF b] assms(2) by (simp add: block_of_def minus_mod_eq_mult_div [symmetric])
  then have "b = a" by (simp only: word_unat_eq_iff)
  with b show ?thesis by (simp add: Masked_v4)
qed

lemma Link_Masked: "wf_layout l \<Longrightarrow> Link l i = Inr p \<Longrightarrow> Masked p = p"
proof (erule (1) Link_cases)
  fix b n
  assume b: "layout_at l b" "n < 8192" "p = v4_prefix (b + of_nat (4 * n)) 30"
  then have m: "unat b mod 65536 = 0" by (simp add: layout_at_def)
  have "unat (b + of_nat (4 * n)) = unat b + 4 * n"
    by (rule unat_v4_add) (use base_room [OF m] b(2) in simp)
  moreover have "unat b mod 4 = 0" using m mod_mod_cancel [of 4 65536 "unat b"] by simp
  ultimately have "unat (b + of_nat (4 * n)) mod 4 = 0" by (simp add: mod_simps del: of_nat_mult)
  then have "unat (b + of_nat (4 * n)) mod 2 ^ (32 - 30) = 0" by simp
  then show ?thesis unfolding b(3) by (intro aligned_Masked) simp_all
qed

lemma Project_Masked: "wf_layout l \<Longrightarrow> Project l i = Inr p \<Longrightarrow> Masked p = p"
proof (erule (1) Project_cases)
  fix b n
  assume b: "layout_at l b" "n < 1024" "p = v4_prefix (b + of_nat (32768 + 32 * n)) 27"
  then have m: "unat b mod 65536 = 0" by (simp add: layout_at_def)
  have "unat (b + of_nat (32768 + 32 * n)) = unat b + (32768 + 32 * n)"
    by (rule unat_v4_add) (use base_room [OF m] b(2) in simp)
  moreover have "unat b mod 32 = 0" using m mod_mod_cancel [of 32 65536 "unat b"] by simp
  moreover have "(32768 + 32 * n) mod 32 = 0" by simp
  ultimately have "unat (b + of_nat (32768 + 32 * n)) mod 32 = 0"
    using mod_add_eq [of "unat b" 32 "32768 + 32 * n"] by (simp del: of_nat_mult of_nat_add)
  then have "unat (b + of_nat (32768 + 32 * n)) mod 2 ^ (32 - 27) = 0" by simp
  then show ?thesis unfolding b(3) by (intro aligned_Masked) simp_all
qed

section \<open>Properties\<close>


definition preferred_layout :: Layout where
  "preferred_layout =
     \<lparr>Pool = v4_prefix 0xAC1E0000 16, Links = v4_prefix 0xAC1E0000 17, Projects = v4_prefix 0xAC1E8000 17\<rparr>"

lemma preferred_layout: "NewLayout (MustParsePrefix ''172.30.0.0/16'') = Inr preferred_layout"
  by code_simp


lemma PlanComponents_ok:
  assumes "PlanComponents project cur desired = Inr plan" and "distinct (map fst cur)"
  shows "fst ` set (Desired plan) = set desired \<and> distinct (map fst (Desired plan)) \<and>
    (\<forall>n \<in> set desired. \<forall>a. map_of cur n = Some a \<longrightarrow> map_of (Desired plan) n = Some a) \<and>
    Retired plan = filter (\<lambda>(n, a). n \<notin> set desired) cur \<and>
    distinct (map snd (Desired plan @ Retired plan)) \<and>
    (\<forall>(n, a) \<in> set (Desired plan @ Retired plan). component_addr (Masked project) a)"
proof -
  let ?p = "Masked project"
  from assms(1) have g: "good_project ?p"
    by (intro good_project_Masked) (auto simp: PlanComponents_def Let_def split: if_splits)
  from assms(1) obtain names used d where
      names: "normalizeComponentNames desired = Inr names"
      and used: "validateCurrentComponents ?p cur [] = Inr used"
      and d: "allocateComponentAddresses ?p names used (Desired (planExistingComponents cur names)) = Inr d"
      and plan: "plan = (planExistingComponents cur names)\<lparr>Desired := d\<rparr>"
    by (auto simp: PlanComponents_def Let_def split: if_splits sum.splits)
  have n: "set names = set desired" "distinct names"
    using names by (auto simp: normalizeComponentNames_ok)
  have u: "set used = snd ` set cur" "distinct (map snd cur)" "\<forall>(n, a) \<in> set cur. component_addr ?p a"
    using validateCurrentComponents_ok [OF g used] by auto
  define e where "e = Desired (planExistingComponents cur names)"
  have e: "distinct (map fst e)" "distinct (map snd e)" "set e \<subseteq> set cur"
    using planExisting_ok [OF n(2) u(2)] by (simp_all add: e_def)
  then have "snd ` set e \<subseteq> set used" using u(1) by auto
  with allocateComponentAddresses_ok [OF d] e obtain new where new: "d = e @ new"
      "distinct (map fst d)" "distinct (map snd d)" "fst ` set d = fst ` set e \<union> set names"
      "\<forall>(n, a) \<in> set new. a \<notin> set used \<and> component_addr ?p a"
    by (auto simp: e_def)
  have "fst ` set e \<subseteq> set names" by (auto simp: e_def planExisting_Desired)
  then have keys: "fst ` set (Desired plan) = set desired"
    using new(4) n(1) by (auto simp: plan)
  have ret: "Retired plan = filter (\<lambda>(n, a). n \<notin> set desired) cur"
    by (simp add: plan planExistingComponents_def n(1))
  have stable: "map_of (Desired plan) m = Some a" if "m \<in> set desired" "map_of cur m = Some a" for m a
  proof -
    have "(m, a) \<in> set e" using that n(1) by (simp add: e_def planExisting_Desired)
    then show ?thesis using new(1,2) by (simp add: plan map_of_eq_Some_iff)
  qed
  have "snd ` set e \<inter> snd ` set (Retired plan) = {}"
  proof (rule ccontr)
    assume "\<not> ?thesis"
    then obtain x y where xy: "x \<in> set e" "y \<in> set (Retired plan)" "snd x = snd y" by auto
    have "inj_on snd (set cur)" using u(2) by (simp add: distinct_map)
    then have "x = y" using xy e(3) by (auto simp: ret dest: inj_onD)
    moreover have "fst x \<in> set desired" using xy(1) \<open>fst ` set e \<subseteq> set names\<close> n(1) by auto
    ultimately show False using xy(2) by (auto simp: ret)
  qed
  moreover have "snd ` set new \<inter> snd ` set (Retired plan) = {}"
    using new(5) u(1) by (force simp: ret)
  moreover have "distinct (map snd (Retired plan))"
    unfolding ret using u(2) by (simp add: distinct_map_filter)
  ultimately have "distinct (map snd (Desired plan @ Retired plan))"
    using new(1,3) by (auto simp: plan)
  moreover have "set (Desired plan @ Retired plan) \<subseteq> set cur \<union> set new"
    using new(1) e(3) by (auto simp: ret) (auto simp: plan)
  then have "\<forall>(n, a) \<in> set (Desired plan @ Retired plan). component_addr ?p a"
    using new(5) u(3) by blast
  ultimately show ?thesis
    using keys new(2) stable ret by (simp add: plan)
qed

text \<open>
  C3: a successful plan gives an address to exactly the requested components; a component that
  had an address keeps it; the components no longer requested are exactly the retired ones, with
  their addresses; no two components, active or retired, share an address; and every address is
  one of the hosts 2 to 30 of the project.
\<close>

theorem PlanComponents_correct:
  assumes "PlanComponents project cur desired = Inr plan" and "distinct (map fst cur)"
  shows "fst ` set (Desired plan) = set desired \<and> distinct (map fst (Desired plan)) \<and>
    (\<forall>n \<in> set desired. \<forall>a. map_of cur n = Some a \<longrightarrow> map_of (Desired plan) n = Some a) \<and>
    Retired plan = filter (\<lambda>(n, a). n \<notin> set desired) cur \<and>
    distinct (map snd (Desired plan @ Retired plan)) \<and>
    (\<forall>(n, a) \<in> set (Desired plan @ Retired plan). component_addr (Masked project) a)"
  using assms by (rule PlanComponents_ok)

theorem PlanComponents_correct_witness:
  "\<exists>plan. PlanComponents (v4_prefix 0xAC1E8020 27)
       [(''db'', V4 0xAC1E8023), (''old'', V4 0xAC1E8022)] [''web'', ''db''] = Inr plan \<and>
     map_of (Desired plan) ''db'' = Some (V4 0xAC1E8023) \<and> fst ` set (Desired plan) = {''web'', ''db''}"
proof -
  let ?cur = "[(''db'', V4 0xAC1E8023), (''old'', V4 0xAC1E8022)]"
  have r: "PlanComponents (v4_prefix 0xAC1E8020 27) ?cur [''web'', ''db''] =
      Inr \<lparr>Desired = [(''db'', V4 0xAC1E8023), (''web'', V4 0xAC1E8024)],
           Retired = [(''old'', V4 0xAC1E8022)]\<rparr>"
    by code_simp
  show ?thesis using PlanComponents_correct [OF r] r by simp
qed

lemma PlanComponents_succeeds:
  assumes "p_valid (Masked project)" "Is4 (p_addr (Masked project))" "Bits (Masked project) = 27"
    and "validateCurrentComponents (Masked project) cur [] = Inr used"
    and "distinct desired" "[] \<notin> set desired" "distinct (map fst cur)"
    and "card (fst ` set cur \<union> set desired) \<le> 29"
  shows "\<exists>plan. PlanComponents project cur desired = Inr plan"
proof -
  let ?p = "Masked project"
  have g: "good_project ?p" using assms(1-3) by (rule good_project_Masked)
  have "length desired = card (set desired)" using assms(5) by (simp add: distinct_card)
  also have "\<dots> \<le> card (fst ` set cur \<union> set desired)" by (rule card_mono) auto
  finally have n: "normalizeComponentNames desired = Inr (sort desired)"
    using assms(5,6,8) by (simp add: normalizeComponentNames_ok MaxComponents_def)
  have u: "set used = snd ` set cur" "distinct (map snd cur)"
    using validateCurrentComponents_ok [OF g assms(4)] by auto
  have "card (set used) = card (fst ` set cur)"
    using u assms(7) by (metis distinct_card length_map list.set_map)
  moreover have "filter (\<lambda>m. map_of (Desired (planExistingComponents cur (sort desired))) m = None) (sort desired)
      = filter (\<lambda>m. m \<notin> fst ` set cur) (sort desired)"
    by (intro filter_cong) (auto simp: planExisting_lookup)
  moreover have "length (filter (\<lambda>m. m \<notin> fst ` set cur) (sort desired)) = card (set desired - fst ` set cur)"
    using assms(5) by (subst distinct_card [symmetric]) (auto intro: arg_cong [where f = card])
  moreover have "card (fst ` set cur) + card (set desired - fst ` set cur) = card (fst ` set cur \<union> set desired)"
    by (metis Diff_disjoint List.finite_set Un_Diff_cancel card_Un_disjoint finite_Diff finite_imageI)
  ultimately have "\<exists>d. allocateComponentAddresses ?p (sort desired) used
      (Desired (planExistingComponents cur (sort desired))) = Inr d"
    using assms(5,8) by (intro allocateComponentAddresses_succeeds [OF g]) simp_all
  then show ?thesis
    using assms(1-4) n by (auto simp: PlanComponents_def Let_def)
qed

text \<open>
  Planning succeeds whenever it can: for a /27 project whose current components validate,
  non-empty distinct names, and at most 29 names among the current and the requested ones.
\<close>

theorem PlanComponents_total:
  assumes "p_valid (Masked project)" "Is4 (p_addr (Masked project))" "Bits (Masked project) = 27"
    and "validateCurrentComponents (Masked project) cur [] = Inr used"
    and "distinct desired" "[] \<notin> set desired" "distinct (map fst cur)"
    and "card (fst ` set cur \<union> set desired) \<le> 29"
  shows "\<exists>plan. PlanComponents project cur desired = Inr plan"
  using assms by (rule PlanComponents_succeeds)

theorem PlanComponents_total_witness:
  "\<exists>plan. PlanComponents (v4_prefix 0xAC1E8020 27) [(''db'', V4 0xAC1E8023)] [''web''] = Inr plan"
  by (rule PlanComponents_total [where used = "[V4 0xAC1E8023]"]) code_simp+

text \<open>
  Which requests with the isolated mode are accepted: never with published ports, alone for
  VMs, native and cron payloads, alone or with \<open>ts\<close> for compose and container payloads, and
  for no other payload.
\<close>

theorem ValidateNetwork_iso_iff:
  assumes "NormalizeModes (Modes req) = Inr ms" and "''iso'' \<in> set ms"
  shows "ValidateNetwork req = Inr () \<longleftrightarrow>
    \<not> Published req \<and>
    (Payload req \<in> {PayloadVM, PayloadNative, PayloadCron} \<and> ms = [''iso''] \<or>
     Payload req \<in> {PayloadCompose, PayloadContainer} \<and> (ms = [''iso''] \<or> ms = [''iso'', ''ts'']))"
proof -
  have ok: "sorted ms" "distinct ms" "set ms \<subseteq> set known_modes"
    using NormalizeModes_ok [OF assms(1)] by auto
  have one: "length ms = 1 \<longleftrightarrow> ms = [''iso'']"
    using assms(2) by (cases ms) auto
  have two: "length ms = 2 \<and> ''ts'' \<in> set ms \<longleftrightarrow> ms = [''iso'', ''ts'']"
  proof
    assume h: "length ms = 2 \<and> ''ts'' \<in> set ms"
    then have "card (set ms) = 2" using ok(2) by (simp add: distinct_card)
    then have "set ms = {''iso'', ''ts''}"
      using h assms(2) by (intro card_subset_eq [symmetric]) auto
    then show "ms = [''iso'', ''ts'']"
      using ok by (intro sorted_distinct_subset2) simp_all
  qed simp
  have "2 < length ms \<or> length ms = 2 \<and> ''ts'' \<notin> set ms \<longleftrightarrow> \<not> (ms = [''iso''] \<or> ms = [''iso'', ''ts''])"
    using one two assms(2) by (cases ms; cases "tl ms") (auto simp: le_Suc_eq not_less)
  then show ?thesis
    using assms one
    by (auto simp: ValidateNetwork_def validateISOCombinations_def validateISOPayload_def
        validateVMISOModes_def validateContainerISOModes_def validateSingleISOMode_def
        PayloadVM_def PayloadNative_def PayloadCron_def PayloadCompose_def PayloadContainer_def)
qed

theorem ValidateNetwork_iso_iff_witness:
  "ValidateNetwork \<lparr>Payload = PayloadCompose, Modes = ['' TS'', ''iso''], Published = False\<rparr> = Inr ()"
proof -
  let ?r = "\<lparr>Payload = PayloadCompose, Modes = ['' TS'', ''iso''], Published = False\<rparr>"
  have "NormalizeModes (Modes ?r) = Inr [''iso'', ''ts'']" by code_simp
  from ValidateNetwork_iso_iff [OF this] show ?thesis by simp
qed

lemma nonPublic_parses: "list_all (\<lambda>s. ParsePrefix4 s \<noteq> None) nonPublicIPv4_raw"
  by code_simp

text \<open>
  The two readings of the range table agree: an address counts as public exactly when it is
  IPv4 and no prefix of the deny list built for the firewall, the pool included, contains it.
\<close>

theorem IsPublicIPv4_iff:
  "IsPublicIPv4 a pool \<longleftrightarrow> Is4 a \<and> \<not> list_ex (\<lambda>p. p_contains p a) (NonPublicIPv4Prefixes pool)"
proof (cases a)
  case (V4 x)
  have "MustParsePrefix ''0.0.0.0/8'' = v4_prefix 0 8" by code_simp
  then have "v4_prefix 0 8 \<in> set nonPublicIPv4"
    by (simp add: nonPublicIPv4_def mustPrefixes_def nonPublicIPv4_raw_def)
  moreover have "p_contains (v4_prefix 0 8) (V4 0)" by code_simp
  moreover have "p_contains (Masked pool) (V4 x) = p_contains pool (V4 x)"
    by (rule contains_Masked_v4)
  ultimately show ?thesis
    unfolding V4 IsPublicIPv4_def NonPublicIPv4Prefixes_def by (auto simp: list_ex_iff)
qed (simp_all add: IsPublicIPv4_def)

end
