(* ===== verification/Db_Types.thy ===== *)
theory Db_Types
  imports Iso_Net
begin

text \<open>
  Package db, the data model (\<^verbatim>\<open>src/pkg/db/db.go\<close> and migrate.go): every struct of the
  JSON database as a record with the fields in the order of the source, a field of struct
  \<open>T\<close> carrying a short prefix for \<open>T\<close>. A pointer is an option, a map an association list;
  a \<open>Clone\<close> is the identity because records are values. Then the accessors of the artifact
  and sandbox stores, the port keys (\<open>ProtoPort\<close>), and the migrations from one data version
  to the next.

  The lemmas: a port key parses back to what was printed, printing is injective, and
  migration ends in the current version, is idempotent and only moves the deprecated
  endpoint addresses.
\<close>

datatype type_err = NilDeref | ScanErr

section \<open>Isolated network records\<close>

record ISOPool =
  pool_Prefix :: prefix
  pool_Source :: string
  pool_AllocatorVersion :: int
  pool_PolicyVersion :: int
  pool_AggregateRouteState :: string
  pool_LastConflict :: string

record ISOComponent =
  comp_Address :: addr
  comp_State :: string

record ISOAllocation =
  iso_Kind :: string
  iso_State :: string
  iso_Link :: prefix
  iso_HostIP :: addr
  iso_PeerIP :: addr
  iso_Project :: prefix
  iso_Gateway :: addr
  iso_Interface :: string
  iso_PeerInterface :: string
  iso_NetNS :: string
  iso_Bridge :: string
  iso_Components :: "(string \<times> ISOComponent) list"
  iso_RetiredComponents :: "(string \<times> ISOComponent) list"
  iso_DesiredModes :: "string list"
  iso_AllocatorVersion :: int
  iso_PolicyVersion :: int
  iso_RemoveRequested :: bool
  iso_CleanupVerified :: bool
  iso_RemoveCleanData :: bool
  iso_LastError :: string

section \<open>Docker network records\<close>

record EndpointPort =
  ep_EndpointID :: string
  ep_Port :: "16 word"

record ProtoPort =
  pp_Proto :: int
  pp_Port :: "16 word"

record DockerEndpoint =
  de_EndpointID :: string
  de_IPv4 :: prefix

record DockerNetwork =
  dn_NetworkID :: string
  dn_NetNS :: string
  dn_Mode :: string
  dn_IPv4Gateway :: prefix
  dn_IPv4Range :: prefix
  dn_Endpoints :: "(string \<times> DockerEndpoint option) list"
  dn_EndpointAddrs :: "(string \<times> prefix) list"
  dn_PortMap :: "(string \<times> EndpointPort option) list"

section \<open>Images, volumes, identity and sandbox records\<close>

record ImageManifest =
  im_ContentType :: string
  im_BlobHash :: string

record ImageRepo =
  ir_Refs :: "(string \<times> ImageManifest) list"

record Volume =
  vol_Name :: string
  vol_Src :: string
  vol_Path :: string
  vol_Type :: string
  vol_Opts :: string
  vol_Deps :: string

record ServiceIdentity =
  id_RequestedUser :: string
  id_RequestedGroup :: string
  id_UID :: "32 word"
  id_GID :: "32 word"

record ServiceSandboxExposure =
  sx_Source :: string
  sx_Destination :: string

record ServiceSandboxPolicy =
  sp_State :: string
  sp_ReadOnly :: "ServiceSandboxExposure list"
  sp_Writable :: "ServiceSandboxExposure list"

record ServiceSandboxStore =
  ss_Refs :: "(string \<times> ServiceSandboxPolicy option) list"

record Artifact =
  art_Refs :: "(string \<times> string) list"

type_synonym ArtifactStore = "(string \<times> Artifact option) list"

record SnapshotPolicy =
  snap_Enabled :: "bool option"
  snap_KeepLast :: "int option"
  snap_MaxAge :: string
  snap_Events :: "string list option"
  snap_Required :: "bool option"

section \<open>Network records of a service\<close>

record ServiceNetworkConfig =
  snc_Modes :: "string list"
  snc_TSVersion :: string
  snc_TSExitNode :: string
  snc_TSTags :: "string list"
  snc_MacvlanParent :: string
  snc_MacvlanVLAN :: int
  snc_MacvlanMAC :: string

record TailscaleNetwork =
  ts_Interface :: string
  ts_Version :: string
  ts_ExitNode :: string
  ts_Tags :: "string list"
  ts_StableID :: string

record MacvlanNetwork =
  mv_Interface :: string
  mv_Mac :: string
  mv_Parent :: string
  mv_VLAN :: int

record SvcNetwork =
  svcnet_IPv4 :: addr

section \<open>VM records\<close>

record VMHostConfig =
  vmh_MemoryPolicy :: string
  vmh_RuntimePolicy :: string
  vmh_RuntimeChannel :: string
  vmh_ProtectedRuntimeIDs :: "string list"

record VMGuestBaseConfig =
  gb_ID :: string
  gb_ManifestSHA256 :: string
  gb_Source :: string
  gb_RootFSProvenance :: string

record VMKernelArtifactConfig =
  ka_ID :: string
  ka_ManifestSHA256 :: string
  ka_SHA256 :: string
  ka_Path :: string
  ka_Source :: string

record VMRuntimeArtifactConfig =
  ra_ID :: string
  ra_ManifestSHA256 :: string
  ra_FirecrackerSHA256 :: string
  ra_JailerSHA256 :: string
  ra_Firecracker :: string
  ra_Jailer :: string
  ra_Source :: string

record VMRuntimeTrialConfig =
  rt_State :: string
  rt_CandidateID :: string
  rt_PreviousID :: string
  rt_RecoveryPoint :: string
  rt_StartedAt :: string
  rt_LastError :: string

record VMRuntimeLifecycleConfig =
  rl_Policy :: string
  rl_Channel :: string
  rl_Configured :: VMRuntimeArtifactConfig
  rl_Staged :: "VMRuntimeArtifactConfig option"
  rl_Previous :: "VMRuntimeArtifactConfig option"
  rl_Trial :: "VMRuntimeTrialConfig option"

record VMComponentsConfig =
  vc_GuestBase :: VMGuestBaseConfig
  vc_Kernel :: VMKernelArtifactConfig
  vc_Runtime :: VMRuntimeLifecycleConfig

record VMBalloonConfig =
  vb_Mode :: string
  vb_MinBytes :: int
  vb_StatsIntervalSeconds :: int
  vb_LastTargetBytes :: int

record VMImageConfig =
  vi_Payload :: string
  vi_Version :: string
  vi_Digest :: string
  vi_Kernel :: string
  vi_RootFS :: string
  vi_Distro :: string
  vi_DistroVersion :: string
  vi_DefaultUser :: string
  vi_GuestSystemInit :: string
  vi_MetadataDriver :: string

record VMDiskConfig =
  vd_Backend :: string
  vd_Bytes :: int
  vd_Path :: string

record VMNetworkConfig =
  vn_Mode :: string
  vn_Interface :: string
  vn_Tap :: string
  vn_MAC :: string
  vn_IP :: addr
  vn_Parent :: string
  vn_VLAN :: int

record VMSSHConfig =
  vs_User :: string
  vs_KeyRef :: string
  vs_KnownHosts :: string

record VMConsoleConfig =
  vco_SocketPath :: string
  vco_LogPath :: string

record VMSocketConfig =
  vso_APISocketPath :: string
  vso_VsockSocketPath :: string
  vso_VsockGuestCID :: "32 word"

record VMConfig =
  vm_Runtime :: string
  vm_Image :: VMImageConfig
  vm_Components :: "VMComponentsConfig option"
  vm_CPUs :: int
  vm_MemoryBytes :: int
  vm_Balloon :: VMBalloonConfig
  vm_Disk :: VMDiskConfig
  vm_Networks :: "VMNetworkConfig list"
  vm_SSH :: VMSSHConfig
  vm_Console :: VMConsoleConfig
  vm_Sockets :: VMSocketConfig
  vm_PIDFile :: string
  vm_SetupState :: string

section \<open>Services and the database\<close>

definition ServiceTypeDockerCompose :: string where "ServiceTypeDockerCompose = ''docker-compose''"

definition ServiceTypeSystemd :: string where "ServiceTypeSystemd = ''systemd''"

definition ServiceTypeVM :: string where "ServiceTypeVM = ''vm''"

record Service =
  svc_Name :: string
  svc_ServiceType :: string
  svc_Identity :: "ServiceIdentity option"
  svc_Sandbox :: "ServiceSandboxStore option"
  svc_IdentityInstallPending :: bool
  svc_ServiceRoot :: string
  svc_ServiceRootZFS :: string
  svc_SnapshotPolicy :: "SnapshotPolicy option"
  svc_Generation :: int
  svc_LatestGeneration :: int
  svc_Publish :: "string list"
  svc_Artifacts :: ArtifactStore
  svc_Network :: "ServiceNetworkConfig option"
  svc_SvcNetwork :: "SvcNetwork option"
  svc_Macvlan :: "MacvlanNetwork option"
  svc_TSNet :: "TailscaleNetwork option"
  svc_VM :: "VMConfig option"
  svc_ISO :: "ISOAllocation option"

record Data =
  DataVersion :: int
  SnapshotDefaults :: "SnapshotPolicy option"
  VMHost :: "VMHostConfig option"
  data_ISOPool :: "ISOPool option"
  Services :: "(string \<times> Service option) list"
  Images :: "(string \<times> ImageRepo option) list"
  Volumes :: "(string \<times> Volume option) list"
  DockerNetworks :: "(string \<times> DockerNetwork option) list"

text \<open>\<^verbatim>\<open>new(Data)\<close> and \<^verbatim>\<open>&Service{Name: name}\<close>.\<close>

definition new_Data :: Data where
  "new_Data =
     \<lparr>DataVersion = 0, SnapshotDefaults = None, VMHost = None, data_ISOPool = None,
      Services = [], Images = [], Volumes = [], DockerNetworks = []\<rparr>"

definition new_Service :: "string \<Rightarrow> Service" where
  "new_Service name =
     \<lparr>svc_Name = name, svc_ServiceType = [], svc_Identity = None, svc_Sandbox = None,
      svc_IdentityInstallPending = False, svc_ServiceRoot = [], svc_ServiceRootZFS = [],
      svc_SnapshotPolicy = None, svc_Generation = 0, svc_LatestGeneration = 0, svc_Publish = [],
      svc_Artifacts = [], svc_Network = None, svc_SvcNetwork = None, svc_Macvlan = None,
      svc_TSNet = None, svc_VM = None, svc_ISO = None\<rparr>"

section \<open>Accessors\<close>

definition Gen :: "int \<Rightarrow> string" where
  "Gen gen = ''gen-'' @ Itoa gen"

definition SandboxPolicy :: "Service option \<Rightarrow> int \<Rightarrow> ServiceSandboxPolicy option option" where
  "SandboxPolicy s gen =
     (case s of
        None \<Rightarrow> None
      | Some sv \<Rightarrow>
          (case svc_Sandbox sv of
             None \<Rightarrow> None
           | Some store \<Rightarrow> map_of (ss_Refs store) (Gen gen)))"

text \<open>The three lookups of an artifact path; a nil \<open>*Artifact\<close> in the map is dereferenced.\<close>

definition artifact_ref :: "ArtifactStore \<Rightarrow> string \<Rightarrow> string \<Rightarrow> type_err + string option" where
  "artifact_ref as name ref =
     (case map_of as name of
        None \<Rightarrow> Inr None
      | Some None \<Rightarrow> Inl NilDeref
      | Some (Some a) \<Rightarrow> Inr (map_of (art_Refs a) ref))"

definition ArtifactStore_Gen :: "ArtifactStore \<Rightarrow> string \<Rightarrow> int \<Rightarrow> type_err + string option" where
  "ArtifactStore_Gen as name gen = artifact_ref as name (Gen gen)"

definition ArtifactStore_Staged :: "ArtifactStore \<Rightarrow> string \<Rightarrow> type_err + string option" where
  "ArtifactStore_Staged as name = artifact_ref as name ''staged''"

definition ArtifactStore_Latest :: "ArtifactStore \<Rightarrow> string \<Rightarrow> type_err + string option" where
  "ArtifactStore_Latest as name = artifact_ref as name ''latest''"

section \<open>Port keys\<close>

definition ProtoPort_String :: "ProtoPort \<Rightarrow> string" where
  "ProtoPort_String p = Itoa (pp_Proto p) @ ''/'' @ nat_digits (unat (pp_Port p))"

text \<open>
  \<^verbatim>\<open>fmt.Sscanf(data, "%d/%d", ...)\<close>: each verb skips spaces (a newline is an error), the
  signed one takes an optional sign, both take a non-empty run of digits and check the range of
  the target type; the slash is matched literally; what follows the second number is ignored.
\<close>

definition scan_space :: "char \<Rightarrow> bool" where
  "scan_space c \<longleftrightarrow> is_space c \<and> c \<noteq> CHR 0x0A"

definition scan_digits :: "string \<Rightarrow> (nat \<times> string) option" where
  "scan_digits s =
     (if takeWhile is_digit s = [] then None
      else Some (digits_val (takeWhile is_digit s), dropWhile is_digit s))"

definition scan_int :: "string \<Rightarrow> (int \<times> string) option" where
  "scan_int s0 =
     (let s = dropWhile scan_space s0;
          neg = (s \<noteq> [] \<and> hd s = CHR ''-'');
          t = (if s \<noteq> [] \<and> (hd s = CHR ''-'' \<or> hd s = CHR ''+'') then tl s else s)
      in case scan_digits t of
           None \<Rightarrow> None
         | Some (n, rest) \<Rightarrow>
             (let i = (if neg then - int n else int n) in
              if in_int64 i then Some (i, rest) else None))"

definition scan_uint16 :: "string \<Rightarrow> (16 word \<times> string) option" where
  "scan_uint16 s =
     (case scan_digits (dropWhile scan_space s) of
        None \<Rightarrow> None
      | Some (n, rest) \<Rightarrow> if n < 65536 then Some (of_nat n, rest) else None)"

definition ProtoPort_Parse :: "string \<Rightarrow> type_err + ProtoPort" where
  "ProtoPort_Parse s =
     (case scan_int s of
        Some (proto, CHR ''/'' # rest) \<Rightarrow>
          (case scan_uint16 rest of
             Some (port, _) \<Rightarrow> Inr \<lparr>pp_Proto = proto, pp_Port = port\<rparr>
           | None \<Rightarrow> Inl ScanErr)
      | _ \<Rightarrow> Inl ScanErr)"

section \<open>migrate.go\<close>

definition CurrentDataVersion :: int where "CurrentDataVersion = 15"

datatype migrate_err = Fatal | NilNetwork | NoMigrator int

text \<open>The body of the loop of \<open>addDockerEndpoints\<close> on one network.\<close>

definition migrate_endpoints :: "DockerNetwork \<Rightarrow> DockerNetwork" where
  "migrate_endpoints net =
     net\<lparr>dn_Endpoints :=
           fold (\<lambda>(k, ep). AList.update k (Some \<lparr>de_EndpointID = k, de_IPv4 = ep\<rparr>))
             (dn_EndpointAddrs net) (dn_Endpoints net),
         dn_EndpointAddrs := []\<rparr>"

definition addDockerEndpoints :: "Data \<Rightarrow> migrate_err + Data" where
  "addDockerEndpoints d =
     (if None \<in> snd ` set (DockerNetworks d) then Inl NilNetwork
      else Inr (d\<lparr>DockerNetworks :=
              map (\<lambda>(k, n). (k, map_option migrate_endpoints n)) (DockerNetworks d)\<rparr>))"

text \<open>\<open>reinit\<close> ends the process (\<^verbatim>\<open>log.Fatal\<close>); the steps after version 4 only change the number.\<close>

definition reinit :: "Data \<Rightarrow> migrate_err + Data" where
  "reinit d = Inl Fatal"

definition migrators :: "int \<Rightarrow> (Data \<Rightarrow> migrate_err + Data) option" where
  "migrators v =
     (if v = 3 then Some reinit
      else if v = 4 then Some addDockerEndpoints
      else if 5 \<le> v \<and> v \<le> 14 then Some Inr
      else None)"

lemma migrators_version: "migrators v = Some m \<Longrightarrow> m d = Inr d1 \<Longrightarrow> DataVersion d1 = DataVersion d"
  by (auto simp: migrators_def reinit_def addDockerEndpoints_def split: if_splits)

function migrate :: "Data \<Rightarrow> migrate_err + (bool \<times> Data)" where
  "migrate d =
     (if CurrentDataVersion \<le> DataVersion d then Inr (False, d)
      else (case migrators (DataVersion d) of
             None \<Rightarrow> Inl (NoMigrator (DataVersion d))
           | Some m \<Rightarrow>
               (case m d of
                  Inl e \<Rightarrow> Inl e
                | Inr d1 \<Rightarrow>
                    (case migrate (d1\<lparr>DataVersion := DataVersion d1 + 1\<rparr>) of
                       Inl e \<Rightarrow> Inl e
                     | Inr (_, d2) \<Rightarrow> Inr (True, d2)))))"
  by pat_completeness auto
termination
  by (relation "measure (\<lambda>d. nat (CurrentDataVersion - DataVersion d))") (auto simp: CurrentDataVersion_def dest: migrators_version)

declare migrate.simps [simp del]

section \<open>Port keys\<close>

lemma Itoa_ge0: "0 \<le> i \<Longrightarrow> Itoa i = nat_digits (nat i)"
  by (simp add: Itoa_def)

lemma is_digit_not_space: "is_digit c \<Longrightarrow> \<not> is_space c"
  by (auto simp: is_digit_def is_space_def)

lemma hd_nat_digits: "is_digit (hd (nat_digits n))"
  by (rule nat_digits_is_digit [of _ n]) simp

lemma scan_digits_print:
  "t = [] \<or> \<not> is_digit (hd t) \<Longrightarrow> scan_digits (nat_digits n @ t) = Some (n, t)"
  using takeWhile_digits [of "nat_digits n" t] nat_digits_is_digit
  by (simp add: scan_digits_def)

lemma dropWhile_space_digits: "dropWhile scan_space (nat_digits n @ t) = nat_digits n @ t"
proof -
  obtain c cs where "nat_digits n = c # cs" by (cases "nat_digits n") auto
  moreover have "is_digit c" using calculation hd_nat_digits [of n] by simp
  ultimately show ?thesis by (simp add: scan_space_def is_digit_not_space)
qed

lemma scan_int_print:
  assumes "in_int64 i" "t = [] \<or> \<not> is_digit (hd t)"
  shows "scan_int (Itoa i @ t) = Some (i, t)"
proof (cases "i < 0")
  case True
  then show ?thesis
    using assms by (simp add: scan_int_def Itoa_def scan_space_def is_space_def scan_digits_print Let_def)
next
  case False
  obtain c cs where c: "nat_digits (nat i) = c # cs" by (cases "nat_digits (nat i)") auto
  have "is_digit c" using c hd_nat_digits [of "nat i"] by simp
  then have "c \<noteq> CHR ''-''" "c \<noteq> CHR ''+''" by (auto simp: is_digit_def)
  with False assms show ?thesis
    using dropWhile_space_digits [of "nat i" t] scan_digits_print [of t "nat i"]
    by (simp add: scan_int_def Itoa_ge0 Let_def c)
qed

lemma scan_uint16_print: "scan_uint16 (nat_digits (unat p)) = Some (p, [])"
proof -
  have "unat p < 65536" using unsigned_less [of p] by simp
  then show ?thesis
    using dropWhile_space_digits [of "unat p" "[]"] scan_digits_print [of "[]" "unat p"]
    by (simp add: scan_uint16_def)
qed

lemma ProtoPort_Parse_String:
  assumes "in_int64 (pp_Proto p)"
  shows "ProtoPort_Parse (ProtoPort_String p) = Inr p"
proof -
  have "scan_int (ProtoPort_String p) = Some (pp_Proto p, CHR ''/'' # nat_digits (unat (pp_Port p)))"
    unfolding ProtoPort_String_def using assms by (simp add: scan_int_print is_digit_def)
  then show ?thesis
    by (simp add: ProtoPort_Parse_def scan_uint16_print)
qed

lemma ProtoPort_String_inj:
  "\<lbrakk>in_int64 (pp_Proto p); in_int64 (pp_Proto q); ProtoPort_String p = ProtoPort_String q\<rbrakk> \<Longrightarrow> p = q"
  by (metis ProtoPort_Parse_String sum.inject(2))

text \<open>
  C7: the key of a port mapping survives the database: parsing the printed form of a protocol
  and port gives them back, so distinct host ports never share a key.
\<close>

theorem ProtoPort_roundtrip:
  assumes "in_int64 (pp_Proto p)"
  shows "ProtoPort_Parse (ProtoPort_String p) = Inr p"
  using assms by (rule ProtoPort_Parse_String)

theorem ProtoPort_roundtrip_witness:
  "ProtoPort_Parse ''6/80'' = Inr \<lparr>pp_Proto = 6, pp_Port = 80\<rparr>"
proof -
  let ?p = "\<lparr>pp_Proto = 6, pp_Port = 80\<rparr>"
  have "ProtoPort_String ?p = ''6/80''"
    by code_simp
  moreover have "in_int64 (pp_Proto ?p)" by (simp add: in_int64_def min_int64_def max_int64_def)
  ultimately show ?thesis using ProtoPort_roundtrip [of ?p] by simp
qed

section \<open>Migration\<close>

lemma migrate_current: "CurrentDataVersion \<le> DataVersion d \<Longrightarrow> migrate d = Inr (False, d)"
  by (simp add: migrate.simps [of d])

lemma migrate_version:
  "migrate d = Inr (b, d') \<Longrightarrow> DataVersion d' = max CurrentDataVersion (DataVersion d)"
proof (induction d arbitrary: b rule: migrate.induct)
  case (1 d)
  show ?case
  proof (cases "CurrentDataVersion \<le> DataVersion d")
    case True
    with "1.prems" show ?thesis by (simp add: migrate_current max_def)
  next
    case False
    with "1.prems" obtain m d1 c where m: "migrators (DataVersion d) = Some m" "m d = Inr d1"
        "migrate (d1\<lparr>DataVersion := DataVersion d1 + 1\<rparr>) = Inr (c, d')"
      by (auto simp: migrate.simps [of d] split: option.splits sum.splits)
    from "1.IH" [OF False m(1,2) m(3)] show ?thesis
      using False migrators_version [OF m(1,2)] by simp
  qed
qed

lemma migrate_later: "5 \<le> DataVersion d \<Longrightarrow> \<exists>b. migrate d = Inr (b, d\<lparr>DataVersion := max CurrentDataVersion (DataVersion d)\<rparr>)"
proof (induction d rule: migrate.induct)
  case (1 d)
  show ?case
  proof (cases "CurrentDataVersion \<le> DataVersion d")
    case True
    then show ?thesis by (intro exI [of _ False]) (simp add: migrate_current max_def)
  next
    case False
    then have m: "migrators (DataVersion d) = Some Inr"
      using "1.prems" by (simp add: migrators_def CurrentDataVersion_def)
    have "\<exists>b. migrate (d\<lparr>DataVersion := DataVersion d + 1\<rparr>) = Inr (b, d\<lparr>DataVersion := CurrentDataVersion\<rparr>)"
      using "1.IH" [OF False m refl] "1.prems" False by (auto simp: max_def)
    then show ?thesis
      using False m by (auto simp: migrate.simps [of d])
  qed
qed

text \<open>The deprecated addresses of a network read as endpoints, and win over an existing entry.\<close>

lemma fold_update_lookup:
  "distinct (map fst xs) \<Longrightarrow>
   map_of (fold (\<lambda>(k, v). AList.update k (f k v)) xs al) k =
     (case map_of xs k of Some v \<Rightarrow> Some (f k v) | None \<Rightarrow> map_of al k)"
proof (induction xs arbitrary: al)
  case Nil
  then show ?case by simp
next
  case (Cons x xs)
  obtain k' v where x: "x = (k', v)" by (cases x)
  with Cons.prems have "map_of xs k' = None" by (simp add: map_of_eq_None_iff)
  with Cons x show ?case by (auto simp: map_of_update split: option.splits)
qed

text \<open>
  Migration of the database: from version 4 on it always succeeds (a network record must not
  be nil at version 4) and ends in the current version, or leaves a newer version as it is;
  migrating again changes nothing; versions below 4 are refused. At version 4 every network keeps
  its fields, and an endpoint is found exactly where the deprecated address table or the
  endpoint table had it.
\<close>

theorem migrate_correct:
  "(DataVersion d < 4 \<longrightarrow> is_err (migrate d)) \<and>
   (5 \<le> DataVersion d \<longrightarrow>
      (\<exists>b. migrate d = Inr (b, d\<lparr>DataVersion := max CurrentDataVersion (DataVersion d)\<rparr>))) \<and>
   (migrate d = Inr (b, d') \<longrightarrow> migrate d' = Inr (False, d') \<and>
      DataVersion d' = max CurrentDataVersion (DataVersion d)) \<and>
   (DataVersion d = 4 \<and> None \<notin> snd ` set (DockerNetworks d) \<longrightarrow>
      migrate d = Inr (True, d\<lparr>DataVersion := CurrentDataVersion, DockerNetworks :=
        map (\<lambda>(k, n). (k, map_option migrate_endpoints n)) (DockerNetworks d)\<rparr>)) \<and>
   (distinct (map fst (dn_EndpointAddrs n)) \<longrightarrow>
      map_of (dn_Endpoints (migrate_endpoints n)) k =
        (case map_of (dn_EndpointAddrs n) k of
           Some ep \<Rightarrow> Some (Some \<lparr>de_EndpointID = k, de_IPv4 = ep\<rparr>)
         | None \<Rightarrow> map_of (dn_Endpoints n) k))"
proof (intro conjI)
  show "DataVersion d < 4 \<longrightarrow> is_err (migrate d)"
    by (simp add: migrate.simps [of d] migrators_def reinit_def CurrentDataVersion_def)
  show "5 \<le> DataVersion d \<longrightarrow>
      (\<exists>b. migrate d = Inr (b, d\<lparr>DataVersion := max CurrentDataVersion (DataVersion d)\<rparr>))"
    using migrate_later by blast
  show "migrate d = Inr (b, d') \<longrightarrow> migrate d' = Inr (False, d') \<and>
      DataVersion d' = max CurrentDataVersion (DataVersion d)"
    using migrate_version migrate_current by fastforce
  show "DataVersion d = 4 \<and> None \<notin> snd ` set (DockerNetworks d) \<longrightarrow>
      migrate d = Inr (True, d\<lparr>DataVersion := CurrentDataVersion, DockerNetworks :=
        map (\<lambda>(k, n). (k, map_option migrate_endpoints n)) (DockerNetworks d)\<rparr>)"
  proof
    assume h: "DataVersion d = 4 \<and> None \<notin> snd ` set (DockerNetworks d)"
    let ?d1 = "d\<lparr>DockerNetworks := map (\<lambda>(k, n). (k, map_option migrate_endpoints n)) (DockerNetworks d),
      DataVersion := 5\<rparr>"
    obtain b where "migrate ?d1 = Inr (b, ?d1\<lparr>DataVersion := CurrentDataVersion\<rparr>)"
      using migrate_later [of ?d1] by (auto simp: CurrentDataVersion_def)
    with h show "migrate d = Inr (True, d\<lparr>DataVersion := CurrentDataVersion, DockerNetworks :=
        map (\<lambda>(k, n). (k, map_option migrate_endpoints n)) (DockerNetworks d)\<rparr>)"
      by (simp add: migrate.simps [of d] migrators_def addDockerEndpoints_def CurrentDataVersion_def)
  qed
  show "distinct (map fst (dn_EndpointAddrs n)) \<longrightarrow>
      map_of (dn_Endpoints (migrate_endpoints n)) k =
        (case map_of (dn_EndpointAddrs n) k of
           Some ep \<Rightarrow> Some (Some \<lparr>de_EndpointID = k, de_IPv4 = ep\<rparr>)
         | None \<Rightarrow> map_of (dn_Endpoints n) k)"
    by (simp add: migrate_endpoints_def fold_update_lookup)
qed

theorem migrate_correct_witness:
  "migrate (new_Data\<lparr>DataVersion := 12\<rparr>) \<noteq> Inl (NoMigrator 12) \<and>
   is_err (migrate new_Data) \<and>
   map_of (dn_Endpoints (migrate_endpoints
     \<lparr>dn_NetworkID = ''n'', dn_NetNS = ''ns'', dn_Mode = [], dn_IPv4Gateway = no_prefix,
      dn_IPv4Range = no_prefix, dn_Endpoints = [], dn_EndpointAddrs = [(''e'', v4_prefix 7 24)],
      dn_PortMap = []\<rparr>)) ''e'' = Some (Some \<lparr>de_EndpointID = ''e'', de_IPv4 = v4_prefix 7 24\<rparr>)"
proof -
  let ?n = "\<lparr>dn_NetworkID = ''n'', dn_NetNS = ''ns'', dn_Mode = [], dn_IPv4Gateway = no_prefix,
      dn_IPv4Range = no_prefix, dn_Endpoints = [], dn_EndpointAddrs = [(''e'', v4_prefix 7 24)],
      dn_PortMap = []\<rparr>"
  show ?thesis
    using migrate_correct [of "new_Data\<lparr>DataVersion := 12\<rparr>" False new_Data ?n "''e''"]
      migrate_correct [of new_Data False new_Data ?n "''e''"]
    by (auto simp: new_Data_def)
qed

end
