(* ===== verification/Db_Store.thy ===== *)
theory Db_Store
  imports Db_Types
begin

text \<open>
  Package db, the store (\<^verbatim>\<open>src/pkg/db/db.go\<close>): loading with migration, atomic
  replacement, the cross-process lock, mutation with compensation, and the cached view.

  Every system call the code makes can fail: the world holds a failure pattern
  \<open>w_fails\<close> indexed by the number of calls made so far, so a theorem that holds for every
  world holds for every combination of failures. The world also holds the directory tree
  above the database, the log of directories synced, the content of the database file, the
  backups, and the number of compensations run. The in-process mutex and the file lock make
  one call at a time run to its end; the cached view \<open>s.d\<close> is an argument and a result.

  The lemmas give the outcome of each step under every failure; the locale
  \<open>transactional_store\<close> is the contract the other components use: after a mutation the
  latest data is the old one or the result of the caller's function on it.
\<close>

section \<open>World and errors\<close>

type_synonym path = "string list"

datatype node = Missing | IsDir | NotDir

datatype db_file = Absent | Corrupt | NullJSON | Holds Data

datatype 'e db_err =
    IOErr string
  | Wrap string "'e db_err"
  | Joined "'e db_err list"
  | NotADirectory path
  | NoAncestor path
  | NullData
  | DecodeErr
  | MigrateErr migrate_err
  | CallerErr 'e
  | FinalizerRequired
  | PostPublicationError "'e db_err" bool
  | PostFinalizationError "'e db_err" bool

record world =
  w_fails :: "nat \<Rightarrow> bool"
  w_clock :: nat
  w_nodes :: "path \<Rightarrow> node"
  w_synced :: "path list"
  w_file :: db_file
  w_backups :: "(int \<times> db_file) list"
  w_compensations :: nat

text \<open>\<^verbatim>\<open>errors.Join\<close> drops nil errors and is nil when all are.\<close>

definition join_errs :: "'e db_err option list \<Rightarrow> 'e db_err option" where
  "join_errs es =
     (case List.map_filter (\<lambda>e. e) es of [] \<Rightarrow> None | xs \<Rightarrow> Some (Joined xs))"

definition wrapDBFileError :: "string \<Rightarrow> 'e db_err option \<Rightarrow> 'e db_err option" where
  "wrapDBFileError operation err = map_option (Wrap operation) err"

text \<open>One system call: it fails when the pattern says so, and time passes.\<close>

definition io :: "string \<Rightarrow> world \<Rightarrow> 'e db_err option \<times> world" where
  "io op w =
     (if w_fails w (w_clock w) then Some (IOErr op) else None, w\<lparr>w_clock := Suc (w_clock w)\<rparr>)"

section \<open>Directories\<close>

function existingDatabaseDirectoryAncestor ::
  "path \<Rightarrow> path \<Rightarrow> path list \<Rightarrow> world \<Rightarrow> ('e db_err + path \<times> path list) \<times> world" where
  "existingDatabaseDirectoryAncestor dir current missing w =
     (case io ''stat'' w of
        (Some e, w1) \<Rightarrow> (Inl e, w1)
      | (None, w1) \<Rightarrow>
          (case w_nodes w current of
             IsDir \<Rightarrow> (Inr (current, missing), w1)
           | NotDir \<Rightarrow> (Inl (NotADirectory current), w1)
           | Missing \<Rightarrow>
               if current = [] then (Inl (NoAncestor dir), w1)
               else existingDatabaseDirectoryAncestor dir (butlast current) (missing @ [current]) w1))"
  by pat_completeness auto
termination
  by (relation "measure (\<lambda>(dir, current, missing, w). length current)") auto

declare existingDatabaseDirectoryAncestor.simps [simp del]

definition syncDirectoryLink :: "path \<Rightarrow> world \<Rightarrow> 'e db_err option \<times> world" where
  "syncDirectoryLink link w =
     (let parent = butlast link in
      case io ''open directory'' w of
        (Some e, w1) \<Rightarrow> (Some (Wrap ''open created database parent link for sync'' e), w1)
      | (None, w1) \<Rightarrow>
          (let (syncErr, w2) = io ''sync directory'' w1;
               w3 = (if syncErr = None then w2\<lparr>w_synced := parent # w_synced w2\<rparr> else w2);
               (closeErr, w4) = io ''close directory'' w3
           in (join_errs [wrapDBFileError ''sync created database parent link'' syncErr,
                          wrapDBFileError ''close created database parent link'' closeErr], w4)))"

definition ensureDurableDatabaseDirectory :: "path \<Rightarrow> world \<Rightarrow> 'e db_err option \<times> world" where
  "ensureDurableDatabaseDirectory link w =
     (if w_nodes w link = Missing then
        (case io ''mkdir'' w of
           (Some e, w1) \<Rightarrow> (Some e, w1)
         | (None, w1) \<Rightarrow> syncDirectoryLink link (w1\<lparr>w_nodes := (w_nodes w1)(link := IsDir)\<rparr>))
      else
        (case io ''stat'' w of
           (Some e, w1) \<Rightarrow> (Some e, w1)
         | (None, w1) \<Rightarrow>
             if w_nodes w1 link \<noteq> IsDir then (Some (NotADirectory link), w1)
             else syncDirectoryLink link w1))"

fun ensure_missing :: "path list \<Rightarrow> world \<Rightarrow> 'e db_err option \<times> world" where
  "ensure_missing [] w = (None, w)"
| "ensure_missing (link # links) w =
     (case ensureDurableDatabaseDirectory link w of
        (Some e, w1) \<Rightarrow> (Some e, w1)
      | (None, w1) \<Rightarrow> ensure_missing links w1)"

definition ensureDurableDir :: "path \<Rightarrow> world \<Rightarrow> 'e db_err option \<times> world" where
  "ensureDurableDir dir w =
     (case existingDatabaseDirectoryAncestor dir dir [] w of
        (Inl e, w1) \<Rightarrow> (Some e, w1)
      | (Inr (existing, missing), w1) \<Rightarrow>
          (case syncDirectoryLink existing w1 of
             (Some e, w2) \<Rightarrow> (Some e, w2)
           | (None, w2) \<Rightarrow> ensure_missing (rev missing) w2))"

section \<open>Reading and writing the file\<close>

definition readDataLocked :: "world \<Rightarrow> ('e db_err + Data \<times> bool) \<times> world" where
  "readDataLocked w =
     (if w_file w = Absent then (Inr (new_Data, True), w)
      else case io ''open database'' w of
             (Some e, w1) \<Rightarrow> (Inl e, w1)
           | (None, w1) \<Rightarrow>
               (case w_file w of
                  Holds d \<Rightarrow>
                    (case io ''close database'' w1 of
                       (Some e, w2) \<Rightarrow> (Inl e, w2)
                     | (None, w2) \<Rightarrow> (Inr (d, False), w2))
                | NullJSON \<Rightarrow> (Inl NullData, snd (io ''close database'' w1 :: 'e db_err option \<times> world))
                | _ \<Rightarrow> (Inl DecodeErr, snd (io ''close database'' w1 :: 'e db_err option \<times> world))))"

definition writeTemporaryDatabase :: "world \<Rightarrow> 'e db_err option \<times> world" where
  "writeTemporaryDatabase w =
     (case io ''encode'' w of
        (Some e, w1) \<Rightarrow> (Some e, w1)
      | (None, w1) \<Rightarrow>
          (case io ''sync file'' w1 of
             (Some e, w2) \<Rightarrow> (Some (Wrap ''sync temporary database'' e), w2)
           | (None, w2) \<Rightarrow> io ''close temporary'' w2))"

definition closeTemporaryDatabase :: "bool \<Rightarrow> 'e db_err option \<Rightarrow> world \<Rightarrow> 'e db_err option \<times> world" where
  "closeTemporaryDatabase is_open retErr w =
     (if is_open then (case io ''close temporary'' w of (e, w1) \<Rightarrow> (join_errs [retErr, e], w1))
      else (retErr, w))"

definition syncDatabaseParent :: "path \<Rightarrow> world \<Rightarrow> 'e db_err option \<times> world" where
  "syncDatabaseParent dir w =
     (case io ''open directory'' w of
        (Some e, w1) \<Rightarrow> (Some (Wrap ''open database parent for sync'' e), w1)
      | (None, w1) \<Rightarrow>
          (let (syncErr, w2) = io ''sync directory'' w1;
               w3 = (if syncErr = None then w2\<lparr>w_synced := dir # w_synced w2\<rparr> else w2);
               (closeErr, w4) = io ''close directory'' w3
           in (join_errs [wrapDBFileError ''sync database parent'' syncErr,
                          wrapDBFileError ''close database parent'' closeErr], w4)))"

text \<open>
  \<open>saveDataLocked\<close>: the pair is (published, error). The deferred clean-up closes the temporary
  file when it is still open; removing it only logs.
\<close>

definition saveDataLocked :: "path \<Rightarrow> Data option \<Rightarrow> world \<Rightarrow> (bool \<times> 'e db_err option) \<times> world" where
  "saveDataLocked dir d0 w =
     (case d0 of
        None \<Rightarrow> ((False, None), w)
      | Some d \<Rightarrow>
          (case ensureDurableDir dir w of
             (Some e, w1) \<Rightarrow> ((False, Some e), w1)
           | (None, w1) \<Rightarrow>
               (case io ''create temporary'' w1 of
                  (Some e, w2) \<Rightarrow> ((False, Some e), w2)
                | (None, w2) \<Rightarrow>
                    (case writeTemporaryDatabase w2 of
                       (Some e, w3) \<Rightarrow>
                         (case closeTemporaryDatabase True (Some e) w3 of (r, w4) \<Rightarrow> ((False, r), w4))
                     | (None, w3) \<Rightarrow>
                         (case io ''rename'' w3 of
                            (Some e, w4) \<Rightarrow> ((False, Some (Wrap ''replace database'' e)), w4)
                          | (None, w4) \<Rightarrow>
                              (case syncDatabaseParent dir (w4\<lparr>w_file := Holds d\<rparr>) of
                                 (r, w5) \<Rightarrow> ((True, r), w5)))))))"

definition backupLocked :: "int \<Rightarrow> world \<Rightarrow> 'e db_err option \<times> world" where
  "backupLocked ver w =
     (case io ''copy file'' w of
        (Some e, w1) \<Rightarrow> (Some e, w1)
      | (None, w1) \<Rightarrow> (None, w1\<lparr>w_backups := (ver, w_file w1) # w_backups w1\<rparr>))"

text \<open>\<open>loadLatestDataLocked\<close>: the triple is (data, published, error).\<close>

definition loadLatestDataLocked ::
  "path \<Rightarrow> world \<Rightarrow> (Data option \<times> bool \<times> 'e db_err option) \<times> world" where
  "loadLatestDataLocked dir w =
     (case readDataLocked w of
        (Inl e, w1) \<Rightarrow> ((None, False, Some e), w1)
      | (Inr (loaded, created), w1) \<Rightarrow>
          if created then ((Some (loaded\<lparr>DataVersion := CurrentDataVersion\<rparr>), False, None), w1)
          else
            (case migrate loaded of
               Inl e \<Rightarrow> ((None, False, Some (Wrap ''migrating data'' (MigrateErr e))), w1)
             | Inr (migrated, staged) \<Rightarrow>
                 if \<not> migrated then ((Some staged, False, None), w1)
                 else
                   (case backupLocked (DataVersion loaded) w1 of
                      (Some e, w2) \<Rightarrow> ((None, False, Some (Wrap ''backing up migrated data'' e)), w2)
                    | (None, w2) \<Rightarrow>
                        (case saveDataLocked dir (Some staged) w2 of
                           ((published, Some e), w3) \<Rightarrow>
                             if published then ((Some staged, True, Some (Wrap ''saving migrated data'' e)), w3)
                             else ((None, False, Some (Wrap ''saving migrated data'' e)), w3)
                         | ((published, None), w3) \<Rightarrow> ((Some staged, published, None), w3)))))"

section \<open>The lock\<close>

text \<open>
  The closure passed to \<open>withFileLockOutcome\<close> also assigns variables of its caller; they are
  the state \<open>'s\<close>, which keeps its initial value when the closure does not run.
\<close>

definition withFileLockOutcome ::
  "path \<Rightarrow> 's \<Rightarrow> (world \<Rightarrow> (bool \<times> 'e db_err option \<times> 's) \<times> world) \<Rightarrow> world \<Rightarrow>
   (bool \<times> 'e db_err option \<times> 'e db_err option \<times> 's) \<times> world" where
  "withFileLockOutcome dir s0 f w =
     (case ensureDurableDir dir w of
        (Some e, w1) \<Rightarrow> ((False, Some (Wrap ''create database parent'' e), None, s0), w1)
      | (None, w1) \<Rightarrow>
          (case io ''open lock'' w1 of
             (Some e, w2) \<Rightarrow> ((False, Some (Wrap ''open persistent database lock'' e), None, s0), w2)
           | (None, w2) \<Rightarrow>
               (case io ''flock'' w2 of
                  (Some e, w3) \<Rightarrow>
                    (case io ''close lock'' w3 of
                       (c, w4) \<Rightarrow>
                         ((False, join_errs [Some (Wrap ''lock database'' e),
                            wrapDBFileError ''close database lock'' c], None, s0), w4))
                | (None, w3) \<Rightarrow>
                    (case f w3 of
                       ((published, operr, s), w4) \<Rightarrow>
                         (let (u, w5) = io ''unlock'' w4; (c, w6) = io ''close lock'' w5
                          in ((published, operr,
                               join_errs [wrapDBFileError ''unlock database'' u,
                                          wrapDBFileError ''close database lock'' c], s), w6))))))"

definition withFileLock ::
  "path \<Rightarrow> 's \<Rightarrow> (world \<Rightarrow> (bool \<times> 'e db_err option \<times> 's) \<times> world) \<Rightarrow> world \<Rightarrow>
   (bool \<times> 'e db_err option \<times> 's) \<times> world" where
  "withFileLock dir s0 f w =
     (case withFileLockOutcome dir s0 f w of
        ((published, operr, cleanup, s), w1) \<Rightarrow> ((published, join_errs [operr, cleanup], s), w1))"

section \<open>Store operations\<close>

type_synonym cache = "Data option"

definition getLocked :: "path \<Rightarrow> cache \<Rightarrow> world \<Rightarrow> ('e db_err + Data) \<times> cache \<times> world" where
  "getLocked dir sd w =
     (case sd of
        Some d \<Rightarrow> (Inr d, sd, w)
      | None \<Rightarrow>
          (case withFileLock dir None
                  (\<lambda>w. case loadLatestDataLocked dir w of
                         ((loaded, published, err), w1) \<Rightarrow> ((published, err, loaded), w1)) w of
             ((published, err, loaded), w1) \<Rightarrow>
               (let sd1 = (if published \<and> loaded \<noteq> None then loaded else sd) in
                case err of
                  Some e \<Rightarrow> (Inl (if published then PostPublicationError e False else e), sd1, w1)
                | None \<Rightarrow>
                    (case loaded of
                       Some d \<Rightarrow> (Inr d, loaded, w1)
                     | None \<Rightarrow> (Inl NullData, loaded, w1)))))"

definition Set :: "path \<Rightarrow> Data option \<Rightarrow> cache \<Rightarrow> world \<Rightarrow> 'e db_err option \<times> cache \<times> world" where
  "Set dir d sd w =
     (let nxt = map_option (\<lambda>n. if DataVersion n = 0 then n\<lparr>DataVersion := CurrentDataVersion\<rparr> else n) d in
      case withFileLock dir ()
             (\<lambda>w. case saveDataLocked dir nxt w of ((published, err), w1) \<Rightarrow> ((published, err, ()), w1)) w of
        ((published, err, _), w1) \<Rightarrow>
          (let sd1 = (if published then nxt else sd) in
           case err of
             Some e \<Rightarrow> (Some (if published then PostPublicationError e True else e), sd1, w1)
           | None \<Rightarrow> (None, nxt, w1)))"

record dataMutationState =
  ms_next :: "Data option"
  ms_publishedView :: "Data option"
  ms_mutationCommitted :: bool

text \<open>
  The caller's function gets the latest data and returns it mutated, its error if any, and
  whether it handed out a compensation.
\<close>

type_synonym 'e mutator = "Data \<Rightarrow> Data \<times> 'e option \<times> bool"

definition runDataMutationCompensation ::
  "'e db_err \<Rightarrow> bool \<Rightarrow> world \<Rightarrow> 'e db_err \<times> world" where
  "runDataMutationCompensation err compensate w =
     (if \<not> compensate then (err, w)
      else case io ''compensate'' w of
             (c, w1) \<Rightarrow>
               (Joined (err # (case wrapDBFileError ''pre-publication compensation'' c of
                                 None \<Rightarrow> [] | Some x \<Rightarrow> [x])),
                w1\<lparr>w_compensations := Suc (w_compensations w1)\<rparr>))"

definition runDataMutationLocked ::
  "path \<Rightarrow> 'e mutator \<Rightarrow> dataMutationState \<Rightarrow> world \<Rightarrow>
   (bool \<times> 'e db_err option \<times> dataMutationState) \<times> world" where
  "runDataMutationLocked dir f state w =
     (case loadLatestDataLocked dir w of
        ((latest, migrationPublished, err), w1) \<Rightarrow>
          (let state1 = (if migrationPublished \<and> latest \<noteq> None
                         then state\<lparr>ms_publishedView := latest\<rparr> else state)
           in case err of
                Some e \<Rightarrow> ((migrationPublished, Some (Wrap ''failed to get data'' e), state1), w1)
              | None \<Rightarrow>
                  (case latest of
                     None \<Rightarrow> ((migrationPublished, Some NullData, state1), w1)
                   | Some d \<Rightarrow>
                       (case f d of
                          (d1, Some e, cmpn) \<Rightarrow>
                            (case runDataMutationCompensation (CallerErr e) cmpn w1 of
                               (e1, w2) \<Rightarrow>
                                 ((migrationPublished, Some (Wrap ''failed to mutate data'' e1),
                                   state1\<lparr>ms_next := Some d1\<rparr>), w2))
                        | (d1, None, cmpn) \<Rightarrow>
                            (case saveDataLocked dir (Some d1) w1 of
                               ((mutationPublished, err2), w2) \<Rightarrow>
                                 (let state2 = state1\<lparr>ms_next := Some d1\<rparr>;
                                      state3 = (if mutationPublished
                                                then state2\<lparr>ms_mutationCommitted := True,
                                                            ms_publishedView := Some d1\<rparr>
                                                else state2)
                                  in case err2 of
                                       None \<Rightarrow> ((migrationPublished \<or> mutationPublished, None, state3), w2)
                                     | Some e \<Rightarrow>
                                         (if mutationPublished
                                          then ((True, Some (Wrap ''failed to save data'' e), state3), w2)
                                          else case runDataMutationCompensation e cmpn w2 of
                                                 (e1, w3) \<Rightarrow>
                                                   ((migrationPublished,
                                                     Some (Wrap ''failed to save data'' e1), state3), w3))))))))"

definition init_mutation :: dataMutationState where
  "init_mutation = \<lparr>ms_next = None, ms_publishedView = None, ms_mutationCommitted = False\<rparr>"

definition mutateData ::
  "path \<Rightarrow> 'e mutator \<Rightarrow> cache \<Rightarrow> world \<Rightarrow> (Data option \<times> 'e db_err option) \<times> cache \<times> world" where
  "mutateData dir f sd w =
     (case withFileLock dir init_mutation (runDataMutationLocked dir f init_mutation) w of
        ((published, err, state), w1) \<Rightarrow>
          (let sd1 = (if published \<and> ms_publishedView state \<noteq> None then ms_publishedView state else sd)
           in case err of
                Some e \<Rightarrow>
                  (if published
                   then ((if ms_mutationCommitted state then ms_next state else None,
                          Some (PostPublicationError e (ms_mutationCommitted state))), sd1, w1)
                   else ((None, Some e), sd1, w1))
              | None \<Rightarrow> ((ms_next state, None), ms_next state, w1)))"

text \<open>\<open>MutateData\<close>: the function as a transaction, without compensation.\<close>

definition plain_mutator :: "(Data \<Rightarrow> 'e + Data) \<Rightarrow> 'e mutator" where
  "plain_mutator f d = (case f d of Inl e \<Rightarrow> (d, Some e, False) | Inr d1 \<Rightarrow> (d1, None, False))"

definition MutateData ::
  "path \<Rightarrow> (Data \<Rightarrow> 'e + Data) \<Rightarrow> cache \<Rightarrow> world \<Rightarrow> (Data option \<times> 'e db_err option) \<times> cache \<times> world" where
  "MutateData dir f = mutateData dir (plain_mutator f)"

text \<open>
  \<open>MutateService\<close> inserts an empty service when the name is new and hands the data and the
  service, which the data aliases, to the caller's function; here the function returns both
  and the service is written back. \<open>None\<close> is a nil service pointer in the map.
\<close>

definition service_mutator ::
  "string \<Rightarrow> (Data \<Rightarrow> Service option \<Rightarrow> 'e + Data \<times> Service option) \<Rightarrow> Data \<Rightarrow> 'e + Data" where
  "service_mutator name f d =
     (let svc = (case map_of (Services d) name of Some s \<Rightarrow> s | None \<Rightarrow> Some (new_Service name));
          d1 = d\<lparr>Services := AList.update name svc (Services d)\<rparr>
      in case f d1 svc of
           Inl e \<Rightarrow> Inl e
         | Inr (d2, svc2) \<Rightarrow> Inr (d2\<lparr>Services := AList.update name svc2 (Services d2)\<rparr>))"

definition MutateService ::
  "path \<Rightarrow> string \<Rightarrow> (Data \<Rightarrow> Service option \<Rightarrow> 'e + Data \<times> Service option) \<Rightarrow> cache \<Rightarrow> world \<Rightarrow>
   (Data option \<times> 'e db_err option) \<times> cache \<times> world" where
  "MutateService dir name f sd w =
     (case MutateData dir (service_mutator name f) sd w of
        ((d, None), sd1, w1) \<Rightarrow> ((d, None), sd1, w1)
      | ((_, Some e), sd1, w1) \<Rightarrow> ((None, Some (Wrap ''failed to mutate data'' e)), sd1, w1))"

text \<open>
  \<open>WithLatestDataLocked\<close>: the finalizer reads the latest data under the lock; \<open>None\<close> is its
  nil error. The state is (latest, loaded, finalizerCompleted).
\<close>

definition run_finalizer ::
  "path \<Rightarrow> (Data \<Rightarrow> 'e option) \<Rightarrow> world \<Rightarrow>
   (bool \<times> 'e db_err option \<times> (Data option \<times> bool \<times> bool)) \<times> world" where
  "run_finalizer dir finalizer w =
     (case loadLatestDataLocked dir w of
        ((latest, migrationPublished, Some e), w1) \<Rightarrow>
          ((migrationPublished, Some (Wrap ''failed to get latest data'' e), (latest, False, False)), w1)
      | ((latest, migrationPublished, None), w1) \<Rightarrow>
          (case latest of
             None \<Rightarrow> ((migrationPublished, Some NullData, (latest, True, False)), w1)
           | Some d \<Rightarrow>
               (case finalizer d of
                  Some e \<Rightarrow> ((migrationPublished, Some (Wrap ''latest-data finalizer'' (CallerErr e)),
                              (latest, True, False)), w1)
                | None \<Rightarrow> ((migrationPublished, None, (latest, True, True)), w1))))"

definition WithLatestDataLocked ::
  "path \<Rightarrow> (Data \<Rightarrow> 'e option) \<Rightarrow> cache \<Rightarrow> world \<Rightarrow> 'e db_err option \<times> cache \<times> world" where
  "WithLatestDataLocked dir finalizer sd w =
     (case withFileLockOutcome dir (None, False, False) (run_finalizer dir finalizer) w of
        ((published, operationErr, cleanupErr, (latest, loaded, completed)), w1) \<Rightarrow>
          (let sd1 = (if latest \<noteq> None \<and> (loaded \<or> published) then latest else sd);
               resultErr = (case cleanupErr of
                              None \<Rightarrow> operationErr
                            | Some c \<Rightarrow>
                                Some (PostFinalizationError
                                  (Joined ((case operationErr of None \<Rightarrow> [] | Some o1 \<Rightarrow> [o1]) @ [c])) completed))
           in (case resultErr of
                 None \<Rightarrow> None
               | Some e \<Rightarrow> Some (if published then PostPublicationError e False else e), sd1, w1)))"

section \<open>What the steps leave alone\<close>

definition db_frame :: "world \<Rightarrow> world \<Rightarrow> bool" where
  "db_frame w w' \<longleftrightarrow> w_file w' = w_file w \<and> w_compensations w' = w_compensations w"

lemma db_frame_refl [simp]: "db_frame w w"
  by (simp add: db_frame_def)

lemma db_frame_trans [trans]: "db_frame a b \<Longrightarrow> db_frame b c \<Longrightarrow> db_frame a c"
  by (simp add: db_frame_def)

lemma io_frame [simp]: "io op w = (r, w') \<Longrightarrow> db_frame w w'"
  by (auto simp: io_def db_frame_def)

lemma ancestor_cases:
  assumes "existingDatabaseDirectoryAncestor dir cur missing w = (r, w')"
  obtains "db_frame w w'"
  | w1 where "cur \<noteq> []" "db_frame w w1"
      "existingDatabaseDirectoryAncestor dir (butlast cur) (missing @ [cur]) w1 = (r, w')"
  using assms unfolding existingDatabaseDirectoryAncestor.simps [of dir cur missing w]
  by (auto split: option.splits node.splits prod.splits if_splits dest!: io_frame)

lemma ancestor_frame:
  "existingDatabaseDirectoryAncestor dir cur missing w = (r, w') \<Longrightarrow> db_frame w w'"
proof (induction "length cur" arbitrary: cur missing w)
  case 0
  from 0(2) show ?case by (rule ancestor_cases) (use 0(1) in auto)
next
  case (Suc n)
  from Suc.prems show ?case
  proof (rule ancestor_cases)
    fix w1
    assume "db_frame w w1"
      "existingDatabaseDirectoryAncestor dir (butlast cur) (missing @ [cur]) w1 = (r, w')"
    moreover have "n = length (butlast cur)" using Suc.hyps(2) by simp
    ultimately show ?thesis using Suc.hyps(1) db_frame_trans by blast
  qed
qed

lemma syncDirectoryLink_frame: "syncDirectoryLink link w = (r, w') \<Longrightarrow> db_frame w w'"
  by (auto simp: syncDirectoryLink_def Let_def io_def db_frame_def split: option.splits if_splits)

lemma ensureDurableDatabaseDirectory_frame:
  "ensureDurableDatabaseDirectory link w = (r, w') \<Longrightarrow> db_frame w w'"
  by (auto simp: ensureDurableDatabaseDirectory_def io_def db_frame_def
      split: option.splits if_splits dest!: syncDirectoryLink_frame)

lemma ensure_missing_frame: "ensure_missing links w = (r, w') \<Longrightarrow> db_frame w w'"
proof (induction links arbitrary: w)
  case (Cons link links)
  obtain e :: "'a db_err option" and w1 where e: "ensureDurableDatabaseDirectory link w = (e, w1)"
    by force
  then have f: "db_frame w w1" by (rule ensureDurableDatabaseDirectory_frame)
  show ?case
  proof (cases e)
    case None
    with Cons.prems e have "ensure_missing links w1 = (r, w')" by simp
    then show ?thesis using Cons.IH f db_frame_trans by blast
  qed (use Cons.prems e f in simp)
qed simp

lemma ensureDurableDir_frame: "ensureDurableDir dir w = (r, w') \<Longrightarrow> db_frame w w'"
  by (auto simp: ensureDurableDir_def split: option.splits prod.splits sum.splits
      dest!: ancestor_frame syncDirectoryLink_frame ensure_missing_frame dest: db_frame_trans)

lemma writeTemporaryDatabase_frame: "writeTemporaryDatabase w = (r, w') \<Longrightarrow> db_frame w w'"
  by (auto simp: writeTemporaryDatabase_def io_def db_frame_def split: option.splits if_splits)

lemma syncDatabaseParent_frame: "syncDatabaseParent dir w = (r, w') \<Longrightarrow> db_frame w w'"
  by (auto simp: syncDatabaseParent_def Let_def io_def db_frame_def split: option.splits if_splits)

lemma readDataLocked_frame: "readDataLocked w = (r, w') \<Longrightarrow> db_frame w w'"
  by (auto simp: readDataLocked_def io_def db_frame_def split: option.splits if_splits db_file.splits)

lemma backupLocked_frame: "backupLocked v w = (r, w') \<Longrightarrow> db_frame w w'"
  by (auto simp: backupLocked_def io_def db_frame_def split: option.splits if_splits)

lemmas store_frames =
  ensureDurableDir_frame writeTemporaryDatabase_frame syncDatabaseParent_frame
  readDataLocked_frame backupLocked_frame io_frame

section \<open>Saving and loading\<close>

lemma saveDataLocked_spec:
  assumes "saveDataLocked dir (Some d) w = ((published, err), w')"
  shows "w_compensations w' = w_compensations w \<and>
    (published \<longrightarrow> w_file w' = Holds d) \<and>
    (\<not> published \<longrightarrow> w_file w' = w_file w \<and> err \<noteq> None)"
  using assms
  by (auto simp: saveDataLocked_def closeTemporaryDatabase_def join_errs_def List.map_filter_def
      split: option.splits prod.splits dest!: store_frames simp: db_frame_def)

definition latest_view :: "world \<Rightarrow> Data option" where
  "latest_view w =
     (case w_file w of
        Absent \<Rightarrow> Some (new_Data\<lparr>DataVersion := CurrentDataVersion\<rparr>)
      | Holds d \<Rightarrow> (case migrate d of Inl _ \<Rightarrow> None | Inr (_, d') \<Rightarrow> Some d')
      | _ \<Rightarrow> None)"

lemma migrate_again: "migrate d = Inr (b, d') \<Longrightarrow> migrate d' = Inr (False, d')"
  by (rule migrate_current) (simp add: migrate_version)

lemma migrate_same: "migrate d = Inr (False, d') \<Longrightarrow> d' = d"
  by (auto simp: migrate.simps [of d] split: if_splits option.splits sum.splits)

lemma latest_view_frame: "db_frame w w' \<Longrightarrow> latest_view w' = latest_view w"
  by (simp add: db_frame_def latest_view_def)

lemma readDataLocked_spec:
  assumes "readDataLocked w = (Inr (d, created), w')"
  shows "if created then w_file w = Absent \<and> d = new_Data else w_file w = Holds d"
  using assms
  by (auto simp: readDataLocked_def split: if_splits option.splits prod.splits db_file.splits)

text \<open>Loading returns the latest view, publishes nothing but it, and leaves it the latest view.\<close>

lemma loadLatestDataLocked_spec:
  fixes err :: "'e db_err option"
  assumes "loadLatestDataLocked dir w = ((d, published, err), w')"
  shows "w_compensations w' = w_compensations w \<and>
    (\<not> published \<longrightarrow> w_file w' = w_file w) \<and>
    (published \<longrightarrow> d \<noteq> None \<and> w_file w' = Holds (the d)) \<and>
    (d \<noteq> None \<longrightarrow> latest_view w = d) \<and> (err = None \<longrightarrow> d \<noteq> None) \<and>
    latest_view w' = latest_view w"
proof -
  obtain r :: "'e db_err + Data \<times> bool" and w1 where r: "readDataLocked w = (r, w1)" by force
  then have f1: "db_frame w w1" by (rule readDataLocked_frame)
  show ?thesis
  proof (cases r)
    case (Inl e)
    with assms r f1 show ?thesis
      using latest_view_frame [OF f1] by (auto simp: loadLatestDataLocked_def db_frame_def)
  next
    case (Inr lc)
    obtain loaded created where lc: "lc = (loaded, created)" by force
    note spec = readDataLocked_spec [of w loaded created w1]
    show ?thesis
    proof (cases "created \<or> is_err (migrate loaded) \<or> (\<exists>x. migrate loaded = Inr (False, x))")
      case True
      then show ?thesis
        using assms r Inr lc f1 spec latest_view_frame [OF f1]
        by (auto simp: loadLatestDataLocked_def latest_view_def db_frame_def
            split: sum.splits prod.splits if_splits)
    next
      case False
      then obtain x where m: "migrate loaded = Inr (True, x)" "\<not> created"
        by (cases "migrate loaded") auto
      with spec r Inr lc have hfile: "w_file w = Holds loaded" by simp
      have view: "latest_view w = Some x" by (simp add: latest_view_def hfile m(1))
      obtain be :: "'e db_err option" and w2 where b: "backupLocked (DataVersion loaded) w1 = (be, w2)" by force
      then have f2: "db_frame w w2" using f1 backupLocked_frame db_frame_trans by blast
      obtain p and se :: "'e db_err option" and w3 where s: "saveDataLocked dir (Some x) w2 = ((p, se), w3)"
        by (metis prod.collapse)
      note sp = saveDataLocked_spec [OF s]
      have "latest_view w3 = Some x"
        using sp f2 view migrate_again [OF m(1)]
        by (cases p) (auto simp: latest_view_def db_frame_def split: db_file.splits)
      with sp f2 view show ?thesis
        using assms [symmetric] r Inr lc m b s latest_view_frame [OF f2, unfolded view]
        by (auto simp: loadLatestDataLocked_def db_frame_def split: option.splits if_splits)
    qed
  qed
qed

section \<open>Mutation\<close>

text \<open>The lock either refuses to run the closure, or runs it and keeps its outcome.\<close>

lemma join_errs_None [simp]: "join_errs es = None \<longleftrightarrow> set es \<subseteq> {None}"
proof (induction es)
  case (Cons e es)
  then show ?case by (cases e) (auto simp: join_errs_def List.map_filter_def split: list.splits)
qed (simp add: join_errs_def List.map_filter_def)

lemma join_errs_Some [simp]: "(\<exists>e. join_errs es = Some e) \<longleftrightarrow> \<not> set es \<subseteq> {None}"
  using join_errs_None [of es] by (simp only: not_None_eq [symmetric])

lemma join_errs_Joined: "join_errs es = Some e \<Longrightarrow> \<exists>xs. e = Joined xs"
  by (auto simp: join_errs_def split: list.splits)

lemma withFileLockOutcome_cases:
  fixes operr :: "'e db_err option"
  assumes "withFileLockOutcome dir s0 f w = ((p, operr, clean, s), w')"
  obtains "db_frame w w'" "s = s0" "\<not> p" "operr \<noteq> None" "clean = None"
  | w1 w2 where "db_frame w w1" "f w1 = ((p, operr, s), w2)" "db_frame w2 w'"
proof -
  obtain e1 :: "'e db_err option" and w1 where d: "ensureDurableDir dir w = (e1, w1)" by force
  obtain e2 :: "'e db_err option" and w2 where o: "io ''open lock'' w1 = (e2, w2)" by force
  obtain e3 :: "'e db_err option" and w3 where l: "io ''flock'' w2 = (e3, w3)" by force
  have "db_frame w w1" using d by (rule ensureDurableDir_frame)
  moreover have "db_frame w1 w2" "db_frame w2 w3" using o l by auto
  ultimately have fr: "db_frame w w1" "db_frame w w2" "db_frame w w3"
    using db_frame_trans by blast+
  show thesis
  proof (cases "e1 = None \<and> e2 = None \<and> e3 = None")
    case False
    then have "db_frame w w' \<and> s = s0 \<and> \<not> p \<and> operr \<noteq> None \<and> clean = None"
      using assms d o l fr db_frame_trans [OF fr(3) io_frame]
      by (auto simp: withFileLockOutcome_def simp del: not_None_eq split: prod.splits option.splits)
    then show thesis using that(1) by blast
  next
    case True
    obtain q pe t w4 where "f w3 = ((q, pe, t), w4)" by (metis prod.collapse)
    then have "f w3 = ((p, operr, s), w4)" "db_frame w4 w'"
      using assms d o l True
      by (auto simp: withFileLockOutcome_def Let_def split: prod.splits dest!: io_frame
          intro: db_frame_trans)
    then show thesis using that(2) fr(3) by blast
  qed
qed

lemma withFileLock_cases:
  fixes err :: "'e db_err option"
  assumes "withFileLock dir s0 f w = ((p, err, s), w')"
  obtains "db_frame w w'" "s = s0" "\<not> p" "err \<noteq> None"
  | w1 operr w2 where "db_frame w w1" "f w1 = ((p, operr, s), w2)" "db_frame w2 w'"
      "operr \<noteq> None \<longrightarrow> err \<noteq> None"
proof -
  obtain operr clean :: "'e db_err option" where
    o: "withFileLockOutcome dir s0 f w = ((p, operr, clean, s), w')" "err = join_errs [operr, clean]"
    using assms by (auto simp: withFileLock_def split: prod.splits)
  from o(1) show thesis
    by (rule withFileLockOutcome_cases) (use o(2) that in auto)
qed

lemma withFileLock_err: "withFileLock dir s0 f w = ((p, Some e, s), w') \<Longrightarrow> \<exists>xs. e = Joined xs"
  by (auto simp: withFileLock_def split: prod.splits dest: join_errs_Joined)

text \<open>One mutation under the lock, from the initial state, on every path.\<close>

definition mutation_outcome ::
  "'e mutator \<Rightarrow> world \<Rightarrow> bool \<Rightarrow> 'e db_err option \<Rightarrow> dataMutationState \<Rightarrow> world \<Rightarrow> bool" where
  "mutation_outcome f w p err st w' \<longleftrightarrow>
     (if ms_mutationCommitted st
      then p \<and> (\<exists>d d1 c. latest_view w = Some d \<and> f d = (d1, None, c) \<and> w_file w' = Holds d1 \<and>
             ms_next st = Some d1 \<and> ms_publishedView st = Some d1) \<and>
           w_compensations w' = w_compensations w
      else err \<noteq> None \<and>
           (if p then w_file w' = Holds (the (latest_view w)) \<and> latest_view w \<noteq> None \<and>
                      ms_publishedView st = latest_view w
            else w_file w' = w_file w \<and> ms_publishedView st = None) \<and>
           (case ms_next st of
              None \<Rightarrow> w_compensations w' = w_compensations w
            | Some d1 \<Rightarrow> latest_view w \<noteq> None \<and> fst (f (the (latest_view w))) = d1 \<and>
                w_compensations w' = w_compensations w +
                  (if snd (snd (f (the (latest_view w)))) then 1 else 0)))"

lemma compensation_frame:
  "runDataMutationCompensation e c w = (e', w') \<Longrightarrow>
   w_file w' = w_file w \<and> w_compensations w' = w_compensations w + (if c then 1 else 0)"
  by (auto simp: runDataMutationCompensation_def io_def split: if_splits)

lemma runDataMutationLocked_outcome:
  fixes err :: "'e db_err option"
  assumes "runDataMutationLocked dir f init_mutation w = ((p, err, st), w')"
  shows "mutation_outcome f w p err st w'"
proof -
  obtain l mp and le :: "'e db_err option" and w1 where
    l: "loadLatestDataLocked dir w = ((l, mp, le), w1)" by (metis prod.collapse)
  note ls = loadLatestDataLocked_spec [OF l]
  show ?thesis
  proof (cases "le = None")
    case False
    with assms l ls show ?thesis
      by (auto simp: runDataMutationLocked_def mutation_outcome_def init_mutation_def Let_def
          split: if_splits)
  next
    case True
    with ls obtain d where d: "l = Some d" by auto
    obtain d1 fe c where f: "f d = (d1, fe, c)" by (metis prod.collapse)
    show ?thesis
    proof (cases fe)
      case (Some e)
      obtain e1 w2 where c: "runDataMutationCompensation (CallerErr e) c w1 = (e1, w2)" by force
      from assms l ls True d f Some c compensation_frame [OF c] show ?thesis
        by (auto simp: runDataMutationLocked_def mutation_outcome_def init_mutation_def Let_def)
    next
      case None
      obtain q and se :: "'e db_err option" and w2 where
        s: "saveDataLocked dir (Some d1) w1 = ((q, se), w2)" by (metis prod.collapse)
      note ss = saveDataLocked_spec [OF s]
      show ?thesis
      proof (cases q)
        case True
        with assms l ls \<open>le = None\<close> d f None s ss show ?thesis
          by (auto simp: runDataMutationLocked_def mutation_outcome_def init_mutation_def Let_def
              split: option.splits)
      next
        case False
        with ss obtain e where e: "se = Some e" by auto
        obtain e1 w3 where c: "runDataMutationCompensation e c w2 = (e1, w3)" by force
        from assms l ls \<open>le = None\<close> d f None s ss False e c compensation_frame [OF c]
        show ?thesis
          by (auto simp: runDataMutationLocked_def mutation_outcome_def init_mutation_def Let_def)
      qed
    qed
  qed
qed

lemma mutation_outcome_frame:
  "\<lbrakk>db_frame w0 w; mutation_outcome f w p err st w1; db_frame w1 w2; err \<noteq> None \<longrightarrow> err' \<noteq> None\<rbrakk>
   \<Longrightarrow> mutation_outcome f w0 p err' st w2"
  by (auto simp: mutation_outcome_def db_frame_def latest_view_def split: option.splits)

lemma locked_mutation_outcome:
  assumes "withFileLock dir init_mutation (runDataMutationLocked dir f init_mutation) w =
             ((p, err, st), w')"
  shows "mutation_outcome f w p err st w'"
  using assms
proof (rule withFileLock_cases)
  fix w1 operr w2
  assume *: "db_frame w w1" "runDataMutationLocked dir f init_mutation w1 = ((p, operr, st), w2)"
    "db_frame w2 w'" "operr \<noteq> None \<longrightarrow> err \<noteq> None"
  from runDataMutationLocked_outcome [OF *(2)] * show ?thesis
    by (blast intro: mutation_outcome_frame)
qed (auto simp: mutation_outcome_def init_mutation_def db_frame_def)

lemma latest_view_unchanged: "w_file w' = w_file w \<Longrightarrow> latest_view w' = latest_view w"
  by (simp add: latest_view_def)

text \<open>The four ways a mutation can end.\<close>

lemma mutateData_cases:
  assumes "mutateData dir f sd w = ((r, err), sd', w')"
  obtains (refused) e where "err = Some e" "\<forall>x b. e \<noteq> PostPublicationError x b" "r = None"
      "sd' = sd" "w_file w' = w_file w"
  | (migrated) x d where "err = Some (PostPublicationError x False)" "latest_view w = Some d"
      "r = None" "sd' = Some d" "w_file w' = Holds d"
  | (committed) d d1 c where "err = None \<or> (\<exists>x. err = Some (PostPublicationError x True))"
      "latest_view w = Some d" "f d = (d1, None, c)" "r = Some d1" "sd' = Some d1"
      "w_file w' = Holds d1" "w_compensations w' = w_compensations w"
proof -
  obtain p e st w1 where l: "withFileLock dir init_mutation
      (runDataMutationLocked dir f init_mutation) w = ((p, e, st), w1)" by (metis prod.collapse)
  note o = locked_mutation_outcome [OF l] and res = assms [symmetric]
  show thesis
  proof (cases "ms_mutationCommitted st")
    case True
    with o obtain d d1 c where c: "latest_view w = Some d" "f d = (d1, None, c)" "p"
      "w_file w1 = Holds d1" "ms_next st = Some d1" "ms_publishedView st = Some d1"
      "w_compensations w1 = w_compensations w" by (auto simp: mutation_outcome_def)
    with res l True have "(err = None \<or> (\<exists>x. err = Some (PostPublicationError x True))) \<and>
        r = Some d1 \<and> sd' = Some d1 \<and> w' = w1"
      by (cases e) (simp_all add: mutateData_def)
    with c show thesis by (intro committed [of d d1 c]) simp_all
  next
    case False
    then have f: "if p then w_file w1 = Holds (the (latest_view w)) \<and> latest_view w \<noteq> None \<and>
          ms_publishedView st = latest_view w
        else w_file w1 = w_file w \<and> ms_publishedView st = None" "e \<noteq> None"
      using o by (simp_all add: mutation_outcome_def)
    then obtain e1 where e1: "e = Some e1" by auto
    with withFileLock_err [OF l [unfolded e1]] obtain xs where e: "e = Some (Joined xs)" by auto
    show thesis
    proof (cases p)
      case True
      with f obtain d where "latest_view w = Some d" "w_file w1 = Holds d"
        "ms_publishedView st = Some d" by auto
      with res l False e True have "err = Some (PostPublicationError (Joined xs) False) \<and>
          latest_view w = Some d \<and> r = None \<and> sd' = Some d \<and> w_file w' = Holds d"
        by (simp add: mutateData_def)
      then show thesis using migrated by blast
    next
      case False
      with res l \<open>\<not> ms_mutationCommitted st\<close> e f
      have "err = Some (Joined xs) \<and> r = None \<and> sd' = sd \<and> w_file w' = w_file w"
        by (simp add: mutateData_def)
      then show thesis by (intro refused [of "Joined xs"]) simp_all
    qed
  qed
qed

text \<open>
  C4: a mutation is atomic under every combination of system-call failures. Success and a
  post-publication error that reports the mutation as committed leave exactly the caller's
  result on disk, in the cache and in the hands of the caller, computed from the latest
  (migrated) data; a post-publication error that reports it as not committed leaves exactly
  the migrated latest data on disk and in the cache; every other error leaves the file and
  the cache as they were. A compensation never runs once the replacement is published.
\<close>

theorem mutateData_atomic:
  assumes "mutateData dir f sd w = ((r, err), sd', w')"
  shows "case err of
      Some (PostPublicationError _ False) \<Rightarrow>
        r = None \<and> latest_view w \<noteq> None \<and> sd' = latest_view w \<and> w_file w' = Holds (the (latest_view w))
    | Some (PostPublicationError _ True) \<Rightarrow>
        (\<exists>d d1 c. latest_view w = Some d \<and> f d = (d1, None, c) \<and> r = Some d1 \<and> sd' = Some d1 \<and>
          w_file w' = Holds d1) \<and> w_compensations w' = w_compensations w
    | None \<Rightarrow>
        (\<exists>d d1 c. latest_view w = Some d \<and> f d = (d1, None, c) \<and> r = Some d1 \<and> sd' = Some d1 \<and>
          w_file w' = Holds d1) \<and> w_compensations w' = w_compensations w
    | Some _ \<Rightarrow> r = None \<and> sd' = sd \<and> w_file w' = w_file w"
  using assms
proof (cases rule: mutateData_cases)
  case (refused e)
  then show ?thesis by (cases e) auto
qed auto

definition quiet_world :: "db_file \<Rightarrow> (nat \<Rightarrow> bool) \<Rightarrow> world" where
  "quiet_world c bad = \<lparr>w_fails = bad, w_clock = 0, w_nodes = (\<lambda>_. IsDir), w_synced = [],
     w_file = c, w_backups = [], w_compensations = 0\<rparr>"

lemmas store_eval =
  mutateData_def withFileLock_def withFileLockOutcome_def ensureDurableDir_def
  existingDatabaseDirectoryAncestor.simps syncDirectoryLink_def io_def quiet_world_def
  runDataMutationLocked_def loadLatestDataLocked_def readDataLocked_def saveDataLocked_def
  writeTemporaryDatabase_def closeTemporaryDatabase_def syncDatabaseParent_def
  runDataMutationCompensation_def join_errs_def wrapDBFileError_def List.map_filter_def
  init_mutation_def

text \<open>A world in which only the sync of the directory after the rename fails.\<close>

definition example_world :: world where
  "example_world = quiet_world Absent (\<lambda>n. n = 16)"

definition example_mutator :: "unit mutator" where
  "example_mutator d = (d\<lparr>Volumes := [(''v'', None)]\<rparr>, None, True)"

theorem mutateData_atomic_witness:
  "(case mutateData [] example_mutator None example_world of
      ((r, err), sd', w') \<Rightarrow>
        (\<exists>x. err = Some (PostPublicationError x True)) \<and>
        r = Some (new_Data\<lparr>DataVersion := CurrentDataVersion, Volumes := [(''v'', None)]\<rparr>) \<and>
        sd' = r \<and> w_file w' = Holds (the r) \<and> w_compensations w' = 0)"
proof -
  obtain r err sd' w' where m: "mutateData [] example_mutator None example_world = ((r, err), sd', w')"
    by (metis prod.collapse)
  have "\<exists>x. err = Some (PostPublicationError x True)"
    using m [symmetric] by (simp add: store_eval example_world_def example_mutator_def)
  moreover have "latest_view example_world = Some (new_Data\<lparr>DataVersion := CurrentDataVersion\<rparr>)"
    "w_compensations example_world = 0"
    by (simp_all add: example_world_def quiet_world_def latest_view_def)
  ultimately show ?thesis
    using mutateData_atomic [OF m] m by (auto simp: example_mutator_def)
qed

text \<open>
  C5: a compensation handed out by the caller's function runs exactly when the function ran
  and its replacement was not published, and then exactly once; the mutation is reported as
  committed exactly when the file holds the replacement.
\<close>

theorem compensation_iff_unpublished:
  assumes "runDataMutationLocked dir f init_mutation w = ((p, err, st), w')"
  shows "w_compensations w' = w_compensations w +
      (if ms_next st \<noteq> None \<and> \<not> ms_mutationCommitted st \<and> snd (snd (f (the (latest_view w))))
       then 1 else 0) \<and>
    (ms_mutationCommitted st \<longrightarrow> p \<and> ms_next st \<noteq> None \<and> w_file w' = Holds (the (ms_next st)))"
  using runDataMutationLocked_outcome [OF assms]
  by (auto simp: mutation_outcome_def split: if_splits option.splits)

theorem compensation_iff_unpublished_witness:
  "case runDataMutationLocked [] (\<lambda>d. (d, Some (), True)) init_mutation example_world of
     ((p, err, st), w') \<Rightarrow> ms_next st \<noteq> None \<and> w_compensations w' = 1"
proof -
  obtain p err st w' where m:
    "runDataMutationLocked [] (\<lambda>d. (d, Some (), True)) init_mutation example_world = ((p, err, st), w')"
    by (metis prod.collapse)
  have "ms_next st \<noteq> None \<and> \<not> ms_mutationCommitted st" using m
    by (auto simp: store_eval example_world_def)
  with compensation_iff_unpublished [OF m] m show ?thesis
    by (simp add: example_world_def quiet_world_def)
qed

section \<open>The contract of the store\<close>

text \<open>
  What a client relies on: the data a mutation starts from is the latest one and is
  acceptable, and afterwards the latest data is what it was or the client's result. The
  client's invariant then holds after every history of mutations, whatever fails.
\<close>

locale transactional_store =
  fixes commit :: "('d \<Rightarrow> 'e + 'd) \<Rightarrow> 's \<Rightarrow> 's"
    and view :: "'s \<Rightarrow> 'd option"
    and acceptable :: "'d \<Rightarrow> bool"
  assumes unreadable: "view s = None \<Longrightarrow> view (commit f s) = None"
    and view_acceptable: "view s = Some d \<Longrightarrow> acceptable d"
    and refused: "view s = Some d \<Longrightarrow> f d = Inl e \<Longrightarrow> view (commit f s) = Some d"
    and atomic: "view s = Some d \<Longrightarrow> f d = Inr d' \<Longrightarrow> acceptable d' \<Longrightarrow>
                   view (commit f s) = Some d \<or> view (commit f s) = Some d'"
begin

definition holds :: "('d \<Rightarrow> bool) \<Rightarrow> 's \<Rightarrow> bool" where
  "holds I s \<longleftrightarrow> (\<forall>d. view s = Some d \<longrightarrow> I d)"

definition keeps :: "('d \<Rightarrow> bool) \<Rightarrow> ('d \<Rightarrow> 'e + 'd) \<Rightarrow> bool" where
  "keeps I f \<longleftrightarrow> (\<forall>d d'. I d \<longrightarrow> acceptable d \<longrightarrow> f d = Inr d' \<longrightarrow> I d' \<and> acceptable d')"

lemma commit_holds: "\<lbrakk>holds I s; keeps I f\<rbrakk> \<Longrightarrow> holds I (commit f s)"
proof (cases "view s")
  case None
  then show ?thesis by (simp add: holds_def unreadable)
next
  case (Some d)
  assume "holds I s" "keeps I f"
  with Some have d: "I d" "acceptable d" using view_acceptable [OF Some] by (auto simp: holds_def)
  show ?thesis
  proof (cases "f d")
    case (Inl e)
    then show ?thesis using refused [of s d f e, OF Some Inl] d by (simp add: holds_def)
  next
    case (Inr d')
    with \<open>keeps I f\<close> d have "I d'" "acceptable d'" unfolding keeps_def by blast+
    then have "view (commit f s) = Some d \<or> view (commit f s) = Some d'"
      using atomic [of s d f d', OF Some Inr] by simp
    with d \<open>I d'\<close> show ?thesis by (auto simp: holds_def)
  qed
qed

lemma history_holds: "\<lbrakk>holds I s; \<forall>f \<in> set fs. keeps I f\<rbrakk> \<Longrightarrow> holds I (fold commit fs s)"
  by (induction fs arbitrary: s) (auto simp: commit_holds)

lemma commit_readable: "\<lbrakk>view s = Some d; I d; keeps I f\<rbrakk> \<Longrightarrow> \<exists>d'. view (commit f s) = Some d' \<and> I d'"
proof (cases "f d")
  case (Inl e)
  assume "view s = Some d" "I d"
  then show ?thesis using refused [of s d f e] Inl by blast
next
  case (Inr d')
  assume v: "view s = Some d" "I d" "keeps I f"
  then have "I d'" "acceptable d'" using Inr view_acceptable [OF v(1)] unfolding keeps_def by blast+
  then show ?thesis using atomic [of s d f d'] v(1,2) Inr by blast
qed

lemma history_readable:
  "\<lbrakk>view s = Some d; I d; \<forall>f \<in> set fs. keeps I f\<rbrakk> \<Longrightarrow> \<exists>d'. view (fold commit fs s) = Some d' \<and> I d'"
proof (induction fs arbitrary: s d)
  case (Cons f fs)
  then obtain d1 where "view (commit f s) = Some d1" "I d1" using commit_readable [of s d I f] by auto
  then show ?case using Cons by auto
qed simp

end

definition commit_step :: "path \<Rightarrow> (Data \<Rightarrow> 'e + Data) \<Rightarrow> cache \<times> world \<Rightarrow> cache \<times> world" where
  "commit_step dir f s = snd (MutateData dir f (fst s) (snd s))"

definition store_view :: "cache \<times> world \<Rightarrow> Data option" where
  "store_view s = latest_view (snd s)"

definition current_data :: "Data \<Rightarrow> bool" where
  "current_data d \<longleftrightarrow> CurrentDataVersion \<le> DataVersion d"

lemma latest_view_current: "latest_view w = Some d \<Longrightarrow> current_data d"
  by (auto simp: latest_view_def current_data_def migrate_version split: db_file.splits sum.splits)

lemma latest_view_holds: "current_data d \<Longrightarrow> w_file w = Holds d \<Longrightarrow> latest_view w = Some d"
  by (simp add: latest_view_def current_data_def migrate_current)

lemma plain_mutator_Inr: "plain_mutator f d = (d1, None, c) \<longleftrightarrow> f d = Inr d1 \<and> \<not> c"
  by (auto simp: plain_mutator_def split: sum.splits)

lemma commit_step_cases:
  assumes "latest_view (snd s) = v"
  obtains "w_file (snd (commit_step dir f s)) = w_file (snd s)"
  | d where "v = Some d" "w_file (snd (commit_step dir f s)) = Holds d"
  | d d1 where "v = Some d" "f d = Inr d1" "w_file (snd (commit_step dir f s)) = Holds d1"
proof -
  obtain r err sd' w' where m:
    "mutateData dir (plain_mutator f) (fst s) (snd s) = ((r, err), sd', w')" by (metis prod.collapse)
  then have "snd (commit_step dir f s) = w'" by (simp add: commit_step_def MutateData_def)
  with m show thesis using that assms
    by (cases rule: mutateData_cases) (auto simp: plain_mutator_Inr)
qed

interpretation store: transactional_store "commit_step dir" store_view current_data
proof
  fix s :: "cache \<times> world" and f :: "Data \<Rightarrow> 'a + Data" and d d' and e :: 'a
  show "store_view s = None \<Longrightarrow> store_view (commit_step dir f s) = None"
    by (rule commit_step_cases [of s "store_view s" dir f])
      (auto simp: store_view_def latest_view_def)
  show view: "store_view s = Some d \<Longrightarrow> current_data d"
    by (simp add: store_view_def latest_view_current)
  show "store_view s = Some d \<Longrightarrow> f d = Inl e \<Longrightarrow> store_view (commit_step dir f s) = Some d"
    by (rule commit_step_cases [of s "store_view s" dir f])
      (use view in \<open>auto simp: store_view_def latest_view_holds dest: latest_view_unchanged\<close>)
  show "\<lbrakk>store_view s = Some d; f d = Inr d'; current_data d'\<rbrakk> \<Longrightarrow>
      store_view (commit_step dir f s) = Some d \<or> store_view (commit_step dir f s) = Some d'"
    by (rule commit_step_cases [of s "store_view s" dir f])
      (use view in \<open>auto simp: store_view_def latest_view_holds dest: latest_view_unchanged\<close>)
qed

text \<open>Reading leaves what loading the file returns.\<close>

lemma getLocked_view:
  fixes r :: "'e db_err + Data"
  assumes "getLocked dir sd w = (r, sd', w')"
  shows "store_view (sd', w') = store_view (sd, w)"
proof (cases sd)
  case None
  let ?f = "\<lambda>w. case loadLatestDataLocked dir w of ((loaded, published, err), w1) \<Rightarrow>
      ((published, err :: 'e db_err option, loaded), w1)"
  obtain p and err :: "'e db_err option" and l w1 where
    lk: "withFileLock dir None ?f w = ((p, err, l), w1)" by (metis prod.collapse)
  have w': "w' = w1"
    using assms None lk by (auto simp: getLocked_def Let_def split: option.splits if_splits)
  from lk have "latest_view w1 = latest_view w"
  proof (cases rule: withFileLock_cases)
    case 1
    then show ?thesis by (intro latest_view_frame)
  next
    case (2 w2 operr w3)
    then have "loadLatestDataLocked dir w2 = ((l, p, operr), w3)" by (auto split: prod.splits)
    from loadLatestDataLocked_spec [OF this] 2 show ?thesis by (metis latest_view_frame)
  qed
  then show ?thesis by (simp add: store_view_def w')
qed (use assms in \<open>auto simp: getLocked_def\<close>)

section \<open>The cache and the file\<close>

text \<open>The operations of one store, in any order, as a step relation on the cache and the world.\<close>

inductive store_step :: "path \<Rightarrow> cache \<times> world \<Rightarrow> cache \<times> world \<Rightarrow> bool" for dir where
  Get: "getLocked dir sd w = (r :: unit db_err + Data, sd', w') \<Longrightarrow> store_step dir (sd, w) (sd', w')"
| Set: "Set dir d sd w = (e :: unit db_err option, sd', w') \<Longrightarrow> store_step dir (sd, w) (sd', w')"
| Mutate: "mutateData dir (f :: unit mutator) sd w = (r, sd', w') \<Longrightarrow> store_step dir (sd, w) (sd', w')"
| Latest: "WithLatestDataLocked dir (g :: Data \<Rightarrow> unit option) sd w = (e, sd', w') \<Longrightarrow>
    store_step dir (sd, w) (sd', w')"

text \<open>The cache is empty, or it is the content of the file or what loading the file gives.\<close>

definition coherent :: "cache \<times> world \<Rightarrow> bool" where
  "coherent s \<longleftrightarrow> (case s of (sd, w) \<Rightarrow>
     (case sd of None \<Rightarrow> True | Some d \<Rightarrow> w_file w = Holds d \<or> latest_view w = Some d))"

lemma coherent_simps [simp]:
  "coherent (None, w)"
  "coherent (Some d, w) \<longleftrightarrow> w_file w = Holds d \<or> latest_view w = Some d"
  by (simp_all add: coherent_def)

lemma coherent_frame: "coherent (sd, w) \<Longrightarrow> w_file w' = w_file w \<Longrightarrow> coherent (sd, w')"
  by (cases sd) (auto simp: latest_view_def)

lemma coherent_mutate:
  assumes "coherent (sd, w)" "mutateData dir f sd w = ((r, err), sd', w')"
  shows "coherent (sd', w')"
  using assms(2)
proof (cases rule: mutateData_cases)
  case refused
  then show ?thesis using assms(1) coherent_frame by blast
qed auto

lemma coherent_loaded:
  fixes err :: "'e db_err option"
  assumes "db_frame w w1" "loadLatestDataLocked dir w1 = ((l, p, err), w2)" "db_frame w2 w'"
    "coherent (sd, w)"
  shows "(p \<longrightarrow> l \<noteq> None) \<and> coherent (l, w') \<and> (\<not> p \<longrightarrow> coherent (sd, w'))"
proof -
  note spec = loadLatestDataLocked_spec [OF assms(2)]
  have "latest_view w' = latest_view w2" using assms(3) by (rule latest_view_frame)
  with spec have "coherent (l, w')" by (cases l) auto
  moreover have "\<not> p \<longrightarrow> w_file w' = w_file w" using spec assms(1,3) by (simp add: db_frame_def)
  ultimately show ?thesis using spec coherent_frame [OF assms(4)] by blast
qed

lemma coherent_get:
  fixes r :: "'e db_err + Data"
  assumes "coherent (sd, w)" "getLocked dir sd w = (r, sd', w')"
  shows "coherent (sd', w')"
proof (cases sd)
  case None
  let ?f = "\<lambda>w. case loadLatestDataLocked dir w of ((loaded, published, err), w1) \<Rightarrow>
      ((published, err :: 'e db_err option, loaded), w1)"
  obtain p and err :: "'e db_err option" and l w1 where
    lk: "withFileLock dir None ?f w = ((p, err, l), w1)" by (metis prod.collapse)
  have "w' = w1" and sd': "sd' = (if p \<and> l \<noteq> None then l else if err = None then l else sd)"
    using assms(2) None lk by (auto simp: getLocked_def Let_def split: option.splits if_splits)
  from lk show ?thesis
  proof (cases rule: withFileLock_cases)
    case 1
    then show ?thesis using sd' None by simp
  next
    case (2 w2 operr w3)
    then have "loadLatestDataLocked dir w2 = ((l, p, operr), w3)" by (auto split: prod.splits)
    from coherent_loaded [OF 2(1) this 2(3) assms(1)] show ?thesis
      using sd' \<open>w' = w1\<close> None by auto
  qed
qed (use assms in \<open>auto simp: getLocked_def\<close>)

lemma coherent_set:
  fixes err :: "'e db_err option"
  assumes "coherent (sd, w)" "Set dir d sd w = (err, sd', w')"
  shows "coherent (sd', w')"
proof -
  let ?n = "map_option (\<lambda>n. if DataVersion n = 0 then n\<lparr>DataVersion := CurrentDataVersion\<rparr> else n) d"
  let ?f = "\<lambda>w. case saveDataLocked dir ?n w of ((published, err), w1) \<Rightarrow>
      ((published, err :: 'e db_err option, ()), w1)"
  obtain p and e :: "'e db_err option" and w1 where
    lk: "withFileLock dir () ?f w = ((p, e, ()), w1)"
    by (cases "withFileLock dir () ?f w") auto
  have "w' = w1" and sd': "sd' = (if p \<or> e = None then ?n else sd)"
    using assms(2) lk by (auto simp: Set_def Let_def split: option.splits if_splits)
  from lk show ?thesis
  proof (cases rule: withFileLock_cases)
    case 1
    then show ?thesis using sd' assms(1) \<open>w' = w1\<close> coherent_frame by (auto simp: db_frame_def)
  next
    case (2 w2 operr w3)
    then have sv: "saveDataLocked dir ?n w2 = ((p, operr), w3)" by (auto split: prod.splits)
    show ?thesis
    proof (cases ?n)
      case None
      with sv have "\<not> p \<and> w3 = w2" by (simp add: saveDataLocked_def)
      then have "w_file w' = w_file w" using 2 \<open>w' = w1\<close> by (simp add: db_frame_def)
      then show ?thesis using sd' None \<open>\<not> p \<and> w3 = w2\<close> coherent_frame [OF assms(1)] by auto
    next
      case (Some n)
      note ss = saveDataLocked_spec [OF sv [unfolded Some]]
      show ?thesis
      proof (cases p)
        case True
        with ss 2(3) \<open>w' = w1\<close> have "w_file w' = Holds n" by (simp add: db_frame_def)
        then show ?thesis using sd' True Some by simp
      next
        case False
        with ss 2 \<open>w' = w1\<close> have "w_file w' = w_file w" "e \<noteq> None" by (auto simp: db_frame_def)
        then show ?thesis using sd' False coherent_frame [OF assms(1)] by auto
      qed
    qed
  qed
qed

lemma run_finalizer_loaded:
  fixes err :: "'e db_err option"
  assumes "run_finalizer dir g w = ((p, err, (l, ld, c)), w')"
  obtains le :: "'e db_err option" where "loadLatestDataLocked dir w = ((l, p, le), w')"
  using assms by (auto simp: run_finalizer_def split: prod.splits option.splits)

lemma coherent_latest:
  fixes err :: "'e db_err option"
  assumes "coherent (sd, w)" "WithLatestDataLocked dir g sd w = (err, sd', w')"
  shows "coherent (sd', w')"
proof -
  obtain p and oe ce :: "'e db_err option" and l ld c w1 where
    lk: "withFileLockOutcome dir (None, False, False) (run_finalizer dir g) w =
          ((p, oe, ce, (l, ld, c)), w1)" by (metis prod.collapse)
  have w': "w' = w1" and sd': "sd' = (if l \<noteq> None \<and> (ld \<or> p) then l else sd)"
    using assms(2) lk by (auto simp: WithLatestDataLocked_def Let_def)
  from lk show ?thesis
  proof (cases rule: withFileLockOutcome_cases)
    case 1
    then show ?thesis using sd' assms(1) w' coherent_frame by (auto simp: db_frame_def)
  next
    case (2 w2 w3)
    from 2(2) obtain le :: "'e db_err option" where
      "loadLatestDataLocked dir w2 = ((l, p, le), w3)" by (rule run_finalizer_loaded)
    from coherent_loaded [OF 2(1) this 2(3) assms(1)] show ?thesis
      using sd' w' by auto
  qed
qed

lemma store_step_coherent: "store_step dir s s' \<Longrightarrow> coherent s \<Longrightarrow> coherent s'"
  by (induction rule: store_step.induct)
    (auto intro: coherent_get coherent_set coherent_latest coherent_mutate)

text \<open>
  C6: from an empty cache, after any sequence of gets, sets, mutations and finalizers, each
  with any failures, the cached data is what the file holds or what loading it would return:
  a view handed out from the cache is never one that was not published.
\<close>

theorem cache_coherent:
  assumes "(store_step dir)\<^sup>*\<^sup>* (None, w) (sd, w')"
  shows "case sd of None \<Rightarrow> True | Some d \<Rightarrow> w_file w' = Holds d \<or> latest_view w' = Some d"
proof -
  have "coherent (sd, w')" using assms
    by (induction rule: rtranclp_induct) (auto intro: store_step_coherent)
  then show ?thesis by (cases sd) auto
qed

theorem cache_coherent_witness:
  "\<exists>w'. (store_step [])\<^sup>*\<^sup>* (None, quiet_world Absent (\<lambda>_. False))
      (Some (new_Data\<lparr>DataVersion := CurrentDataVersion\<rparr>), w') \<and>
    (w_file w' = Holds (new_Data\<lparr>DataVersion := CurrentDataVersion\<rparr>) \<or>
     latest_view w' = Some (new_Data\<lparr>DataVersion := CurrentDataVersion\<rparr>))"
proof -
  obtain r :: "unit db_err + Data" and sd w' where
    g: "getLocked [] None (quiet_world Absent (\<lambda>_. False)) = (r, sd, w')" by (metis prod.collapse)
  then have sd: "sd = Some (new_Data\<lparr>DataVersion := CurrentDataVersion\<rparr>)"
    by (simp add: store_eval getLocked_def)
  have s: "(store_step [])\<^sup>*\<^sup>* (None, quiet_world Absent (\<lambda>_. False)) (sd, w')"
    using store_step.Get [OF g] by blast
  from cache_coherent [OF s] s sd show ?thesis by auto
qed

section \<open>Directories are durable\<close>

definition nodes_grow :: "world \<Rightarrow> world \<Rightarrow> bool" where
  "nodes_grow w w' \<longleftrightarrow> (\<forall>p. w_nodes w p \<noteq> w_nodes w' p \<longrightarrow>
     w_nodes w p = Missing \<and> w_nodes w' p = IsDir \<and> butlast p \<in> set (w_synced w')) \<and>
     set (w_synced w) \<subseteq> set (w_synced w')"

lemma nodes_grow_refl [simp]: "w_nodes w' = w_nodes w \<Longrightarrow> w_synced w' = w_synced w \<Longrightarrow> nodes_grow w w'"
  by (simp add: nodes_grow_def)

lemma nodes_grow_trans: "nodes_grow a b \<Longrightarrow> nodes_grow b c \<Longrightarrow> nodes_grow a c"
  unfolding nodes_grow_def by (metis node.distinct(1) subset_iff)

lemma nodes_grow_IsDir: "nodes_grow a b \<Longrightarrow> w_nodes a p = IsDir \<Longrightarrow> w_nodes b p = IsDir"
  unfolding nodes_grow_def by (metis node.distinct(1))

lemma syncDirectoryLink_ok:
  "syncDirectoryLink link w = (None, w') \<Longrightarrow>
   w_nodes w' = w_nodes w \<and> w_synced w' = butlast link # w_synced w"
  by (auto simp: syncDirectoryLink_def Let_def io_def wrapDBFileError_def split: if_splits)

lemma ensureDurableDatabaseDirectory_ok:
  assumes "ensureDurableDatabaseDirectory link w = (None, w')"
  shows "nodes_grow w w' \<and> w_nodes w' link = IsDir \<and> butlast link \<in> set (w_synced w')"
  using assms
  by (auto simp: ensureDurableDatabaseDirectory_def io_def nodes_grow_def
      split: if_splits dest!: syncDirectoryLink_ok)

lemma ensure_missing_ok:
  fixes w :: world
  assumes "ensure_missing links w = (None :: 'e db_err option, w')"
  shows "nodes_grow w w' \<and> (\<forall>l \<in> set links. w_nodes w' l = IsDir \<and> butlast l \<in> set (w_synced w'))"
  using assms
proof (induction links arbitrary: w)
  case (Cons link links)
  then obtain w1 where w1: "ensureDurableDatabaseDirectory link w = (None :: 'e db_err option, w1)"
    "ensure_missing links w1 = (None :: 'e db_err option, w')"
    by (auto split: prod.splits option.splits)
  note here = ensureDurableDatabaseDirectory_ok [OF w1(1)] and rest = Cons.IH [OF w1(2)]
  have "w_nodes w' link = IsDir" using here rest nodes_grow_IsDir by blast
  moreover have "butlast link \<in> set (w_synced w')" using here rest unfolding nodes_grow_def by blast
  moreover have "nodes_grow w w'" using here rest nodes_grow_trans by blast
  ultimately show ?case using rest by simp
qed simp

lemma ancestor_ok:
  fixes w :: world
  assumes "existingDatabaseDirectoryAncestor dir cur missing w =
     (Inr (existing, links) :: 'e db_err + path \<times> path list, w')"
  shows "w_nodes w' = w_nodes w \<and> w_synced w' = w_synced w \<and> set missing \<subseteq> set links \<and>
    (cur \<in> set links \<or> cur = existing \<and> w_nodes w cur = IsDir)"
  using assms
proof (induction "length cur" arbitrary: cur missing w)
  case 0
  then have "cur = []" by simp
  with 0(2) show ?case unfolding existingDatabaseDirectoryAncestor.simps [of dir cur missing w]
    by (auto simp: io_def split: if_splits node.splits)
next
  case (Suc n)
  from Suc.prems consider "cur = existing" "links = missing" "w_nodes w cur = IsDir"
      "w_nodes w' = w_nodes w" "w_synced w' = w_synced w"
    | "existingDatabaseDirectoryAncestor dir (butlast cur) (missing @ [cur])
        (w\<lparr>w_clock := Suc (w_clock w)\<rparr>) =
        (Inr (existing, links) :: 'e db_err + path \<times> path list, w')"
    unfolding existingDatabaseDirectoryAncestor.simps [of dir cur missing w]
    by (auto simp: io_def split: if_splits node.splits)
  then show ?case
  proof cases
    case 2
    have "n = length (butlast cur)" using Suc.hyps(2) by simp
    from Suc.hyps(1) [OF this 2] show ?thesis by auto
  qed auto
qed

text \<open>
  When the database directory is ensured, it is a directory, every change to the tree is
  a missing directory that was created, and the parent of every created directory has been
  synced: no created directory entry is left to be lost by a crash.
\<close>

theorem ensureDurableDir_durable:
  assumes "ensureDurableDir dir w = (None :: 'e db_err option, w')"
  shows "w_nodes w' dir = IsDir \<and>
    (\<forall>p. w_nodes w p \<noteq> w_nodes w' p \<longrightarrow>
       w_nodes w p = Missing \<and> w_nodes w' p = IsDir \<and> butlast p \<in> set (w_synced w'))"
proof -
  obtain existing links w1 w2 where
    a: "existingDatabaseDirectoryAncestor dir dir [] w =
       (Inr (existing, links) :: 'e db_err + path \<times> path list, w1)"
    and s: "syncDirectoryLink existing w1 = (None :: 'e db_err option, w2)"
    and m: "ensure_missing (rev links) w2 = (None :: 'e db_err option, w')"
    using assms by (auto simp: ensureDurableDir_def split: prod.splits sum.splits option.splits)
  note an = ancestor_ok [OF a] and sy = syncDirectoryLink_ok [OF s] and mi = ensure_missing_ok [OF m]
  have "nodes_grow w w2" using an sy by (auto simp: nodes_grow_def)
  with mi have "nodes_grow w w'" using nodes_grow_trans by blast
  moreover have "w_nodes w' dir = IsDir"
    using an mi nodes_grow_IsDir [OF \<open>nodes_grow w w'\<close>] by auto
  ultimately show ?thesis by (simp add: nodes_grow_def)
qed

theorem ensureDurableDir_durable_witness:
  "case ensureDurableDir [''a'', ''b'']
       ((quiet_world Absent (\<lambda>_. False))\<lparr>w_nodes := (\<lambda>p. if p = [] then IsDir else Missing)\<rparr>) of
     (e :: unit db_err option, w') \<Rightarrow>
       e = None \<and> w_nodes w' [''a'', ''b''] = IsDir \<and> [''a''] \<in> set (w_synced w')"
proof -
  let ?w = "(quiet_world Absent (\<lambda>_. False))\<lparr>w_nodes := (\<lambda>p. if p = [] then IsDir else Missing)\<rparr>"
  obtain e :: "unit db_err option" and w' where
    e: "ensureDurableDir [''a'', ''b''] ?w = (e, w')" by force
  then have n: "e = None" by (simp add: store_eval ensureDurableDatabaseDirectory_def)
  from ensureDurableDir_durable [OF e [unfolded n]] e n show ?thesis
    by (auto simp: quiet_world_def dest: spec [of _ "[''a'', ''b'']"])
qed

end
