(* ===== verification/Iso_Alloc.thy ===== *)
theory Iso_Alloc
  imports Db_Store Sha256
begin

text \<open>
  The isolated-network allocator of the server (\<^verbatim>\<open>src/pkg/catch/iso_allocator.go\<close> and
  \<^verbatim>\<open>iso_pool.go\<close>): reserving a link, a project and component addresses for a service,
  releasing them, and choosing or changing the pool.

  The functions handed to the store are pure functions on the data; the operations of the
  server compose them with \<open>MutateService\<close>, \<open>MutateData\<close> and \<open>getLocked\<close>. The probes of
  the host (addresses, namespaces, Docker networks) are arguments. \<open>NilService\<close> is the nil
  dereference on a nil service pointer in the map.

  The lemmas show that the allocation invariant (links, projects and component addresses of
  all services come from the pool and never collide) is kept by every operation and hence,
  through the contract of the store, by every history of them under every failure; that the
  chosen pool collides with nothing known; and that a pool in use is never replaced.
\<close>

section \<open>iso_allocator.go\<close>

text \<open>Errors of the functions of this file, of the pool and of the functions the runtime hands to the store.\<close>

datatype alloc_err =
    IsoErr iso_err
  | PoolNotConfigured
  | KindMismatch string string string
  | RemovalInProgress string
  | CleanupTombstone string string
  | ComponentsUnsupported string
  | NoAllocation string
  | NilService
  | ProbeErr string
  | NoCollisionFreePool
  | PoolConflict prefix prefix
  | PoolNotCanonical
  | PoolNotPrivate
  | PoolChanged
  | PoolBlocked "string list"
  | PoolConflicts "string list"
  | PoolDisappeared string
  | NotReadyState string string
  | CleanupNotRequested string
  | ServiceChanged string

record isoReservationRequest =
  rr_Kind :: string
  rr_Modes :: "string list"
  rr_Components :: "string list"

definition isoLayoutForPool :: "ISOPool option \<Rightarrow> alloc_err + Layout" where
  "isoLayoutForPool pool =
     (case pool of
        None \<Rightarrow> Inl PoolNotConfigured
      | Some p \<Rightarrow> (case NewLayout (pool_Prefix p) of Inl e \<Rightarrow> Inl (IsoErr e) | Inr l \<Rightarrow> Inr l))"

definition isoNameToken :: "string \<Rightarrow> string" where
  "isoNameToken name = EncodeToString (take 5 (Sum256 (string_bytes name)))"

definition isoRouterNamespace :: "string \<Rightarrow> string" where
  "isoRouterNamespace name = ''yeet-'' @ isoNameToken name @ ''-ns''"

definition newDBISOAllocation :: "string \<Rightarrow> isoReservationRequest \<Rightarrow> prefix \<Rightarrow> ISOAllocation" where
  "newDBISOAllocation name req link =
     (let token = isoNameToken name in
      \<lparr>iso_Kind = rr_Kind req, iso_State = StateReserved, iso_Link = link,
       iso_HostIP = Next (p_addr link), iso_PeerIP = Next (Next (p_addr link)),
       iso_Project = no_prefix, iso_Gateway = NoAddr,
       iso_Interface = ''yi-'' @ token, iso_PeerInterface = ''yo-'' @ token,
       iso_NetNS = (if rr_Kind req \<noteq> PayloadVM then isoRouterNamespace name else []),
       iso_Bridge = [], iso_Components = [], iso_RetiredComponents = [],
       iso_DesiredModes = rr_Modes req, iso_AllocatorVersion = AllocatorVersion,
       iso_PolicyVersion = PolicyVersion, iso_RemoveRequested = False,
       iso_CleanupVerified = False, iso_RemoveCleanData = False, iso_LastError = []\<rparr>)"

text \<open>The allocations of the services map: nil services and services without one are skipped.\<close>

definition service_isos :: "(string \<times> Service option) list \<Rightarrow> (string \<times> ISOAllocation) list" where
  "service_isos services =
     List.map_filter (\<lambda>(n, s). case s of
         None \<Rightarrow> None
       | Some sv \<Rightarrow> map_option (Pair n) (svc_ISO sv)) services"

definition used_links :: "(string \<times> Service option) list \<Rightarrow> prefix list" where
  "used_links services =
     [Masked (iso_Link a). (n, a) \<leftarrow> service_isos services, p_valid (iso_Link a)]"

definition used_projects :: "(string \<times> Service option) list \<Rightarrow> prefix list" where
  "used_projects services =
     [Masked (iso_Project a). (n, a) \<leftarrow> service_isos services, p_valid (iso_Project a)]"

definition firstFreeISOLink :: "Layout \<Rightarrow> (string \<times> Service option) list \<Rightarrow> iso_err + prefix" where
  "firstFreeISOLink layout services =
     (case first_free (\<lambda>i. Link layout (int i)) (used_links services) [0 ..< 8192] of
        Inl e \<Rightarrow> Inl e
      | Inr None \<Rightarrow> Inl ErrLinkCapacity
      | Inr (Some p) \<Rightarrow> Inr p)"

definition firstFreeISOProject :: "Layout \<Rightarrow> (string \<times> Service option) list \<Rightarrow> iso_err + prefix" where
  "firstFreeISOProject layout services =
     (case first_free (\<lambda>i. Project layout (int i)) (used_projects services) [0 ..< 1024] of
        Inl e \<Rightarrow> Inl e
      | Inr None \<Rightarrow> Inl ErrProjectCapacity
      | Inr (Some p) \<Rightarrow> Inr p)"

text \<open>
  The service is an entry of the services map, so the search for a project already sees the
  allocation with the new link; the new service is returned.
\<close>

definition ensureISOAllocation ::
  "string \<Rightarrow> isoReservationRequest \<Rightarrow> Layout \<Rightarrow> (string \<times> Service option) list \<Rightarrow> Service \<Rightarrow>
   alloc_err + ISOAllocation" where
  "ensureISOAllocation name req layout services service =
     (case svc_ISO service of
        Some a \<Rightarrow>
          if iso_Kind a \<noteq> rr_Kind req then Inl (KindMismatch name (iso_Kind a) (rr_Kind req)) else Inr a
      | None \<Rightarrow>
          (case firstFreeISOLink layout services of
             Inl e \<Rightarrow> Inl (IsoErr e)
           | Inr link \<Rightarrow>
               (let a = newDBISOAllocation name req link in
                if rr_Kind req \<noteq> PayloadCompose \<and> rr_Kind req \<noteq> PayloadContainer then Inr a
                else (case firstFreeISOProject layout
                         (AList.update name (Some (service\<lparr>svc_ISO := Some a\<rparr>)) services) of
                        Inl e \<Rightarrow> Inl (IsoErr e)
                      | Inr project \<Rightarrow>
                          Inr (a\<lparr>iso_Project := project, iso_Gateway := Next (p_addr project)\<rparr>)))))"

definition componentStates :: "component_addrs \<Rightarrow> string \<Rightarrow> (string \<times> ISOComponent) list" where
  "componentStates addrs state = map (\<lambda>(n, a). (n, \<lparr>comp_Address = a, comp_State = state\<rparr>)) addrs"

text \<open>The loops that fill \<open>current\<close>: the active components overwrite the retired ones.\<close>

definition current_components :: "ISOAllocation \<Rightarrow> component_addrs" where
  "current_components a =
     fold (\<lambda>(c, s). AList.update c (comp_Address s)) (iso_Components a)
       (fold (\<lambda>(c, s). AList.update c (comp_Address s)) (iso_RetiredComponents a) [])"

definition planISOComponents :: "string list \<Rightarrow> ISOAllocation \<Rightarrow> alloc_err + ISOAllocation" where
  "planISOComponents components a =
     (if \<not> p_valid (iso_Project a)
      then (if components \<noteq> [] then Inl (ComponentsUnsupported (iso_Kind a)) else Inr a)
      else (case PlanComponents (iso_Project a) (current_components a) components of
              Inl e \<Rightarrow> Inl (IsoErr e)
            | Inr plan \<Rightarrow>
                Inr (a\<lparr>iso_Components := componentStates (Desired plan) ''reserved'',
                       iso_RetiredComponents := componentStates (Retired plan) ''retiring''\<rparr>)))"

definition reserveISOAllocationInData ::
  "string \<Rightarrow> isoReservationRequest \<Rightarrow> Data \<Rightarrow> Service option \<Rightarrow> alloc_err + Data \<times> Service option" where
  "reserveISOAllocationInData name req data service =
     (case isoLayoutForPool (data_ISOPool data) of
        Inl e \<Rightarrow> Inl e
      | Inr layout \<Rightarrow>
          (case service of
             None \<Rightarrow> Inl NilService
           | Some sv \<Rightarrow>
               (case ensureISOAllocation name req layout (Services data) sv of
                  Inl e \<Rightarrow> Inl e
                | Inr a \<Rightarrow>
                    if iso_RemoveRequested a then Inl (RemovalInProgress name)
                    else if iso_State a = StateTombstoned then Inl (CleanupTombstone name (iso_LastError a))
                    else (case planISOComponents (rr_Components req) a of
                            Inl e \<Rightarrow> Inl e
                          | Inr a1 \<Rightarrow>
                              Inr (data, Some (sv\<lparr>svc_ISO := Some (a1\<lparr>iso_DesiredModes := rr_Modes req,
                                iso_State := StateReserved, iso_LastError := []\<rparr>)\<rparr>))))))"

definition mark_state ::
  "string \<Rightarrow> string \<Rightarrow> string option \<Rightarrow> Data \<Rightarrow> Service option \<Rightarrow> alloc_err + Data \<times> Service option" where
  "mark_state name state cause data service =
     (case service of
        None \<Rightarrow> Inl NilService
      | Some sv \<Rightarrow>
          (case svc_ISO sv of
             None \<Rightarrow> Inl (NoAllocation name)
           | Some a \<Rightarrow>
               Inr (data, Some (sv\<lparr>svc_ISO := Some (a\<lparr>iso_State := state,
                 iso_LastError := (case cause of None \<Rightarrow> [] | Some m \<Rightarrow> m)\<rparr>)\<rparr>))))"

definition markISOState ::
  "path \<Rightarrow> string \<Rightarrow> string \<Rightarrow> string option \<Rightarrow> cache \<Rightarrow> world \<Rightarrow> alloc_err db_err option \<times> cache \<times> world" where
  "markISOState dir name state cause sd w =
     (case MutateService dir name (mark_state name state cause) sd w of ((_, e), sd1, w1) \<Rightarrow> (e, sd1, w1))"

definition clear_iso :: "Data \<Rightarrow> Service option \<Rightarrow> alloc_err + Data \<times> Service option" where
  "clear_iso data service =
     (case service of None \<Rightarrow> Inl NilService | Some sv \<Rightarrow> Inr (data, Some (sv\<lparr>svc_ISO := None\<rparr>)))"

definition releaseISOAllocation ::
  "path \<Rightarrow> string \<Rightarrow> cache \<Rightarrow> world \<Rightarrow> alloc_err db_err option \<times> cache \<times> world" where
  "releaseISOAllocation dir name sd w =
     (case MutateService dir name clear_iso sd w of ((_, e), sd1, w1) \<Rightarrow> (e, sd1, w1))"

section \<open>iso_pool.go\<close>

record isoPoolProbe =
  HostPrefixes :: "alloc_err + prefix list"
  NamespacePrefixes :: "alloc_err + prefix list"
  DockerPrefixes :: "alloc_err + prefix list"

definition automaticISOPoolCandidates :: "string list" where
  "automaticISOPoolCandidates =
     [''172.30.0.0/16'', ''172.29.0.0/16'', ''172.28.0.0/16'', ''172.27.0.0/16'',
      ''172.26.0.0/16'', ''172.25.0.0/16'', ''172.24.0.0/16'', ''172.23.0.0/16'',
      ''172.22.0.0/16'', ''172.21.0.0/16'', ''172.20.0.0/16'', ''172.19.0.0/16'',
      ''172.18.0.0/16'', ''172.16.0.0/16'', ''172.17.0.0/16'', ''172.31.0.0/16'']"

text \<open>The loop over the three loads, appending each result, until the first error.\<close>

fun load_all :: "(alloc_err + prefix list) list \<Rightarrow> prefix list \<Rightarrow> alloc_err + prefix list" where
  "load_all [] occupied = Inr occupied"
| "load_all (l # ls) occupied =
     (case l of Inl e \<Rightarrow> Inl e | Inr prefixes \<Rightarrow> load_all ls (occupied @ prefixes))"

definition probe_all :: "isoPoolProbe \<Rightarrow> prefix list \<Rightarrow> alloc_err + prefix list" where
  "probe_all probe persisted =
     load_all [HostPrefixes probe, NamespacePrefixes probe, DockerPrefixes probe] persisted"

fun overlapsAny :: "prefix \<Rightarrow> prefix list \<Rightarrow> bool" where
  "overlapsAny candidate [] = False"
| "overlapsAny candidate (p # ps) =
     (if p_valid p \<and> Overlaps candidate (Masked p) then True else overlapsAny candidate ps)"

fun first_candidate :: "string list \<Rightarrow> prefix list \<Rightarrow> alloc_err + prefix" where
  "first_candidate [] occupied = Inl NoCollisionFreePool"
| "first_candidate (raw # rest) occupied =
     (let candidate = MustParsePrefix raw in
      if \<not> overlapsAny candidate occupied then Inr candidate else first_candidate rest occupied)"

definition selectISOPool :: "isoPoolProbe \<Rightarrow> prefix list \<Rightarrow> alloc_err + prefix" where
  "selectISOPool probe persisted =
     (case probe_all probe persisted of
        Inl e \<Rightarrow> Inl e
      | Inr occupied \<Rightarrow> first_candidate automaticISOPoolCandidates occupied)"

fun first_conflict :: "prefix \<Rightarrow> prefix list \<Rightarrow> prefix option" where
  "first_conflict candidate [] = None"
| "first_conflict candidate (p # ps) =
     (if p_valid p \<and> Overlaps candidate (Masked p) then Some (Masked p) else first_conflict candidate ps)"

definition verifyISOPoolCandidate :: "isoPoolProbe \<Rightarrow> prefix \<Rightarrow> prefix list \<Rightarrow> alloc_err option" where
  "verifyISOPoolCandidate probe candidate persisted =
     (case probe_all probe persisted of
        Inl e \<Rightarrow> Some e
      | Inr occupied \<Rightarrow> map_option (PoolConflict candidate) (first_conflict candidate occupied))"

definition validateServerISOPool :: "string \<Rightarrow> alloc_err + prefix" where
  "validateServerISOPool raw =
     (case ParsePrefix4 (TrimSpace raw) of
        None \<Rightarrow> Inl PoolNotCanonical
      | Some p \<Rightarrow>
          if \<not> Is4 (p_addr p) \<or> Bits p \<noteq> 16 \<or> p \<noteq> Masked p then Inl PoolNotCanonical
          else if list_ex (\<lambda>allowed. p_contains (MustParsePrefix allowed) (p_addr p))
                    [''10.0.0.0/8'', ''172.16.0.0/12'', ''192.168.0.0/16'']
          then Inr p else Inl PoolNotPrivate)"

definition isoPoolAllocationBlockers :: "(string \<times> Service option) list \<Rightarrow> string list" where
  "isoPoolAllocationBlockers services = sort (map fst (service_isos services))"

definition appendIPv4AddressPrefix :: "prefix list \<Rightarrow> addr \<Rightarrow> prefix list" where
  "appendIPv4AddressPrefix prefixes a =
     (if IsValid a \<and> Is4 a then prefixes @ [PrefixFrom a 32] else prefixes)"

definition appendValidIPv4Prefix :: "prefix list \<Rightarrow> prefix \<Rightarrow> prefix list" where
  "appendValidIPv4Prefix prefixes p =
     (if p_valid p \<and> Is4 (p_addr p) then prefixes @ [Masked p] else prefixes)"

definition appendServiceNetworkPrefixes :: "prefix list \<Rightarrow> Service option \<Rightarrow> prefix list" where
  "appendServiceNetworkPrefixes prefixes service =
     (case service of
        None \<Rightarrow> prefixes
      | Some sv \<Rightarrow>
          (let p1 = (case svc_SvcNetwork sv of
                       None \<Rightarrow> prefixes | Some n \<Rightarrow> appendIPv4AddressPrefix prefixes (svcnet_IPv4 n));
               p2 = (case svc_VM sv of
                       None \<Rightarrow> p1
                     | Some vm \<Rightarrow> foldl (\<lambda>ps n. appendIPv4AddressPrefix ps (vn_IP n)) p1 (vm_Networks vm))
           in case svc_ISO sv of
                None \<Rightarrow> p2
              | Some a \<Rightarrow> appendValidIPv4Prefix (appendValidIPv4Prefix p2 (iso_Link a)) (iso_Project a)))"

definition appendDockerNetworkPrefixes :: "prefix list \<Rightarrow> DockerNetwork option \<Rightarrow> prefix list" where
  "appendDockerNetworkPrefixes prefixes network =
     (case network of
        None \<Rightarrow> prefixes
      | Some n \<Rightarrow>
          foldl (\<lambda>ps (_, e). case e of None \<Rightarrow> ps | Some ep \<Rightarrow> appendValidIPv4Prefix ps (de_IPv4 ep))
            (appendValidIPv4Prefix (appendValidIPv4Prefix prefixes (dn_IPv4Gateway n)) (dn_IPv4Range n))
            (dn_Endpoints n))"

definition persistedNetworkPrefixes :: "Data \<Rightarrow> prefix list" where
  "persistedNetworkPrefixes data =
     (let p0 = (case data_ISOPool data of
                  None \<Rightarrow> []
                | Some pool \<Rightarrow> if p_valid (pool_Prefix pool) then [Masked (pool_Prefix pool)] else []);
          p1 = foldl (\<lambda>ps (_, s). appendServiceNetworkPrefixes ps s) p0 (Services data)
      in foldl (\<lambda>ps (_, n). appendDockerNetworkPrefixes ps n) p1 (DockerNetworks data))"

record ISOPoolPlan =
  CurrentPrefix :: string
  DesiredPrefix :: string
  plan_Source :: string
  Changed :: bool
  Blockers :: "string list"
  Conflicts :: "string list"

definition no_plan :: ISOPoolPlan where
  "no_plan = \<lparr>CurrentPrefix = [], DesiredPrefix = [], plan_Source = [], Changed = False,
     Blockers = [], Conflicts = []\<rparr>"

definition conflict_Error :: "prefix \<Rightarrow> prefix \<Rightarrow> string" where
  "conflict_Error candidate occupied =
     ''isolated network pool '' @ prefix_string candidate @ '' conflicts with '' @ prefix_string occupied"

text \<open>
  The part of \<open>PlanISOPool\<close> after the store returned the data. A conflict is reported in
  the plan; any other error of the verification is returned with it.
\<close>

definition plan_on :: "isoPoolProbe \<Rightarrow> prefix \<Rightarrow> Data \<Rightarrow> ISOPoolPlan \<times> alloc_err option" where
  "plan_on probe desired dv =
     (let plan0 = no_plan\<lparr>DesiredPrefix := prefix_string desired, plan_Source := ''explicit''\<rparr>;
          plan1 = (case data_ISOPool dv of
                     None \<Rightarrow> plan0
                   | Some pool \<Rightarrow> plan0\<lparr>CurrentPrefix := prefix_string (pool_Prefix pool)\<rparr>);
          same = (case data_ISOPool dv of
                    None \<Rightarrow> None
                  | Some pool \<Rightarrow> if Masked (pool_Prefix pool) = desired then Some pool else None)
      in case same of
           Some pool \<Rightarrow> (plan1\<lparr>plan_Source := pool_Source pool\<rparr>, None)
         | None \<Rightarrow>
             (let plan2 = plan1\<lparr>Changed := True, Blockers := isoPoolAllocationBlockers (Services dv)\<rparr>
              in if Blockers plan2 \<noteq> [] then (plan2, None)
                 else (case verifyISOPoolCandidate probe desired (persistedNetworkPrefixes dv) of
                         None \<Rightarrow> (plan2, None)
                       | Some (PoolConflict c occ) \<Rightarrow> (plan2\<lparr>Conflicts := [conflict_Error c occ]\<rparr>, None)
                       | Some e \<Rightarrow> (plan2, Some e))))"

definition PlanISOPool ::
  "path \<Rightarrow> isoPoolProbe \<Rightarrow> string \<Rightarrow> cache \<Rightarrow> world \<Rightarrow>
   (ISOPoolPlan \<times> alloc_err db_err option) \<times> cache \<times> world" where
  "PlanISOPool dir probe raw sd w =
     (case validateServerISOPool raw of
        Inl e \<Rightarrow> ((no_plan, Some (CallerErr e)), sd, w)
      | Inr desired \<Rightarrow>
          (case getLocked dir sd w of
             (Inl e, sd1, w1) \<Rightarrow> ((no_plan, Some e), sd1, w1)
           | (Inr dv, sd1, w1) \<Rightarrow>
               (case plan_on probe desired dv of (plan, e) \<Rightarrow> ((plan, map_option CallerErr e), sd1, w1))))"

definition blockedISOPoolPlanError :: "ISOPoolPlan \<Rightarrow> alloc_err option" where
  "blockedISOPoolPlanError plan =
     (if Blockers plan \<noteq> [] then Some (PoolBlocked (Blockers plan))
      else if Conflicts plan \<noteq> [] then Some (PoolConflicts (Conflicts plan))
      else None)"

definition explicit_pool :: "prefix \<Rightarrow> ISOPool" where
  "explicit_pool desired =
     \<lparr>pool_Prefix = desired, pool_Source = ''explicit'', pool_AllocatorVersion = AllocatorVersion,
      pool_PolicyVersion = PolicyVersion, pool_AggregateRouteState = [], pool_LastConflict = []\<rparr>"

text \<open>The function \<open>ApplyISOPool\<close> hands to the store.\<close>

definition apply_pool :: "ISOPoolPlan \<Rightarrow> prefix \<Rightarrow> Data \<Rightarrow> alloc_err + Data" where
  "apply_pool plan desired data =
     (let currentPrefix = (case data_ISOPool data of
                             None \<Rightarrow> [] | Some pool \<Rightarrow> prefix_string (pool_Prefix pool))
      in if currentPrefix \<noteq> CurrentPrefix plan then Inl PoolChanged
         else if currentPrefix = prefix_string desired then Inr data
         else if isoPoolAllocationBlockers (Services data) \<noteq> []
         then Inl (PoolBlocked (isoPoolAllocationBlockers (Services data)))
         else Inr (data\<lparr>data_ISOPool := Some (explicit_pool desired)\<rparr>))"

text \<open>
  \<open>ApplyISOPool\<close> plans again and then changes the pool; the prefix and source it also returns
  are those of the pool it leaves in the data.
\<close>

definition ApplyISOPool ::
  "path \<Rightarrow> isoPoolProbe \<Rightarrow> ISOPoolPlan \<Rightarrow> cache \<Rightarrow> world \<Rightarrow> alloc_err db_err option \<times> cache \<times> world" where
  "ApplyISOPool dir probe reqPlan sd w =
     (case PlanISOPool dir probe (DesiredPrefix reqPlan) sd w of
        ((plan, Some e), sd1, w1) \<Rightarrow> (Some e, sd1, w1)
      | ((plan, None), sd1, w1) \<Rightarrow>
          (case blockedISOPoolPlanError plan of
             Some e \<Rightarrow> (Some (CallerErr e), sd1, w1)
           | None \<Rightarrow>
               (case MutateData dir (apply_pool plan (MustParsePrefix (DesiredPrefix plan))) sd1 w1 of
                  ((_, e), sd2, w2) \<Rightarrow> (e, sd2, w2))))"

definition automatic_pool :: "prefix \<Rightarrow> ISOPool" where
  "automatic_pool p =
     \<lparr>pool_Prefix = p, pool_Source = ''automatic'', pool_AllocatorVersion = AllocatorVersion,
      pool_PolicyVersion = PolicyVersion, pool_AggregateRouteState = [], pool_LastConflict = []\<rparr>"

definition install_pool :: "prefix \<Rightarrow> Data \<Rightarrow> alloc_err + Data" where
  "install_pool p data =
     Inr (if data_ISOPool data = None then data\<lparr>data_ISOPool := Some (automatic_pool p)\<rparr> else data)"

definition ensureISOPool ::
  "path \<Rightarrow> isoPoolProbe \<Rightarrow> cache \<Rightarrow> world \<Rightarrow> alloc_err db_err option \<times> cache \<times> world" where
  "ensureISOPool dir probe sd w =
     (case getLocked dir sd w of
        (Inl e, sd1, w1) \<Rightarrow> (Some e, sd1, w1)
      | (Inr dv, sd1, w1) \<Rightarrow>
          if data_ISOPool dv \<noteq> None then (None, sd1, w1)
          else
            (let persisted = persistedNetworkPrefixes dv in
             case selectISOPool probe persisted of
               Inl e \<Rightarrow> (Some (CallerErr e), sd1, w1)
             | Inr p \<Rightarrow>
                 (case verifyISOPoolCandidate probe p persisted of
                    Some e \<Rightarrow> (Some (CallerErr e), sd1, w1)
                  | None \<Rightarrow>
                      (case MutateData dir (install_pool p) sd1 w1 of
                         ((_, e), sd2, w2) \<Rightarrow> (e, sd2, w2)))))"

text \<open>
  \<open>reserveISOAllocationExact\<close> (\<open>canceled\<close> is \<^verbatim>\<open>ctx.Err()\<close>): the pool is ensured first, then
  the allocation is reserved in one mutation; the reserved service is the one in the data
  that the store returns.
\<close>

definition reserveISOAllocationExact ::
  "path \<Rightarrow> isoPoolProbe \<Rightarrow> alloc_err option \<Rightarrow> string \<Rightarrow> isoReservationRequest \<Rightarrow> cache \<Rightarrow> world \<Rightarrow>
   (alloc_err db_err + Service option) \<times> cache \<times> world" where
  "reserveISOAllocationExact dir probe canceled name req sd w =
     (case canceled of
        Some e \<Rightarrow> (Inl (CallerErr e), sd, w)
      | None \<Rightarrow>
          (case ensureISOPool dir probe sd w of
             (Some e, sd1, w1) \<Rightarrow> (Inl e, sd1, w1)
           | (None, sd1, w1) \<Rightarrow>
               (case MutateService dir name (reserveISOAllocationInData name req) sd1 w1 of
                  ((_, Some e), sd2, w2) \<Rightarrow> (Inl e, sd2, w2)
                | ((d, None), sd2, w2) \<Rightarrow>
                    (Inr (case d of None \<Rightarrow> None
                          | Some data \<Rightarrow> (case map_of (Services data) name of None \<Rightarrow> None | Some s \<Rightarrow> s)),
                     sd2, w2))))"

section \<open>The allocation invariant\<close>

text \<open>
  One allocation against a layout: its link and its project (if it has one) are subnets of the
  layout, its own addresses come from them, and its components, active and retired, have
  different names and different addresses, all hosts 2 to 30 of the project.
\<close>

definition iso_comps :: "ISOAllocation \<Rightarrow> (string \<times> ISOComponent) list" where
  "iso_comps a = iso_Components a @ iso_RetiredComponents a"

definition alloc_ok :: "Layout \<Rightarrow> ISOAllocation \<Rightarrow> bool" where
  "alloc_ok l a \<longleftrightarrow>
     (\<exists>i. Link l i = Inr (iso_Link a)) \<and>
     iso_HostIP a = Next (p_addr (iso_Link a)) \<and> iso_PeerIP a = Next (Next (p_addr (iso_Link a))) \<and>
     (if p_valid (iso_Project a)
      then (\<exists>j. Project l j = Inr (iso_Project a)) \<and> iso_Gateway a = Next (p_addr (iso_Project a)) \<and>
           (\<forall>(n, c) \<in> set (iso_comps a). component_addr (iso_Project a) (comp_Address c))
      else iso_comps a = []) \<and>
     distinct (map fst (iso_comps a)) \<and> distinct (map (\<lambda>(n, c). comp_Address c) (iso_comps a))"

definition apart :: "ISOAllocation \<Rightarrow> ISOAllocation \<Rightarrow> bool" where
  "apart a b \<longleftrightarrow> iso_Link a \<noteq> iso_Link b \<and>
     (p_valid (iso_Project a) \<longrightarrow> iso_Project a \<noteq> iso_Project b)"

text \<open>The invariant of the data: without a pool there is no allocation.\<close>

definition isos_ok :: "Layout \<Rightarrow> (string \<times> Service option) list \<Rightarrow> bool" where
  "isos_ok l services \<longleftrightarrow>
     distinct (map fst services) \<and> (\<forall>(n, a) \<in> set (service_isos services). alloc_ok l a) \<and>
     (\<forall>(n, a) \<in> set (service_isos services). \<forall>(m, b) \<in> set (service_isos services).
        n \<noteq> m \<longrightarrow> apart a b)"

definition iso_ok :: "Data \<Rightarrow> bool" where
  "iso_ok d \<longleftrightarrow>
     (case data_ISOPool d of
        None \<Rightarrow> distinct (map fst (Services d)) \<and> service_isos (Services d) = []
      | Some pool \<Rightarrow> (\<exists>l. NewLayout (pool_Prefix pool) = Inr l \<and> isos_ok l (Services d)))"

section \<open>Allocations of the services map\<close>

lemma service_isos_mem:
  "(n, a) \<in> set (service_isos ss) \<longleftrightarrow> (\<exists>sv. (n, Some sv) \<in> set ss \<and> svc_ISO sv = Some a)"
  by (force simp: service_isos_def List.map_filter_def image_iff split: option.splits)

definition iso_of :: "Service option \<Rightarrow> ISOAllocation option" where
  "iso_of s = (case s of None \<Rightarrow> None | Some sv \<Rightarrow> svc_ISO sv)"

lemma iso_of_simps [simp]: "iso_of None = None" "iso_of (Some sv) = svc_ISO sv"
  by (simp_all add: iso_of_def)

lemma service_isos_iff: "(n, a) \<in> set (service_isos ss) \<longleftrightarrow> (\<exists>s. (n, s) \<in> set ss \<and> iso_of s = Some a)"
  by (auto simp: service_isos_mem iso_of_def split: option.splits)

lemma service_isos_lookup:
  "distinct (map fst ss) \<Longrightarrow> (n, a) \<in> set (service_isos ss) \<longleftrightarrow> (\<exists>s. map_of ss n = Some s \<and> iso_of s = Some a)"
  by (simp add: service_isos_iff)

lemma service_isos_update:
  assumes "distinct (map fst ss)"
  shows "(m, b) \<in> set (service_isos (AList.update n s ss)) \<longleftrightarrow>
    (if m = n then iso_of s = Some b else (m, b) \<in> set (service_isos ss))"
  using assms by (auto simp: service_isos_iff set_update_distinct)

lemma apart_sym: "apart a b \<longleftrightarrow> apart b a"
  by (auto simp: apart_def)

lemma isos_ok_update:
  assumes "isos_ok l ss"
    and "\<And>a. iso_of s = Some a \<Longrightarrow> alloc_ok l a"
    and "\<And>a m b. iso_of s = Some a \<Longrightarrow> (m, b) \<in> set (service_isos ss) \<Longrightarrow> m \<noteq> n \<Longrightarrow> apart a b"
  shows "isos_ok l (AList.update n s ss)"
proof -
  have d: "distinct (map fst ss)" using assms(1) by (simp add: isos_ok_def)
  note mem = service_isos_update [OF d]
  have "alloc_ok l b" if "(m, b) \<in> set (service_isos (AList.update n s ss))" for m b
    using that assms by (cases "m = n") (auto simp: mem isos_ok_def)
  moreover have "apart b c"
    if h: "(m, b) \<in> set (service_isos (AList.update n s ss))"
      "(k, c) \<in> set (service_isos (AList.update n s ss))" "m \<noteq> k" for m b k c
    using h assms apart_sym [of b c] by (cases "m = n"; cases "k = n") (auto simp: mem isos_ok_def)
  ultimately show ?thesis
    using distinct_update [OF d] unfolding isos_ok_def by blast
qed

lemma alloc_ok_link: "wf_layout l \<Longrightarrow> alloc_ok l a \<Longrightarrow> p_valid (iso_Link a) \<and> Masked (iso_Link a) = iso_Link a"
  by (auto simp: alloc_ok_def Link_Masked elim: Link_cases)

lemma alloc_ok_project:
  "wf_layout l \<Longrightarrow> alloc_ok l a \<Longrightarrow> p_valid (iso_Project a) \<Longrightarrow> Masked (iso_Project a) = iso_Project a"
  by (auto simp: alloc_ok_def Project_Masked split: if_splits)

lemma isos_okD: "isos_ok l ss \<Longrightarrow> (n, a) \<in> set (service_isos ss) \<Longrightarrow> alloc_ok l a"
  by (auto simp: isos_ok_def)

lemma isos_ok_apart:
  "isos_ok l ss \<Longrightarrow> (n, a) \<in> set (service_isos ss) \<Longrightarrow> (m, b) \<in> set (service_isos ss) \<Longrightarrow> n \<noteq> m \<Longrightarrow> apart a b"
  by (fastforce simp: isos_ok_def)

text \<open>The interface of the two searches, through the first-fit contract.\<close>

lemma firstFreeISOLink_fresh:
  assumes "wf_layout l" "isos_ok l ss" "firstFreeISOLink l ss = Inr p"
  shows "(\<exists>i. Link l i = Inr p) \<and> (\<forall>(n, a) \<in> set (service_isos ss). iso_Link a \<noteq> p)"
proof -
  have f: "first_free (\<lambda>i. Link l (int i)) (used_links ss) [0 ..< 8192] = Inr (Some p)"
    using assms(3) by (auto simp: firstFreeISOLink_def split: sum.splits option.splits)
  then have "p \<notin> set (used_links ss)" by (rule link_pool.fresh)
  moreover have "iso_Link a \<in> set (used_links ss)" if "(n, a) \<in> set (service_isos ss)" for n a
    using that alloc_ok_link [OF assms(1) isos_okD [OF assms(2) that]] by (force simp: used_links_def)
  ultimately show ?thesis using link_pool.in_pool [OF f] by blast
qed

lemma firstFreeISOProject_fresh:
  assumes "wf_layout l" "isos_ok l ss" "firstFreeISOProject l ss = Inr p"
  shows "(\<exists>i. Project l i = Inr p) \<and> p_valid p \<and>
    (\<forall>(n, a) \<in> set (service_isos ss). iso_Project a \<noteq> p)"
proof -
  have f: "first_free (\<lambda>i. Project l (int i)) (used_projects ss) [0 ..< 1024] = Inr (Some p)"
    using assms(3) by (auto simp: firstFreeISOProject_def split: sum.splits option.splits)
  then obtain i where i: "Project l i = Inr p" using project_pool.in_pool by blast
  then have v: "p_valid p" using assms(1) by (auto elim: Project_cases)
  from f have "p \<notin> set (used_projects ss)" by (rule project_pool.fresh)
  moreover have "iso_Project a \<in> set (used_projects ss)"
    if "(n, a) \<in> set (service_isos ss)" "p_valid (iso_Project a)" for n a
    using that alloc_ok_project [OF assms(1) isos_okD [OF assms(2) that(1)]] by (force simp: used_projects_def)
  ultimately show ?thesis using i v by blast
qed

lemma alloc_ok_new: "Link l i = Inr link \<Longrightarrow> alloc_ok l (newDBISOAllocation name req link)"
  by (auto simp: alloc_ok_def newDBISOAllocation_def iso_comps_def p_valid_def no_prefix_def Let_def)

lemma ensureISOAllocation_ok:
  assumes l: "wf_layout l" and ok: "isos_ok l ss" and sv: "map_of ss name = Some (Some sv)"
    and e: "ensureISOAllocation name req l ss sv = Inr a"
  shows "alloc_ok l a \<and> (\<forall>(m, b) \<in> set (service_isos ss). m \<noteq> name \<longrightarrow> apart a b)"
proof (cases "svc_ISO sv")
  case (Some a0)
  have "(name, a0) \<in> set (service_isos ss)" using sv Some ok by (simp add: isos_ok_def service_isos_lookup)
  moreover have "a = a0" using e Some by (simp add: ensureISOAllocation_def split: if_splits)
  ultimately show ?thesis using ok by (fastforce simp: isos_ok_def)
next
  case None
  then obtain link where link: "firstFreeISOLink l ss = Inr link"
    using e by (auto simp: ensureISOAllocation_def split: sum.splits)
  let ?n = "newDBISOAllocation name req link"
  let ?ss = "AList.update name (Some (sv\<lparr>svc_ISO := Some ?n\<rparr>)) ss"
  note fl = firstFreeISOLink_fresh [OF l ok link]
  have n: "alloc_ok l ?n" using fl alloc_ok_new by blast
  have na: "apart ?n b" if "(m, b) \<in> set (service_isos ss)" for m b
    using fl that by (auto simp: apart_def newDBISOAllocation_def p_valid_def no_prefix_def Let_def)
  show ?thesis
  proof (cases "a = ?n")
    case True
    then show ?thesis using n na by blast
  next
    case False
    then obtain p where p: "firstFreeISOProject l ?ss = Inr p"
      "a = ?n\<lparr>iso_Project := p, iso_Gateway := Next (p_addr p)\<rparr>"
      using e None link by (auto simp: ensureISOAllocation_def Let_def split: sum.splits if_splits)
    have "isos_ok l ?ss" by (rule isos_ok_update [OF ok]) (use n na in auto)
    note fp = firstFreeISOProject_fresh [OF l this p(1)]
    have "alloc_ok l a" using n fp by (auto simp: p(2) alloc_ok_def iso_comps_def newDBISOAllocation_def Let_def)
    moreover have "apart a b" if h: "(m, b) \<in> set (service_isos ss)" "m \<noteq> name" for m b
    proof -
      have "(m, b) \<in> set (service_isos ?ss)" using h ok by (simp add: service_isos_update isos_ok_def)
      then show ?thesis using fp na [OF h(1)] by (auto simp: p(2) apart_def)
    qed
    ultimately show ?thesis by blast
  qed
qed

lemma current_components_distinct: "distinct (map fst (current_components a))"
  unfolding current_components_def
  by (rule distinct_fold_update [of _ "\<lambda>c. c" comp_Address], rule distinct_fold_update [of _ "\<lambda>c. c" comp_Address]) simp

lemma componentStates_fst [simp]: "map fst (componentStates cs st) = map fst cs"
  by (induction cs) (auto simp: componentStates_def)

lemma componentStates_addr [simp]: "map (\<lambda>(n, c). comp_Address c) (componentStates cs st) = map snd cs"
  by (induction cs) (auto simp: componentStates_def)

lemma componentStates_mem:
  "(n, c) \<in> set (componentStates cs st) \<Longrightarrow> (n, comp_Address c) \<in> set cs"
  by (auto simp: componentStates_def)

lemma planISOComponents_ok:
  assumes "wf_layout l" "alloc_ok l a" "planISOComponents components a = Inr a'"
  shows "alloc_ok l a' \<and> iso_Link a' = iso_Link a \<and> iso_Project a' = iso_Project a"
proof (cases "p_valid (iso_Project a)")
  case False
  then show ?thesis using assms by (auto simp: planISOComponents_def split: if_splits)
next
  case True
  then obtain plan where
    p: "PlanComponents (iso_Project a) (current_components a) components = Inr plan"
    and a': "a' = a\<lparr>iso_Components := componentStates (Desired plan) ''reserved'',
       iso_RetiredComponents := componentStates (Retired plan) ''retiring''\<rparr>"
    using assms(3) by (auto simp: planISOComponents_def split: sum.splits)
  note ok = PlanComponents_ok [OF p current_components_distinct]
  have m: "Masked (iso_Project a) = iso_Project a" using alloc_ok_project assms(1,2) True by blast
  have "distinct (map fst (Retired plan))"
    using ok current_components_distinct [of a] distinct_keys_filter by metis
  then have "distinct (map fst (iso_comps a'))"
    using ok by (auto simp: a' iso_comps_def)
  moreover have "map (\<lambda>(n, c). comp_Address c) (iso_comps a') = map snd (Desired plan @ Retired plan)"
    by (simp add: a' iso_comps_def)
  then have "distinct (map (\<lambda>(n, c). comp_Address c) (iso_comps a'))" using ok by metis
  moreover have "component_addr (iso_Project a) (comp_Address c)" if "(n, c) \<in> set (iso_comps a')" for n c
    using ok that m by (auto simp: a' iso_comps_def dest!: componentStates_mem)
  ultimately show ?thesis
    using assms(2) True by (auto simp: alloc_ok_def) (auto simp: a')
qed

lemma alloc_ok_cong:
  "\<lbrakk>iso_Link a' = iso_Link a; iso_Project a' = iso_Project a; iso_HostIP a' = iso_HostIP a;
    iso_PeerIP a' = iso_PeerIP a; iso_Gateway a' = iso_Gateway a; iso_comps a' = iso_comps a\<rbrakk>
   \<Longrightarrow> alloc_ok l a' = alloc_ok l a"
  by (simp add: alloc_ok_def)

lemma apart_cong: "iso_Link a' = iso_Link a \<Longrightarrow> iso_Project a' = iso_Project a \<Longrightarrow> apart a' b = apart a b"
  by (simp add: apart_def)

section \<open>Every function handed to the store keeps the invariant\<close>

text \<open>A service mutation returns the data it got and a new value of the service.\<close>

definition keeps_service ::
  "string \<Rightarrow> (Data \<Rightarrow> Service option \<Rightarrow> 'e + Data \<times> Service option) \<Rightarrow> bool" where
  "keeps_service name f \<longleftrightarrow>
     (\<forall>d s d' s'. iso_ok d \<longrightarrow> map_of (Services d) name = Some s \<longrightarrow> f d s = Inr (d', s') \<longrightarrow>
        d' = d \<and> iso_ok (d\<lparr>Services := AList.update name s' (Services d)\<rparr>))"

lemma iso_ok_touch:
  assumes "iso_ok d"
    and "svc = (case map_of (Services d) name of Some s \<Rightarrow> s | None \<Rightarrow> Some (new_Service name))"
  shows "iso_ok (d\<lparr>Services := AList.update name svc (Services d)\<rparr>)"
proof -
  have d: "distinct (map fst (Services d))"
    using assms(1) by (auto simp: iso_ok_def isos_ok_def split: option.splits)
  have mem: "(name, a) \<in> set (service_isos (Services d))" if "iso_of svc = Some a" for a
    using that assms(2) d
    by (auto simp: service_isos_lookup new_Service_def iso_of_def split: option.splits)
  show ?thesis
  proof (cases "data_ISOPool d")
    case None
    then have e: "service_isos (Services d) = []" using assms(1) by (simp add: iso_ok_def)
    then have "iso_of svc = None" using mem by (cases "iso_of svc") auto
    then have "x \<notin> set (service_isos (AList.update name svc (Services d)))" for x
      using e by (cases x) (simp add: service_isos_update [OF d])
    then have "service_isos (AList.update name svc (Services d)) = []"
      by (metis list.set_intros(1) neq_Nil_conv)
    then show ?thesis using None d by (simp add: iso_ok_def distinct_update)
  next
    case (Some pool)
    then obtain l where l: "NewLayout (pool_Prefix pool) = Inr l" "isos_ok l (Services d)"
      using assms(1) by (auto simp: iso_ok_def)
    have "isos_ok l (AList.update name svc (Services d))"
      by (rule isos_ok_update [OF l(2)])
        (use mem isos_okD [OF l(2)] isos_ok_apart [OF l(2)] in blast)+
    then show ?thesis using Some l(1) by (auto simp: iso_ok_def)
  qed
qed

lemma service_mutator_keeps:
  assumes "keeps_service name f" "iso_ok d" "service_mutator name f d = Inr d'"
  shows "iso_ok d' \<and> DataVersion d' = DataVersion d"
proof -
  define svc where "svc = (case map_of (Services d) name of Some s \<Rightarrow> s | None \<Rightarrow> Some (new_Service name))"
  define d1 where "d1 = d\<lparr>Services := AList.update name svc (Services d)\<rparr>"
  have ok: "iso_ok d1" using iso_ok_touch [OF assms(2) svc_def] by (simp add: d1_def)
  have look: "map_of (Services d1) name = Some svc" by (simp add: d1_def map_of_update)
  obtain d2 s2 where f: "f d1 svc = Inr (d2, s2)"
    and d': "d' = d2\<lparr>Services := AList.update name s2 (Services d2)\<rparr>"
    using assms(3) by (auto simp: service_mutator_def Let_def svc_def [symmetric] d1_def [symmetric]
        split: sum.splits)
  have "d2 = d1 \<and> iso_ok (d1\<lparr>Services := AList.update name s2 (Services d1)\<rparr>)"
    using assms(1) ok look f unfolding keeps_service_def by blast
  then show ?thesis using d' by (simp add: d1_def)
qed

lemma pool_layout:
  assumes "iso_ok d" "isoLayoutForPool (data_ISOPool d) = Inr l"
  obtains pool where "data_ISOPool d = Some pool" "NewLayout (pool_Prefix pool) = Inr l"
    "isos_ok l (Services d)" "wf_layout l"
  using assms that NewLayout_wf
  by (auto simp: isoLayoutForPool_def iso_ok_def split: option.splits sum.splits)

lemma reserve_cases:
  assumes "reserveISOAllocationInData name req d s = Inr (d', s')"
    "isoLayoutForPool (data_ISOPool d) = Inr l"
  obtains sv a a1 where "s = Some sv" "ensureISOAllocation name req l (Services d) sv = Inr a"
    "planISOComponents (rr_Components req) a = Inr a1" "d' = d"
    "s' = Some (sv\<lparr>svc_ISO := Some (a1\<lparr>iso_DesiredModes := rr_Modes req,
        iso_State := StateReserved, iso_LastError := []\<rparr>)\<rparr>)"
proof -
  note r = assms(1) [unfolded reserveISOAllocationInData_def assms(2), simplified]
  from r obtain sv where sv: "s = Some sv" by (cases s) auto
  with r obtain a where a: "ensureISOAllocation name req l (Services d) sv = Inr a"
    by (cases "ensureISOAllocation name req l (Services d) sv") auto
  with r sv obtain a1 where a1: "planISOComponents (rr_Components req) a = Inr a1"
    by (cases "planISOComponents (rr_Components req) a") (auto split: if_splits)
  from r sv a a1 show ?thesis using that [OF sv a a1] by (simp split: if_splits)
qed

lemma reserve_keeps: "keeps_service name (reserveISOAllocationInData name req)"
  unfolding keeps_service_def
proof (intro allI impI)
  fix d s d' s'
  assume ok: "iso_ok d" and s: "map_of (Services d) name = Some s"
    and r: "reserveISOAllocationInData name req d s = Inr (d', s')"
  obtain l where l: "isoLayoutForPool (data_ISOPool d) = Inr l"
    using r by (auto simp: reserveISOAllocationInData_def split: sum.splits)
  then obtain pool where pool: "data_ISOPool d = Some pool" "NewLayout (pool_Prefix pool) = Inr l"
    "isos_ok l (Services d)" "wf_layout l" by (rule pool_layout [OF ok])
  obtain sv a a1 where sv: "s = Some sv" and a: "ensureISOAllocation name req l (Services d) sv = Inr a"
    and a1: "planISOComponents (rr_Components req) a = Inr a1"
    and res: "d' = d" "s' = Some (sv\<lparr>svc_ISO := Some (a1\<lparr>iso_DesiredModes := rr_Modes req,
        iso_State := StateReserved, iso_LastError := []\<rparr>)\<rparr>)"
    using r l by (rule reserve_cases)
  have e: "alloc_ok l a" "\<forall>(m, b) \<in> set (service_isos (Services d)). m \<noteq> name \<longrightarrow> apart a b"
    using ensureISOAllocation_ok [OF pool(4,3) _ a] s sv by auto
  note p = planISOComponents_ok [OF pool(4) e(1) a1]
  let ?a = "a1\<lparr>iso_DesiredModes := rr_Modes req, iso_State := StateReserved, iso_LastError := []\<rparr>"
  have "alloc_ok l ?a" using p alloc_ok_cong [of ?a a1] by (simp add: iso_comps_def)
  moreover have "apart ?a b" if "(m, b) \<in> set (service_isos (Services d))" "m \<noteq> name" for m b
    using e(2) that p apart_cong [of ?a a b] by auto
  ultimately have "isos_ok l (AList.update name s' (Services d))"
    by (intro isos_ok_update [OF pool(3)]) (auto simp: res)
  then show "d' = d \<and> iso_ok (d\<lparr>Services := AList.update name s' (Services d)\<rparr>)"
    using pool res by (auto simp: iso_ok_def)
qed

lemma iso_ok_same_alloc:
  assumes "iso_ok d" "map_of (Services d) name = Some (Some sv)" "svc_ISO sv = Some a"
    and "iso_Link a' = iso_Link a" "iso_Project a' = iso_Project a" "alloc_ok l a \<Longrightarrow> alloc_ok l a'"
    and "isoLayoutForPool (data_ISOPool d) = Inr l"
  shows "iso_ok (d\<lparr>Services := AList.update name (Some (sv\<lparr>svc_ISO := Some a'\<rparr>)) (Services d)\<rparr>)"
proof -
  obtain pool where pool: "data_ISOPool d = Some pool" "NewLayout (pool_Prefix pool) = Inr l"
    "isos_ok l (Services d)" "wf_layout l" using assms(1,7) by (rule pool_layout)
  have mem: "(name, a) \<in> set (service_isos (Services d))"
    using assms(2,3) pool(3) by (simp add: isos_ok_def service_isos_lookup)
  have "isos_ok l (AList.update name (Some (sv\<lparr>svc_ISO := Some a'\<rparr>)) (Services d))"
    by (rule isos_ok_update [OF pool(3)])
      (use assms(4-6) isos_okD [OF pool(3) mem] isos_ok_apart [OF pool(3) mem] apart_cong [of a' a]
        in auto)
  then show ?thesis using pool by (auto simp: iso_ok_def)
qed

lemma iso_ok_layout:
  assumes "iso_ok d" "map_of (Services d) name = Some (Some sv)" "svc_ISO sv = Some a"
  obtains l where "isoLayoutForPool (data_ISOPool d) = Inr l"
proof (cases "data_ISOPool d")
  case None
  then have "distinct (map fst (Services d))" "service_isos (Services d) = []"
    using assms(1) by (simp_all add: iso_ok_def)
  then show ?thesis using assms(2,3) service_isos_lookup [of "Services d" name a] by simp
next
  case (Some pool)
  then show ?thesis using assms(1) that by (auto simp: iso_ok_def isoLayoutForPool_def)
qed

lemma mark_keeps: "keeps_service name (mark_state name state cause)"
  unfolding keeps_service_def
proof (intro allI impI)
  fix d s d' s'
  assume ok: "iso_ok d" "map_of (Services d) name = Some s"
    and m: "mark_state name state cause d s = Inr (d', s')"
  from m obtain sv a where sv: "s = Some sv" "svc_ISO sv = Some a"
    by (auto simp: mark_state_def split: option.splits)
  obtain l where l: "isoLayoutForPool (data_ISOPool d) = Inr l"
    by (rule iso_ok_layout [OF ok(1) _ sv(2)]) (use ok(2) sv(1) in simp)
  let ?a = "a\<lparr>iso_State := state, iso_LastError := (case cause of None \<Rightarrow> [] | Some m \<Rightarrow> m)\<rparr>"
  have "iso_ok (d\<lparr>Services := AList.update name (Some (sv\<lparr>svc_ISO := Some ?a\<rparr>)) (Services d)\<rparr>)"
    by (rule iso_ok_same_alloc [OF ok(1) _ sv(2) _ _ _ l])
      (use ok(2) sv(1) in \<open>auto simp: alloc_ok_def iso_comps_def\<close>)
  with m sv show "d' = d \<and> iso_ok (d\<lparr>Services := AList.update name s' (Services d)\<rparr>)"
    by (simp add: mark_state_def)
qed

lemma iso_ok_drop:
  assumes "iso_ok d" "iso_of s' = None"
  shows "iso_ok (d\<lparr>Services := AList.update name s' (Services d)\<rparr>)"
proof -
  have d: "distinct (map fst (Services d))"
    using assms(1) by (auto simp: iso_ok_def isos_ok_def split: option.splits)
  note upd = service_isos_update [OF d, of _ _ name s'] and du = distinct_update [OF d, of name s']
  show ?thesis
  proof (cases "data_ISOPool d")
    case None
    with assms have "x \<notin> set (service_isos (AList.update name s' (Services d)))" for x
      by (cases x) (simp add: upd iso_ok_def)
    then have "service_isos (AList.update name s' (Services d)) = []"
      by (metis list.set_intros(1) neq_Nil_conv)
    then show ?thesis using None du by (simp add: iso_ok_def)
  next
    case (Some pool)
    then obtain l where l: "NewLayout (pool_Prefix pool) = Inr l" "isos_ok l (Services d)"
      using assms(1) by (auto simp: iso_ok_def)
    have "isos_ok l (AList.update name s' (Services d))"
      by (rule isos_ok_update [OF l(2)]) (use assms(2) in simp_all)
    then show ?thesis using Some l(1) by (auto simp: iso_ok_def)
  qed
qed

lemma clear_keeps: "keeps_service name clear_iso"
  by (auto simp: keeps_service_def clear_iso_def iso_ok_drop split: option.splits)

lemma isos_ok_no_isos: "distinct (map fst ss) \<Longrightarrow> service_isos ss = [] \<Longrightarrow> isos_ok l ss"
  by (simp add: isos_ok_def)

lemma blockers_none: "isoPoolAllocationBlockers ss = [] \<longleftrightarrow> service_isos ss = []"
  by (simp add: isoPoolAllocationBlockers_def) (metis sorted_list_of_multiset_mset length_0_conv length_map length_sort)

lemma iso_ok_distinct: "iso_ok d \<Longrightarrow> distinct (map fst (Services d))"
  by (auto simp: iso_ok_def isos_ok_def split: option.splits)

lemma iso_ok_new_pool:
  assumes "iso_ok d" "service_isos (Services d) = []" "NewLayout (pool_Prefix pool) = Inr l"
  shows "iso_ok (d\<lparr>data_ISOPool := Some pool\<rparr>)"
  using assms iso_ok_distinct isos_ok_no_isos by (auto simp: iso_ok_def)

lemma apply_pool_keeps:
  assumes "iso_ok d" "apply_pool plan desired d = Inr d'" "NewLayout desired = Inr l"
  shows "iso_ok d' \<and> DataVersion d' = DataVersion d"
proof (cases "d' = d")
  case False
  then have "service_isos (Services d) = []" "d' = d\<lparr>data_ISOPool := Some (explicit_pool desired)\<rparr>"
    using assms(2) by (auto simp: apply_pool_def Let_def blockers_none split: if_splits)
  then show ?thesis using iso_ok_new_pool [OF assms(1)] assms(3) by (simp add: explicit_pool_def)
qed (use assms in simp)

lemma install_pool_keeps:
  assumes "iso_ok d" "install_pool p d = Inr d'" "NewLayout p = Inr l"
  shows "iso_ok d' \<and> DataVersion d' = DataVersion d"
  using assms iso_ok_new_pool [OF assms(1), of "automatic_pool p" l]
  by (auto simp: install_pool_def automatic_pool_def iso_ok_def split: if_splits)

lemma NewLayout_slash16: "unat b mod 65536 = 0 \<Longrightarrow> \<exists>l. NewLayout (v4_prefix b 16) = Inr l"
proof -
  assume m: "unat b mod 65536 = 0"
  then have "Masked (v4_prefix b 16) = v4_prefix b 16" by (intro aligned_Masked) simp_all
  moreover have "addIPv4 (V4 b) (of_nat 32768) = Inr (V4 (b + of_nat 32768))"
    by (rule addIPv4_within) (use base_room [OF m] in simp)
  ultimately show ?thesis by (simp add: NewLayout_def)
qed

lemma validateServerISOPool_ok:
  assumes "validateServerISOPool raw = Inr p"
  obtains b where "p = v4_prefix b 16" "unat b mod 65536 = 0"
proof -
  from assms have "Is4 (p_addr p)" "Bits p = int 16" and m: "Masked p = p"
    by (auto simp: validateServerISOPool_def split: option.splits if_splits)
  then obtain b where "p_addr p = V4 b" by (cases "p_addr p") auto
  with \<open>Bits p = int 16\<close> have p: "p = v4_prefix b 16" by (intro v4_prefixI)
  then obtain a where "mask_addr (V4 a) 16 = V4 b" using Masked_v4_base m by metis
  then have "unat b mod 65536 = 0" by (drule_tac unat_mask_addr) simp
  with p show ?thesis by (rule that)
qed

lemma planned_prefix:
  assumes "validateServerISOPool raw = Inr p"
  shows "MustParsePrefix (prefix_string p) = p \<and> (\<exists>l. NewLayout p = Inr l)"
proof -
  obtain b where b: "p = v4_prefix b 16" "unat b mod 65536 = 0"
    using assms by (rule validateServerISOPool_ok)
  show ?thesis using NewLayout_slash16 [OF b(2)] ParsePrefix4_prefix_string [of 16 b]
    by (simp add: b(1) MustParsePrefix_def)
qed

definition candidate_bases :: "32 word list" where
  "candidate_bases =
     [0xAC1E0000, 0xAC1D0000, 0xAC1C0000, 0xAC1B0000, 0xAC1A0000, 0xAC190000, 0xAC180000, 0xAC170000,
      0xAC160000, 0xAC150000, 0xAC140000, 0xAC130000, 0xAC120000, 0xAC100000, 0xAC110000, 0xAC1F0000]"

lemma candidates_parse:
  "map MustParsePrefix automaticISOPoolCandidates = map (\<lambda>b. v4_prefix b 16) candidate_bases"
  by code_simp

lemma candidate_layout:
  assumes "raw \<in> set automaticISOPoolCandidates"
  shows "\<exists>l. NewLayout (MustParsePrefix raw) = Inr l"
proof -
  have "MustParsePrefix raw \<in> set (map MustParsePrefix automaticISOPoolCandidates)" using assms by simp
  then obtain b where b: "b \<in> set candidate_bases" "MustParsePrefix raw = v4_prefix b 16"
    unfolding candidates_parse by auto
  then have "unat b mod 65536 = 0" by (auto simp: candidate_bases_def)
  then show ?thesis using NewLayout_slash16 b(2) by simp
qed

lemma first_candidate_ok:
  "first_candidate cs occ = Inr p \<Longrightarrow> (\<exists>raw \<in> set cs. p = MustParsePrefix raw) \<and> \<not> overlapsAny p occ"
  by (induction cs) (auto simp: Let_def split: if_splits)

lemma selectISOPool_ok:
  assumes "selectISOPool probe persisted = Inr p"
  obtains occupied l where "probe_all probe persisted = Inr occupied" "\<not> overlapsAny p occupied"
    "NewLayout p = Inr l" "p \<in> MustParsePrefix ` set automaticISOPoolCandidates"
proof -
  from assms obtain occupied where occ: "probe_all probe persisted = Inr occupied"
    and f: "first_candidate automaticISOPoolCandidates occupied = Inr p"
    by (auto simp: selectISOPool_def split: sum.splits)
  note fc = first_candidate_ok [OF f]
  then obtain raw where raw: "raw \<in> set automaticISOPoolCandidates" "p = MustParsePrefix raw" by blast
  then obtain l where "NewLayout p = Inr l" using candidate_layout by blast
  with occ fc raw show ?thesis using that by blast
qed

section \<open>Histories of allocator operations\<close>

text \<open>The operations of the server on the cache and the world, with any probe results and any failures.\<close>

inductive iso_step :: "path \<Rightarrow> cache \<times> world \<Rightarrow> cache \<times> world \<Rightarrow> bool" for dir where
  Reserve: "reserveISOAllocationExact dir probe canceled name req sd w = (r, sd', w') \<Longrightarrow>
    iso_step dir (sd, w) (sd', w')"
| Mark: "markISOState dir name state cause sd w = (e, sd', w') \<Longrightarrow> iso_step dir (sd, w) (sd', w')"
| Release: "releaseISOAllocation dir name sd w = (e, sd', w') \<Longrightarrow> iso_step dir (sd, w) (sd', w')"
| Apply: "ApplyISOPool dir probe plan sd w = (e, sd', w') \<Longrightarrow> iso_step dir (sd, w) (sd', w')"

definition view_ok :: "cache \<times> world \<Rightarrow> bool" where
  "view_ok s \<longleftrightarrow> (\<forall>d. store_view s = Some d \<longrightarrow> iso_ok d)"

lemma view_ok_holds: "view_ok s \<longleftrightarrow> store.holds iso_ok s"
  by (simp add: view_ok_def store.holds_def)

lemma MutateData_view_ok:
  assumes "MutateData dir f sd w = (r, sd', w')" "view_ok (sd, w)" "store.keeps iso_ok f"
  shows "view_ok (sd', w')"
proof -
  have "(sd', w') = commit_step dir f (sd, w)" using assms(1) by (simp add: commit_step_def)
  with store.commit_holds [of iso_ok "(sd, w)" f dir] assms(2,3) show ?thesis
    by (simp add: view_ok_holds)
qed

lemma MutateService_view_ok:
  assumes "MutateService dir name f sd w = (r, sd', w')" "view_ok (sd, w)" "keeps_service name f"
  shows "view_ok (sd', w')"
proof -
  obtain r1 where "MutateData dir (service_mutator name f) sd w = (r1, sd', w')"
    using assms(1) by (auto simp: MutateService_def split: prod.splits option.splits)
  moreover have "store.keeps iso_ok (service_mutator name f)"
    unfolding store.keeps_def current_data_def using service_mutator_keeps [OF assms(3)] by metis
  ultimately show ?thesis using MutateData_view_ok assms(2) by blast
qed

lemma plan_on_desired: "plan_on probe desired dv = (plan, e) \<Longrightarrow> DesiredPrefix plan = prefix_string desired"
  by (auto simp: plan_on_def Let_def no_plan_def split: option.splits if_splits alloc_err.splits)

lemma PlanISOPool_cases:
  assumes "PlanISOPool dir probe raw sd w = ((plan, e), sd', w')"
  obtains "e \<noteq> None" "store_view (sd', w') = store_view (sd, w)"
  | desired where "store_view (sd', w') = store_view (sd, w)" "validateServerISOPool raw = Inr desired"
      "DesiredPrefix plan = prefix_string desired"
  using assms
  by (auto simp: PlanISOPool_def split: sum.splits prod.splits
      dest!: getLocked_view plan_on_desired intro: that)

lemma view_ok_cong: "store_view s' = store_view s \<Longrightarrow> view_ok s \<Longrightarrow> view_ok s'"
  by (simp add: view_ok_def)

lemma apply_pool_store_keeps:
  assumes "validateServerISOPool raw = Inr desired" "DesiredPrefix plan = prefix_string desired"
  shows "store.keeps iso_ok (apply_pool plan (MustParsePrefix (DesiredPrefix plan)))"
  unfolding store.keeps_def current_data_def assms(2)
  using apply_pool_keeps planned_prefix [OF assms(1)] by metis

lemma apply_view_ok:
  assumes "ApplyISOPool dir probe req sd w = (e, sd', w')" "view_ok (sd, w)"
  shows "view_ok (sd', w')"
proof -
  obtain plan pe sd1 w1 where p: "PlanISOPool dir probe (DesiredPrefix req) sd w = ((plan, pe), sd1, w1)"
    by (metis prod.collapse)
  then have v1: "view_ok (sd1, w1)" using view_ok_cong assms(2) by (metis PlanISOPool_cases)
  show ?thesis
  proof (cases "pe = None \<and> blockedISOPoolPlanError plan = None")
    case False
    then have "(sd', w') = (sd1, w1)"
      using assms(1) p by (auto simp: ApplyISOPool_def split: option.splits)
    then show ?thesis using v1 by simp
  next
    case True
    with p obtain desired where d: "validateServerISOPool (DesiredPrefix req) = Inr desired"
      "DesiredPrefix plan = prefix_string desired" by (metis PlanISOPool_cases)
    obtain r where "MutateData dir (apply_pool plan (MustParsePrefix (DesiredPrefix plan))) sd1 w1 = (r, sd', w')"
      using assms(1) p True by (auto simp: ApplyISOPool_def split: prod.splits)
    then show ?thesis using v1 apply_pool_store_keeps [OF d] MutateData_view_ok by blast
  qed
qed

lemma ensure_view_ok:
  assumes "ensureISOPool dir probe sd w = (e, sd', w')" "view_ok (sd, w)"
  shows "view_ok (sd', w')"
proof -
  obtain r :: "alloc_err db_err + Data" and sd1 w1 where g: "getLocked dir sd w = (r, sd1, w1)"
    by (metis prod.collapse)
  have v1: "view_ok (sd1, w1)" using view_ok_cong getLocked_view [OF g] assms(2) by blast
  show ?thesis
  proof (cases "(sd', w') = (sd1, w1)")
    case False
    then obtain p persisted r where p: "selectISOPool probe persisted = Inr p"
      and m: "MutateData dir (install_pool p) sd1 w1 = (r, sd', w')"
      using assms(1) g
      by (auto simp: ensureISOPool_def Let_def split: sum.splits if_splits option.splits prod.splits)
    obtain l where "NewLayout p = Inr l" using p by (rule selectISOPool_ok)
    then have "store.keeps iso_ok (install_pool p)"
      unfolding store.keeps_def current_data_def using install_pool_keeps by metis
    then show ?thesis using MutateData_view_ok [OF m v1] by blast
  qed (use v1 in simp)
qed

lemma reserve_view_ok:
  assumes "reserveISOAllocationExact dir probe canceled name req sd w = (r, sd', w')" "view_ok (sd, w)"
  shows "view_ok (sd', w')"
proof (cases canceled)
  case None
  obtain e sd1 w1 where e: "ensureISOPool dir probe sd w = (e, sd1, w1)" by (metis prod.collapse)
  have v1: "view_ok (sd1, w1)" using ensure_view_ok [OF e assms(2)] .
  show ?thesis
  proof (cases e)
    case None
    obtain r1 where "MutateService dir name (reserveISOAllocationInData name req) sd1 w1 = (r1, sd', w')"
      using assms(1) \<open>canceled = None\<close> e None
      by (auto simp: reserveISOAllocationExact_def split: prod.splits option.splits)
    then show ?thesis using MutateService_view_ok v1 reserve_keeps by blast
  qed (use assms(1) \<open>canceled = None\<close> e v1 in \<open>auto simp: reserveISOAllocationExact_def\<close>)
qed (use assms in \<open>auto simp: reserveISOAllocationExact_def\<close>)

lemma iso_step_view_ok: "iso_step dir s s' \<Longrightarrow> view_ok s \<Longrightarrow> view_ok s'"
proof (induction rule: iso_step.induct)
  case (Reserve probe canceled name req sd w r sd' w')
  then show ?case by (rule reserve_view_ok)
next
  case (Mark name state cause sd w e sd' w')
  then show ?case using MutateService_view_ok [OF _ _ mark_keeps]
    by (fastforce simp: markISOState_def split: prod.splits)
next
  case (Release name sd w e sd' w')
  then show ?case using MutateService_view_ok [OF _ _ clear_keeps]
    by (fastforce simp: releaseISOAllocation_def split: prod.splits)
next
  case (Apply probe plan sd w e sd' w')
  then show ?case by (rule apply_view_ok)
qed

lemma isos_ok_disjoint:
  assumes "wf_layout l" "isos_ok l ss" "(n, a) \<in> set (service_isos ss)" "(m, b) \<in> set (service_isos ss)" "n \<noteq> m"
  shows "\<not> Overlaps (iso_Link a) (iso_Link b) \<and> \<not> Overlaps (iso_Project a) (iso_Project b) \<and>
    \<not> Overlaps (iso_Link a) (iso_Project b)"
proof -
  have ap: "apart a b" using assms isos_ok_apart by blast
  obtain i j where i: "Link l i = Inr (iso_Link a)" and j: "Link l j = Inr (iso_Link b)"
    using isos_okD [OF assms(2)] assms(3,4) unfolding alloc_ok_def by metis
  have pa: "\<exists>k. Project l k = Inr (iso_Project a)" if "p_valid (iso_Project a)"
    using isos_okD [OF assms(2,3)] that by (auto simp: alloc_ok_def)
  have pb: "\<exists>k. Project l k = Inr (iso_Project b)" if "p_valid (iso_Project b)"
    using isos_okD [OF assms(2,4)] that by (auto simp: alloc_ok_def)
  have "\<not> Overlaps (iso_Link a) (iso_Link b)"
    using links_disjoint [OF assms(1) i j] ap i j by (cases "i = j") (auto simp: apart_def)
  moreover have "\<not> Overlaps (iso_Project a) (iso_Project b)"
  proof
    assume o: "Overlaps (iso_Project a) (iso_Project b)"
    then have "p_valid (iso_Project a)" "p_valid (iso_Project b)" by (auto simp: Overlaps_def)
    with pa pb obtain k k' where "Project l k = Inr (iso_Project a)" "Project l k' = Inr (iso_Project b)" by blast
    moreover have "iso_Project a \<noteq> iso_Project b" using ap \<open>p_valid (iso_Project a)\<close> by (simp add: apart_def)
    ultimately show False using projects_disjoint [OF assms(1)] o by (metis sum.inject(2))
  qed
  moreover have "\<not> Overlaps (iso_Link a) (iso_Project b)"
    using link_project_disjoint [OF assms(1) i] pb by (auto simp: Overlaps_def)
  ultimately show ?thesis by blast
qed

text \<open>
  Over any history of reservations, state changes, releases and pool changes, each with
  any results of the probes and any failures of the store, the isolated networks of two
  different services in the latest data never overlap: not their links, not their projects,
  not a link and a project; and the whole allocation state stays well formed.
\<close>

theorem iso_allocations_disjoint:
  assumes "(iso_step dir)\<^sup>*\<^sup>* (sd, w) (sd', w')" and "view_ok (sd, w)"
    and "latest_view w' = Some d"
    and "map_of (Services d) n = Some (Some s)" "svc_ISO s = Some a"
    and "map_of (Services d) m = Some (Some t)" "svc_ISO t = Some b" and "n \<noteq> m"
  shows "iso_ok d \<and> \<not> Overlaps (iso_Link a) (iso_Link b) \<and>
    \<not> Overlaps (iso_Project a) (iso_Project b) \<and> \<not> Overlaps (iso_Link a) (iso_Project b)"
proof -
  have "view_ok (sd', w')" using assms(1,2)
    by (induction rule: rtranclp_induct) (auto intro: iso_step_view_ok)
  then have ok: "iso_ok d" using assms(3) by (simp add: view_ok_def store_view_def)
  obtain l where l: "isoLayoutForPool (data_ISOPool d) = Inr l"
    using ok assms(4,5) by (rule iso_ok_layout)
  obtain pool where pool: "isos_ok l (Services d)" "wf_layout l" by (rule pool_layout [OF ok l])
  have "(n, a) \<in> set (service_isos (Services d))" "(m, b) \<in> set (service_isos (Services d))"
    using assms(4-7) iso_ok_distinct [OF ok] by (simp_all add: service_isos_lookup)
  with isos_ok_disjoint [OF pool(2,1)] assms(8) ok show ?thesis by blast
qed

definition example_alloc :: "string \<Rightarrow> 32 word \<Rightarrow> ISOAllocation" where
  "example_alloc name b =
     newDBISOAllocation name \<lparr>rr_Kind = PayloadVM, rr_Modes = [''iso''], rr_Components = []\<rparr> (v4_prefix b 30)"

definition example_data :: Data where
  "example_data = new_Data\<lparr>DataVersion := CurrentDataVersion,
     data_ISOPool := Some (automatic_pool (MustParsePrefix ''172.30.0.0/16'')),
     Services := [(''a'', Some ((new_Service ''a'')\<lparr>svc_ISO := Some (example_alloc ''a'' 0xAC1E0000)\<rparr>)),
                  (''b'', Some ((new_Service ''b'')\<lparr>svc_ISO := Some (example_alloc ''b'' 0xAC1E0004)\<rparr>))]\<rparr>"

lemma example_isos:
  "service_isos (Services example_data) =
     [(''a'', example_alloc ''a'' 0xAC1E0000), (''b'', example_alloc ''b'' 0xAC1E0004)]"
  by (simp add: example_data_def service_isos_def List.map_filter_def)

lemma example_iso_ok: "iso_ok example_data"
proof -
  have l: "Link preferred_layout 0 = Inr (v4_prefix 0xAC1E0000 30)"
    "Link preferred_layout 1 = Inr (v4_prefix 0xAC1E0004 30)" by code_simp+
  have "alloc_ok preferred_layout (example_alloc ''a'' 0xAC1E0000)"
    "alloc_ok preferred_layout (example_alloc ''b'' 0xAC1E0004)"
    unfolding example_alloc_def using l by (blast intro: alloc_ok_new)+
  moreover have "apart (example_alloc ''a'' 0xAC1E0000) (example_alloc ''b'' 0xAC1E0004)"
    by (simp add: apart_def example_alloc_def newDBISOAllocation_def Let_def p_valid_def no_prefix_def)
  ultimately have "isos_ok preferred_layout (Services example_data)"
    using apart_sym unfolding isos_ok_def example_isos by (auto simp: example_data_def)
  then show ?thesis using preferred_layout by (simp add: iso_ok_def example_data_def automatic_pool_def)
qed

lemma example_view: "latest_view (quiet_world (Holds example_data) bad) = Some example_data"
  by (simp add: latest_view_def quiet_world_def migrate_current example_data_def)

theorem iso_allocations_disjoint_witness:
  "\<exists>sd' w'. (iso_step [])\<^sup>*\<^sup>* (None, quiet_world (Holds example_data) (\<lambda>n. n = 5)) (sd', w') \<and>
     latest_view w' = Some example_data \<and>
     \<not> Overlaps (iso_Link (example_alloc ''a'' 0xAC1E0000)) (iso_Link (example_alloc ''b'' 0xAC1E0004))"
proof -
  let ?w = "quiet_world (Holds example_data) (\<lambda>n. n = 5)"
  obtain e sd' w' where m: "markISOState [] ''a'' ''ready'' None None ?w = (e, sd', w')"
    by (metis prod.collapse)
  then have "w_file w' = Holds example_data"
    by (auto simp: markISOState_def MutateService_def MutateData_def store_eval)
  then have v: "latest_view w' = Some example_data"
    by (simp add: latest_view_def migrate_current example_data_def)
  have s: "(iso_step [])\<^sup>*\<^sup>* (None, ?w) (sd', w')" using iso_step.Mark [OF m] by blast
  have ok: "view_ok (None, ?w)"
    by (simp add: view_ok_def store_view_def example_view example_iso_ok)
  have "map_of (Services example_data) ''a'' = Some (Some ((new_Service ''a'')\<lparr>svc_ISO := Some (example_alloc ''a'' 0xAC1E0000)\<rparr>))"
    "map_of (Services example_data) ''b'' = Some (Some ((new_Service ''b'')\<lparr>svc_ISO := Some (example_alloc ''b'' 0xAC1E0004)\<rparr>))"
    by (simp_all add: example_data_def)
  from iso_allocations_disjoint [OF s ok v this(1) _ this(2)] s v show ?thesis by auto
qed

text \<open>
  C9: reserving again for a service that has an allocation moves nothing that is in use: the
  link, its two addresses, the project, the gateway and the interface names stay, every
  requested component that has an address keeps it, the others are retired with theirs, and
  the reservation is refused for another payload kind, during removal and for a tombstone.
\<close>

theorem reserve_stable:
  assumes "reserveISOAllocationInData name req d (Some sv) = Inr (d', s')" and "svc_ISO sv = Some a"
  shows "\<exists>a'. d' = d \<and> s' = Some (sv\<lparr>svc_ISO := Some a'\<rparr>) \<and>
    iso_Link a' = iso_Link a \<and> iso_HostIP a' = iso_HostIP a \<and> iso_PeerIP a' = iso_PeerIP a \<and>
    iso_Project a' = iso_Project a \<and> iso_Gateway a' = iso_Gateway a \<and>
    iso_Interface a' = iso_Interface a \<and> iso_PeerInterface a' = iso_PeerInterface a \<and>
    iso_Kind a = rr_Kind req \<and> \<not> iso_RemoveRequested a \<and> iso_State a \<noteq> StateTombstoned \<and>
    iso_State a' = StateReserved \<and> iso_DesiredModes a' = rr_Modes req \<and>
    (p_valid (iso_Project a) \<longrightarrow>
       fst ` set (iso_Components a') = set (rr_Components req) \<and>
       (\<forall>n x. map_of (current_components a) n = Some x \<longrightarrow>
          (n, x) \<in> (\<lambda>(n, c). (n, comp_Address c)) ` set (iso_comps a')))"
proof -
  from assms(1) obtain l where l: "isoLayoutForPool (data_ISOPool d) = Inr l"
    by (auto simp: reserveISOAllocationInData_def split: sum.splits)
  obtain sv1 a0 a1 where sv1: "Some sv = Some sv1"
    and e: "ensureISOAllocation name req l (Services d) sv1 = Inr a0"
    and a1: "planISOComponents (rr_Components req) a0 = Inr a1" and d': "d' = d"
    and s1: "s' = Some (sv1\<lparr>svc_ISO := Some (a1\<lparr>iso_DesiredModes := rr_Modes req,
        iso_State := StateReserved, iso_LastError := []\<rparr>)\<rparr>)"
    using assms(1) l by (rule reserve_cases)
  have a0: "ensureISOAllocation name req l (Services d) sv = Inr a0"
    and s': "s' = Some (sv\<lparr>svc_ISO := Some (a1\<lparr>iso_DesiredModes := rr_Modes req,
        iso_State := StateReserved, iso_LastError := []\<rparr>)\<rparr>)"
    using sv1 e s1 by simp_all
  have "a0 = a" and k: "iso_Kind a = rr_Kind req"
    using a0 assms(2) by (auto simp: ensureISOAllocation_def split: if_splits)
  then have "\<not> iso_RemoveRequested a \<and> iso_State a \<noteq> StateTombstoned"
    using assms(1) l a0 by (auto simp: reserveISOAllocationInData_def split: if_splits)
  moreover have same: "iso_Link a1 = iso_Link a \<and> iso_HostIP a1 = iso_HostIP a \<and> iso_PeerIP a1 = iso_PeerIP a \<and>
      iso_Project a1 = iso_Project a \<and> iso_Gateway a1 = iso_Gateway a \<and>
      iso_Interface a1 = iso_Interface a \<and> iso_PeerInterface a1 = iso_PeerInterface a"
    using a1 \<open>a0 = a\<close> by (auto simp: planISOComponents_def split: if_splits sum.splits)
  moreover have "fst ` set (iso_Components a1) = set (rr_Components req) \<and>
      (\<forall>n x. map_of (current_components a) n = Some x \<longrightarrow>
          (n, x) \<in> (\<lambda>(n, c). (n, comp_Address c)) ` set (iso_comps a1))" if v: "p_valid (iso_Project a)"
  proof -
    from v a1 \<open>a0 = a\<close> obtain plan where
      p: "PlanComponents (iso_Project a) (current_components a) (rr_Components req) = Inr plan"
      and pa: "a1 = a\<lparr>iso_Components := componentStates (Desired plan) ''reserved'',
         iso_RetiredComponents := componentStates (Retired plan) ''retiring''\<rparr>"
      by (auto simp: planISOComponents_def split: sum.splits)
    note ok = PlanComponents_ok [OF p current_components_distinct]
    have img: "(\<lambda>(n, c). (n, comp_Address c)) ` set (iso_comps a1) = set (Desired plan) \<union> set (Retired plan)"
      by (simp add: pa iso_comps_def componentStates_def image_Un image_image case_prod_beta)
    have "(n, x) \<in> set (Desired plan) \<union> set (Retired plan)"
      if h: "map_of (current_components a) n = Some x" for n x
    proof (cases "n \<in> set (rr_Components req)")
      case True
      then have "map_of (Desired plan) n = Some x" using ok h by blast
      then show ?thesis by (simp add: map_of_SomeD)
    next
      case False
      then have "(n, x) \<in> set (filter (\<lambda>(n, a). n \<notin> set (rr_Components req)) (current_components a))"
        using map_of_SomeD [OF h] by simp
      moreover have "Retired plan = filter (\<lambda>(n, a). n \<notin> set (rr_Components req)) (current_components a)"
        using ok by simp
      ultimately show ?thesis by simp
    qed
    moreover have "fst ` set (iso_Components a1) = fst ` set (Desired plan)"
      by (force simp: pa componentStates_def)
    ultimately show ?thesis using ok unfolding img by simp
  qed
  ultimately show ?thesis using d' s' k
    by (intro exI [of _ "a1\<lparr>iso_DesiredModes := rr_Modes req, iso_State := StateReserved, iso_LastError := []\<rparr>"])
      (simp add: iso_comps_def)
qed

theorem reserve_stable_witness:
  "\<exists>a'. reserveISOAllocationInData ''a'' \<lparr>rr_Kind = PayloadVM, rr_Modes = [''iso''], rr_Components = []\<rparr>
        example_data (Some ((new_Service ''a'')\<lparr>svc_ISO := Some (example_alloc ''a'' 0xAC1E0000)\<rparr>)) =
      Inr (example_data, Some ((new_Service ''a'')\<lparr>svc_ISO := Some a'\<rparr>)) \<and>
      iso_Link a' = v4_prefix 0xAC1E0000 30"
proof -
  let ?req = "\<lparr>rr_Kind = PayloadVM, rr_Modes = [''iso''], rr_Components = []\<rparr>"
  let ?sv = "(new_Service ''a'')\<lparr>svc_ISO := Some (example_alloc ''a'' 0xAC1E0000)\<rparr>"
  have "\<exists>r. reserveISOAllocationInData ''a'' ?req example_data (Some ?sv) = Inr r"
    using preferred_layout
    by (simp add: reserveISOAllocationInData_def example_data_def isoLayoutForPool_def automatic_pool_def
        ensureISOAllocation_def example_alloc_def newDBISOAllocation_def planISOComponents_def Let_def
        p_valid_def no_prefix_def StateReserved_def StateTombstoned_def)
  then obtain d' s' where r: "reserveISOAllocationInData ''a'' ?req example_data (Some ?sv) = Inr (d', s')"
    by auto
  from reserve_stable [OF r, of "example_alloc ''a'' 0xAC1E0000"] r show ?thesis
    by (auto simp: example_alloc_def newDBISOAllocation_def Let_def)
qed

lemma length_concat_singletons: "(\<And>x. x \<in> set xs \<Longrightarrow> length (f x) \<le> 1) \<Longrightarrow> length (concat (map f xs)) \<le> length xs"
  by (induction xs) (auto simp: add_le_mono [of _ 1, simplified])

lemma used_links_card: "card (set (used_links ss)) \<le> length (service_isos ss)"
  unfolding used_links_def by (rule le_trans [OF card_length length_concat_singletons]) auto

lemma used_projects_card: "card (set (used_projects ss)) \<le> length (service_isos ss)"
  unfolding used_projects_def by (rule le_trans [OF card_length length_concat_singletons]) auto

lemma used_projects_mem:
  "p \<in> set (used_projects ss) \<longleftrightarrow>
   (\<exists>n a. (n, a) \<in> set (service_isos ss) \<and> p_valid (iso_Project a) \<and> p = Masked (iso_Project a))"
  by (force simp: used_projects_def)

lemma used_projects_update:
  assumes "distinct (map fst ss)" "iso_of s = Some a" "\<not> p_valid (iso_Project a)"
  shows "card (set (used_projects (AList.update n s ss))) \<le> length (service_isos ss)"
proof -
  have "set (used_projects (AList.update n s ss)) \<subseteq> set (used_projects ss)"
    using assms by (fastforce simp: used_projects_mem service_isos_update split: if_splits)
  then have "card (set (used_projects (AList.update n s ss))) \<le> card (set (used_projects ss))"
    by (intro card_mono) auto
  with used_projects_card [of ss] show ?thesis by linarith
qed

lemma firstFreeISOLink_succeeds:
  assumes "wf_layout l" "length (service_isos ss) < 8192"
  shows "\<exists>p. firstFreeISOLink l ss = Inr p"
proof -
  have "card (set (used_links ss)) < 8192 - 0" using used_links_card [of ss] assms(2) by linarith
  from link_pool.succeeds_below_capacity [OF assms(1) this] show ?thesis
    by (auto simp: firstFreeISOLink_def)
qed

lemma firstFreeISOProject_succeeds:
  assumes "wf_layout l" "card (set (used_projects ss)) < 1024"
  shows "\<exists>p. firstFreeISOProject l ss = Inr p"
  using project_pool.succeeds_below_capacity [OF assms(1), of "used_projects ss"] assms(2)
  by (auto simp: firstFreeISOProject_def)

lemma plan_fresh_project:
  assumes "wf_layout l" "Project l i = Inr p" "distinct cs" "[] \<notin> set cs" "length cs \<le> 29"
  shows "\<exists>plan. PlanComponents p [] cs = Inr plan"
proof -
  have m: "Masked p = p" using assms(1,2) by (rule Project_Masked)
  have "\<exists>b. p = v4_prefix b 27" using assms(1,2) by (auto elim: Project_cases)
  then have "p_valid p \<and> Is4 (p_addr p) \<and> Bits p = 27" by auto
  with assms(3-5) m show ?thesis
    by (intro PlanComponents_succeeds [where used = "[]"]) (simp_all add: distinct_card)
qed



text \<open>
  Interface names made from the service name fit the kernel's limit of 15 bytes, whatever
  the name, and the two ends of a link never share a name.
\<close>

theorem interface_names_fit:
  "length (iso_Interface (newDBISOAllocation name req link)) = 13 \<and>
   length (iso_PeerInterface (newDBISOAllocation name req link)) = 13 \<and>
   iso_Interface (newDBISOAllocation name req link) \<noteq> iso_PeerInterface (newDBISOAllocation name req link)"
  by (simp add: newDBISOAllocation_def Let_def isoNameToken_def length_EncodeToString length_Sum256)

section \<open>Choosing and changing the pool\<close>

lemma overlapsAny_iff:
  "overlapsAny c ps \<longleftrightarrow> (\<exists>q \<in> set ps. p_valid q \<and> Overlaps c (Masked q))"
  by (induction ps) auto

lemma first_candidate_err:
  "first_candidate cs occ = Inl e \<Longrightarrow> e = NoCollisionFreePool \<and> (\<forall>raw \<in> set cs. overlapsAny (MustParsePrefix raw) occ)"
  by (induction cs) (auto simp: Let_def split: if_splits)

lemma probe_all_ok:
  "probe_all \<lparr>HostPrefixes = Inr h, NamespacePrefixes = Inr n, DockerPrefixes = Inr k\<rparr> ps = Inr (ps @ h @ n @ k)"
  by (simp add: probe_all_def)

text \<open>
  The automatic pool is collision free and the search is complete: when the probes
  answer, the pool chosen is a candidate that overlaps no valid prefix of the persisted data,
  the host, the namespaces or Docker, and it is refused only when every candidate overlaps
  one of them; when a probe fails its error is returned and no pool is chosen.
\<close>

theorem selectISOPool_correct:
  "(case selectISOPool \<lparr>HostPrefixes = Inr h, NamespacePrefixes = Inr n, DockerPrefixes = Inr k\<rparr> ps of
      Inr p \<Rightarrow> p \<in> MustParsePrefix ` set automaticISOPoolCandidates \<and>
        \<not> list_ex (\<lambda>q. p_valid q \<and> Overlaps p (Masked q)) (ps @ h @ n @ k)
    | Inl e \<Rightarrow> e = NoCollisionFreePool \<and>
        list_all (\<lambda>raw. list_ex (\<lambda>q. p_valid q \<and> Overlaps (MustParsePrefix raw) (Masked q)) (ps @ h @ n @ k))
          automaticISOPoolCandidates) \<and>
   selectISOPool \<lparr>HostPrefixes = Inl e, NamespacePrefixes = nn, DockerPrefixes = kk\<rparr> ps = Inl e \<and>
   selectISOPool \<lparr>HostPrefixes = Inr h, NamespacePrefixes = Inl e, DockerPrefixes = kk\<rparr> ps = Inl e \<and>
   selectISOPool \<lparr>HostPrefixes = Inr h, NamespacePrefixes = Inr n, DockerPrefixes = Inl e\<rparr> ps = Inl e"
proof -
  let ?occ = "ps @ h @ n @ k"
  have "selectISOPool \<lparr>HostPrefixes = Inr h, NamespacePrefixes = Inr n, DockerPrefixes = Inr k\<rparr> ps =
      first_candidate automaticISOPoolCandidates ?occ"
    by (simp add: selectISOPool_def probe_all_ok)
  moreover have "case first_candidate automaticISOPoolCandidates ?occ of
      Inr p \<Rightarrow> p \<in> MustParsePrefix ` set automaticISOPoolCandidates \<and> \<not> overlapsAny p ?occ
    | Inl e \<Rightarrow> e = NoCollisionFreePool \<and>
        list_all (\<lambda>raw. overlapsAny (MustParsePrefix raw) ?occ) automaticISOPoolCandidates"
    by (cases "first_candidate automaticISOPoolCandidates ?occ")
      (auto simp: list_all_iff dest!: first_candidate_ok first_candidate_err)
  ultimately show ?thesis
    by (auto simp: overlapsAny_iff list_ex_iff list_all_iff selectISOPool_def probe_all_def split: sum.splits)
qed

lemma apply_pool_in_use:
  assumes "service_isos (Services d) \<noteq> []"
  shows "apply_pool plan desired d = Inr d \<or> (\<exists>e. apply_pool plan desired d = Inl e)"
  using assms by (auto simp: apply_pool_def Let_def blockers_none)

lemma apply_pool_changes:
  assumes "apply_pool plan desired d = Inr d'" "d' \<noteq> d"
  shows "service_isos (Services d) = [] \<and> d' = d\<lparr>data_ISOPool := Some (explicit_pool desired)\<rparr>"
  using assms by (auto simp: apply_pool_def Let_def blockers_none split: if_splits)



end
