(* ===== verification/Dnet.thy ===== *)
theory Dnet
  imports Db_Store
begin

text \<open>
  The Docker network plugin, its data (\<^verbatim>\<open>src/pkg/dnet/dnet.go\<close>): the port-forward rules the
  data asks for, the checks of network modes and port maps, and the functions the handlers
  hand to the store (create and delete a network, create, leave and delete an endpoint, join,
  program and revoke its connectivity, prune networks Docker no longer has).

  A map is an association list and Go's iteration order is the order of the list; the rules
  are shown not to depend on it. \<open>DnetPanic\<close> is a nil dereference on a nil pointer in a map.

  The lemmas show that every rule forwards to an existing endpoint of the namespace, that the
  set of rules is exactly what the port maps say, that no ISO network gets one, and that the
  network invariant is kept by every handler and by every history of them.
\<close>

datatype dnet_err =
    NetworkNotFound
  | EndpointNotFound
  | UnsupportedMode string
  | ErrISOPortMaps
  | NetworkStillHasEndpoints
  | NetworkChanged
  | NetworkExists
  | NetNSRequired
  | IPv4DataRequired
  | UnsupportedProtocol
  | UnsupportedPortRange
  | InNetwork string dnet_err
  | DnetPanic

definition dockerNetworkModeISO :: string where "dockerNetworkModeISO = ''iso''"

record portForwardRule =
  pf_Proto :: string
  HostPort :: "16 word"
  TargetIP :: string
  TargetPort :: "16 word"

definition protoName :: "int \<Rightarrow> string" where
  "protoName proto = (if proto = 6 then ''tcp'' else if proto = 17 then ''udp'' else [])"

section \<open>The order of rules\<close>

definition rule_less :: "portForwardRule \<Rightarrow> portForwardRule \<Rightarrow> bool" where
  "rule_less a b =
     (if pf_Proto a \<noteq> pf_Proto b then pf_Proto a < pf_Proto b
      else if HostPort a \<noteq> HostPort b then HostPort a < HostPort b
      else if TargetIP a \<noteq> TargetIP b then TargetIP a < TargetIP b
      else TargetPort a < TargetPort b)"

definition sortPortForwardRules :: "portForwardRule list \<Rightarrow> portForwardRule list" where
  "sortPortForwardRules rules = sort_by rule_less rules"

interpretation rule_order: go_total_order rule_less
proof
  fix x y z :: portForwardRule
  show "rule_less x y \<Longrightarrow> \<not> rule_less y x"
    by (auto simp: rule_less_def split: if_splits)
  show "rule_less x z \<Longrightarrow> rule_less x y \<or> rule_less y z"
    by (auto simp: rule_less_def split: if_splits)
  show "\<not> rule_less x y \<Longrightarrow> \<not> rule_less y x \<Longrightarrow> x = y"
    by (auto simp: rule_less_def split: if_splits)
qed

section \<open>The rules the data asks for\<close>

text \<open>The body of the loop over a port map; \<open>None\<close> is \<^verbatim>\<open>continue\<close>.\<close>

definition port_rule :: "DockerNetwork \<Rightarrow> string \<times> EndpointPort option \<Rightarrow> portForwardRule option" where
  "port_rule n kv =
     (case kv of
        (key, None) \<Rightarrow> None
      | (key, Some pm) \<Rightarrow>
          (case map_of (dn_Endpoints n) (ep_EndpointID pm) of
             Some (Some ep) \<Rightarrow>
               (case ProtoPort_Parse key of
                  Inl _ \<Rightarrow> None
                | Inr hp \<Rightarrow>
                    if protoName (pp_Proto hp) = [] then None
                    else Some \<lparr>pf_Proto = protoName (pp_Proto hp), HostPort = pp_Port hp,
                               TargetIP = addr_string (p_addr (de_IPv4 ep)), TargetPort = ep_Port pm\<rparr>)
           | _ \<Rightarrow> None))"

definition desiredPortForwards :: "DockerNetwork option \<Rightarrow> portForwardRule list" where
  "desiredPortForwards network =
     (case network of
        None \<Rightarrow> []
      | Some n \<Rightarrow>
          if dn_Mode n = dockerNetworkModeISO then []
          else sortPortForwardRules (List.map_filter (port_rule n) (dn_PortMap n)))"

fun drop_adjacent :: "'a list \<Rightarrow> 'a list \<Rightarrow> 'a list" where
  "drop_adjacent out [] = out"
| "drop_adjacent out (r # rs) =
     (if out \<noteq> [] \<and> last out = r then drop_adjacent out rs else drop_adjacent (out @ [r]) rs)"

definition dedupePortForwardRules :: "portForwardRule list \<Rightarrow> portForwardRule list" where
  "dedupePortForwardRules rules =
     (if rules = [] then [] else drop_adjacent [] (sortPortForwardRules rules))"

definition in_netns :: "string \<Rightarrow> DockerNetwork option \<Rightarrow> bool" where
  "in_netns netns network =
     (case network of
        None \<Rightarrow> False
      | Some n \<Rightarrow> dn_NetNS n = netns \<and> dn_Mode n \<noteq> dockerNetworkModeISO)"

definition desiredPortForwardsForNetNS :: "Data option \<Rightarrow> string \<Rightarrow> portForwardRule list" where
  "desiredPortForwardsForNetNS d netns =
     (case d of
        None \<Rightarrow> []
      | Some data \<Rightarrow>
          if netns = [] then []
          else dedupePortForwardRules
                 (concat (map (\<lambda>(_, n). if in_netns netns n then desiredPortForwards n else [])
                            (DockerNetworks data))))"

definition forwarding_netns :: "Data \<Rightarrow> string list" where
  "forwarding_netns d =
     remdups [dn_NetNS n. (_, Some n) \<leftarrow> DockerNetworks d,
       dn_NetNS n \<noteq> [] \<and> dn_Mode n \<noteq> dockerNetworkModeISO]"

definition desiredPortForwardsByNetNS :: "Data option \<Rightarrow> (string \<times> portForwardRule list) list" where
  "desiredPortForwardsByNetNS d =
     (case d of
        None \<Rightarrow> []
      | Some data \<Rightarrow> map (\<lambda>ns. (ns, desiredPortForwardsForNetNS d ns)) (forwarding_netns data))"

section \<open>Checks\<close>

definition validateDockerNetworkMode :: "string \<Rightarrow> dnet_err option" where
  "validateDockerNetworkMode mode =
     (if mode \<noteq> [] \<and> mode \<noteq> dockerNetworkModeISO then Some (UnsupportedMode mode) else None)"

definition validateNetworkPortMaps :: "DockerNetwork option \<Rightarrow> nat \<Rightarrow> dnet_err option" where
  "validateNetworkPortMaps network incoming =
     (case network of
        None \<Rightarrow> None
      | Some n \<Rightarrow>
          (case validateDockerNetworkMode (dn_Mode n) of
             Some e \<Rightarrow> Some e
           | None \<Rightarrow>
               if dn_Mode n = dockerNetworkModeISO \<and> (incoming \<noteq> 0 \<or> dn_PortMap n \<noteq> [])
               then Some ErrISOPortMaps else None))"

definition network_error :: "string \<Rightarrow> DockerNetwork option \<Rightarrow> dnet_err option" where
  "network_error nid network =
     (case network of
        None \<Rightarrow> None
      | Some n \<Rightarrow>
          (case validateDockerNetworkMode (dn_Mode n) of
             Some e \<Rightarrow> Some (InNetwork nid e)
           | None \<Rightarrow>
               if dn_Mode n = dockerNetworkModeISO \<and> dn_PortMap n \<noteq> []
               then Some (InNetwork nid ErrISOPortMaps) else None))"

text \<open>The loop over the sorted identifiers, until the first error.\<close>

definition validatePersistedDockerNetworkModes :: "Data option \<Rightarrow> dnet_err option" where
  "validatePersistedDockerNetworkModes d =
     (case d of
        None \<Rightarrow> None
      | Some data \<Rightarrow>
          (case List.map_filter (\<lambda>nid. network_error nid (case map_of (DockerNetworks data) nid of
                                                           None \<Rightarrow> None | Some n \<Rightarrow> n))
                  (sort (map fst (DockerNetworks data))) of
             [] \<Rightarrow> None
           | e # _ \<Rightarrow> Some e))"

section \<open>Port maps\<close>

definition removeEndpointPortMappings :: "DockerNetwork \<Rightarrow> string \<Rightarrow> DockerNetwork" where
  "removeEndpointPortMappings n endpointID =
     n\<lparr>dn_PortMap := filter (\<lambda>(_, pm). case pm of None \<Rightarrow> True | Some p \<Rightarrow> ep_EndpointID p \<noteq> endpointID)
         (dn_PortMap n)\<rparr>"

record portMap =
  pm_Proto :: int
  pm_IP :: string
  pm_Port :: "16 word"
  pm_HostIP :: string
  pm_HostPort :: "16 word"
  pm_HostPortEnd :: "16 word"

fun endpoint_port_loop ::
  "string \<Rightarrow> portMap list \<Rightarrow> (ProtoPort \<times> EndpointPort) list \<Rightarrow> dnet_err + (ProtoPort \<times> EndpointPort) list" where
  "endpoint_port_loop endpointID [] dbpm = Inr dbpm"
| "endpoint_port_loop endpointID (pm # pms) dbpm =
     (if pm_Proto pm \<noteq> 6 \<and> pm_Proto pm \<noteq> 17 then Inl UnsupportedProtocol
      else if pm_HostPortEnd pm \<noteq> 0 \<and> pm_HostPortEnd pm \<noteq> pm_HostPort pm then Inl UnsupportedPortRange
      else endpoint_port_loop endpointID pms
             (AList.update \<lparr>pp_Proto = pm_Proto pm, pp_Port = pm_HostPort pm\<rparr>
                \<lparr>ep_EndpointID = endpointID, ep_Port = pm_Port pm\<rparr> dbpm))"

definition endpointPortMap :: "string \<Rightarrow> portMap list \<Rightarrow> dnet_err + (ProtoPort \<times> EndpointPort) list" where
  "endpointPortMap endpointID portMaps = endpoint_port_loop endpointID portMaps []"

definition setEndpointPortMappings ::
  "DockerNetwork \<Rightarrow> string \<Rightarrow> (ProtoPort \<times> EndpointPort) list \<Rightarrow> DockerNetwork" where
  "setEndpointPortMappings n endpointID mappings =
     (let m = removeEndpointPortMappings n endpointID in
      m\<lparr>dn_PortMap := fold (\<lambda>(k, pm). AList.update (ProtoPort_String k) (Some pm)) mappings (dn_PortMap m)\<rparr>)"

section \<open>The functions handed to the store\<close>

definition put_network :: "string \<Rightarrow> DockerNetwork \<Rightarrow> Data \<Rightarrow> Data" where
  "put_network nid n d = d\<lparr>DockerNetworks := AList.update nid (Some n) (DockerNetworks d)\<rparr>"

definition find_network :: "Data \<Rightarrow> string \<Rightarrow> dnet_err + DockerNetwork" where
  "find_network d nid =
     (case map_of (DockerNetworks d) nid of
        None \<Rightarrow> Inl NetworkNotFound
      | Some None \<Rightarrow> Inl DnetPanic
      | Some (Some n) \<Rightarrow> Inr n)"

definition pruneMissing :: "string list \<Rightarrow> Data \<Rightarrow> dnet_err + Data" where
  "pruneMissing liveIDs d = Inr (d\<lparr>DockerNetworks := filter (\<lambda>(i, _). i \<in> set liveIDs) (DockerNetworks d)\<rparr>)"

definition leave_mutation :: "string \<Rightarrow> string \<Rightarrow> Data \<Rightarrow> dnet_err + Data" where
  "leave_mutation nid eid d =
     (case find_network d nid of
        Inl e \<Rightarrow> Inl e
      | Inr n \<Rightarrow>
          if map_of (dn_Endpoints n) eid = None then Inl EndpointNotFound
          else Inr (put_network nid
                 (removeEndpointPortMappings (n\<lparr>dn_Endpoints := AList.delete eid (dn_Endpoints n)\<rparr>) eid) d))"

text \<open>
  The second half of \<open>joinNetworkState\<close>: the network is looked up again without the checks
  made before; a missing or nil one is dereferenced only when there is a mapping to set.
\<close>

definition join_mutation :: "string \<Rightarrow> string \<Rightarrow> (ProtoPort \<times> EndpointPort) list \<Rightarrow> Data \<Rightarrow> dnet_err + Data" where
  "join_mutation nid eid dbpm d =
     (case map_of (DockerNetworks d) nid of
        Some (Some n) \<Rightarrow> Inr (put_network nid (setEndpointPortMappings n eid dbpm) d)
      | _ \<Rightarrow> if dbpm = [] then Inr d else Inl DnetPanic)"

definition dockerNetworkReadyForDelete :: "Data option \<Rightarrow> string \<Rightarrow> dnet_err + DockerNetwork" where
  "dockerNetworkReadyForDelete d nid =
     (case d of
        None \<Rightarrow> Inl NetworkNotFound
      | Some data \<Rightarrow>
          (case map_of (DockerNetworks data) nid of
             Some (Some n) \<Rightarrow> if dn_Endpoints n \<noteq> [] then Inl NetworkStillHasEndpoints else Inr n
           | _ \<Rightarrow> Inl NetworkNotFound))"

record deleteNetworkState =
  dns_networkID :: string
  dns_netns :: string
  dns_mode :: string

definition delete_mutation :: "deleteNetworkState \<Rightarrow> Data \<Rightarrow> dnet_err + Data" where
  "delete_mutation state d =
     (case dockerNetworkReadyForDelete (Some d) (dns_networkID state) of
        Inl e \<Rightarrow> Inl e
      | Inr n \<Rightarrow>
          if dn_NetNS n \<noteq> dns_netns state \<or> dn_Mode n \<noteq> dns_mode state then Inl NetworkChanged
          else Inr (d\<lparr>DockerNetworks := AList.delete (dns_networkID state) (DockerNetworks d)\<rparr>))"

record createNetworkRequest =
  cn_NetworkID :: string
  cn_NetNS :: string
  cn_Mode :: string
  cn_IPv4Data :: "(string \<times> prefix \<times> prefix) list"

definition createNetworkRequest_validate :: "createNetworkRequest \<Rightarrow> dnet_err option" where
  "createNetworkRequest_validate req =
     (if cn_NetNS req = [] then Some NetNSRequired
      else if cn_IPv4Data req = [] then Some IPv4DataRequired
      else validateDockerNetworkMode (cn_Mode req))"

definition dockerNetwork :: "createNetworkRequest \<Rightarrow> DockerNetwork" where
  "dockerNetwork req =
     (case cn_IPv4Data req of
        (_, gateway, pool) # _ \<Rightarrow>
          \<lparr>dn_NetworkID = cn_NetworkID req, dn_NetNS = cn_NetNS req, dn_Mode = cn_Mode req,
           dn_IPv4Gateway = gateway, dn_IPv4Range = pool, dn_Endpoints = [], dn_EndpointAddrs = [],
           dn_PortMap = []\<rparr>
      | [] \<Rightarrow>
          \<lparr>dn_NetworkID = cn_NetworkID req, dn_NetNS = cn_NetNS req, dn_Mode = cn_Mode req,
           dn_IPv4Gateway = no_prefix, dn_IPv4Range = no_prefix, dn_Endpoints = [], dn_EndpointAddrs = [],
           dn_PortMap = []\<rparr>)"

definition create_network_mutation :: "createNetworkRequest \<Rightarrow> Data \<Rightarrow> dnet_err + Data" where
  "create_network_mutation req d =
     (if map_of (DockerNetworks d) (cn_NetworkID req) \<noteq> None then Inl NetworkExists
      else Inr (put_network (cn_NetworkID req) (dockerNetwork req) d))"

text \<open>
  The loop of \<open>createEndpointState\<close> that removes other endpoints with the same address, with
  their port maps; a nil endpoint is dereferenced.
\<close>

fun evict :: "string \<Rightarrow> prefix \<Rightarrow> (string \<times> DockerEndpoint option) list \<Rightarrow> DockerNetwork \<Rightarrow> dnet_err + DockerNetwork" where
  "evict eid pfx [] n = Inr n"
| "evict eid pfx ((k, None) # rest) n = Inl DnetPanic"
| "evict eid pfx ((k, Some existing) # rest) n =
     (if de_IPv4 existing = pfx \<and> k \<noteq> eid
      then evict eid pfx rest
             ((removeEndpointPortMappings n k)\<lparr>dn_Endpoints := AList.delete k (dn_Endpoints n)\<rparr>)
      else evict eid pfx rest n)"

text \<open>An existing endpoint record is updated in place, before the loop sees it.\<close>

fun endpoint_record :: "string \<Rightarrow> prefix \<Rightarrow> DockerEndpoint option option \<Rightarrow> DockerEndpoint" where
  "endpoint_record eid pfx (Some (Some old)) = old\<lparr>de_IPv4 := pfx\<rparr>"
| "endpoint_record eid pfx _ = \<lparr>de_EndpointID = eid, de_IPv4 = pfx\<rparr>"

definition create_endpoint_mutation ::
  "string \<Rightarrow> string \<Rightarrow> prefix \<Rightarrow> (ProtoPort \<times> EndpointPort) list \<Rightarrow> Data \<Rightarrow> dnet_err + Data" where
  "create_endpoint_mutation nid eid pfx dbpm d =
     (case map_of (DockerNetworks d) nid of
        None \<Rightarrow> Inl NetworkNotFound
      | Some network \<Rightarrow>
          (case validateNetworkPortMaps network (length dbpm) of
             Some e \<Rightarrow> Inl e
           | None \<Rightarrow>
               (case network of
                  None \<Rightarrow> Inl DnetPanic
                | Some n \<Rightarrow>
                    (case map_of (dn_Endpoints n) eid of
                       Some None \<Rightarrow> Inl DnetPanic
                     | found \<Rightarrow>
                         (let ep = endpoint_record eid pfx found;
                              n1 = (if found = None then n
                                    else n\<lparr>dn_Endpoints := AList.update eid (Some ep) (dn_Endpoints n)\<rparr>);
                              n2 = setEndpointPortMappings n1 eid dbpm
                          in case evict eid pfx (dn_Endpoints n2) n2 of
                               Inl e \<Rightarrow> Inl e
                             | Inr n3 \<Rightarrow>
                                 Inr (put_network nid
                                   (n3\<lparr>dn_Endpoints := AList.update eid (Some ep) (dn_Endpoints n3)\<rparr>) d))))))"

definition program_mutation ::
  "string \<Rightarrow> string \<Rightarrow> (ProtoPort \<times> EndpointPort) list \<Rightarrow> Data \<Rightarrow> dnet_err + Data" where
  "program_mutation nid eid dbpm d =
     (case map_of (DockerNetworks d) nid of
        None \<Rightarrow> Inl NetworkNotFound
      | Some network \<Rightarrow>
          (case validateNetworkPortMaps network (length dbpm) of
             Some e \<Rightarrow> Inl e
           | None \<Rightarrow>
               (case network of
                  None \<Rightarrow> Inl DnetPanic
                | Some n \<Rightarrow>
                    if map_of (dn_Endpoints n) eid = None then Inl EndpointNotFound
                    else Inr (put_network nid (setEndpointPortMappings n eid dbpm) d))))"

definition revoke_mutation :: "string \<Rightarrow> string \<Rightarrow> Data \<Rightarrow> dnet_err + Data" where
  "revoke_mutation nid eid d =
     (case find_network d nid of
        Inl e \<Rightarrow> Inl e
      | Inr n \<Rightarrow>
          if map_of (dn_Endpoints n) eid = None
          then Inr (put_network nid (removeEndpointPortMappings n eid) d) else Inr d)"

definition delete_endpoint_mutation :: "string \<Rightarrow> string \<Rightarrow> Data \<Rightarrow> dnet_err + Data" where
  "delete_endpoint_mutation nid eid d =
     (case find_network d nid of
        Inl e \<Rightarrow> Inl e
      | Inr n \<Rightarrow>
          Inr (put_network nid
            ((removeEndpointPortMappings n eid)\<lparr>dn_Endpoints := AList.delete eid (dn_Endpoints n)\<rparr>) d))"

section \<open>Which rules, and in which order\<close>

lemma set_drop_adjacent: "set (drop_adjacent out rs) = set out \<union> set rs"
  by (induction out rs rule: drop_adjacent.induct) auto

context go_total_order
begin

lemma sorted_drop_adjacent:
  assumes "sorted_wrt lt out" "sorted_wrt (\<lambda>x y. \<not> lt y x) rs"
    and "\<And>x y. x \<in> set out \<Longrightarrow> y \<in> set rs \<Longrightarrow> \<not> lt y x"
  shows "sorted_wrt lt (drop_adjacent out rs)"
  using assms
proof (induction out rs rule: drop_adjacent.induct)
  case (2 out r rs)
  show ?case
  proof (cases "out \<noteq> [] \<and> last out = r")
    case True
    with 2 show ?thesis by simp
  next
    case False
    have "lt x r" if "x \<in> set out" for x
    proof -
      have n: "\<not> lt r x" using "2.prems"(3) that by simp
      show ?thesis
      proof (cases "x = last out")
        case True
        then show ?thesis using n less_total False that by (cases "out = []") auto
      next
        case False
        then have "lt x (last out)" using that "2.prems"(1)
          by (metis append_butlast_last_id empty_iff empty_set in_set_butlast_appendI
              rotate1.simps(2) set_ConsD set_rotate1 sorted_wrt_append list.set_intros(1))
        moreover have "\<not> lt r (last out)" using "2.prems"(3) that by (cases "out = []") auto
        ultimately show ?thesis using less_ntrans by blast
      qed
    qed
    then have "sorted_wrt lt (out @ [r])" using "2.prems"(1) by (simp add: sorted_wrt_append)
    with "2.IH"(2) [OF False] "2.prems" False show ?thesis by auto
  qed
qed simp

lemma strict_sorted_unique:
  "\<lbrakk>sorted_wrt lt xs; sorted_wrt lt ys; set xs = set ys\<rbrakk> \<Longrightarrow> xs = ys"
proof -
  assume s: "sorted_wrt lt xs" "sorted_wrt lt ys" "set xs = set ys"
  have d: "distinct zs" if "sorted_wrt lt zs" for zs
    using that less_irrefl by (induction zs) auto
  have w: "sorted_wrt (\<lambda>x y. \<not> lt y x) zs" if "sorted_wrt lt zs" for zs
    using that less_asym by (auto elim: sorted_wrt_mono_rel [rotated])
  have "mset xs = mset ys" using d s by (simp add: set_eq_iff_mset_eq_distinct)
  then show ?thesis using sorted_unique w s by blast
qed

end

lemma port_rule_Some:
  "port_rule n kv = Some r \<longleftrightarrow>
   (\<exists>key pm ep hp. kv = (key, Some pm) \<and> map_of (dn_Endpoints n) (ep_EndpointID pm) = Some (Some ep) \<and>
      ProtoPort_Parse key = Inr hp \<and> protoName (pp_Proto hp) \<noteq> [] \<and>
      r = \<lparr>pf_Proto = protoName (pp_Proto hp), HostPort = pp_Port hp,
           TargetIP = addr_string (p_addr (de_IPv4 ep)), TargetPort = ep_Port pm\<rparr>)"
  by (cases kv) (auto simp: port_rule_def split: option.splits sum.splits)

lemma set_desiredPortForwards:
  "set (desiredPortForwards (Some n)) =
   (if dn_Mode n = dockerNetworkModeISO then {} else {r. \<exists>kv \<in> set (dn_PortMap n). port_rule n kv = Some r})"
  by (force simp: desiredPortForwards_def sortPortForwardRules_def List.map_filter_def image_iff)

lemma sorted_dedupe: "sorted_wrt rule_less (dedupePortForwardRules rs)"
proof -
  have "sorted_wrt rule_less (drop_adjacent [] (sort_by rule_less rs))"
    by (rule rule_order.sorted_drop_adjacent) (simp_all add: rule_order.sorted_sort_by)
  then show ?thesis by (simp add: dedupePortForwardRules_def sortPortForwardRules_def)
qed

lemma set_dedupe: "set (dedupePortForwardRules rs) = set rs"
  by (simp add: dedupePortForwardRules_def sortPortForwardRules_def set_drop_adjacent)

lemma set_desiredForNetNS:
  "set (desiredPortForwardsForNetNS (Some d) ns) =
   (if ns = [] then {} else
    {r. \<exists>nid n kv. (nid, Some n) \<in> set (DockerNetworks d) \<and> dn_NetNS n = ns \<and>
        dn_Mode n \<noteq> dockerNetworkModeISO \<and> kv \<in> set (dn_PortMap n) \<and> port_rule n kv = Some r})"
proof (cases "ns = []")
  case False
  have "set (desiredPortForwardsForNetNS (Some d) ns) =
      (\<Union>(nid, n) \<in> set (DockerNetworks d). if in_netns ns n then set (desiredPortForwards n) else {})"
    using False by (auto simp: desiredPortForwardsForNetNS_def set_dedupe split: if_splits)
  also have "\<dots> = {r. \<exists>nid n kv. (nid, Some n) \<in> set (DockerNetworks d) \<and> dn_NetNS n = ns \<and>
        dn_Mode n \<noteq> dockerNetworkModeISO \<and> kv \<in> set (dn_PortMap n) \<and> port_rule n kv = Some r}"
    by (fastforce simp: in_netns_def set_desiredPortForwards split: option.splits if_splits)
  finally show ?thesis using False by simp
qed (simp add: desiredPortForwardsForNetNS_def)

text \<open>
  The rules of a namespace are exactly those its port maps ask for: a rule is present if
  and only if some non-ISO network of the namespace has a port-map entry with a readable TCP or
  UDP key whose endpoint exists, and it then forwards that host port to the endpoint's address
  and the entry's port. They come strictly sorted, so without duplicates and independent of
  the order in which the maps are iterated.
\<close>

theorem desired_rules_exact:
  "(r \<in> set (desiredPortForwardsForNetNS (Some d) ns) \<longleftrightarrow>
     ns \<noteq> [] \<and>
     (\<exists>nid n key pm ep hp. (nid, Some n) \<in> set (DockerNetworks d) \<and> dn_NetNS n = ns \<and>
        dn_Mode n \<noteq> dockerNetworkModeISO \<and> (key, Some pm) \<in> set (dn_PortMap n) \<and>
        map_of (dn_Endpoints n) (ep_EndpointID pm) = Some (Some ep) \<and>
        ProtoPort_Parse key = Inr hp \<and> protoName (pp_Proto hp) \<noteq> [] \<and>
        r = \<lparr>pf_Proto = protoName (pp_Proto hp), HostPort = pp_Port hp,
             TargetIP = addr_string (p_addr (de_IPv4 ep)), TargetPort = ep_Port pm\<rparr>)) \<and>
   sorted_wrt rule_less (desiredPortForwardsForNetNS (Some d) ns)"
proof -
  have "sorted_wrt rule_less (desiredPortForwardsForNetNS (Some d) ns)"
    by (auto simp: desiredPortForwardsForNetNS_def sorted_dedupe)
  then show ?thesis
    unfolding set_desiredForNetNS port_rule_Some by (cases "ns = []") (simp, simp only: if_False mem_Collect_eq, blast)
qed

text \<open>
  The rules do not depend on Go's iteration order: any two orders of the networks map give
  the same list.
\<close>

theorem desired_rules_order_independent:
  assumes "mset (DockerNetworks d) = mset (DockerNetworks d')"
  shows "desiredPortForwardsForNetNS (Some d) ns = desiredPortForwardsForNetNS (Some d') ns"
proof (rule rule_order.strict_sorted_unique)
  show "sorted_wrt rule_less (desiredPortForwardsForNetNS (Some d) ns)"
    "sorted_wrt rule_less (desiredPortForwardsForNetNS (Some d') ns)"
    by (auto simp: desiredPortForwardsForNetNS_def sorted_dedupe)
  have "set (DockerNetworks d) = set (DockerNetworks d')" using assms by (rule mset_eq_setD)
  then show "set (desiredPortForwardsForNetNS (Some d) ns) = set (desiredPortForwardsForNetNS (Some d') ns)"
    by (simp add: set_desiredForNetNS)
qed

theorem desired_rules_order_independent_witness:
  "desiredPortForwardsForNetNS (Some (new_Data\<lparr>DockerNetworks := [(''a'', None), (''b'', None)]\<rparr>)) ''/ns'' =
   desiredPortForwardsForNetNS (Some (new_Data\<lparr>DockerNetworks := [(''b'', None), (''a'', None)]\<rparr>)) ''/ns''"
  by (rule desired_rules_order_independent) simp

section \<open>The network invariant\<close>

text \<open>
  \<open>net_shape\<close> holds whatever the order of handlers: no nil endpoints, one entry per key, a
  known mode, and no two endpoints with the same address. \<open>ports_ok\<close> holds when no
  handler runs between the two halves of a join: no port map on an ISO network, and every
  entry belongs to an endpoint.
\<close>

definition uniq_addrs :: "(string \<times> DockerEndpoint option) list \<Rightarrow> bool" where
  "uniq_addrs es \<longleftrightarrow>
     (\<forall>k e k' e'. map_of es k = Some (Some e) \<longrightarrow> map_of es k' = Some (Some e') \<longrightarrow> k \<noteq> k' \<longrightarrow>
        de_IPv4 e \<noteq> de_IPv4 e')"

definition no_nil :: "(string \<times> 'v option) list \<Rightarrow> bool" where
  "no_nil al \<longleftrightarrow> distinct (map fst al) \<and> (\<forall>k. map_of al k \<noteq> Some None)"

definition net_shape :: "DockerNetwork \<Rightarrow> bool" where
  "net_shape n \<longleftrightarrow>
     no_nil (dn_Endpoints n) \<and> no_nil (dn_PortMap n) \<and> uniq_addrs (dn_Endpoints n) \<and>
     validateDockerNetworkMode (dn_Mode n) = None"

definition ports_ok :: "DockerNetwork \<Rightarrow> bool" where
  "ports_ok n \<longleftrightarrow>
     (dn_Mode n = dockerNetworkModeISO \<longrightarrow> dn_PortMap n = []) \<and>
     (\<forall>k p. map_of (dn_PortMap n) k = Some (Some p) \<longrightarrow> map_of (dn_Endpoints n) (ep_EndpointID p) \<noteq> None)"

definition nets_ok :: "(DockerNetwork \<Rightarrow> bool) \<Rightarrow> Data \<Rightarrow> bool" where
  "nets_ok P d \<longleftrightarrow>
     distinct (map fst (DockerNetworks d)) \<and>
     (\<forall>i n. map_of (DockerNetworks d) i = Some n \<longrightarrow> (\<exists>m. n = Some m \<and> P m))"

lemma nets_ok_put: "nets_ok P d \<Longrightarrow> P n \<Longrightarrow> nets_ok P (put_network nid n d)"
  by (auto simp: nets_ok_def put_network_def distinct_update map_of_update)

lemma nets_ok_find:
  "nets_ok P d \<Longrightarrow> map_of (DockerNetworks d) nid = Some n \<Longrightarrow> \<exists>m. n = Some m \<and> P m"
  by (auto simp: nets_ok_def)

lemma nets_ok_at: "nets_ok P d \<Longrightarrow> map_of (DockerNetworks d) nid = Some (Some n) \<Longrightarrow> P n"
  using nets_ok_find by fastforce

lemma no_nil_update: "no_nil al \<Longrightarrow> no_nil (AList.update k (Some v) al)"
  by (simp add: no_nil_def distinct_update map_of_update)

lemma no_nil_delete: "no_nil al \<Longrightarrow> no_nil (AList.delete k al)"
  by (simp add: no_nil_def distinct_delete map_of_delete)

lemma no_nil_filter: "no_nil al \<Longrightarrow> no_nil (filter (\<lambda>(k, v). P v) al)"
  by (auto simp: no_nil_def distinct_keys_filter map_of_filter_value simp del: map_of_eq_Some_iff
      split: option.splits if_splits) (metis not_None_eq)

lemma no_nil_fold:
  "no_nil al \<Longrightarrow> no_nil (fold (\<lambda>(k, v). AList.update (f k) (Some v)) kvs al)"
  by (induction kvs arbitrary: al) (auto simp: no_nil_update)

lemma remove_ports:
  "no_nil (dn_PortMap n) \<Longrightarrow>
   map_of (dn_PortMap (removeEndpointPortMappings n e)) k = Some (Some p) \<longleftrightarrow>
   map_of (dn_PortMap n) k = Some (Some p) \<and> ep_EndpointID p \<noteq> e"
  by (auto simp: removeEndpointPortMappings_def no_nil_def map_of_filter_value simp del: map_of_eq_Some_iff
      split: option.splits if_splits)

lemma remove_simps [simp]:
  "dn_Endpoints (removeEndpointPortMappings n e) = dn_Endpoints n"
  "dn_Mode (removeEndpointPortMappings n e) = dn_Mode n"
  "dn_NetNS (removeEndpointPortMappings n e) = dn_NetNS n"
  "dn_PortMap n = [] \<Longrightarrow> dn_PortMap (removeEndpointPortMappings n e) = []"
  by (simp_all add: removeEndpointPortMappings_def)

lemma remove_no_nil: "no_nil (dn_PortMap n) \<Longrightarrow> no_nil (dn_PortMap (removeEndpointPortMappings n e))"
  by (simp add: removeEndpointPortMappings_def no_nil_filter)

lemma set_simps [simp]:
  "dn_Endpoints (setEndpointPortMappings n e m) = dn_Endpoints n"
  "dn_Mode (setEndpointPortMappings n e m) = dn_Mode n"
  "dn_NetNS (setEndpointPortMappings n e m) = dn_NetNS n"
  by (simp_all add: setEndpointPortMappings_def Let_def)

lemma set_no_nil: "no_nil (dn_PortMap n) \<Longrightarrow> no_nil (dn_PortMap (setEndpointPortMappings n e m))"
  by (simp add: setEndpointPortMappings_def Let_def no_nil_fold remove_no_nil)

lemma set_ports:
  assumes "no_nil (dn_PortMap n)"
    and "map_of (dn_PortMap (setEndpointPortMappings n e m)) k = Some (Some p)"
  shows "p \<in> snd ` set m \<or> map_of (dn_PortMap n) k = Some (Some p) \<and> ep_EndpointID p \<noteq> e"
proof -
  have "map_of (rev (map (\<lambda>(k, v). (ProtoPort_String k, Some v)) m)) k = Some (Some p) \<or>
      map_of (dn_PortMap (removeEndpointPortMappings n e)) k = Some (Some p)"
    using assms(2) by (auto simp: setEndpointPortMappings_def Let_def map_of_fold_update split: option.splits)
  then show ?thesis
    using remove_ports [OF assms(1)] by (force dest!: map_of_SomeD)
qed

text \<open>What the removal loop of \<open>createEndpointState\<close> leaves.\<close>

definition evicted :: "string \<Rightarrow> prefix \<Rightarrow> (string \<times> DockerEndpoint option) list \<Rightarrow> string set" where
  "evicted eid pfx es = {k. k \<noteq> eid \<and> (\<exists>e. (k, Some e) \<in> set es \<and> de_IPv4 e = pfx)}"

lemma evict_spec:
  assumes "evict eid pfx es n = Inr n'" "no_nil (dn_PortMap n)"
  shows "map_of (dn_Endpoints n') k = (if k \<in> evicted eid pfx es then None else map_of (dn_Endpoints n) k) \<and>
    (no_nil (dn_Endpoints n) \<longrightarrow> no_nil (dn_Endpoints n')) \<and> no_nil (dn_PortMap n') \<and>
    (map_of (dn_PortMap n') key = Some (Some p) \<longleftrightarrow>
       map_of (dn_PortMap n) key = Some (Some p) \<and> ep_EndpointID p \<notin> evicted eid pfx es) \<and>
    dn_Mode n' = dn_Mode n \<and> dn_NetNS n' = dn_NetNS n \<and> (dn_PortMap n = [] \<longrightarrow> dn_PortMap n' = [])"
  using assms
proof (induction eid pfx es n rule: evict.induct)
  case (1 eid pfx n)
  then show ?case by (simp add: evicted_def)
next
  case (3 eid pfx j existing rest n)
  show ?case
  proof (cases "de_IPv4 existing = pfx \<and> j \<noteq> eid")
    case True
    let ?m = "(removeEndpointPortMappings n j)\<lparr>dn_Endpoints := AList.delete j (dn_Endpoints n)\<rparr>"
    have ev: "evicted eid pfx ((j, Some existing) # rest) = insert j (evicted eid pfx rest)"
      using True by (auto simp: evicted_def)
    have "evict eid pfx rest ?m = Inr n'" using "3.prems"(1) True by simp
    moreover have "no_nil (dn_PortMap ?m)" using "3.prems"(2) by (simp add: remove_no_nil)
    ultimately show ?thesis
      using "3.IH"(1) [OF True] remove_ports [OF "3.prems"(2), of j key p] no_nil_delete
      by (auto simp: ev map_of_delete)
  next
    case False
    then have "evicted eid pfx ((j, Some existing) # rest) = evicted eid pfx rest"
      by (auto simp: evicted_def)
    moreover have "evict eid pfx rest n = Inr n'" using "3.prems"(1) False by (auto split: if_splits)
    ultimately show ?thesis using "3.IH"(2) [OF False _ "3.prems"(2)] by metis
  qed
qed simp

section \<open>Every mutation keeps the shape\<close>

lemma uniq_subset:
  "\<lbrakk>uniq_addrs es; \<And>k e. map_of fs k = Some (Some e) \<Longrightarrow> map_of es k = Some (Some e)\<rbrakk> \<Longrightarrow> uniq_addrs fs"
  unfolding uniq_addrs_def by metis

lemma net_shape_remove: "net_shape n \<Longrightarrow> net_shape (removeEndpointPortMappings n e)"
  by (simp add: net_shape_def remove_no_nil)

lemma net_shape_set: "net_shape n \<Longrightarrow> net_shape (setEndpointPortMappings n e m)"
  by (simp add: net_shape_def set_no_nil)

lemma net_shape_drop: "net_shape n \<Longrightarrow> net_shape (n\<lparr>dn_Endpoints := AList.delete e (dn_Endpoints n)\<rparr>)"
  by (auto simp: net_shape_def no_nil_delete map_of_delete intro: uniq_subset split: if_splits)

lemma find_network_ok: "nets_ok P d \<Longrightarrow> find_network d nid = Inr n \<Longrightarrow> P n"
  using nets_ok_find [of P d nid] by (auto simp: find_network_def split: option.splits)

lemma nets_ok_filter: "nets_ok P d \<Longrightarrow> nets_ok P (d\<lparr>DockerNetworks := filter (\<lambda>(i, _). Q i) (DockerNetworks d)\<rparr>)"
  by (auto simp: nets_ok_def distinct_keys_filter map_of_filter_key simp del: map_of_eq_Some_iff split: if_splits)

lemma nets_ok_delete: "nets_ok P d \<Longrightarrow> nets_ok P (d\<lparr>DockerNetworks := AList.delete i (DockerNetworks d)\<rparr>)"
  by (auto simp: nets_ok_def distinct_delete map_of_delete simp del: map_of_eq_Some_iff)

lemma net_shape_new: "createNetworkRequest_validate req = None \<Longrightarrow> net_shape (dockerNetwork req) \<and> ports_ok (dockerNetwork req)"
  by (auto simp: createNetworkRequest_validate_def dockerNetwork_def net_shape_def ports_ok_def no_nil_def
      uniq_addrs_def split: list.splits if_splits)

text \<open>The network that \<open>createEndpointState\<close> stores.\<close>

lemma create_endpoint_cases:
  assumes "create_endpoint_mutation nid eid pfx dbpm d = Inr d'"
  obtains n ep n1 n3 where "map_of (DockerNetworks d) nid = Some (Some n)"
    "validateNetworkPortMaps (Some n) (length dbpm) = None" "de_IPv4 ep = pfx"
    "n1 = n \<or> n1 = n\<lparr>dn_Endpoints := AList.update eid (Some ep) (dn_Endpoints n)\<rparr>"
    "evict eid pfx (dn_Endpoints n1) (setEndpointPortMappings n1 eid dbpm) = Inr n3"
    "d' = put_network nid (n3\<lparr>dn_Endpoints := AList.update eid (Some ep) (dn_Endpoints n3)\<rparr>) d"
proof -
  from assms obtain network where nw: "map_of (DockerNetworks d) nid = Some network"
    by (cases "map_of (DockerNetworks d) nid") (auto simp: create_endpoint_mutation_def)
  with assms have v: "validateNetworkPortMaps network (length dbpm) = None"
    by (cases "validateNetworkPortMaps network (length dbpm)") (auto simp: create_endpoint_mutation_def)
  with assms nw obtain n where n: "network = Some n"
    by (cases network) (auto simp: create_endpoint_mutation_def)
  define found where "found = map_of (dn_Endpoints n) eid"
  define ep where "ep = endpoint_record eid pfx found"
  define n1 where "n1 = (if found = None then n else n\<lparr>dn_Endpoints := AList.update eid (Some ep) (dn_Endpoints n)\<rparr>)"
  have "found \<noteq> Some None" using assms nw v n by (auto simp: create_endpoint_mutation_def found_def)
  then have *: "(case evict eid pfx (dn_Endpoints (setEndpointPortMappings n1 eid dbpm)) (setEndpointPortMappings n1 eid dbpm) of
        Inl e \<Rightarrow> Inl e
      | Inr n3 \<Rightarrow> Inr (put_network nid (n3\<lparr>dn_Endpoints := AList.update eid (Some ep) (dn_Endpoints n3)\<rparr>) d)) = Inr d'"
    using assms nw v n unfolding n1_def ep_def create_endpoint_mutation_def Let_def
    by (cases found rule: option.exhaust; cases "the found")
      (simp_all only: found_def [symmetric] option.case option.sel if_True if_False option.distinct simp_thms not_None_eq)
  have "de_IPv4 ep = pfx" unfolding ep_def by (cases "(eid, pfx, found)" rule: endpoint_record.cases) simp_all
  moreover obtain n3 where "evict eid pfx (dn_Endpoints n1) (setEndpointPortMappings n1 eid dbpm) = Inr n3"
    "d' = put_network nid (n3\<lparr>dn_Endpoints := AList.update eid (Some ep) (dn_Endpoints n3)\<rparr>) d"
    using * by (auto split: sum.splits)
  ultimately show ?thesis using nw v n by (intro that [of n ep n1 n3]) (auto simp: n1_def)
qed

lemma evicted_lookup:
  assumes "no_nil es"
  shows "k \<in> evicted eid pfx es \<longleftrightarrow> k \<noteq> eid \<and> (\<exists>e. map_of es k = Some (Some e) \<and> de_IPv4 e = pfx)"
  using assms by (auto simp: evicted_def no_nil_def)

lemma create_endpoint_shape:
  assumes n: "net_shape n"
    and ep: "de_IPv4 ep = pfx" "n1 = n \<or> n1 = n\<lparr>dn_Endpoints := AList.update eid (Some ep) (dn_Endpoints n)\<rparr>"
    and e: "evict eid pfx (dn_Endpoints n1) (setEndpointPortMappings n1 eid dbpm) = Inr n3"
  shows "net_shape (n3\<lparr>dn_Endpoints := AList.update eid (Some ep) (dn_Endpoints n3)\<rparr>)"
proof -
  have nn: "no_nil (dn_Endpoints n1)" "no_nil (dn_PortMap n1)" "dn_Mode n1 = dn_Mode n"
    using n ep(2) by (auto simp: net_shape_def no_nil_update)
  have other: "map_of (dn_Endpoints n1) k = map_of (dn_Endpoints n) k" if "k \<noteq> eid" for k
    using ep(2) that by (auto simp: map_of_update)
  note sp = evict_spec [OF e set_no_nil [OF nn(2)]]
  have look: "map_of (dn_Endpoints n3) k = (if k \<in> evicted eid pfx (dn_Endpoints n1) then None else map_of (dn_Endpoints n1) k)"
    for k using sp by simp
  have kept: "map_of (dn_Endpoints n) k = Some (Some x) \<and> de_IPv4 x \<noteq> pfx"
    if h: "k \<noteq> eid" "map_of (dn_Endpoints n3) k = Some (Some x)" for k x
    using look [of k] h other [of k] evicted_lookup [OF nn(1), of k eid pfx] by (auto split: if_splits)
  have "uniq_addrs (AList.update eid (Some ep) (dn_Endpoints n3))"
    unfolding uniq_addrs_def
  proof (intro allI impI)
    fix k x k' x'
    assume h: "map_of (AList.update eid (Some ep) (dn_Endpoints n3)) k = Some (Some x)"
      "map_of (AList.update eid (Some ep) (dn_Endpoints n3)) k' = Some (Some x')" "k \<noteq> k'"
    show "de_IPv4 x \<noteq> de_IPv4 x'"
    proof (cases "k = eid \<or> k' = eid")
      case True
      then show ?thesis using h kept [of k x] kept [of k' x'] ep(1) by (auto simp: map_of_update)
    next
      case False
      then have "map_of (dn_Endpoints n) k = Some (Some x)" "map_of (dn_Endpoints n) k' = Some (Some x')"
        using h kept by (auto simp: map_of_update)
      then show ?thesis using n h(3) unfolding net_shape_def uniq_addrs_def by blast
    qed
  qed
  moreover have "no_nil (dn_Endpoints n3)" "no_nil (dn_PortMap n3)" "dn_Mode n3 = dn_Mode n1"
    using sp nn by auto
  ultimately show ?thesis using n nn(3) by (simp add: net_shape_def no_nil_update)
qed

text \<open>The functions the handlers may hand to the store, in any order.\<close>

inductive dnet_mutation :: "(Data \<Rightarrow> dnet_err + Data) \<Rightarrow> bool" where
  Prune: "dnet_mutation (pruneMissing ids)"
| Leave: "dnet_mutation (leave_mutation nid eid)"
| Join: "endpointPortMap eid pms = Inr dbpm \<Longrightarrow> dnet_mutation (join_mutation nid eid dbpm)"
| DeleteNetwork: "dnet_mutation (delete_mutation st)"
| CreateNetwork: "createNetworkRequest_validate req = None \<Longrightarrow> dnet_mutation (create_network_mutation req)"
| CreateEndpoint: "endpointPortMap eid pms = Inr dbpm \<Longrightarrow>
    dnet_mutation (create_endpoint_mutation nid eid pfx dbpm)"
| Program: "endpointPortMap eid pms = Inr dbpm \<Longrightarrow> dnet_mutation (program_mutation nid eid dbpm)"
| Revoke: "dnet_mutation (revoke_mutation nid eid)"
| DeleteEndpoint: "dnet_mutation (delete_endpoint_mutation nid eid)"

lemmas dnet_mutation_defs =
  pruneMissing_def leave_mutation_def join_mutation_def delete_mutation_def create_network_mutation_def
  program_mutation_def revoke_mutation_def delete_endpoint_mutation_def

lemma dnet_mutation_shape:
  assumes "dnet_mutation f" "nets_ok net_shape d" "f d = Inr d'"
  shows "nets_ok net_shape d' \<and> DataVersion d' = DataVersion d"
  using assms
proof (induction rule: dnet_mutation.induct)
  case (CreateEndpoint eid pms dbpm nid pfx)
  from CreateEndpoint.prems(2) obtain n ep n1 n3 where
    c: "map_of (DockerNetworks d) nid = Some (Some n)" "de_IPv4 ep = pfx"
    "n1 = n \<or> n1 = n\<lparr>dn_Endpoints := AList.update eid (Some ep) (dn_Endpoints n)\<rparr>"
    "evict eid pfx (dn_Endpoints n1) (setEndpointPortMappings n1 eid dbpm) = Inr n3"
    "d' = put_network nid (n3\<lparr>dn_Endpoints := AList.update eid (Some ep) (dn_Endpoints n3)\<rparr>) d"
    by (rule create_endpoint_cases)
  have "net_shape n" using nets_ok_find [OF CreateEndpoint.prems(1) c(1)] by simp
  with c show ?case
    using create_endpoint_shape nets_ok_put [OF CreateEndpoint.prems(1)] by (auto simp: put_network_def)
next
  case (Prune ids)
  then show ?case by (auto simp: pruneMissing_def nets_ok_filter)
next
  case (Leave nid eid)
  then show ?case
    using find_network_ok [OF Leave.prems(1)]
    by (auto simp: leave_mutation_def put_network_def [of _ _ d] nets_ok_put [unfolded put_network_def]
        net_shape_remove net_shape_drop split: sum.splits if_splits)
next
  case (Join eid pms dbpm nid)
  then show ?case
    using nets_ok_at [OF Join.prems(1)]
    by (auto simp: join_mutation_def put_network_def [of _ _ d] nets_ok_put [unfolded put_network_def]
        net_shape_set split: option.splits if_splits)
next
  case (DeleteNetwork st)
  then show ?case by (auto simp: delete_mutation_def nets_ok_delete split: sum.splits if_splits)
next
  case (CreateNetwork req)
  then show ?case
    by (auto simp: create_network_mutation_def nets_ok_put net_shape_new split: if_splits)
      (simp add: put_network_def)
next
  case (Program eid pms dbpm nid)
  then show ?case
    using nets_ok_at [OF Program.prems(1)]
    by (auto simp: program_mutation_def put_network_def [of _ _ d] nets_ok_put [unfolded put_network_def]
        net_shape_set split: option.splits if_splits)
next
  case (Revoke nid eid)
  then show ?case
    using find_network_ok [OF Revoke.prems(1)]
    by (auto simp: revoke_mutation_def put_network_def [of _ _ d] nets_ok_put [unfolded put_network_def]
        net_shape_remove split: sum.splits if_splits)
next
  case (DeleteEndpoint nid eid)
  then show ?case
    using find_network_ok [OF DeleteEndpoint.prems(1)] net_shape_drop [OF net_shape_remove]
    by (auto simp: delete_endpoint_mutation_def put_network_def [of _ _ d] nets_ok_put [unfolded put_network_def]
        split: sum.splits if_splits)
qed

lemma dnet_mutation_keeps: "dnet_mutation f \<Longrightarrow> store.keeps (nets_ok net_shape) f"
  unfolding store.keeps_def current_data_def using dnet_mutation_shape by metis

text \<open>
  C14: whatever handlers run, in whatever order and with whatever failures of the store, no two
  endpoints of a network ever have the same address, no endpoint or port-map entry is nil, and
  every network keeps a supported mode.
\<close>

theorem dnet_history_shape:
  assumes "\<forall>f \<in> set fs. dnet_mutation f"
    and "\<forall>d. store_view s = Some d \<longrightarrow> nets_ok net_shape d"
    and "store_view (fold (commit_step dir) fs s) = Some d"
  shows "nets_ok net_shape d"
proof -
  have "store.holds (nets_ok net_shape) (fold (commit_step dir) fs s)"
    using assms(1,2) dnet_mutation_keeps by (intro store.history_holds) (auto simp: store.holds_def)
  then show ?thesis using assms(3) by (simp add: store.holds_def)
qed

definition example_network :: DockerNetwork where
  "example_network =
     \<lparr>dn_NetworkID = ''n'', dn_NetNS = ''/ns'', dn_Mode = [], dn_IPv4Gateway = no_prefix,
      dn_IPv4Range = no_prefix,
      dn_Endpoints = [(''e1'', Some \<lparr>de_EndpointID = ''e1'', de_IPv4 = v4_prefix 2 24\<rparr>)],
      dn_EndpointAddrs = [],
      dn_PortMap = [(''6/80'', Some \<lparr>ep_EndpointID = ''e1'', ep_Port = 8080\<rparr>)]\<rparr>"

definition example_nets :: Data where
  "example_nets = new_Data\<lparr>DataVersion := CurrentDataVersion, DockerNetworks := [(''n'', Some example_network)]\<rparr>"

lemma example_nets_ok: "nets_ok net_shape example_nets"
  by (auto simp: nets_ok_def example_nets_def example_network_def net_shape_def no_nil_def uniq_addrs_def
      validateDockerNetworkMode_def split: if_splits)

lemma example_nets_view: "store_view (None, quiet_world (Holds example_nets) (\<lambda>_. False)) = Some example_nets"
  by (simp add: store_view_def quiet_world_def latest_view_def migrate_current example_nets_def)

theorem dnet_history_shape_witness:
  "\<exists>d. store_view (fold (commit_step []) [leave_mutation ''n'' ''e1'', pruneMissing []]
        (None, quiet_world (Holds example_nets) (\<lambda>_. False))) = Some d \<and> nets_ok net_shape d"
proof -
  let ?s = "(None, quiet_world (Holds example_nets) (\<lambda>_. False))" and ?fs = "[leave_mutation ''n'' ''e1'', pruneMissing []]"
  have m: "\<forall>f \<in> set ?fs. dnet_mutation f" using dnet_mutation.Leave dnet_mutation.Prune by simp
  then obtain d where d: "store_view (fold (commit_step []) ?fs ?s) = Some d"
    using store.history_readable [where I = "nets_ok net_shape", OF example_nets_view example_nets_ok, of ?fs] dnet_mutation_keeps by metis
  have "\<forall>d. store_view ?s = Some d \<longrightarrow> nets_ok net_shape d" using example_nets_view example_nets_ok by simp
  with dnet_history_shape [OF m this d] d show ?thesis by blast
qed

section \<open>Port maps belong to endpoints\<close>

definition net_full :: "DockerNetwork \<Rightarrow> bool" where
  "net_full n \<longleftrightarrow> net_shape n \<and> ports_ok n"

lemma endpoint_port_loop_ok:
  assumes "endpoint_port_loop eid pms dbpm = Inr out"
    and "\<forall>(k, p) \<in> set dbpm. ep_EndpointID p = eid \<and> (pp_Proto k = 6 \<or> pp_Proto k = 17)" "distinct (map fst dbpm)"
  shows "(\<forall>(k, p) \<in> set out. ep_EndpointID p = eid \<and> (pp_Proto k = 6 \<or> pp_Proto k = 17)) \<and> distinct (map fst out)"
  using assms
proof (induction eid pms dbpm rule: endpoint_port_loop.induct)
  case (2 eid pm pms dbpm)
  let ?d = "AList.update \<lparr>pp_Proto = pm_Proto pm, pp_Port = pm_HostPort pm\<rparr>
              \<lparr>ep_EndpointID = eid, ep_Port = pm_Port pm\<rparr> dbpm"
  have ok: "\<not> (pm_Proto pm \<noteq> 6 \<and> pm_Proto pm \<noteq> 17)"
    "\<not> (pm_HostPortEnd pm \<noteq> 0 \<and> pm_HostPortEnd pm \<noteq> pm_HostPort pm)"
    "endpoint_port_loop eid pms ?d = Inr out"
    using "2.prems"(1) by (auto split: if_splits)
  have "\<forall>(k, p) \<in> set ?d. ep_EndpointID p = eid \<and> (pp_Proto k = 6 \<or> pp_Proto k = 17)"
    using "2.prems"(2,3) ok(1) by (auto simp: set_update_distinct)
  then show ?case using "2.IH" [OF ok] "2.prems"(3) by (simp add: distinct_update)
qed simp

lemma endpointPortMap_ok:
  "endpointPortMap eid pms = Inr out \<Longrightarrow>
   (\<forall>(k, p) \<in> set out. ep_EndpointID p = eid \<and> (pp_Proto k = 6 \<or> pp_Proto k = 17)) \<and> distinct (map fst out)"
  unfolding endpointPortMap_def by (drule endpoint_port_loop_ok) auto

lemma endpointPortMap_endpoint: "endpointPortMap eid pms = Inr out \<Longrightarrow> p \<in> snd ` set out \<Longrightarrow> ep_EndpointID p = eid"
  by (drule endpointPortMap_ok) auto

lemma iso_ports_clear:
  "validateNetworkPortMaps (Some n) (length dbpm) = None \<Longrightarrow> dn_Mode n = dockerNetworkModeISO \<Longrightarrow>
   dbpm = [] \<and> dn_PortMap n = []"
  by (auto simp: validateNetworkPortMaps_def split: option.splits if_splits)

lemma set_empty_ports: "dn_PortMap n = [] \<Longrightarrow> dn_PortMap (setEndpointPortMappings n e []) = []"
  by (simp add: setEndpointPortMappings_def Let_def)

lemma net_full_set:
  assumes "net_full n" "endpointPortMap eid pms = Inr dbpm" "map_of (dn_Endpoints n) eid \<noteq> None"
    and "validateNetworkPortMaps (Some n) (length dbpm) = None"
  shows "net_full (setEndpointPortMappings n eid dbpm)"
proof -
  have nn: "no_nil (dn_PortMap n)" using assms(1) by (simp add: net_full_def net_shape_def)
  have "map_of (dn_Endpoints n) (ep_EndpointID p) \<noteq> None"
    if h: "map_of (dn_PortMap (setEndpointPortMappings n eid dbpm)) k = Some (Some p)" for k p
    using set_ports [OF nn h]
  proof
    assume "p \<in> snd ` set dbpm"
    then have "ep_EndpointID p = eid" by (rule endpointPortMap_endpoint [OF assms(2)])
    then show ?thesis using assms(3) by simp
  next
    assume "map_of (dn_PortMap n) k = Some (Some p) \<and> ep_EndpointID p \<noteq> eid"
    then show ?thesis using assms(1) unfolding net_full_def ports_ok_def by blast
  qed
  moreover have "dn_Mode n = dockerNetworkModeISO \<Longrightarrow> dn_PortMap (setEndpointPortMappings n eid dbpm) = []"
    using iso_ports_clear [OF assms(4)] set_empty_ports by auto
  ultimately show ?thesis
    using assms(1) net_shape_set by (auto simp: net_full_def ports_ok_def)
qed

lemma net_full_remove: "net_full n \<Longrightarrow> net_full (removeEndpointPortMappings n e)"
  by (auto simp: net_full_def net_shape_remove ports_ok_def remove_ports net_shape_def [of n])

lemma net_full_drop:
  "net_full n \<Longrightarrow> net_full ((removeEndpointPortMappings n e)\<lparr>dn_Endpoints := AList.delete e (dn_Endpoints n)\<rparr>)"
  using net_shape_drop [OF net_shape_remove, of n e]
  by (auto simp: net_full_def ports_ok_def remove_ports map_of_delete net_shape_def [of n])

lemma remove_drop_commute:
  "removeEndpointPortMappings (n\<lparr>dn_Endpoints := es\<rparr>) e = (removeEndpointPortMappings n e)\<lparr>dn_Endpoints := es\<rparr>"
  by (simp add: removeEndpointPortMappings_def)

lemma net_full_create_endpoint:
  assumes n: "net_full n" and pm: "endpointPortMap eid pms = Inr dbpm"
    and v: "validateNetworkPortMaps (Some n) (length dbpm) = None"
    and ep: "de_IPv4 ep = pfx" "n1 = n \<or> n1 = n\<lparr>dn_Endpoints := AList.update eid (Some ep) (dn_Endpoints n)\<rparr>"
    and e: "evict eid pfx (dn_Endpoints n1) (setEndpointPortMappings n1 eid dbpm) = Inr n3"
  shows "net_full (n3\<lparr>dn_Endpoints := AList.update eid (Some ep) (dn_Endpoints n3)\<rparr>)"
proof -
  have same: "dn_PortMap n1 = dn_PortMap n" "dn_Mode n1 = dn_Mode n" using ep(2) by auto
  have nn: "no_nil (dn_PortMap n1)" using n same by (simp add: net_full_def net_shape_def)
  note sp = evict_spec [OF e set_no_nil [OF nn]]
  have "map_of (AList.update eid (Some ep) (dn_Endpoints n3)) (ep_EndpointID p) \<noteq> None"
    if h: "map_of (dn_PortMap n3) k = Some (Some p)" for k p
  proof (cases "ep_EndpointID p = eid")
    case False
    have k: "map_of (dn_PortMap (setEndpointPortMappings n1 eid dbpm)) k = Some (Some p)"
      "ep_EndpointID p \<notin> evicted eid pfx (dn_Endpoints n1)" using sp h by blast+
    have "p \<notin> snd ` set dbpm" using endpointPortMap_endpoint [OF pm] False by blast
    then have "map_of (dn_PortMap n) k = Some (Some p)" using set_ports [OF nn k(1)] same by simp
    then have "map_of (dn_Endpoints n) (ep_EndpointID p) \<noteq> None"
      using n unfolding net_full_def ports_ok_def by blast
    then have "map_of (dn_Endpoints n1) (ep_EndpointID p) \<noteq> None"
      using ep(2) by (auto simp: map_of_update)
    then have "map_of (dn_Endpoints n3) (ep_EndpointID p) \<noteq> None"
      using sp k(2) by simp
    then show ?thesis by (simp add: map_of_update)
  qed (simp add: map_of_update)
  moreover have "dn_PortMap n3 = []" if "dn_Mode n3 = dockerNetworkModeISO"
  proof -
    have "dn_Mode n = dockerNetworkModeISO" using that sp same by simp
    then have "dbpm = []" "dn_PortMap n1 = []" using iso_ports_clear [OF v] same by auto
    then have "dn_PortMap (setEndpointPortMappings n1 eid dbpm) = []" by (simp add: set_empty_ports)
    then show ?thesis using sp by simp
  qed
  moreover have "net_shape (n3\<lparr>dn_Endpoints := AList.update eid (Some ep) (dn_Endpoints n3)\<rparr>)"
    using n create_endpoint_shape [OF _ ep e] by (simp add: net_full_def)
  ultimately show ?thesis by (simp add: net_full_def ports_ok_def)
qed

text \<open>
  The two halves of a join as one step: the checks of \<open>joinNetworkState\<close> on the data the
  mutation then changes. This is what happens when no other handler runs in between.
\<close>

definition join_check :: "string \<Rightarrow> string \<Rightarrow> nat \<Rightarrow> Data \<Rightarrow> dnet_err + DockerNetwork" where
  "join_check nid eid incoming dv =
     (case find_network dv nid of
        Inl e \<Rightarrow> Inl e
      | Inr n \<Rightarrow>
          if map_of (dn_Endpoints n) eid = None then Inl EndpointNotFound
          else (case validateNetworkPortMaps (Some n) incoming of Some e \<Rightarrow> Inl e | None \<Rightarrow> Inr n))"

definition join_serial :: "string \<Rightarrow> string \<Rightarrow> (ProtoPort \<times> EndpointPort) list \<Rightarrow> Data \<Rightarrow> dnet_err + Data" where
  "join_serial nid eid dbpm d =
     (case join_check nid eid (length dbpm) d of Inl e \<Rightarrow> Inl e | Inr _ \<Rightarrow> join_mutation nid eid dbpm d)"

inductive serial_mutation :: "(Data \<Rightarrow> dnet_err + Data) \<Rightarrow> bool" where
  Serial: "dnet_mutation f \<Longrightarrow> \<forall>nid eid dbpm. f \<noteq> join_mutation nid eid dbpm \<Longrightarrow> serial_mutation f"
| SerialJoin: "endpointPortMap eid pms = Inr dbpm \<Longrightarrow> serial_mutation (join_serial nid eid dbpm)"

lemma put_version [simp]: "DataVersion (put_network nid n d) = DataVersion d"
  by (simp add: put_network_def)

lemma dnet_mutation_full:
  assumes "dnet_mutation f" "\<forall>nid eid dbpm. f \<noteq> join_mutation nid eid dbpm" "nets_ok net_full d" "f d = Inr d'"
  shows "nets_ok net_full d' \<and> DataVersion d' = DataVersion d"
  using assms
proof (induction rule: dnet_mutation.induct)
  case (CreateEndpoint eid pms dbpm nid pfx)
  from CreateEndpoint.prems(3) obtain n ep n1 n3 where
    c: "map_of (DockerNetworks d) nid = Some (Some n)"
    "validateNetworkPortMaps (Some n) (length dbpm) = None" "de_IPv4 ep = pfx"
    "n1 = n \<or> n1 = n\<lparr>dn_Endpoints := AList.update eid (Some ep) (dn_Endpoints n)\<rparr>"
    "evict eid pfx (dn_Endpoints n1) (setEndpointPortMappings n1 eid dbpm) = Inr n3"
    "d' = put_network nid (n3\<lparr>dn_Endpoints := AList.update eid (Some ep) (dn_Endpoints n3)\<rparr>) d"
    by (rule create_endpoint_cases)
  have "net_full n" using nets_ok_at [OF CreateEndpoint.prems(2) c(1)] .
  from net_full_create_endpoint [OF this CreateEndpoint.hyps c(2-5)] show ?case
    using nets_ok_put [OF CreateEndpoint.prems(2)] by (simp add: c(6))
next
  case (Leave nid eid)
  then obtain n where n: "find_network d nid = Inr n"
    "d' = put_network nid (removeEndpointPortMappings (n\<lparr>dn_Endpoints := AList.delete eid (dn_Endpoints n)\<rparr>) eid) d"
    by (auto simp: leave_mutation_def split: sum.splits if_splits)
  have "net_full n" using find_network_ok [OF Leave.prems(2) n(1)] .
  then show ?case using nets_ok_put [OF Leave.prems(2)] net_full_drop by (simp add: n(2) remove_drop_commute)
next
  case (Program eid pms dbpm nid)
  then obtain n where n: "map_of (DockerNetworks d) nid = Some (Some n)"
    "validateNetworkPortMaps (Some n) (length dbpm) = None" "map_of (dn_Endpoints n) eid \<noteq> None"
    "d' = put_network nid (setEndpointPortMappings n eid dbpm) d"
    by (auto simp: program_mutation_def split: option.splits if_splits)
  have "net_full n" using nets_ok_at [OF Program.prems(2) n(1)] .
  then show ?case
    using nets_ok_put [OF Program.prems(2)] net_full_set [OF _ Program.hyps n(3,2)] by (simp add: n(4))
next
  case (Revoke nid eid)
  then show ?case
    using find_network_ok [OF Revoke.prems(2)] nets_ok_put [OF Revoke.prems(2)] net_full_remove
    by (auto simp: revoke_mutation_def split: sum.splits if_splits)
next
  case (DeleteEndpoint nid eid)
  then obtain n where n: "find_network d nid = Inr n"
    "d' = put_network nid ((removeEndpointPortMappings n eid)\<lparr>dn_Endpoints := AList.delete eid (dn_Endpoints n)\<rparr>) d"
    by (auto simp: delete_endpoint_mutation_def split: sum.splits)
  have "net_full n" using find_network_ok [OF DeleteEndpoint.prems(2) n(1)] .
  then show ?case using nets_ok_put [OF DeleteEndpoint.prems(2)] net_full_drop by (simp add: n(2))
next
  case (CreateNetwork req)
  then show ?case using nets_ok_put net_shape_new
    by (auto simp: create_network_mutation_def net_full_def split: if_splits)
qed (auto simp: pruneMissing_def delete_mutation_def nets_ok_filter nets_ok_delete split: sum.splits if_splits)

lemma join_serial_full:
  assumes "endpointPortMap eid pms = Inr dbpm" "nets_ok net_full d" "join_serial nid eid dbpm d = Inr d'"
  shows "nets_ok net_full d' \<and> DataVersion d' = DataVersion d"
proof -
  obtain n where n: "map_of (DockerNetworks d) nid = Some (Some n)" "map_of (dn_Endpoints n) eid \<noteq> None"
    "validateNetworkPortMaps (Some n) (length dbpm) = None"
    "d' = put_network nid (setEndpointPortMappings n eid dbpm) d"
    using assms(3)
    by (auto simp: join_serial_def join_check_def find_network_def join_mutation_def
        split: sum.splits option.splits if_splits)
  have "net_full n" using nets_ok_at [OF assms(2) n(1)] .
  then show ?thesis using nets_ok_put [OF assms(2)] net_full_set [OF _ assms(1) n(2,3)] by (simp add: n(4))
qed

lemma serial_mutation_keeps:
  assumes "serial_mutation f"
  shows "store.keeps (nets_ok net_full) f"
  using assms
proof cases
  case Serial
  then show ?thesis unfolding store.keeps_def current_data_def using dnet_mutation_full by metis
next
  case (SerialJoin eid pms dbpm nid)
  then show ?thesis unfolding store.keeps_def current_data_def using join_serial_full by metis
qed

text \<open>
  C15: when joins are not interleaved with other handlers, in every history every port-map
  entry belongs to an endpoint of its network and no ISO network has a port map, so the check
  made at start-up over the persisted networks passes.
\<close>

theorem dnet_serial_ports:
  assumes "\<forall>f \<in> set fs. serial_mutation f"
    and "\<forall>d. store_view s = Some d \<longrightarrow> nets_ok net_full d"
    and "store_view (fold (commit_step dir) fs s) = Some d"
  shows "nets_ok net_full d \<and> validatePersistedDockerNetworkModes (Some d) = None"
proof -
  have "store.holds (nets_ok net_full) (fold (commit_step dir) fs s)"
    using assms(1,2) serial_mutation_keeps by (intro store.history_holds) (auto simp: store.holds_def)
  then have ok: "nets_ok net_full d" using assms(3) by (simp add: store.holds_def)
  have "network_error nid (case map_of (DockerNetworks d) nid of None \<Rightarrow> None | Some n \<Rightarrow> n) = None" for nid
  proof (cases "map_of (DockerNetworks d) nid")
    case (Some n)
    then obtain m where "n = Some m" "net_full m" using nets_ok_find [OF ok] by blast
    then show ?thesis using Some
      by (auto simp: network_error_def net_full_def net_shape_def ports_ok_def)
  qed (simp add: network_error_def)
  then have "validatePersistedDockerNetworkModes (Some d) = None"
    by (simp add: validatePersistedDockerNetworkModes_def List.map_filter_def)
  with ok show ?thesis by blast
qed

lemma example_nets_full: "nets_ok net_full example_nets"
  using example_nets_ok
  by (auto simp: nets_ok_def example_nets_def net_full_def ports_ok_def example_network_def
      dockerNetworkModeISO_def split: if_splits)

lemma leave_not_join: "leave_mutation nid eid \<noteq> join_mutation nid' eid' dbpm"
proof
  assume h: "leave_mutation nid eid = join_mutation nid' eid' dbpm"
  have "leave_mutation nid eid new_Data = Inl NetworkNotFound"
    by (simp add: leave_mutation_def find_network_def new_Data_def)
  moreover have "join_mutation nid' eid' dbpm new_Data \<noteq> Inl NetworkNotFound"
    by (simp add: join_mutation_def new_Data_def)
  ultimately show False using h by simp
qed

theorem dnet_serial_ports_witness:
  "\<exists>d. store_view (fold (commit_step []) [leave_mutation ''n'' ''e1'', join_serial ''n'' ''e1'' []]
        (None, quiet_world (Holds example_nets) (\<lambda>_. False))) = Some d \<and>
      validatePersistedDockerNetworkModes (Some d) = None"
proof -
  let ?s = "(None, quiet_world (Holds example_nets) (\<lambda>_. False))"
    and ?fs = "[leave_mutation ''n'' ''e1'', join_serial ''n'' ''e1'' []]"
  have "serial_mutation (leave_mutation ''n'' ''e1'')"
    using serial_mutation.Serial dnet_mutation.Leave leave_not_join by blast
  moreover have "serial_mutation (join_serial ''n'' ''e1'' [])"
    by (rule serial_mutation.SerialJoin [of _ "[]"]) (simp add: endpointPortMap_def)
  ultimately have m: "\<forall>f \<in> set ?fs. serial_mutation f" by simp
  then obtain d where d: "store_view (fold (commit_step []) ?fs ?s) = Some d"
    using store.history_readable [where I = "nets_ok net_full", OF example_nets_view example_nets_full, of ?fs] serial_mutation_keeps by metis
  have "\<forall>d. store_view ?s = Some d \<longrightarrow> nets_ok net_full d" using example_nets_view example_nets_full by simp
  with dnet_serial_ports [OF m this d] d show ?thesis by blast
qed


section \<open>From a request to the rules\<close>

lemma keys_int64: "pp_Proto k = 6 \<or> pp_Proto k = 17 \<Longrightarrow> in_int64 (pp_Proto k)"
  by (auto simp: in_int64_def min_int64_def max_int64_def)

lemma set_ports_exact:
  assumes "no_nil (dn_PortMap n)" "endpointPortMap eid pms = Inr dbpm"
  shows "map_of (dn_PortMap (setEndpointPortMappings n eid dbpm)) key = Some (Some p) \<and> ep_EndpointID p = eid \<longleftrightarrow>
    (\<exists>k. (k, p) \<in> set dbpm \<and> key = ProtoPort_String k)"
proof -
  note pm = endpointPortMap_ok [OF assms(2)]
  let ?al = "rev (map (\<lambda>(k, v). (ProtoPort_String k, Some v)) dbpm)"
  have inj: "inj_on ProtoPort_String (fst ` set dbpm)"
    using pm by (intro inj_onI) (force dest!: ProtoPort_String_inj [rotated 2] intro: keys_int64)
  have "distinct (map ProtoPort_String (map fst dbpm))"
    using pm inj by (simp add: distinct_map del: map_map)
  moreover have "map fst ?al = rev (map ProtoPort_String (map fst dbpm))"
    by (simp add: rev_map case_prod_beta comp_def)
  ultimately have d: "distinct (map fst ?al)" by simp
  then have al: "map_of ?al key = Some (Some p) \<longleftrightarrow> (\<exists>k. (k, p) \<in> set dbpm \<and> key = ProtoPort_String k)"
    by (force simp: image_iff)
  have vals: "v \<noteq> None" if "map_of ?al key = Some v" for v
    using map_of_SomeD [OF that] by auto
  have look: "map_of (dn_PortMap (setEndpointPortMappings n eid dbpm)) key =
      (case map_of ?al key of Some v \<Rightarrow> Some v | None \<Rightarrow> map_of (dn_PortMap (removeEndpointPortMappings n eid)) key)"
    by (simp add: setEndpointPortMappings_def Let_def map_of_fold_update)
  have own: "ep_EndpointID p = eid" if "(k, p) \<in> set dbpm" for k
    using pm that by auto
  show ?thesis
    using al look remove_ports [OF assms(1), of eid key p] own
    by (cases "map_of ?al key") auto
qed

text \<open>
  What Docker asks for is what is forwarded: after \<open>ProgramExternalConnectivity\<close> accepted
  a port list, the port map holds exactly the requested entries of the endpoint, and if the
  network is not an ISO one every one of them is a rule of its namespace that forwards the
  host port to the address of the endpoint.
\<close>

theorem program_forwards:
  assumes "nets_ok net_shape d" "endpointPortMap eid pms = Inr dbpm" "program_mutation nid eid dbpm d = Inr d'"
  shows "\<exists>n n' ep. map_of (DockerNetworks d) nid = Some (Some n) \<and>
    map_of (DockerNetworks d') nid = Some (Some n') \<and> map_of (dn_Endpoints n) eid = Some (Some ep) \<and>
    (\<forall>key p. map_of (dn_PortMap n') key = Some (Some p) \<and> ep_EndpointID p = eid \<longleftrightarrow>
       (\<exists>k. (k, p) \<in> set dbpm \<and> key = ProtoPort_String k)) \<and>
    (dn_Mode n \<noteq> dockerNetworkModeISO \<and> dn_NetNS n \<noteq> [] \<longrightarrow>
      (\<forall>(k, p) \<in> set dbpm.
        \<lparr>pf_Proto = protoName (pp_Proto k), HostPort = pp_Port k,
         TargetIP = addr_string (p_addr (de_IPv4 ep)), TargetPort = ep_Port p\<rparr>
        \<in> set (desiredPortForwardsForNetNS (Some d') (dn_NetNS n))))"
proof -
  obtain n where n: "map_of (DockerNetworks d) nid = Some (Some n)" "map_of (dn_Endpoints n) eid \<noteq> None"
    "d' = put_network nid (setEndpointPortMappings n eid dbpm) d"
    using assms(3) by (auto simp: program_mutation_def split: option.splits if_splits)
  let ?n = "setEndpointPortMappings n eid dbpm"
  have sh: "net_shape n" using nets_ok_at [OF assms(1) n(1)] .
  then have nn: "no_nil (dn_PortMap n)" "no_nil (dn_Endpoints n)" by (simp_all add: net_shape_def)
  then obtain ep where ep: "map_of (dn_Endpoints n) eid = Some (Some ep)"
    using n(2) unfolding no_nil_def by (metis not_None_eq)
  have d': "map_of (DockerNetworks d') nid = Some (Some ?n)" by (simp add: n(3) put_network_def map_of_update)
  have "\<lparr>pf_Proto = protoName (pp_Proto k), HostPort = pp_Port k,
         TargetIP = addr_string (p_addr (de_IPv4 ep)), TargetPort = ep_Port p\<rparr>
        \<in> set (desiredPortForwardsForNetNS (Some d') (dn_NetNS n))"
    if h: "dn_Mode n \<noteq> dockerNetworkModeISO" "dn_NetNS n \<noteq> []" "(k, p) \<in> set dbpm" for k p
  proof -
    have kp: "pp_Proto k = 6 \<or> pp_Proto k = 17" "ep_EndpointID p = eid"
      using endpointPortMap_ok [OF assms(2)] h(3) by auto
    have "map_of (dn_PortMap ?n) (ProtoPort_String k) = Some (Some p)"
      using set_ports_exact [OF nn(1) assms(2)] h(3) by blast
    then have "(ProtoPort_String k, Some p) \<in> set (dn_PortMap ?n)" by (rule map_of_SomeD)
    moreover have "port_rule ?n (ProtoPort_String k, Some p) =
        Some \<lparr>pf_Proto = protoName (pp_Proto k), HostPort = pp_Port k,
         TargetIP = addr_string (p_addr (de_IPv4 ep)), TargetPort = ep_Port p\<rparr>"
      using kp ep ProtoPort_Parse_String [OF keys_int64 [OF kp(1)]]
      by (auto simp: port_rule_def protoName_def)
    moreover have "(nid, Some ?n) \<in> set (DockerNetworks d')" using d' by (rule map_of_SomeD)
    moreover have "dn_NetNS ?n = dn_NetNS n" "dn_Mode ?n = dn_Mode n"
      by (simp_all add: setEndpointPortMappings_def Let_def removeEndpointPortMappings_def)
    ultimately show ?thesis
      unfolding set_desiredForNetNS if_not_P [OF h(2)] mem_Collect_eq using h(1) by metis
  qed
  then show ?thesis using n(1) d' ep set_ports_exact [OF nn(1) assms(2)] by blast
qed

theorem program_forwards_witness:
  "\<exists>d'. program_mutation ''n'' ''e1'' [(\<lparr>pp_Proto = 6, pp_Port = 80\<rparr>, \<lparr>ep_EndpointID = ''e1'', ep_Port = 8080\<rparr>)]
      example_nets = Inr d' \<and>
    \<lparr>pf_Proto = ''tcp'', HostPort = 80, TargetIP = v4_string 2, TargetPort = 8080\<rparr>
      \<in> set (desiredPortForwardsForNetNS (Some d') ''/ns'')"
proof -
  let ?pm = "\<lparr>pm_Proto = 6, pm_IP = [], pm_Port = 8080, pm_HostIP = [], pm_HostPort = 80, pm_HostPortEnd = 0\<rparr>"
  let ?k = "\<lparr>pp_Proto = 6, pp_Port = 80\<rparr>" and ?p = "\<lparr>ep_EndpointID = ''e1'', ep_Port = 8080\<rparr>"
  have pm: "endpointPortMap ''e1'' [?pm] = Inr [(?k, ?p)]" by (simp add: endpointPortMap_def)
  obtain d' where d': "program_mutation ''n'' ''e1'' [(?k, ?p)] example_nets = Inr d'"
    by (simp add: program_mutation_def example_nets_def example_network_def validateNetworkPortMaps_def
        find_network_def validateDockerNetworkMode_def dockerNetworkModeISO_def)
  then show ?thesis
    using program_forwards [OF example_nets_ok pm d']
    by (auto simp: example_nets_def example_network_def dockerNetworkModeISO_def protoName_def)
qed

end
