(* ===== verification/Dnet_Nat.thy ===== *)
theory Dnet_Nat
  imports Dnet
begin

text \<open>
  The Docker network plugin, its effects (\<^verbatim>\<open>src/pkg/dnet/dnet.go\<close>): the iptables and ip
  commands it runs, in which network namespace, and the HTTP handlers that compose them with
  the mutations of theory \<open>Dnet\<close> and the store of theory \<open>Db_Store\<close>.

  The kernel is a parameter \<open>'k kernel\<close>: \<open>exec\<close> runs a command in a namespace (\<open>None\<close> is the
  host's) and returns its standard output, or \<open>None\<close> when it fails; the other fields say
  whether the calls that enter a namespace succeed. \<open>iptables_spec\<close> is the documented
  behaviour of iptables on the nat table that the main theorems rely on; \<open>table_kernel\<close> is a
  concrete table that has it. The semaphore that serialises work in one namespace and the
  logging are not modelled; a decoded request is the argument of a handler and \<open>None\<close> is a
  body that is not JSON.

  The lemmas show that a successful sync leaves exactly the wanted rules in the managed
  chains, touches no other namespace, and that a handler which answers 200 leaves the chains
  in agreement with the data in the file.
\<close>

section \<open>Commands\<close>

record 'k kernel =
  exec :: "string option \<Rightarrow> string \<Rightarrow> string list \<Rightarrow> 'k \<Rightarrow> string option \<times> 'k"
  open_netns :: "string \<Rightarrow> 'k \<Rightarrow> bool"
  get_netns :: "'k \<Rightarrow> bool"
  set_netns :: "string \<Rightarrow> 'k \<Rightarrow> bool"
  restore_netns :: "'k \<Rightarrow> bool"
  stat_netns :: "string \<Rightarrow> 'k \<Rightarrow> bool option"

datatype nat_err =
    CommandFailed string "string list"
  | NetnsFailed string
  | UnexpectedRule string
  | Ctx string nat_err
  | Errs "nat_err list"
  | FromStore "dnet_err db_err"
  | FromPlugin dnet_err

type_synonym 'k act = "'k \<Rightarrow> nat_err option \<times> 'k"
type_synonym 'k commandRunner = "string \<Rightarrow> string list \<Rightarrow> 'k act"

definition withCommandDefaults :: "string \<Rightarrow> string list \<Rightarrow> string list" where
  "withCommandDefaults name args =
     (if name \<noteq> ''iptables'' then args
      else if list_ex (\<lambda>a. a = ''-w'' \<or> a = ''--wait'') args then args
      else ''-w'' # args)"

definition runCmd :: "'k kernel \<Rightarrow> string option \<Rightarrow> 'k commandRunner" where
  "runCmd K ns name args k =
     (case exec K ns name (withCommandDefaults name args) k of
        (None, k1) \<Rightarrow> (Some (CommandFailed name (withCommandDefaults name args)), k1)
      | (Some _, k1) \<Rightarrow> (None, k1))"

definition postroutingChainName :: string where "postroutingChainName = ''YEET_POSTROUTING''"
definition preroutingChainName :: string where "preroutingChainName = ''YEET_PREROUTING''"
definition outputChainName :: string where "outputChainName = ''YEET_OUTPUT''"

text \<open>Sequencing: stop at the first error.\<close>

definition and_then :: "'k act \<Rightarrow> 'k act \<Rightarrow> 'k act" where
  "and_then a b k = (case a k of (Some e, k1) \<Rightarrow> (Some e, k1) | (None, k1) \<Rightarrow> b k1)"

definition or_else :: "'k act \<Rightarrow> 'k act \<Rightarrow> 'k act" where
  "or_else a b k = (case a k of (Some e, k1) \<Rightarrow> b k1 | (None, k1) \<Rightarrow> (None, k1))"

definition in_context :: "string \<Rightarrow> 'k act \<Rightarrow> 'k act" where
  "in_context c a k = (case a k of (e, k1) \<Rightarrow> (map_option (Ctx c) e, k1))"

fun all_of :: "'k act list \<Rightarrow> 'k act" where
  "all_of [] k = (None, k)"
| "all_of (a # as) k = and_then a (all_of as) k"

definition ensurePreroutingChain :: "'k kernel \<Rightarrow> string option \<Rightarrow> 'k act" where
  "ensurePreroutingChain K ns =
     and_then
       (or_else (runCmd K ns ''iptables'' [''-t'', ''nat'', ''-L'', preroutingChainName])
                (runCmd K ns ''iptables'' [''-t'', ''nat'', ''-N'', preroutingChainName]))
       (or_else (runCmd K ns ''iptables'' [''-t'', ''nat'', ''-C'', ''PREROUTING'', ''-j'', preroutingChainName])
                (runCmd K ns ''iptables'' [''-t'', ''nat'', ''-A'', ''PREROUTING'', ''-j'', preroutingChainName]))"

definition ensureOutputChain :: "'k kernel \<Rightarrow> string option \<Rightarrow> 'k act" where
  "ensureOutputChain K ns =
     and_then
       (or_else (runCmd K ns ''iptables'' [''-t'', ''nat'', ''-L'', outputChainName])
                (runCmd K ns ''iptables'' [''-t'', ''nat'', ''-N'', outputChainName]))
       (or_else
         (runCmd K ns ''iptables'' [''-t'', ''nat'', ''-C'', ''OUTPUT'', ''-o'', ''lo'', ''-j'', outputChainName])
         (runCmd K ns ''iptables'' [''-t'', ''nat'', ''-A'', ''OUTPUT'', ''-o'', ''lo'', ''-j'', outputChainName]))"

record natEnsureRule =
  checkChain :: string
  addMode :: string
  addChain :: string
  ner_args :: "string list"

definition ensureNatChain :: "'k commandRunner \<Rightarrow> string \<Rightarrow> 'k act" where
  "ensureNatChain run chain =
     or_else (run ''iptables'' [''-t'', ''nat'', ''-L'', chain]) (run ''iptables'' [''-t'', ''nat'', ''-N'', chain])"

definition ensureNatRule :: "'k commandRunner \<Rightarrow> natEnsureRule \<Rightarrow> 'k act" where
  "ensureNatRule run rule =
     or_else (run ''iptables'' ([''-t'', ''nat'', ''-C'', checkChain rule] @ ner_args rule))
       (run ''iptables'' ([''-t'', ''nat'', addMode rule, addChain rule] @ ner_args rule))"

definition postrouting_rules :: "natEnsureRule list" where
  "postrouting_rules =
     [\<lparr>checkChain = ''POSTROUTING'', addMode = ''-A'', addChain = ''POSTROUTING'',
       ner_args = [''-j'', postroutingChainName]\<rparr>,
      \<lparr>checkChain = postroutingChainName, addMode = ''-I'', addChain = postroutingChainName,
       ner_args = [''-m'', ''addrtype'', ''!'', ''--src-type'', ''LOCAL'', ''-o'', ''br0'', ''-j'', ''RETURN'']\<rparr>,
      \<lparr>checkChain = postroutingChainName, addMode = ''-A'', addChain = postroutingChainName,
       ner_args = [''-j'', ''MASQUERADE'']\<rparr>]"

definition ensurePostroutingChainWithRunner :: "'k commandRunner \<Rightarrow> 'k act" where
  "ensurePostroutingChainWithRunner run =
     and_then (ensureNatChain run postroutingChainName) (all_of (map (ensureNatRule run) postrouting_rules))"

section \<open>The nat table\<close>

record 'k natRuleBackend =
  ListChain :: "string \<Rightarrow> 'k \<Rightarrow> (nat_err + string list) \<times> 'k"
  FlushChain :: "string \<Rightarrow> 'k act"
  AppendRule :: "string \<Rightarrow> string list \<Rightarrow> 'k act"
  DeleteRule :: "string \<Rightarrow> string list \<Rightarrow> 'k act"
  EnsureChains :: "'k act"

definition splitNonEmptyLines :: "string \<Rightarrow> string list" where
  "splitNonEmptyLines output = filter (\<lambda>l. l \<noteq> []) (map TrimSpace (Split output (CHR 0x0A)))"

definition iptables_ListChain :: "'k kernel \<Rightarrow> string option \<Rightarrow> string \<Rightarrow> 'k \<Rightarrow> (nat_err + string list) \<times> 'k" where
  "iptables_ListChain K ns chain k =
     (let args = withCommandDefaults ''iptables'' [''-t'', ''nat'', ''-S'', chain] in
      case exec K ns ''iptables'' args k of
        (None, k1) \<Rightarrow> (Inl (Ctx ''list chain'' (CommandFailed ''iptables'' args)), k1)
      | (Some output, k1) \<Rightarrow> (Inr (splitNonEmptyLines output), k1))"

definition iptablesBackend :: "'k kernel \<Rightarrow> string option \<Rightarrow> 'k natRuleBackend" where
  "iptablesBackend K ns =
     \<lparr>ListChain = iptables_ListChain K ns,
      FlushChain = (\<lambda>chain. runCmd K ns ''iptables'' [''-t'', ''nat'', ''-F'', chain]),
      AppendRule = (\<lambda>chain rule. runCmd K ns ''iptables'' ([''-t'', ''nat'', ''-A'', chain] @ rule)),
      DeleteRule = (\<lambda>chain rule. runCmd K ns ''iptables'' ([''-t'', ''nat'', ''-D'', chain] @ rule)),
      EnsureChains = and_then (ensurePreroutingChain K ns) (ensureOutputChain K ns)\<rparr>"

text \<open>\<^verbatim>\<open>net.JoinHostPort\<close> brackets a host that has a colon.\<close>

definition JoinHostPort :: "string \<Rightarrow> string \<Rightarrow> string" where
  "JoinHostPort host port =
     (if CHR '':'' \<in> set host then ''['' @ host @ '']:'' @ port else host @ '':'' @ port)"

definition dnatRuleArgs :: "portForwardRule \<Rightarrow> string list" where
  "dnatRuleArgs rule =
     [''-p'', pf_Proto rule, ''-m'', pf_Proto rule, ''--dport'', Itoa (uint (HostPort rule)), ''-j'', ''DNAT'',
      ''--to-destination'', JoinHostPort (TargetIP rule) (Itoa (uint (TargetPort rule)))]"

text \<open>The loop looks at neighbouring fields from the third on.\<close>

fun has_option :: "string \<Rightarrow> string \<Rightarrow> string list \<Rightarrow> bool" where
  "has_option opt val (a # b # fs) = (a = opt \<and> b = val \<or> has_option opt val (b # fs))"
| "has_option opt val _ = False"

definition legacy_fields :: "string list \<Rightarrow> bool" where
  "legacy_fields fs =
     (case fs of
        a # c # rest \<Rightarrow>
          rest \<noteq> [] \<and> a = ''-A'' \<and> c = ''OUTPUT'' \<and>
          has_option ''-o'' ''lo'' rest \<and> has_option ''-j'' ''DNAT'' rest
      | _ \<Rightarrow> False)"

definition isLegacyDirectOutputRule :: "string \<Rightarrow> bool" where
  "isLegacyDirectOutputRule rule = legacy_fields (Fields rule)"

definition chainRuleArgs :: "string \<Rightarrow> string \<Rightarrow> nat_err + string list" where
  "chainRuleArgs rule chain =
     (case Fields rule of
        a # c # x # rest \<Rightarrow> if a = ''-A'' \<and> c = chain then Inr (x # rest) else Inl (UnexpectedRule rule)
      | _ \<Rightarrow> Inl (UnexpectedRule rule))"

fun delete_legacy :: "'k natRuleBackend \<Rightarrow> string list \<Rightarrow> 'k act" where
  "delete_legacy backend [] k = (None, k)"
| "delete_legacy backend (rule # rules) k =
     (if \<not> isLegacyDirectOutputRule rule then delete_legacy backend rules k
      else case chainRuleArgs rule ''OUTPUT'' of
             Inl e \<Rightarrow> (Some (Ctx ''parse legacy output rule'' e), k)
           | Inr args \<Rightarrow>
               and_then (in_context ''delete legacy output rule'' (DeleteRule backend ''OUTPUT'' args))
                 (delete_legacy backend rules) k)"

definition deleteLegacyDirectOutputRules :: "'k natRuleBackend \<Rightarrow> 'k act" where
  "deleteLegacyDirectOutputRules backend k =
     (case ListChain backend ''OUTPUT'' k of
        (Inl e, k1) \<Rightarrow> (Some (Ctx ''list output rules'' e), k1)
      | (Inr outputRules, k1) \<Rightarrow> delete_legacy backend outputRules k1)"

definition append_rule_pair :: "'k natRuleBackend \<Rightarrow> portForwardRule \<Rightarrow> 'k act" where
  "append_rule_pair backend rule =
     and_then (in_context ''append prerouting rule'' (AppendRule backend preroutingChainName (dnatRuleArgs rule)))
       (in_context ''append output rule'' (AppendRule backend outputChainName (dnatRuleArgs rule)))"

definition appendDesiredPortForwardRules :: "'k natRuleBackend \<Rightarrow> portForwardRule list \<Rightarrow> 'k act" where
  "appendDesiredPortForwardRules backend desired = all_of (map (append_rule_pair backend) desired)"

definition bridge_guard :: "string list" where
  "bridge_guard = [''-i'', ''br0'', ''-j'', ''RETURN'']"

definition replaceManagedPortForwardChains :: "'k natRuleBackend \<Rightarrow> portForwardRule list \<Rightarrow> 'k act" where
  "replaceManagedPortForwardChains backend desired =
     all_of
       [in_context ''flush prerouting chain'' (FlushChain backend preroutingChainName),
        in_context ''flush output chain'' (FlushChain backend outputChainName),
        in_context ''append bridge guard'' (AppendRule backend preroutingChainName bridge_guard),
        appendDesiredPortForwardRules backend desired]"

text \<open>The namespace argument of the source only names it in the error messages.\<close>

definition syncNetNSPortForwards :: "portForwardRule list \<Rightarrow> 'k natRuleBackend \<Rightarrow> 'k act" where
  "syncNetNSPortForwards desired backend =
     all_of
       [in_context ''ensure yeet nat chains'' (EnsureChains backend),
        deleteLegacyDirectOutputRules backend,
        replaceManagedPortForwardChains backend desired]"

section \<open>The plugin\<close>

record 'k sys =
  s_cache :: cache
  s_world :: world
  s_kernel :: 'k

definition on_kernel :: "'k act \<Rightarrow> 'k sys act" where
  "on_kernel a s = (case a (s_kernel s) of (e, k) \<Rightarrow> (e, s\<lparr>s_kernel := k\<rparr>))"

text \<open>
  \<open>runInNetNS\<close>, \<open>runInNetNSLocked\<close> and \<open>runInNetNSOnLockedThread\<close>: the function runs on a thread
  of its own in the namespace. When it fails the thread is thrown away without going back.
\<close>

definition runInNetNSOnLockedThread :: "'k kernel \<Rightarrow> string \<Rightarrow> 'k sys act \<Rightarrow> 'k sys act" where
  "runInNetNSOnLockedThread K ns f s =
     (if \<not> open_netns K ns (s_kernel s) then (Some (NetnsFailed ''failed to open netns''), s)
      else if \<not> get_netns K (s_kernel s) then (Some (NetnsFailed ''failed to get current netns''), s)
      else if \<not> set_netns K ns (s_kernel s) then (Some (NetnsFailed ''failed to set netns''), s)
      else case f s of
             (Some e, s1) \<Rightarrow> (Some (Ctx ''failed to execute command'' e), s1)
           | (None, s1) \<Rightarrow>
               if \<not> restore_netns K (s_kernel s1) then (Some (NetnsFailed ''failed to restore netns''), s1)
               else (None, s1))"

definition runInNetNS :: "'k kernel \<Rightarrow> string \<Rightarrow> 'k sys act \<Rightarrow> 'k sys act" where
  "runInNetNS K ns f = in_context ''failed to run in netns'' (runInNetNSOnLockedThread K ns f)"

definition plugin_Get :: "path \<Rightarrow> 'k sys \<Rightarrow> (nat_err + Data) \<times> 'k sys" where
  "plugin_Get dir s =
     (case getLocked dir (s_cache s) (s_world s) of
        (r, sd, w) \<Rightarrow> (case r of Inl e \<Rightarrow> Inl (FromStore e) | Inr d \<Rightarrow> Inr d, s\<lparr>s_cache := sd, s_world := w\<rparr>))"

definition plugin_Mutate ::
  "path \<Rightarrow> (Data \<Rightarrow> dnet_err + Data) \<Rightarrow> 'k sys \<Rightarrow> (nat_err + Data) \<times> 'k sys" where
  "plugin_Mutate dir f s =
     (case MutateData dir f (s_cache s) (s_world s) of
        ((r, err), sd, w) \<Rightarrow>
          (case err of Some e \<Rightarrow> Inl (FromStore e)
           | None \<Rightarrow> (case r of None \<Rightarrow> Inl (FromStore NullData) | Some d \<Rightarrow> Inr d),
           s\<lparr>s_cache := sd, s_world := w\<rparr>))"

definition currentPortForwardsForNetNS ::
  "path \<Rightarrow> string \<Rightarrow> 'k sys \<Rightarrow> (nat_err + portForwardRule list) \<times> 'k sys" where
  "currentPortForwardsForNetNS dir ns s =
     (case plugin_Get dir s of
        (Inl e, s1) \<Rightarrow> (Inl e, s1)
      | (Inr d, s1) \<Rightarrow> (Inr (desiredPortForwardsForNetNS (Some d) ns), s1))"

definition syncCurrentPortForwards :: "'k kernel \<Rightarrow> path \<Rightarrow> string \<Rightarrow> 'k sys act" where
  "syncCurrentPortForwards K dir ns s =
     (case plugin_Get dir s of
        (Inl e, s1) \<Rightarrow> (Some e, s1)
      | (Inr d, s1) \<Rightarrow>
          runInNetNS K ns
            (on_kernel (syncNetNSPortForwards (desiredPortForwardsForNetNS (Some d) ns)
               (iptablesBackend K (Some ns)))) s1)"

record leaveNetworkState =
  ls_netns :: string
  ls_ifName :: string
  ls_mode :: string

record joinNetworkState =
  js_netns :: string
  js_mode :: string
  js_ifName :: string
  js_peerName :: string
  js_gateway :: addr
  js_gatewayPrefix :: prefix

text \<open>The interface name: \<^verbatim>\<open>endpointID[:4]\<close> panics on a shorter identifier.\<close>

definition if_name :: "string \<Rightarrow> nat_err + string" where
  "if_name eid = (if length eid < 4 then Inl (FromPlugin DnetPanic) else Inr (''yv-'' @ take 4 eid))"

text \<open>
  The closure of the source sets \<^verbatim>\<open>netns\<close> and \<^verbatim>\<open>mode\<close> from the network it looked up; the mutation
  keeps both, so they are read here from the network in the committed data.
\<close>

definition committed_network :: "string \<Rightarrow> Data \<Rightarrow> string \<times> string" where
  "committed_network nid d =
     (case map_of (DockerNetworks d) nid of Some (Some n) \<Rightarrow> (dn_NetNS n, dn_Mode n) | _ \<Rightarrow> ([], []))"

definition leaveNetworkState_of ::
  "path \<Rightarrow> string \<Rightarrow> string \<Rightarrow> 'k sys \<Rightarrow> (nat_err + leaveNetworkState) \<times> 'k sys" where
  "leaveNetworkState_of dir nid eid s =
     (case plugin_Mutate dir (leave_mutation nid eid) s of
        (Inl e, s1) \<Rightarrow> (Inl e, s1)
      | (Inr d, s1) \<Rightarrow>
          (case if_name eid of
             Inl e \<Rightarrow> (Inl e, s1)
           | Inr ifn \<Rightarrow>
               (case committed_network nid d of
                  (ns, mode) \<Rightarrow> (Inr \<lparr>ls_netns = ns, ls_ifName = ifn, ls_mode = mode\<rparr>, s1))))"

text \<open>Both halves run, and their errors are joined.\<close>

definition join_nat_errs :: "nat_err option list \<Rightarrow> nat_err option" where
  "join_nat_errs es = (case List.map_filter (\<lambda>e. e) es of [] \<Rightarrow> None | xs \<Rightarrow> Some (Errs xs))"

definition leave_forwards :: "'k kernel \<Rightarrow> path \<Rightarrow> leaveNetworkState \<Rightarrow> 'k sys act" where
  "leave_forwards K dir leave s =
     (if ls_mode leave = dockerNetworkModeISO then (None, s)
      else case currentPortForwardsForNetNS dir (ls_netns leave) s of
             (Inl e, s1) \<Rightarrow> (Some e, s1)
           | (Inr desired, s1) \<Rightarrow>
               on_kernel (syncNetNSPortForwards desired (iptablesBackend K (Some (ls_netns leave)))) s1)"

definition leaveNetwork :: "'k kernel \<Rightarrow> path \<Rightarrow> leaveNetworkState \<Rightarrow> 'k sys act" where
  "leaveNetwork K dir leave =
     runInNetNS K (ls_netns leave)
       (\<lambda>s. case leave_forwards K dir leave s of
              (e1, s1) \<Rightarrow>
                (case on_kernel (runCmd K (Some (ls_netns leave)) ''ip'' [''link'', ''del'', ls_ifName leave]) s1 of
                   (e2, s2) \<Rightarrow> (join_nat_errs [e1, e2], s2)))"

section \<open>Joining\<close>

record commandSpec =
  cs_name :: string
  cs_args :: "string list"

definition bridgeReconcileCommands :: "prefix \<Rightarrow> commandSpec list" where
  "bridgeReconcileCommands addr =
     [\<lparr>cs_name = ''ip'', cs_args = [''link'', ''set'', ''br0'', ''up'']\<rparr>,
      \<lparr>cs_name = ''ip'', cs_args = [''-4'', ''addr'', ''flush'', ''dev'', ''br0'']\<rparr>,
      \<lparr>cs_name = ''ip'', cs_args = [''addr'', ''add'', prefix_string addr, ''dev'', ''br0'']\<rparr>,
      \<lparr>cs_name = ''sysctl'', cs_args = [''-w'', ''net.ipv4.conf.br0.route_localnet=1'']\<rparr>]"

definition bridgeCreateCommands :: "prefix \<Rightarrow> commandSpec list" where
  "bridgeCreateCommands addr =
     [\<lparr>cs_name = ''ip'', cs_args = [''link'', ''add'', ''br0'', ''type'', ''bridge'']\<rparr>,
      \<lparr>cs_name = ''ip'', cs_args = [''link'', ''set'', ''br0'', ''up'']\<rparr>,
      \<lparr>cs_name = ''ip'', cs_args = [''addr'', ''add'', prefix_string addr, ''dev'', ''br0'']\<rparr>,
      \<lparr>cs_name = ''sysctl'', cs_args = [''-w'', ''net.ipv4.conf.br0.route_localnet=1'']\<rparr>]"

definition run_specs :: "'k commandRunner \<Rightarrow> commandSpec list \<Rightarrow> 'k act" where
  "run_specs run cmds = all_of (map (\<lambda>c. run (cs_name c) (cs_args c)) cmds)"

definition ensureBridgeWithRunner :: "prefix \<Rightarrow> 'k commandRunner \<Rightarrow> 'k act" where
  "ensureBridgeWithRunner addr run k =
     (case run ''ip'' [''link'', ''show'', ''br0''] k of
        (None, k1) \<Rightarrow> run_specs run (bridgeReconcileCommands addr) k1
      | (Some _, k1) \<Rightarrow> run_specs run (bridgeCreateCommands addr) k1)"

definition addJoinVeth :: "'k commandRunner \<Rightarrow> joinNetworkState \<Rightarrow> 'k act" where
  "addJoinVeth run join =
     and_then
       (run ''ip'' [''link'', ''add'', js_ifName join, ''type'', ''veth'', ''peer'', ''name'', js_peerName join])
       (run ''ip'' [''link'', ''set'', js_ifName join, ''netns'', js_netns join])"

definition join_forwards :: "'k kernel \<Rightarrow> path \<Rightarrow> joinNetworkState \<Rightarrow> 'k sys act" where
  "join_forwards K dir join s =
     (case currentPortForwardsForNetNS dir (js_netns join) s of
        (Inl e, s1) \<Rightarrow> (Some e, s1)
      | (Inr desired, s1) \<Rightarrow>
          on_kernel (syncNetNSPortForwards desired (iptablesBackend K (Some (js_netns join)))) s1)"

definition configureJoinedNetwork :: "'k kernel \<Rightarrow> path \<Rightarrow> joinNetworkState \<Rightarrow> 'k sys act" where
  "configureJoinedNetwork K dir join =
     (let run = runCmd K (Some (js_netns join)) in
      all_of
        ([on_kernel (ensureBridgeWithRunner (js_gatewayPrefix join) run),
          on_kernel (run ''ip'' [''link'', ''set'', js_ifName join, ''master'', ''br0'']),
          on_kernel (run ''ip'' [''link'', ''set'', js_ifName join, ''up''])] @
         (if js_mode join = dockerNetworkModeISO then []
          else [on_kernel (ensurePostroutingChainWithRunner run), join_forwards K dir join])))"

definition joinNetwork :: "'k kernel \<Rightarrow> path \<Rightarrow> joinNetworkState \<Rightarrow> 'k sys act" where
  "joinNetwork K dir join =
     and_then (on_kernel (addJoinVeth (runCmd K None) join))
       (runInNetNS K (js_netns join) (configureJoinedNetwork K dir join))"

definition joinNetworkState_of ::
  "path \<Rightarrow> string \<Rightarrow> string \<Rightarrow> (ProtoPort \<times> EndpointPort) list \<Rightarrow> bool \<Rightarrow> 'k sys \<Rightarrow>
   (int \<times> nat_err + joinNetworkState) \<times> 'k sys" where
  "joinNetworkState_of dir nid eid dbpm updatePortMap s =
     (case plugin_Get dir s of
        (Inl e, s1) \<Rightarrow> (Inl (500, e), s1)
      | (Inr dv, s1) \<Rightarrow>
          (case join_check nid eid (length dbpm) dv of
             Inl e \<Rightarrow> (Inl (400, FromPlugin e), s1)
           | Inr n \<Rightarrow>
               (case if_name eid of
                  Inl e \<Rightarrow> (Inl (500, e), s1)
                | Inr ifName \<Rightarrow>
                    (let join = \<lparr>js_netns = dn_NetNS n, js_mode = dn_Mode n, js_ifName = ifName,
                                 js_peerName = ifName @ ''p'', js_gateway = p_addr (dn_IPv4Gateway n),
                                 js_gatewayPrefix = dn_IPv4Gateway n\<rparr>
                     in if \<not> updatePortMap then (Inr join, s1)
                        else case plugin_Mutate dir (join_mutation nid eid dbpm) s1 of
                               (Inl e, s2) \<Rightarrow> (Inl (500, e), s2)
                             | (Inr _, s2) \<Rightarrow> (Inr join, s2)))))"

section \<open>Handlers\<close>

text \<open>A panic in a handler aborts the connection; the server goes on.\<close>

datatype reply = Reply int | Aborted

fun db_panics :: "dnet_err db_err \<Rightarrow> bool" where
  "db_panics (CallerErr e) = (e = DnetPanic)"
| "db_panics (Wrap _ e) = db_panics e"
| "db_panics (Joined es) = list_ex db_panics es"
| "db_panics (PostPublicationError e _) = db_panics e"
| "db_panics _ = False"

fun panics :: "nat_err \<Rightarrow> bool" where
  "panics (FromPlugin e) = (e = DnetPanic)"
| "panics (FromStore e) = db_panics e"
| "panics _ = False"

definition http_Error :: "nat_err \<Rightarrow> int \<Rightarrow> reply" where
  "http_Error e status = (if panics e then Aborted else Reply status)"

definition answer :: "nat_err option \<times> 'k sys \<Rightarrow> reply \<times> 'k sys" where
  "answer r = (case r of (Some e, s) \<Rightarrow> (http_Error e 500, s) | (None, s) \<Rightarrow> (Reply 200, s))"

text \<open>The tail of the endpoint handlers: sync the namespace of a network that is not ISO.\<close>

definition sync_after :: "'k kernel \<Rightarrow> path \<Rightarrow> string \<times> string \<Rightarrow> 'k sys \<Rightarrow> reply \<times> 'k sys" where
  "sync_after K dir net s =
     (case net of
        (ns, mode) \<Rightarrow>
          if mode \<noteq> dockerNetworkModeISO then answer (syncCurrentPortForwards K dir ns s) else (Reply 200, s))"

definition commit_and_sync ::
  "'k kernel \<Rightarrow> path \<Rightarrow> int \<Rightarrow> string \<Rightarrow> (Data \<Rightarrow> dnet_err + Data) \<Rightarrow> 'k sys \<Rightarrow> reply \<times> 'k sys" where
  "commit_and_sync K dir status nid f s =
     (case plugin_Mutate dir f s of
        (Inl e, s1) \<Rightarrow> (http_Error e status, s1)
      | (Inr d, s1) \<Rightarrow> sync_after K dir (committed_network nid d) s1)"

definition LeaveNetwork :: "'k kernel \<Rightarrow> path \<Rightarrow> string \<times> string \<Rightarrow> 'k sys \<Rightarrow> reply \<times> 'k sys" where
  "LeaveNetwork K dir req s =
     (case req of
        (nid, eid) \<Rightarrow>
          (case leaveNetworkState_of dir nid eid s of
             (Inl e, s1) \<Rightarrow> (http_Error e 500, s1)
           | (Inr leave, s1) \<Rightarrow> answer (leaveNetwork K dir leave s1)))"

definition JoinNetwork ::
  "'k kernel \<Rightarrow> path \<Rightarrow> string \<times> string \<times> portMap list option \<Rightarrow> 'k sys \<Rightarrow> reply \<times> 'k sys" where
  "JoinNetwork K dir req s =
     (case req of
        (nid, eid, pms) \<Rightarrow>
          (case (case pms of None \<Rightarrow> Inr [] | Some l \<Rightarrow> endpointPortMap eid l) of
             Inl e \<Rightarrow> (Reply 400, s)
           | Inr dbpm \<Rightarrow>
               (case joinNetworkState_of dir nid eid dbpm (pms \<noteq> None) s of
                  (Inl (status, e), s1) \<Rightarrow> (http_Error e status, s1)
                | (Inr join, s1) \<Rightarrow> answer (joinNetwork K dir join s1))))"

definition inspectDeleteNetwork ::
  "path \<Rightarrow> string \<Rightarrow> 'k sys \<Rightarrow> (nat_err + deleteNetworkState) \<times> 'k sys" where
  "inspectDeleteNetwork dir nid s =
     (case plugin_Get dir s of
        (Inl e, s1) \<Rightarrow> (Inl (Ctx ''failed to get data'' e), s1)
      | (Inr d, s1) \<Rightarrow>
          (case dockerNetworkReadyForDelete (Some d) nid of
             Inl e \<Rightarrow> (Inl (Ctx ''failed to mutate data'' (FromPlugin e)), s1)
           | Inr n \<Rightarrow> (Inr \<lparr>dns_networkID = nid, dns_netns = dn_NetNS n, dns_mode = dn_Mode n\<rparr>, s1)))"

definition DeleteNetwork :: "'k kernel \<Rightarrow> path \<Rightarrow> string \<Rightarrow> 'k sys \<Rightarrow> reply \<times> 'k sys" where
  "DeleteNetwork K dir nid s =
     (case inspectDeleteNetwork dir nid s of
        (Inl e, s1) \<Rightarrow> (http_Error e 500, s1)
      | (Inr state, s1) \<Rightarrow>
          (case (if dns_mode state \<noteq> dockerNetworkModeISO then syncCurrentPortForwards K dir (dns_netns state) s1
                 else (None, s1)) of
             (Some e, s2) \<Rightarrow> (http_Error e 500, s2)
           | (None, s2) \<Rightarrow>
               (case plugin_Mutate dir (delete_mutation state) s2 of
                  (Inl e, s3) \<Rightarrow> (http_Error e 500, s3)
                | (Inr _, s3) \<Rightarrow> (Reply 200, s3))))"

definition CreateNetwork :: "path \<Rightarrow> createNetworkRequest \<Rightarrow> 'k sys \<Rightarrow> reply \<times> 'k sys" where
  "CreateNetwork dir req s =
     (case createNetworkRequest_validate req of
        Some e \<Rightarrow> (Reply 400, s)
      | None \<Rightarrow>
          (case plugin_Mutate dir (create_network_mutation req) s of
             (Inl e, s1) \<Rightarrow> (http_Error e 500, s1)
           | (Inr _, s1) \<Rightarrow> (Reply 200, s1)))"

definition CreateEndpoint ::
  "'k kernel \<Rightarrow> path \<Rightarrow> string \<times> string \<times> prefix \<times> portMap list \<Rightarrow> 'k sys \<Rightarrow> reply \<times> 'k sys" where
  "CreateEndpoint K dir req s =
     (case req of
        (nid, eid, pfx, pms) \<Rightarrow>
          (case endpointPortMap eid pms of
             Inl e \<Rightarrow> (Reply 400, s)
           | Inr dbpm \<Rightarrow> commit_and_sync K dir 400 nid (create_endpoint_mutation nid eid pfx dbpm) s))"

definition ProgramExternalConnectivity ::
  "'k kernel \<Rightarrow> path \<Rightarrow> string \<times> string \<times> portMap list \<Rightarrow> 'k sys \<Rightarrow> reply \<times> 'k sys" where
  "ProgramExternalConnectivity K dir req s =
     (case req of
        (nid, eid, pms) \<Rightarrow>
          (case endpointPortMap eid pms of
             Inl e \<Rightarrow> (Reply 400, s)
           | Inr dbpm \<Rightarrow> commit_and_sync K dir 400 nid (program_mutation nid eid dbpm) s))"

definition RevokeExternalConnectivity ::
  "'k kernel \<Rightarrow> path \<Rightarrow> string \<times> string \<times> portMap list \<Rightarrow> 'k sys \<Rightarrow> reply \<times> 'k sys" where
  "RevokeExternalConnectivity K dir req s =
     (case req of (nid, eid, _) \<Rightarrow> commit_and_sync K dir 400 nid (revoke_mutation nid eid) s)"

definition DeleteEndpoint :: "'k kernel \<Rightarrow> path \<Rightarrow> string \<times> string \<Rightarrow> 'k sys \<Rightarrow> reply \<times> 'k sys" where
  "DeleteEndpoint K dir req s =
     (case req of (nid, eid) \<Rightarrow> commit_and_sync K dir 500 nid (delete_endpoint_mutation nid eid) s)"

text \<open>The routes of the plugin. \<open>BadBody\<close> is a request with a body that does not decode.\<close>

datatype request =
    PluginActivate
  | ReqCreateNetwork createNetworkRequest
  | ReqDeleteNetwork string
  | ReqCreateEndpoint "string \<times> string \<times> prefix \<times> portMap list"
  | ReqDeleteEndpoint "string \<times> string"
  | ReqJoin "string \<times> string \<times> portMap list option"
  | ReqLeave "string \<times> string"
  | EndpointOperInfo
  | ReqProgram "string \<times> string \<times> portMap list"
  | ReqRevoke "string \<times> string \<times> portMap list"
  | GetCapabilities
  | OtherPath
  | BadBody

fun serve :: "'k kernel \<Rightarrow> path \<Rightarrow> request \<Rightarrow> 'k sys \<Rightarrow> reply \<times> 'k sys" where
  "serve K dir PluginActivate s = (Reply 200, s)"
| "serve K dir (ReqCreateNetwork r) s = CreateNetwork dir r s"
| "serve K dir (ReqDeleteNetwork r) s = DeleteNetwork K dir r s"
| "serve K dir (ReqCreateEndpoint r) s = CreateEndpoint K dir r s"
| "serve K dir (ReqDeleteEndpoint r) s = DeleteEndpoint K dir r s"
| "serve K dir (ReqJoin r) s = JoinNetwork K dir r s"
| "serve K dir (ReqLeave r) s = LeaveNetwork K dir r s"
| "serve K dir EndpointOperInfo s = (Reply 200, s)"
| "serve K dir (ReqProgram r) s = ProgramExternalConnectivity K dir r s"
| "serve K dir (ReqRevoke r) s = RevokeExternalConnectivity K dir r s"
| "serve K dir GetCapabilities s = (Reply 200, s)"
| "serve K dir OtherPath s = (Reply 501, s)"
| "serve K dir BadBody s = (Reply 400, s)"

section \<open>Reconciliation at start-up\<close>

definition netnsPathExists :: "'k kernel \<Rightarrow> string \<Rightarrow> 'k \<Rightarrow> nat_err + bool" where
  "netnsPathExists K path k =
     (if path = [] then Inr False
      else case stat_netns K path k of None \<Rightarrow> Inl (NetnsFailed ''stat'') | Some b \<Rightarrow> Inr b)"

fun reconcile_loop :: "'k kernel \<Rightarrow> path \<Rightarrow> string list \<Rightarrow> 'k sys \<Rightarrow> nat_err list \<times> 'k sys" where
  "reconcile_loop K dir [] s = ([], s)"
| "reconcile_loop K dir (ns # rest) s =
     (case netnsPathExists K ns (s_kernel s) of
        Inl e \<Rightarrow> apfst ((#) (Ctx ''check netns'' e)) (reconcile_loop K dir rest s)
      | Inr False \<Rightarrow> reconcile_loop K dir rest s
      | Inr True \<Rightarrow>
          (case syncCurrentPortForwards K dir ns s of
             (None, s1) \<Rightarrow> reconcile_loop K dir rest s1
           | (Some e, s1) \<Rightarrow> apfst ((#) (Ctx ''reconcile port forwards'' e)) (reconcile_loop K dir rest s1)))"

definition reconcilePortForwardsFromData :: "'k kernel \<Rightarrow> path \<Rightarrow> Data option \<Rightarrow> 'k sys act" where
  "reconcilePortForwardsFromData K dir d s =
     (case validatePersistedDockerNetworkModes d of
        Some e \<Rightarrow> (Some (FromPlugin e), s)
      | None \<Rightarrow>
          (case reconcile_loop K dir (sort (map fst (desiredPortForwardsByNetNS d))) s of
             ([], s1) \<Rightarrow> (None, s1)
           | (es, s1) \<Rightarrow> (Some (Errs es), s1)))"

definition listDockerNetworkIDs :: "'k kernel \<Rightarrow> 'k \<Rightarrow> (nat_err + string list) \<times> 'k" where
  "listDockerNetworkIDs K k =
     (let args = [''network'', ''ls'', ''--no-trunc'', ''--format'', ''{{.ID}}''] in
      case exec K None ''docker'' args k of
        (None, k1) \<Rightarrow> (Inl (Ctx ''list docker networks'' (CommandFailed ''docker'' args)), k1)
      | (Some output, k1) \<Rightarrow> (Inr (splitNonEmptyLines output), k1))"

definition ReconcilePortForwards :: "'k kernel \<Rightarrow> path \<Rightarrow> 'k sys act" where
  "ReconcilePortForwards K dir s =
     (case listDockerNetworkIDs K (s_kernel s) of
        (live, k1) \<Rightarrow>
          (let s1 = s\<lparr>s_kernel := k1\<rparr> in
           case (case live of
                   Inl _ \<Rightarrow> (None, s1)
                 | Inr ids \<Rightarrow>
                     (case plugin_Mutate dir (pruneMissing ids) s1 of
                        (Inl e, s2) \<Rightarrow> (Some (Ctx ''prune stale docker networks'' e), s2)
                      | (Inr _, s2) \<Rightarrow> (None, s2))) of
             (Some e, s2) \<Rightarrow> (Some e, s2)
           | (None, s2) \<Rightarrow>
               (case plugin_Get dir s2 of
                  (Inl e, s3) \<Rightarrow> (Some e, s3)
                | (Inr d, s3) \<Rightarrow> reconcilePortForwardsFromData K dir (Some d) s3)))"

section \<open>What iptables is relied on for\<close>

text \<open>
  \<open>rules k ns chain\<close> is the list of rules of a chain of the nat table in the form in which
  iptables prints them, without the leading \<^verbatim>\<open>-A chain\<close>; \<open>None\<close> is a chain that does not exist. The rules
  the plugin appends are already in that form.
\<close>

type_synonym table = "string option \<Rightarrow> string \<Rightarrow> string list list option"

definition set_chain :: "table \<Rightarrow> string option \<Rightarrow> string \<Rightarrow> string list list \<Rightarrow> table" where
  "set_chain t ns c rs = t(ns := (t ns)(c := Some rs))"

definition output_jump :: "string list" where
  "output_jump = [''-o'', ''lo'', ''-j'', outputChainName]"

definition prerouting_jump :: "string list" where
  "prerouting_jump = [''-j'', preroutingChainName]"

definition printed_rule :: "string list \<Rightarrow> bool" where
  "printed_rule a \<longleftrightarrow> a = prerouting_jump \<or> a = output_jump \<or> a = bridge_guard \<or> (\<exists>r. a = dnatRuleArgs r)"

definition ipt_does :: "'k kernel \<Rightarrow> string option \<Rightarrow> string list \<Rightarrow> 'k \<Rightarrow> string option \<Rightarrow> 'k \<Rightarrow> bool" where
  "ipt_does K ns args k out k' \<longleftrightarrow>
     exec K ns ''iptables'' (withCommandDefaults ''iptables'' ([''-t'', ''nat''] @ args)) k = (out, k')"

definition iptables_spec :: "'k kernel \<Rightarrow> ('k \<Rightarrow> table) \<Rightarrow> bool" where
  "iptables_spec K rules \<longleftrightarrow>
     (\<forall>ns name args k. name \<noteq> ''iptables'' \<longrightarrow> rules (snd (exec K ns name args k)) = rules k) \<and>
     (\<forall>ns args k k'. ipt_does K ns args k None k' \<longrightarrow> rules k' = rules k) \<and>
     (\<forall>ns c k out k'. ipt_does K ns [''-L'', c] k (Some out) k' \<longrightarrow>
        rules k' = rules k \<and> rules k ns c \<noteq> None) \<and>
     (\<forall>ns c k out k'. ipt_does K ns [''-N'', c] k (Some out) k' \<longrightarrow>
        rules k ns c = None \<and> rules k' = set_chain (rules k) ns c []) \<and>
     (\<forall>ns c a k out k'. printed_rule a \<longrightarrow> ipt_does K ns ([''-C'', c] @ a) k (Some out) k' \<longrightarrow>
        rules k' = rules k \<and> (\<exists>rs. rules k ns c = Some rs \<and> a \<in> set rs)) \<and>
     (\<forall>ns c a k out k'. printed_rule a \<longrightarrow> ipt_does K ns ([''-A'', c] @ a) k (Some out) k' \<longrightarrow>
        (\<exists>rs. rules k ns c = Some rs \<and> rules k' = set_chain (rules k) ns c (rs @ [a]))) \<and>
     (\<forall>ns c k out k'. ipt_does K ns [''-F'', c] k (Some out) k' \<longrightarrow>
        rules k ns c \<noteq> None \<and> rules k' = set_chain (rules k) ns c []) \<and>
     (\<forall>ns c a k out k'. ipt_does K ns ([''-D'', c] @ a) k (Some out) k' \<longrightarrow>
        (\<exists>rs. rules k ns c = Some rs \<and> a \<in> set rs \<and> rules k' = set_chain (rules k) ns c (remove1 a rs))) \<and>
     (\<forall>ns c k out k'. ipt_does K ns [''-S'', c] k (Some out) k' \<longrightarrow>
        rules k' = rules k \<and>
        (\<exists>rs hdr. rules k ns c = Some rs \<and> (\<forall>h \<in> set hdr. take 1 h \<noteq> [''-A'']) \<and>
           map Fields (splitNonEmptyLines out) = hdr @ map (\<lambda>a. ''-A'' # c # a) rs))"

section \<open>Sequencing\<close>

lemma and_then_ok: "and_then a b k = (None, k') \<longleftrightarrow> (\<exists>k1. a k = (None, k1) \<and> b k1 = (None, k'))"
  by (auto simp: and_then_def split: prod.splits option.splits)

lemma or_else_ok:
  "or_else a b k = (None, k') \<longleftrightarrow> a k = (None, k') \<or> (\<exists>e k1. a k = (Some e, k1) \<and> b k1 = (None, k'))"
  by (auto simp: or_else_def split: prod.splits option.splits)

lemma in_context_ok: "in_context c a k = (None, k') \<longleftrightarrow> a k = (None, k')"
  by (auto simp: in_context_def split: prod.splits)

lemmas seq_ok = and_then_ok or_else_ok in_context_ok

lemma runCmd_ok:
  "runCmd K ns ''iptables'' (''-t'' # ''nat'' # args) k = (None, k') \<longleftrightarrow> (\<exists>out. ipt_does K ns args k (Some out) k')"
  by (auto simp: runCmd_def ipt_does_def split: prod.splits option.splits)

lemma runCmd_failed:
  "runCmd K ns ''iptables'' (''-t'' # ''nat'' # args) k = (Some e, k') \<Longrightarrow> ipt_does K ns args k None k'"
  by (auto simp: runCmd_def ipt_does_def split: prod.splits option.splits)

section \<open>The chains after a sync\<close>

lemma spec_failed: "iptables_spec K rules \<Longrightarrow> ipt_does K ns args k None k' \<Longrightarrow> rules k' = rules k"
  by (simp add: iptables_spec_def)

text \<open>A chain or a rule is looked up first and added when the lookup fails.\<close>

lemma ensure_chain:
  assumes "iptables_spec K rules"
    and "or_else (runCmd K ns ''iptables'' [''-t'', ''nat'', ''-L'', c])
           (runCmd K ns ''iptables'' [''-t'', ''nat'', ''-N'', c]) k = (None, k')"
  shows "rules k' ns c \<noteq> None \<and> (rules k' = rules k \<or> rules k' = set_chain (rules k) ns c [])"
  using assms(2) unfolding or_else_ok
proof
  assume "runCmd K ns ''iptables'' [''-t'', ''nat'', ''-L'', c] k = (None, k')"
  then show ?thesis using assms(1) unfolding runCmd_ok iptables_spec_def by metis
next
  assume "\<exists>e k1. runCmd K ns ''iptables'' [''-t'', ''nat'', ''-L'', c] k = (Some e, k1) \<and>
    runCmd K ns ''iptables'' [''-t'', ''nat'', ''-N'', c] k1 = (None, k')"
  then obtain k1 out where "rules k1 = rules k" "ipt_does K ns [''-N'', c] k1 (Some out) k'"
    using spec_failed [OF assms(1) runCmd_failed] unfolding runCmd_ok by blast
  then have "rules k' = set_chain (rules k) ns c []" using assms(1) unfolding iptables_spec_def by metis
  then show ?thesis by (simp add: set_chain_def)
qed

lemma ensure_rule:
  assumes "iptables_spec K rules" "printed_rule a"
    and "or_else (runCmd K ns ''iptables'' (''-t'' # ''nat'' # ''-C'' # c # a))
           (runCmd K ns ''iptables'' (''-t'' # ''nat'' # ''-A'' # c # a)) k = (None, k')"
  shows "\<exists>rs. rules k ns c = Some rs \<and>
    (a \<in> set rs \<and> rules k' = rules k \<or> rules k' = set_chain (rules k) ns c (rs @ [a]))"
  using assms(3) unfolding or_else_ok
proof
  assume "runCmd K ns ''iptables'' (''-t'' # ''nat'' # ''-C'' # c # a) k = (None, k')"
  then obtain out where "ipt_does K ns ([''-C'', c] @ a) k (Some out) k'" unfolding runCmd_ok by auto
  then show ?thesis using assms(1,2) unfolding iptables_spec_def by metis
next
  assume "\<exists>e k1. runCmd K ns ''iptables'' (''-t'' # ''nat'' # ''-C'' # c # a) k = (Some e, k1) \<and>
    runCmd K ns ''iptables'' (''-t'' # ''nat'' # ''-A'' # c # a) k1 = (None, k')"
  then obtain k1 out where "rules k1 = rules k" "ipt_does K ns ([''-A'', c] @ a) k1 (Some out) k'"
    using spec_failed [OF assms(1) runCmd_failed] unfolding runCmd_ok append_Cons append_Nil by blast
  then show ?thesis using assms(1,2) unfolding iptables_spec_def by metis
qed

lemma append_rule:
  assumes "iptables_spec K rules" "printed_rule a" "AppendRule (iptablesBackend K ns) c a k = (None, k')"
  shows "\<exists>rs. rules k ns c = Some rs \<and> rules k' = set_chain (rules k) ns c (rs @ [a])"
proof -
  obtain out where "ipt_does K ns ([''-A'', c] @ a) k (Some out) k'"
    using assms(3) by (auto simp: iptablesBackend_def runCmd_ok)
  then show ?thesis using assms(1,2) unfolding iptables_spec_def by metis
qed

lemma flush_chain:
  assumes "iptables_spec K rules" "FlushChain (iptablesBackend K ns) c k = (None, k')"
  shows "rules k' = set_chain (rules k) ns c []"
proof -
  obtain out where "ipt_does K ns [''-F'', c] k (Some out) k'"
    using assms(2) by (auto simp: iptablesBackend_def runCmd_ok)
  then show ?thesis using assms(1) unfolding iptables_spec_def by metis
qed

lemma delete_rule:
  assumes "iptables_spec K rules" "DeleteRule (iptablesBackend K ns) c a k = (None, k')"
  shows "\<exists>rs. rules k ns c = Some rs \<and> rules k' = set_chain (rules k) ns c (remove1 a rs)"
proof -
  obtain out where "ipt_does K ns ([''-D'', c] @ a) k (Some out) k'"
    using assms(2) by (auto simp: iptablesBackend_def runCmd_ok)
  then show ?thesis using assms(1) unfolding iptables_spec_def by metis
qed

lemma list_chain:
  assumes "iptables_spec K rules" "ListChain (iptablesBackend K ns) c k = (Inr lines, k')"
  shows "rules k' = rules k \<and>
    (\<exists>rs hdr. rules k ns c = Some rs \<and> (\<forall>h \<in> set hdr. take 1 h \<noteq> [''-A'']) \<and>
       map Fields lines = hdr @ map (\<lambda>a. ''-A'' # c # a) rs)"
proof -
  obtain out where "ipt_does K ns [''-S'', c] k (Some out) k'" "lines = splitNonEmptyLines out"
    using assms(2) by (auto simp: iptablesBackend_def iptables_ListChain_def Let_def ipt_does_def
        split: prod.splits option.splits)
  then show ?thesis using assms(1) unfolding iptables_spec_def by metis
qed

lemma set_chain_simps [simp]:
  "set_chain t ns c rs ns c = Some rs"
  "c' \<noteq> c \<Longrightarrow> set_chain t ns c rs ns' c' = t ns' c'"
  "ns' \<noteq> ns \<Longrightarrow> set_chain t ns c rs ns' c' = t ns' c'"
  "set_chain (set_chain t ns c rs) ns c rs' = set_chain t ns c rs'"
  by (auto simp: set_chain_def)

lemma set_chain_same: "t ns c = Some rs \<Longrightarrow> set_chain t ns c rs = t"
  by (auto simp: set_chain_def fun_eq_iff)

lemma remove_filtered:
  "list_all (\<lambda>y. \<not> P y) ys \<Longrightarrow> fold remove1 (filter P xs) (ys @ xs) = ys @ filter (\<lambda>x. \<not> P x) xs"
proof (induction xs arbitrary: ys)
  case (Cons x xs)
  show ?case
  proof (cases "P x")
    case True
    with Cons.prems have "x \<notin> set ys" by (auto simp: list_all_iff)
    then show ?thesis using Cons True by (simp add: remove1_append)
  next
    case False
    then show ?thesis using Cons.IH [of "ys @ [x]"] Cons.prems by simp
  qed
qed simp

lemma legacy_line:
  assumes "isLegacyDirectOutputRule line"
  shows "chainRuleArgs line ''OUTPUT'' = Inr (drop 2 (Fields line)) \<and>
    Fields line = ''-A'' # ''OUTPUT'' # drop 2 (Fields line)"
  using assms
  by (auto simp: isLegacyDirectOutputRule_def legacy_fields_def chainRuleArgs_def neq_Nil_conv
      split: list.splits)

lemma delete_legacy_ok:
  assumes "iptables_spec K rules" "delete_legacy (iptablesBackend K ns) lines k = (None, k')"
    and "rules k ns ''OUTPUT'' = Some rs"
  shows "rules k' = set_chain (rules k) ns ''OUTPUT''
    (fold remove1 (map (drop 2) (filter legacy_fields (map Fields lines))) rs)"
  using assms(2,3)
proof (induction lines arbitrary: k rs)
  case Nil
  then show ?case by (simp add: set_chain_same)
next
  case (Cons line lines)
  show ?case
  proof (cases "isLegacyDirectOutputRule line")
    case True
    note l = legacy_line [OF True]
    obtain k1 where k1: "DeleteRule (iptablesBackend K ns) ''OUTPUT'' (drop 2 (Fields line)) k = (None, k1)"
      "delete_legacy (iptablesBackend K ns) lines k1 = (None, k')"
      using Cons.prems(1) True l by (auto simp: seq_ok)
    then have "rules k1 = set_chain (rules k) ns ''OUTPUT'' (remove1 (drop 2 (Fields line)) rs)"
      using delete_rule [OF assms(1) k1(1)] Cons.prems(2) by simp
    then show ?thesis using Cons.IH [OF k1(2)] True by (simp add: isLegacyDirectOutputRule_def)
  next
    case False
    then show ?thesis using Cons by (simp add: isLegacyDirectOutputRule_def)
  qed
qed

lemma legacy_args_filter:
  "(\<forall>h \<in> set hdr. take 1 h \<noteq> [''-A'']) \<Longrightarrow>
   map (drop 2) (filter legacy_fields (hdr @ map (\<lambda>a. ''-A'' # c # a) rs)) =
   filter (\<lambda>a. legacy_fields (''-A'' # c # a)) rs"
proof -
  assume h: "\<forall>h \<in> set hdr. take 1 h \<noteq> [''-A'']"
  have "filter legacy_fields hdr = []"
    using h by (force simp: filter_empty_conv legacy_fields_def split: list.splits)
  then show ?thesis by (simp add: filter_map comp_def)
qed

definition no_legacy :: "string list list \<Rightarrow> string list list" where
  "no_legacy rs = filter (\<lambda>a. \<not> legacy_fields (''-A'' # ''OUTPUT'' # a)) rs"

lemma deleteLegacy_ok:
  assumes "iptables_spec K rules" "deleteLegacyDirectOutputRules (iptablesBackend K ns) k = (None, k')"
  shows "\<exists>rs. rules k ns ''OUTPUT'' = Some rs \<and> rules k' = set_chain (rules k) ns ''OUTPUT'' (no_legacy rs)"
proof -
  obtain lines k1 where l: "ListChain (iptablesBackend K ns) ''OUTPUT'' k = (Inr lines, k1)"
    "delete_legacy (iptablesBackend K ns) lines k1 = (None, k')"
    using assms(2) by (auto simp: deleteLegacyDirectOutputRules_def split: prod.splits sum.splits)
  obtain rs hdr where r: "rules k1 = rules k" "rules k ns ''OUTPUT'' = Some rs"
    "\<forall>h \<in> set hdr. take 1 h \<noteq> [''-A'']" "map Fields lines = hdr @ map (\<lambda>a. ''-A'' # ''OUTPUT'' # a) rs"
    using list_chain [OF assms(1) l(1)] by blast
  have "rules k' = set_chain (rules k) ns ''OUTPUT''
      (fold remove1 (filter (\<lambda>a. legacy_fields (''-A'' # ''OUTPUT'' # a)) rs) rs)"
    using delete_legacy_ok [OF assms(1) l(2), unfolded r(1), OF r(2)]
    unfolding r(4) legacy_args_filter [OF r(3)] .
  then show ?thesis using r remove_filtered [of _ "[]" rs] by (simp add: no_legacy_def)
qed

lemma dnat_printed [simp]: "printed_rule (dnatRuleArgs r)" "printed_rule bridge_guard"
  "printed_rule output_jump" "printed_rule prerouting_jump"
  by (auto simp: printed_rule_def)

lemma chain_names_differ [simp]:
  "preroutingChainName \<noteq> outputChainName" "outputChainName \<noteq> preroutingChainName"
  "preroutingChainName \<noteq> ''PREROUTING''" "preroutingChainName \<noteq> ''OUTPUT''"
  "outputChainName \<noteq> ''PREROUTING''" "outputChainName \<noteq> ''OUTPUT''"
  "''PREROUTING'' \<noteq> preroutingChainName" "''OUTPUT'' \<noteq> preroutingChainName"
  "''PREROUTING'' \<noteq> outputChainName" "''OUTPUT'' \<noteq> outputChainName"
  by (simp_all add: preroutingChainName_def outputChainName_def)

lemma append_desired_ok:
  assumes "iptables_spec K rules" "appendDesiredPortForwardRules (iptablesBackend K ns) desired k = (None, k')"
    and "rules k ns preroutingChainName = Some ps" "rules k ns outputChainName = Some os"
  shows "rules k' = set_chain (set_chain (rules k) ns preroutingChainName (ps @ map dnatRuleArgs desired))
    ns outputChainName (os @ map dnatRuleArgs desired)"
  using assms(2-4)
proof (induction desired arbitrary: k ps os)
  case Nil
  then show ?case by (simp add: appendDesiredPortForwardRules_def set_chain_same)
next
  case (Cons r rs)
  obtain k1 k2 where k: "AppendRule (iptablesBackend K ns) preroutingChainName (dnatRuleArgs r) k = (None, k1)"
    "AppendRule (iptablesBackend K ns) outputChainName (dnatRuleArgs r) k1 = (None, k2)"
    "appendDesiredPortForwardRules (iptablesBackend K ns) rs k2 = (None, k')"
    using Cons.prems(1) by (auto simp: appendDesiredPortForwardRules_def append_rule_pair_def seq_ok)
  have "rules k2 = set_chain (set_chain (rules k) ns preroutingChainName (ps @ [dnatRuleArgs r]))
      ns outputChainName (os @ [dnatRuleArgs r])"
    using append_rule [OF assms(1) _ k(1)] append_rule [OF assms(1) _ k(2)] Cons.prems(2,3) by auto
  then show ?case using Cons.IH [OF k(3)] by (auto simp: set_chain_def fun_eq_iff)
qed

lemma replace_ok:
  assumes "iptables_spec K rules" "replaceManagedPortForwardChains (iptablesBackend K ns) desired k = (None, k')"
  shows "rules k' = set_chain (set_chain (rules k) ns preroutingChainName (bridge_guard # map dnatRuleArgs desired))
    ns outputChainName (map dnatRuleArgs desired)"
proof -
  obtain k1 k2 k3 where k: "FlushChain (iptablesBackend K ns) preroutingChainName k = (None, k1)"
    "FlushChain (iptablesBackend K ns) outputChainName k1 = (None, k2)"
    "AppendRule (iptablesBackend K ns) preroutingChainName bridge_guard k2 = (None, k3)"
    "appendDesiredPortForwardRules (iptablesBackend K ns) desired k3 = (None, k')"
    using assms(2) by (auto simp: replaceManagedPortForwardChains_def seq_ok)
  have "rules k3 = set_chain (set_chain (rules k) ns preroutingChainName [bridge_guard]) ns outputChainName []"
    using append_rule [OF assms(1) _ k(3)] flush_chain [OF assms(1) k(1)] flush_chain [OF assms(1) k(2)]
    by (auto simp: set_chain_def fun_eq_iff)
  then show ?thesis using append_desired_ok [OF assms(1) k(4)] by (auto simp: set_chain_def fun_eq_iff)
qed

lemma ensure_ok:
  assumes "iptables_spec K rules" "EnsureChains (iptablesBackend K ns) k = (None, k')"
  shows "(\<exists>rs. rules k' ns ''PREROUTING'' = Some rs \<and> prerouting_jump \<in> set rs) \<and>
    (\<exists>rs0 rs. rules k ns ''OUTPUT'' = Some rs0 \<and> rules k' ns ''OUTPUT'' = Some rs \<and> output_jump \<in> set rs \<and>
       (rs = rs0 \<or> rs = rs0 @ [output_jump])) \<and>
    (\<forall>ns' c. ns' \<noteq> ns \<or> c \<notin> {''PREROUTING'', ''OUTPUT'', preroutingChainName, outputChainName} \<longrightarrow>
       rules k' ns' c = rules k ns' c)"
proof -
  let ?run = "runCmd K ns ''iptables''"
  obtain k1 k2 k3 where k:
    "or_else (?run [''-t'', ''nat'', ''-L'', preroutingChainName])
       (?run [''-t'', ''nat'', ''-N'', preroutingChainName]) k = (None, k1)"
    "or_else (?run (''-t'' # ''nat'' # ''-C'' # ''PREROUTING'' # prerouting_jump))
       (?run (''-t'' # ''nat'' # ''-A'' # ''PREROUTING'' # prerouting_jump)) k1 = (None, k2)"
    "or_else (?run [''-t'', ''nat'', ''-L'', outputChainName])
       (?run [''-t'', ''nat'', ''-N'', outputChainName]) k2 = (None, k3)"
    "or_else (?run (''-t'' # ''nat'' # ''-C'' # ''OUTPUT'' # output_jump))
       (?run (''-t'' # ''nat'' # ''-A'' # ''OUTPUT'' # output_jump)) k3 = (None, k')"
    using assms(2)
    by (auto simp: iptablesBackend_def and_then_ok ensurePreroutingChain_def ensureOutputChain_def
        prerouting_jump_def output_jump_def)
  note s = ensure_chain [OF assms(1) k(1)] ensure_rule [OF assms(1) _ k(2)]
    ensure_chain [OF assms(1) k(3)] ensure_rule [OF assms(1) _ k(4)]
  obtain ps where p: "rules k1 ns ''PREROUTING'' = Some ps"
    "prerouting_jump \<in> set ps \<and> rules k2 = rules k1 \<or>
     rules k2 = set_chain (rules k1) ns ''PREROUTING'' (ps @ [prerouting_jump])"
    using s(2) by auto
  obtain os where o: "rules k3 ns ''OUTPUT'' = Some os"
    "output_jump \<in> set os \<and> rules k' = rules k3 \<or>
     rules k' = set_chain (rules k3) ns ''OUTPUT'' (os @ [output_jump])"
    using s(4) by auto
  have o0: "rules k ns ''OUTPUT'' = Some os" using s(1,3) p(2) o(1) by auto
  have frame: "rules k' ns' c = rules k ns' c"
    if "ns' \<noteq> ns \<or> c \<notin> {''PREROUTING'', ''OUTPUT'', preroutingChainName, outputChainName}" for ns' c
    using s(1,3) p(2) o(2) that by (auto simp: set_chain_def)
  have "\<exists>rs. rules k' ns ''PREROUTING'' = Some rs \<and> prerouting_jump \<in> set rs"
    using p o(2) s(3) by auto
  moreover have "\<exists>rs. rules k' ns ''OUTPUT'' = Some rs \<and> output_jump \<in> set rs \<and> (rs = os \<or> rs = os @ [output_jump])"
    using o by auto
  ultimately show ?thesis using o0 frame by blast
qed

text \<open>What the nat table of a namespace looks like after a sync.\<close>

definition forwards_exactly :: "table \<Rightarrow> string option \<Rightarrow> portForwardRule list \<Rightarrow> bool" where
  "forwards_exactly t ns desired \<longleftrightarrow>
     t ns preroutingChainName = Some (bridge_guard # map dnatRuleArgs desired) \<and>
     t ns outputChainName = Some (map dnatRuleArgs desired) \<and>
     (\<exists>rs. t ns ''PREROUTING'' = Some rs \<and> prerouting_jump \<in> set rs) \<and>
     (\<exists>rs. t ns ''OUTPUT'' = Some rs \<and> output_jump \<in> set rs \<and>
        list_all (\<lambda>a. \<not> legacy_fields (''-A'' # ''OUTPUT'' # a)) rs)"

lemma jump_not_legacy: "\<not> legacy_fields (''-A'' # ''OUTPUT'' # output_jump)"
  by (simp add: legacy_fields_def output_jump_def outputChainName_def)

lemma sync_exact:
  assumes "iptables_spec K rules" "syncNetNSPortForwards desired (iptablesBackend K ns) k = (None, k')"
  shows "forwards_exactly (rules k') ns desired \<and>
    (\<exists>rs rs'. rules k ns ''OUTPUT'' = Some rs \<and> rules k' ns ''OUTPUT'' = Some rs' \<and>
       (rs' = no_legacy rs \<or> rs' = no_legacy rs @ [output_jump])) \<and>
    (\<forall>ns' c. ns' \<noteq> ns \<or> c \<notin> {''PREROUTING'', ''OUTPUT'', preroutingChainName, outputChainName} \<longrightarrow>
       rules k' ns' c = rules k ns' c)"
proof -
  obtain k1 k2 where k: "EnsureChains (iptablesBackend K ns) k = (None, k1)"
    "deleteLegacyDirectOutputRules (iptablesBackend K ns) k1 = (None, k2)"
    "replaceManagedPortForwardChains (iptablesBackend K ns) desired k2 = (None, k')"
    using assms(2) by (auto simp: syncNetNSPortForwards_def seq_ok)
  note e = ensure_ok [OF assms(1) k(1)] and r = replace_ok [OF assms(1) k(3)]
  obtain os0 os where os: "rules k ns ''OUTPUT'' = Some os0" "rules k1 ns ''OUTPUT'' = Some os"
    "output_jump \<in> set os" "os = os0 \<or> os = os0 @ [output_jump]" using e by blast
  have d: "rules k2 = set_chain (rules k1) ns ''OUTPUT'' (no_legacy os)"
    using deleteLegacy_ok [OF assms(1) k(2)] os(2) by auto
  have out: "rules k' ns ''OUTPUT'' = Some (no_legacy os)" using r d by simp
  have "forwards_exactly (rules k') ns desired"
    unfolding forwards_exactly_def using r d out e os(3) jump_not_legacy
    by (auto simp: no_legacy_def list_all_iff)
  moreover have "no_legacy os = no_legacy os0 \<or> no_legacy os = no_legacy os0 @ [output_jump]"
    using os(4) jump_not_legacy by (auto simp: no_legacy_def)
  moreover have "rules k' ns' c = rules k ns' c"
    if "ns' \<noteq> ns \<or> c \<notin> {''PREROUTING'', ''OUTPUT'', preroutingChainName, outputChainName}" for ns' c
    using e r d that by (auto simp: set_chain_def)
  ultimately show ?thesis using os(1) out by blast
qed


section \<open>A kernel with a nat table\<close>

text \<open>
  A concrete table for examples. It prints a chain only when the lines read back as the rules,
  which is so when no word of a rule has a space.
\<close>

definition strip_wait :: "string list \<Rightarrow> string list" where
  "strip_wait args = (case args of a # rest \<Rightarrow> if a = ''-w'' then rest else args | [] \<Rightarrow> [])"

definition chain_lines :: "string \<Rightarrow> string list list \<Rightarrow> string" where
  "chain_lines c rs = concat (map (\<lambda>a. Join (''-A'' # c # a) '' '' @ [CHR 0x0A]) rs)"

definition table_op ::
  "string option \<Rightarrow> string \<Rightarrow> string \<Rightarrow> string list \<Rightarrow> table \<Rightarrow> string list list \<Rightarrow> string option \<times> table" where
  "table_op ns op c a t rs =
     (if op = ''-L'' then (Some [], t)
      else if op = ''-C'' then (if a \<in> set rs then (Some [], t) else (None, t))
      else if op = ''-A'' then (Some [], set_chain t ns c (rs @ [a]))
      else if op = ''-F'' then (Some [], set_chain t ns c [])
      else if op = ''-D'' then (if a \<in> set rs then (Some [], set_chain t ns c (remove1 a rs)) else (None, t))
      else if op = ''-S'' \<and> map Fields (splitNonEmptyLines (chain_lines c rs)) = map (\<lambda>a. ''-A'' # c # a) rs
      then (Some (chain_lines c rs), t)
      else (None, t))"

definition table_exec :: "string option \<Rightarrow> string \<Rightarrow> string list \<Rightarrow> table \<Rightarrow> string option \<times> table" where
  "table_exec ns name args t =
     (if name \<noteq> ''iptables'' then (Some ''n'', t)
      else case strip_wait args of
             _ # _ # op # c # a \<Rightarrow>
               (case t ns c of
                  None \<Rightarrow> if op = ''-N'' then (Some [], set_chain t ns c []) else (None, t)
                | Some rs \<Rightarrow> table_op ns op c a t rs)
           | _ \<Rightarrow> (None, t))"

definition table_kernel :: "table kernel" where
  "table_kernel =
     \<lparr>exec = table_exec, open_netns = (\<lambda>_ _. True), get_netns = (\<lambda>_. True), set_netns = (\<lambda>_ _. True),
      restore_netns = (\<lambda>_. True), stat_netns = (\<lambda>_ _. Some True)\<rparr>"

lemma table_netns:
  "open_netns table_kernel ns t" "get_netns table_kernel t" "set_netns table_kernel ns t"
  "restore_netns table_kernel t" "stat_netns table_kernel ns t = Some True"
  by (simp_all add: table_kernel_def)

lemma strip_defaults: "strip_wait (withCommandDefaults ''iptables'' (''-t'' # xs)) = ''-t'' # xs"
  by (simp add: strip_wait_def withCommandDefaults_def)

lemma table_does:
  "ipt_does table_kernel ns (op # c # a) t out t' \<longleftrightarrow>
     (case t ns c of
        None \<Rightarrow> if op = ''-N'' then (Some [], set_chain t ns c []) else (None, t)
      | Some rs \<Rightarrow> table_op ns op c a t rs) = (out, t')"
  by (simp add: ipt_does_def table_kernel_def table_exec_def strip_defaults)

lemma table_failed: "ipt_does table_kernel ns args t None t' \<Longrightarrow> t' = t"
  by (auto simp: ipt_does_def table_kernel_def table_exec_def strip_defaults table_op_def
      split: list.splits option.splits if_splits)

lemma table_kernel_spec: "iptables_spec table_kernel (\<lambda>t. t)"
  unfolding iptables_spec_def append_Cons append_Nil table_does
proof (intro conjI allI impI)
  fix ns name args and k :: table
  assume "name \<noteq> ''iptables''"
  then show "snd (exec table_kernel ns name args k) = k" by (simp add: table_kernel_def table_exec_def)
next
  fix ns args and k k' :: table
  assume "ipt_does table_kernel ns args k None k'"
  then show "k' = k" by (rule table_failed)
next
  fix ns c out and k k' :: table
  assume "(case k ns c of
        None \<Rightarrow> if ''-S'' = ''-N'' then (Some [], set_chain k ns c []) else (None, k)
      | Some rs \<Rightarrow> table_op ns ''-S'' c [] k rs) = (Some out, k')"
  then show "\<exists>rs hdr. k ns c = Some rs \<and> (\<forall>h \<in> set hdr. take 1 h \<noteq> [''-A'']) \<and>
      map Fields (splitNonEmptyLines out) = hdr @ map (\<lambda>a. ''-A'' # c # a) rs"
    by (intro exI [of _ "the (k ns c)"] exI [of _ "[]"])
      (auto simp: table_op_def split: option.splits if_splits)
qed (auto simp: table_op_def split: option.splits if_splits)

definition example_table :: table where
  "example_table =
     (\<lambda>_ _. None)(Some ''/ns'' :=
        [''PREROUTING'' \<mapsto> [],
         ''OUTPUT'' \<mapsto> [[''-o'', ''lo'', ''-p'', ''tcp'', ''-j'', ''DNAT''], [''-d'', ''10.0.0.1'', ''-j'', ''ACCEPT'']]])"

definition example_forward :: portForwardRule where
  "example_forward = \<lparr>pf_Proto = ''tcp'', HostPort = 80, TargetIP = ''10.0.0.2'', TargetPort = 8080\<rparr>"

lemma table_run:
  "runCmd table_kernel ns ''iptables'' (''-t'' # ''nat'' # op # c # a) t =
     (case (case t ns c of
              None \<Rightarrow> if op = ''-N'' then (Some [], set_chain t ns c []) else (None, t)
            | Some rs \<Rightarrow> table_op ns op c a t rs) of
        (None, t') \<Rightarrow>
          (Some (CommandFailed ''iptables'' (withCommandDefaults ''iptables'' (''-t'' # ''nat'' # op # c # a))), t')
      | (Some _, t') \<Rightarrow> (None, t'))"
  by (simp add: runCmd_def table_kernel_def table_exec_def strip_defaults)

lemma table_list:
  "iptables_ListChain table_kernel ns c t =
     (case t ns c of
        Some rs \<Rightarrow>
          if map Fields (splitNonEmptyLines (chain_lines c rs)) = map (\<lambda>a. ''-A'' # c # a) rs
          then (Inr (splitNonEmptyLines (chain_lines c rs)), t)
          else (Inl (Ctx ''list chain'' (CommandFailed ''iptables''
                 (withCommandDefaults ''iptables'' [''-t'', ''nat'', ''-S'', c]))), t)
      | None \<Rightarrow> (Inl (Ctx ''list chain'' (CommandFailed ''iptables''
                 (withCommandDefaults ''iptables'' [''-t'', ''nat'', ''-S'', c]))), t))"
  by (simp add: iptables_ListChain_def table_kernel_def table_exec_def strip_defaults table_op_def Let_def
      split: option.splits)

lemma backend_ops:
  "ListChain (iptablesBackend K ns) = iptables_ListChain K ns"
  "FlushChain (iptablesBackend K ns) c = runCmd K ns ''iptables'' [''-t'', ''nat'', ''-F'', c]"
  "DeleteRule (iptablesBackend K ns) c a = runCmd K ns ''iptables'' (''-t'' # ''nat'' # ''-D'' # c # a)"
  "AppendRule (iptablesBackend K ns) c a = runCmd K ns ''iptables'' (''-t'' # ''nat'' # ''-A'' # c # a)"
  "EnsureChains (iptablesBackend K ns) = and_then (ensurePreroutingChain K ns) (ensureOutputChain K ns)"
  by (simp_all add: iptablesBackend_def)

lemma all_of_last: "all_of [a] = a" "all_of (a # b # as) = and_then a (all_of (b # as))"
  by (auto simp: fun_eq_iff and_then_def split: prod.splits option.splits)

lemmas table_eval =
  syncNetNSPortForwards_def replaceManagedPortForwardChains_def appendDesiredPortForwardRules_def
  deleteLegacyDirectOutputRules_def backend_ops all_of_last ensurePreroutingChain_def
  ensureOutputChain_def and_then_def or_else_def in_context_def table_run table_list table_op_def

lemma example_listing:
  "splitNonEmptyLines (chain_lines ''OUTPUT''
     [[''-o'', ''lo'', ''-p'', ''tcp'', ''-j'', ''DNAT''], [''-d'', ''10.0.0.1'', ''-j'', ''ACCEPT''],
      [''-o'', ''lo'', ''-j'', ''YEET_OUTPUT'']]) =
     [''-A OUTPUT -o lo -p tcp -j DNAT'', ''-A OUTPUT -d 10.0.0.1 -j ACCEPT'', ''-A OUTPUT -o lo -j YEET_OUTPUT'']"
  by code_simp

lemma example_fields:
  "Fields ''-A OUTPUT -o lo -p tcp -j DNAT'' = [''-A'', ''OUTPUT'', ''-o'', ''lo'', ''-p'', ''tcp'', ''-j'', ''DNAT'']"
  "Fields ''-A OUTPUT -d 10.0.0.1 -j ACCEPT'' = [''-A'', ''OUTPUT'', ''-d'', ''10.0.0.1'', ''-j'', ''ACCEPT'']"
  "Fields ''-A OUTPUT -o lo -j YEET_OUTPUT'' = [''-A'', ''OUTPUT'', ''-o'', ''lo'', ''-j'', ''YEET_OUTPUT'']"
  by code_simp+

lemma table_append:
  "t ns preroutingChainName = Some ps \<Longrightarrow> t ns outputChainName = Some os \<Longrightarrow>
   fst (all_of (map (append_rule_pair (iptablesBackend table_kernel ns)) desired) t) = None"
proof (induction desired arbitrary: t ps os)
  case (Cons r rs)
  let ?t = "set_chain (set_chain t ns preroutingChainName (ps @ [dnatRuleArgs r])) ns outputChainName (os @ [dnatRuleArgs r])"
  have "append_rule_pair (iptablesBackend table_kernel ns) r t = (None, ?t)"
    using Cons.prems by (simp add: append_rule_pair_def iptablesBackend_def and_then_def in_context_def table_run table_op_def)
  then show ?case using Cons.IH [of ?t] by (simp add: and_then_def)
qed simp

lemma example_sync:
  "fst (syncNetNSPortForwards desired (iptablesBackend table_kernel (Some ''/ns'')) example_table) = None"
proof -
  let ?b = "iptablesBackend table_kernel (Some ''/ns'')"
  let ?os = "[[''-d'', ''10.0.0.1'', ''-j'', ''ACCEPT''], output_jump]"
  let ?t = "set_chain (set_chain (set_chain (set_chain example_table (Some ''/ns'') ''OUTPUT'' ?os)
      (Some ''/ns'') ''PREROUTING'' [prerouting_jump]) (Some ''/ns'') outputChainName [])
      (Some ''/ns'') preroutingChainName [bridge_guard]"
  have "syncNetNSPortForwards desired ?b example_table = all_of (map (append_rule_pair ?b) desired) ?t"
    by (simp add: table_eval example_table_def preroutingChainName_def outputChainName_def set_chain_def
        example_listing example_fields isLegacyDirectOutputRule_def legacy_fields_def chainRuleArgs_def
        prerouting_jump_def output_jump_def fun_upd_twist del: all_of.simps(2))
  moreover have "fst (all_of (map (append_rule_pair ?b) desired) ?t) = None"
    by (rule table_append [of _ _ "[bridge_guard]" "[]"]) simp_all
  ultimately show ?thesis by simp
qed


section \<open>Handlers and the table\<close>

lemma plugin_Mutate_ok:
  assumes "plugin_Mutate dir f s = (Inr d, s1)"
  shows "\<exists>d0. f d0 = Inr d \<and> s_cache s1 = Some d \<and> w_file (s_world s1) = Holds d \<and> s_kernel s1 = s_kernel s"
proof -
  obtain r err sd w where m: "mutateData dir (plain_mutator f) (s_cache s) (s_world s) = ((r, err), sd, w)"
    by (metis prod.collapse)
  then have e: "err = None" "r = Some d" "s1 = s\<lparr>s_cache := sd, s_world := w\<rparr>"
    using assms by (auto simp: plugin_Mutate_def MutateData_def split: option.splits)
  from m show ?thesis
    by (cases rule: mutateData_cases) (use e in \<open>auto simp: plain_mutator_Inr\<close>)
qed

lemma plugin_Get_cached: "s_cache s = Some d \<Longrightarrow> plugin_Get dir s = (Inr d, s)"
  by (simp add: plugin_Get_def getLocked_def)

lemma plugin_Get_caches: "plugin_Get dir s = (Inr d, s1) \<Longrightarrow> s_cache s1 = Some d"
  by (auto simp: plugin_Get_def getLocked_def Let_def split: prod.splits sum.splits option.splits if_splits)

lemma runInNetNS_ok: "runInNetNS K ns f s = (None, s') \<Longrightarrow> f s = (None, s')"
  by (auto simp: runInNetNS_def in_context_ok runInNetNSOnLockedThread_def split: if_splits prod.splits option.splits)

lemma on_kernel_ok: "on_kernel a s = (None, s') \<longleftrightarrow> (\<exists>k. a (s_kernel s) = (None, k) \<and> s' = s\<lparr>s_kernel := k\<rparr>)"
  by (auto simp: on_kernel_def split: prod.splits)

definition same_except :: "string option \<Rightarrow> table \<Rightarrow> table \<Rightarrow> bool" where
  "same_except ns t t' \<longleftrightarrow> (\<forall>ns'. ns' \<noteq> ns \<longrightarrow> t' ns' = t ns')"

lemma kernel_sync_ok:
  assumes "iptables_spec K rules"
    and "on_kernel (syncNetNSPortForwards desired (iptablesBackend K ns)) s = (None, s')"
  shows "forwards_exactly (rules (s_kernel s')) ns desired \<and> s_cache s' = s_cache s \<and> s_world s' = s_world s \<and>
    same_except ns (rules (s_kernel s)) (rules (s_kernel s'))"
proof -
  obtain k where k: "syncNetNSPortForwards desired (iptablesBackend K ns) (s_kernel s) = (None, k)"
    "s' = s\<lparr>s_kernel := k\<rparr>" using assms(2) by (auto simp: on_kernel_ok)
  note e = sync_exact [OF assms(1) k(1)]
  have "forwards_exactly (rules k) ns desired" using e by (rule conjunct1)
  moreover have "rules k ns' = rules (s_kernel s) ns'" if "ns' \<noteq> ns" for ns'
    using conjunct2 [OF conjunct2 [OF e]] that by (intro ext) simp
  ultimately show ?thesis by (simp add: k(2) same_except_def)
qed

lemma syncCurrent_ok:
  assumes "iptables_spec K rules" "s_cache s = Some d" "syncCurrentPortForwards K dir ns s = (None, s')"
  shows "forwards_exactly (rules (s_kernel s')) (Some ns) (desiredPortForwardsForNetNS (Some d) ns) \<and>
    s_cache s' = Some d \<and> s_world s' = s_world s \<and> same_except (Some ns) (rules (s_kernel s)) (rules (s_kernel s'))"
proof -
  have "on_kernel (syncNetNSPortForwards (desiredPortForwardsForNetNS (Some d) ns) (iptablesBackend K (Some ns))) s =
      (None, s')"
    using assms(3) unfolding syncCurrentPortForwards_def plugin_Get_cached [OF assms(2)]
    by (auto dest: runInNetNS_ok)
  from kernel_sync_ok [OF assms(1) this] show ?thesis using assms(2) by simp
qed

text \<open>The table agrees with the data for one network.\<close>

definition net_in_sync :: "('k \<Rightarrow> table) \<Rightarrow> string \<Rightarrow> 'k sys \<Rightarrow> 'k sys \<Rightarrow> bool" where
  "net_in_sync rules nid s s' \<longleftrightarrow>
     (\<exists>d n. s_cache s' = Some d \<and> w_file (s_world s') = Holds d \<and>
        map_of (DockerNetworks d) nid = Some (Some n) \<and>
        (if dn_Mode n = dockerNetworkModeISO then rules (s_kernel s') = rules (s_kernel s)
         else forwards_exactly (rules (s_kernel s')) (Some (dn_NetNS n))
                (desiredPortForwardsForNetNS (Some d) (dn_NetNS n)) \<and>
              same_except (Some (dn_NetNS n)) (rules (s_kernel s)) (rules (s_kernel s'))))"

lemma answer_ok: "answer r = (Reply 200, s') \<longleftrightarrow> r = (None, s')"
  by (auto simp: answer_def http_Error_def split: prod.splits option.splits)

lemma commit_and_sync_ok:
  assumes "iptables_spec K rules" "commit_and_sync K dir status nid f s = (Reply 200, s')" "status \<noteq> 200"
    and "\<And>d0 d. f d0 = Inr d \<Longrightarrow> \<exists>n. map_of (DockerNetworks d) nid = Some (Some n)"
  shows "net_in_sync rules nid s s'"
proof -
  obtain d s1 where m: "plugin_Mutate dir f s = (Inr d, s1)"
    "sync_after K dir (committed_network nid d) s1 = (Reply 200, s')"
    using assms(2,3) by (auto simp: commit_and_sync_def http_Error_def split: prod.splits sum.splits if_splits)
  note c = plugin_Mutate_ok [OF m(1)]
  obtain n where n: "map_of (DockerNetworks d) nid = Some (Some n)" using assms(4) c by blast
  show ?thesis
  proof (cases "dn_Mode n = dockerNetworkModeISO")
    case True
    then have "s' = s1" using m(2) n by (simp add: sync_after_def committed_network_def)
    then show ?thesis using True c n by (auto simp: net_in_sync_def)
  next
    case False
    then have "syncCurrentPortForwards K dir (dn_NetNS n) s1 = (None, s')"
      using m(2) n by (simp add: sync_after_def committed_network_def answer_ok)
    with assms(1) c syncCurrent_ok [of K rules s1 d] show ?thesis using False n
      by (auto simp: net_in_sync_def)
  qed
qed

lemma find_network_lookup: "find_network d nid = Inr n \<Longrightarrow> map_of (DockerNetworks d) nid = Some (Some n)"
  by (auto simp: find_network_def split: option.splits)

lemma mutation_keeps_network:
  "create_endpoint_mutation nid eid pfx dbpm d0 = Inr d \<Longrightarrow> \<exists>n. map_of (DockerNetworks d) nid = Some (Some n)"
  "program_mutation nid eid dbpm d0 = Inr d \<Longrightarrow> \<exists>n. map_of (DockerNetworks d) nid = Some (Some n)"
  "revoke_mutation nid eid d0 = Inr d \<Longrightarrow> \<exists>n. map_of (DockerNetworks d) nid = Some (Some n)"
  "delete_endpoint_mutation nid eid d0 = Inr d \<Longrightarrow> \<exists>n. map_of (DockerNetworks d) nid = Some (Some n)"
  "leave_mutation nid eid d0 = Inr d \<Longrightarrow> \<exists>n. map_of (DockerNetworks d) nid = Some (Some n)"
  by (auto simp: create_endpoint_mutation_def program_mutation_def revoke_mutation_def
      delete_endpoint_mutation_def leave_mutation_def put_network_def map_of_update Let_def
      dest: find_network_lookup split: option.splits sum.splits if_splits)

lemma other_command:
  assumes "iptables_spec K rules" "name \<noteq> ''iptables''"
  shows "rules (snd (runCmd K ns name args k)) = rules k"
proof -
  have "rules (snd (exec K ns name (withCommandDefaults name args) k)) = rules k"
    using assms by (simp add: iptables_spec_def)
  then show ?thesis by (auto simp: runCmd_def split: prod.splits option.splits)
qed

lemma join_nat_errs_None: "join_nat_errs [a, b] = None \<longleftrightarrow> a = None \<and> b = None"
  by (cases a; cases b) (simp_all add: join_nat_errs_def List.map_filter_def)

lemma leave_in_sync:
  assumes "iptables_spec K rules" "LeaveNetwork K dir (nid, eid) s = (Reply 200, s')"
  shows "net_in_sync rules nid s s'"
proof -
  obtain leave s1 where l: "leaveNetworkState_of dir nid eid s = (Inr leave, s1)"
    "leaveNetwork K dir leave s1 = (None, s')"
    using assms(2) by (auto simp: LeaveNetwork_def http_Error_def answer_ok split: prod.splits sum.splits if_splits)
  obtain d ifn where d: "plugin_Mutate dir (leave_mutation nid eid) s = (Inr d, s1)"
    "leave = \<lparr>ls_netns = fst (committed_network nid d), ls_ifName = ifn, ls_mode = snd (committed_network nid d)\<rparr>"
    using l(1) by (auto simp: leaveNetworkState_of_def split: prod.splits sum.splits)
  note c = plugin_Mutate_ok [OF d(1)]
  obtain n where n: "map_of (DockerNetworks d) nid = Some (Some n)"
    using c mutation_keeps_network(5) by blast
  have leave: "ls_netns leave = dn_NetNS n" "ls_mode leave = dn_Mode n"
    using d(2) n by (simp_all add: committed_network_def)
  obtain s2 k where s2: "leave_forwards K dir leave s1 = (None, s2)"
    "runCmd K (Some (dn_NetNS n)) ''ip'' [''link'', ''del'', ls_ifName leave] (s_kernel s2) = (None, k)"
    "s' = s2\<lparr>s_kernel := k\<rparr>"
    using runInNetNS_ok [OF l(2) [unfolded leaveNetwork_def]]
    by (auto simp: join_nat_errs_None leave on_kernel_def split: prod.splits)
  have k: "rules k = rules (s_kernel s2)"
    using other_command [OF assms(1), of "''ip''" "Some (dn_NetNS n)" "[''link'', ''del'', ls_ifName leave]"
      "s_kernel s2"] s2(2) by simp
  show ?thesis
  proof (cases "dn_Mode n = dockerNetworkModeISO")
    case True
    then have "s2 = s1" using s2(1) leave by (simp add: leave_forwards_def)
    then show ?thesis using True c n k s2(3) by (auto simp: net_in_sync_def)
  next
    case False
    have g: "plugin_Get dir s1 = (Inr d, s1)" using c by (intro plugin_Get_cached) blast
    have "on_kernel (syncNetNSPortForwards (desiredPortForwardsForNetNS (Some d) (dn_NetNS n))
        (iptablesBackend K (Some (dn_NetNS n)))) s1 = (None, s2)"
      using s2(1) False leave by (simp add: leave_forwards_def currentPortForwardsForNetNS_def g)
    from kernel_sync_ok [OF assms(1) this] show ?thesis using False n c k s2(3)
      by (auto simp: net_in_sync_def)
  qed
qed

fun synced_network :: "request \<Rightarrow> string option" where
  "synced_network (ReqCreateEndpoint (nid, _)) = Some nid"
| "synced_network (ReqDeleteEndpoint (nid, _)) = Some nid"
| "synced_network (ReqProgram (nid, _)) = Some nid"
| "synced_network (ReqRevoke (nid, _)) = Some nid"
| "synced_network (ReqLeave (nid, _)) = Some nid"
| "synced_network _ = None"


definition example_sys :: "table sys" where
  "example_sys = \<lparr>s_cache = None, s_world = quiet_world (Holds example_nets) (\<lambda>_. False), s_kernel = example_table\<rparr>"

definition example_nets_left :: Data where
  "example_nets_left = new_Data\<lparr>DataVersion := CurrentDataVersion,
     DockerNetworks := [(''n'', Some (example_network\<lparr>dn_Endpoints := [], dn_PortMap := []\<rparr>))]\<rparr>"

lemma example_delete: "delete_endpoint_mutation ''n'' ''e1'' example_nets = Inr example_nets_left"
  by (simp add: delete_endpoint_mutation_def example_nets_def find_network_def example_network_def
      removeEndpointPortMappings_def put_network_def example_nets_left_def)

lemma example_nets_version: "DataVersion example_nets = CurrentDataVersion"
  by (simp add: example_nets_def)

lemma example_commit_current:
  assumes "f example_nets = Inr d"
  shows "\<exists>s1. plugin_Mutate [] f example_sys = (Inr d, s1) \<and> s_cache s1 = Some d \<and> s_kernel s1 = example_table"
  using assms migrate_current [of example_nets]
  by (simp add: example_nets_version plugin_Mutate_def MutateData_def example_sys_def store_eval plain_mutator_def)

lemma example_sync_current:
  assumes "s_cache s1 = Some d" "s_kernel s1 = example_table"
  shows "fst (syncCurrentPortForwards table_kernel [] ''/ns'' s1) = None"
proof -
  obtain t where "syncNetNSPortForwards (desiredPortForwardsForNetNS (Some d) ''/ns'')
      (iptablesBackend table_kernel (Some ''/ns'')) example_table = (None, t)"
    using example_sync by (metis prod.collapse)
  then show ?thesis
    by (simp add: syncCurrentPortForwards_def plugin_Get_cached [OF assms(1)] runInNetNS_def in_context_def
        runInNetNSOnLockedThread_def table_netns on_kernel_def assms(2))
qed

lemma example_served:
  "fst (serve table_kernel [] (ReqDeleteEndpoint (''n'', ''e1'')) example_sys) = Reply 200"
proof -
  obtain s1 where s1: "plugin_Mutate [] (delete_endpoint_mutation ''n'' ''e1'') example_sys = (Inr example_nets_left, s1)"
    "s_cache s1 = Some example_nets_left" "s_kernel s1 = example_table"
    using example_commit_current [of "delete_endpoint_mutation ''n'' ''e1''", OF example_delete] by blast
  have "committed_network ''n'' example_nets_left = (''/ns'', [])"
    by (simp add: committed_network_def example_nets_left_def example_network_def)
  then show ?thesis using example_sync_current [OF s1(2,3)]
    by (auto simp: DeleteEndpoint_def commit_and_sync_def s1(1) sync_after_def dockerNetworkModeISO_def answer_def
        split: prod.splits option.splits)
qed

section \<open>Start-up\<close>

lemma forwards_kept:
  "same_except ns t t' \<Longrightarrow> ns' \<noteq> ns \<Longrightarrow> forwards_exactly t ns' r \<Longrightarrow> forwards_exactly t' ns' r"
  by (auto simp: same_except_def forwards_exactly_def)

lemma reconcile_loop_ok:
  assumes "iptables_spec K rules" "\<And>ns k. stat_netns K ns k = Some (ns \<in> live)"
    and "reconcile_loop K dir nss s = ([], s')" "s_cache s = Some d" "distinct nss" "[] \<notin> set nss"
    and "list_all (\<lambda>ns. forwards_exactly (rules (s_kernel s)) (Some ns) (desiredPortForwardsForNetNS (Some d) ns)) ready"
    and "set ready \<inter> set nss = {}"
  shows "s_cache s' = Some d \<and> s_world s' = s_world s \<and>
    list_all (\<lambda>ns. ns \<in> live \<longrightarrow>
      forwards_exactly (rules (s_kernel s')) (Some ns) (desiredPortForwardsForNetNS (Some d) ns)) nss \<and>
    list_all (\<lambda>ns. forwards_exactly (rules (s_kernel s')) (Some ns) (desiredPortForwardsForNetNS (Some d) ns)) ready"
  using assms(3-)
proof (induction nss arbitrary: s ready)
  case (Cons ns nss)
  have e: "netnsPathExists K ns (s_kernel s) = Inr (ns \<in> live)"
    using Cons.prems(4) by (auto simp: netnsPathExists_def assms(2))
  show ?case
  proof (cases "ns \<in> live")
    case False
    then have "reconcile_loop K dir nss s = ([], s')" using Cons.prems(1) e by simp
    from Cons.IH [OF this Cons.prems(2) _ _ Cons.prems(5)] Cons.prems False show ?thesis by auto
  next
    case True
    then obtain s1 where s1: "syncCurrentPortForwards K dir ns s = (None, s1)" "reconcile_loop K dir nss s1 = ([], s')"
      using Cons.prems(1) e by (auto simp: apfst_def map_prod_def split: prod.splits option.splits)
    note y = syncCurrent_ok [OF assms(1) Cons.prems(2) s1(1)]
    have "list_all (\<lambda>ns. forwards_exactly (rules (s_kernel s1)) (Some ns) (desiredPortForwardsForNetNS (Some d) ns))
        (ns # ready)"
      using y Cons.prems(5,6) by (auto simp: list_all_iff intro: forwards_kept)
    from Cons.IH [OF s1(2) _ _ _ this] y Cons.prems True show ?thesis by auto
  qed
qed simp


text \<open>
  C13: at start-up, when the reconciliation reports no error, every namespace that exists and
  has a network which is not ISO ends up with exactly the forwards the data asks for; the
  persisted networks passed the check of modes and port maps.
\<close>

theorem reconcile_complete:
  assumes "iptables_spec K rules" "\<And>ns k. stat_netns K ns k = Some (ns \<in> live)"
    and "ReconcilePortForwards K dir s = (None, s')"
  shows "\<exists>d. s_cache s' = Some d \<and> validatePersistedDockerNetworkModes (Some d) = None \<and>
    list_all (\<lambda>ns. ns \<in> live \<longrightarrow>
      forwards_exactly (rules (s_kernel s')) (Some ns) (desiredPortForwardsForNetNS (Some d) ns)) (forwarding_netns d)"
proof -
  obtain s2 d s3 where r: "plugin_Get dir s2 = (Inr d, s3)"
    "reconcilePortForwardsFromData K dir (Some d) s3 = (None, s')"
    using assms(3) by (auto simp: ReconcilePortForwards_def Let_def split: prod.splits sum.splits option.splits)
  have c: "s_cache s3 = Some d" using plugin_Get_caches [OF r(1)] .
  let ?nss = "sort (map fst (desiredPortForwardsByNetNS (Some d)))"
  have nss: "set ?nss = set (forwarding_netns d)" "distinct ?nss" "[] \<notin> set ?nss"
    by (auto simp: desiredPortForwardsByNetNS_def comp_def forwarding_netns_def)
  have v: "validatePersistedDockerNetworkModes (Some d) = None" "reconcile_loop K dir ?nss s3 = ([], s')"
    using r(2) by (auto simp: reconcilePortForwardsFromData_def split: option.splits prod.splits list.splits)
  have "s_cache s' = Some d \<and> list_all (\<lambda>ns. ns \<in> live \<longrightarrow>
      forwards_exactly (rules (s_kernel s')) (Some ns) (desiredPortForwardsForNetNS (Some d) ns)) ?nss"
    using reconcile_loop_ok [OF assms(1,2) v(2) c nss(2,3), where ready = "[]"] by simp
  then show ?thesis using v(1) unfolding list_all_iff nss(1) by blast
qed

lemma example_reconcile: "fst (ReconcilePortForwards table_kernel [] example_sys) = None"
proof -
  have l: "listDockerNetworkIDs table_kernel t = (Inr [''n''], t)" for t
    by (simp add: listDockerNetworkIDs_def table_kernel_def table_exec_def splitNonEmptyLines_def TrimSpace_def is_space_def)
  have "pruneMissing [''n''] example_nets = Inr example_nets"
    by (simp add: pruneMissing_def example_nets_def)
  from example_commit_current [of "pruneMissing [''n'']", OF this] obtain s1 where
    s1: "plugin_Mutate [] (pruneMissing [''n'']) example_sys = (Inr example_nets, s1)"
    "s_cache s1 = Some example_nets" "s_kernel s1 = example_table" by blast
  have v: "validatePersistedDockerNetworkModes (Some example_nets) = None"
    by (simp add: validatePersistedDockerNetworkModes_def example_nets_def List.map_filter_def network_error_def
        example_network_def validateDockerNetworkMode_def dockerNetworkModeISO_def)
  have n: "map fst (desiredPortForwardsByNetNS (Some example_nets)) = [''/ns'']"
    by (simp add: desiredPortForwardsByNetNS_def forwarding_netns_def example_nets_def example_network_def
        dockerNetworkModeISO_def)
  obtain s2 where y: "syncCurrentPortForwards table_kernel [] ''/ns'' s1 = (None, s2)"
    using example_sync_current [OF s1(2,3)] by (metis prod.collapse)
  show ?thesis
    by (simp add: ReconcilePortForwards_def l s1(1) plugin_Get_cached [OF s1(2)] reconcilePortForwardsFromData_def
        v n netnsPathExists_def table_netns y)
qed

theorem reconcile_complete_witness:
  "\<exists>s'. ReconcilePortForwards table_kernel [] example_sys = (None, s') \<and>
     (\<exists>d. s_cache s' = Some d \<and> validatePersistedDockerNetworkModes (Some d) = None)"
proof -
  obtain s' where s: "ReconcilePortForwards table_kernel [] example_sys = (None, s')"
    using example_reconcile by (metis prod.collapse)
  show ?thesis using reconcile_complete [OF table_kernel_spec _ s, of UNIV] s table_netns(5) by auto
qed

end
