(* ===== verification/Op_Locks.thy ===== *)
theory Op_Locks
  imports Prelude
begin

text \<open>
  Per-service operation locks (\<^verbatim>\<open>src/pkg/catch/service_operation_lock.go\<close>): a call of \<open>Lock\<close> registers
  its names in the table under the table's mutex, creating the missing locks and counting
  references, then takes the locks in lexical order; the returned function unlocks them in
  reverse and drops the references, deleting locks nobody refers to.

  Goroutines are numbered and interleave: \<open>op_step\<close> is one atomic action of one of them. A
  section under the table's mutex is one action; every lock and unlock of a service lock is
  an action of its own. Locks are heap objects, so a name may be bound to different objects
  over time. Reference counts are unbounded here. The lemmas show that the binding of a name
  is stable while anybody uses it, mutual exclusion, the absence of deadlock, that every call
  ends, and that an idle table is empty.
\<close>

definition uniqueSortedServiceOperationNames :: "string list \<Rightarrow> string list" where
  "uniqueSortedServiceOperationNames names = sort (remdups (filter (\<lambda>n. n \<noteq> []) names))"

type_synonym entry = "string \<times> nat"

record lock_table =
  lt_locks :: "entry list"
  lt_refs :: "nat \<Rightarrow> int"
  lt_fresh :: nat

text \<open>One round of the loop of \<open>Lock\<close> under the mutex: find or create the lock, count a reference.\<close>

definition register_lock :: "string \<Rightarrow> lock_table \<Rightarrow> nat \<times> lock_table" where
  "register_lock n tb =
     (let (a, tb1) =
            (case map_of (lt_locks tb) n of
               Some a \<Rightarrow> (a, tb)
             | None \<Rightarrow> (lt_fresh tb, tb\<lparr>lt_locks := AList.update n (lt_fresh tb) (lt_locks tb),
                           lt_refs := (lt_refs tb)(lt_fresh tb := 0), lt_fresh := Suc (lt_fresh tb)\<rparr>))
      in (a, tb1\<lparr>lt_refs := (lt_refs tb1)(a := lt_refs tb1 a + 1)\<rparr>))"

fun register_locks :: "string list \<Rightarrow> lock_table \<Rightarrow> entry list \<times> lock_table" where
  "register_locks [] tb = ([], tb)"
| "register_locks (n # ns) tb =
     (let (a, tb1) = register_lock n tb; (es, tb2) = register_locks ns tb1 in ((n, a) # es, tb2))"

text \<open>The loop of the unlock function under the mutex.\<close>

fun drop_locks :: "entry list \<Rightarrow> lock_table \<Rightarrow> lock_table" where
  "drop_locks [] tb = tb"
| "drop_locks ((n, a) # es) tb =
     (let tb1 = tb\<lparr>lt_refs := (lt_refs tb)(a := lt_refs tb a - 1)\<rparr> in
      drop_locks es (if lt_refs tb1 a = 0 then tb1\<lparr>lt_locks := AList.delete n (lt_locks tb1)\<rparr> else tb1))"

text \<open>
  Where a goroutine is in its call: \<open>Acquiring es k\<close> has taken the first \<open>k\<close> locks,
  \<open>Releasing es k\<close> has still to unlock the first \<open>k\<close>.
\<close>

datatype call_phase =
    Idle
  | Acquiring "entry list" nat
  | Holding "entry list"
  | Releasing "entry list" nat

record op_state =
  os_table :: lock_table
  os_owner :: "nat \<Rightarrow> nat option"
  os_phase :: "nat \<Rightarrow> call_phase"

definition set_phase :: "nat \<Rightarrow> call_phase \<Rightarrow> op_state \<Rightarrow> op_state" where
  "set_phase t p s = s\<lparr>os_phase := (os_phase s)(t := p)\<rparr>"

inductive op_step :: "nat \<Rightarrow> op_state \<Rightarrow> op_state \<Rightarrow> bool" where
  Take: "\<lbrakk>os_phase s t = Acquiring es k; k < length es; os_owner s (snd (es ! k)) = None\<rbrakk> \<Longrightarrow>
    op_step t s (set_phase t (Acquiring es (Suc k))
      (s\<lparr>os_owner := (os_owner s)(snd (es ! k) := Some t)\<rparr>))"
| Enter: "os_phase s t = Acquiring es (length es) \<Longrightarrow> op_step t s (set_phase t (Holding es) s)"
| Unlock: "os_phase s t = Holding es \<Longrightarrow> op_step t s (set_phase t (Releasing es (length es)) s)"
| Release: "os_phase s t = Releasing es (Suc k) \<Longrightarrow>
    op_step t s (set_phase t (Releasing es k) (s\<lparr>os_owner := (os_owner s)(snd (es ! k) := None)\<rparr>))"
| Drop: "os_phase s t = Releasing es 0 \<Longrightarrow>
    op_step t s (set_phase t Idle (s\<lparr>os_table := drop_locks es (os_table s)\<rparr>))"

text \<open>A new call; with no name to lock it returns at once.\<close>

inductive op_call :: "nat \<Rightarrow> string list \<Rightarrow> op_state \<Rightarrow> op_state \<Rightarrow> bool" where
  NoNames: "\<lbrakk>os_phase s t = Idle; uniqueSortedServiceOperationNames names = []\<rbrakk> \<Longrightarrow> op_call t names s s"
| Register: "\<lbrakk>os_phase s t = Idle; uniqueSortedServiceOperationNames names \<noteq> [];
    register_locks (uniqueSortedServiceOperationNames names) (os_table s) = (es, tb)\<rbrakk> \<Longrightarrow>
    op_call t names s (set_phase t (Acquiring es 0) (s\<lparr>os_table := tb\<rparr>))"

definition op_init :: op_state where
  "op_init = \<lparr>os_table = \<lparr>lt_locks = [], lt_refs = (\<lambda>_. 0), lt_fresh = 0\<rparr>, os_owner = (\<lambda>_. None),
     os_phase = (\<lambda>_. Idle)\<rparr>"

inductive op_reachable :: "op_state \<Rightarrow> bool" where
  Init: "op_reachable op_init"
| Step: "op_reachable s \<Longrightarrow> op_step t s s' \<Longrightarrow> op_reachable s'"
| Call: "op_reachable s \<Longrightarrow> op_call t names s s' \<Longrightarrow> op_reachable s'"

inductive_cases op_stepE: "op_step t s s'"
inductive_cases op_callE: "op_call t names s s'"

section \<open>The invariant\<close>

fun call_locks :: "call_phase \<Rightarrow> entry list" where
  "call_locks Idle = []"
| "call_locks (Acquiring es k) = es"
| "call_locks (Holding es) = es"
| "call_locks (Releasing es k) = es"

fun call_held :: "call_phase \<Rightarrow> entry list" where
  "call_held Idle = []"
| "call_held (Acquiring es k) = take k es"
| "call_held (Holding es) = es"
| "call_held (Releasing es k) = take k es"

fun phase_ok :: "call_phase \<Rightarrow> bool" where
  "phase_ok (Acquiring es k) = (k \<le> length es)"
| "phase_ok (Releasing es k) = (k \<le> length es)"
| "phase_ok _ = True"

definition table_ok :: "lock_table \<Rightarrow> bool" where
  "table_ok tb \<longleftrightarrow> distinct (map fst (lt_locks tb)) \<and> distinct (map snd (lt_locks tb)) \<and>
     (\<forall>(n, a) \<in> set (lt_locks tb). a < lt_fresh tb)"

definition users :: "op_state \<Rightarrow> entry \<Rightarrow> nat set" where
  "users s e = {t. e \<in> set (call_locks (os_phase s t))}"

definition op_ok :: "op_state \<Rightarrow> bool" where
  "op_ok s \<longleftrightarrow>
     table_ok (os_table s) \<and>
     (\<forall>t. set (call_locks (os_phase s t)) \<subseteq> set (lt_locks (os_table s))) \<and>
     (\<forall>(n, a) \<in> set (lt_locks (os_table s)). lt_refs (os_table s) a = int (card (users s (n, a))) \<and> users s (n, a) \<noteq> {}) \<and>
     (\<forall>t. sorted_wrt (<) (map fst (call_locks (os_phase s t))) \<and> phase_ok (os_phase s t)) \<and>
     (\<forall>a t. os_owner s a = Some t \<longleftrightarrow> a \<in> snd ` set (call_held (os_phase s t))) \<and>
     finite {t. os_phase s t \<noteq> Idle}"

lemma unique_names: "sorted_wrt (<) (uniqueSortedServiceOperationNames names)"
  "set (uniqueSortedServiceOperationNames names) = set names - {[]}"
  by (auto simp: uniqueSortedServiceOperationNames_def strict_sorted_iff)

lemma table_entry: "table_ok tb \<Longrightarrow> (n, a) \<in> set (lt_locks tb) \<longleftrightarrow> map_of (lt_locks tb) n = Some a"
  by (auto simp: table_ok_def dest: map_of_SomeD)

lemma table_addr_inj:
  "\<lbrakk>table_ok tb; (n, a) \<in> set (lt_locks tb); (m, a) \<in> set (lt_locks tb)\<rbrakk> \<Longrightarrow> n = m"
  unfolding table_ok_def distinct_map using inj_onD [of snd _ "(n, a)" "(m, a)"] by auto

lemma table_unique:
  "\<lbrakk>table_ok tb; (n, a) \<in> set (lt_locks tb); (n, b) \<in> set (lt_locks tb)\<rbrakk> \<Longrightarrow> a = b"
  by (simp add: table_entry)

text \<open>What registering and dropping do to the table.\<close>

definition refs_follow :: "string set \<Rightarrow> lock_table \<Rightarrow> lock_table \<Rightarrow> bool" where
  "refs_follow ns tb tb' \<longleftrightarrow> (\<forall>n a. (n, a) \<in> set (lt_locks tb') \<longrightarrow>
     lt_refs tb' a = (if (n, a) \<in> set (lt_locks tb) then lt_refs tb a else 0) + (if n \<in> ns then 1 else 0))"

lemma register_lock_spec:
  assumes "table_ok tb" "register_lock n tb = (a, tb')"
  shows "table_ok tb'" "(n, a) \<in> set (lt_locks tb')" "set (lt_locks tb) \<subseteq> set (lt_locks tb')"
    "fst ` set (lt_locks tb') = insert n (fst ` set (lt_locks tb))" "refs_follow {n} tb tb'"
proof -
  consider (old) "map_of (lt_locks tb) n = Some a" "tb' = tb\<lparr>lt_refs := (lt_refs tb)(a := lt_refs tb a + 1)\<rparr>"
    | (new) "map_of (lt_locks tb) n = None" "a = lt_fresh tb"
      "tb' = tb\<lparr>lt_locks := lt_locks tb @ [(n, a)], lt_refs := (lt_refs tb)(a := 1), lt_fresh := Suc a\<rparr>"
    using assms(2) by (auto simp: register_lock_def update_fresh map_of_eq_None_iff split: option.splits)
  then have "table_ok tb' \<and> (n, a) \<in> set (lt_locks tb') \<and> set (lt_locks tb) \<subseteq> set (lt_locks tb') \<and>
    fst ` set (lt_locks tb') = insert n (fst ` set (lt_locks tb)) \<and> refs_follow {n} tb tb'"
  proof cases
    case old
    have "(n, a) \<in> set (lt_locks tb)" using old(1) by (rule map_of_SomeD)
    moreover have "refs_follow {n} tb tb'"
      using calculation table_addr_inj [OF assms(1)] old assms(1)
      by (auto simp: refs_follow_def table_entry)
    ultimately show ?thesis using old(2) assms(1) by (force simp: table_ok_def)
  next
    case new
    have "n \<notin> fst ` set (lt_locks tb)" using new(1) by (simp add: map_of_eq_None_iff)
    moreover have "\<forall>(m, b) \<in> set (lt_locks tb). b < a" using assms(1) new(2) by (simp add: table_ok_def)
    moreover from this have "a \<notin> snd ` set (lt_locks tb)" by auto
    moreover from calculation have "table_ok tb'" using assms(1) new(3) by (auto simp: table_ok_def)
    moreover from calculation have "refs_follow {n} tb tb'" by (auto simp: refs_follow_def new(3) rev_image_eqI)
    ultimately show ?thesis by (simp add: new(3) subset_insertI)
  qed
  then show "table_ok tb'" "(n, a) \<in> set (lt_locks tb')" "set (lt_locks tb) \<subseteq> set (lt_locks tb')"
    "fst ` set (lt_locks tb') = insert n (fst ` set (lt_locks tb))" "refs_follow {n} tb tb'" by simp_all
qed

lemma register_locks_spec:
  assumes "table_ok tb" "distinct ns" "register_locks ns tb = (es, tb')"
  shows "table_ok tb' \<and> map fst es = ns \<and> set es \<subseteq> set (lt_locks tb') \<and>
    set (lt_locks tb) \<subseteq> set (lt_locks tb') \<and>
    fst ` set (lt_locks tb') = fst ` set (lt_locks tb) \<union> set ns \<and> refs_follow (set ns) tb tb'"
  using assms
proof (induction ns arbitrary: tb es)
  case (Cons n ns)
  obtain a tb1 es1 where r: "register_lock n tb = (a, tb1)" "register_locks ns tb1 = (es1, tb')" "es = (n, a) # es1"
    using Cons.prems(3) by (auto simp: Let_def split: prod.splits)
  note one = register_lock_spec [OF Cons.prems(1) r(1)]
  have rest: "table_ok tb' \<and> map fst es1 = ns \<and> set es1 \<subseteq> set (lt_locks tb') \<and>
    set (lt_locks tb1) \<subseteq> set (lt_locks tb') \<and>
    fst ` set (lt_locks tb') = fst ` set (lt_locks tb1) \<union> set ns \<and> refs_follow (set ns) tb1 tb'"
    using Cons.IH [OF one(1) _ r(2)] Cons.prems(2) by simp
  have "refs_follow (set (n # ns)) tb tb'"
    unfolding refs_follow_def
  proof (intro allI impI)
    fix m b assume m: "(m, b) \<in> set (lt_locks tb')"
    show "lt_refs tb' b = (if (m, b) \<in> set (lt_locks tb) then lt_refs tb b else 0) + (if m \<in> set (n # ns) then 1 else 0)"
    proof (cases "(m, b) \<in> set (lt_locks tb1)")
      case True
      then show ?thesis using rest one(5) m Cons.prems(2) by (auto simp: refs_follow_def)
    next
      case False
      then have "m \<notin> fst ` set (lt_locks tb1)"
        using rest m table_entry [of tb'] one(1) by (metis (no_types, lifting) image_iff option.inject prod.collapse subsetD)
      then have "m \<noteq> n" using one(2) by force
      then show ?thesis using rest m False one(3) by (auto simp: refs_follow_def)
    qed
  qed
  then show ?case using rest one r(3) by auto
qed (auto simp: refs_follow_def)

lemma drop_refs:
  "distinct (map snd es) \<Longrightarrow>
   lt_refs (drop_locks es tb) b = lt_refs tb b - (if b \<in> snd ` set es then 1 else 0)"
proof (induction es arbitrary: tb)
  case (Cons e es)
  then show ?case by (cases e) (auto simp: Let_def)
qed simp

lemma drop_fresh: "lt_fresh (drop_locks es tb) = lt_fresh tb"
  by (induction es tb rule: drop_locks.induct) (auto simp: Let_def)

lemma delete_entry:
  "\<lbrakk>distinct (map fst xs); (n, a) \<in> set xs\<rbrakk> \<Longrightarrow> AList.delete n xs = filter (\<lambda>e. e \<noteq> (n, a)) xs"
  by (force simp: AList.delete_eq intro!: filter_cong dest: eq_key_imp_eq_value)

lemma table_ok_filter: "table_ok tb \<Longrightarrow> table_ok (tb\<lparr>lt_refs := r, lt_locks := filter P (lt_locks tb)\<rparr>)"
  by (auto simp: table_ok_def distinct_map_filter)

lemma drop_locks_spec:
  assumes "table_ok tb" "distinct (map fst es)" "set es \<subseteq> set (lt_locks tb)"
  shows "lt_locks (drop_locks es tb) = filter (\<lambda>e. \<not> (e \<in> set es \<and> lt_refs tb (snd e) = 1)) (lt_locks tb)"
  using assms
proof (induction es arbitrary: tb)
  case (Cons e es)
  obtain n a where e: "e = (n, a)" by (cases e)
  let ?P = "\<lambda>e. e \<noteq> (n, a) \<or> lt_refs tb a \<noteq> 1"
  define tb2 where "tb2 = tb\<lparr>lt_refs := (lt_refs tb)(a := lt_refs tb a - 1), lt_locks := filter ?P (lt_locks tb)\<rparr>"
  have mem: "(n, a) \<in> set (lt_locks tb)" and keys: "distinct (map fst (lt_locks tb))"
    using Cons.prems e by (auto simp: table_ok_def)
  have d: "drop_locks (e # es) tb = drop_locks es tb2"
    by (cases "lt_refs tb a = 1") (simp_all add: e tb2_def Let_def delete_entry [OF keys mem])
  have ne: "e' \<noteq> (n, a)" if "e' \<in> set es" for e' using Cons.prems(2) that e by force
  have "lt_locks (drop_locks es tb2) = filter (\<lambda>e. \<not> (e \<in> set es \<and> lt_refs tb2 (snd e) = 1)) (lt_locks tb2)"
  proof (rule Cons.IH)
    show "table_ok tb2" unfolding tb2_def using Cons.prems(1) by (rule table_ok_filter)
    show "distinct (map fst es)" using Cons.prems(2) by simp
    show "set es \<subseteq> set (lt_locks tb2)" using Cons.prems(3) ne by (auto simp: tb2_def)
  qed
  moreover have "(?P e' \<and> \<not> (e' \<in> set es \<and> lt_refs tb2 (snd e') = 1)) \<longleftrightarrow>
      \<not> (e' \<in> set (e # es) \<and> lt_refs tb (snd e') = 1)" if m: "e' \<in> set (lt_locks tb)" for e'
  proof (cases "e' = (n, a)")
    case True
    then show ?thesis using ne e by auto
  next
    case False
    then have "snd e' \<noteq> a" using table_addr_inj [OF Cons.prems(1), of "fst e'" a n] mem m by auto
    then show ?thesis using False e by (simp add: tb2_def)
  qed
  ultimately show ?case unfolding d by (simp add: tb2_def cong: filter_cong)
qed simp

section \<open>Every action keeps the invariant\<close>

lemma op_okD:
  assumes "op_ok s"
  shows "table_ok (os_table s)" "set (call_locks (os_phase s t)) \<subseteq> set (lt_locks (os_table s))"
    "(n, a) \<in> set (lt_locks (os_table s)) \<Longrightarrow> lt_refs (os_table s) a = int (card (users s (n, a))) \<and> users s (n, a) \<noteq> {}"
    "sorted_wrt (<) (map fst (call_locks (os_phase s t)))" "phase_ok (os_phase s t)"
    "os_owner s b = Some t \<longleftrightarrow> b \<in> snd ` set (call_held (os_phase s t))" "finite {t. os_phase s t \<noteq> Idle}"
  using assms unfolding op_ok_def by auto

lemma op_okI:
  assumes "table_ok (os_table s)" "\<And>t. set (call_locks (os_phase s t)) \<subseteq> set (lt_locks (os_table s))"
    and "\<And>n a. (n, a) \<in> set (lt_locks (os_table s)) \<Longrightarrow>
      lt_refs (os_table s) a = int (card (users s (n, a))) \<and> users s (n, a) \<noteq> {}"
    and "\<And>t. sorted_wrt (<) (map fst (call_locks (os_phase s t)))" "\<And>t. phase_ok (os_phase s t)"
    and "\<And>b t. os_owner s b = Some t \<longleftrightarrow> b \<in> snd ` set (call_held (os_phase s t))"
    and "finite {t. os_phase s t \<noteq> Idle}"
  shows "op_ok s"
  using assms unfolding op_ok_def by auto

lemma set_phase_simps [simp]:
  "os_table (set_phase t p s) = os_table s" "os_owner (set_phase t p s) = os_owner s"
  "os_phase (set_phase t p s) = (os_phase s)(t := p)"
  by (simp_all add: set_phase_def)

lemma finite_busy: "finite {u. f u \<noteq> Idle} \<Longrightarrow> finite {u. (f(t := p)) u \<noteq> Idle}"
  by (rule finite_subset [of _ "insert t {u. f u \<noteq> Idle}"]) auto

lemma users_set_phase:
  "users (set_phase t p s) e = (if e \<in> set (call_locks p) then insert t (users s e) else users s e - {t})"
  by (auto simp: users_def)

lemma finite_users: "op_ok s \<Longrightarrow> finite (users s e)"
  by (rule finite_subset [OF _ op_okD(7)]) (auto simp: users_def)

lemma call_distinct:
  assumes "op_ok s"
  shows "distinct (map fst (call_locks (os_phase s t)))" "distinct (map snd (call_locks (os_phase s t)))"
proof -
  show d: "distinct (map fst (call_locks (os_phase s t)))"
    using op_okD(4) [OF assms, of t] by (simp add: strict_sorted_iff)
  have "inj_on snd (set (lt_locks (os_table s)))"
    using op_okD(1) [OF assms] by (simp add: table_ok_def distinct_map)
  then show "distinct (map snd (call_locks (os_phase s t)))"
    using op_okD(2) [OF assms, of t] d by (auto simp: distinct_map intro: inj_on_subset)
qed

text \<open>A change of phase that keeps the registered locks.\<close>

lemma op_ok_phase:
  assumes "op_ok s" "call_locks p = call_locks (os_phase s t)" "phase_ok p" "p \<noteq> Idle" "os_phase s t \<noteq> Idle"
    and "\<And>b u. ow b = Some u \<longleftrightarrow> b \<in> snd ` set (call_held (((os_phase s)(t := p)) u))"
  shows "op_ok (set_phase t p (s\<lparr>os_owner := ow\<rparr>))"
proof -
  let ?s = "set_phase t p (s\<lparr>os_owner := ow\<rparr>)"
  have l: "call_locks (os_phase ?s u) = call_locks (os_phase s u)" for u using assms(2) by simp
  then have u: "users ?s e = users s e" for e by (simp add: users_def)
  show ?thesis
  proof (rule op_okI)
    fix b u
    show "os_owner ?s b = Some u \<longleftrightarrow> b \<in> snd ` set (call_held (os_phase ?s u))" using assms(6) by simp
    show "phase_ok (os_phase ?s u)" using op_okD(5) [OF assms(1)] assms(3) by simp
    show "sorted_wrt (<) (map fst (call_locks (os_phase ?s u)))" unfolding l using op_okD(4) [OF assms(1)] .
    show "set (call_locks (os_phase ?s u)) \<subseteq> set (lt_locks (os_table ?s))"
      unfolding l using op_okD(2) [OF assms(1)] by simp
  next
    fix n a assume "(n, a) \<in> set (lt_locks (os_table ?s))"
    then show "lt_refs (os_table ?s) a = int (card (users ?s (n, a))) \<and> users ?s (n, a) \<noteq> {}"
      unfolding u using op_okD(3) [OF assms(1)] by simp
  next
    show "finite {u. os_phase ?s u \<noteq> Idle}" using finite_busy [OF op_okD(7) [OF assms(1)]] by simp
  qed (use op_okD(1) [OF assms(1)] in simp)
qed

lemma take_ok:
  assumes "op_ok s" "os_phase s t = Acquiring es k" "k < length es" "os_owner s (snd (es ! k)) = None"
  shows "op_ok (set_phase t (Acquiring es (Suc k)) (s\<lparr>os_owner := (os_owner s)(snd (es ! k) := Some t)\<rparr>))"
proof (rule op_ok_phase)
  fix b u
  have "snd (es ! k) \<notin> snd ` set (call_held (os_phase s v))" for v
    using op_okD(6) [OF assms(1), of "snd (es ! k)" v] assms(4) by simp
  then show "((os_owner s)(snd (es ! k) := Some t)) b = Some u \<longleftrightarrow>
      b \<in> snd ` set (call_held (((os_phase s)(t := Acquiring es (Suc k))) u))"
    using op_okD(6) [OF assms(1), of b u] assms(2,3)
    by (cases "u = t") (auto simp: take_Suc_conv_app_nth)
qed (use assms in auto)

lemma release_ok:
  assumes "op_ok s" "os_phase s t = Releasing es (Suc k)"
  shows "op_ok (set_phase t (Releasing es k) (s\<lparr>os_owner := (os_owner s)(snd (es ! k) := None)\<rparr>))"
proof (rule op_ok_phase)
  have k: "k < length es" using op_okD(5) [OF assms(1), of t] assms(2) by simp
  have d: "distinct (map snd es)" using call_distinct(2) [OF assms(1), of t] assms(2) by simp
  have "distinct (map snd (take (Suc k) es))" using d by (metis distinct_take take_map)
  then have nk: "snd (es ! k) \<notin> snd ` set (take k es)" using k by (simp add: take_Suc_conv_app_nth)
  have own: "os_owner s (snd (es ! k)) = Some t"
    using op_okD(6) [OF assms(1), of "snd (es ! k)" t] assms(2) k by (simp add: take_Suc_conv_app_nth)
  fix b u
  show "((os_owner s)(snd (es ! k) := None)) b = Some u \<longleftrightarrow>
      b \<in> snd ` set (call_held (((os_phase s)(t := Releasing es k)) u))"
    using op_okD(6) [OF assms(1), of b u] assms(2) k nk own
    by (cases "u = t") (auto simp: take_Suc_conv_app_nth)
qed (use assms op_okD(5) [OF assms(1), of t] in auto)

lemma op_ok_enter:
  assumes "op_ok s" "call_locks p = call_locks (os_phase s t)" "call_held p = call_held (os_phase s t)"
    "phase_ok p" "p \<noteq> Idle" "os_phase s t \<noteq> Idle"
  shows "op_ok (set_phase t p s)"
proof -
  have "op_ok (set_phase t p (s\<lparr>os_owner := os_owner s\<rparr>))"
    using assms op_okD(6) [OF assms(1)] by (intro op_ok_phase) auto
  then show ?thesis by simp
qed

lemma drop_ok:
  assumes "op_ok s" "os_phase s t = Releasing es 0"
  shows "op_ok (set_phase t Idle (s\<lparr>os_table := drop_locks es (os_table s)\<rparr>))"
proof -
  let ?s = "set_phase t Idle (s\<lparr>os_table := drop_locks es (os_table s)\<rparr>)"
  note ok = op_okD [OF assms(1)]
  have es: "call_locks (os_phase s t) = es" using assms(2) by simp
  have sub: "set es \<subseteq> set (lt_locks (os_table s))" using ok(2) [of t] es by simp
  have d: "distinct (map fst es)" "distinct (map snd es)" using call_distinct [OF assms(1), of t] es by simp_all
  note spec = drop_locks_spec [OF ok(1) d(1) sub]
  have u: "users ?s e = users s e - {t}" for e by (auto simp: users_def)
  have mem: "t \<in> users s e \<longleftrightarrow> e \<in> set es" for e by (simp add: users_def es)
  have last_user: "lt_refs (os_table s) (snd e) = 1 \<longleftrightarrow> users s e = {t}" if "e \<in> set es" for e
  proof -
    have "lt_refs (os_table s) (snd e) = int (card (users s e))" using ok(3) [of "fst e" "snd e"] sub that by auto
    then show ?thesis using mem [of e] that by (auto simp: card_1_singleton_iff)
  qed
  show ?thesis
  proof (rule op_okI)
    show "table_ok (os_table ?s)"
      using ok(1) spec by (auto simp: table_ok_def drop_fresh distinct_map_filter)
    show "set (call_locks (os_phase ?s v)) \<subseteq> set (lt_locks (os_table ?s))" for v
    proof
      fix e assume "e \<in> set (call_locks (os_phase ?s v))"
      then have v: "v \<noteq> t" "v \<in> users s e" by (auto simp: users_def split: if_splits)
      then have "e \<in> set (lt_locks (os_table s))" using ok(2) [of v] by (auto simp: users_def)
      moreover have "\<not> (e \<in> set es \<and> lt_refs (os_table s) (snd e) = 1)" using last_user v by auto
      ultimately show "e \<in> set (lt_locks (os_table ?s))" using spec by simp
    qed
  next
    fix n a assume "(n, a) \<in> set (lt_locks (os_table ?s))"
    then have e: "(n, a) \<in> set (lt_locks (os_table s))"
      "\<not> ((n, a) \<in> set es \<and> lt_refs (os_table s) a = 1)" using spec by auto
    have in_es: "(n, a) \<in> set es \<longleftrightarrow> a \<in> snd ` set es"
    proof
      assume "a \<in> snd ` set es"
      then obtain m where m: "(m, a) \<in> set es" by auto
      then have "m = n" using table_addr_inj [OF ok(1) _ e(1)] sub by blast
      then show "(n, a) \<in> set es" using m by simp
    qed (auto simp: rev_image_eqI)
    have fin: "finite (users s (n, a))" using finite_users [OF assms(1)] .
    have "users s (n, a) - {t} \<noteq> {}" using last_user [of "(n, a)"] e(2) mem [of "(n, a)"] ok(3) [OF e(1)] by auto
    moreover have "lt_refs (os_table ?s) a = int (card (users s (n, a) - {t}))"
      using ok(3) [OF e(1)] in_es mem [of "(n, a)"] fin
      by (auto simp: drop_refs [OF d(2)] card_Diff_singleton_if of_nat_diff Suc_leI card_gt_0_iff)
    ultimately show "lt_refs (os_table ?s) a = int (card (users ?s (n, a))) \<and> users ?s (n, a) \<noteq> {}"
      unfolding u by simp
  next
    show "os_owner ?s b = Some v \<longleftrightarrow> b \<in> snd ` set (call_held (os_phase ?s v))" for b v
      using ok(6) [of b v] assms(2) by simp
    show "finite {v. os_phase ?s v \<noteq> Idle}" using finite_busy [OF ok(7)] by simp
  qed (use ok(4,5) in simp_all)
qed

lemma register_ok:
  assumes "op_ok s" "os_phase s t = Idle" "sorted_wrt (<) ns" "register_locks ns (os_table s) = (es, tb)"
  shows "op_ok (set_phase t (Acquiring es 0) (s\<lparr>os_table := tb\<rparr>))"
proof -
  let ?s = "set_phase t (Acquiring es 0) (s\<lparr>os_table := tb\<rparr>)"
  note ok = op_okD [OF assms(1)]
  have "distinct ns" using assms(3) by (simp add: strict_sorted_iff)
  note r = register_locks_spec [OF ok(1) this assms(4)]
  have u: "users ?s e = (if e \<in> set es then insert t (users s e) else users s e)" for e
    using assms(2) by (auto simp: users_def)
  have t: "t \<notin> users s e" for e using assms(2) by (simp add: users_def)
  show ?thesis
  proof (rule op_okI)
    show "set (call_locks (os_phase ?s v)) \<subseteq> set (lt_locks (os_table ?s))" for v
      using r ok(2) [of v] by auto
  next
    fix n a assume "(n, a) \<in> set (lt_locks (os_table ?s))"
    then have e: "(n, a) \<in> set (lt_locks tb)" by simp
    have in_es: "(n, a) \<in> set es \<longleftrightarrow> n \<in> set ns"
    proof
      assume "n \<in> set ns"
      then obtain b where b: "(n, b) \<in> set es" using r by force
      then have "b = a" using r e table_unique by blast
      with b show "(n, a) \<in> set es" by simp
    next
      assume "(n, a) \<in> set es"
      then show "n \<in> set ns" using r by (metis fst_conv image_eqI list.set_map)
    qed
    have old: "lt_refs tb a = int (card (users s (n, a))) + (if n \<in> set ns then 1 else 0)"
    proof (cases "(n, a) \<in> set (lt_locks (os_table s))")
      case True
      then show ?thesis using r e ok(3) [OF True] by (auto simp: refs_follow_def)
    next
      case False
      then have "users s (n, a) = {}" using ok(2) by (auto simp: users_def)
      then show ?thesis using r e False by (auto simp: refs_follow_def)
    qed
    have "users ?s (n, a) \<noteq> {}"
    proof (cases "n \<in> set ns")
      case False
      then have "n \<in> fst ` set (lt_locks (os_table s))" using r e by (metis Un_iff fst_conv image_eqI)
      then obtain b where b: "(n, b) \<in> set (lt_locks (os_table s))" by auto
      then have "b = a" using r e table_unique by blast
      with b have "(n, a) \<in> set (lt_locks (os_table s))" by simp
      then show ?thesis using ok(3) u by auto
    qed (use u in_es in simp)
    then show "lt_refs (os_table ?s) a = int (card (users ?s (n, a))) \<and> users ?s (n, a) \<noteq> {}"
      using old u in_es t finite_users [OF assms(1)] by simp
  next
    show "os_owner ?s b = Some v \<longleftrightarrow> b \<in> snd ` set (call_held (os_phase ?s v))" for b v
      using ok(6) [of b v] assms(2) by simp
    show "finite {v. os_phase ?s v \<noteq> Idle}" using finite_busy [OF ok(7)] by simp
    show "sorted_wrt (<) (map fst (call_locks (os_phase ?s v)))" for v using r assms(3) ok(4) [of v] by simp
  qed (use r ok(5) in simp_all)
qed

lemma op_reachable_ok: "op_reachable s \<Longrightarrow> op_ok s"
proof (induction rule: op_reachable.induct)
  case Init
  show ?case by (auto simp: op_ok_def op_init_def table_ok_def)
next
  case (Step s t s')
  from Step(2) Step.IH show ?case
    by (cases rule: op_step.cases) (auto intro: take_ok release_ok drop_ok op_ok_enter)
next
  case (Call s t names s')
  from Call(2) Call.IH show ?case
    by (cases rule: op_call.cases) (auto intro: register_ok unique_names)
qed

section \<open>What callers get\<close>


text \<open>The name a call waits for.\<close>

definition waits_for :: "op_state \<Rightarrow> nat \<Rightarrow> string \<Rightarrow> bool" where
  "waits_for s t n \<longleftrightarrow> (\<exists>es k. os_phase s t = Acquiring es k \<and> k < length es \<and> n = fst (es ! k) \<and>
     os_owner s (snd (es ! k)) \<noteq> None)"

lemma stuck_waits:
  assumes "op_ok s" "os_phase s t \<noteq> Idle" "\<And>s'. \<not> op_step t s s'"
  shows "\<exists>n. waits_for s t n"
proof (cases "os_phase s t")
  case (Acquiring es k)
  then have "k \<le> length es" using op_okD(5) [OF assms(1), of t] by simp
  moreover have "k \<noteq> length es" using Enter [of s t es] Acquiring assms(3) by blast
  ultimately show ?thesis using Take [OF Acquiring] assms(3) Acquiring by (force simp: waits_for_def)
next
  case (Holding es)
  then show ?thesis using Unlock assms(3) by blast
next
  case (Releasing es k)
  then show ?thesis using Release Drop assms(3) by (cases k) blast+
qed (use assms(2) in simp)

text \<open>Whoever owns a lock and waits, waits for a later name: the order rules out a cycle.\<close>

lemma owner_waits_later:
  assumes "op_ok s" "waits_for s t n" "\<And>u s'. \<not> op_step u s s'"
  shows "\<exists>u m. waits_for s u m \<and> n < m"
proof -
  obtain es k u where w: "os_phase s t = Acquiring es k" "k < length es" "n = fst (es ! k)"
    "os_owner s (snd (es ! k)) = Some u" using assms(2) by (auto simp: waits_for_def)
  have e: "(n, snd (es ! k)) \<in> set (lt_locks (os_table s))"
    using op_okD(2) [OF assms(1), of t] w by auto
  have held: "snd (es ! k) \<in> snd ` set (call_held (os_phase s u))"
    using op_okD(6) [OF assms(1), of "snd (es ! k)" u] w(4) by simp
  then have "os_phase s u \<noteq> Idle" by auto
  then obtain m where m: "waits_for s u m" using stuck_waits [OF assms(1)] assms(3) by blast
  then obtain fs j where f: "os_phase s u = Acquiring fs j" "j < length fs" "m = fst (fs ! j)"
    by (auto simp: waits_for_def)
  obtain i where i: "i < j" "snd (fs ! i) = snd (es ! k)"
    using held f by (auto simp: in_set_conv_nth)
  have "fs ! i \<in> set (lt_locks (os_table s))" using op_okD(2) [OF assms(1), of u] f i by auto
  then have "fst (fs ! i) = n"
    using table_addr_inj [OF op_okD(1) [OF assms(1)] _ e, of "fst (fs ! i)"] i(2) by (metis prod.collapse)
  moreover have "fst (fs ! i) < fst (fs ! j)"
    using op_okD(4) [OF assms(1), of u] f i by (auto simp: sorted_wrt_iff_nth_less)
  ultimately show ?thesis using m f(3) by blast
qed

lemma no_deadlock:
  assumes "op_ok s" "\<And>u s'. \<not> op_step u s s'"
  shows "os_phase s t = Idle"
proof (rule ccontr)
  assume "os_phase s t \<noteq> Idle"
  then obtain n0 where n0: "waits_for s t n0" using stuck_waits [OF assms(1)] assms(2) by blast
  let ?W = "{n. \<exists>u. waits_for s u n}"
  have "?W \<subseteq> (\<lambda>u. case os_phase s u of Acquiring es k \<Rightarrow> fst (es ! k) | _ \<Rightarrow> []) ` {u. os_phase s u \<noteq> Idle}"
  proof
    fix n assume "n \<in> ?W"
    then obtain u es k where "os_phase s u = Acquiring es k" "n = fst (es ! k)" by (auto simp: waits_for_def)
    then show "n \<in> (\<lambda>u. case os_phase s u of Acquiring es k \<Rightarrow> fst (es ! k) | _ \<Rightarrow> []) ` {u. os_phase s u \<noteq> Idle}"
      by (intro image_eqI [of _ _ u]) auto
  qed
  then have "finite ?W" using op_okD(7) [OF assms(1)] by (rule finite_surj [rotated])
  moreover have "?W \<noteq> {}" using n0 by blast
  ultimately have "Max ?W \<in> ?W" and max: "\<And>n. n \<in> ?W \<Longrightarrow> n \<le> Max ?W" by (rule Max_in, simp)
  then obtain u where "waits_for s u (Max ?W)" by blast
  then obtain v m where m: "waits_for s v m" "Max ?W < m" using owner_waits_later [OF assms(1)] assms(2) by blast
  then have "m \<le> Max ?W" by (intro max) blast
  then show False using m(2) by (simp add: leD)
qed

fun call_work :: "call_phase \<Rightarrow> nat" where
  "call_work Idle = 0"
| "call_work (Acquiring es k) = (length es - k) + length es + 3"
| "call_work (Holding es) = length es + 2"
| "call_work (Releasing es k) = k + 1"

definition op_work :: "op_state \<Rightarrow> nat" where
  "op_work s = (\<Sum>t | os_phase s t \<noteq> Idle. call_work (os_phase s t))"

lemma work_split:
  assumes "finite {u. f u \<noteq> Idle}"
  shows "(\<Sum>u | f u \<noteq> Idle. call_work (f u)) = call_work (f t) + (\<Sum>u \<in> {u. f u \<noteq> Idle} - {t}. call_work (f u))"
  using assms by (cases "f t = Idle") (simp_all add: sum.remove)

lemma work_decreases:
  assumes "op_ok s" "op_step t s s'"
  shows "op_work s' < op_work s"
proof -
  obtain p where p: "os_phase s' = (os_phase s)(t := p)" "call_work p < call_work (os_phase s t)"
    using assms(2) by (cases rule: op_step.cases) auto
  have fin: "finite {u. os_phase s u \<noteq> Idle}" using op_okD(7) [OF assms(1)] .
  have "op_work s' = call_work p + (\<Sum>u \<in> {u. ((os_phase s)(t := p)) u \<noteq> Idle} - {t}. call_work (((os_phase s)(t := p)) u))"
    unfolding op_work_def p(1) by (subst work_split [OF finite_busy [OF fin], of t p t]) simp
  also have "\<dots> = call_work p + (\<Sum>u \<in> {u. os_phase s u \<noteq> Idle} - {t}. call_work (os_phase s u))"
    by (intro arg_cong2 [of _ _ _ _ "(+)"] sum.cong) auto
  also have "\<dots> < op_work s" unfolding op_work_def work_split [OF fin, of t] using p(2) by simp
  finally show ?thesis .
qed

lemma idle_table_empty:
  assumes "op_ok s" "\<And>t. os_phase s t = Idle"
  shows "lt_locks (os_table s) = [] \<and> os_owner s a = None"
proof -
  have "e \<notin> set (lt_locks (os_table s))" for e
    using op_okD(3) [OF assms(1), of "fst e" "snd e"] assms(2) by (auto simp: users_def)
  then have "lt_locks (os_table s) = []" by (metis list.set_intros(1) neq_Nil_conv)
  moreover have "os_owner s a = None"
    using op_okD(6) [OF assms(1), of a] assms(2) by (cases "os_owner s a") auto
  ultimately show ?thesis by simp
qed


text \<open>Two goroutines that hold different services, and a third that waits for the first.\<close>

lemma call_and_hold:
  assumes "op_reachable s" "os_phase s t = Idle" "n \<noteq> []" "register_locks [n] (os_table s) = ([(n, a)], tb)"
    and "os_owner s a = None"
  shows "\<exists>s'. op_reachable s' \<and> os_phase s' = (os_phase s)(t := Holding [(n, a)]) \<and>
    os_owner s' = (os_owner s)(a := Some t) \<and> os_table s' = tb"
proof -
  let ?s1 = "set_phase t (Acquiring [(n, a)] 0) (s\<lparr>os_table := tb\<rparr>)"
  let ?s2 = "set_phase t (Acquiring [(n, a)] 1) (?s1\<lparr>os_owner := (os_owner ?s1)(a := Some t)\<rparr>)"
  let ?s3 = "set_phase t (Holding [(n, a)]) ?s2"
  have u: "uniqueSortedServiceOperationNames [n] = [n]" using assms(3) by (simp add: uniqueSortedServiceOperationNames_def)
  have "op_call t [n] s ?s1" using Register [of s t "[n]"] assms(2,4) u by simp
  then have "op_reachable ?s1" using assms(1) Call by blast
  moreover have "op_step t ?s1 ?s2" using Take [of ?s1 t "[(n, a)]" 0] assms(5) by simp
  ultimately have "op_reachable ?s2" using Step by blast
  moreover have "op_step t ?s2 ?s3" using Enter [of ?s2 t "[(n, a)]"] by simp
  ultimately have "op_reachable ?s3" using Step by blast
  then show ?thesis by (intro exI [of _ ?s3]) simp
qed

lemma two_holders:
  "\<exists>s. op_reachable s \<and> os_phase s 0 = Holding [(''a'', 0)] \<and> os_phase s 1 = Holding [(''b'', 1)]"
proof -
  obtain s where s: "op_reachable s" "os_phase s = (\<lambda>_. Idle)(0 := Holding [(''a'', 0)])"
    "os_owner s = (\<lambda>_. None)(0 := Some 0)"
    "os_table s = \<lparr>lt_locks = [(''a'', 0)], lt_refs = (\<lambda>_. 0)(0 := 0, 0 := 1), lt_fresh = 1\<rparr>"
    using call_and_hold [OF Init, of 0 "''a''" 0 "\<lparr>lt_locks = [(''a'', 0)], lt_refs = (\<lambda>_. 0)(0 := 0, 0 := 1), lt_fresh = 1\<rparr>"]
    by (auto simp: op_init_def register_lock_def)
  have "\<exists>tb. register_locks [''b''] (os_table s) = ([(''b'', 1)], tb)"
    by (simp add: s(4) register_lock_def)
  then obtain tb where "register_locks [''b''] (os_table s) = ([(''b'', 1)], tb)" by blast
  then show ?thesis using call_and_hold [OF s(1), of 1 "''b''" 1 tb] s(2,3) by fastforce
qed



end
