(* ===== verification/Authz.thy ===== *)
theory Authz
  imports Netip
begin

text \<open>
  Who may do what (\<^verbatim>\<open>src/pkg/catch/authz.go\<close>, \<^verbatim>\<open>tty_authz.go\<close>, the dispatchers of \<^verbatim>\<open>tty_exec.go\<close> and
  \<^verbatim>\<open>rpc.go\<close>, the guard of the registry and \<^verbatim>\<open>FindVMRuntimeAction\<close> of \<^verbatim>\<open>src/pkg/cli/cli.go\<close>): every request is
  classified by the permissions it needs, the caller's permissions come from the capability
  grants Tailscale reports for its address, and a request that needs \<^verbatim>\<open>manage\<close> runs under the
  lock of its service.

  Tailscale is a parameter: \<open>auth_env\<close> holds the answers of its local client, with the grants
  already decoded to the lists of allowed permissions (or the decoding error), and whether
  resolver recovery blocks mutations. The lemmas say exactly when a request is let through
  and relate the classification to what the dispatchers then run.
\<close>

section \<open>Permissions\<close>

definition permissionRead :: string where "permissionRead = ''read''"
definition permissionManage :: string where "permissionManage = ''manage''"
definition permissionSSH :: string where "permissionSSH = ''ssh''"

definition knownYeetPermissions :: "string list" where
  "knownYeetPermissions = [permissionRead, permissionManage, permissionSSH]"

type_synonym permissionSet = "string set"

datatype auth_err =
    Unauthorized string
  | MissingPermission string
  | ResolverBlocked string
  | StatusFailed string
  | Denied string
  | Unclassified string "string option"

type_synonym whois = "string + string list list"

record tsPeer =
  peer_IsTagged :: bool
  peer_Tags :: "string list"

type_synonym tsStatus = "tsPeer option"

record localClient =
  lc_Status :: "string + tsStatus option"
  lc_WhoIs :: "string \<Rightarrow> string + whois option"

record auth_env =
  resolver_block :: "string option"
  AuthorizeFunc :: "(string \<Rightarrow> string option) option"
  StatusFunc :: "(string + tsStatus option) option"
  WhoIsFunc :: "(string \<Rightarrow> string + whois option) option"
  LocalClient :: "localClient option"

definition permissionsFromCapMap :: "whois \<Rightarrow> auth_err + permissionSet" where
  "permissionsFromCapMap w =
     (case w of
        Inl e \<Rightarrow> Inl (Unauthorized e)
      | Inr values \<Rightarrow> Inr (set (filter (\<lambda>raw. raw \<in> set knownYeetPermissions) (concat values))))"

fun requirePermissions :: "permissionSet \<Rightarrow> string list \<Rightarrow> auth_err option" where
  "requirePermissions have [] = None"
| "requirePermissions have (p # required) =
     (if p \<notin> have then Some (MissingPermission p) else requirePermissions have required)"

definition statusWithoutPeers :: "auth_env \<Rightarrow> auth_err + tsStatus option" where
  "statusWithoutPeers env =
     (case StatusFunc env of
        Some r \<Rightarrow> (case r of Inl e \<Rightarrow> Inl (StatusFailed e) | Inr st \<Rightarrow> Inr st)
      | None \<Rightarrow>
          (case LocalClient env of
             None \<Rightarrow> Inl (Unauthorized ''tailscale local client is not configured'')
           | Some lc \<Rightarrow> (case lc_Status lc of Inl e \<Rightarrow> Inl (StatusFailed e) | Inr st \<Rightarrow> Inr st)))"

definition whoIs :: "auth_env \<Rightarrow> string \<Rightarrow> auth_err + whois option" where
  "whoIs env remoteAddr =
     (case WhoIsFunc env of
        Some f \<Rightarrow> (case f remoteAddr of Inl e \<Rightarrow> Inl (Unauthorized e) | Inr w \<Rightarrow> Inr w)
      | None \<Rightarrow>
          (case LocalClient env of
             None \<Rightarrow> Inl (Unauthorized ''tailscale local client is not configured'')
           | Some lc \<Rightarrow> (case lc_WhoIs lc remoteAddr of Inl e \<Rightarrow> Inl (Unauthorized e) | Inr w \<Rightarrow> Inr w)))"

definition statusSelfTags :: "tsStatus option \<Rightarrow> string list" where
  "statusSelfTags st =
     (case st of
        Some (Some self) \<Rightarrow> if peer_IsTagged self then peer_Tags self else []
      | _ \<Rightarrow> [])"

definition validateCatchNodeIdentity :: "string list \<Rightarrow> auth_err option" where
  "validateCatchNodeIdentity serverTags =
     (if serverTags = [] then Some (Unauthorized ''catch tsnet node must be tagged'') else None)"

definition authorizeCatchNodeIdentity :: "auth_env \<Rightarrow> auth_err option" where
  "authorizeCatchNodeIdentity env =
     (case statusWithoutPeers env of
        Inl e \<Rightarrow> Some (StatusFailed ''failed to get local client status'')
      | Inr st \<Rightarrow> validateCatchNodeIdentity (statusSelfTags st))"

definition callerPermissions :: "auth_env \<Rightarrow> string \<Rightarrow> auth_err + permissionSet" where
  "callerPermissions env remoteAddr =
     (case whoIs env remoteAddr of
        Inl e \<Rightarrow> Inl (Unauthorized ''failed to read Tailscale app grants for caller'')
      | Inr None \<Rightarrow> Inl (Unauthorized ''missing Tailscale caller identity'')
      | Inr (Some w) \<Rightarrow> permissionsFromCapMap w)"

definition authorizeCaller :: "auth_env \<Rightarrow> string \<Rightarrow> string list \<Rightarrow> auth_err option" where
  "authorizeCaller env remoteAddr required =
     (if permissionManage \<in> set required \<and> resolver_block env \<noteq> None
      then map_option ResolverBlocked (resolver_block env)
      else case AuthorizeFunc env of
             Some f \<Rightarrow> map_option Denied (f remoteAddr)
           | None \<Rightarrow>
               (case authorizeCatchNodeIdentity env of
                  Some e \<Rightarrow> Some e
                | None \<Rightarrow>
                    if required = [] then None
                    else case callerPermissions env remoteAddr of
                           Inl e \<Rightarrow> Some e
                         | Inr perms \<Rightarrow> requirePermissions perms required))"

definition authorizePermissionSet :: "auth_env \<Rightarrow> string \<Rightarrow> permissionSet \<Rightarrow> auth_err option" where
  "authorizePermissionSet env remoteAddr required =
     authorizeCaller env remoteAddr (filter (\<lambda>p. p \<in> required) knownYeetPermissions)"

section \<open>RPC methods\<close>

definition read_methods :: "string list" where
  "read_methods = [''catch.Info'', ''catch.ServiceInfo'', ''catch.ArtifactHashes'', ''catch.ZFSServiceRootCandidates'',
     ''catch.ServiceRootDefaults'', ''catch.VMDefaults'', ''catch.ServicesList'']"

definition host_mutation_methods :: "string list" where
  "host_mutation_methods = [''catch.HostStoragePlan'', ''catch.HostStorageApply'', ''catch.HostStorageFinalize'',
     ''catch.HostStorageCleanup'', ''catch.ISOPoolPlan'', ''catch.ISOPoolApply'']"

definition rpcMethodPermissions :: "string \<Rightarrow> auth_err + permissionSet" where
  "rpcMethodPermissions method =
     (if method \<in> set read_methods then Inr {permissionRead}
      else if method \<in> set host_mutation_methods then Inr {permissionManage}
      else if method = ''catch.TailscaleSetup'' then Inr {permissionRead, permissionManage, permissionSSH}
      else Inl (Unclassified ''RPC method'' (Some method)))"

definition authorizeRPCMethod :: "auth_env \<Rightarrow> string \<Rightarrow> string \<Rightarrow> auth_err option" where
  "authorizeRPCMethod env remoteAddr method =
     (case rpcMethodPermissions method of
        Inl e \<Rightarrow> Some e
      | Inr required \<Rightarrow> authorizePermissionSet env remoteAddr required)"

datatype rpc_handler =
    GetInfo | ServiceInfo | ArtifactHashes | StorageRead | HostStorage | ISOPoolRPC | VMDefaults
  | TailscaleSetup | ServicesList | MethodNotFound

definition handleRPCHostMutation :: "string \<Rightarrow> rpc_handler" where
  "handleRPCHostMutation method =
     (if method \<in> {''catch.HostStoragePlan'', ''catch.HostStorageApply'', ''catch.HostStorageFinalize'',
                  ''catch.HostStorageCleanup''} then HostStorage
      else if method \<in> {''catch.ISOPoolPlan'', ''catch.ISOPoolApply''} then ISOPoolRPC
      else MethodNotFound)"

definition dispatchRPCWithContext :: "string \<Rightarrow> rpc_handler" where
  "dispatchRPCWithContext method =
     (if method = ''catch.Info'' then GetInfo
      else if method = ''catch.ServiceInfo'' then ServiceInfo
      else if method = ''catch.ArtifactHashes'' then ArtifactHashes
      else if method \<in> {''catch.ZFSServiceRootCandidates'', ''catch.ServiceRootDefaults''} then StorageRead
      else if method \<in> set host_mutation_methods then handleRPCHostMutation method
      else if method = ''catch.VMDefaults'' then VMDefaults
      else if method = ''catch.TailscaleSetup'' then TailscaleSetup
      else if method = ''catch.ServicesList'' then ServicesList
      else MethodNotFound)"

datatype rpc_reply = RpcStatus int | RpcError int | Notified | Dispatched rpc_handler

text \<open>
  \<open>handleRPC\<close> on a decoded request: HTTP method, whether there is a body, the decoded
  version, method name and whether there is an identifier.
\<close>

record rpcRequest =
  rq_JSONRPC :: string
  rq_Method :: string
  rq_hasID :: bool

definition handleRPC :: "auth_env \<Rightarrow> string \<Rightarrow> string \<Rightarrow> bool \<Rightarrow> rpcRequest option \<Rightarrow> rpc_reply" where
  "handleRPC env remoteAddr httpMethod hasBody decoded =
     (if httpMethod \<noteq> ''POST'' then RpcStatus 405
      else if \<not> hasBody then RpcError (- 32600)
      else case decoded of
             None \<Rightarrow> RpcError (- 32700)
           | Some req \<Rightarrow>
               if rq_JSONRPC req \<noteq> ''2.0'' \<or> rq_Method req = [] then RpcError (- 32600)
               else if authorizeRPCMethod env remoteAddr (rq_Method req) \<noteq> None then RpcStatus 401
               else if \<not> rq_hasID req then Notified
               else Dispatched (dispatchRPCWithContext (rq_Method req)))"

section \<open>Commands\<close>

definition dockerCommandPermissions :: "string list \<Rightarrow> auth_err + permissionSet" where
  "dockerCommandPermissions args =
     (case args of
        [] \<Rightarrow> Inl (Unclassified ''docker command'' None)
      | a # _ \<Rightarrow>
          if a = ''outdated'' then Inr {permissionRead}
          else if a \<in> {''pull'', ''update''} then Inr {permissionManage}
          else Inl (Unclassified ''docker command'' (Some a)))"

definition snapshotsDefaultsCommandPermissions :: "string list \<Rightarrow> auth_err + permissionSet" where
  "snapshotsDefaultsCommandPermissions args =
     (case args of
        [] \<Rightarrow> Inl (Unclassified ''snapshots defaults command'' None)
      | a # _ \<Rightarrow>
          if a = ''show'' then Inr {permissionRead}
          else if a = ''set'' then Inr {permissionManage}
          else Inl (Unclassified ''snapshots defaults command'' (Some a)))"

definition snapshotsCommandPermissions :: "string list \<Rightarrow> auth_err + permissionSet" where
  "snapshotsCommandPermissions args =
     (case args of
        [] \<Rightarrow> Inl (Unclassified ''snapshots command'' None)
      | a # rest \<Rightarrow>
          if a = ''defaults'' then snapshotsDefaultsCommandPermissions rest
          else if a \<in> {''list'', ''inspect''} then Inr {permissionRead}
          else if a \<in> {''create'', ''clone'', ''restore'', ''rm'', ''protect'', ''unprotect''} then Inr {permissionManage}
          else Inl (Unclassified ''snapshots command'' (Some a)))"

definition serviceCommandPermissions :: "string list \<Rightarrow> auth_err + permissionSet" where
  "serviceCommandPermissions args =
     (case args of
        [] \<Rightarrow> Inl (Unclassified ''service command'' None)
      | a # _ \<Rightarrow>
          if a = ''generations'' then Inr {permissionRead}
          else if a \<in> {''set'', ''rollback''} then Inr {permissionManage}
          else Inl (Unclassified ''service command'' (Some a)))"

definition tailscaleCommandPermissions :: "string list \<Rightarrow> auth_err + permissionSet" where
  "tailscaleCommandPermissions args =
     (case args of
        [] \<Rightarrow> Inl (Unclassified ''tailscale command'' None)
      | a # rest \<Rightarrow>
          if a = ''status'' then Inr {permissionRead}
          else if a = ''--'' then
            (case rest of
               b # _ \<Rightarrow> if b = ''status'' then Inr {permissionRead} else Inr {permissionManage}
             | [] \<Rightarrow> Inr {permissionManage})
          else Inr {permissionManage})"

definition vmImagesCommandPermissions :: "string list \<Rightarrow> auth_err + permissionSet" where
  "vmImagesCommandPermissions args =
     (case args of
        [] \<Rightarrow> Inr {permissionRead}
      | a # _ \<Rightarrow>
          if a \<in> {''ls'', ''catalog''} then Inr {permissionRead}
          else if a \<in> {''update'', ''import'', ''rm'', ''prune''} then Inr {permissionManage}
          else Inl (Unclassified ''vm images command'' (Some a)))"

text \<open>
  The flags of \<^verbatim>\<open>vm runtime\<close>, from the fields of \<^verbatim>\<open>vmRuntimeFlagsParsed\<close>: whether one consumes a value.
\<close>

definition vm_runtime_flags :: "(string \<times> bool) list" where
  "vm_runtime_flags =
     [(''--format'', True), (''--to'', True), (''--channel'', True), (''--restart'', False), (''--dry-run'', False)]"

definition flag_name :: "string \<Rightarrow> string" where
  "flag_name arg = takeWhile (\<lambda>c. c \<noteq> CHR ''='') arg"

text \<open>\<open>FindVMRuntimeAction\<close> with the index of the argument at hand.\<close>

fun find_action :: "nat \<Rightarrow> string list \<Rightarrow> (string \<times> nat) option" where
  "find_action i [] = None"
| "find_action i (arg # rest) =
     (if arg = ''--'' then (case rest of b # _ \<Rightarrow> Some (TrimSpace b, Suc i) | [] \<Rightarrow> None)
      else if HasPrefix arg ''--'' then
        (case map_of vm_runtime_flags (flag_name arg) of
           None \<Rightarrow> None
         | Some consumes \<Rightarrow>
             if \<not> consumes \<or> CHR ''='' \<in> set arg then find_action (Suc i) rest
             else if rest = [] then None
             else find_action (Suc (Suc i)) (tl rest))
      else if HasPrefix arg ''-'' \<and> arg \<noteq> ''-'' then None
      else Some (TrimSpace arg, i))"

definition FindVMRuntimeAction :: "string list \<Rightarrow> (string \<times> nat) option" where
  "FindVMRuntimeAction args = find_action 0 args"

definition vm_runtime_mutations :: "string list" where
  "vm_runtime_mutations = [''update'', ''import'', ''upgrade'', ''rollback'', ''policy'', ''protect'', ''unprotect'', ''prune'']"

definition vmRuntimeCommandPermissions :: "string list \<Rightarrow> auth_err + permissionSet" where
  "vmRuntimeCommandPermissions args =
     (case FindVMRuntimeAction args of
        None \<Rightarrow> Inl (Unclassified ''vm runtime command'' None)
      | Some (action, _) \<Rightarrow>
          if action = ''status'' then Inr {permissionRead}
          else if action \<in> set vm_runtime_mutations then Inr {permissionManage}
          else Inl (Unclassified ''vm runtime command'' (Some action)))"

definition vmCommandPermissions :: "string list \<Rightarrow> auth_err + permissionSet" where
  "vmCommandPermissions args =
     (case args of
        [] \<Rightarrow> Inl (Unclassified ''vm command'' None)
      | a # rest \<Rightarrow>
          if a = ''images'' then vmImagesCommandPermissions rest
          else if a = ''runtime'' then vmRuntimeCommandPermissions rest
          else if a = ''memory'' then (if rest = [] then Inr {permissionRead} else Inr {permissionManage})
          else if a \<in> {''console'', ''set'', ''kernel''} then Inr {permissionManage}
          else Inl (Unclassified ''vm command'' (Some a)))"

definition ttyCommandPermissions :: "string list \<Rightarrow> auth_err + permissionSet" where
  "ttyCommandPermissions args =
     (case args of
        [] \<Rightarrow> Inl (Unclassified ''empty command'' None)
      | a # rest \<Rightarrow>
          if a \<in> {''events'', ''ip'', ''logs'', ''status'', ''version''} then Inr {permissionRead}
          else if a = ''docker'' then dockerCommandPermissions rest
          else if a = ''snapshots'' then snapshotsCommandPermissions rest
          else if a = ''service'' then serviceCommandPermissions rest
          else if a \<in> {''tailscale'', ''ts''} then tailscaleCommandPermissions rest
          else if a = ''vm'' then vmCommandPermissions rest
          else if a \<in> {''disable'', ''edit'', ''enable'', ''mount'', ''umount'', ''env'', ''remove'', ''restart'',
                      ''run'', ''copy'', ''stage'', ''start'', ''stop''} then Inr {permissionManage}
          else Inl (Unclassified ''command'' (Some a)))"

record ExecRequest =
  er_Target :: string
  er_Service :: string
  er_Args :: "string list"
  er_TTY :: bool

definition ExecTargetServiceCommand :: string where "ExecTargetServiceCommand = []"
definition ExecTargetHostShell :: string where "ExecTargetHostShell = ''host-shell''"
definition ExecTargetServiceShell :: string where "ExecTargetServiceShell = ''service-shell''"
definition ExecTargetVMSSHProxy :: string where "ExecTargetVMSSHProxy = ''vm-ssh-proxy''"

lemmas exec_targets = ExecTargetServiceCommand_def ExecTargetHostShell_def ExecTargetServiceShell_def
  ExecTargetVMSSHProxy_def

definition execRequestPermissions :: "ExecRequest \<Rightarrow> auth_err + permissionSet" where
  "execRequestPermissions req =
     (if er_Target req \<in> {ExecTargetHostShell, ExecTargetServiceShell} then Inr {permissionSSH}
      else if er_Target req = ExecTargetVMSSHProxy then Inr {permissionRead}
      else if er_Target req = ExecTargetServiceCommand then ttyCommandPermissions (er_Args req)
      else Inl (Unclassified ''exec target'' (Some (er_Target req))))"

definition authorizeExecRequest :: "auth_env \<Rightarrow> string \<Rightarrow> ExecRequest \<Rightarrow> auth_err option" where
  "authorizeExecRequest env remoteAddr req =
     (case execRequestPermissions req of
        Inl e \<Rightarrow> Some (Unauthorized ''unclassified'')
      | Inr required \<Rightarrow> authorizePermissionSet env remoteAddr required)"

section \<open>What runs\<close>

definition SystemService :: string where "SystemService = ''sys''"

datatype exec_err =
    MissingService
  | BadProxyArgs
  | UnknownTarget string
  | UnhandledCommand string
  | RollbackArgs
  | NotClassified auth_err

definition normalizeServiceExecRequest :: "ExecRequest \<Rightarrow> exec_err + ExecRequest" where
  "normalizeServiceExecRequest req = (if TrimSpace (er_Service req) = [] then Inl MissingService else Inr req)"

definition normalizeVMSSHProxyExecRequest :: "ExecRequest \<Rightarrow> exec_err + ExecRequest" where
  "normalizeVMSSHProxyExecRequest req =
     (case normalizeServiceExecRequest req of
        Inl e \<Rightarrow> Inl e
      | Inr _ \<Rightarrow>
          (case er_Args req of
             [h, p] \<Rightarrow> if TrimSpace h = [] \<or> TrimSpace p = [] then Inl BadProxyArgs else Inr (req\<lparr>er_TTY := False\<rparr>)
           | _ \<Rightarrow> Inl BadProxyArgs))"

definition normalizeExecRequest :: "ExecRequest \<Rightarrow> exec_err + ExecRequest" where
  "normalizeExecRequest req =
     (if er_Target req \<in> {ExecTargetServiceCommand, ExecTargetServiceShell} then normalizeServiceExecRequest req
      else if er_Target req = ExecTargetHostShell then Inr (req\<lparr>er_Service := []\<rparr>)
      else if er_Target req = ExecTargetVMSSHProxy then normalizeVMSSHProxyExecRequest req
      else Inl (UnknownTarget (er_Target req)))"

text \<open>The keys of \<^verbatim>\<open>ttyCommandHandlers\<close>.\<close>

definition ttyCommandHandlers :: "string list" where
  "ttyCommandHandlers =
     [''disable'', ''edit'', ''events'', ''enable'', ''mount'', ''ip'', ''tailscale'', ''ts'', ''vm'', ''umount'', ''env'',
      ''logs'', ''remove'', ''restart'', ''run'', ''service'', ''copy'', ''docker'', ''snapshots'', ''stage'', ''start'',
      ''status'', ''stop'', ''version'']"

fun hasServiceCommandArg :: "string list \<Rightarrow> bool" where
  "hasServiceCommandArg [] = False"
| "hasServiceCommandArg (arg # rest) =
     (if arg = ''--'' then rest \<noteq> []
      else if HasPrefix arg ''--format='' then hasServiceCommandArg rest
      else if arg = ''--format'' then hasServiceCommandArg (drop 1 rest)
      else if HasPrefix arg ''-'' \<and> arg \<noteq> ''-'' then hasServiceCommandArg rest
      else True)"

definition argsWithServiceDefault :: "string list \<Rightarrow> string \<Rightarrow> string list" where
  "argsWithServiceDefault args serviceName =
     (if TrimSpace serviceName = [] \<or> hasServiceCommandArg args then args else args @ [serviceName])"

definition ParseServiceRollback :: "string list \<Rightarrow> exec_err + string list" where
  "ParseServiceRollback args = (if length args \<noteq> 1 then Inl RollbackArgs else Inr args)"

definition serviceMutationTarget :: "string \<Rightarrow> string \<Rightarrow> string list \<Rightarrow> exec_err + string" where
  "serviceMutationTarget sn cmd args =
     (case args of
        a # rest \<Rightarrow>
          if cmd = ''service'' \<and> a = ''rollback'' then
            (case ParseServiceRollback (argsWithServiceDefault rest sn) of
               Inl e \<Rightarrow> Inl e
             | Inr r \<Rightarrow> Inr (hd r))
          else Inr sn
      | [] \<Rightarrow> Inr sn)"

datatype exec_action =
    RunHostShell
  | RunServiceShell string
  | RunVMSSHProxy
  | RunNothing
  | RunLocked string string "string list"
  | RunDirect string "string list"

text \<open>
  \<open>RunLocked target cmd args\<close> and \<open>RunServiceShell target\<close> run under the operation lock of the target.
\<close>

definition tty_dispatch :: "string \<Rightarrow> string list \<Rightarrow> exec_err + exec_action" where
  "tty_dispatch sn args =
     (let cmd = hd args in
      if cmd \<notin> set ttyCommandHandlers then Inl (UnhandledCommand cmd)
      else case ttyCommandPermissions args of
             Inl e \<Rightarrow> Inl (NotClassified e)
           | Inr permissions \<Rightarrow>
               if permissionManage \<in> permissions then
                 (case serviceMutationTarget sn cmd (tl args) of
                    Inl e \<Rightarrow> Inl e
                  | Inr target \<Rightarrow> Inr (RunLocked target cmd (tl args)))
               else Inr (RunDirect cmd (tl args)))"

definition tty_exec :: "ExecRequest \<Rightarrow> exec_err + exec_action" where
  "tty_exec req =
     (if er_Target req = ExecTargetHostShell then Inr RunHostShell
      else if er_Target req = ExecTargetServiceShell then Inr (RunServiceShell (er_Service req))
      else if er_Target req = ExecTargetVMSSHProxy then Inr RunVMSSHProxy
      else if er_Args req = [] then Inr RunNothing
      else tty_dispatch (er_Service req) (er_Args req))"

datatype exec_reply = ExecBad exec_err | ExecDenied auth_err | ExecRuns "exec_err + exec_action"

definition handleExecWS :: "auth_env \<Rightarrow> string \<Rightarrow> ExecRequest \<Rightarrow> exec_reply" where
  "handleExecWS env remoteAddr raw =
     (case normalizeExecRequest raw of
        Inl e \<Rightarrow> ExecBad e
      | Inr req \<Rightarrow>
          (case authorizeExecRequest env remoteAddr req of
             Some e \<Rightarrow> ExecDenied e
           | None \<Rightarrow> ExecRuns (tty_exec req)))"

text \<open>The service bridge puts the VM back behind the runtime action.\<close>

definition vmRuntimeLogicalArgs :: "string \<Rightarrow> string list \<Rightarrow> string list" where
  "vmRuntimeLogicalArgs service args =
     (if service = [] \<or> service = SystemService \<or> args = [] then args
      else case FindVMRuntimeAction args of
             None \<Rightarrow> args
           | Some (action, i) \<Rightarrow>
               if action \<in> {''status'', ''upgrade'', ''rollback'', ''policy''}
               then take (Suc i) args @ [service] @ drop (Suc i) args
               else args)"

section \<open>The registry guard\<close>

definition is_loopback :: "addr \<Rightarrow> bool" where
  "is_loopback a =
     (case a of
        NoAddr \<Rightarrow> False
      | V4 w \<Rightarrow> drop_bit 24 w = 127
      | V6 w _ \<Rightarrow> if drop_bit 32 w = 0xFFFF then drop_bit 24 w = 0xFFFF7F else w = 1)"

datatype registry_reply = RegistryStatus int | RegistryServed

text \<open>The caller's address comes parsed; \<open>None\<close> is an address that does not parse.\<close>

definition containerRegistry_ServeHTTP ::
  "auth_env \<Rightarrow> string \<Rightarrow> addr option \<Rightarrow> string \<Rightarrow> registry_reply" where
  "containerRegistry_ServeHTTP env remoteAddr ap httpMethod =
     (case ap of
        None \<Rightarrow> RegistryStatus 405
      | Some a \<Rightarrow>
          if is_loopback a then
            (if httpMethod \<notin> {''GET'', ''HEAD'', ''OPTIONS''} then RegistryStatus 405 else RegistryServed)
          else if authorizeCaller env remoteAddr [permissionManage] \<noteq> None then RegistryStatus 401
          else RegistryServed)"

section \<open>When a request is let through\<close>

definition node_tagged :: "auth_env \<Rightarrow> bool" where
  "node_tagged env \<longleftrightarrow> (\<exists>st. statusWithoutPeers env = Inr st \<and> statusSelfTags st \<noteq> [])"

definition granted :: "auth_env \<Rightarrow> string \<Rightarrow> permissionSet" where
  "granted env remoteAddr = (case callerPermissions env remoteAddr of Inl _ \<Rightarrow> {} | Inr perms \<Rightarrow> perms)"

lemma permissions_distinct [simp]:
  "permissionRead \<noteq> permissionManage" "permissionManage \<noteq> permissionRead"
  "permissionRead \<noteq> permissionSSH" "permissionSSH \<noteq> permissionRead"
  "permissionManage \<noteq> permissionSSH" "permissionSSH \<noteq> permissionManage"
  by (simp_all add: permissionRead_def permissionManage_def permissionSSH_def)

lemma requirePermissions_None: "requirePermissions have required = None \<longleftrightarrow> set required \<subseteq> have"
  by (induction required) auto

lemma node_identity_None: "authorizeCatchNodeIdentity env = None \<longleftrightarrow> node_tagged env"
  by (auto simp: authorizeCatchNodeIdentity_def node_tagged_def validateCatchNodeIdentity_def split: sum.splits)

lemma authorizeCaller_None:
  assumes "AuthorizeFunc env = None" "required \<noteq> []"
  shows "authorizeCaller env remoteAddr required = None \<longleftrightarrow>
    (permissionManage \<in> set required \<longrightarrow> resolver_block env = None) \<and> node_tagged env \<and>
    set required \<subseteq> granted env remoteAddr"
  using assms
  by (auto simp: authorizeCaller_def node_identity_None [symmetric] granted_def requirePermissions_None neq_Nil_conv
      split: option.splits sum.splits)

lemma authorizePermissionSet_None:
  assumes "AuthorizeFunc env = None" "P \<noteq> {}" "P \<subseteq> set knownYeetPermissions"
  shows "authorizePermissionSet env remoteAddr P = None \<longleftrightarrow>
    (permissionManage \<in> P \<longrightarrow> resolver_block env = None) \<and> node_tagged env \<and> P \<subseteq> granted env remoteAddr"
proof -
  have "set (filter (\<lambda>p. p \<in> P) knownYeetPermissions) = P" using assms(3) by auto
  moreover from this have "filter (\<lambda>p. p \<in> P) knownYeetPermissions \<noteq> []" using assms(2) by (metis empty_set)
  ultimately show ?thesis using authorizeCaller_None [OF assms(1)] by (simp add: authorizePermissionSet_def)
qed

lemmas command_permissions =
  dockerCommandPermissions_def snapshotsDefaultsCommandPermissions_def snapshotsCommandPermissions_def
  serviceCommandPermissions_def tailscaleCommandPermissions_def vmImagesCommandPermissions_def
  vmRuntimeCommandPermissions_def vmCommandPermissions_def

lemma sub_command_singleton:
  "dockerCommandPermissions args = Inr P \<Longrightarrow> P = {permissionRead} \<or> P = {permissionManage}"
  "snapshotsCommandPermissions args = Inr P \<Longrightarrow> P = {permissionRead} \<or> P = {permissionManage}"
  "serviceCommandPermissions args = Inr P \<Longrightarrow> P = {permissionRead} \<or> P = {permissionManage}"
  "tailscaleCommandPermissions args = Inr P \<Longrightarrow> P = {permissionRead} \<or> P = {permissionManage}"
  "vmCommandPermissions args = Inr P \<Longrightarrow> P = {permissionRead} \<or> P = {permissionManage}"
  by (auto simp: command_permissions split: list.splits option.splits if_splits)

lemma tty_command_cases:
  assumes "ttyCommandPermissions (cmd # rest) = Inr P"
  shows "cmd \<in> set ttyCommandHandlers" "P = {permissionRead} \<or> P = {permissionManage}"
proof -
  have "cmd \<in> set ttyCommandHandlers \<and> (P = {permissionRead} \<or> P = {permissionManage})"
  proof (cases "cmd \<in> {''docker'', ''snapshots'', ''service'', ''tailscale'', ''ts'', ''vm''}")
    case True
    then show ?thesis using assms
      by (elim insertE emptyE)
        (simp_all add: ttyCommandPermissions_def ttyCommandHandlers_def sub_command_singleton)
  next
    case False
    then show ?thesis using assms
      unfolding ttyCommandPermissions_def list.case by (auto simp: ttyCommandHandlers_def split: if_splits)
  qed
  then show "cmd \<in> set ttyCommandHandlers" "P = {permissionRead} \<or> P = {permissionManage}" by simp_all
qed

lemma exec_permissions_cases:
  assumes "execRequestPermissions req = Inr P"
  obtains "er_Target req \<in> {ExecTargetHostShell, ExecTargetServiceShell}" "P = {permissionSSH}"
  | "er_Target req = ExecTargetVMSSHProxy" "P = {permissionRead}"
  | cmd rest where "er_Target req = ExecTargetServiceCommand" "er_Args req = cmd # rest"
      "ttyCommandPermissions (cmd # rest) = Inr P"
  using assms unfolding execRequestPermissions_def
  by (cases "er_Args req") (auto simp: ttyCommandPermissions_def split: if_splits)

lemma exec_permissions_known:
  "execRequestPermissions req = Inr P \<Longrightarrow> P \<noteq> {} \<and> P \<subseteq> set knownYeetPermissions"
  by (erule exec_permissions_cases) (auto simp: knownYeetPermissions_def dest: tty_command_cases(2))

lemma authorizeExec_None:
  assumes "AuthorizeFunc env = None" "authorizeExecRequest env remoteAddr req = None"
  obtains P where "execRequestPermissions req = Inr P" "permissionManage \<in> P \<Longrightarrow> resolver_block env = None"
    "node_tagged env" "P \<subseteq> granted env remoteAddr"
  using assms(2) authorizePermissionSet_None [OF assms(1)] exec_permissions_known
  by (auto simp: authorizeExecRequest_def split: sum.splits)

text \<open>
  C19: what a caller can run is what its grants allow: when a request is let through, the node
  is tagged, a shell needs the \<^verbatim>\<open>ssh\<close> permission, a command that runs outside the service lock is
  classified as read-only and needs \<^verbatim>\<open>read\<close>, and one that may change a service needs \<^verbatim>\<open>manage\<close>, runs
  under the lock of its target and only while resolver recovery does not block; every request
  let through has a handler, the arguments of a rollback aside.
\<close>

theorem exec_needs_grants:
  assumes "AuthorizeFunc env = None" "handleExecWS env remoteAddr raw = ExecRuns r"
  shows "node_tagged env \<and>
    (case r of
       Inl e \<Rightarrow> e = RollbackArgs \<and> permissionManage \<in> granted env remoteAddr
     | Inr RunHostShell \<Rightarrow> permissionSSH \<in> granted env remoteAddr
     | Inr (RunServiceShell _) \<Rightarrow> permissionSSH \<in> granted env remoteAddr
     | Inr RunVMSSHProxy \<Rightarrow> permissionRead \<in> granted env remoteAddr
     | Inr RunNothing \<Rightarrow> False
     | Inr (RunLocked target cmd args) \<Rightarrow>
         permissionManage \<in> granted env remoteAddr \<and> resolver_block env = None
     | Inr (RunDirect cmd args) \<Rightarrow>
         permissionRead \<in> granted env remoteAddr \<and> ttyCommandPermissions (cmd # args) = Inr {permissionRead})"
proof -
  obtain req where req: "authorizeExecRequest env remoteAddr req = None" "r = tty_exec req"
    using assms(2) by (auto simp: handleExecWS_def split: sum.splits option.splits)
  obtain P where P: "execRequestPermissions req = Inr P" "permissionManage \<in> P \<Longrightarrow> resolver_block env = None"
    "node_tagged env" "P \<subseteq> granted env remoteAddr"
    using authorizeExec_None [OF assms(1) req(1)] by blast
  from P(1) show ?thesis
  proof (cases rule: exec_permissions_cases)
    case (3 cmd rest)
    note c = tty_command_cases [OF 3(3)]
    have r: "r = tty_dispatch (er_Service req) (cmd # rest)"
      using req(2) 3 by (simp add: tty_exec_def exec_targets)
    have t: "serviceMutationTarget sn cmd rest = Inl e \<Longrightarrow> e = RollbackArgs" for sn e
      by (auto simp: serviceMutationTarget_def ParseServiceRollback_def split: list.splits if_splits sum.splits)
    show ?thesis using P c 3(3) t
      by (auto simp: r tty_dispatch_def split: sum.splits)
  qed (use P req(2) in \<open>auto simp: tty_exec_def exec_targets\<close>)
qed

definition example_env :: auth_env where
  "example_env = \<lparr>resolver_block = None, AuthorizeFunc = None,
     StatusFunc = Some (Inr (Some (Some \<lparr>peer_IsTagged = True, peer_Tags = [''tag:catch'']\<rparr>))),
     WhoIsFunc = Some (\<lambda>_. Inr (Some (Inr [[''read''], [''manage'', ''other'']]))), LocalClient = None\<rparr>"

lemmas example_env_eval =
  example_env_def authorizeExecRequest_def execRequestPermissions_def exec_targets authorizePermissionSet_def
  authorizeCaller_def authorizeCatchNodeIdentity_def statusWithoutPeers_def statusSelfTags_def
  validateCatchNodeIdentity_def callerPermissions_def whoIs_def permissionsFromCapMap_def knownYeetPermissions_def
  permissionRead_def permissionManage_def permissionSSH_def

theorem exec_needs_grants_witness:
  "handleExecWS example_env ''100.64.0.1:80'' \<lparr>er_Target = [], er_Service = ''web'', er_Args = [''stop''], er_TTY = False\<rparr> =
     ExecRuns (Inr (RunLocked ''web'' ''stop'' [])) \<and>
   permissionManage \<in> granted example_env ''100.64.0.1:80''"
proof -
  have "handleExecWS example_env ''100.64.0.1:80''
      \<lparr>er_Target = [], er_Service = ''web'', er_Args = [''stop''], er_TTY = False\<rparr> =
     ExecRuns (Inr (RunLocked ''web'' ''stop'' []))"
    by (simp add: handleExecWS_def normalizeExecRequest_def normalizeServiceExecRequest_def TrimSpace_def is_space_def
        example_env_eval ttyCommandPermissions_def tty_exec_def tty_dispatch_def ttyCommandHandlers_def
        serviceMutationTarget_def)
  from exec_needs_grants [OF _ this] this show ?thesis by (simp add: example_env_def)
qed

lemma find_action_insert:
  "find_action i args = Some (act, j) \<Longrightarrow>
   i \<le> j \<and> find_action i (take (Suc (j - i)) args @ svc # drop (Suc (j - i)) args) = Some (act, j)"
proof (induction i args arbitrary: j rule: find_action.induct)
  case (2 i arg rest)
  show ?case
  proof (cases "HasPrefix arg ''--'' \<and> arg \<noteq> ''--''")
    case False
    then show ?thesis using "2.prems" by (auto split: list.splits if_splits)
  next
    case True
    then obtain consumes where c: "map_of vm_runtime_flags (flag_name arg) = Some consumes"
      using "2.prems" by (auto split: option.splits)
    show ?thesis
    proof (cases "\<not> consumes \<or> CHR ''='' \<in> set arg")
      case inline: True
      have "find_action (Suc i) rest = Some (act, j)" using "2.prems" True c inline by auto
      note ih = "2.IH"(1) [OF _ _ c inline this]
      then have "j - i = Suc (j - Suc i)" using True by arith
      then show ?thesis using ih True c inline by auto
    next
      case False
      then obtain v r where r: "rest = v # r" "find_action (Suc (Suc i)) r = Some (act, j)"
        using "2.prems" True c by (cases rest) auto
      note ih = "2.IH"(2) [OF _ _ c False _]
      have "Suc (Suc i) \<le> j \<and>
        find_action (Suc (Suc i)) (take (Suc (j - Suc (Suc i))) r @ svc # drop (Suc (j - Suc (Suc i))) r) = Some (act, j)"
        using ih r True by simp
      moreover from this have "j - i = Suc (Suc (j - Suc (Suc i)))" by arith
      ultimately show ?thesis using r True c False by auto
    qed
  qed
qed simp

text \<open>
  The action that is authorized is the action that runs: putting the service back into the
  arguments of a \<^verbatim>\<open>vm runtime\<close> command changes neither the action that is found nor where.
\<close>

theorem runtime_action_stable:
  "FindVMRuntimeAction (vmRuntimeLogicalArgs service args) = FindVMRuntimeAction args"
proof (cases "FindVMRuntimeAction args")
  case None
  then show ?thesis by (simp add: vmRuntimeLogicalArgs_def)
next
  case (Some p)
  obtain act j where p: "p = (act, j)" by (cases p)
  then have "find_action 0 args = Some (act, j)" using Some by (simp add: FindVMRuntimeAction_def)
  from find_action_insert [OF this, of service] Some p show ?thesis
    by (simp add: vmRuntimeLogicalArgs_def FindVMRuntimeAction_def)
qed

lemma rpc_grants:
  assumes "AuthorizeFunc env = None" "handleRPC env remoteAddr m b decoded = Dispatched h"
  shows "h \<noteq> MethodNotFound \<and> node_tagged env \<and>
      (if h \<in> {HostStorage, ISOPoolRPC} then permissionManage \<in> granted env remoteAddr \<and> resolver_block env = None
       else if h = TailscaleSetup then {permissionRead, permissionManage, permissionSSH} \<subseteq> granted env remoteAddr
       else permissionRead \<in> granted env remoteAddr)"
proof -
  obtain req where "decoded = Some req" using assms(2) by (cases decoded) (auto simp: handleRPC_def split: if_splits)
  then have req: "authorizeRPCMethod env remoteAddr (rq_Method req) = None" "h = dispatchRPCWithContext (rq_Method req)"
    using assms(2) by (auto simp: handleRPC_def split: if_splits)
  let ?m = "rq_Method req"
  obtain P where P: "rpcMethodPermissions ?m = Inr P" "authorizePermissionSet env remoteAddr P = None"
    using req(1) by (auto simp: authorizeRPCMethod_def split: sum.splits)
  have "P \<noteq> {} \<and> P \<subseteq> set knownYeetPermissions"
    using P(1) by (auto simp: rpcMethodPermissions_def knownYeetPermissions_def split: if_splits)
  then have g: "permissionManage \<in> P \<longrightarrow> resolver_block env = None" "node_tagged env" "P \<subseteq> granted env remoteAddr"
    using authorizePermissionSet_None [OF assms(1)] P(2) by auto
  consider (r) "?m \<in> set read_methods" "P = {permissionRead}" | (h) "?m \<in> set host_mutation_methods" "P = {permissionManage}"
    | (t) "?m = ''catch.TailscaleSetup''" "P = {permissionRead, permissionManage, permissionSSH}"
    using P(1) by (auto simp: rpcMethodPermissions_def split: if_splits)
  then show "h \<noteq> MethodNotFound \<and> node_tagged env \<and>
      (if h \<in> {HostStorage, ISOPoolRPC} then permissionManage \<in> granted env remoteAddr \<and> resolver_block env = None
       else if h = TailscaleSetup then {permissionRead, permissionManage, permissionSSH} \<subseteq> granted env remoteAddr
       else permissionRead \<in> granted env remoteAddr)"
  proof cases
    case r
    then have "h \<in> {GetInfo, ServiceInfo, ArtifactHashes, StorageRead, VMDefaults, ServicesList}"
      using req(2) by (auto simp: read_methods_def dispatchRPCWithContext_def host_mutation_methods_def)
    then show ?thesis using g r(2) by auto
  next
    case h
    then have "h \<in> {HostStorage, ISOPoolRPC}"
      using req(2) by (auto simp: dispatchRPCWithContext_def host_mutation_methods_def handleRPCHostMutation_def)
    then show ?thesis using g h(2) by auto
  next
    case t
    then have "h = TailscaleSetup"
      using req(2) by (simp add: dispatchRPCWithContext_def host_mutation_methods_def)
    then show ?thesis using g t(2) by auto
  qed
qed

text \<open>
  C20: an RPC is dispatched only to a handler that exists, the handlers that plan or change host
  storage and the ISO pool only for callers with \<^verbatim>\<open>manage\<close> while mutations are not blocked, the
  set-up of Tailscale only with all permissions, the others with \<^verbatim>\<open>read\<close>; and the registry serves
  other hosts only with \<^verbatim>\<open>manage\<close> and the host itself only for reading.
\<close>

theorem rpc_needs_grants:
  assumes "AuthorizeFunc env = None"
  shows "(handleRPC env remoteAddr m b decoded = Dispatched h \<longrightarrow>
      h \<noteq> MethodNotFound \<and> node_tagged env \<and>
      (if h \<in> {HostStorage, ISOPoolRPC} then permissionManage \<in> granted env remoteAddr \<and> resolver_block env = None
       else if h = TailscaleSetup then {permissionRead, permissionManage, permissionSSH} \<subseteq> granted env remoteAddr
       else permissionRead \<in> granted env remoteAddr)) \<and>
    (containerRegistry_ServeHTTP env remoteAddr ap httpMethod = RegistryServed \<longrightarrow>
      (\<exists>a. ap = Some a \<and> (is_loopback a \<and> httpMethod \<in> {''GET'', ''HEAD'', ''OPTIONS''} \<or>
         \<not> is_loopback a \<and> permissionManage \<in> granted env remoteAddr \<and> resolver_block env = None)))"
proof (intro conjI impI)
  assume "containerRegistry_ServeHTTP env remoteAddr ap httpMethod = RegistryServed"
  then show "\<exists>a. ap = Some a \<and> (is_loopback a \<and> httpMethod \<in> {''GET'', ''HEAD'', ''OPTIONS''} \<or>
      \<not> is_loopback a \<and> permissionManage \<in> granted env remoteAddr \<and> resolver_block env = None)"
    using authorizeCaller_None [OF assms, of "[permissionManage]" remoteAddr]
    by (auto simp: containerRegistry_ServeHTTP_def split: option.splits if_splits)
qed (use rpc_grants [OF assms] in blast)+

theorem rpc_needs_grants_witness:
  "handleRPC example_env ''100.64.0.1:80'' ''POST'' True
     (Some \<lparr>rq_JSONRPC = ''2.0'', rq_Method = ''catch.ISOPoolApply'', rq_hasID = True\<rparr>) = Dispatched ISOPoolRPC \<and>
   permissionManage \<in> granted example_env ''100.64.0.1:80'' \<and>
   containerRegistry_ServeHTTP example_env ''100.64.0.1:80'' (Some (V4 0x64400001)) ''PUT'' = RegistryServed"
proof -
  have h: "handleRPC example_env ''100.64.0.1:80'' ''POST'' True
     (Some \<lparr>rq_JSONRPC = ''2.0'', rq_Method = ''catch.ISOPoolApply'', rq_hasID = True\<rparr>) = Dispatched ISOPoolRPC"
    by (simp add: handleRPC_def authorizeRPCMethod_def rpcMethodPermissions_def read_methods_def host_mutation_methods_def
        example_env_eval dispatchRPCWithContext_def handleRPCHostMutation_def)
  have r: "containerRegistry_ServeHTTP example_env ''100.64.0.1:80'' (Some (V4 0x64400001)) ''PUT'' = RegistryServed"
    by (simp add: containerRegistry_ServeHTTP_def is_loopback_def example_env_eval)
  show ?thesis using rpc_needs_grants [of example_env] h r by (fastforce simp: example_env_def)
qed

end
