(* ===== verification/Go_Parse.thy ===== *)
theory Go_Parse
  imports Prelude
begin

text \<open>
  Reading integers as package strconv does: \<^verbatim>\<open>strconv.ParseInt(s, 10, 64)\<close> and \<^verbatim>\<open>strconv.Atoi\<close> (the same
  on 64-bit targets), with the range check, and that they read back what \<^verbatim>\<open>strconv.Itoa\<close> prints.
\<close>

definition ParseInt64 :: "string \<Rightarrow> int option" where
  "ParseInt64 s =
     (let neg = (s \<noteq> [] \<and> hd s = CHR ''-'');
          body = (if s \<noteq> [] \<and> (hd s = CHR ''-'' \<or> hd s = CHR ''+'') then tl s else s);
          n = int (digits_val body)
      in if body = [] \<or> \<not> list_all is_digit body then None
         else if neg then (if n > 2 ^ 63 then None else Some (- n))
         else if n \<ge> 2 ^ 63 then None else Some n)"

lemma ParseInt64_range: "ParseInt64 s = Some i \<Longrightarrow> in_int64 i"
  by (auto simp: ParseInt64_def Let_def in_int64_def min_int64_def max_int64_def split: if_splits)

lemma digits_list_all: "list_all is_digit (nat_digits n)"
  using nat_digits_is_digit by (auto simp: list_all_iff)

lemma hd_digits_not_sign: "hd (nat_digits n) \<noteq> CHR ''-''" "hd (nat_digits n) \<noteq> CHR ''+''"
proof -
  have "is_digit (hd (nat_digits n))" by (intro nat_digits_is_digit [of _ n]) simp
  then show "hd (nat_digits n) \<noteq> CHR ''-''" "hd (nat_digits n) \<noteq> CHR ''+''" by (auto simp: is_digit_def)
qed

lemma ParseInt64_Itoa: "in_int64 i \<Longrightarrow> ParseInt64 (Itoa i) = Some i"
  by (auto simp: ParseInt64_def Itoa_def Let_def digits_list_all hd_digits_not_sign in_int64_def min_int64_def max_int64_def)

section \<open>Trimming printed numbers\<close>

lemma TrimSpace_id: "s \<noteq> [] \<Longrightarrow> \<not> is_space (hd s) \<Longrightarrow> \<not> is_space (last s) \<Longrightarrow> TrimSpace s = s"
proof -
  assume s: "s \<noteq> []" "\<not> is_space (hd s)" "\<not> is_space (last s)"
  have "dropWhile is_space s = s" using s by (simp add: dropWhile_eq_self_iff)
  moreover have "dropWhile is_space (rev s) = rev s" using s by (simp add: dropWhile_eq_self_iff hd_rev)
  ultimately show ?thesis by (simp add: TrimSpace_def)
qed

lemma digit_no_space: "is_digit c \<Longrightarrow> \<not> is_space c"
  by (auto simp: is_digit_def is_space_def)

lemma digits_ends: "is_digit (hd (nat_digits n))" "is_digit (last (nat_digits n))"
  using nat_digits_is_digit [of _ n] by simp_all

lemma TrimSpace_digits: "TrimSpace (nat_digits n) = nat_digits n"
  using digits_ends [THEN digit_no_space] by (intro TrimSpace_id) auto

lemma TrimSpace_digits_unit: "\<not> is_space c \<Longrightarrow> TrimSpace (nat_digits n @ [c]) = nat_digits n @ [c]"
  using digits_ends [THEN digit_no_space] by (intro TrimSpace_id) auto

section \<open>Truncating division of numbers that are not negative\<close>

lemma sdiv_nonneg: "0 \<le> a \<Longrightarrow> 0 < b \<Longrightarrow> a sdiv b = a div (b :: int)"
  by (cases "a = 0") (simp_all add: signed_divide_int_def)

lemma smod_nonneg: "0 \<le> a \<Longrightarrow> 0 < b \<Longrightarrow> a smod b = a mod (b :: int)"
  by (cases "a = 0") (simp_all add: signed_modulo_int_def signed_divide_int_def minus_div_mult_eq_mod)

lemma smod_zero_div: "0 \<le> a \<Longrightarrow> 0 < b \<Longrightarrow> a smod b = 0 \<Longrightarrow> a div b * b = (a :: int)"
  using div_mult_mod_eq [of a b] by (simp add: smod_nonneg)

lemma div_le_self_int: "0 \<le> a \<Longrightarrow> 0 < b \<Longrightarrow> a div b \<le> (a :: int)"
  by (smt (verit) div_by_1 zdiv_mono2)

end
