(* ===== verification/Snapshots.thy ===== *)
theory Snapshots
  imports Db_Types Go_Parse
begin

text \<open>
  ZFS snapshots around risky operations (\<^verbatim>\<open>src/pkg/catch/service_snapshots.go\<close>): the effective policy
  of a service, the snapshot taken before an operation, and the pruning of old ones.

  Durations are \<open>int64\<close> nanoseconds, creation times Unix seconds. Parameters: \<^verbatim>\<open>time.ParseDuration\<close> and
  \<^verbatim>\<open>Duration.String\<close> (their fractions go through floating point), the formatted time stamp and the
  random suffix of a name, and the runner of the zfs command, a function on a state \<open>'z\<close> which
  returns standard output, standard error and whether it succeeded. The operation that is
  guarded is an action on the same state.

  The lemmas say which snapshots pruning may and may not destroy and how many are left, when
  an operation runs without a snapshot, and that the printed maximum age is read back.
\<close>

section \<open>Policy\<close>

definition snapshotEventRun :: string where "snapshotEventRun = ''run''"
definition snapshotEventDockerUpdate :: string where "snapshotEventDockerUpdate = ''docker-update''"
definition snapshotEventServiceRootMigration :: string where
  "snapshotEventServiceRootMigration = ''service-root-migration''"
definition snapshotEventServiceIdentityMigration :: string where
  "snapshotEventServiceIdentityMigration = ''service-identity-migration''"
definition snapshotEventManual :: string where "snapshotEventManual = ''manual''"

definition hour_ns :: int where "hour_ns = 3600 * 1000000000"
definition day_ns :: int where "day_ns = 24 * hour_ns"
definition defaultSnapshotMaxAge :: int where "defaultSnapshotMaxAge = 7 * day_ns"
definition defaultSnapshotKeepLast :: int where "defaultSnapshotKeepLast = 5"

record effectivePolicy =
  ef_Enabled :: bool
  ef_KeepLast :: int
  ef_MaxAge :: int
  ef_Events :: "string list"
  ef_Required :: bool

definition Allows :: "effectivePolicy \<Rightarrow> string \<Rightarrow> bool" where
  "Allows p event \<longleftrightarrow> event \<in> set (ef_Events p)"

datatype snap_err =
    InvalidMaxAge string
  | MaxAgeNotPositive
  | KeepLastTooSmall
  | InvalidEvent string
  | EmptyEvent
  | ZfsFailed string string
  | BadRow string
  | BadCreation string
  | BadGeneration string
  | SuffixFailed
  | DBFailed string
  | OperationFailed string

text \<open>The expression \<^verbatim>\<open>^(-?[0-9]+)d$\<close> and its group.\<close>

definition days_match :: "string \<Rightarrow> string option" where
  "days_match raw =
     (let body = butlast raw;
          digits = (if body \<noteq> [] \<and> hd body = CHR ''-'' then tl body else body)
      in if raw \<noteq> [] \<and> last raw = CHR ''d'' \<and> digits \<noteq> [] \<and> list_all is_digit digits then Some body else None)"

definition parseSnapshotMaxAge :: "(string \<Rightarrow> int option) \<Rightarrow> string \<Rightarrow> snap_err + int" where
  "parseSnapshotMaxAge ParseDuration raw0 =
     (let raw = TrimSpace raw0 in
      if raw = [] then Inr defaultSnapshotMaxAge
      else case days_match raw of
             Some m \<Rightarrow>
               (case ParseInt64 m of
                  None \<Rightarrow> Inl (InvalidMaxAge raw)
                | Some days \<Rightarrow>
                    if days > max_int64 div day_ns then Inl (InvalidMaxAge raw)
                    else let d = wrap64 (wrap64 (days * 24) * hour_ns)
                         in if d \<le> 0 then Inl MaxAgeNotPositive else Inr d)
           | None \<Rightarrow>
               (case ParseDuration raw of
                  None \<Rightarrow> Inl (InvalidMaxAge raw)
                | Some d \<Rightarrow> if d \<le> 0 then Inl MaxAgeNotPositive else Inr d))"

definition known_events :: "string list" where
  "known_events = [snapshotEventRun, snapshotEventDockerUpdate, snapshotEventServiceRootMigration,
     snapshotEventServiceIdentityMigration, snapshotEventManual]"

fun effectiveSnapshotEvents :: "string list \<Rightarrow> snap_err + string list" where
  "effectiveSnapshotEvents [] = Inr []"
| "effectiveSnapshotEvents (event # raw) =
     (if event \<notin> set known_events then Inl (InvalidEvent event)
      else case effectiveSnapshotEvents raw of
             Inl e \<Rightarrow> Inl e
           | Inr events \<Rightarrow> Inr (if event \<in> set events then events else event # events))"

definition applySnapshotPolicyOverride :: "SnapshotPolicy \<Rightarrow> SnapshotPolicy option \<Rightarrow> SnapshotPolicy" where
  "applySnapshotPolicyOverride dst src =
     (case src of
        None \<Rightarrow> dst
      | Some s \<Rightarrow>
          \<lparr>snap_Enabled = (if snap_Enabled s \<noteq> None then snap_Enabled s else snap_Enabled dst),
           snap_KeepLast = (if snap_KeepLast s \<noteq> None then snap_KeepLast s else snap_KeepLast dst),
           snap_MaxAge = (if snap_MaxAge s \<noteq> [] then snap_MaxAge s else snap_MaxAge dst),
           snap_Events = (if snap_Events s \<noteq> None then snap_Events s else snap_Events dst),
           snap_Required = (if snap_Required s \<noteq> None then snap_Required s else snap_Required dst)\<rparr>)"

definition default_policy :: SnapshotPolicy where
  "default_policy =
     \<lparr>snap_Enabled = Some True, snap_KeepLast = Some defaultSnapshotKeepLast, snap_MaxAge = [],
      snap_Events = Some [snapshotEventRun, snapshotEventDockerUpdate, snapshotEventServiceRootMigration,
        snapshotEventServiceIdentityMigration],
      snap_Required = Some True\<rparr>"

definition effectiveSnapshotPolicy ::
  "(string \<Rightarrow> int option) \<Rightarrow> SnapshotPolicy option \<Rightarrow> SnapshotPolicy option \<Rightarrow> snap_err + effectivePolicy" where
  "effectiveSnapshotPolicy ParseDuration server service =
     (let raw = applySnapshotPolicyOverride (applySnapshotPolicyOverride default_policy server) service in
      case parseSnapshotMaxAge ParseDuration (snap_MaxAge raw) of
        Inl e \<Rightarrow> Inl e
      | Inr maxAge \<Rightarrow>
          (let enabled = (snap_Enabled raw = Some True);
               keepLast = (case snap_KeepLast raw of None \<Rightarrow> defaultSnapshotKeepLast | Some k \<Rightarrow> k)
           in if enabled \<and> keepLast < 1 then Inl KeepLastTooSmall
              else case effectiveSnapshotEvents (case snap_Events raw of None \<Rightarrow> [] | Some es \<Rightarrow> es) of
                     Inl e \<Rightarrow> Inl e
                   | Inr events \<Rightarrow>
                       Inr \<lparr>ef_Enabled = enabled, ef_KeepLast = keepLast, ef_MaxAge = maxAge, ef_Events = events,
                            ef_Required = (snap_Required raw = Some True)\<rparr>))"

definition parseSnapshotEvents :: "string \<Rightarrow> snap_err + string list" where
  "parseSnapshotEvents raw =
     (let events = map TrimSpace (Split raw (CHR '','')) in
      if [] \<in> set events then Inl EmptyEvent
      else case effectiveSnapshotEvents events of Inl e \<Rightarrow> Inl e | Inr _ \<Rightarrow> Inr events)"

definition preferredEffectiveSnapshotMaxAge :: "SnapshotPolicy option \<Rightarrow> SnapshotPolicy option \<Rightarrow> string" where
  "preferredEffectiveSnapshotMaxAge server service =
     (case service of
        Some s \<Rightarrow> if snap_MaxAge s \<noteq> [] then snap_MaxAge s
                  else (case server of Some v \<Rightarrow> if snap_MaxAge v \<noteq> [] then snap_MaxAge v else ''7d'' | None \<Rightarrow> ''7d'')
      | None \<Rightarrow> (case server of Some v \<Rightarrow> if snap_MaxAge v \<noteq> [] then snap_MaxAge v else ''7d'' | None \<Rightarrow> ''7d''))"

text \<open>Go's division and remainder truncate; the ages here are positive.\<close>

definition formatEffectiveSnapshotMaxAge ::
  "(string \<Rightarrow> int option) \<Rightarrow> (int \<Rightarrow> string) \<Rightarrow> int \<Rightarrow> string \<Rightarrow> string" where
  "formatEffectiveSnapshotMaxAge ParseDuration Duration_String maxAge preferred =
     (if preferred \<noteq> [] \<and> parseSnapshotMaxAge ParseDuration preferred = Inr maxAge then preferred
      else if maxAge = defaultSnapshotMaxAge then ''7d''
      else if maxAge smod day_ns = 0 then Itoa (maxAge sdiv day_ns) @ ''d''
      else Duration_String maxAge)"

definition effectiveSnapshotEventStrings :: "string list \<Rightarrow> string list" where
  "effectiveSnapshotEventStrings events = filter (\<lambda>e. e \<in> set events) known_events"

section \<open>Taking a snapshot\<close>

type_synonym 'z runner = "string list \<Rightarrow> 'z \<Rightarrow> (string \<times> string \<times> bool) \<times> 'z"

record snapshotCreateRequest =
  cr_Service :: string
  cr_Dataset :: string
  cr_Event :: string
  cr_Generation :: "int option"
  cr_Comment :: string
  cr_Checkpoint :: string
  cr_Protected :: bool

definition name_char :: "char \<Rightarrow> bool" where
  "name_char c \<longleftrightarrow> (let n = (of_char c :: nat) in 65 \<le> n \<and> n \<le> 90 \<or> 97 \<le> n \<and> n \<le> 122 \<or> 48 \<le> n \<and> n \<le> 57) \<or>
     c \<in> {CHR ''_'', CHR ''.'', CHR '':'', CHR ''-''}"

text \<open>\<^verbatim>\<open>snapshotNameCleaner.ReplaceAllString\<close>: every run of other characters becomes one underscore.\<close>

fun clean_name :: "bool \<Rightarrow> string \<Rightarrow> string" where
  "clean_name inrun [] = []"
| "clean_name inrun (c # s) =
     (if name_char c then c # clean_name False s
      else if inrun then clean_name True s else CHR ''_'' # clean_name True s)"

definition snapshotShortName :: "string \<Rightarrow> snapshotCreateRequest \<Rightarrow> string" where
  "snapshotShortName stamp req =
     ''yeet-'' @ stamp @ ''-'' @ clean_name False (cr_Event req) @
     (case cr_Generation req of None \<Rightarrow> [] | Some g \<Rightarrow> ''-g'' @ Itoa g)"

definition zfs_snapshot_args :: "snapshotCreateRequest \<Rightarrow> string \<Rightarrow> string list" where
  "zfs_snapshot_args req name =
     [''snapshot'', ''-o'', ''com.yeetrun:created-by=catch'', ''-o'', ''com.yeetrun:service='' @ cr_Service req,
      ''-o'', ''com.yeetrun:event='' @ cr_Event req] @
     (case cr_Generation req of None \<Rightarrow> [] | Some g \<Rightarrow> [''-o'', ''com.yeetrun:generation='' @ Itoa g]) @
     [''-o'', ''com.yeetrun:policy-version=1''] @
     (if TrimSpace (cr_Comment req) \<noteq> [] then [''-o'', ''com.yeetrun:comment='' @ TrimSpace (cr_Comment req)] else []) @
     (if TrimSpace (cr_Checkpoint req) \<noteq> []
      then [''-o'', ''com.yeetrun:checkpoint='' @ TrimSpace (cr_Checkpoint req)] else []) @
     (if cr_Protected req then [''-o'', ''com.yeetrun:protected=true''] else []) @ [name]"

definition runZFSSnapshot ::
  "'z runner \<Rightarrow> snapshotCreateRequest \<Rightarrow> string \<Rightarrow> 'z \<Rightarrow> (string \<times> bool) \<times> 'z" where
  "runZFSSnapshot runner req name z =
     (case runner (zfs_snapshot_args req name) z of ((_, stderr, ok), z1) \<Rightarrow> ((stderr, ok), z1))"

definition isZFSSnapshotNameCollision :: "string \<Rightarrow> bool" where
  "isZFSSnapshotNameCollision stderr0 =
     (let stderr = ToLower stderr0 in
      Contains stderr ''already exists'' \<and> (Contains stderr ''snapshot'' \<or> Contains stderr ''@yeet-''))"

definition createServiceSnapshot ::
  "'z runner \<Rightarrow> string \<Rightarrow> string option \<Rightarrow> snapshotCreateRequest \<Rightarrow> 'z \<Rightarrow> (snap_err + string) \<times> 'z" where
  "createServiceSnapshot runner stamp suffix req z =
     (let short = snapshotShortName stamp req; name = cr_Dataset req @ ''@'' @ short in
      case runZFSSnapshot runner req name z of
        ((stderr, ok), z1) \<Rightarrow>
          if ok then (Inr name, z1)
          else if \<not> isZFSSnapshotNameCollision stderr then (Inl (ZfsFailed (''zfs snapshot '' @ name) stderr), z1)
          else case suffix of
                 None \<Rightarrow> (Inl SuffixFailed, z1)
               | Some sfx \<Rightarrow>
                   (let name2 = cr_Dataset req @ ''@'' @ short @ ''-'' @ sfx in
                    case runZFSSnapshot runner req name2 z1 of
                      ((stderr2, ok2), z2) \<Rightarrow>
                        if ok2 then (Inr name2, z2) else (Inl (ZfsFailed (''zfs snapshot '' @ name2) stderr2), z2)))"

section \<open>Listing and pruning\<close>

record listedSnapshot =
  ls_Name :: string
  ls_Created :: int
  ls_CreatedBy :: string
  ls_Service :: string
  ls_Event :: string
  ls_Generation :: "int option"
  ls_Comment :: string
  ls_Checkpoint :: string
  ls_Protected :: bool

definition zfsPropertyValue :: "string \<Rightarrow> string" where
  "zfsPropertyValue raw = (if raw = ''-'' then [] else raw)"

definition parse_snapshot_row :: "string \<Rightarrow> snap_err + listedSnapshot" where
  "parse_snapshot_row line =
     (let fs = Split line (CHR 0x09) in
      if length fs \<noteq> 4 \<and> length fs \<noteq> 9 then Inl (BadRow line)
      else case ParseInt64 (fs ! 1) of
             None \<Rightarrow> Inl (BadCreation (fs ! 1))
           | Some created \<Rightarrow>
               (let base = \<lparr>ls_Name = fs ! 0, ls_Created = created, ls_CreatedBy = zfsPropertyValue (fs ! 2),
                            ls_Service = zfsPropertyValue (fs ! 3), ls_Event = [], ls_Generation = None,
                            ls_Comment = [], ls_Checkpoint = [], ls_Protected = False\<rparr>
                in if length fs = 4 then Inr base
                   else (let full = (\<lambda>g. base\<lparr>ls_Event := zfsPropertyValue (fs ! 4), ls_Generation := g,
                                ls_Comment := zfsPropertyValue (fs ! 6), ls_Checkpoint := zfsPropertyValue (fs ! 7),
                                ls_Protected := (fs ! 8 = ''true'')\<rparr>)
                         in if zfsPropertyValue (fs ! 5) = [] then Inr (full None)
                            else case ParseInt64 (zfsPropertyValue (fs ! 5)) of
                                   None \<Rightarrow> Inl (BadGeneration (fs ! 5))
                                 | Some g \<Rightarrow> Inr (full (Some g)))))"

fun parse_rows :: "string list \<Rightarrow> snap_err + listedSnapshot list" where
  "parse_rows [] = Inr []"
| "parse_rows (line # rest) =
     (if TrimSpace line = [] then parse_rows rest
      else case parse_snapshot_row line of
             Inl e \<Rightarrow> Inl e
           | Inr snap \<Rightarrow> (case parse_rows rest of Inl e \<Rightarrow> Inl e | Inr snaps \<Rightarrow> Inr (snap # snaps)))"

definition parseListedSnapshots :: "string \<Rightarrow> snap_err + listedSnapshot list" where
  "parseListedSnapshots raw = parse_rows (Split raw (CHR 0x0A))"

definition list_columns :: string where
  "list_columns = ''name,creation,com.yeetrun:created-by,com.yeetrun:service,com.yeetrun:event,com.yeetrun:generation,com.yeetrun:comment,com.yeetrun:checkpoint,com.yeetrun:protected''"

definition listServiceSnapshots :: "'z runner \<Rightarrow> string \<Rightarrow> 'z \<Rightarrow> (snap_err + listedSnapshot list) \<times> 'z" where
  "listServiceSnapshots runner dataset z =
     (case runner [''list'', ''-H'', ''-p'', ''-t'', ''snapshot'', ''-o'', list_columns, ''-s'', ''creation'', dataset] z of
        ((stdout, stderr, ok), z1) \<Rightarrow>
          if ok then (parseListedSnapshots stdout, z1)
          else (Inl (ZfsFailed (''zfs list snapshots '' @ dataset) stderr), z1))"

definition catchOwnedYeetSnapshotsForService :: "listedSnapshot list \<Rightarrow> string \<Rightarrow> listedSnapshot list" where
  "catchOwnedYeetSnapshotsForService snaps service =
     filter (\<lambda>s. ls_CreatedBy s = ''catch'' \<and> ls_Service s = service \<and> Contains (ls_Name s) ''@yeet-'') snaps"

text \<open>\<^verbatim>\<open>time.Time.Sub\<close> saturates.\<close>

definition age_ns :: "int \<Rightarrow> listedSnapshot \<Rightarrow> int" where
  "age_ns now s = max min_int64 (min max_int64 (now - ls_Created s * 1000000000))"

definition snapshotExpired :: "listedSnapshot \<Rightarrow> effectivePolicy \<Rightarrow> int \<Rightarrow> bool" where
  "snapshotExpired s policy now \<longleftrightarrow> ef_MaxAge policy > 0 \<and> age_ns now s > ef_MaxAge policy"

definition snapshotOutsideRetention :: "effectivePolicy \<Rightarrow> nat \<Rightarrow> bool" where
  "snapshotOutsideRetention policy newestIndex \<longleftrightarrow> ef_KeepLast policy > 0 \<and> int newestIndex \<ge> ef_KeepLast policy"

definition shouldPruneSnapshot :: "listedSnapshot \<Rightarrow> effectivePolicy \<Rightarrow> int \<Rightarrow> nat \<Rightarrow> bool" where
  "shouldPruneSnapshot s policy now newestIndex \<longleftrightarrow>
     snapshotExpired s policy now \<or> snapshotOutsideRetention policy newestIndex"

definition newer :: "listedSnapshot \<Rightarrow> listedSnapshot \<Rightarrow> bool" where
  "newer a b = (if ls_Created a \<noteq> ls_Created b then ls_Created a > ls_Created b else ls_Name a < ls_Name b)"

text \<open>The loop over the sorted snapshots, with the loop index and the retention index.\<close>

fun prune_loop :: "effectivePolicy \<Rightarrow> int \<Rightarrow> string \<Rightarrow> nat \<Rightarrow> nat \<Rightarrow> listedSnapshot list \<Rightarrow> string list" where
  "prune_loop policy now current i r [] = []"
| "prune_loop policy now current i r (s # rest) =
     (if ls_Protected s then prune_loop policy now current (Suc i) r rest
      else if ls_Name s = current then prune_loop policy now current (Suc i) (Suc r) rest
      else if current = [] \<and> i = 0 then prune_loop policy now current (Suc i) (Suc r) rest
      else if shouldPruneSnapshot s policy now r then ls_Name s # prune_loop policy now current (Suc i) (Suc r) rest
      else prune_loop policy now current (Suc i) (Suc r) rest)"

definition snapshotsToPrune ::
  "listedSnapshot list \<Rightarrow> string \<Rightarrow> effectivePolicy \<Rightarrow> int \<Rightarrow> string \<Rightarrow> string list" where
  "snapshotsToPrune snaps service policy now current =
     (let prune = prune_loop policy now current 0 0 (sort_by newer (catchOwnedYeetSnapshotsForService snaps service))
      in filter (\<lambda>n. n \<in> set prune) (map ls_Name snaps))"

definition destroySnapshot :: "'z runner \<Rightarrow> string \<Rightarrow> 'z \<Rightarrow> snap_err option \<times> 'z" where
  "destroySnapshot runner name z =
     (case runner [''destroy'', name] z of
        ((_, stderr, ok), z1) \<Rightarrow> (if ok then None else Some (ZfsFailed (''zfs destroy '' @ name) stderr), z1))"

fun destroy_all :: "'z runner \<Rightarrow> string list \<Rightarrow> 'z \<Rightarrow> (string list \<times> snap_err option) \<times> 'z" where
  "destroy_all runner [] z = (([], None), z)"
| "destroy_all runner (n # ns) z =
     (case destroySnapshot runner n z of
        (Some e, z1) \<Rightarrow> (([], Some e), z1)
      | (None, z1) \<Rightarrow>
          (case destroy_all runner ns z1 of ((destroyed, err), z2) \<Rightarrow> ((n # destroyed, err), z2)))"

definition pruneServiceSnapshotsForDataset ::
  "'z runner \<Rightarrow> string \<Rightarrow> Service option \<Rightarrow> effectivePolicy \<Rightarrow> int \<Rightarrow> string \<Rightarrow> 'z \<Rightarrow>
   (string list \<times> snap_err option) \<times> 'z" where
  "pruneServiceSnapshotsForDataset runner dataset service policy now current z =
     (case service of
        None \<Rightarrow> (([], None), z)
      | Some svc \<Rightarrow>
          if TrimSpace dataset = [] then (([], None), z)
          else case listServiceSnapshots runner dataset z of
                 (Inl e, z1) \<Rightarrow> (([], Some e), z1)
               | (Inr snaps, z1) \<Rightarrow>
                   destroy_all runner (snapshotsToPrune snaps (svc_Name svc) policy now current) z1)"

definition pruneServiceSnapshots ::
  "'z runner \<Rightarrow> Service option \<Rightarrow> effectivePolicy \<Rightarrow> int \<Rightarrow> string \<Rightarrow> 'z \<Rightarrow> snap_err option \<times> 'z" where
  "pruneServiceSnapshots runner service policy now current z =
     (case service of
        None \<Rightarrow> (None, z)
      | Some svc \<Rightarrow>
          if TrimSpace (svc_ServiceRootZFS svc) = [] then (None, z)
          else case pruneServiceSnapshotsForDataset runner (svc_ServiceRootZFS svc) service policy now current z of
                 ((_, err), z1) \<Rightarrow> (err, z1))"

section \<open>An operation with a snapshot\<close>

record 'z snapshotOperation =
  op_Service :: "Service option"
  op_Event :: string
  op_Operation :: "('z \<Rightarrow> string option \<times> 'z) option"

definition isInitialRunSnapshot :: "Service \<Rightarrow> string \<Rightarrow> bool" where
  "isInitialRunSnapshot svc event \<longleftrightarrow>
     event = snapshotEventRun \<and> svc_Generation svc = 0 \<and> svc_LatestGeneration svc = 0"

text \<open>\<open>db\<close> is the answer of the store's \<^verbatim>\<open>Get\<close>; \<open>None\<close> is a server without a store.\<close>

definition skipsServiceSnapshot :: "(string + Data) option \<Rightarrow> 'z snapshotOperation \<Rightarrow> bool" where
  "skipsServiceSnapshot db op \<longleftrightarrow>
     db = None \<or>
     (case op_Service op of
        None \<Rightarrow> True
      | Some svc \<Rightarrow> TrimSpace (svc_ServiceRootZFS svc) = [] \<or> isInitialRunSnapshot svc (op_Event op))"

definition serviceSnapshotPolicy ::
  "(string \<Rightarrow> int option) \<Rightarrow> string + Data \<Rightarrow> Service \<Rightarrow> snap_err + effectivePolicy" where
  "serviceSnapshotPolicy ParseDuration dv svc =
     (case dv of
        Inl e \<Rightarrow> Inl (DBFailed e)
      | Inr d \<Rightarrow> effectiveSnapshotPolicy ParseDuration (SnapshotDefaults d) (svc_SnapshotPolicy svc))"

definition operation_request :: "Service \<Rightarrow> string \<Rightarrow> snapshotCreateRequest" where
  "operation_request svc event =
     \<lparr>cr_Service = svc_Name svc, cr_Dataset = svc_ServiceRootZFS svc, cr_Event = event,
      cr_Generation = Some (svc_Generation svc), cr_Comment = [], cr_Checkpoint = [], cr_Protected = False\<rparr>"

definition run_operation :: "('z \<Rightarrow> string option \<times> 'z) \<Rightarrow> 'z \<Rightarrow> snap_err option \<times> 'z" where
  "run_operation f z = (case f z of (e, z1) \<Rightarrow> (map_option OperationFailed e, z1))"

text \<open>A prune that fails is only a warning, and the operation's error is the result.\<close>

definition finishSnapshotOperation ::
  "'z runner \<Rightarrow> Service \<Rightarrow> effectivePolicy \<Rightarrow> int \<Rightarrow> string \<Rightarrow> snap_err option \<Rightarrow> 'z \<Rightarrow> snap_err option \<times> 'z" where
  "finishSnapshotOperation runner svc policy now name opErr z =
     (case pruneServiceSnapshots runner (Some svc) policy now name z of (_, z1) \<Rightarrow> (opErr, z1))"

record 'z snap_env =
  se_runner :: "'z runner"
  se_ParseDuration :: "string \<Rightarrow> int option"
  se_now :: int
  se_stamp :: string
  se_suffix :: "string option"

definition withServiceSnapshot ::
  "'z snap_env \<Rightarrow> (string + Data) option \<Rightarrow> 'z snapshotOperation \<Rightarrow> 'z \<Rightarrow> snap_err option \<times> 'z" where
  "withServiceSnapshot env db op z =
     (case op_Operation op of
        None \<Rightarrow> (None, z)
      | Some f \<Rightarrow>
          if skipsServiceSnapshot db op then run_operation f z
          else (let svc = the (op_Service op) in
                case serviceSnapshotPolicy (se_ParseDuration env) (the db) svc of
                  Inl e \<Rightarrow> (Some e, z)
                | Inr policy \<Rightarrow>
                    if \<not> ef_Enabled policy \<or> \<not> Allows policy (op_Event op) then run_operation f z
                    else case createServiceSnapshot (se_runner env) (se_stamp env) (se_suffix env)
                                (operation_request svc (op_Event op)) z of
                           (Inl e, z1) \<Rightarrow> if ef_Required policy then (Some e, z1) else run_operation f z1
                         | (Inr name, z1) \<Rightarrow>
                             (case run_operation f z1 of
                                (opErr, z2) \<Rightarrow>
                                  finishSnapshotOperation (se_runner env) svc policy (se_now env) name opErr z2)))"

section \<open>What is pruned\<close>

interpretation snap_order: go_order newer
  by unfold_locales (auto simp: newer_def split: if_splits)

definition owned :: "string \<Rightarrow> listedSnapshot \<Rightarrow> bool" where
  "owned service s \<longleftrightarrow> ls_CreatedBy s = ''catch'' \<and> ls_Service s = service \<and> Contains (ls_Name s) ''@yeet-''"

definition unprotected :: "listedSnapshot list \<Rightarrow> listedSnapshot list" where
  "unprotected ss = filter (\<lambda>s. \<not> ls_Protected s) ss"

lemma prune_loop_iff:
  "n \<in> set (prune_loop policy now current i r ss) \<longleftrightarrow>
   (\<exists>j < length ss. \<not> ls_Protected (ss ! j) \<and> n = ls_Name (ss ! j) \<and> n \<noteq> current \<and>
      \<not> (current = [] \<and> i + j = 0) \<and>
      shouldPruneSnapshot (ss ! j) policy now (r + length (unprotected (take j ss))))"
proof (induction policy now current i r ss rule: prune_loop.induct)
  case (2 policy now current i r s rest)
  have ex: "(\<exists>j < length (s # rest). Q j) \<longleftrightarrow> Q 0 \<or> (\<exists>j < length rest. Q (Suc j))" for Q
    by (auto simp: less_Suc_eq_0_disj)
  show ?case
    unfolding ex using 2 by (auto simp: unprotected_def)
qed simp

lemma unprotected_rank:
  assumes "j < length ss" "\<not> ls_Protected (ss ! j)"
  shows "length (unprotected (take j ss)) < length (unprotected ss)"
    "unprotected ss ! length (unprotected (take j ss)) = ss ! j"
proof -
  have "unprotected ss = unprotected (take j ss) @ ss ! j # unprotected (drop (Suc j) ss)"
    using assms id_take_nth_drop [OF assms(1)] unfolding unprotected_def
    by (metis (no_types, lifting) filter.simps(2) filter_append)
  then show "length (unprotected (take j ss)) < length (unprotected ss)"
    "unprotected ss ! length (unprotected (take j ss)) = ss ! j" by simp_all
qed

text \<open>The same in terms of the rank among the unprotected snapshots.\<close>

lemma prune_loop_rank:
  assumes "distinct (map ls_Name ss)" "k < length (unprotected ss)"
  shows "ls_Name (unprotected ss ! k) \<in> set (prune_loop policy now current 0 0 ss) \<longleftrightarrow>
    ls_Name (unprotected ss ! k) \<noteq> current \<and> \<not> (current = [] \<and> unprotected ss ! k = ss ! 0) \<and>
    shouldPruneSnapshot (unprotected ss ! k) policy now k"
proof -
  let ?u = "unprotected ss"
  have "?u ! k \<in> set ?u" using assms(2) by simp
  then obtain j where j: "j < length ss" "ss ! j = ?u ! k" "\<not> ls_Protected (ss ! j)"
    by (auto simp: unprotected_def in_set_conv_nth)
  have d: "distinct ss" using assms(1) by (simp add: distinct_map)
  have rank: "length (unprotected (take j ss)) = k"
    using unprotected_rank [OF j(1,3)] j(2) assms(2) d
    by (metis distinct_filter nth_eq_iff_index_eq unprotected_def)
  have only: "i = j" if "i < length ss" "ls_Name (?u ! k) = ls_Name (ss ! i)" for i
    using nth_eq_iff_index_eq [OF assms(1), of i j] that j by simp
  have zero: "j = 0 \<longleftrightarrow> ?u ! k = ss ! 0" using nth_eq_iff_index_eq [OF d, of j 0] j by (cases ss) auto
  show ?thesis
  proof
    assume "ls_Name (?u ! k) \<in> set (prune_loop policy now current 0 0 ss)"
    then obtain i where i: "i < length ss" "ls_Name (?u ! k) = ls_Name (ss ! i)" "ls_Name (?u ! k) \<noteq> current"
      "\<not> (current = [] \<and> 0 + i = 0)" "shouldPruneSnapshot (ss ! i) policy now (0 + length (unprotected (take i ss)))"
      unfolding prune_loop_iff by blast
    then show "ls_Name (?u ! k) \<noteq> current \<and> \<not> (current = [] \<and> ?u ! k = ss ! 0) \<and>
        shouldPruneSnapshot (?u ! k) policy now k"
      using only [OF i(1,2)] rank zero j(2) by simp
  next
    assume "ls_Name (?u ! k) \<noteq> current \<and> \<not> (current = [] \<and> ?u ! k = ss ! 0) \<and>
        shouldPruneSnapshot (?u ! k) policy now k"
    then show "ls_Name (?u ! k) \<in> set (prune_loop policy now current 0 0 ss)"
      unfolding prune_loop_iff using j rank zero by (intro exI [of _ j]) simp
  qed
qed

lemma prune_not_current: "current \<notin> set (snapshotsToPrune snaps service policy now current)"
  by (auto simp: snapshotsToPrune_def Let_def prune_loop_iff)

definition retention_order :: "listedSnapshot list \<Rightarrow> string \<Rightarrow> listedSnapshot list" where
  "retention_order snaps service = unprotected (sort_by newer (catchOwnedYeetSnapshotsForService snaps service))"

lemma set_retention: "set (retention_order snaps service) = {s \<in> set snaps. owned service s \<and> \<not> ls_Protected s}"
  by (auto simp: retention_order_def unprotected_def catchOwnedYeetSnapshotsForService_def owned_def)

lemma owned_names_distinct:
  "distinct (map ls_Name snaps) \<Longrightarrow> distinct (map ls_Name (sort_by newer (catchOwnedYeetSnapshotsForService snaps service)))"
  by (auto simp: distinct_map catchOwnedYeetSnapshotsForService_def intro: inj_on_subset)

lemma retention_names: "distinct (map ls_Name snaps) \<Longrightarrow> distinct (map ls_Name (retention_order snaps service))"
  using owned_names_distinct [of snaps service]
  by (auto simp: retention_order_def unprotected_def distinct_map_filter)

text \<open>Everything before a snapshot in the retention order is newer.\<close>

lemma rank_newer:
  assumes "distinct (map ls_Name snaps)" "k < length (retention_order snaps service)"
  shows "k \<le> card {t \<in> set (retention_order snaps service). newer t (retention_order snaps service ! k)}"
proof -
  let ?u = "retention_order snaps service"
  have "sorted_wrt (\<lambda>x y. \<not> newer y x) ?u"
    unfolding retention_order_def unprotected_def by (intro sorted_wrt_filter snap_order.sorted_sort_by)
  moreover have ne: "ls_Name (?u ! i) \<noteq> ls_Name (?u ! k)" if "i < k" for i
    using nth_eq_iff_index_eq [OF retention_names [OF assms(1), of service], of i k] that assms(2) by simp
  ultimately have "newer (?u ! i) (?u ! k)" if "i < k" for i
    using ne [OF that] that assms(2) unfolding sorted_wrt_iff_nth_less newer_def
    by (metis linorder_neqE_linordered_idom linorder_neqE)
  then have sub: "set (take k ?u) \<subseteq> {t \<in> set ?u. newer t (?u ! k)}"
    by (auto simp: in_set_conv_nth [of _ "take k ?u"])
  have "distinct (take k ?u)" using retention_names [OF assms(1), of service] by (simp add: distinct_map)
  then have "card (set (take k ?u)) = k" using assms(2) by (simp add: distinct_card)
  then show ?thesis using card_mono [OF _ sub] by simp
qed

abbreviation newest :: "listedSnapshot list \<Rightarrow> string \<Rightarrow> listedSnapshot" where
  "newest snaps service \<equiv> sort_by newer (catchOwnedYeetSnapshotsForService snaps service) ! 0"

lemma prune_rank:
  assumes "distinct (map ls_Name snaps)" "k < length (retention_order snaps service)" "t = retention_order snaps service ! k"
  shows "ls_Name t \<in> set (snapshotsToPrune snaps service policy now current) \<longleftrightarrow>
    ls_Name t \<noteq> current \<and> \<not> (current = [] \<and> t = newest snaps service) \<and> shouldPruneSnapshot t policy now k"
proof -
  let ?ss = "sort_by newer (catchOwnedYeetSnapshotsForService snaps service)"
  have "t \<in> set snaps" using set_retention [of snaps service] nth_mem [OF assms(2)] assms(3) by auto
  then have "ls_Name t \<in> set (snapshotsToPrune snaps service policy now current) \<longleftrightarrow>
      ls_Name t \<in> set (prune_loop policy now current 0 0 ?ss)"
    by (auto simp: snapshotsToPrune_def Let_def)
  then show ?thesis
    using prune_loop_rank [OF owned_names_distinct [OF assms(1)], of k service] assms(2,3)
    by (simp add: retention_order_def)
qed

lemma pruned_in_retention:
  assumes "distinct (map ls_Name snaps)" "s \<in> set snaps"
    and "ls_Name s \<in> set (snapshotsToPrune snaps service policy now current)"
  shows "s \<in> set (retention_order snaps service)"
proof -
  let ?ss = "sort_by newer (catchOwnedYeetSnapshotsForService snaps service)"
  obtain j where j: "j < length ?ss" "\<not> ls_Protected (?ss ! j)" "ls_Name s = ls_Name (?ss ! j)"
    using assms(3) by (auto simp: snapshotsToPrune_def Let_def prune_loop_iff)
  then have t: "?ss ! j \<in> set ?ss" by (metis nth_mem)
  then have "?ss ! j \<in> set snaps" by (auto simp: catchOwnedYeetSnapshotsForService_def)
  then have "s = ?ss ! j" using assms(1,2) j(3) by (auto simp: distinct_map dest: inj_onD)
  then show ?thesis using t j(2) by (simp add: retention_order_def unprotected_def)
qed

lemma prune_only_old:
  assumes "distinct (map ls_Name snaps)" "s \<in> set snaps"
    and "ls_Name s \<in> set (snapshotsToPrune snaps service policy now current)"
  shows "owned service s \<and> \<not> ls_Protected s \<and> ls_Name s \<noteq> current \<and>
    (snapshotExpired s policy now \<or>
     0 < ef_KeepLast policy \<and>
     ef_KeepLast policy \<le> int (card {t \<in> set snaps. owned service t \<and> \<not> ls_Protected t \<and> newer t s}))"
proof -
  let ?u = "retention_order snaps service"
  have u: "s \<in> set ?u" using pruned_in_retention [OF assms] .
  then obtain k where k: "k < length ?u" "s = ?u ! k" by (auto simp: in_set_conv_nth)
  have "{t \<in> set ?u. newer t s} = {t \<in> set snaps. owned service t \<and> \<not> ls_Protected t \<and> newer t s}"
    by (auto simp: set_retention)
  then have n: "k \<le> card {t \<in> set snaps. owned service t \<and> \<not> ls_Protected t \<and> newer t s}"
    using rank_newer [OF assms(1), of k service] k by simp
  have r: "ls_Name s \<noteq> current" "shouldPruneSnapshot s policy now k" using prune_rank [OF assms(1) k] assms(3) by auto
  have "snapshotExpired s policy now \<or> 0 < ef_KeepLast policy \<and>
     ef_KeepLast policy \<le> int (card {t \<in> set snaps. owned service t \<and> \<not> ls_Protected t \<and> newer t s})"
    using r(2) n by (auto simp: shouldPruneSnapshot_def snapshotOutsideRetention_def)
  then show ?thesis using u r(1) by (simp add: set_retention)
qed

lemma newest_rank:
  assumes "distinct (map ls_Name snaps)" "k < length (retention_order snaps service)"
    and "retention_order snaps service ! k = newest snaps service"
  shows "k = 0"
proof -
  let ?ss = "sort_by newer (catchOwnedYeetSnapshotsForService snaps service)" and ?u = "retention_order snaps service"
  obtain x xs where ss: "?ss = x # xs" using assms(2) by (cases ?ss) (simp_all add: retention_order_def unprotected_def)
  have "x \<in> set ?u" using nth_mem [OF assms(2)] assms(3) ss by simp
  then have "\<not> ls_Protected x" by (simp add: set_retention)
  then have "?u = x # unprotected xs" by (simp add: retention_order_def unprotected_def ss)
  then show ?thesis
    using nth_eq_iff_index_eq [of ?u k 0] retention_names [OF assms(1), of service] assms(2,3) ss
    by (auto simp: distinct_map)
qed

lemma prune_bound:
  assumes "distinct (map ls_Name snaps)" "0 < ef_KeepLast policy"
  shows "int (card {t \<in> set snaps. owned service t \<and> \<not> ls_Protected t \<and>
      ls_Name t \<notin> set (snapshotsToPrune snaps service policy now current)}) \<le> ef_KeepLast policy + 1"
proof -
  let ?u = "retention_order snaps service" and ?K = "nat (ef_KeepLast policy)"
  let ?left = "{t \<in> set snaps. owned service t \<and> \<not> ls_Protected t \<and>
      ls_Name t \<notin> set (snapshotsToPrune snaps service policy now current)}"
  let ?cur = "{t \<in> set snaps. ls_Name t = current}"
  have "t \<in> set (take ?K ?u) \<union> ?cur" if t: "t \<in> ?left" for t
  proof -
    have "t \<in> set ?u" using t by (simp add: set_retention)
    then obtain k where k: "k < length ?u" "t = ?u ! k" by (auto simp: in_set_conv_nth)
    show ?thesis
    proof (cases "k < ?K")
      case True
      then show ?thesis using k by (auto simp: in_set_conv_nth)
    next
      case False
      then have "shouldPruneSnapshot t policy now k" "k \<noteq> 0"
        using assms(2) by (auto simp: shouldPruneSnapshot_def snapshotOutsideRetention_def)
      then show ?thesis using prune_rank [OF assms(1) k] newest_rank [OF assms(1) k(1)] k(2) t by auto
    qed
  qed
  then have "card ?left \<le> card (set (take ?K ?u) \<union> ?cur)" by (intro card_mono) auto
  also have "\<dots> \<le> card (set (take ?K ?u)) + card ?cur" by (rule card_Un_le)
  also have "card (set (take ?K ?u)) \<le> ?K" using card_length [of "take ?K ?u"] by simp
  also have "card ?cur \<le> 1"
  proof -
    have "\<forall>x \<in> ?cur. \<forall>y \<in> ?cur. x = y"
      using assms(1) by (auto simp: distinct_map dest: inj_onD)
    then show ?thesis using card_le_Suc0_iff_eq [of ?cur] by simp
  qed
  finally show ?thesis using assms(2) by simp
qed


definition example_snap :: "string \<Rightarrow> int \<Rightarrow> listedSnapshot" where
  "example_snap name created = \<lparr>ls_Name = name, ls_Created = created, ls_CreatedBy = ''catch'', ls_Service = ''web'',
     ls_Event = ''run'', ls_Generation = None, ls_Comment = [], ls_Checkpoint = [], ls_Protected = False\<rparr>"

definition example_policy :: effectivePolicy where
  "example_policy = \<lparr>ef_Enabled = True, ef_KeepLast = 1, ef_MaxAge = 0, ef_Events = [''run''], ef_Required = True\<rparr>"


section \<open>The snapshot an operation can be undone with\<close>

text \<open>
  What zfs is relied on for: a successful snapshot exists afterwards, \<^verbatim>\<open>destroy\<close> removes no other
  snapshot, and listing removes none.
\<close>

definition zfs_spec :: "'z runner \<Rightarrow> ('z \<Rightarrow> string set) \<Rightarrow> bool" where
  "zfs_spec runner taken \<longleftrightarrow>
     (\<forall>req name z out err z'. runner (zfs_snapshot_args req name) z = ((out, err, True), z') \<longrightarrow> name \<in> taken z') \<and>
     (\<forall>n z. taken z - {n} \<subseteq> taken (snd (runner [''destroy'', n] z))) \<and>
     (\<forall>args z. taken z \<subseteq> taken (snd (runner (''list'' # args) z)))"

lemma created_taken:
  assumes "zfs_spec runner taken" "createServiceSnapshot runner stamp suffix req z = (Inr name, z')"
  shows "name \<in> taken z' \<and> Contains name ''@yeet-''"
proof -
  obtain rest out err z0 where n: "name = cr_Dataset req @ ''@'' @ snapshotShortName stamp req @ rest"
    "runner (zfs_snapshot_args req name) z0 = ((out, err, True), z')"
    using assms(2) unfolding createServiceSnapshot_def Let_def runZFSSnapshot_def
    by (auto split: prod.splits if_splits option.splits)
  have "name = cr_Dataset req @ ''@yeet-'' @ drop 5 (snapshotShortName stamp req @ rest)"
    using n(1) by (simp add: snapshotShortName_def)
  then have "Contains name ''@yeet-''" unfolding Contains_iff by blast
  then show ?thesis using assms(1) n(2) unfolding zfs_spec_def by blast
qed

lemma zfs_destroy_keeps:
  "zfs_spec runner taken \<Longrightarrow> m \<noteq> n \<Longrightarrow> m \<in> taken z \<Longrightarrow> m \<in> taken (snd (runner [''destroy'', n] z))"
  unfolding zfs_spec_def by blast

lemma zfs_list_keeps:
  "zfs_spec runner taken \<Longrightarrow> m \<in> taken z \<Longrightarrow> m \<in> taken (snd (runner (''list'' # args) z))"
  unfolding zfs_spec_def by blast

lemma destroySnapshot_state: "snd (destroySnapshot runner n z) = snd (runner [''destroy'', n] z)"
  by (simp add: destroySnapshot_def split: prod.splits)

lemma listServiceSnapshots_state: "\<exists>args. snd (listServiceSnapshots runner dataset z) = snd (runner (''list'' # args) z)"
  by (auto simp: listServiceSnapshots_def split: prod.splits) (metis snd_conv)+

lemma destroy_all_keeps:
  assumes "zfs_spec runner taken" "current \<notin> set ns" "current \<in> taken z"
  shows "current \<in> taken (snd (destroy_all runner ns z))"
  using assms(2,3)
proof (induction ns arbitrary: z)
  case (Cons n ns)
  have *: "current \<in> taken (snd (destroySnapshot runner n z))"
    using zfs_destroy_keeps [OF assms(1)] Cons.prems by (simp add: destroySnapshot_state)
  obtain r z1 where d: "destroySnapshot runner n z = (r, z1)" by (cases "destroySnapshot runner n z")
  then have "current \<in> taken (snd (destroy_all runner ns z1))" using Cons * by simp
  then show ?case using * d by (auto split: prod.splits option.splits)
qed simp

lemma prune_keeps_current:
  assumes "zfs_spec runner taken" "current \<in> taken z"
  shows "current \<in> taken (snd (pruneServiceSnapshots runner service policy now current z))"
proof -
  have l: "current \<in> taken (snd (listServiceSnapshots runner dataset z))" for dataset
    using listServiceSnapshots_state [of runner dataset z] zfs_list_keeps [OF assms] by auto
  have "current \<in> taken (snd (pruneServiceSnapshotsForDataset runner dataset service policy now current z))" for dataset
  proof -
    obtain r z1 where r: "listServiceSnapshots runner dataset z = (r, z1)" by (cases "listServiceSnapshots runner dataset z")
    then have "current \<in> taken z1" using l [of dataset] by simp
    then show ?thesis using assms(2) r destroy_all_keeps [OF assms(1) prune_not_current]
      by (cases r) (simp_all add: pruneServiceSnapshotsForDataset_def split: option.splits)
  qed
  note this [of "svc_ServiceRootZFS (the service)"]
  then show ?thesis using assms(2) by (auto simp: pruneServiceSnapshots_def split: option.splits prod.splits)
qed

text \<open>
  C21: a required snapshot is there when it is needed: when the policy of a service requires a
  snapshot for an event, the operation runs only after one was taken, its error is what is
  reported, and the snapshot still exists at the end whatever was pruned; when no snapshot
  could be taken the operation does not run.
\<close>

theorem recovery_snapshot_survives:
  assumes "zfs_spec (se_runner env) taken" "op_Operation op = Some f" "\<And>z. taken z \<subseteq> taken (snd (f z))"
    and "\<not> skipsServiceSnapshot (Some dv) op" "op_Service op = Some svc"
    and "serviceSnapshotPolicy (se_ParseDuration env) dv svc = Inr policy"
    and "ef_Enabled policy" "Allows policy (op_Event op)" "ef_Required policy"
    and "withServiceSnapshot env (Some dv) op z = (r, z')"
  shows "(\<exists>e. r = Some e \<and> createServiceSnapshot (se_runner env) (se_stamp env) (se_suffix env)
        (operation_request svc (op_Event op)) z = (Inl e, z')) \<or>
    (\<exists>name z1. createServiceSnapshot (se_runner env) (se_stamp env) (se_suffix env)
        (operation_request svc (op_Event op)) z = (Inr name, z1) \<and> name \<in> taken z1 \<and>
        r = map_option OperationFailed (fst (f z1)) \<and> name \<in> taken z')"
proof (cases "createServiceSnapshot (se_runner env) (se_stamp env) (se_suffix env)
        (operation_request svc (op_Event op)) z")
  case (Pair res z1)
  show ?thesis
  proof (cases res)
    case (Inl e)
    then show ?thesis using assms(2,4-10) Pair by (simp add: withServiceSnapshot_def)
  next
    case (Inr name)
    have n: "name \<in> taken z1" using created_taken [OF assms(1)] Pair Inr by blast
    obtain e z2 where f: "f z1 = (e, z2)" by (cases "f z1")
    then have "name \<in> taken z2" using n assms(3) [of z1] by auto
    then have k: "name \<in> taken (snd (pruneServiceSnapshots (se_runner env) (Some svc) policy (se_now env) name z2))"
      by (rule prune_keeps_current [OF assms(1)])
    have "(r, z') = finishSnapshotOperation (se_runner env) svc policy (se_now env) name (map_option OperationFailed e) z2"
      using assms(2,4-10) Pair Inr f by (simp add: withServiceSnapshot_def run_operation_def)
    then have "r = map_option OperationFailed e" "name \<in> taken z'"
      using k by (auto simp: finishSnapshotOperation_def split: prod.splits)
    then show ?thesis using Pair Inr n f by auto
  qed
qed

text \<open>Evaluated with a zfs of which every command succeeds and lists nothing.\<close>

definition example_runner :: "string set runner" where
  "example_runner args z =
     (([], [], True),
      if hd args = ''snapshot'' then insert (last args) z
      else if hd args = ''destroy'' then z - {last args} else z)"

definition example_snap_env :: "string set snap_env" where
  "example_snap_env = \<lparr>se_runner = example_runner, se_ParseDuration = (\<lambda>_. None), se_now = 0, se_stamp = ''S'',
     se_suffix = None\<rparr>"

definition example_service :: Service where
  "example_service = (new_Service ''web'')\<lparr>svc_ServiceRootZFS := ''t/web'', svc_Generation := 1\<rparr>"

definition example_op :: "string set snapshotOperation" where
  "example_op = \<lparr>op_Service = Some example_service, op_Event = ''run'', op_Operation = Some (\<lambda>z. (Some ''boom'', z))\<rparr>"

lemma example_runner_spec: "zfs_spec example_runner (\<lambda>z. z)"
  unfolding zfs_spec_def
proof (intro conjI allI impI)
  fix req name z out err z'
  assume "example_runner (zfs_snapshot_args req name) z = ((out, err, True), z')"
  then show "name \<in> z'" by (auto simp: example_runner_def zfs_snapshot_args_def split: option.splits)
qed (auto simp: example_runner_def)

lemma example_service_fields:
  "svc_Name example_service = ''web''" "svc_ServiceRootZFS example_service = ''t/web''"
  "svc_Generation example_service = 1" "svc_LatestGeneration example_service = 0"
  "svc_SnapshotPolicy example_service = None"
  by (simp_all add: example_service_def new_Service_def)

lemma example_not_skipped: "\<not> skipsServiceSnapshot (Some (Inr new_Data)) example_op"
  by (simp add: skipsServiceSnapshot_def example_op_def isInitialRunSnapshot_def example_service_fields TrimSpace_def
      is_space_def)

definition default_effective :: effectivePolicy where
  "default_effective = \<lparr>ef_Enabled = True, ef_KeepLast = 5, ef_MaxAge = defaultSnapshotMaxAge,
     ef_Events = [''run'', ''docker-update'', ''service-root-migration'', ''service-identity-migration''],
     ef_Required = True\<rparr>"

lemma example_policy_value:
  "serviceSnapshotPolicy (se_ParseDuration example_snap_env) (Inr new_Data) example_service = Inr default_effective"
  by (simp add: serviceSnapshotPolicy_def effectiveSnapshotPolicy_def new_Data_def example_service_fields
      applySnapshotPolicyOverride_def default_policy_def parseSnapshotMaxAge_def TrimSpace_def known_events_def
      defaultSnapshotKeepLast_def default_effective_def snapshotEventRun_def snapshotEventDockerUpdate_def
      snapshotEventServiceRootMigration_def snapshotEventServiceIdentityMigration_def snapshotEventManual_def)

theorem recovery_snapshot_survives_witness:
  "\<exists>name z'. withServiceSnapshot example_snap_env (Some (Inr new_Data)) example_op {} = (Some (OperationFailed ''boom''), z') \<and>
     name \<in> z'"
proof -
  obtain r z' where w: "withServiceSnapshot example_snap_env (Some (Inr new_Data)) example_op {} = (r, z')"
    by (cases "withServiceSnapshot example_snap_env (Some (Inr new_Data)) example_op {}")
  have ok: "createServiceSnapshot (se_runner example_snap_env) (se_stamp example_snap_env) (se_suffix example_snap_env)
      (operation_request example_service (op_Event example_op)) {} \<noteq> (Inl e, z')" for e
    by (simp add: createServiceSnapshot_def Let_def runZFSSnapshot_def example_snap_env_def example_runner_def)
  show ?thesis
    using recovery_snapshot_survives [of example_snap_env "\<lambda>z. z" example_op "\<lambda>z. (Some ''boom'', z)" "Inr new_Data"
        example_service default_effective "{}" r z'] w ok example_not_skipped example_policy_value
    by (simp add: example_snap_env_def example_runner_spec example_op_def default_effective_def Allows_def) blast
qed

section \<open>The maximum age\<close>

text \<open>
  What package time documents of the two functions: \<^verbatim>\<open>String\<close> starts with a digit for a positive
  duration, ends with a unit of seconds, and \<^verbatim>\<open>ParseDuration\<close> reads it back.
\<close>

definition duration_spec :: "(string \<Rightarrow> int option) \<Rightarrow> (int \<Rightarrow> string) \<Rightarrow> bool" where
  "duration_spec ParseDuration Duration_String \<longleftrightarrow>
     (\<forall>d. 0 < d \<longrightarrow> d \<le> max_int64 \<longrightarrow>
        Duration_String d \<noteq> [] \<and> is_digit (hd (Duration_String d)) \<and> last (Duration_String d) = CHR ''s'' \<and>
        ParseDuration (Duration_String d) = Some d)"

lemma parse_days:
  assumes "0 < n" "n \<le> max_int64 div day_ns"
  shows "parseSnapshotMaxAge ParseDuration (Itoa n @ ''d'') = Inr (n * day_ns)"
proof -
  have n: "n \<le> 106751" using assms(2) by (simp add: max_int64_def day_ns_def hour_ns_def)
  have i: "Itoa n = nat_digits (nat n)" using assms(1) by (simp add: Itoa_def)
  have "is_digit (hd (nat_digits (nat n)))" by (intro nat_digits_is_digit [of _ "nat n"]) simp
  then have t: "TrimSpace (Itoa n @ ''d'') = Itoa n @ ''d''"
    unfolding i by (intro TrimSpace_id) (auto dest: is_digit_not_space simp: is_space_def)
  have m: "days_match (Itoa n @ ''d'') = Some (Itoa n)"
    unfolding i by (simp add: days_match_def butlast_append hd_digits_not_sign digits_list_all)
  have "ParseInt64 (Itoa n) = Some n"
    using n assms(1) by (intro ParseInt64_Itoa) (simp add: in_int64_def min_int64_def max_int64_def)
  moreover have "wrap64 (wrap64 (n * 24) * hour_ns) = n * day_ns"
    using n assms(1) by (simp add: in_int64_def min_int64_def max_int64_def hour_ns_def day_ns_def)
  ultimately show ?thesis
    using assms m t by (simp add: parseSnapshotMaxAge_def Let_def day_ns_def hour_ns_def)
qed

lemma duration_string_parse:
  assumes "duration_spec ParseDuration Duration_String" "0 < d" "d \<le> max_int64"
  shows "parseSnapshotMaxAge ParseDuration (Duration_String d) = Inr d"
proof -
  let ?s = "Duration_String d"
  have s: "?s \<noteq> []" "is_digit (hd ?s)" "last ?s = CHR ''s''" "ParseDuration ?s = Some d"
    using assms unfolding duration_spec_def by blast+
  have "TrimSpace ?s = ?s" using s by (intro TrimSpace_id) (auto dest: is_digit_not_space simp: is_space_def)
  moreover have "days_match ?s = None" using s by (simp add: days_match_def)
  ultimately show ?thesis using s assms(2) by (simp add: parseSnapshotMaxAge_def)
qed

text \<open>
  The maximum age shown for a policy is read back as the same age, whatever preferred text was
  configured: the configured text when it means that age, whole days, or Go's duration syntax.
\<close>

theorem max_age_roundtrip:
  assumes "duration_spec ParseDuration Duration_String" "0 < d" "d \<le> max_int64"
  shows "parseSnapshotMaxAge ParseDuration
    (formatEffectiveSnapshotMaxAge ParseDuration Duration_String d preferred) = Inr d"
proof -
  have seven: "parseSnapshotMaxAge ParseDuration ''7d'' = Inr defaultSnapshotMaxAge"
  proof -
    have "Itoa 7 = ''7''" by code_simp
    then show ?thesis using parse_days [of 7 ParseDuration]
      by (simp add: max_int64_def day_ns_def hour_ns_def defaultSnapshotMaxAge_def)
  qed
  have days: "parseSnapshotMaxAge ParseDuration (Itoa (d sdiv day_ns) @ ''d'') = Inr d" if "d smod day_ns = 0"
  proof -
    have p: "0 < day_ns" by (simp add: day_ns_def hour_ns_def)
    have dv: "d sdiv day_ns = d div day_ns" and "d mod day_ns = 0"
      using that assms(2) p by (simp_all add: signed_divide_int_def signed_modulo_int_def)
    then have m: "d div day_ns * day_ns = d" by (metis add.right_neutral div_mult_mod_eq)
    then have "0 < d div day_ns" using assms(2) p by (metis zero_less_mult_pos2)
    moreover have "d div day_ns \<le> max_int64 div day_ns" using assms(3) p by (rule zdiv_mono1)
    ultimately show ?thesis using parse_days m dv by simp
  qed
  show ?thesis
    using seven days duration_string_parse [OF assms] by (simp add: formatEffectiveSnapshotMaxAge_def)
qed

text \<open>Durations written in nanoseconds are an instance.\<close>

lemma nanoseconds_spec: "duration_spec (\<lambda>s. ParseInt64 (take (length s - 2) s)) (\<lambda>d. Itoa d @ ''ns'')"
proof -
  have "is_digit (hd (Itoa d @ ''ns'')) \<and> ParseInt64 (Itoa d) = Some d" if "0 < d" "d \<le> max_int64" for d
    using that ParseInt64_Itoa [of d] nat_digits_is_digit [of "hd (nat_digits (nat d))" "nat d"]
    by (auto simp: Itoa_def in_int64_def min_int64_def max_int64_def)
  then show ?thesis by (simp add: duration_spec_def)
qed

theorem max_age_roundtrip_witness:
  "parseSnapshotMaxAge (\<lambda>s. ParseInt64 (take (length s - 2) s))
     (formatEffectiveSnapshotMaxAge (\<lambda>s. ParseInt64 (take (length s - 2) s)) (\<lambda>d. Itoa d @ ''ns'') (3 * day_ns) ''1h'') =
   Inr (3 * day_ns)"
  using max_age_roundtrip [OF nanoseconds_spec, of "3 * day_ns" "''1h''"]
  by (simp add: day_ns_def hour_ns_def max_int64_def)

text \<open>
  Only the upper bound of a number of days is checked before it is multiplied out, so a large
  enough negative number wraps: minus 106752 days is accepted as an age of about 292 years, where
  minus one day is refused as not positive.
\<close>

theorem negative_max_age_accepted:
  "parseSnapshotMaxAge ParseDuration ''-106752d'' = Inr 9223371273709551616 \<and>
   parseSnapshotMaxAge ParseDuration ''-1d'' = Inl MaxAgeNotPositive"
proof -
  have t: "TrimSpace ''-106752d'' = ''-106752d''" "TrimSpace ''-1d'' = ''-1d''"
    by (simp_all add: TrimSpace_def is_space_def)
  have m: "days_match ''-106752d'' = Some ''-106752''" "days_match ''-1d'' = Some ''-1''"
    by (simp_all add: days_match_def is_digit_def)
  have p: "ParseInt64 ''-106752'' = Some (- 106752)" "ParseInt64 ''-1'' = Some (- 1)"
    by (simp_all add: ParseInt64_def digits_val_def digit_val_def is_digit_def)
  show ?thesis unfolding parseSnapshotMaxAge_def t Let_def
    by (simp add: m p max_int64_def day_ns_def hour_ns_def wrap64_def)
qed

end
