(* ===== verification/Vm_Memory.thy ===== *)
theory Vm_Memory
  imports Db_Store Go_Parse
begin

text \<open>
  Memory of virtual machines: sizes and shapes (\<^verbatim>\<open>src/pkg/catch/vm_types.go\<close>, \<^verbatim>\<open>vm_host.go\<close>, the shape
  of a new machine in \<^verbatim>\<open>vm_provision.go\<close>, the memory settings of \<^verbatim>\<open>vm_resize.go\<close>), the admission of a
  machine under the host's policy (\<^verbatim>\<open>vm_balloon_policy.go\<close>, \<^verbatim>\<open>vm_memory_cmd.go\<close>) and the controller that
  inflates balloons when the host runs short (\<^verbatim>\<open>vm_balloon_controller.go\<close>).

  Sizes are \<open>int64\<close>: every addition, subtraction, product and shift the code makes is wrapped with
  \<open>wrap64\<close>, division truncates. Parameters: the host profile, the contents of \<^verbatim>\<open>/proc/meminfo\<close>, which
  services run, Firecracker's balloon interface, the resolver block at each check, and the
  order in which a map is iterated.

  The lemmas say when a size is read and that a printed one is read back, when a machine is
  admitted, how far a plan may inflate the balloons and that it reclaims what it can, and
  which targets the controller sets and records.
\<close>

section \<open>Sizes and modes\<close>

definition vmBalloonModeAuto :: string where "vmBalloonModeAuto = ''auto''"
definition vmBalloonModeOff :: string where "vmBalloonModeOff = ''off''"
definition vmDiskBackendRaw :: string where "vmDiskBackendRaw = ''raw''"
definition vmDiskBackendZVOL :: string where "vmDiskBackendZVOL = ''zvol''"
definition vmHostMemoryPolicySafe :: string where "vmHostMemoryPolicySafe = ''safe''"
definition vmHostMemoryPolicyBalanced :: string where "vmHostMemoryPolicyBalanced = ''balanced''"
definition vmHostMemoryPolicyAggressive :: string where "vmHostMemoryPolicyAggressive = ''aggressive''"
definition vmBalloonDefaultStatsIntervalSeconds :: int where "vmBalloonDefaultStatsIntervalSeconds = 5"
definition vmBalloonDefaultFloorFraction :: int where "vmBalloonDefaultFloorFraction = 4"

lemmas vm_names = vmBalloonModeAuto_def vmBalloonModeOff_def vmDiskBackendRaw_def vmDiskBackendZVOL_def
  vmHostMemoryPolicySafe_def vmHostMemoryPolicyBalanced_def vmHostMemoryPolicyAggressive_def

definition gib :: int where "gib = 2 ^ 30"
definition mib :: int where "mib = 2 ^ 20"

datatype vm_err =
    InvalidSize string
  | SizeOverflow string
  | BadBalloonMode string
  | BadMemoryPolicy string
  | MinNegative
  | MinExceedsMax int int
  | NoKVM
  | BadArch string
  | NoStorage
  | BadCPUs
  | BadMemory
  | BadDisk
  | NoBudget
  | MaxCommit int int
  | MinCommit int int
  | BadMeminfo string string
  | MeminfoMissing string
  | Unavailable string
  | Blocked string
  | DBError string
  | VMError string string
  | PolicyMissing

record vmShape =
  sh_CPUs :: int
  sh_MemoryBytes :: int
  sh_MinMemoryBytes :: int
  sh_BalloonMode :: string
  sh_DiskBytes :: int
  sh_DiskBackend :: string

definition HasSuffix :: "string \<Rightarrow> string \<Rightarrow> bool" where
  "HasSuffix s t \<longleftrightarrow> length t \<le> length s \<and> drop (length s - length t) s = t"

text \<open>The switch on the suffix: the multiplier and what is left of the text.\<close>

definition size_suffix :: "string \<Rightarrow> int \<times> string" where
  "size_suffix raw =
     (if HasSuffix raw ''gb'' then (gib, take (length raw - 2) raw)
      else if HasSuffix raw ''g'' then (gib, take (length raw - 1) raw)
      else if HasSuffix raw ''mb'' then (mib, take (length raw - 2) raw)
      else if HasSuffix raw ''m'' then (mib, take (length raw - 1) raw)
      else (1, raw))"

definition parseVMSize :: "string \<Rightarrow> vm_err + int" where
  "parseVMSize raw0 =
     (let raw = TrimSpace (ToLower raw0) in
      if raw = [] then Inr 0
      else case size_suffix raw of
             (unit_size, rest) \<Rightarrow>
               (case ParseInt64 (TrimSpace rest) of
                  None \<Rightarrow> Inl (InvalidSize raw)
                | Some n \<Rightarrow>
                    if n \<le> 0 then Inl (InvalidSize raw)
                    else if n > max_int64 sdiv unit_size then Inl (SizeOverflow raw)
                    else Inr (wrap64 (n * unit_size))))"

text \<open>Shifting a positive number to the right divides it.\<close>

definition formatVMSizeFlag :: "int \<Rightarrow> string" where
  "formatVMSizeFlag bytes =
     (if bytes \<le> 0 then []
      else if bytes smod gib = 0 then Itoa (bytes div gib) @ ''g''
      else if bytes smod mib = 0 then Itoa (bytes div mib) @ ''m''
      else Itoa bytes)"

record vmMemoryPolicy =
  mp_Name :: string
  mp_RatioNumerator :: int
  mp_RatioDenominator :: int

definition normalizeVMBalloonMode :: "string \<Rightarrow> vm_err + string" where
  "normalizeVMBalloonMode raw =
     (let mode = TrimSpace (ToLower raw) in
      if mode = [] then Inr vmBalloonModeAuto
      else if mode = vmBalloonModeAuto \<or> mode = vmBalloonModeOff then Inr mode
      else Inl (BadBalloonMode raw))"

definition normalizeVMHostMemoryPolicy :: "string \<Rightarrow> vm_err + vmMemoryPolicy" where
  "normalizeVMHostMemoryPolicy raw =
     (let name0 = TrimSpace (ToLower raw);
          name = (if name0 = [] then vmHostMemoryPolicySafe else name0)
      in if name = vmHostMemoryPolicySafe
         then Inr \<lparr>mp_Name = name, mp_RatioNumerator = 1, mp_RatioDenominator = 1\<rparr>
         else if name = vmHostMemoryPolicyBalanced
         then Inr \<lparr>mp_Name = name, mp_RatioNumerator = 3, mp_RatioDenominator = 2\<rparr>
         else if name = vmHostMemoryPolicyAggressive
         then Inr \<lparr>mp_Name = name, mp_RatioNumerator = 2, mp_RatioDenominator = 1\<rparr>
         else Inl (BadMemoryPolicy raw))"

section \<open>Balloon configuration\<close>

definition defaultVMBalloonMinBytes :: "int \<Rightarrow> int" where
  "defaultVMBalloonMinBytes memoryBytes =
     (if memoryBytes \<le> 0 then 0
      else let floor0 = memoryBytes sdiv vmBalloonDefaultFloorFraction;
               floor1 = (if floor0 < 512 * mib then 512 * mib else floor0)
           in if floor1 > memoryBytes then memoryBytes else floor1)"

definition defaultVMBalloonConfig :: "int \<Rightarrow> VMBalloonConfig" where
  "defaultVMBalloonConfig memoryBytes =
     \<lparr>vb_Mode = vmBalloonModeAuto, vb_MinBytes = defaultVMBalloonMinBytes memoryBytes,
      vb_StatsIntervalSeconds = vmBalloonDefaultStatsIntervalSeconds, vb_LastTargetBytes = 0\<rparr>"

definition effectiveVMBalloonConfig :: "int \<Rightarrow> VMBalloonConfig \<Rightarrow> vm_err + VMBalloonConfig" where
  "effectiveVMBalloonConfig memoryBytes cfg =
     (case normalizeVMBalloonMode (vb_Mode cfg) of
        Inl e \<Rightarrow> Inl e
      | Inr mode \<Rightarrow>
          (let out = cfg\<lparr>vb_Mode := mode,
                 vb_StatsIntervalSeconds := (if vb_StatsIntervalSeconds cfg \<le> 0
                   then vmBalloonDefaultStatsIntervalSeconds else vb_StatsIntervalSeconds cfg)\<rparr>
           in if mode = vmBalloonModeOff then Inr (out\<lparr>vb_MinBytes := memoryBytes, vb_LastTargetBytes := 0\<rparr>)
              else let out1 = (if vb_MinBytes out = 0
                               then out\<lparr>vb_MinBytes := defaultVMBalloonMinBytes memoryBytes\<rparr> else out)
                   in if vb_MinBytes out1 < 0 then Inl MinNegative
                      else if vb_MinBytes out1 > memoryBytes then Inl (MinExceedsMax (vb_MinBytes out1) memoryBytes)
                      else Inr out1))"

definition hasPersistedVMBalloonConfig :: "VMBalloonConfig \<Rightarrow> bool" where
  "hasPersistedVMBalloonConfig cfg \<longleftrightarrow>
     TrimSpace (vb_Mode cfg) \<noteq> [] \<or> vb_MinBytes cfg \<noteq> 0 \<or> vb_StatsIntervalSeconds cfg \<noteq> 0 \<or> vb_LastTargetBytes cfg \<noteq> 0"

definition effectiveExistingVMBalloonConfig :: "int \<Rightarrow> VMBalloonConfig \<Rightarrow> vm_err + VMBalloonConfig" where
  "effectiveExistingVMBalloonConfig memoryBytes cfg =
     (if \<not> hasPersistedVMBalloonConfig cfg
      then effectiveVMBalloonConfig memoryBytes
             \<lparr>vb_Mode = vmBalloonModeOff, vb_MinBytes = 0, vb_StatsIntervalSeconds = 0, vb_LastTargetBytes = 0\<rparr>
      else effectiveVMBalloonConfig memoryBytes cfg)"

section \<open>Admission\<close>

definition vmBalloonHostMemoryReserve :: "int \<Rightarrow> int" where
  "vmBalloonHostMemoryReserve hostTotal =
     (let tenPercent = hostTotal sdiv 10 in
      if tenPercent < 2 * gib then 2 * gib else if tenPercent > 8 * gib then 8 * gib else tenPercent)"

definition vmHostMemoryReserve :: "int \<Rightarrow> int" where
  "vmHostMemoryReserve hostTotal = vmBalloonHostMemoryReserve hostTotal"

definition vmHostMemoryBudget :: "int \<Rightarrow> int" where
  "vmHostMemoryBudget hostBytes =
     (let budget = wrap64 (hostBytes - vmBalloonHostMemoryReserve hostBytes) in if budget < 0 then 0 else budget)"

record vmMemoryAdmissionInput =
  ai_Policy :: vmMemoryPolicy
  ai_HostBytes :: int
  ai_RunningMaxBytes :: int
  ai_RunningMinBytes :: int
  ai_RequestMaxBytes :: int
  ai_RequestMinBytes :: int

definition admitVMMemoryWithPolicy :: "vmMemoryAdmissionInput \<Rightarrow> vm_err option" where
  "admitVMMemoryWithPolicy input =
     (case normalizeVMHostMemoryPolicy (mp_Name (ai_Policy input)) of
        Inl e \<Rightarrow> Some e
      | Inr policy \<Rightarrow>
          (let budget = vmHostMemoryBudget (ai_HostBytes input) in
           if budget \<le> 0 then Some NoBudget
           else let committable = wrap64 (wrap64 (budget * mp_RatioNumerator policy) sdiv mp_RatioDenominator policy);
                    maxTotal = wrap64 (ai_RunningMaxBytes input + ai_RequestMaxBytes input);
                    minTotal = wrap64 (ai_RunningMinBytes input + ai_RequestMinBytes input)
                in if maxTotal > committable then Some (MaxCommit maxTotal committable)
                   else if minTotal > budget then Some (MinCommit minTotal budget)
                   else None))"

record vmHostProfile =
  hp_Arch :: string
  hp_HasKVM :: bool
  hp_LogicalCPUs :: int
  hp_MemoryBytes :: int
  hp_StorageBytes :: int
  hp_StorageZFS :: bool
  hp_RunningVMBytes :: int
  hp_RunningVMMinBytes :: int

definition admitVMMemory :: "vmHostProfile \<Rightarrow> int \<Rightarrow> int \<Rightarrow> vmMemoryPolicy \<Rightarrow> vm_err option" where
  "admitVMMemory profile requestMaxBytes requestMinBytes policy =
     admitVMMemoryWithPolicy
       \<lparr>ai_Policy = policy, ai_HostBytes = hp_MemoryBytes profile, ai_RunningMaxBytes = hp_RunningVMBytes profile,
        ai_RunningMinBytes = hp_RunningVMMinBytes profile, ai_RequestMaxBytes = requestMaxBytes,
        ai_RequestMinBytes = requestMinBytes\<rparr>"

section \<open>Shapes\<close>

definition validateVMHost :: "vmHostProfile \<Rightarrow> vm_err option" where
  "validateVMHost profile =
     (if \<not> hp_HasKVM profile then Some NoKVM
      else if hp_Arch profile \<noteq> ''x86_64'' \<and> hp_Arch profile \<noteq> ''amd64'' then Some (BadArch (hp_Arch profile))
      else None)"

definition defaultVMCPUs :: "int \<Rightarrow> int" where
  "defaultVMCPUs hostCPUs = (if hostCPUs \<le> 1 then 1 else if hostCPUs < 8 then 2 else 4)"

definition defaultVMMemory :: "int \<Rightarrow> int" where
  "defaultVMMemory hostBytes =
     (if hostBytes \<le> 2 * gib then 512 * mib
      else if hostBytes \<le> 4 * gib then gib
      else if hostBytes < 16 * gib then 2 * gib
      else 4 * gib)"

fun diskSizeForThresholds :: "int \<Rightarrow> (int \<times> int) list \<Rightarrow> int" where
  "diskSizeForThresholds availableBytes [] = 0"
| "diskSizeForThresholds availableBytes ((least, bytes) # rest) =
     (if availableBytes \<ge> least then bytes else diskSizeForThresholds availableBytes rest)"

definition zfs_thresholds :: "(int \<times> int) list" where
  "zfs_thresholds = [(512 * gib, 128 * gib), (128 * gib, 64 * gib), (64 * gib, 32 * gib), (32 * gib, 16 * gib),
     (12 * gib, 8 * gib)]"

definition raw_thresholds :: "(int \<times> int) list" where
  "raw_thresholds = [(48 * gib, 32 * gib), (24 * gib, 16 * gib), (12 * gib, 8 * gib), (8 * gib, 8 * gib)]"

definition defaultVMDisk :: "int \<Rightarrow> bool \<Rightarrow> int" where
  "defaultVMDisk availableBytes zfs =
     diskSizeForThresholds availableBytes (if zfs then zfs_thresholds else raw_thresholds)"

definition defaultVMShape :: "vmHostProfile \<Rightarrow> vm_err + vmShape" where
  "defaultVMShape profile =
     (case validateVMHost profile of
        Some e \<Rightarrow> Inl e
      | None \<Rightarrow>
          (let shape = \<lparr>sh_CPUs = defaultVMCPUs (hp_LogicalCPUs profile),
                 sh_MemoryBytes = defaultVMMemory (hp_MemoryBytes profile), sh_MinMemoryBytes = 0,
                 sh_BalloonMode = vmBalloonModeAuto,
                 sh_DiskBytes = defaultVMDisk (hp_StorageBytes profile) (hp_StorageZFS profile),
                 sh_DiskBackend = (if hp_StorageZFS profile then vmDiskBackendZVOL else vmDiskBackendRaw)\<rparr>
           in if sh_DiskBytes shape = 0 then Inl NoStorage else Inr shape))"

record vmFlags =
  fl_CPUs :: int
  fl_Memory :: string
  fl_MemoryMin :: string
  fl_Balloon :: string
  fl_Disk :: string

definition applyVMSizeOverride :: "int \<Rightarrow> string \<Rightarrow> vm_err + int" where
  "applyVMSizeOverride dst raw =
     (case parseVMSize raw of Inl e \<Rightarrow> Inl e | Inr bytes \<Rightarrow> Inr (if bytes > 0 then bytes else dst))"

definition applyVMShapeOverrides :: "vmShape \<Rightarrow> vmFlags \<Rightarrow> vm_err + vmShape" where
  "applyVMShapeOverrides shape flags =
     (if fl_CPUs flags < 0 then Inl BadCPUs
      else case applyVMSizeOverride (sh_MemoryBytes shape) (fl_Memory flags) of
             Inl e \<Rightarrow> Inl e
           | Inr memory \<Rightarrow>
               (case applyVMSizeOverride (sh_DiskBytes shape) (fl_Disk flags) of
                  Inl e \<Rightarrow> Inl e
                | Inr disk \<Rightarrow>
                    Inr (shape\<lparr>sh_CPUs := (if fl_CPUs flags > 0 then fl_CPUs flags else sh_CPUs shape),
                               sh_MemoryBytes := memory, sh_DiskBytes := disk\<rparr>)))"

text \<open>The mode and the minimum of the flags, each taken only when it is given.\<close>

definition flag_mode :: "vmFlags \<Rightarrow> string \<Rightarrow> vm_err + string" where
  "flag_mode flags dflt =
     (if TrimSpace (fl_Balloon flags) = [] then Inr dflt else normalizeVMBalloonMode (TrimSpace (fl_Balloon flags)))"

definition flag_min :: "vmFlags \<Rightarrow> int \<Rightarrow> vm_err + int" where
  "flag_min flags dflt =
     (if TrimSpace (fl_MemoryMin flags) = [] then Inr dflt else parseVMSize (TrimSpace (fl_MemoryMin flags)))"

definition applyVMBalloonOverrides :: "vmShape \<Rightarrow> vmFlags \<Rightarrow> vm_err + vmShape" where
  "applyVMBalloonOverrides shape flags =
     (case flag_mode flags (sh_BalloonMode shape) of
        Inl e \<Rightarrow> Inl e
      | Inr mode \<Rightarrow>
          (case flag_min flags (sh_MinMemoryBytes shape) of
             Inl e \<Rightarrow> Inl e
           | Inr minBytes \<Rightarrow>
               (case effectiveVMBalloonConfig (sh_MemoryBytes shape)
                       \<lparr>vb_Mode = mode, vb_MinBytes = minBytes, vb_StatsIntervalSeconds = 0, vb_LastTargetBytes = 0\<rparr> of
                  Inl e \<Rightarrow> Inl e
                | Inr cfg \<Rightarrow> Inr (shape\<lparr>sh_BalloonMode := vb_Mode cfg, sh_MinMemoryBytes := vb_MinBytes cfg\<rparr>))))"

definition validateVMShape :: "vmShape \<Rightarrow> vm_err option" where
  "validateVMShape shape =
     (if sh_CPUs shape \<le> 0 then Some BadCPUs
      else if sh_MemoryBytes shape \<le> 0 then Some BadMemory
      else if sh_MinMemoryBytes shape < 0 then Some MinNegative
      else if sh_MinMemoryBytes shape > sh_MemoryBytes shape
      then Some (MinExceedsMax (sh_MinMemoryBytes shape) (sh_MemoryBytes shape))
      else if sh_DiskBytes shape \<le> 0 then Some BadDisk
      else None)"

definition vmShapeFromRunFlags :: "vmHostProfile \<Rightarrow> vmFlags \<Rightarrow> vmMemoryPolicy \<Rightarrow> vm_err + vmShape" where
  "vmShapeFromRunFlags profile flags policy =
     (case defaultVMShape profile of
        Inl e \<Rightarrow> Inl e
      | Inr shape0 \<Rightarrow>
          (case applyVMShapeOverrides shape0 flags of
             Inl e \<Rightarrow> Inl e
           | Inr shape1 \<Rightarrow>
               (case applyVMBalloonOverrides shape1 flags of
                  Inl e \<Rightarrow> Inl e
                | Inr shape \<Rightarrow>
                    (case validateVMShape shape of
                       Some e \<Rightarrow> Inl e
                     | None \<Rightarrow>
                         (case admitVMMemory profile (sh_MemoryBytes shape) (sh_MinMemoryBytes shape) policy of
                            Some e \<Rightarrow> Inl e
                          | None \<Rightarrow> Inr shape)))))"

section \<open>Running machines and settings\<close>

text \<open>The totals over the services map; \<open>acc\<close> holds what was added so far.\<close>

fun running_totals :: "string \<Rightarrow> (string \<times> Service option) list \<Rightarrow> int \<times> int \<Rightarrow> vm_err + int \<times> int" where
  "running_totals name [] acc = Inr acc"
| "running_totals name ((n, service) # rest) (maxTotal, minTotal) =
     (case (if n = name then None else Option.bind service svc_VM) of
        None \<Rightarrow> running_totals name rest (maxTotal, minTotal)
      | Some vm \<Rightarrow>
          if vm_SetupState vm \<noteq> ''ready'' then running_totals name rest (maxTotal, minTotal)
          else case effectiveExistingVMBalloonConfig (vm_MemoryBytes vm) (vm_Balloon vm) of
                 Inl e \<Rightarrow> Inl (VMError n ''balloon config'')
               | Inr balloon \<Rightarrow>
                   running_totals name rest
                     (wrap64 (maxTotal + vm_MemoryBytes vm), wrap64 (minTotal + vb_MinBytes balloon)))"

definition runningVMMemoryExcluding :: "string \<Rightarrow> string + Data \<Rightarrow> vm_err + int \<times> int" where
  "runningVMMemoryExcluding name db =
     (case db of Inl e \<Rightarrow> Inl (DBError e) | Inr d \<Rightarrow> running_totals name (Services d) (0, 0))"

definition vmHostMemoryPolicy :: "string + Data \<Rightarrow> vm_err + vmMemoryPolicy" where
  "vmHostMemoryPolicy db =
     (case db of
        Inl e \<Rightarrow> Inl (DBError e)
      | Inr d \<Rightarrow> normalizeVMHostMemoryPolicy (case VMHost d of None \<Rightarrow> [] | Some h \<Rightarrow> vmh_MemoryPolicy h))"

definition with_running_min :: "vmHostProfile \<Rightarrow> int \<Rightarrow> vmHostProfile" where
  "with_running_min profile runningMin =
     (if runningMin > 0 \<and> hp_RunningVMMinBytes profile = 0
      then profile\<lparr>hp_RunningVMMinBytes := runningMin\<rparr> else profile)"

text \<open>The profile function gets the memory of the running machines, as the host's own probe does.\<close>

definition vmProvisionShape :: "(int \<Rightarrow> vm_err + vmHostProfile) \<Rightarrow> string + Data \<Rightarrow> vmFlags \<Rightarrow> vm_err + vmShape" where
  "vmProvisionShape hostProfile db flags =
     (case runningVMMemoryExcluding [] db of
        Inl e \<Rightarrow> Inl e
      | Inr (runningBytes, runningMin) \<Rightarrow>
          (case hostProfile runningBytes of
             Inl e \<Rightarrow> Inl e
           | Inr profile \<Rightarrow>
               (case vmHostMemoryPolicy db of
                  Inl e \<Rightarrow> Inl e
                | Inr policy \<Rightarrow> vmShapeFromRunFlags (with_running_min profile runningMin) flags policy)))"

definition validateVMSettingsShape ::
  "(int \<Rightarrow> vm_err + vmHostProfile) \<Rightarrow> string + Data \<Rightarrow> string \<Rightarrow> VMConfig \<Rightarrow> int \<Rightarrow> int \<Rightarrow> int \<Rightarrow> bool \<Rightarrow> vm_err option" where
  "validateVMSettingsShape hostProfile db name vm cpus memoryBytes minMemoryBytes admitMemory =
     (case validateVMShape \<lparr>sh_CPUs = cpus, sh_MemoryBytes = memoryBytes, sh_MinMemoryBytes = minMemoryBytes,
             sh_BalloonMode = [], sh_DiskBytes = vd_Bytes (vm_Disk vm), sh_DiskBackend = vd_Backend (vm_Disk vm)\<rparr> of
        Some e \<Rightarrow> Some e
      | None \<Rightarrow>
          if \<not> admitMemory then None
          else case runningVMMemoryExcluding name db of
                 Inl e \<Rightarrow> Some e
               | Inr (runningBytes, runningMin) \<Rightarrow>
                   (case hostProfile runningBytes of
                      Inl e \<Rightarrow> Some e
                    | Inr profile \<Rightarrow>
                        (case vmHostMemoryPolicy db of
                           Inl e \<Rightarrow> Some e
                         | Inr policy \<Rightarrow>
                             admitVMMemory (with_running_min profile runningMin) memoryBytes minMemoryBytes policy)))"

definition vmSetBalloonConfigChanged :: "vmFlags \<Rightarrow> bool" where
  "vmSetBalloonConfigChanged flags \<longleftrightarrow> TrimSpace (fl_MemoryMin flags) \<noteq> [] \<or> TrimSpace (fl_Balloon flags) \<noteq> []"

definition vmSetMemoryAdmissionChanged :: "vmFlags \<Rightarrow> bool" where
  "vmSetMemoryAdmissionChanged flags \<longleftrightarrow>
     TrimSpace (fl_Memory flags) \<noteq> [] \<or> TrimSpace (fl_MemoryMin flags) \<noteq> [] \<or> TrimSpace (fl_Balloon flags) \<noteq> []"

definition effectiveVMSetBalloonConfig :: "int \<Rightarrow> VMBalloonConfig \<Rightarrow> bool \<Rightarrow> vm_err + VMBalloonConfig" where
  "effectiveVMSetBalloonConfig memoryBytes cfg balloonChanged =
     (if balloonChanged then effectiveVMBalloonConfig memoryBytes cfg
      else effectiveExistingVMBalloonConfig memoryBytes cfg)"

record vmMemoryPlan =
  pl_CPUs :: int
  pl_MemoryBytes :: int
  pl_Balloon :: VMBalloonConfig

definition applyVMSetMemoryFlag :: "vmFlags \<Rightarrow> vmMemoryPlan \<Rightarrow> vm_err + vmMemoryPlan" where
  "applyVMSetMemoryFlag flags plan =
     (if TrimSpace (fl_Memory flags) = [] then Inr plan
      else case parseVMSize (fl_Memory flags) of Inl e \<Rightarrow> Inl e | Inr m \<Rightarrow> Inr (plan\<lparr>pl_MemoryBytes := m\<rparr>))"

definition applyVMSetBalloonFlags :: "vmFlags \<Rightarrow> vmMemoryPlan \<Rightarrow> vm_err + vmMemoryPlan" where
  "applyVMSetBalloonFlags flags plan =
     (case flag_mode flags (vb_Mode (pl_Balloon plan)) of
        Inl e \<Rightarrow> Inl e
      | Inr mode \<Rightarrow>
          (case flag_min flags (vb_MinBytes (pl_Balloon plan)) of
             Inl e \<Rightarrow> Inl e
           | Inr minBytes \<Rightarrow>
               (case effectiveVMSetBalloonConfig (pl_MemoryBytes plan)
                       ((pl_Balloon plan)\<lparr>vb_Mode := mode, vb_MinBytes := minBytes\<rparr>) (vmSetBalloonConfigChanged flags) of
                  Inl e \<Rightarrow> Inl e
                | Inr balloon \<Rightarrow> Inr (plan\<lparr>pl_Balloon := balloon\<rparr>))))"

definition applyVMShapeSettings ::
  "(int \<Rightarrow> vm_err + vmHostProfile) \<Rightarrow> string + Data \<Rightarrow> string \<Rightarrow> VMConfig \<Rightarrow> vmFlags \<Rightarrow> vmMemoryPlan \<Rightarrow>
   vm_err + vmMemoryPlan" where
  "applyVMShapeSettings hostProfile db name vm flags plan0 =
     (let plan1 = (if fl_CPUs flags > 0 then plan0\<lparr>pl_CPUs := fl_CPUs flags\<rparr> else plan0) in
      case applyVMSetMemoryFlag flags plan1 of
        Inl e \<Rightarrow> Inl e
      | Inr plan2 \<Rightarrow>
          (case applyVMSetBalloonFlags flags plan2 of
             Inl e \<Rightarrow> Inl e
           | Inr plan \<Rightarrow>
               (case validateVMSettingsShape hostProfile db name vm (pl_CPUs plan) (pl_MemoryBytes plan)
                       (vb_MinBytes (pl_Balloon plan)) (vmSetMemoryAdmissionChanged flags) of
                  Some e \<Rightarrow> Inl e
                | None \<Rightarrow> Inr plan)))"

definition set_policy_mutation :: "vmMemoryPolicy \<Rightarrow> Data \<Rightarrow> vm_err + Data" where
  "set_policy_mutation policy d =
     Inr (d\<lparr>VMHost := Some ((case VMHost d of
        None \<Rightarrow> \<lparr>vmh_MemoryPolicy = [], vmh_RuntimePolicy = [], vmh_RuntimeChannel = [], vmh_ProtectedRuntimeIDs = []\<rparr>
      | Some h \<Rightarrow> h)\<lparr>vmh_MemoryPolicy := mp_Name policy\<rparr>)\<rparr>)"

text \<open>\<open>Inl\<close> is an error found before the store is asked.\<close>

definition setVMMemoryPolicy ::
  "path \<Rightarrow> string \<Rightarrow> cache \<times> world \<Rightarrow> (vm_err + vm_err db_err option) \<times> cache \<times> world" where
  "setVMMemoryPolicy dir policyName s =
     (if TrimSpace policyName = [] then (Inl PolicyMissing, s)
      else case normalizeVMHostMemoryPolicy policyName of
             Inl e \<Rightarrow> (Inl e, s)
           | Inr policy \<Rightarrow>
               (case MutateData dir (set_policy_mutation policy) (fst s) (snd s) of ((_, err), s') \<Rightarrow> (Inr err, s')))"

text \<open>Scanning \<^verbatim>\<open>/proc/meminfo\<close>, given as its lines.\<close>

fun linuxMeminfoValueBytesFromReader :: "string list \<Rightarrow> string \<Rightarrow> vm_err + int" where
  "linuxMeminfoValueBytesFromReader [] key = Inl (MeminfoMissing key)"
| "linuxMeminfoValueBytesFromReader (line # rest) key =
     (case Fields line of
        k # v # _ \<Rightarrow>
          if k \<noteq> key then linuxMeminfoValueBytesFromReader rest key
          else (case ParseInt64 v of
                  None \<Rightarrow> Inl (BadMeminfo key v)
                | Some kb \<Rightarrow> if kb < 0 then Inl (BadMeminfo key v) else Inr (wrap64 (kb * 1024)))
      | _ \<Rightarrow> linuxMeminfoValueBytesFromReader rest key)"

definition meminfo_or_zero :: "string list option \<Rightarrow> string \<Rightarrow> int" where
  "meminfo_or_zero meminfo key =
     (case meminfo of
        None \<Rightarrow> 0
      | Some ls \<Rightarrow> (case linuxMeminfoValueBytesFromReader ls key of Inl _ \<Rightarrow> 0 | Inr b \<Rightarrow> b))"

section \<open>The balloon controller\<close>

record vmBalloonReclaimCandidate =
  rc_Service :: string
  rc_MaxBytes :: int
  rc_MinBytes :: int
  rc_CurrentTarget :: int
  rc_FreeBytes :: int

definition headroom :: "vmBalloonReclaimCandidate \<Rightarrow> int" where
  "headroom c = wrap64 (wrap64 (rc_MaxBytes c - rc_MinBytes c) - rc_CurrentTarget c)"

definition reclaim_before :: "vmBalloonReclaimCandidate \<Rightarrow> vmBalloonReclaimCandidate \<Rightarrow> bool" where
  "reclaim_before a b =
     (if rc_FreeBytes a \<noteq> rc_FreeBytes b then rc_FreeBytes a > rc_FreeBytes b
      else if headroom a \<noteq> headroom b then headroom a > headroom b
      else if rc_MaxBytes a \<noteq> rc_MaxBytes b then rc_MaxBytes a > rc_MaxBytes b
      else rc_Service a < rc_Service b)"

definition sortVMBalloonReclaimCandidates :: "vmBalloonReclaimCandidate list \<Rightarrow> vmBalloonReclaimCandidate list" where
  "sortVMBalloonReclaimCandidates cs = sort_by reclaim_before cs"

text \<open>The loop over the sorted candidates: targets so far and what is still to be reclaimed.\<close>

fun reclaim_loop ::
  "vmBalloonReclaimCandidate list \<Rightarrow> (string \<times> int) list \<Rightarrow> int \<Rightarrow> (string \<times> int) list" where
  "reclaim_loop [] targets remaining = targets"
| "reclaim_loop (c # cs) targets remaining =
     (if headroom c \<le> 0 \<or> rc_FreeBytes c \<le> 0 then reclaim_loop cs targets remaining
      else let r0 = (if rc_FreeBytes c < headroom c then rc_FreeBytes c else headroom c);
               r = (if r0 > remaining then remaining else r0)
           in if r \<le> 0 then reclaim_loop cs targets remaining
              else let targets1 = AList.update (rc_Service c) (wrap64 (rc_CurrentTarget c + r)) targets;
                       remaining1 = wrap64 (remaining - r)
                   in if remaining1 \<le> 0 then targets1 else reclaim_loop cs targets1 remaining1)"

definition startReclaim :: "int \<Rightarrow> int" where
  "startReclaim hostBytes = wrap64 (vmHostMemoryReserve hostBytes + hostBytes sdiv 10)"

definition stopReclaim :: "int \<Rightarrow> int" where
  "stopReclaim hostBytes = wrap64 (vmHostMemoryReserve hostBytes + wrap64 (hostBytes * 15) sdiv 100)"

definition planVMBalloonTargets :: "int \<Rightarrow> int \<Rightarrow> vmBalloonReclaimCandidate list \<Rightarrow> (string \<times> int) list" where
  "planVMBalloonTargets hostBytes memAvailable cs =
     (if memAvailable \<ge> startReclaim hostBytes then []
      else let desired = wrap64 (stopReclaim hostBytes - memAvailable) in
           if desired \<le> 0 then []
           else reclaim_loop (sortVMBalloonReclaimCandidates cs) [] desired)"

definition vmBalloonTargetForPressure :: "int \<Rightarrow> int \<Rightarrow> int \<Rightarrow> int" where
  "vmBalloonTargetForPressure maxBytes minBytes desiredReclaimBytes =
     (let limit = wrap64 (maxBytes - minBytes) in
      if limit \<le> 0 \<or> desiredReclaimBytes \<le> 0 then 0
      else if desiredReclaimBytes > limit then limit else desiredReclaimBytes)"

text \<open>
  What the controller meets: which services run, the statistics Firecracker reports on a
  socket, whether the \<open>n\<close>-th call to set a target fails, whether the \<open>n\<close>-th check finds mutations
  blocked, the lines of \<^verbatim>\<open>/proc/meminfo\<close>, and the order a map is iterated in.
\<close>

record vmBalloonStats =
  bs_TargetBytes :: int
  bs_ActualBytes :: int
  bs_FreeMemoryBytes :: int
  bs_AvailableMemoryBytes :: int

record balloon_env =
  be_running :: "string \<Rightarrow> string + bool"
  be_Stats :: "string \<Rightarrow> string + vmBalloonStats"
  be_SetTarget :: "nat \<Rightarrow> string option"
  be_block :: "nat \<Rightarrow> string option"
  be_meminfo :: "string list option"
  be_order :: "(string \<times> int) list \<Rightarrow> (string \<times> int) list"

text \<open>The state: checks made so far, the targets set (newest last), the store.\<close>

record balloon_sys =
  by_checks :: nat
  by_calls :: "(string \<times> int) list"
  by_store :: "cache \<times> world"

definition checkMutationAllowed :: "balloon_env \<Rightarrow> balloon_sys \<Rightarrow> vm_err option \<times> balloon_sys" where
  "checkMutationAllowed env s =
     (map_option Blocked (be_block env (by_checks s)), s\<lparr>by_checks := Suc (by_checks s)\<rparr>)"

record vmBalloonReconcileCandidate =
  rec_service :: string
  rec_socket :: string
  rec_currentTarget :: int

definition vmBalloonControllerCandidate ::
  "balloon_env \<Rightarrow> string \<Rightarrow> Service option \<Rightarrow> vm_err + (vmBalloonReclaimCandidate \<times> vmBalloonReconcileCandidate) option" where
  "vmBalloonControllerCandidate env name service =
     (case service of
        None \<Rightarrow> Inr None
      | Some svc \<Rightarrow>
          (case svc_VM svc of
             None \<Rightarrow> Inr None
           | Some vm \<Rightarrow>
               if svc_ServiceType svc \<noteq> ServiceTypeVM then Inr None
               else case effectiveExistingVMBalloonConfig (vm_MemoryBytes vm) (vm_Balloon vm) of
                      Inl e \<Rightarrow> Inl (VMError name ''balloon config'')
                    | Inr balloon \<Rightarrow>
                        if vb_Mode balloon = vmBalloonModeOff then Inr None
                        else let socket = TrimSpace (vso_APISocketPath (vm_Sockets vm)) in
                             if socket = [] then Inr None
                             else case be_running env name of
                                    Inl e \<Rightarrow> Inl (VMError name ''status'')
                                  | Inr running \<Rightarrow>
                                      if \<not> running then Inr None
                                      else case be_Stats env socket of
                                             Inl e \<Rightarrow> Inl (VMError name ''balloon stats'')
                                           | Inr stats \<Rightarrow>
                                               Inr (Some
                                                 (\<lparr>rc_Service = name, rc_MaxBytes = vm_MemoryBytes vm,
                                                   rc_MinBytes = vb_MinBytes balloon,
                                                   rc_CurrentTarget = bs_TargetBytes stats,
                                                   rc_FreeBytes = bs_FreeMemoryBytes stats\<rparr>,
                                                  \<lparr>rec_service = name, rec_socket = socket, rec_currentTarget = bs_TargetBytes stats\<rparr>))))"

text \<open>The loop over the services: candidates, their sockets, errors.\<close>

fun vmBalloonControllerCandidates ::
  "balloon_env \<Rightarrow> (string \<times> Service option) list \<Rightarrow>
   vmBalloonReclaimCandidate list \<times> (string \<times> vmBalloonReconcileCandidate) list \<times> vm_err list" where
  "vmBalloonControllerCandidates env [] = ([], [], [])"
| "vmBalloonControllerCandidates env ((name, service) # rest) =
     (case vmBalloonControllerCandidates env rest of
        (cs, rs, errs) \<Rightarrow>
          (case vmBalloonControllerCandidate env name service of
             Inl e \<Rightarrow> (cs, rs, e # errs)
           | Inr None \<Rightarrow> (cs, rs, errs)
           | Inr (Some (c, r)) \<Rightarrow> (c # cs, (name, r) # rs, errs)))"

definition currentVMBalloonHostMemory :: "balloon_env \<Rightarrow> int \<times> int \<times> vm_err list" where
  "currentVMBalloonHostMemory env =
     (let hostBytes = meminfo_or_zero (be_meminfo env) ''MemTotal:'';
          memAvailable = meminfo_or_zero (be_meminfo env) ''MemAvailable:''
      in (hostBytes, memAvailable,
          (if hostBytes \<le> 0 then [Unavailable ''MemTotal''] else []) @
          (if memAvailable \<le> 0 then [Unavailable ''MemAvailable''] else [])))"

definition last_target_mutation :: "string \<Rightarrow> int \<Rightarrow> Data \<Rightarrow> vm_err + Data" where
  "last_target_mutation service targetBytes d =
     (case map_of (Services d) service of
        Some (Some svc) \<Rightarrow>
          (case svc_VM svc of
             None \<Rightarrow> Inr d
           | Some vm \<Rightarrow>
               Inr (d\<lparr>Services := AList.update service
                   (Some (svc\<lparr>svc_VM := Some (vm\<lparr>vm_Balloon := (vm_Balloon vm)\<lparr>vb_LastTargetBytes := targetBytes\<rparr>\<rparr>)\<rparr>))
                   (Services d)\<rparr>))
      | _ \<Rightarrow> Inr d)"

definition persistVMBalloonLastTarget ::
  "balloon_env \<Rightarrow> path \<Rightarrow> string \<Rightarrow> int \<Rightarrow> balloon_sys \<Rightarrow> vm_err list \<times> balloon_sys" where
  "persistVMBalloonLastTarget env dir service targetBytes s =
     (case checkMutationAllowed env s of
        (Some e, s1) \<Rightarrow> ([e], s1)
      | (None, s1) \<Rightarrow>
          (case MutateData dir (last_target_mutation service targetBytes) (fst (by_store s1)) (snd (by_store s1)) of
             ((_, err), st) \<Rightarrow>
               (if err = None then [] else [VMError service ''persist balloon target''], s1\<lparr>by_store := st\<rparr>)))"

fun applyVMBalloonTargets ::
  "balloon_env \<Rightarrow> path \<Rightarrow> (string \<times> vmBalloonReconcileCandidate) list \<Rightarrow> (string \<times> int) list \<Rightarrow> balloon_sys \<Rightarrow>
   vm_err list \<times> balloon_sys" where
  "applyVMBalloonTargets env dir candidates [] s = ([], s)"
| "applyVMBalloonTargets env dir candidates ((service, target) # rest) s =
     (case checkMutationAllowed env s of
        (Some e, s1) \<Rightarrow> ([e], s1)
      | (None, s1) \<Rightarrow>
          (case map_of candidates service of
             None \<Rightarrow> applyVMBalloonTargets env dir candidates rest s1
           | Some c \<Rightarrow>
               if target = rec_currentTarget c then applyVMBalloonTargets env dir candidates rest s1
               else let failed = be_SetTarget env (length (by_calls s1));
                        s2 = s1\<lparr>by_calls := by_calls s1 @ [(rec_socket c, target)]\<rparr>
                    in if failed \<noteq> None
                       then (case applyVMBalloonTargets env dir candidates rest s2 of
                               (errs, s3) \<Rightarrow> (VMError service ''set balloon target'' # errs, s3))
                       else (case checkMutationAllowed env s2 of
                               (Some e, s3) \<Rightarrow> ([e], s3)
                             | (None, s3) \<Rightarrow>
                                 (case persistVMBalloonLastTarget env dir service target s3 of
                                    (perr, s4) \<Rightarrow>
                                      (case applyVMBalloonTargets env dir candidates rest s4 of
                                         (errs, s5) \<Rightarrow> (perr @ errs, s5))))))"

definition reconcileVMBalloons :: "balloon_env \<Rightarrow> path \<Rightarrow> balloon_sys \<Rightarrow> vm_err list \<times> balloon_sys" where
  "reconcileVMBalloons env dir s =
     (case checkMutationAllowed env s of
        (Some e, s1) \<Rightarrow> ([e], s1)
      | (None, s1) \<Rightarrow>
          (case getLocked dir (fst (by_store s1)) (snd (by_store s1)) of
             (Inl (e :: vm_err db_err), st) \<Rightarrow> ([DBError ''get''], s1\<lparr>by_store := st\<rparr>)
           | (Inr d, st) \<Rightarrow>
               (let s2 = s1\<lparr>by_store := st\<rparr> in
                case vmHostMemoryPolicy (Inr d) of
                  Inl e \<Rightarrow> ([e], s2)
                | Inr policy \<Rightarrow>
                    (case vmBalloonControllerCandidates env (Services d) of
                       (cs, rs, errs) \<Rightarrow>
                         (case currentVMBalloonHostMemory env of
                            (hostBytes, memAvailable, merrs) \<Rightarrow>
                              if merrs \<noteq> [] then (errs @ merrs, s2)
                              else (case applyVMBalloonTargets env dir rs
                                           (be_order env (planVMBalloonTargets hostBytes memAvailable cs)) s2 of
                                      (aerrs, s3) \<Rightarrow> (errs @ aerrs, s3)))))))"

section \<open>Sizes are read back\<close>

lemma to_lower_digit: "is_digit c \<Longrightarrow> to_lower_char c = c"
  by (auto simp: is_digit_def to_lower_char_def Let_def)

lemma ToLower_digits: "ToLower (nat_digits n) = nat_digits n"
  unfolding ToLower_def by (rule map_idI) (use nat_digits_is_digit in \<open>auto intro: to_lower_digit\<close>)

lemma HasSuffix_append_char: "HasSuffix (s @ [c]) [d] \<longleftrightarrow> c = d"
  by (simp add: HasSuffix_def)

lemma HasSuffix_digit: "is_digit (last s) \<Longrightarrow> s \<noteq> [] \<Longrightarrow> HasSuffix s t \<Longrightarrow> t \<noteq> [] \<Longrightarrow> is_digit (last t)"
  by (metis HasSuffix_def last_drop length_drop length_greater_0_conv zero_less_diff)

lemma in_int64_pos: "0 \<le> x \<Longrightarrow> x \<le> max_int64 \<Longrightarrow> in_int64 x"
  by (simp add: in_int64_def min_int64_def)

lemma parse_unit:
  assumes "0 < n" "n * k \<le> max_int64" "(c, k) \<in> {(CHR ''g'', gib), (CHR ''m'', mib)}"
  shows "parseVMSize (Itoa n @ [c]) = Inr (n * k)"
proof -
  have k: "1 \<le> k" using assms(3) by (auto simp: gib_def mib_def)
  then have n: "n \<le> max_int64" using assms(1,2) by (smt (verit) mult_le_cancel_left1)
  have i: "Itoa n = nat_digits (nat n)" using assms(1) by (simp add: Itoa_def)
  have low: "TrimSpace (ToLower (Itoa n @ [c])) = Itoa n @ [c]"
  proof -
    have "ToLower (Itoa n @ [c]) = Itoa n @ [c]"
      using assms(3) ToLower_digits [of "nat n"] unfolding i by (auto simp: ToLower_def to_lower_char_def)
    moreover have "\<not> is_space c" using assms(3) by (auto simp: is_space_def)
    ultimately show ?thesis unfolding i by (simp add: TrimSpace_digits_unit)
  qed
  have suffix: "size_suffix (Itoa n @ [c]) = (k, Itoa n)"
  proof -
    have two: "\<not> HasSuffix (nat_digits (nat n) @ [c]) [a, CHR ''b'']" for a
      using assms(3) by (auto simp: HasSuffix_def drop_append dest: arg_cong [where f = last])
    show ?thesis using assms(3) two unfolding i size_suffix_def by (auto simp: HasSuffix_append_char)
  qed
  have "ParseInt64 (TrimSpace (Itoa n)) = Some n"
    using ParseInt64_Itoa [of n] n assms(1) unfolding i by (simp add: TrimSpace_digits in_int64_def min_int64_def max_int64_def)
  moreover have "n \<le> max_int64 sdiv k"
    using zdiv_mono1 [OF assms(2), of k] k by (simp add: signed_divide_int_def max_int64_def)
  moreover have "in_int64 (n * k)"
  proof -
    have "0 < n * k" using assms(1) k by simp
    then show ?thesis using assms(2) by (intro in_int64_pos) auto
  qed
  ultimately show ?thesis using assms(1) low suffix by (simp add: parseVMSize_def Let_def)
qed

lemma parse_plain:
  assumes "0 < n" "n \<le> max_int64"
  shows "parseVMSize (Itoa n) = Inr n"
proof -
  have i: "Itoa n = nat_digits (nat n)" using assms(1) by (simp add: Itoa_def)
  have none: "\<not> HasSuffix (nat_digits (nat n)) t" if "t \<in> {''gb'', ''g'', ''mb'', ''m''}" for t
    using HasSuffix_digit [OF digits_ends(2), of "nat n" t] that by (auto simp: is_digit_def)
  have "ParseInt64 (TrimSpace (Itoa n)) = Some n" "in_int64 n"
    using ParseInt64_Itoa [of n] assms unfolding i by (simp_all add: TrimSpace_digits in_int64_def min_int64_def max_int64_def)
  then show ?thesis
    using assms none unfolding parseVMSize_def i
    by (simp add: ToLower_digits TrimSpace_digits Let_def size_suffix_def signed_divide_int_def max_int64_def)
qed

text \<open>
  A size printed for a flag is read back as the same number of bytes, for every positive
  64-bit size, without overflow.
\<close>

theorem vm_size_roundtrip:
  assumes "0 < bytes" "bytes \<le> max_int64"
  shows "parseVMSize (formatVMSizeFlag bytes) = Inr bytes"
proof -
  have unit: "parseVMSize (Itoa (bytes div k) @ [c]) = Inr bytes"
    if "bytes smod k = 0" "(c, k) \<in> {(CHR ''g'', gib), (CHR ''m'', mib)}" for c k
  proof -
    have k: "0 < k" using that(2) by (auto simp: gib_def mib_def)
    then have m: "bytes div k * k = bytes"
      using that(1) assms(1) smod_zero_div by simp
    then have "0 < bytes div k" using k assms(1) by (metis zero_less_mult_pos2)
    then show ?thesis using parse_unit [of "bytes div k" k c] m that(2) assms(2) by simp
  qed
  show ?thesis
    using assms unit [of gib "CHR ''g''"] unit [of mib "CHR ''m''"] parse_plain
    by (simp add: formatVMSizeFlag_def)
qed

theorem vm_size_roundtrip_witness: "parseVMSize (formatVMSizeFlag (1536 * mib)) = Inr (1536 * mib)"
  using vm_size_roundtrip [of "1536 * mib"] by (simp add: mib_def max_int64_def)

section \<open>When a machine is admitted\<close>

lemma policy_ratio:
  "normalizeVMHostMemoryPolicy raw = Inr policy \<Longrightarrow>
   1 \<le> mp_RatioNumerator policy \<and> mp_RatioNumerator policy \<le> 3 \<and> 1 \<le> mp_RatioDenominator policy"
  by (auto simp: normalizeVMHostMemoryPolicy_def Let_def split: if_splits)

text \<open>The reserve and the budget without machine arithmetic.\<close>

lemma reserve_clamped:
  "0 \<le> h \<Longrightarrow> vmBalloonHostMemoryReserve h = max (2 * gib) (min (8 * gib) (h div 10))"
  by (auto simp: vmBalloonHostMemoryReserve_def Let_def sdiv_nonneg gib_def max_def min_def)

lemma budget_exact:
  assumes "0 \<le> h" "h \<le> max_int64"
  shows "vmHostMemoryBudget h = max 0 (h - max (2 * gib) (min (8 * gib) (h div 10)))"
proof -
  have "in_int64 (h - vmBalloonHostMemoryReserve h)"
    using assms by (auto simp: reserve_clamped in_int64_def min_int64_def max_int64_def gib_def)
  then show ?thesis using assms by (simp add: vmHostMemoryBudget_def reserve_clamped max_def Let_def)
qed

lemma committable_exact:
  assumes "0 < b" "b \<le> 2 ^ 61" "normalizeVMHostMemoryPolicy raw = Inr p"
  shows "wrap64 (wrap64 (b * mp_RatioNumerator p) sdiv mp_RatioDenominator p) =
    b * mp_RatioNumerator p div mp_RatioDenominator p"
proof -
  note r = policy_ratio [OF assms(3)]
  have "b * mp_RatioNumerator p \<le> 2 ^ 61 * 3" using assms(1,2) r by (intro mult_mono) auto
  moreover have pos: "0 < b * mp_RatioNumerator p" using assms(1) r by simp
  ultimately have w: "in_int64 (b * mp_RatioNumerator p)" by (simp add: in_int64_def min_int64_def max_int64_def)
  have "b * mp_RatioNumerator p div mp_RatioDenominator p \<le> b * mp_RatioNumerator p"
    using pos r by (intro div_le_self_int) auto
  moreover have "0 \<le> b * mp_RatioNumerator p div mp_RatioDenominator p"
    using pos r by (simp add: pos_imp_zdiv_nonneg_iff)
  ultimately show ?thesis
    using w pos r by (simp add: sdiv_nonneg in_int64_def min_int64_def)
qed

lemma pos_le_div_iff: "0 < (k :: int) \<Longrightarrow> x \<le> m div k \<longleftrightarrow> x * k \<le> m"
  by (smt (verit) div_mult_mod_eq mult_right_mono nonzero_mult_div_cancel_right pos_mod_sign zdiv_mono1)

text \<open>
  C25: as long as the totals fit 64 bits, a machine is admitted exactly when the policy is known,
  the host has memory beyond its reserve (a tenth of the memory, at least two and at most
  eight GiB), the maxima of all machines stay within the policy's multiple of that budget and
  their minima within the budget itself.
\<close>

theorem admission_exact:
  assumes "0 \<le> ai_HostBytes i" "ai_HostBytes i \<le> 2 ^ 61"
    and "0 \<le> ai_RunningMaxBytes i" "0 \<le> ai_RequestMaxBytes i" "ai_RunningMaxBytes i + ai_RequestMaxBytes i \<le> max_int64"
    and "0 \<le> ai_RunningMinBytes i" "0 \<le> ai_RequestMinBytes i" "ai_RunningMinBytes i + ai_RequestMinBytes i \<le> max_int64"
  shows "admitVMMemoryWithPolicy i = None \<longleftrightarrow>
    (\<exists>p b. normalizeVMHostMemoryPolicy (mp_Name (ai_Policy i)) = Inr p \<and>
       b = ai_HostBytes i - max (2 * gib) (min (8 * gib) (ai_HostBytes i div 10)) \<and> 0 < b \<and>
       (ai_RunningMaxBytes i + ai_RequestMaxBytes i) * mp_RatioDenominator p \<le> b * mp_RatioNumerator p \<and>
       ai_RunningMinBytes i + ai_RequestMinBytes i \<le> b)"
proof (cases "normalizeVMHostMemoryPolicy (mp_Name (ai_Policy i))")
  case (Inl e)
  then show ?thesis by (simp add: admitVMMemoryWithPolicy_def)
next
  case (Inr p)
  define b where "b = ai_HostBytes i - max (2 * gib) (min (8 * gib) (ai_HostBytes i div 10))"
  have bud: "vmHostMemoryBudget (ai_HostBytes i) = max 0 b"
    using assms(1,2) unfolding b_def by (intro budget_exact) (auto simp: max_int64_def)
  have w: "in_int64 (ai_RunningMaxBytes i + ai_RequestMaxBytes i)" "in_int64 (ai_RunningMinBytes i + ai_RequestMinBytes i)"
    using assms by (auto intro: in_int64_pos)
  have "admitVMMemoryWithPolicy i = None \<longleftrightarrow> 0 < b \<and>
    (ai_RunningMaxBytes i + ai_RequestMaxBytes i) * mp_RatioDenominator p \<le> b * mp_RatioNumerator p \<and>
    ai_RunningMinBytes i + ai_RequestMinBytes i \<le> b"
  proof (cases "0 < b")
    case False
    then show ?thesis using Inr bud by (simp add: admitVMMemoryWithPolicy_def)
  next
    case True
    have "b \<le> 2 ^ 61" using assms(2) by (simp add: b_def gib_def)
    note c = committable_exact [OF True this Inr]
    have d: "0 < mp_RatioDenominator p" using policy_ratio [OF Inr] by simp
    have "x \<le> b * mp_RatioNumerator p div mp_RatioDenominator p \<longleftrightarrow> x * mp_RatioDenominator p \<le> b * mp_RatioNumerator p" for x
      using d by (rule pos_le_div_iff)
    then show ?thesis using True Inr bud w c by (simp add: admitVMMemoryWithPolicy_def Let_def not_less [symmetric])
  qed
  then show ?thesis using Inr unfolding b_def by simp
qed

definition example_admission :: vmMemoryAdmissionInput where
  "example_admission = \<lparr>ai_Policy = \<lparr>mp_Name = ''balanced'', mp_RatioNumerator = 0, mp_RatioDenominator = 0\<rparr>,
     ai_HostBytes = 64 * gib, ai_RunningMaxBytes = 60 * gib, ai_RunningMinBytes = 16 * gib,
     ai_RequestMaxBytes = 16 * gib, ai_RequestMinBytes = 4 * gib\<rparr>"

theorem admission_exact_witness: "admitVMMemoryWithPolicy example_admission = None"
  using admission_exact [of example_admission]
  by (simp add: example_admission_def normalizeVMHostMemoryPolicy_def vm_names TrimSpace_def is_space_def ToLower_def
      to_lower_char_def gib_def max_int64_def)

section \<open>Well-formed shapes\<close>

definition balloon_ok :: "int \<Rightarrow> string \<Rightarrow> int \<Rightarrow> bool" where
  "balloon_ok memory mode minBytes \<longleftrightarrow>
     (mode = vmBalloonModeOff \<and> minBytes = memory \<or> mode = vmBalloonModeAuto \<and> 0 \<le> minBytes \<and> minBytes \<le> memory)"

definition shape_ok :: "vmShape \<Rightarrow> bool" where
  "shape_ok s \<longleftrightarrow>
     0 < sh_CPUs s \<and> 0 < sh_MemoryBytes s \<and> sh_MemoryBytes s \<le> max_int64 \<and>
     balloon_ok (sh_MemoryBytes s) (sh_BalloonMode s) (sh_MinMemoryBytes s) \<and>
     0 < sh_DiskBytes s \<and> sh_DiskBytes s \<le> max_int64 \<and> sh_DiskBackend s \<in> {vmDiskBackendRaw, vmDiskBackendZVOL}"

lemma parseVMSize_range: "parseVMSize raw = Inr n \<Longrightarrow> 0 \<le> n \<and> n \<le> max_int64"
proof -
  assume p: "parseVMSize raw = Inr n"
  obtain k rest where k: "size_suffix (TrimSpace (ToLower raw)) = (k, rest)" by (cases "size_suffix (TrimSpace (ToLower raw))")
  have k1: "1 \<le> k" using k by (auto simp: size_suffix_def gib_def mib_def split: if_splits)
  have "0 \<le> wrap64 (m * k) \<and> wrap64 (m * k) \<le> max_int64" if "0 < m" "m \<le> max_int64 sdiv k" for m
  proof -
    have "m * k \<le> max_int64" using that(2) k1 pos_le_div_iff [of k m max_int64] by (simp add: sdiv_nonneg max_int64_def)
    moreover have "0 < m * k" using that(1) k1 by simp
    ultimately show ?thesis by (simp add: in_int64_pos)
  qed
  then show ?thesis
    using p k unfolding parseVMSize_def Let_def
    by (auto simp: max_int64_def not_less split: if_splits option.splits)
qed

lemma balloon_mode: "normalizeVMBalloonMode raw = Inr mode \<Longrightarrow> mode = vmBalloonModeAuto \<or> mode = vmBalloonModeOff"
  by (auto simp: normalizeVMBalloonMode_def Let_def split: if_splits)

lemma effectiveVMBalloonConfig_ok:
  assumes "effectiveVMBalloonConfig memory cfg = Inr out"
  shows "balloon_ok memory (vb_Mode out) (vb_MinBytes out)"
proof (cases "normalizeVMBalloonMode (vb_Mode cfg)")
  case (Inr mode)
  then show ?thesis using assms balloon_mode [OF Inr]
    by (auto simp: effectiveVMBalloonConfig_def Let_def balloon_ok_def vm_names split: if_splits)
qed (use assms in \<open>simp add: effectiveVMBalloonConfig_def\<close>)

lemma effectiveExisting_ok:
  "effectiveExistingVMBalloonConfig memory cfg = Inr out \<Longrightarrow> balloon_ok memory (vb_Mode out) (vb_MinBytes out)"
  by (auto simp: effectiveExistingVMBalloonConfig_def effectiveVMBalloonConfig_ok split: if_splits)

lemma diskSize_range:
  "(\<And>a b. (a, b) \<in> set ts \<Longrightarrow> 0 \<le> b \<and> b \<le> max_int64) \<Longrightarrow>
   0 \<le> diskSizeForThresholds n ts \<and> diskSizeForThresholds n ts \<le> max_int64"
  by (induction n ts rule: diskSizeForThresholds.induct) (auto simp: max_int64_def)

lemma defaultVMDisk_range: "0 \<le> defaultVMDisk n zfs \<and> defaultVMDisk n zfs \<le> max_int64"
  unfolding defaultVMDisk_def
  by (rule diskSize_range) (auto simp: zfs_thresholds_def raw_thresholds_def gib_def max_int64_def split: if_splits)

lemma defaultVMMemory_range: "0 < defaultVMMemory n \<and> defaultVMMemory n \<le> max_int64"
  by (simp add: defaultVMMemory_def gib_def mib_def max_int64_def)

lemma defaultVMCPUs_pos: "0 < defaultVMCPUs n"
  by (simp add: defaultVMCPUs_def)

lemma defaultVMShape_ok:
  assumes "defaultVMShape profile = Inr shape"
  shows "0 < sh_CPUs shape \<and> 0 < sh_MemoryBytes shape \<and> sh_MemoryBytes shape \<le> max_int64 \<and> 0 < sh_DiskBytes shape \<and>
    sh_DiskBytes shape \<le> max_int64 \<and> sh_DiskBackend shape \<in> {vmDiskBackendRaw, vmDiskBackendZVOL}"
proof -
  have "sh_CPUs shape = defaultVMCPUs (hp_LogicalCPUs profile)" "sh_MemoryBytes shape = defaultVMMemory (hp_MemoryBytes profile)"
    "sh_DiskBytes shape = defaultVMDisk (hp_StorageBytes profile) (hp_StorageZFS profile)" "sh_DiskBytes shape \<noteq> 0"
    "sh_DiskBackend shape \<in> {vmDiskBackendRaw, vmDiskBackendZVOL}"
    using assms by (auto simp: defaultVMShape_def Let_def split: option.splits if_splits)
  then show ?thesis
    using defaultVMCPUs_pos defaultVMMemory_range defaultVMDisk_range
    by (metis order_le_imp_less_or_eq)
qed

lemma applyVMSizeOverride_ok:
  "applyVMSizeOverride dst raw = Inr n \<Longrightarrow> 0 < dst \<Longrightarrow> dst \<le> max_int64 \<Longrightarrow> 0 < n \<and> n \<le> max_int64"
  by (auto simp: applyVMSizeOverride_def dest: parseVMSize_range split: sum.splits if_splits)

lemma vmShapeFromRunFlags_ok:
  assumes "vmShapeFromRunFlags profile flags policy = Inr shape"
  shows "shape_ok shape \<and> admitVMMemory profile (sh_MemoryBytes shape) (sh_MinMemoryBytes shape) policy = None"
proof -
  obtain s0 s1 where s: "defaultVMShape profile = Inr s0" "applyVMShapeOverrides s0 flags = Inr s1"
    "applyVMBalloonOverrides s1 flags = Inr shape"
    and a: "admitVMMemory profile (sh_MemoryBytes shape) (sh_MinMemoryBytes shape) policy = None"
    using assms by (auto simp: vmShapeFromRunFlags_def split: sum.splits option.splits)
  note d = defaultVMShape_ok [OF s(1)]
  obtain memory disk where o: "applyVMSizeOverride (sh_MemoryBytes s0) (fl_Memory flags) = Inr memory"
    "applyVMSizeOverride (sh_DiskBytes s0) (fl_Disk flags) = Inr disk"
    "s1 = s0\<lparr>sh_CPUs := (if fl_CPUs flags > 0 then fl_CPUs flags else sh_CPUs s0), sh_MemoryBytes := memory, sh_DiskBytes := disk\<rparr>"
    using s(2) by (auto simp: applyVMShapeOverrides_def split: sum.splits if_splits)
  have m: "0 < memory" "memory \<le> max_int64" "0 < disk" "disk \<le> max_int64"
    using applyVMSizeOverride_ok [OF o(1)] applyVMSizeOverride_ok [OF o(2)] d by auto
  obtain c cfg where c: "effectiveVMBalloonConfig memory c = Inr cfg"
    "shape = s1\<lparr>sh_BalloonMode := vb_Mode cfg, sh_MinMemoryBytes := vb_MinBytes cfg\<rparr>"
    using s(3) o(3) by (auto simp: applyVMBalloonOverrides_def split: sum.splits)
  show ?thesis using a d m o(3) c(2) effectiveVMBalloonConfig_ok [OF c(1)] by (auto simp: shape_ok_def)
qed

lemma applyVMShapeSettings_ok:
  assumes "applyVMShapeSettings hostProfile db name vm flags plan0 = Inr plan"
  shows "0 < pl_CPUs plan \<and> 0 < pl_MemoryBytes plan \<and>
    balloon_ok (pl_MemoryBytes plan) (vb_Mode (pl_Balloon plan)) (vb_MinBytes (pl_Balloon plan))"
proof -
  obtain plan2 where p: "applyVMSetBalloonFlags flags plan2 = Inr plan"
    and v: "validateVMSettingsShape hostProfile db name vm (pl_CPUs plan) (pl_MemoryBytes plan)
      (vb_MinBytes (pl_Balloon plan)) (vmSetMemoryAdmissionChanged flags) = None"
    using assms by (auto simp: applyVMShapeSettings_def Let_def split: sum.splits option.splits)
  obtain c b balloon where e: "effectiveVMSetBalloonConfig (pl_MemoryBytes plan2) c b = Inr balloon"
    "plan = plan2\<lparr>pl_Balloon := balloon\<rparr>"
    using p by (auto simp: applyVMSetBalloonFlags_def split: sum.splits)
  have "0 < pl_CPUs plan" "0 < pl_MemoryBytes plan"
    using v by (auto simp: validateVMSettingsShape_def validateVMShape_def split: option.splits if_splits)
  then show ?thesis
    using e effectiveVMBalloonConfig_ok effectiveExisting_ok
    by (auto simp: effectiveVMSetBalloonConfig_def split: if_splits)
qed


definition example_profile :: "int \<Rightarrow> vmHostProfile" where
  "example_profile running = \<lparr>hp_Arch = ''amd64'', hp_HasKVM = True, hp_LogicalCPUs = 8, hp_MemoryBytes = 64 * gib,
     hp_StorageBytes = 100 * gib, hp_StorageZFS = True, hp_RunningVMBytes = running, hp_RunningVMMinBytes = 0\<rparr>"

definition no_flags :: vmFlags where
  "no_flags = \<lparr>fl_CPUs = 0, fl_Memory = [], fl_MemoryMin = [], fl_Balloon = [], fl_Disk = []\<rparr>"

lemmas shape_eval = vmShapeFromRunFlags_def defaultVMShape_def validateVMHost_def example_profile_def defaultVMCPUs_def
  defaultVMMemory_def defaultVMDisk_def zfs_thresholds_def applyVMShapeOverrides_def applyVMSizeOverride_def
  applyVMBalloonOverrides_def flag_mode_def flag_min_def validateVMShape_def admitVMMemory_def admitVMMemoryWithPolicy_def
  effectiveVMBalloonConfig_def normalizeVMBalloonMode_def normalizeVMHostMemoryPolicy_def vm_names
  vmHostMemoryBudget_def vmBalloonHostMemoryReserve_def defaultVMBalloonMinBytes_def vmBalloonDefaultFloorFraction_def
  gib_def mib_def

lemma lower_trim_eval: "TrimSpace [] = []" "ToLower [] = []" "TrimSpace (ToLower ''auto'') = ''auto''"
  "TrimSpace (ToLower ''safe'') = ''safe''" "parseVMSize [] = Inr 0"
  by (simp_all add: parseVMSize_def TrimSpace_def ToLower_def to_lower_char_def is_space_def)

lemma provision_example:
  "vmProvisionShape (\<lambda>running. Inr (example_profile running)) (Inr new_Data) no_flags =
    Inr \<lparr>sh_CPUs = 4, sh_MemoryBytes = 4 * gib, sh_MinMemoryBytes = gib, sh_BalloonMode = ''auto'',
      sh_DiskBytes = 32 * gib, sh_DiskBackend = ''zvol''\<rparr>"
  by (simp add: vmProvisionShape_def runningVMMemoryExcluding_def new_Data_def vmHostMemoryPolicy_def with_running_min_def
      shape_eval no_flags_def lower_trim_eval parseVMSize_def sdiv_nonneg in_int64_def min_int64_def max_int64_def)


text \<open>Texts of sizes evaluate step by step.\<close>

lemma size_examples:
  "parseVMSize ''8589934591g'' = Inr 9223372035781033984" "parseVMSize ''512m'' = Inr 536870912"
  "TrimSpace ''512m'' = ''512m''"
proof -
  have t: "TrimSpace (ToLower ''8589934591g'') = ''8589934591g''" "TrimSpace (ToLower ''512m'') = ''512m''"
    "TrimSpace ''8589934591'' = ''8589934591''" "TrimSpace ''512'' = ''512''"
    by (simp_all add: TrimSpace_def ToLower_def to_lower_char_def is_space_def)
  have u: "size_suffix ''8589934591g'' = (gib, ''8589934591'')" "size_suffix ''512m'' = (mib, ''512'')"
    by (simp_all add: size_suffix_def HasSuffix_def)
  have p: "ParseInt64 ''8589934591'' = Some 8589934591" "ParseInt64 ''512'' = Some 512"
    by (simp_all add: ParseInt64_def digits_val_def digit_val_def is_digit_def)
  show "parseVMSize ''8589934591g'' = Inr 9223372035781033984" "parseVMSize ''512m'' = Inr 536870912"
    unfolding parseVMSize_def t u Let_def
    by (simp_all add: t p gib_def mib_def max_int64_def sdiv_nonneg in_int64_def min_int64_def)
  show "TrimSpace ''512m'' = ''512m''" by (simp add: TrimSpace_def is_space_def)
qed

definition huge_flags :: vmFlags where
  "huge_flags = no_flags\<lparr>fl_Memory := ''8589934591g'', fl_MemoryMin := ''512m''\<rparr>"


section \<open>What a plan reclaims\<close>

definition candidate_ok :: "vmBalloonReclaimCandidate \<Rightarrow> bool" where
  "candidate_ok c \<longleftrightarrow>
     0 \<le> rc_MinBytes c \<and> rc_MinBytes c \<le> rc_MaxBytes c \<and> rc_MaxBytes c \<le> max_int64 \<and>
     0 \<le> rc_CurrentTarget c \<and> rc_CurrentTarget c \<le> max_int64 \<and> rc_FreeBytes c \<le> max_int64"

definition reclaimable :: "vmBalloonReclaimCandidate \<Rightarrow> int" where
  "reclaimable c = max 0 (min (rc_MaxBytes c - rc_MinBytes c - rc_CurrentTarget c) (rc_FreeBytes c))"

definition plan_gain :: "(string \<times> int) list \<Rightarrow> vmBalloonReclaimCandidate \<Rightarrow> int" where
  "plan_gain targets c = (case map_of targets (rc_Service c) of None \<Rightarrow> 0 | Some t \<Rightarrow> t - rc_CurrentTarget c)"

interpretation reclaim_order: go_order reclaim_before
  by unfold_locales (auto simp: reclaim_before_def split: if_splits)

lemma headroom_exact: "candidate_ok c \<Longrightarrow> headroom c = rc_MaxBytes c - rc_MinBytes c - rc_CurrentTarget c"
  by (simp add: headroom_def candidate_ok_def in_int64_def min_int64_def max_int64_def)

lemma reclaim_target:
  assumes "candidate_ok c" "0 < r" "r \<le> reclaimable c"
  shows "wrap64 (rc_CurrentTarget c + r) = rc_CurrentTarget c + r"
proof -
  have "rc_CurrentTarget c + r \<le> max_int64" "0 \<le> rc_CurrentTarget c + r"
    using assms unfolding candidate_ok_def reclaimable_def by linarith+
  then show ?thesis by (intro wrap64_id in_int64_pos)
qed

text \<open>One round in terms of what can be reclaimed.\<close>

lemma reclaim_loop_step:
  assumes "candidate_ok c" "0 < remaining" "remaining \<le> max_int64"
  shows "reclaim_loop (c # cs) targets remaining =
    (let r = min (reclaimable c) remaining;
         targets1 = (if r = 0 then targets else AList.update (rc_Service c) (rc_CurrentTarget c + r) targets)
     in if r = remaining then targets1 else reclaim_loop cs targets1 (remaining - r))"
proof (cases "reclaimable c = 0")
  case True
  then have "headroom c \<le> 0 \<or> rc_FreeBytes c \<le> 0" using headroom_exact [OF assms(1)]
    unfolding reclaimable_def by linarith
  then show ?thesis using True assms(2) by auto
next
  case False
  then have pos: "0 < headroom c" "0 < rc_FreeBytes c" "reclaimable c = min (headroom c) (rc_FreeBytes c)"
    using headroom_exact [OF assms(1)] by (auto simp: reclaimable_def)
  let ?r = "min (reclaimable c) remaining"
  have r: "0 < ?r" "?r \<le> reclaimable c" using pos assms(2) by auto
  have w: "wrap64 (remaining - ?r) = remaining - ?r"
    using r(1) assms(2,3) by (intro wrap64_id in_int64_pos) auto
  show ?thesis using pos r w reclaim_target [OF assms(1) r] assms(2)
    by (auto simp: Let_def min_def split: if_splits)
qed

lemma reclaim_loop_ok:
  assumes "\<And>c. c \<in> set cs \<Longrightarrow> candidate_ok c" "distinct (map rc_Service cs)"
    and "\<And>c. c \<in> set cs \<Longrightarrow> map_of targets (rc_Service c) = None" "0 < remaining" "remaining \<le> max_int64"
  defines "R \<equiv> reclaim_loop cs targets remaining"
  shows "(\<forall>n. n \<notin> rc_Service ` set cs \<longrightarrow> map_of R n = map_of targets n) \<and>
    (\<forall>c \<in> set cs. (map_of R (rc_Service c) = None \<or> 0 < plan_gain R c) \<and> plan_gain R c \<le> reclaimable c) \<and>
    sum_list (map (plan_gain R) cs) = min remaining (sum_list (map reclaimable cs))"
  using assms(1-5) unfolding R_def
proof (induction cs arbitrary: targets remaining)
  case Nil
  then show ?case by simp
next
  case (Cons c cs)
  let ?r = "min (reclaimable c) remaining"
  let ?t = "if ?r = 0 then targets else AList.update (rc_Service c) (rc_CurrentTarget c + ?r) targets"
  have ok: "candidate_ok c" using Cons.prems(1) by simp
  have nn: "0 \<le> reclaimable d" for d by (simp add: reclaimable_def)
  have sn: "0 \<le> sum_list (map reclaimable cs)" by (intro sum_list_nonneg) (auto simp: nn)
  have fresh: "map_of ?t (rc_Service d) = None" if "d \<in> set cs" for d
    using that Cons.prems(2,3) by (auto simp: update_conv' rev_image_eqI)
  have mine: "map_of ?t (rc_Service c) = (if ?r = 0 then None else Some (rc_CurrentTarget c + ?r))"
    using Cons.prems(3) [of c] by (simp add: update_conv')
  have step: "reclaim_loop (c # cs) targets remaining = (if ?r = remaining then ?t else reclaim_loop cs ?t (remaining - ?r))"
    using reclaim_loop_step [OF ok Cons.prems(4,5)] by (simp add: Let_def)
  show ?case
  proof (cases "?r = remaining")
    case True
    then have R: "reclaim_loop (c # cs) targets remaining = ?t" using step unfolding if_P [OF True] by simp
    have z: "plan_gain ?t d = 0" if "d \<in> set cs" for d using fresh [OF that] by (simp add: plan_gain_def)
    then have "sum_list (map (plan_gain ?t) cs) = 0" by (simp cong: map_cong)
    moreover have g: "plan_gain ?t c = ?r" using mine by (simp add: plan_gain_def)
    ultimately have "sum_list (map (plan_gain ?t) (c # cs)) = min remaining (sum_list (map reclaimable (c # cs)))"
      using True sn by simp
    moreover have "map_of ?t n = map_of targets n" if "n \<notin> rc_Service ` set (c # cs)" for n
      using that by (auto simp: update_conv')
    ultimately show ?thesis unfolding R using z g True Cons.prems(4) nn fresh by auto
  next
    case False
    let ?R = "reclaim_loop cs ?t (remaining - ?r)"
    have R: "reclaim_loop (c # cs) targets remaining = ?R" using step unfolding if_not_P [OF False] .
    have rr: "?r = reclaimable c" "0 < remaining - ?r" "remaining - ?r \<le> max_int64"
      using False nn [of c] Cons.prems(4,5) by auto
    have IH: "(\<forall>n. n \<notin> rc_Service ` set cs \<longrightarrow> map_of ?R n = map_of ?t n) \<and>
      (\<forall>c \<in> set cs. (map_of ?R (rc_Service c) = None \<or> 0 < plan_gain ?R c) \<and> plan_gain ?R c \<le> reclaimable c) \<and>
      sum_list (map (plan_gain ?R) cs) = min (remaining - ?r) (sum_list (map reclaimable cs))"
      using Cons.prems(1,2) fresh rr(2,3) by (intro Cons.IH) auto
    have "rc_Service c \<notin> rc_Service ` set cs" using Cons.prems(2) by auto
    then have "map_of ?R (rc_Service c) = map_of ?t (rc_Service c)" using IH by blast
    then have g: "plan_gain ?R c = ?r" "map_of ?R (rc_Service c) = None \<or> 0 < plan_gain ?R c"
      using mine nn [of c] rr(1) by (auto simp: plan_gain_def)
    have "map_of ?R n = map_of targets n" if "n \<notin> rc_Service ` set (c # cs)" for n
      using IH that by (auto simp: update_conv')
    moreover have "sum_list (map (plan_gain ?R) (c # cs)) = min remaining (sum_list (map reclaimable (c # cs)))"
      using IH g rr(1) by simp
    ultimately show ?thesis unfolding R using IH g rr(1) by auto
  qed
qed

lemma sum_list_perm: "mset xs = mset ys \<Longrightarrow> sum_list (map f xs) = sum_list (map (f :: _ \<Rightarrow> int) ys)"
  by (metis mset_map sum_mset_sum_list)

lemma reclaim_limits:
  assumes "0 \<le> h" "h \<le> 2 ^ 59"
  shows "startReclaim h = vmHostMemoryReserve h + h div 10" "stopReclaim h = vmHostMemoryReserve h + h * 15 div 100"
    "0 < vmHostMemoryReserve h" "vmHostMemoryReserve h \<le> 8 * gib"
proof -
  have r: "0 < vmHostMemoryReserve h" "vmHostMemoryReserve h \<le> 8 * gib"
    using assms by (simp_all add: vmHostMemoryReserve_def reserve_clamped gib_def)
  then show "0 < vmHostMemoryReserve h" "vmHostMemoryReserve h \<le> 8 * gib" .
  have d: "0 \<le> h div 10" "h div 10 \<le> 2 ^ 59" "0 \<le> h * 15 div 100" "h * 15 div 100 \<le> 2 ^ 59"
    using assms by auto
  show "startReclaim h = vmHostMemoryReserve h + h div 10"
    using r d assms by (auto simp: startReclaim_def sdiv_nonneg gib_def max_int64_def intro!: wrap64_id in_int64_pos)
  have "wrap64 (h * 15) = h * 15" using assms by (intro wrap64_id in_int64_pos) (auto simp: max_int64_def)
  then show "stopReclaim h = vmHostMemoryReserve h + h * 15 div 100"
    using r d assms by (auto simp: stopReclaim_def sdiv_nonneg gib_def max_int64_def intro!: wrap64_id in_int64_pos)
qed

lemma plan_ok:
  assumes "0 < h" "h \<le> 2 ^ 59" "0 \<le> avail" "\<And>c. c \<in> set cs \<Longrightarrow> candidate_ok c" "distinct (map rc_Service cs)"
  defines "T \<equiv> planVMBalloonTargets h avail cs"
  shows "(\<forall>n. n \<notin> rc_Service ` set cs \<longrightarrow> map_of T n = None) \<and>
    (\<forall>c \<in> set cs. (map_of T (rc_Service c) = None \<or> 0 < plan_gain T c) \<and> plan_gain T c \<le> reclaimable c) \<and>
    sum_list (map (plan_gain T) cs) =
      (if avail < vmHostMemoryReserve h + h div 10
       then min (vmHostMemoryReserve h + h * 15 div 100 - avail) (sum_list (map reclaimable cs)) else 0)"
proof (cases "avail < vmHostMemoryReserve h + h div 10")
  case False
  then have "T = []" using reclaim_limits [of h] assms(1,2) by (simp add: T_def planVMBalloonTargets_def)
  moreover have "0 \<le> reclaimable c" for c by (simp add: reclaimable_def)
  moreover have "plan_gain [] = (\<lambda>_. 0)" by (simp add: plan_gain_def fun_eq_iff)
  ultimately show ?thesis using False by simp
next
  case True
  note l = reclaim_limits [of h, OF less_imp_le [OF assms(1)] assms(2)]
  let ?s = "sortVMBalloonReclaimCandidates cs" and ?d = "vmHostMemoryReserve h + h * 15 div 100 - avail"
  have "h div 10 = h * 10 div (10 * 10)" by (rule div_mult_mult2 [symmetric]) simp
  also have "\<dots> \<le> h * 15 div 100" using assms(1) by (simp add: zdiv_mono1)
  finally have "h div 10 \<le> h * 15 div 100" .
  then have d: "0 < ?d" "?d \<le> max_int64"
    using True assms(1-3) l(3,4) by (auto simp: gib_def max_int64_def)
  then have T: "T = reclaim_loop ?s [] ?d"
    using True l by (simp add: T_def planVMBalloonTargets_def Let_def in_int64_pos)
  have m: "mset ?s = mset cs" "set ?s = set cs" by (simp_all add: sortVMBalloonReclaimCandidates_def)
  have "distinct (map rc_Service ?s)" using assms(5) m(1) by (metis mset_map mset_eq_imp_distinct_iff)
  from reclaim_loop_ok [of ?s "[]" ?d, folded T, OF _ this] d assms(4) m(2)
  have "(\<forall>n. n \<notin> rc_Service ` set cs \<longrightarrow> map_of T n = None) \<and>
    (\<forall>c \<in> set cs. (map_of T (rc_Service c) = None \<or> 0 < plan_gain T c) \<and> plan_gain T c \<le> reclaimable c) \<and>
    sum_list (map (plan_gain T) ?s) = min ?d (sum_list (map reclaimable ?s))" by simp
  then show ?thesis using True sum_list_perm [OF m(1)] by simp
qed

text \<open>
  C24: the balloon plan takes memory back exactly as documented: nothing while the host has the
  reserve and a tenth of its memory available; otherwise it reclaims what is missing up to the
  reserve and 15 percent, or all that can be reclaimed when that is less. Each machine gives at
  most its free memory and is never pushed below its minimum, and no balloon is deflated.
\<close>

theorem balloon_plan_exact:
  assumes "0 < hostBytes" "hostBytes \<le> 2 ^ 59" "0 \<le> memAvailable" "\<forall>c \<in> set cs. candidate_ok c" "distinct (map rc_Service cs)"
  defines "T \<equiv> planVMBalloonTargets hostBytes memAvailable cs"
  shows "(\<forall>n. n \<notin> rc_Service ` set cs \<longrightarrow> map_of T n = None) \<and>
    (\<forall>c \<in> set cs. \<forall>t. map_of T (rc_Service c) = Some t \<longrightarrow>
       rc_CurrentTarget c < t \<and> t \<le> rc_MaxBytes c - rc_MinBytes c \<and> t - rc_CurrentTarget c \<le> rc_FreeBytes c) \<and>
    sum_list (map (plan_gain T) cs) =
      (if memAvailable < vmHostMemoryReserve hostBytes + hostBytes div 10
       then min (vmHostMemoryReserve hostBytes + hostBytes * 15 div 100 - memAvailable) (sum_list (map reclaimable cs))
       else 0)"
proof -
  have p: "(\<forall>n. n \<notin> rc_Service ` set cs \<longrightarrow> map_of T n = None) \<and>
    (\<forall>c \<in> set cs. (map_of T (rc_Service c) = None \<or> 0 < plan_gain T c) \<and> plan_gain T c \<le> reclaimable c) \<and>
    sum_list (map (plan_gain T) cs) =
      (if memAvailable < vmHostMemoryReserve hostBytes + hostBytes div 10
       then min (vmHostMemoryReserve hostBytes + hostBytes * 15 div 100 - memAvailable) (sum_list (map reclaimable cs))
       else 0)"
    unfolding T_def using assms(1-5) by (intro plan_ok) auto
  have "rc_CurrentTarget c < t \<and> t \<le> rc_MaxBytes c - rc_MinBytes c \<and> t - rc_CurrentTarget c \<le> rc_FreeBytes c"
    if "c \<in> set cs" "map_of T (rc_Service c) = Some t" for c t
    using p that by (fastforce simp: plan_gain_def reclaimable_def)
  with p show ?thesis by blast
qed

definition example_candidates :: "vmBalloonReclaimCandidate list" where
  "example_candidates =
     [\<lparr>rc_Service = ''a'', rc_MaxBytes = 4 * gib, rc_MinBytes = gib, rc_CurrentTarget = 0, rc_FreeBytes = 2 * gib\<rparr>,
      \<lparr>rc_Service = ''b'', rc_MaxBytes = 8 * gib, rc_MinBytes = 2 * gib, rc_CurrentTarget = gib, rc_FreeBytes = 3 * gib\<rparr>]"

theorem balloon_plan_exact_witness:
  "sum_list (map (plan_gain (planVMBalloonTargets (64 * gib) (10 * gib) example_candidates)) example_candidates) = 5 * gib"
  using balloon_plan_exact [of "64 * gib" "10 * gib" example_candidates]
  by (simp add: example_candidates_def candidate_ok_def reclaimable_def vmHostMemoryReserve_def reserve_clamped gib_def
      max_int64_def)

section \<open>What the controller does\<close>

text \<open>
  A call that sets the target of a balloon is safe when the socket is that of a running machine
  of the data with ballooning on, and the target inflates the balloon by at most the guest's
  free memory and leaves the guest its minimum.
\<close>

definition safe_call :: "balloon_env \<Rightarrow> Data \<Rightarrow> string \<times> int \<Rightarrow> bool" where
  "safe_call env d call \<longleftrightarrow>
     (\<exists>name svc vm balloon stats.
        (name, Some svc) \<in> set (Services d) \<and> svc_ServiceType svc = ServiceTypeVM \<and> svc_VM svc = Some vm \<and>
        fst call = TrimSpace (vso_APISocketPath (vm_Sockets vm)) \<and> be_running env name = Inr True \<and>
        effectiveExistingVMBalloonConfig (vm_MemoryBytes vm) (vm_Balloon vm) = Inr balloon \<and>
        vb_Mode balloon = vmBalloonModeAuto \<and> be_Stats env (fst call) = Inr stats \<and>
        bs_TargetBytes stats < snd call \<and> snd call - bs_TargetBytes stats \<le> bs_FreeMemoryBytes stats \<and>
        snd call \<le> vm_MemoryBytes vm - vb_MinBytes balloon)"

definition forget_target :: "Service \<Rightarrow> Service" where
  "forget_target svc =
     svc\<lparr>svc_VM := map_option (\<lambda>vm. vm\<lparr>vm_Balloon := (vm_Balloon vm)\<lparr>vb_LastTargetBytes := 0\<rparr>\<rparr>) (svc_VM svc)\<rparr>"

definition forget_targets :: "Data \<Rightarrow> Data" where
  "forget_targets d = d\<lparr>Services := map (\<lambda>(n, service). (n, map_option forget_target service)) (Services d)\<rparr>"

definition stats_ok :: "balloon_env \<Rightarrow> bool" where
  "stats_ok env \<longleftrightarrow>
     (\<forall>socket stats. be_Stats env socket = Inr stats \<longrightarrow>
        0 \<le> bs_TargetBytes stats \<and> bs_TargetBytes stats \<le> max_int64 \<and> bs_FreeMemoryBytes stats \<le> max_int64)"

lemma candidate_spec:
  assumes "vmBalloonControllerCandidate env name service = Inr (Some (c, r))"
  obtains svc vm balloon stats where "service = Some svc" "svc_ServiceType svc = ServiceTypeVM" "svc_VM svc = Some vm"
    "effectiveExistingVMBalloonConfig (vm_MemoryBytes vm) (vm_Balloon vm) = Inr balloon" "vb_Mode balloon \<noteq> vmBalloonModeOff"
    "rec_socket r = TrimSpace (vso_APISocketPath (vm_Sockets vm))" "be_running env name = Inr True"
    "be_Stats env (rec_socket r) = Inr stats" "rec_currentTarget r = bs_TargetBytes stats"
    "c = \<lparr>rc_Service = name, rc_MaxBytes = vm_MemoryBytes vm, rc_MinBytes = vb_MinBytes balloon,
       rc_CurrentTarget = bs_TargetBytes stats, rc_FreeBytes = bs_FreeMemoryBytes stats\<rparr>"
  using assms unfolding vmBalloonControllerCandidate_def Let_def
  by (auto split: option.splits sum.splits if_splits)

lemma candidates_spec:
  assumes "vmBalloonControllerCandidates env svcs = (cs, rs, errs)"
  shows "map fst rs = map rc_Service cs \<and> set (map rc_Service cs) \<subseteq> fst ` set svcs \<and>
    (distinct (map fst svcs) \<longrightarrow> distinct (map rc_Service cs)) \<and>
    (\<forall>c \<in> set cs. \<exists>service r. (rc_Service c, service) \<in> set svcs \<and> (rc_Service c, r) \<in> set rs \<and>
       vmBalloonControllerCandidate env (rc_Service c) service = Inr (Some (c, r)))"
  using assms
proof (induction env svcs arbitrary: cs rs errs rule: vmBalloonControllerCandidates.induct)
  case (2 env name service rest)
  obtain cs1 rs1 errs1 where r: "vmBalloonControllerCandidates env rest = (cs1, rs1, errs1)"
    by (metis prod.collapse)
  note IH = "2.IH" [OF r]
  show ?case
  proof (cases "\<exists>c r. vmBalloonControllerCandidate env name service = Inr (Some (c, r))")
    case True
    then obtain c q where cq: "vmBalloonControllerCandidate env name service = Inr (Some (c, q))" by blast
    then have "rc_Service c = name" by (elim candidate_spec) simp
    moreover have "cs = c # cs1" "rs = (name, q) # rs1" using "2.prems" r cq by auto
    ultimately show ?thesis using IH cq by auto (blast+)
  next
    case False
    then have "cs = cs1" "rs = rs1" using "2.prems" r by (auto split: sum.splits option.splits prod.splits)
    then show ?thesis using IH by auto (blast+)
  qed
qed simp

lemma candidate_ok_spec:
  assumes "vmBalloonControllerCandidate env name service = Inr (Some (c, r))" "stats_ok env"
    and "\<And>svc vm. service = Some svc \<Longrightarrow> svc_VM svc = Some vm \<Longrightarrow> vm_MemoryBytes vm \<le> max_int64"
  shows "candidate_ok c"
proof -
  obtain svc vm balloon stats where *: "service = Some svc" "svc_VM svc = Some vm"
    "effectiveExistingVMBalloonConfig (vm_MemoryBytes vm) (vm_Balloon vm) = Inr balloon" "vb_Mode balloon \<noteq> vmBalloonModeOff"
    "be_Stats env (rec_socket r) = Inr stats"
    "c = \<lparr>rc_Service = name, rc_MaxBytes = vm_MemoryBytes vm, rc_MinBytes = vb_MinBytes balloon,
       rc_CurrentTarget = bs_TargetBytes stats, rc_FreeBytes = bs_FreeMemoryBytes stats\<rparr>"
    using assms(1) by (elim candidate_spec) simp
  have "0 \<le> vb_MinBytes balloon" "vb_MinBytes balloon \<le> vm_MemoryBytes vm"
    using effectiveExisting_ok [OF *(3)] *(4) by (auto simp: balloon_ok_def)
  then show ?thesis using * assms(2,3) by (simp add: candidate_ok_def stats_ok_def)
qed

lemma update_forget:
  assumes "map_of svcs n = Some (Some svc)" "forget_target svc' = forget_target svc"
  shows "map (\<lambda>(n, service). (n, map_option forget_target service)) (AList.update n (Some svc') svcs) =
    map (\<lambda>(n, service). (n, map_option forget_target service)) svcs"
  using assms by (induction svcs) (auto split: if_splits)

lemma last_target_forget:
  "last_target_mutation service t d = Inr d' \<Longrightarrow> forget_targets d' = forget_targets d \<and> DataVersion d' = DataVersion d"
  by (auto simp: last_target_mutation_def forget_targets_def update_forget forget_target_def
      split: option.splits)

lemma last_target_keeps: "store.keeps (\<lambda>d. forget_targets d = D) (last_target_mutation service t)"
  unfolding store.keeps_def current_data_def using last_target_forget by metis

lemma checkMutationAllowed_frame:
  "checkMutationAllowed env s = (e, s') \<Longrightarrow> by_calls s' = by_calls s \<and> by_store s' = by_store s"
  by (auto simp: checkMutationAllowed_def)

lemma persist_frame:
  assumes "persistVMBalloonLastTarget env dir service t s = (errs, s')" "store.holds (\<lambda>d. forget_targets d = D) (by_store s)"
  shows "by_calls s' = by_calls s \<and> store.holds (\<lambda>d. forget_targets d = D) (by_store s')"
proof -
  obtain e s1 where c: "checkMutationAllowed env s = (e, s1)" by (cases "checkMutationAllowed env s")
  note f = checkMutationAllowed_frame [OF c]
  have "store.holds (\<lambda>d. forget_targets d = D) (commit_step dir (last_target_mutation service t) (by_store s1))"
    using assms(2) f last_target_keeps by (intro store.commit_holds) simp_all
  then show ?thesis
    using assms c f by (auto simp: persistVMBalloonLastTarget_def commit_step_def split: option.splits prod.splits)
qed

definition planned_call :: "(string \<times> vmBalloonReconcileCandidate) list \<Rightarrow> (string \<times> int) list \<Rightarrow> string \<times> int \<Rightarrow> bool" where
  "planned_call rs ts call \<longleftrightarrow> (\<exists>n r. map_of rs n = Some r \<and> (n, snd call) \<in> set ts \<and> fst call = rec_socket r)"

lemma planned_call_mono: "planned_call rs ts call \<Longrightarrow> planned_call rs (x # ts) call"
  unfolding planned_call_def by auto

lemma apply_frame:
  assumes "applyVMBalloonTargets env dir rs ts s = (errs, s')" "store.holds (\<lambda>d. forget_targets d = D) (by_store s)"
  shows "(\<exists>new. by_calls s' = by_calls s @ new \<and> (\<forall>call \<in> set new. planned_call rs ts call)) \<and>
    store.holds (\<lambda>d. forget_targets d = D) (by_store s')"
  using assms
proof (induction ts arbitrary: s errs s')
  case (Cons x ts)
  obtain n t where x: "x = (n, t)" by (cases x)
  let ?I = "store.holds (\<lambda>d. forget_targets d = D)"
  let ?goal = "(\<exists>new. by_calls s' = by_calls s @ new \<and> (\<forall>call \<in> set new. planned_call rs (x # ts) call)) \<and> ?I (by_store s')"
  have stop: ?goal if "by_calls s' = by_calls s @ pre" "\<forall>call \<in> set pre. planned_call rs (x # ts) call" "?I (by_store s')" for pre
    using that by blast
  have continue: ?goal if h: "applyVMBalloonTargets env dir rs ts s1 = (e, s')" "by_calls s1 = by_calls s @ pre"
    "\<forall>call \<in> set pre. planned_call rs (x # ts) call" "?I (by_store s1)" for s1 e pre
  proof -
    obtain new where new: "by_calls s' = by_calls s1 @ new" "\<forall>call \<in> set new. planned_call rs ts call" "?I (by_store s')"
      using Cons.IH [OF h(1,4)] by blast
    have "\<forall>call \<in> set (pre @ new). planned_call rs (x # ts) call"
      unfolding set_append using h(3) new(2) by (blast intro: planned_call_mono)
    then show ?thesis using new(1,3) h(2) by (intro stop [of "pre @ new"]) auto
  qed
  obtain e1 s1 where c1: "checkMutationAllowed env s = (e1, s1)" by (cases "checkMutationAllowed env s")
  note f1 = checkMutationAllowed_frame [OF c1]
  show ?case
  proof (cases "e1 = None \<and> map_of rs n \<noteq> None \<and> rec_currentTarget (the (map_of rs n)) \<noteq> t")
    case False
    show ?thesis
    proof (cases e1)
      case None
      then have "applyVMBalloonTargets env dir rs ts s1 = (errs, s')"
        using False Cons.prems(1) c1 x by (auto split: option.splits)
      then show ?thesis using f1 Cons.prems(2) by (intro continue [of s1 errs "[]"]) auto
    qed (use Cons.prems c1 f1 x in \<open>auto intro!: stop [of "[]"]\<close>)
  next
    case True
    then obtain r where r: "e1 = None" "map_of rs n = Some r" "rec_currentTarget r \<noteq> t" by auto
    define s2 where "s2 = s1\<lparr>by_calls := by_calls s1 @ [(rec_socket r, t)]\<rparr>"
    have s2: "by_calls s2 = by_calls s @ [(rec_socket r, t)]" "by_store s2 = by_store s" using f1 by (simp_all add: s2_def)
    have p: "\<forall>call \<in> set [(rec_socket r, t)]. planned_call rs (x # ts) call" using r x by (auto simp: planned_call_def)
    obtain e3 s3 where c3: "checkMutationAllowed env s2 = (e3, s3)" by (cases "checkMutationAllowed env s2")
    obtain perr s4 where c4: "persistVMBalloonLastTarget env dir n t s3 = (perr, s4)"
      by (cases "persistVMBalloonLastTarget env dir n t s3")
    note f3 = checkMutationAllowed_frame [OF c3]
    have f4: "by_calls s4 = by_calls s @ [(rec_socket r, t)]" "?I (by_store s4)"
      using persist_frame [OF c4] f3 s2 Cons.prems(2) by auto
    have res: "(errs, s') =
      (if be_SetTarget env (length (by_calls s1)) \<noteq> None
       then (case applyVMBalloonTargets env dir rs ts s2 of (errs, s3) \<Rightarrow> (VMError n ''set balloon target'' # errs, s3))
       else case e3 of Some e \<Rightarrow> ([e], s3)
            | None \<Rightarrow> (case applyVMBalloonTargets env dir rs ts s4 of (errs, s5) \<Rightarrow> (perr @ errs, s5)))"
      using Cons.prems(1) [symmetric] r c1 c3 c4 unfolding x s2_def
      by (cases e3; cases "be_SetTarget env (length (by_calls s1))") (simp_all add: Let_def)
    consider (failed) e where "applyVMBalloonTargets env dir rs ts s2 = (e, s')"
      | (blocked) "s' = s3" | (again) e where "applyVMBalloonTargets env dir rs ts s4 = (e, s')"
      using res by (auto split: if_splits option.splits prod.splits)
    then show ?thesis
    proof cases
      case failed
      then show ?thesis using s2 p Cons.prems(2) by (intro continue [OF failed]) auto
    next
      case blocked
      then show ?thesis using s2 f3 p Cons.prems(2) by (intro stop [of "[(rec_socket r, t)]"]) auto
    next
      case again
      then show ?thesis using f4 p by (intro continue [OF again]) auto
    qed
  qed
qed simp

lemma reclaim_loop_distinct: "distinct (map fst ts) \<Longrightarrow> distinct (map fst (reclaim_loop cs ts r))"
  by (induction cs ts r rule: reclaim_loop.induct) (auto simp: Let_def distinct_update)

lemma plan_distinct: "distinct (map fst (planVMBalloonTargets h avail cs))"
  by (simp add: planVMBalloonTargets_def Let_def reclaim_loop_distinct)

lemma planned_call_safe:
  assumes call: "planned_call rs ts call" and ts: "set ts \<subseteq> set (planVMBalloonTargets h avail cs)"
    and cs: "vmBalloonControllerCandidates env (Services d) = (cs, rs, errs)"
    and h: "0 < h" "h \<le> 2 ^ 59" "0 \<le> avail" and d: "distinct (map fst (Services d))" and st: "stats_ok env"
    and mem: "\<And>n svc vm. (n, Some svc) \<in> set (Services d) \<Longrightarrow> svc_VM svc = Some vm \<Longrightarrow> vm_MemoryBytes vm \<le> max_int64"
  shows "safe_call env d call"
proof -
  let ?T = "planVMBalloonTargets h avail cs"
  note spec = candidates_spec [OF cs]
  have dist: "distinct (map rc_Service cs)" "distinct (map fst rs)" using spec d by auto
  have ok: "candidate_ok c" if cc: "c \<in> set cs" for c
  proof -
    obtain service r where "(rc_Service c, service) \<in> set (Services d)"
      "vmBalloonControllerCandidate env (rc_Service c) service = Inr (Some (c, r))"
      using spec cc by blast
    then show ?thesis using mem by (auto intro: candidate_ok_spec [OF _ st])
  qed
  note plan = plan_ok [OF h ok dist(1)]
  obtain n r where n: "map_of rs n = Some r" "(n, snd call) \<in> set ?T" "fst call = rec_socket r"
    using call ts unfolding planned_call_def by blast
  have "n \<in> set (map rc_Service cs)" using n(1) spec by (metis domI dom_map_of_conv_image_fst list.set_map)
  then obtain c where c: "c \<in> set cs" "rc_Service c = n" by auto
  then obtain service r' where s: "(n, service) \<in> set (Services d)" "(n, r') \<in> set rs"
    "vmBalloonControllerCandidate env n service = Inr (Some (c, r'))" using spec by blast
  have "r' = r" using n(1) s(2) dist(2) by simp
  have t: "map_of ?T n = Some (snd call)" using n(2) plan_distinct by (simp add: map_of_eq_Some_iff)
  then have g: "0 < plan_gain ?T c" "plan_gain ?T c \<le> reclaimable c" "plan_gain ?T c = snd call - rc_CurrentTarget c"
    using plan c by (auto simp: plan_gain_def)
  obtain svc vm balloon stats where v: "service = Some svc" "svc_ServiceType svc = ServiceTypeVM" "svc_VM svc = Some vm"
    "effectiveExistingVMBalloonConfig (vm_MemoryBytes vm) (vm_Balloon vm) = Inr balloon" "vb_Mode balloon \<noteq> vmBalloonModeOff"
    "rec_socket r = TrimSpace (vso_APISocketPath (vm_Sockets vm))" "be_running env n = Inr True"
    "be_Stats env (rec_socket r) = Inr stats"
    "c = \<lparr>rc_Service = n, rc_MaxBytes = vm_MemoryBytes vm, rc_MinBytes = vb_MinBytes balloon,
       rc_CurrentTarget = bs_TargetBytes stats, rc_FreeBytes = bs_FreeMemoryBytes stats\<rparr>"
    using s(3) \<open>r' = r\<close> by (elim candidate_spec) simp
  have "vb_Mode balloon = vmBalloonModeAuto" using effectiveExisting_ok [OF v(4)] v(5) by (auto simp: balloon_ok_def)
  moreover have "bs_TargetBytes stats < snd call" "snd call - bs_TargetBytes stats \<le> bs_FreeMemoryBytes stats"
    "snd call \<le> vm_MemoryBytes vm - vb_MinBytes balloon"
    using g v(9) by (auto simp: reclaimable_def)
  ultimately show ?thesis unfolding safe_call_def using s(1) v(1-8) n(3)
    by (intro exI [of _ n] exI [of _ svc] exI [of _ vm] exI [of _ balloon] exI [of _ stats]) simp
qed

text \<open>
  C23: one round of the balloon controller, whatever fails in it: every target it sets belongs to a
  running machine of the database with ballooning on, inflates the balloon by at most the
  guest's free memory and leaves the guest its configured minimum; and the data that loading
  returns afterwards differs only in the recorded last targets.
\<close>

theorem reconcile_within_limits:
  assumes "reconcileVMBalloons env dir s = (errs, s')"
    and "getLocked dir (fst (by_store s)) (snd (by_store s)) = (Inr d :: vm_err db_err + Data, st)"
    and "\<forall>ts. set (be_order env ts) \<subseteq> set ts" and "stats_ok env"
    and "meminfo_or_zero (be_meminfo env) ''MemTotal:'' \<le> 2 ^ 59"
    and "distinct (map fst (Services d))"
    and "\<forall>n svc vm. (n, Some svc) \<in> set (Services d) \<longrightarrow> svc_VM svc = Some vm \<longrightarrow> vm_MemoryBytes vm \<le> max_int64"
  shows "(\<exists>new. by_calls s' = by_calls s @ new \<and> (\<forall>call \<in> set new. safe_call env d call)) \<and>
    (\<forall>e e'. store_view (by_store s) = Some e \<longrightarrow> store_view (by_store s') = Some e' \<longrightarrow>
       forget_targets e' = forget_targets e)"
proof -
  define D where "D = (case store_view (by_store s) of None \<Rightarrow> d | Some e \<Rightarrow> forget_targets e)"
  let ?I = "store.holds (\<lambda>d. forget_targets d = D)"
  let ?h = "meminfo_or_zero (be_meminfo env) ''MemTotal:''" and ?a = "meminfo_or_zero (be_meminfo env) ''MemAvailable:''"
  let ?goal = "(\<exists>new. by_calls s' = by_calls s @ new \<and> (\<forall>call \<in> set new. safe_call env d call)) \<and> ?I (by_store s')"
  have I: "?I (by_store s)" by (simp add: store.holds_def D_def split: option.splits)
  obtain e1 s1 where c: "checkMutationAllowed env s = (e1, s1)" by (cases "checkMutationAllowed env s")
  note f = checkMutationAllowed_frame [OF c]
  obtain sd' w' where st: "st = (sd', w')" by (cases st)
  have I2: "?I st" using I getLocked_view [OF assms(2) [unfolded st]] by (simp add: store.holds_def st)
  obtain cs rs cerrs where cs: "vmBalloonControllerCandidates env (Services d) = (cs, rs, cerrs)" by (metis prod.collapse)
  define s2 where "s2 = s1\<lparr>by_store := st\<rparr>"
  define ts where "ts = be_order env (planVMBalloonTargets ?h ?a cs)"
  obtain aerrs s3 where a: "applyVMBalloonTargets env dir rs ts s2 = (aerrs, s3)" by (cases "applyVMBalloonTargets env dir rs ts s2")
  have s2: "by_calls s2 = by_calls s" "by_store s2 = st" using f by (simp_all add: s2_def)
  consider (stopped) "s' = s1" | (read) "s' = s2" | (applied) "s' = s3" "0 < ?h" "0 < ?a"
    using assms(1,2) c f cs a unfolding reconcileVMBalloons_def s2_def ts_def
    by (auto simp: Let_def currentVMBalloonHostMemory_def split: option.splits sum.splits if_splits)
  then have ?goal
  proof cases
    case applied
    obtain new where new: "by_calls s3 = by_calls s2 @ new" "\<forall>call \<in> set new. planned_call rs ts call" "?I (by_store s3)"
      using apply_frame [OF a] I2 s2 by metis
    have "safe_call env d call" if "call \<in> set new" for call
      by (rule planned_call_safe [OF bspec [OF new(2) that] _ cs applied(2) assms(5) _ assms(6,4)])
        (use assms(3,7) applied(3) in \<open>auto simp: ts_def\<close>)
    then show ?thesis using new applied(1) s2 by auto
  qed (use I I2 f s2 in auto)
  then show ?thesis by (auto simp: store.holds_def D_def)
qed

text \<open>A host of 64 GiB with ten available, and one machine of four with two free.\<close>

definition example_vm :: VMConfig where
  "example_vm =
     \<lparr>vm_Runtime = ''firecracker'',
      vm_Image = \<lparr>vi_Payload = [], vi_Version = [], vi_Digest = [], vi_Kernel = [], vi_RootFS = [], vi_Distro = [],
        vi_DistroVersion = [], vi_DefaultUser = [], vi_GuestSystemInit = [], vi_MetadataDriver = []\<rparr>,
      vm_Components = None, vm_CPUs = 2, vm_MemoryBytes = 4 * gib,
      vm_Balloon = \<lparr>vb_Mode = ''auto'', vb_MinBytes = gib, vb_StatsIntervalSeconds = 5, vb_LastTargetBytes = 0\<rparr>,
      vm_Disk = \<lparr>vd_Backend = ''raw'', vd_Bytes = 8 * gib, vd_Path = []\<rparr>, vm_Networks = [],
      vm_SSH = \<lparr>vs_User = [], vs_KeyRef = [], vs_KnownHosts = []\<rparr>,
      vm_Console = \<lparr>vco_SocketPath = [], vco_LogPath = []\<rparr>,
      vm_Sockets = \<lparr>vso_APISocketPath = ''/s'', vso_VsockSocketPath = [], vso_VsockGuestCID = 0\<rparr>,
      vm_PIDFile = [], vm_SetupState = ''ready''\<rparr>"

definition example_vm_data :: Data where
  "example_vm_data = new_Data\<lparr>Services :=
     [(''dev'', Some ((new_Service ''dev'')\<lparr>svc_ServiceType := ServiceTypeVM, svc_VM := Some example_vm\<rparr>))]\<rparr>"

definition example_balloon_env :: balloon_env where
  "example_balloon_env =
     \<lparr>be_running = (\<lambda>_. Inr True), be_Stats = (\<lambda>_. Inr \<lparr>bs_TargetBytes = 0, bs_ActualBytes = 0, bs_FreeMemoryBytes = 2 * gib,
      bs_AvailableMemoryBytes = 2 * gib\<rparr>),
      be_SetTarget = (\<lambda>_. None), be_block = (\<lambda>n. if n = 2 then Some ''recovery'' else None),
      be_meminfo = Some [''MemTotal: 67108864 kB'', ''MemAvailable: 10485760 kB''], be_order = (\<lambda>ts. ts)\<rparr>"

definition example_balloon_sys :: balloon_sys where
  "example_balloon_sys = \<lparr>by_checks = 0, by_calls = [], by_store = (Some example_vm_data, quiet_world Absent (\<lambda>_. False))\<rparr>"

lemma example_meminfo:
  "meminfo_or_zero (be_meminfo example_balloon_env) ''MemTotal:'' = 64 * gib"
  "meminfo_or_zero (be_meminfo example_balloon_env) ''MemAvailable:'' = 10 * gib"
proof -
  have f: "Fields ''MemTotal: 67108864 kB'' = [''MemTotal:'', ''67108864'', ''kB'']"
    "Fields ''MemAvailable: 10485760 kB'' = [''MemAvailable:'', ''10485760'', ''kB'']"
    by (simp_all add: Fields_def is_space_def)
  have "ParseInt64 ''67108864'' = Some 67108864" "ParseInt64 ''10485760'' = Some 10485760"
    by (simp_all add: ParseInt64_def digits_val_def digit_val_def is_digit_def)
  then show "meminfo_or_zero (be_meminfo example_balloon_env) ''MemTotal:'' = 64 * gib"
    "meminfo_or_zero (be_meminfo example_balloon_env) ''MemAvailable:'' = 10 * gib"
    by (simp_all add: meminfo_or_zero_def example_balloon_env_def f gib_def in_int64_def min_int64_def max_int64_def)
qed

lemma example_controller_candidates:
  "vmBalloonControllerCandidates example_balloon_env (Services example_vm_data) =
    ([\<lparr>rc_Service = ''dev'', rc_MaxBytes = 4 * gib, rc_MinBytes = gib, rc_CurrentTarget = 0, rc_FreeBytes = 2 * gib\<rparr>],
     [(''dev'', \<lparr>rec_service = ''dev'', rec_socket = ''/s'', rec_currentTarget = 0\<rparr>)], [])"
proof -
  have t: "TrimSpace ''/s'' = ''/s''" "TrimSpace ''auto'' = ''auto''" by (simp_all add: TrimSpace_def is_space_def)
  have b: "effectiveExistingVMBalloonConfig (4 * gib)
      \<lparr>vb_Mode = ''auto'', vb_MinBytes = gib, vb_StatsIntervalSeconds = 5, vb_LastTargetBytes = 0\<rparr> =
    Inr \<lparr>vb_Mode = ''auto'', vb_MinBytes = gib, vb_StatsIntervalSeconds = 5, vb_LastTargetBytes = 0\<rparr>"
    by (simp add: effectiveExistingVMBalloonConfig_def hasPersistedVMBalloonConfig_def effectiveVMBalloonConfig_def t
        normalizeVMBalloonMode_def lower_trim_eval vm_names gib_def)
  show ?thesis
    by (simp add: example_vm_data_def new_Data_def new_Service_def vmBalloonControllerCandidate_def example_vm_def b t
        vm_names example_balloon_env_def)
qed

lemma example_plan:
  "planVMBalloonTargets (64 * gib) (10 * gib)
     [\<lparr>rc_Service = ''dev'', rc_MaxBytes = 4 * gib, rc_MinBytes = gib, rc_CurrentTarget = 0, rc_FreeBytes = 2 * gib\<rparr>] =
   [(''dev'', 2 * gib)]"
  by (simp add: planVMBalloonTargets_def reclaim_limits vmHostMemoryReserve_def reserve_clamped
      sortVMBalloonReclaimCandidates_def sort_by_def headroom_def gib_def in_int64_def min_int64_def max_int64_def)

theorem reconcile_within_limits_witness:
  "by_calls (snd (reconcileVMBalloons example_balloon_env [] example_balloon_sys)) = [(''/s'', 2 * gib)] \<and>
   safe_call example_balloon_env example_vm_data (''/s'', 2 * gib)"
proof -
  obtain errs s' where r: "reconcileVMBalloons example_balloon_env [] example_balloon_sys = (errs, s')"
    by (cases "reconcileVMBalloons example_balloon_env [] example_balloon_sys")
  have g: "getLocked [] (fst (by_store example_balloon_sys)) (snd (by_store example_balloon_sys)) =
      (Inr example_vm_data :: vm_err db_err + Data, by_store example_balloon_sys)"
    by (simp add: getLocked_def example_balloon_sys_def)
  have p: "vmHostMemoryPolicy (Inr example_vm_data) = Inr \<lparr>mp_Name = ''safe'', mp_RatioNumerator = 1, mp_RatioDenominator = 1\<rparr>"
    by (simp add: vmHostMemoryPolicy_def example_vm_data_def new_Data_def normalizeVMHostMemoryPolicy_def lower_trim_eval vm_names)
  have e: "be_block example_balloon_env n = (if n = 2 then Some ''recovery'' else None)"
    "be_SetTarget example_balloon_env n = None" "be_order example_balloon_env ts = ts" for n ts
    by (simp_all add: example_balloon_env_def)
  have gp: "\<not> gib \<le> 0" "gib \<noteq> 0" by (simp_all add: gib_def)
  have calls: "by_calls s' = [(''/s'', 2 * gib)]"
    using r g unfolding reconcileVMBalloons_def
    by (auto simp: checkMutationAllowed_def e p example_controller_candidates currentVMBalloonHostMemory_def example_meminfo
        example_plan example_balloon_sys_def Let_def gp)
  have stats: "stats_ok example_balloon_env" by (simp add: stats_ok_def example_balloon_env_def gib_def max_int64_def)
  have "\<forall>n svc vm. (n, Some svc) \<in> set (Services example_vm_data) \<longrightarrow> svc_VM svc = Some vm \<longrightarrow> vm_MemoryBytes vm \<le> max_int64"
    by (simp add: example_vm_data_def new_Data_def example_vm_def gib_def max_int64_def)
  with reconcile_within_limits [OF r g _ stats]
  have "\<exists>new. by_calls s' = by_calls example_balloon_sys @ new \<and>
      (\<forall>call \<in> set new. safe_call example_balloon_env example_vm_data call)"
    by (simp add: e example_meminfo gib_def example_vm_data_def new_Data_def)
  then show ?thesis using calls r by (simp add: example_balloon_sys_def)
qed

end
