(* ===== verification/Go_Text.thy ===== *)
theory Go_Text
  imports Go_Parse
begin

text \<open>
  Lemmas on text made of lines of words, for the functions of package strings that take it apart:
  splitting a text into its lines, a line into its words, and trimming a line give back what was
  joined, as long as no word holds a space and no line a newline.
\<close>

definition word_text :: "string \<Rightarrow> bool" where
  "word_text w \<longleftrightarrow> w \<noteq> [] \<and> list_all (\<lambda>c. \<not> is_space c) w"

definition lines_text :: "string list \<Rightarrow> string" where
  "lines_text ls = concat (map (\<lambda>l. l @ [CHR 0x0A]) ls)"

lemma is_space_consts [simp]: "is_space (CHR '' '')" "is_space (CHR 0x0A)"
  by (simp_all add: is_space_def)

lemma fields_aux_word: "list_all (\<lambda>c. \<not> is_space c) w \<Longrightarrow> fields_aux (w @ s) acc = fields_aux s (rev w @ acc)"
  by (induction w arbitrary: acc) auto

lemma Fields_Join: "list_all word_text ws \<Longrightarrow> Fields (Join ws '' '') = ws"
proof (induction ws rule: induct_list012)
  case 1
  then show ?case by (simp add: Fields_def)
next
  case (2 w)
  then show ?case using fields_aux_word [of w "[]" "[]"] by (simp add: Fields_def word_text_def)
next
  case (3 v w ws)
  then have "Fields (Join (w # ws) '' '') = w # ws" by simp
  with 3 show ?case
    using fields_aux_word [of v "CHR '' '' # Join (w # ws) '' ''" "[]"] by (simp add: Fields_def word_text_def)
qed

lemma Join_inj:
  "list_all word_text vs \<Longrightarrow> list_all word_text ws \<Longrightarrow> Join vs '' '' = Join ws '' '' \<longleftrightarrow> vs = ws"
  by (metis Fields_Join)

lemma Fields_words: "list_all word_text (Fields s)"
proof -
  have "list_all (\<lambda>c. \<not> is_space c) acc \<Longrightarrow> list_all word_text (fields_aux s acc)" for acc
    by (induction s arbitrary: acc) (simp_all add: word_text_def)
  then show ?thesis by (simp add: Fields_def)
qed

lemma Split_lines:
  "list_all (\<lambda>l. CHR 0x0A \<notin> set l) ls \<Longrightarrow> Split (lines_text ls @ s) (CHR 0x0A) = ls @ Split s (CHR 0x0A)"
  by (induction ls) (simp_all add: lines_text_def Split_append_sep)

lemma Split_lines_text:
  "list_all (\<lambda>l. CHR 0x0A \<notin> set l) ls \<Longrightarrow> Split (lines_text ls) (CHR 0x0A) = ls @ [[]]"
  using Split_lines [of ls "[]"] by simp

lemma lines_text_append: "lines_text (ls @ ms) = lines_text ls @ lines_text ms"
  by (simp add: lines_text_def)

lemma Fields_empty [simp]: "Fields [] = []"
  by (simp add: Fields_def)

lemma set_Join: "set (Join ws s) \<subseteq> \<Union> (set (map set ws)) \<union> set s"
  by (induction ws s rule: Join.induct) auto

lemma word_no_newline: "word_text w \<Longrightarrow> CHR 0x0A \<notin> set w"
  by (auto simp: word_text_def list_all_iff)

lemma words_no_newline: "list_all word_text ws \<Longrightarrow> CHR 0x0A \<notin> set (Join ws '' '')"
  using set_Join [of ws "'' ''"] word_no_newline by (fastforce simp: list_all_iff)

lemma TrimSpace_Nil [simp]: "TrimSpace [] = []"
  by (simp add: TrimSpace_def)

lemma Join_hd: "ws \<noteq> [] \<Longrightarrow> hd ws \<noteq> [] \<Longrightarrow> hd (Join ws s) = hd (hd ws) \<and> Join ws s \<noteq> []"
  by (induction ws s rule: Join.induct) auto

lemma Join_last: "ws \<noteq> [] \<Longrightarrow> last ws \<noteq> [] \<Longrightarrow> last (Join ws s) = last (last ws) \<and> Join ws s \<noteq> []"
proof (induction ws s rule: Join.induct)
  case (3 v w ws s)
  then have "last (Join (w # ws) s) = last (last (w # ws)) \<and> Join (w # ws) s \<noteq> []" by simp
  then show ?case by simp
qed auto

lemma TrimSpace_words: "ws \<noteq> [] \<Longrightarrow> list_all word_text ws \<Longrightarrow> TrimSpace (Join ws '' '') = Join ws '' ''"
proof -
  assume ws: "ws \<noteq> []" "list_all word_text ws"
  then have h: "word_text (hd ws)" "word_text (last ws)" by (simp_all add: list_all_iff)
  then have "\<not> is_space (hd (hd ws))" "\<not> is_space (last (last ws))" "hd ws \<noteq> []" "last ws \<noteq> []"
    by (auto simp: word_text_def list_all_iff)
  with ws show ?thesis using Join_hd [of ws] Join_last [of ws] by (intro TrimSpace_id) auto
qed

section \<open>Words of printed values\<close>

lemma word_append: "word_text v \<Longrightarrow> list_all (\<lambda>c. \<not> is_space c) w \<Longrightarrow> word_text (v @ w)"
  by (simp add: word_text_def)

lemma digits_word: "word_text (nat_digits n)"
  using nat_digits_is_digit digit_no_space by (simp add: word_text_def list_all_iff)

end
