(* ===== verification/Cron_Names.thy ===== *)
theory Cron_Names
  imports Prelude Go_Text
begin

text \<open>
  Cron expressions as systemd calendar events (\<^verbatim>\<open>src/pkg/cronutil/cronutil.go\<close>) and the names services
  may have (\<^verbatim>\<open>src/pkg/serviceid/serviceid.go\<close>). The lemmas say which names are accepted and what
  becomes of a step in the day-of-month field.
\<close>

section \<open>Cron expressions\<close>

definition dayOfWeekMap :: "string \<rightharpoonup> string" where
  "dayOfWeekMap = map_of [(''0'', ''Sun''), (''1'', ''Mon''), (''2'', ''Tue''), (''3'', ''Wed''), (''4'', ''Thu''), (''5'', ''Fri''),
     (''6'', ''Sat'')]"

record cronSchedule =
  cs_minute :: string
  cs_hour :: string
  cs_dayOfMonth :: string
  cs_month :: string
  cs_dayOfWeek :: string

text \<open>\<^verbatim>\<open>%02s\<close> pads a text with zeros.\<close>

definition pad2 :: "string \<Rightarrow> string" where
  "pad2 s = replicate (2 - length s) (CHR ''0'') @ s"

definition padCronField :: "string \<Rightarrow> string" where
  "padCronField value = (if value = ''*'' then value else pad2 value)"

definition padSingleDigit :: "string \<Rightarrow> string" where
  "padSingleDigit value = (if length value = 1 then ''0'' @ value else value)"

definition normalizeMonth :: "string \<Rightarrow> string" where
  "normalizeMonth month =
     (if month = ''*'' then month else Join (map padSingleDigit (Split month (CHR '',''))) '','')"

definition normalizeDayOfMonth :: "string \<Rightarrow> string \<Rightarrow> string \<times> string" where
  "normalizeDayOfMonth dayOfMonth minute =
     (if HasPrefix dayOfMonth ''*/'' then (''*'', minute @ drop 1 dayOfMonth) else (padCronField dayOfMonth, minute))"

definition day_name :: "string \<Rightarrow> string" where
  "day_name d = (case dayOfWeekMap d of None \<Rightarrow> [] | Some n \<Rightarrow> n)"

definition convertDayOfWeek :: "string \<Rightarrow> string" where
  "convertDayOfWeek dayOfWeek =
     (let range = Split dayOfWeek (CHR ''-'') in
      if Contains dayOfWeek ''-'' \<and> length range = 2 then day_name (range ! 0) @ ''...'' @ day_name (range ! 1)
      else if Contains dayOfWeek '','' then Join (map day_name (Split dayOfWeek (CHR '',''))) '',''
      else case dayOfWeekMap dayOfWeek of Some dow \<Rightarrow> dow | None \<Rightarrow> dayOfWeek)"

definition normalizeDayOfWeek :: "string \<Rightarrow> string" where
  "normalizeDayOfWeek dayOfWeek = (if dayOfWeek = ''*'' then [] else convertDayOfWeek dayOfWeek)"

definition cron_normalize :: "cronSchedule \<Rightarrow> cronSchedule" where
  "cron_normalize s =
     (let minute = padCronField (cs_minute s); dm = normalizeDayOfMonth (cs_dayOfMonth s) minute in
      \<lparr>cs_minute = snd dm, cs_hour = padCronField (cs_hour s), cs_dayOfMonth = fst dm,
       cs_month = normalizeMonth (cs_month s), cs_dayOfWeek = normalizeDayOfWeek (cs_dayOfWeek s)\<rparr>)"

definition cron_calendar :: "cronSchedule \<Rightarrow> string" where
  "cron_calendar s =
     TrimSpace (cs_dayOfWeek s @ '' *-'' @ cs_month s @ ''-'' @ cs_dayOfMonth s @ '' '' @ cs_hour s @ '':'' @ cs_minute s)"

definition CronToCalender :: "string \<Rightarrow> string option" where
  "CronToCalender cron =
     (case Fields cron of
        [minute, hour, dayOfMonth, month, dayOfWeek] \<Rightarrow>
          if Join [minute, hour, dayOfMonth, month, dayOfWeek] '' '' = ''* * * * *'' then Some ''*-*-* *:*:00''
          else Some (cron_calendar (cron_normalize
                 \<lparr>cs_minute = minute, cs_hour = hour, cs_dayOfMonth = dayOfMonth, cs_month = month,
                  cs_dayOfWeek = dayOfWeek\<rparr>))
      | _ \<Rightarrow> None)"

section \<open>Service names\<close>

definition MaxLength :: nat where "MaxLength = 63"

definition isLowerLetter :: "char \<Rightarrow> bool" where
  "isLowerLetter c \<longleftrightarrow> (97::nat) \<le> of_char c \<and> of_char c \<le> (122::nat)"

definition isLowerLetterOrDigit :: "char \<Rightarrow> bool" where
  "isLowerLetterOrDigit c \<longleftrightarrow> isLowerLetter c \<or> (48::nat) \<le> of_char c \<and> of_char c \<le> (57::nat)"

datatype name_err = NameRequired | NameInvalid string

fun validate_chars :: "string \<Rightarrow> string \<Rightarrow> name_err option" where
  "validate_chars name [] = None"
| "validate_chars name (c # s) =
     (if isLowerLetterOrDigit c \<or> c = CHR ''-'' then validate_chars name s else Some (NameInvalid name))"

definition Validate :: "string \<Rightarrow> name_err option" where
  "Validate name =
     (if name = [] then Some NameRequired
      else if length name > MaxLength \<or> \<not> isLowerLetter (hd name) \<or> \<not> isLowerLetterOrDigit (last name)
      then Some (NameInvalid name)
      else validate_chars name name)"

lemma validate_chars_None: "validate_chars name s = None \<longleftrightarrow> (\<forall>c \<in> set s. isLowerLetterOrDigit c \<or> c = CHR ''-'')"
  by (induction s) auto

text \<open>The rules of the package: exactly the DNS labels that start with a letter.\<close>

lemma Validate_None:
  "Validate name = None \<longleftrightarrow>
   name \<noteq> [] \<and> length name \<le> 63 \<and> isLowerLetter (hd name) \<and> isLowerLetterOrDigit (last name) \<and>
   (\<forall>c \<in> set name. isLowerLetterOrDigit c \<or> c = CHR ''-'')"
  by (auto simp: Validate_def MaxLength_def validate_chars_None)

section \<open>Steps in the day of the month\<close>

lemma not_every_minute:
  "list_all word_text fs \<Longrightarrow> fs \<noteq> [''*'', ''*'', ''*'', ''*'', ''*''] \<Longrightarrow> Join fs '' '' \<noteq> ''* * * * *''"
proof
  assume fs: "list_all word_text fs" "fs \<noteq> [''*'', ''*'', ''*'', ''*'', ''*'']" "Join fs '' '' = ''* * * * *''"
  have "Fields ''* * * * *'' = [''*'', ''*'', ''*'', ''*'', ''*'']" by (simp add: Fields_def is_space_def)
  then show False using Fields_Join [OF fs(1)] fs(2,3) by simp
qed

text \<open>The conversion in terms of the fields.\<close>

lemma CronToCalender_fields:
  assumes "list_all word_text [m, h, d, mon, dow]" "[m, h, d, mon, dow] \<noteq> [''*'', ''*'', ''*'', ''*'', ''*'']"
  shows "CronToCalender (Join [m, h, d, mon, dow] '' '') =
    Some (cron_calendar (cron_normalize
      \<lparr>cs_minute = m, cs_hour = h, cs_dayOfMonth = d, cs_month = mon, cs_dayOfWeek = dow\<rparr>))"
  unfolding CronToCalender_def Fields_Join [OF assms(1)] list.case
  by (rule if_not_P [OF not_every_minute [OF assms]])

text \<open>
  A step in the day-of-month field is moved to the minutes: the event made for every n-th
  day is, letter for letter, the one made for every day with that step on the minute field.
\<close>

theorem cron_day_step_moved:
  assumes "list_all word_text [minute, hour, n, month, dow]"
  shows "CronToCalender (Join [minute, hour, ''*/'' @ n, month, dow] '' '') =
    CronToCalender (Join [padCronField minute @ ''/'' @ n, hour, ''*'', month, dow] '' '')"
proof -
  let ?m = "padCronField minute @ ''/'' @ n"
  have c: "\<not> is_space (CHR ''*'')" "\<not> is_space (CHR ''/'')" "\<not> is_space (CHR ''0'')" by (simp_all add: is_space_def)
  have f: "word_text (''*/'' @ n)" "word_text ?m" "word_text ''*''"
    using assms c by (auto simp: word_text_def padCronField_def pad2_def list_all_iff)
  have l2: "2 \<le> length ?m" using assms by (auto simp: word_text_def padCronField_def pad2_def)
  have "?m \<noteq> ''*''"
  proof
    assume "?m = ''*''"
    then have "length ?m = 1" by (simp only:) simp
    then show False using l2 by simp
  qed
  note len = l2 this
  have "CronToCalender (Join [minute, hour, ''*/'' @ n, month, dow] '' '') =
    Some (cron_calendar (cron_normalize \<lparr>cs_minute = minute, cs_hour = hour, cs_dayOfMonth = ''*/'' @ n, cs_month = month,
      cs_dayOfWeek = dow\<rparr>))"
    using assms f by (intro CronToCalender_fields) auto
  moreover have "CronToCalender (Join [?m, hour, ''*'', month, dow] '' '') =
    Some (cron_calendar (cron_normalize \<lparr>cs_minute = ?m, cs_hour = hour, cs_dayOfMonth = ''*'', cs_month = month,
      cs_dayOfWeek = dow\<rparr>))"
    using assms f len(2) by (intro CronToCalender_fields) auto
  moreover have "padCronField ?m = ?m" using len by (simp add: padCronField_def pad2_def)
  ultimately show ?thesis
    by (simp add: cron_normalize_def normalizeDayOfMonth_def Let_def HasPrefix_def padCronField_def [of "''*''"])
qed

theorem cron_day_step_moved_witness:
  "CronToCalender ''0 0 */7 * *'' = CronToCalender ''00/7 0 * * *''"
  using cron_day_step_moved [of "''0''" "''0''" "''7''" "''*''" "''*''"]
  by (simp add: word_text_def is_space_def padCronField_def pad2_def)

end
