(* ===== verification/Iso_Fw_Text.thy ===== *)
theory Iso_Fw_Text
  imports Netip Go_Parse Sha256
begin

text \<open>
  The normalisation of firewall text that \<^verbatim>\<open>src/pkg/netns/iso_firewall.go\<close> digests, for the desired
  policy and for what the tools list of the live one: nft tables, iptables-save output and ipset
  dumps. With it \<^verbatim>\<open>netip.ParseAddr\<close> and \<^verbatim>\<open>netip.ParsePrefix\<close> for both address families, since a token
  is rewritten when it parses as a host prefix.
\<close>

section \<open>Package strings and net/netip\<close>

definition HasSuffix :: "string \<Rightarrow> string \<Rightarrow> bool" where
  "HasSuffix s p \<longleftrightarrow> length p \<le> length s \<and> drop (length s - length p) s = p"

definition TrimSuffix :: "string \<Rightarrow> string \<Rightarrow> string" where
  "TrimSuffix s p = (if HasSuffix s p then take (length s - length p) s else s)"

text \<open>\<^verbatim>\<open>strings.Cut\<close> at a one-byte separator: before, after, found.\<close>

definition cut :: "string \<Rightarrow> char \<Rightarrow> string \<times> string \<times> bool" where
  "cut s d = (takeWhile (\<lambda>c. c \<noteq> d) s, tl (dropWhile (\<lambda>c. c \<noteq> d) s), d \<in> set s)"

definition hex_val :: "char \<Rightarrow> nat option" where
  "hex_val c =
     (let n = (of_char c :: nat) in
      if 48 \<le> n \<and> n \<le> 57 then Some (n - 48)
      else if 97 \<le> n \<and> n \<le> 102 then Some (n - 87)
      else if 65 \<le> n \<and> n \<le> 70 then Some (n - 55)
      else None)"

definition is_hex :: "char \<Rightarrow> bool" where
  "is_hex c \<longleftrightarrow> hex_val c \<noteq> None"

definition hex_number :: "string \<Rightarrow> nat" where
  "hex_number s = foldl (\<lambda>a c. 16 * a + the (hex_val c)) 0 s"

text \<open>
  The loop of \<^verbatim>\<open>parseIPv6\<close>: the groups read so far, where the ellipsis stands among them, and the
  rest of the text; \<open>None\<close> is a parse error.
\<close>

function v6_groups :: "nat list \<Rightarrow> nat option \<Rightarrow> string \<Rightarrow> (nat list \<times> nat option \<times> string) option" where
  "v6_groups gs ell s =
     (if 8 \<le> length gs then Some (gs, ell, s)
      else let hx = takeWhile is_hex s; rest = dropWhile is_hex s in
        if hx = [] \<or> 4 < length hx then None
        else if rest \<noteq> [] \<and> hd rest = CHR ''.'' then
          (if ell = None \<and> length gs \<noteq> 6 \<or> 8 < length gs + 2 then None
           else (case ParseAddr4 s of
                   Some (V4 a) \<Rightarrow> Some (gs @ [unat a div 65536, unat a mod 65536], ell, [])
                 | _ \<Rightarrow> None))
        else let gs' = gs @ [hex_number hx] in
          (case rest of
             [] \<Rightarrow> Some (gs', ell, [])
           | c # s' \<Rightarrow>
               if c \<noteq> CHR '':'' \<or> s' = [] then None
               else if hd s' = CHR '':'' then
                 (if ell \<noteq> None then None
                  else if tl s' = [] then Some (gs', Some (length gs'), [])
                  else v6_groups gs' (Some (length gs')) (tl s'))
               else v6_groups gs' ell s'))"
  by pat_completeness auto
termination
  by (relation "measure (\<lambda>(gs, ell, s). 8 - length gs)") auto

declare v6_groups.simps [simp del]

definition v6_finish :: "nat list \<times> nat option \<times> string \<Rightarrow> 128 word option" where
  "v6_finish r =
     (case r of (gs, ell, s) \<Rightarrow>
        if s \<noteq> [] then None
        else map_option (foldl (\<lambda>w g. w * 65536 + of_nat g) 0)
          (case ell of
             None \<Rightarrow> if length gs < 8 then None else Some gs
           | Some e \<Rightarrow>
               if length gs < 8 then Some (take e gs @ replicate (8 - length gs) 0 @ drop e gs)
               else None))"

definition ParseAddr6 :: "string \<Rightarrow> addr option" where
  "ParseAddr6 s =
     (case cut s (CHR ''%'') of (body, zone, zoned) \<Rightarrow>
        if zoned \<and> zone = [] then None
        else map_option (\<lambda>w. V6 w zone)
          (if HasPrefix body ''::'' then
             (if drop 2 body = [] then Some 0
              else Option.bind (v6_groups [] (Some 0) (drop 2 body)) v6_finish)
           else Option.bind (v6_groups [] None body) v6_finish))"

fun ParseAddr_from :: "string \<Rightarrow> string \<Rightarrow> addr option" where
  "ParseAddr_from s [] = None"
| "ParseAddr_from s (c # cs) =
     (if c = CHR ''.'' then ParseAddr4 s
      else if c = CHR '':'' then ParseAddr6 s
      else if c = CHR ''%'' then None
      else ParseAddr_from s cs)"

definition ParseAddr :: "string \<Rightarrow> addr option" where
  "ParseAddr s = ParseAddr_from s s"

definition ParsePrefix :: "string \<Rightarrow> prefix option" where
  "ParsePrefix s =
     (case rev (Split s (CHR ''/'')) of
        b # a # rest \<Rightarrow>
          (case ParseAddr (Join (rev (a # rest)) ''/'') of
             None \<Rightarrow> None
           | Some ip \<Rightarrow>
               if hasZone ip then None
               else if 1 < length b \<and> (hd b < CHR ''1'' \<or> CHR ''9'' < hd b) then None
               else (case ParseInt64 b of
                       None \<Rightarrow> None
                     | Some n \<Rightarrow> if n < 0 \<or> int (BitLen ip) < n then None else Some (PrefixFrom ip n)))
      | _ \<Rightarrow> None)"

text \<open>A token that parses as a prefix of full length becomes the bare address.\<close>

definition host_token :: "string \<Rightarrow> string option" where
  "host_token s =
     (case ParsePrefix s of
        Some p \<Rightarrow> if Bits p = int (BitLen (p_addr p)) then Some (addr_string (p_addr p)) else None
      | None \<Rightarrow> None)"

section \<open>nft tables\<close>

definition canonicalNFTAddressToken :: "string \<Rightarrow> string" where
  "canonicalNFTAddressToken token =
     (let core = TrimSuffix token '',''; suffix = TrimPrefix token core in
      case host_token core of Some a \<Rightarrow> a @ suffix | None \<Rightarrow> token)"

definition nft_priority_base :: "string \<Rightarrow> int option" where
  "nft_priority_base =
     map_of [(''raw'', -300), (''conntrack'', -200), (''mangle'', -150), (''dstnat'', -100),
             (''filter'', 0), (''security'', 50), (''srcnat'', 100)]"

definition semicolon_if :: "bool \<Rightarrow> string" where
  "semicolon_if b = (if b then '';'' else [])"

text \<open>
  The loop over the indices as recursion over the rest of the fields: after a rewritten priority
  the next field looked at is the number itself.
\<close>

function canonicalNFTPriority :: "string list \<Rightarrow> string list" where
  "canonicalNFTPriority (f # n # rest) =
     (if f \<noteq> ''priority'' then f # canonicalNFTPriority (n # rest)
      else
        (case nft_priority_base (TrimSuffix n '';'') of
           None \<Rightarrow> f # canonicalNFTPriority (n # rest)
         | Some base \<Rightarrow>
             (case rest of
                opr # off # rest' \<Rightarrow>
                  if opr = ''+'' \<or> opr = ''-'' then
                    (case ParseInt64 (TrimSuffix off '';'') of
                       None \<Rightarrow> f # canonicalNFTPriority (n # rest)
                     | Some k \<Rightarrow>
                         f # canonicalNFTPriority
                           ((Itoa (wrap64 (if opr = ''-'' then base - k else base + k)) @
                             semicolon_if (HasSuffix off '';'')) # rest'))
                  else f # canonicalNFTPriority ((Itoa base @ semicolon_if (HasSuffix n '';'')) # rest)
              | _ \<Rightarrow> f # canonicalNFTPriority ((Itoa base @ semicolon_if (HasSuffix n '';'')) # rest))))"
| "canonicalNFTPriority [f] = [f]"
| "canonicalNFTPriority [] = []"
  by pat_completeness auto
termination
  by (relation "measure length") auto

fun nft_tokens :: "string list \<Rightarrow> string list \<Rightarrow> string list" where
  "nft_tokens acc [] = acc"
| "nft_tokens acc (t # ts) =
     (if t = ''handle'' \<and> ts \<noteq> [] then nft_tokens acc (tl ts)
      else let token = TrimSuffix t '';'' in
        if token = [] \<or> token = ''type'' \<and> acc \<noteq> [] \<and> last acc = ''icmp'' then nft_tokens acc ts
        else nft_tokens (acc @ [canonicalNFTAddressToken token]) ts)"

definition canonicalNFTText :: "string \<Rightarrow> string" where
  "canonicalNFTText raw =
     Join (fold (\<lambda>line acc. nft_tokens acc (canonicalNFTPriority (Fields (fst (cut line (CHR ''#''))))))
             (Split raw (CHR 0x0A)) []) '' ''"

section \<open>iptables-save output\<close>

definition canonicalIPTablesToken :: "string \<Rightarrow> string" where
  "canonicalIPTablesToken token = (case host_token token of Some a \<Rightarrow> a | None \<Rightarrow> token)"

fun iptablesProtocol :: "string list \<Rightarrow> string" where
  "iptablesProtocol (f # g # rest) = (if f = ''-p'' then g else iptablesProtocol (g # rest))"
| "iptablesProtocol _ = []"

fun canonicalIPTablesFields :: "string list \<Rightarrow> string \<Rightarrow> string list" where
  "canonicalIPTablesFields [] protocol = []"
| "canonicalIPTablesFields (t # ts) protocol =
     (if t = ''-m'' \<and> ts \<noteq> [] \<and> hd ts = protocol \<and> (protocol = ''tcp'' \<or> protocol = ''udp'')
      then canonicalIPTablesFields (tl ts) protocol
      else if t = ''--ctstate'' \<and> ts \<noteq> []
      then t # Join (sort (Split (hd ts) (CHR '',''))) '','' # canonicalIPTablesFields (tl ts) protocol
      else canonicalIPTablesToken t # canonicalIPTablesFields ts protocol)"

text \<open>The arguments of an option: at most its arity, up to a negation or the next option.\<close>

definition option_args :: "string \<Rightarrow> string list \<Rightarrow> string list" where
  "option_args opt rest =
     takeWhile (\<lambda>f. f \<noteq> ''!'' \<and> \<not> HasPrefix f ''-'') (take (if opt = ''--match-set'' then 2 else 1) rest)"

function match_clauses :: "string list \<Rightarrow> string list" where
  "match_clauses [] = []"
| "match_clauses (f # fs) =
     (if f = ''!'' then
        (case fs of
           [] \<Rightarrow> [''!'']
         | opt # rest \<Rightarrow>
             Join (''!'' # opt # option_args opt rest) '' '' #
             match_clauses (drop (length (option_args opt rest)) rest))
      else
        Join (f # option_args f fs) '' '' # match_clauses (drop (length (option_args f fs)) fs))"
  by pat_completeness auto
termination
  by (relation "measure length") auto

definition canonicalIPTablesMatchClauses :: "string list \<Rightarrow> string list" where
  "canonicalIPTablesMatchClauses fs = sort (match_clauses fs)"

fun slicesIndex :: "string list \<Rightarrow> string \<Rightarrow> int" where
  "slicesIndex [] want = -1"
| "slicesIndex (v # vs) want =
     (if v = want then 0 else let i = slicesIndex vs want in if i < 0 then -1 else i + 1)"

text \<open>
  The callers pass a rule that starts with \<^verbatim>\<open>-A\<close> and a chain name, and no chain is called \<^verbatim>\<open>-j\<close>, so
  the slice between the chain and the jump is never one that panics.
\<close>

definition canonicalIPTablesRule :: "string list \<Rightarrow> string" where
  "canonicalIPTablesRule fs =
     (let normalized = canonicalIPTablesFields fs (iptablesProtocol fs) in
      if length normalized < 2 then Join normalized '' ''
      else
        let j = slicesIndex normalized ''-j'';
            jump = (if j < 0 then length normalized else nat j)
        in Join (take 2 normalized @ canonicalIPTablesMatchClauses (drop 2 (take jump normalized)) @
                 drop jump normalized) '' '')"

definition isISOChainDeclaration :: "string \<Rightarrow> bool" where
  "isISOChainDeclaration line \<longleftrightarrow>
     HasPrefix line '':'' \<and> HasPrefix (TrimPrefix (hd (Fields line)) '':'') ''YEET_ISO_''"

definition isISOBuiltinChain :: "string \<Rightarrow> bool" where
  "isISOBuiltinChain chain \<longleftrightarrow> chain \<in> set [''INPUT'', ''FORWARD'', ''PREROUTING'', ''POSTROUTING'']"

record isoIPTablesCanonicalState =
  cs_table :: string
  cs_tables :: "(string \<times> string list) list"
  cs_builtinRuleIndex :: "(string \<times> nat) list"

definition lines_of :: "(string \<times> 'a list) list \<Rightarrow> string \<Rightarrow> 'a list" where
  "lines_of m k = (case map_of m k of Some ls \<Rightarrow> ls | None \<Rightarrow> [])"

definition append_line :: "string \<Rightarrow> 'a \<Rightarrow> (string \<times> 'a list) list \<Rightarrow> (string \<times> 'a list) list" where
  "append_line k l m = AList.update k (lines_of m k @ [l]) m"

definition rule_index :: "isoIPTablesCanonicalState \<Rightarrow> string \<Rightarrow> nat" where
  "rule_index st key = (case map_of (cs_builtinRuleIndex st) key of Some n \<Rightarrow> n | None \<Rightarrow> 0)"

definition consume :: "string \<Rightarrow> isoIPTablesCanonicalState \<Rightarrow> isoIPTablesCanonicalState" where
  "consume line st =
     (if HasPrefix line ''*'' then st\<lparr>cs_table := line\<rparr>
      else if isISOChainDeclaration line
      then st\<lparr>cs_tables := append_line (cs_table st) (hd (Fields line)) (cs_tables st)\<rparr>
      else if HasPrefix line ''-F YEET_ISO_'' \<or> \<not> HasPrefix line ''-A '' then st
      else let fs = Fields line in
        if length fs < 2 then st
        else
          let chain = fs ! 1;
              key = cs_table st @ [CHR 0x00] @ chain;
              normalized = canonicalIPTablesRule fs @
                (if isISOBuiltinChain chain
                 then '' first='' @ (if rule_index st key = 0 then ''true'' else ''false'') else []);
              tables = (if Contains line ''YEET_ISO_''
                        then append_line (cs_table st) normalized (cs_tables st) else cs_tables st)
          in st\<lparr>cs_tables := tables,
                cs_builtinRuleIndex := AList.update key (Suc (rule_index st key)) (cs_builtinRuleIndex st)\<rparr>)"

definition canonicalIPTablesTable :: "string list \<Rightarrow> string list" where
  "canonicalIPTablesTable ls =
     (let declarations = filter (\<lambda>l. HasPrefix l '':'') ls;
          rules = fold (\<lambda>l m. if length (Fields l) \<ge> 2 \<and> hd (Fields l) = ''-A''
                              then append_line (Fields l ! 1) l m else m)
                    (filter (\<lambda>l. \<not> HasPrefix l '':'') ls) []
      in sort declarations @ concat (map (lines_of rules) (sort (map fst rules))))"

definition canonicalIPTablesText :: "string \<Rightarrow> string" where
  "canonicalIPTablesText raw =
     (let st = fold (\<lambda>l. consume (TrimSpace l)) (Split raw (CHR 0x0A))
                 \<lparr>cs_table = [], cs_tables = [], cs_builtinRuleIndex = []\<rparr>
      in Join (concat (map (\<lambda>t. map (\<lambda>l. t @ '' '' @ l) (canonicalIPTablesTable (lines_of (cs_tables st) t)))
                 [''*raw'', ''*mangle'', ''*nat'', ''*filter''])) [CHR 0x0A])"

section \<open>ipset dumps\<close>

definition isoIPSetSources :: string where "isoIPSetSources = ''yeet_iso_sources''"

definition isoIPSetNonPublic :: string where "isoIPSetNonPublic = ''yeet_iso_nonpublic''"

definition canonicalIPSetAddressToken :: "string \<Rightarrow> string" where
  "canonicalIPSetAddressToken token =
     (case cut token (CHR '','') of (network, iface, hasInterface) \<Rightarrow>
        let network' = (case host_token network of Some a \<Rightarrow> a | None \<Rightarrow> network)
        in if hasInterface then network' @ '','' @ iface else network')"

definition ipset_line :: "string \<Rightarrow> string option" where
  "ipset_line raw =
     (let fs = Fields raw in
      if length fs < 3 \<or> fs ! 1 \<noteq> isoIPSetSources \<and> fs ! 1 \<noteq> isoIPSetNonPublic then None
      else if hd fs = ''create'' then
        (let i = slicesIndex fs ''family'' in
         Some (Join (take 3 fs) '' '' @
               (if 0 \<le> i \<and> nat i + 1 < length fs then '' family '' @ fs ! (nat i + 1) else [])))
      else if hd fs = ''add'' then Some (Join (fs[2 := canonicalIPSetAddressToken (fs ! 2)]) '' '')
      else None)"

definition canonicalISOIPSetText :: "string \<Rightarrow> string" where
  "canonicalISOIPSetText raw = Join (sort (List.map_filter ipset_line (Split raw (CHR 0x0A)))) [CHR 0x0A]"

end
