(* ===== verification/Iso_Firewall.thy ===== *)
theory Iso_Firewall
  imports Iso_Net Iso_Fw_Text
begin

text \<open>
  The host firewall of isolated services, \<^verbatim>\<open>src/pkg/netns/iso_firewall.go\<close>: validation of the policy
  input, the deny list, and the two renderings of the policy, for nft and for iptables with ipset.

  The rendered text is printed from rules: \<open>nft_policy\<close> and \<open>ipt_policy\<close> are the tables the code
  writes, rule by rule in its order, and \<open>nft_table_text\<close>, \<open>ipt_tables_text\<close>, \<open>ipset_text\<close> print them the way
  the code's format strings do. What a rule means for a packet is the documented reading of the
  tools: the first matching rule of a chain decides, \<^verbatim>\<open>RETURN\<close> and the end of a chain leave the
  packet to the caller, a set matches an address that one of its prefixes contains. The lemmas
  compare both renderings with one decision table, \<open>iso_hooks\<close>, and follow a packet through the hooks.
\<close>

section \<open>Policy input\<close>

type_synonym FirewallBackend = string

definition BackendNFT :: FirewallBackend where "BackendNFT = ''nft''"

definition BackendIPTablesNFT :: FirewallBackend where "BackendIPTablesNFT = ''iptables-nft''"

definition BackendIPTablesLegacy :: FirewallBackend where "BackendIPTablesLegacy = ''iptables-legacy''"

definition isoNFTTable :: string where "isoNFTTable = ''yeet_iso''"

definition isoIPTablesMangle :: string where "isoIPTablesMangle = ''YEET_ISO_MANGLE''"

definition isoIPTablesInput :: string where "isoIPTablesInput = ''YEET_ISO_INPUT''"

definition isoIPTablesForward :: string where "isoIPTablesForward = ''YEET_ISO_FORWARD''"

definition isoIPTablesPreRoute :: string where "isoIPTablesPreRoute = ''YEET_ISO_PREROUTE''"

definition isoIPTablesPostRoute :: string where "isoIPTablesPostRoute = ''YEET_ISO_POSTROUTE''"

record ISOEndpoint =
  ep_Interface :: string
  ep_Link :: prefix
  ep_PeerIP :: addr
  ep_Project :: prefix
  ep_Tailscale :: bool

record ISOPolicySpec =
  ps_Pool :: prefix
  ps_DNSPort :: "16 word"
  ps_Endpoints :: "ISOEndpoint list"

record ISOPolicyRules =
  pr_Backend :: FirewallBackend
  pr_IPv4 :: string
  pr_IPv6 :: string
  pr_IPSet :: string
  pr_Decisions :: "string list"
  pr_Digest :: string

datatype iso_fw_err =
    BadPolicyPool
  | DNSPortRequired
  | UnsupportedBackend string
  | PolicyLayout iso_err
  | BadInterface string
  | DuplicateInterface string string
  | DuplicateLink prefix string string
  | DuplicatePeer addr string string
  | DuplicateProject prefix string string
  | BadLink string
  | BadPeer string
  | BadProject string

definition validateISOPolicySpec :: "ISOPolicySpec \<Rightarrow> iso_fw_err + unit" where
  "validateISOPolicySpec spec =
     (let pool = ps_Pool spec in
      if \<not> p_valid pool \<or> \<not> Is4 (p_addr pool) \<or> Bits pool \<noteq> 16 \<or> pool \<noteq> Masked pool then Inl BadPolicyPool
      else if ps_DNSPort spec = 0 then Inl DNSPortRequired
      else Inr ())"

definition isoInterfaceChar :: "char \<Rightarrow> bool" where
  "isoInterfaceChar c \<longleftrightarrow>
     (let n = (of_char c :: nat) in
      65 \<le> n \<and> n \<le> 90 \<or> 97 \<le> n \<and> n \<le> 122 \<or> 48 \<le> n \<and> n \<le> 57 \<or> c = CHR ''_'' \<or> c = CHR ''.'' \<or> c = CHR ''-'')"

definition isoInterfaceNameRE :: "string \<Rightarrow> bool" where
  "isoInterfaceNameRE s \<longleftrightarrow> 1 \<le> length s \<and> length s \<le> 15 \<and> list_all isoInterfaceChar s"

record isoEndpointIdentitySet =
  seen_interfaces :: "(string \<times> string) list"
  seen_links :: "(prefix \<times> string) list"
  seen_peers :: "(addr \<times> string) list"
  seen_projects :: "(prefix \<times> string) list"

definition newISOEndpointIdentitySet :: isoEndpointIdentitySet where
  "newISOEndpointIdentitySet = \<lparr>seen_interfaces = [], seen_links = [], seen_peers = [], seen_projects = []\<rparr>"

definition seen_add :: "isoEndpointIdentitySet \<Rightarrow> ISOEndpoint \<Rightarrow> iso_fw_err + isoEndpointIdentitySet" where
  "seen_add seen ep =
     (let i = ep_Interface ep in
      case map_of (seen_interfaces seen) i of
        Some owner \<Rightarrow> Inl (DuplicateInterface i owner)
      | None \<Rightarrow>
      (case map_of (seen_links seen) (ep_Link ep) of
        Some owner \<Rightarrow> Inl (DuplicateLink (ep_Link ep) owner i)
      | None \<Rightarrow>
      (case map_of (seen_peers seen) (ep_PeerIP ep) of
        Some owner \<Rightarrow> Inl (DuplicatePeer (ep_PeerIP ep) owner i)
      | None \<Rightarrow>
        let seen' = seen\<lparr>seen_interfaces := AList.update i i (seen_interfaces seen),
                         seen_links := AList.update (ep_Link ep) i (seen_links seen),
                         seen_peers := AList.update (ep_PeerIP ep) i (seen_peers seen)\<rparr> in
        if \<not> p_valid (ep_Project ep) then Inr seen'
        else
          (case map_of (seen_projects seen) (ep_Project ep) of
             Some owner \<Rightarrow> Inl (DuplicateProject (ep_Project ep) owner i)
           | None \<Rightarrow> Inr (seen'\<lparr>seen_projects := AList.update (ep_Project ep) i (seen_projects seen)\<rparr>)))))"

definition validateISOEndpointProject :: "Layout \<Rightarrow> ISOEndpoint \<Rightarrow> iso_fw_err + unit" where
  "validateISOEndpointProject layout ep =
     (if \<not> p_valid (ep_Project ep) then Inr ()
      else let project = Masked (ep_Project ep) in
        if \<not> Is4 (p_addr project) \<or> Bits project \<noteq> 27 \<or> ep_Project ep \<noteq> project \<or>
           \<not> p_contains (Projects layout) (p_addr project)
        then Inl (BadProject (ep_Interface ep)) else Inr ())"

definition validateISOEndpointNetwork :: "Layout \<Rightarrow> ISOEndpoint \<Rightarrow> iso_fw_err + unit" where
  "validateISOEndpointNetwork layout ep =
     (let link = Masked (ep_Link ep) in
      if \<not> p_valid link \<or> \<not> Is4 (p_addr link) \<or> Bits link \<noteq> 30 \<or>
         \<not> p_contains (Links layout) (p_addr link) \<or> ep_Link ep \<noteq> link
      then Inl (BadLink (ep_Interface ep))
      else if ep_PeerIP ep \<noteq> Next (Next (p_addr link)) then Inl (BadPeer (ep_Interface ep))
      else validateISOEndpointProject layout ep)"

fun validate_endpoints_loop ::
  "Layout \<Rightarrow> ISOEndpoint list \<Rightarrow> isoEndpointIdentitySet \<Rightarrow> iso_fw_err + unit" where
  "validate_endpoints_loop layout [] seen = Inr ()"
| "validate_endpoints_loop layout (ep # eps) seen =
     (if \<not> isoInterfaceNameRE (ep_Interface ep) then Inl (BadInterface (ep_Interface ep))
      else
        (case validateISOEndpointNetwork layout ep of
           Inl e \<Rightarrow> Inl e
         | Inr _ \<Rightarrow>
             (case seen_add seen ep of
                Inl e \<Rightarrow> Inl e
              | Inr seen' \<Rightarrow> validate_endpoints_loop layout eps seen')))"

definition validateISOEndpoints :: "prefix \<Rightarrow> ISOEndpoint list \<Rightarrow> iso_fw_err + unit" where
  "validateISOEndpoints pool eps =
     (case NewLayout pool of
        Inl e \<Rightarrow> Inl (PolicyLayout e)
      | Inr layout \<Rightarrow> validate_endpoints_loop layout eps newISOEndpointIdentitySet)"

section \<open>The deny list\<close>

fun as4 :: "addr \<Rightarrow> nat list" where
  "as4 (V4 a) = map (octet a) [3, 2, 1, 0]"
| "as4 _ = []"

fun less_octets :: "nat list \<Rightarrow> nat list \<Rightarrow> bool \<Rightarrow> bool" where
  "less_octets (l # ls) (r # rs) tie = (if l \<noteq> r then l < r else less_octets ls rs tie)"
| "less_octets _ _ tie = tie"

definition lessISOPrefix :: "prefix \<Rightarrow> prefix \<Rightarrow> bool" where
  "lessISOPrefix l r = less_octets (as4 (p_addr l)) (as4 (p_addr r)) (Bits l < Bits r)"

definition canonicalISOIPv4Prefixes :: "prefix list \<Rightarrow> prefix list" where
  "canonicalISOIPv4Prefixes ps = filter (\<lambda>p. p_valid p \<and> Is4 (p_addr p)) (map Masked ps)"

definition isoPrefixCovered :: "prefix list \<Rightarrow> prefix \<Rightarrow> bool" where
  "isoPrefixCovered existing candidate \<longleftrightarrow>
     list_ex (\<lambda>e. Bits e \<le> Bits candidate \<and> p_contains e (p_addr candidate)) existing"

definition compactISOPrefixes :: "prefix list \<Rightarrow> prefix list" where
  "compactISOPrefixes ps =
     fold (\<lambda>c out. if isoPrefixCovered out c then out else out @ [c])
       (sort_by lessISOPrefix (canonicalISOIPv4Prefixes ps)) []"

definition prefixStrings :: "prefix list \<Rightarrow> string list" where
  "prefixStrings ps = map (\<lambda>p. prefix_string (Masked p)) ps"

definition iso_non_public :: "ISOPolicySpec \<Rightarrow> prefix list" where
  "iso_non_public spec = compactISOPrefixes (NonPublicIPv4Prefixes (ps_Pool spec))"

definition allowed_sources :: "ISOEndpoint \<Rightarrow> prefix list" where
  "allowed_sources ep =
     PrefixFrom (ep_PeerIP ep) 32 # (if p_valid (ep_Project ep) then [ep_Project ep] else [])"

section \<open>Packets and verdicts\<close>

datatype ct_state = CT_New | CT_Established | CT_Related | CT_Invalid | CT_Untracked

datatype l4proto = L4_TCP | L4_UDP | L4_Other nat

record packet =
  pk_iif :: string
  pk_oif :: string
  pk_src :: "32 word"
  pk_dst :: "32 word"
  pk_proto :: l4proto
  pk_dport :: nat
  pk_ct :: ct_state
  pk_origdport :: nat

datatype verdict = Accept | Drop | Reject | Redirect nat | Masquerade

definition in_prefixes :: "prefix list \<Rightarrow> 32 word \<Rightarrow> bool" where
  "in_prefixes ps a \<longleftrightarrow> list_ex (\<lambda>p. p_contains p (V4 a)) ps"

section \<open>The nft policy\<close>

datatype nft_match =
    Iif_interfaces
  | Oif_interfaces
  | Iif string
  | Ct "ct_state list"
  | Saddr_not_in "prefix list"
  | Saddr prefix
  | Daddr_non_public
  | Daddr_not_non_public
  | Dport l4proto "nat list"
  | Ct_original_dport nat

record nft_rule =
  nr_matches :: "nft_match list"
  nr_verdict :: verdict
  nr_comment :: string

record nft_chain =
  nc_name :: string
  nc_type :: string
  nc_hook :: string
  nc_priority :: int
  nc_rules :: "nft_rule list"

record nft_table =
  nt_family :: string
  nt_interfaces :: "string list"
  nt_non_public :: "prefix list"
  nt_chains :: "nft_chain list"

definition nft_rule_of :: "nft_match list \<Rightarrow> verdict \<Rightarrow> nft_rule" where
  "nft_rule_of ms v = \<lparr>nr_matches = ms, nr_verdict = v, nr_comment = []\<rparr>"

definition established :: "ct_state list" where
  "established = [CT_Established, CT_Related]"

definition nft_ipv4 :: "ISOPolicySpec \<Rightarrow> nft_table" where
  "nft_ipv4 spec =
     (let port = unat (ps_DNSPort spec) in
      \<lparr>nt_family = ''ip'',
       nt_interfaces = map ep_Interface (ps_Endpoints spec),
       nt_non_public = iso_non_public spec,
       nt_chains =
         [\<lparr>nc_name = ''prerouting_mangle'', nc_type = ''filter'', nc_hook = ''prerouting'', nc_priority = -160,
           nc_rules =
             nft_rule_of [Iif_interfaces, Ct [CT_Invalid]] Drop #
             map (\<lambda>ep. nft_rule_of [Iif (ep_Interface ep), Saddr_not_in (allowed_sources ep)] Drop)
               (ps_Endpoints spec)\<rparr>,
          \<lparr>nc_name = ''prerouting_nat'', nc_type = ''nat'', nc_hook = ''prerouting'', nc_priority = -110,
           nc_rules =
             [nft_rule_of [Iif_interfaces, Dport L4_UDP [53]] (Redirect port),
              nft_rule_of [Iif_interfaces, Dport L4_TCP [53]] (Redirect port)]\<rparr>,
          \<lparr>nc_name = ''input'', nc_type = ''filter'', nc_hook = ''input'', nc_priority = -10,
           nc_rules =
             [nft_rule_of [Iif_interfaces, Ct established] Accept,
              nft_rule_of [Iif_interfaces, Dport L4_UDP [port], Ct_original_dport 53] Accept,
              nft_rule_of [Iif_interfaces, Dport L4_TCP [port], Ct_original_dport 53] Accept,
              nft_rule_of [Iif_interfaces] Reject]\<rparr>,
          \<lparr>nc_name = ''forward'', nc_type = ''filter'', nc_hook = ''forward'', nc_priority = -10,
           nc_rules =
             [nft_rule_of [Iif_interfaces, Ct established] Accept,
              nft_rule_of [Iif_interfaces, Dport L4_TCP [53, 853]] Reject,
              nft_rule_of [Iif_interfaces, Dport L4_UDP [53, 853]] Reject,
              nft_rule_of [Iif_interfaces, Daddr_non_public] Reject,
              nft_rule_of [Iif_interfaces, Daddr_not_non_public] Accept,
              nft_rule_of [Iif_interfaces] Reject,
              nft_rule_of [Oif_interfaces, Ct established] Accept,
              nft_rule_of [Oif_interfaces] Reject]\<rparr>,
          \<lparr>nc_name = ''postrouting'', nc_type = ''nat'', nc_hook = ''postrouting'', nc_priority = 90,
           nc_rules =
             [\<lparr>nr_matches = [Saddr (ps_Pool spec), Daddr_not_non_public], nr_verdict = Masquerade,
               nr_comment = '' # MASQUERADE public IPv4 only''\<rparr>]\<rparr>]\<rparr>)"

definition nft_ipv6 :: "ISOPolicySpec \<Rightarrow> nft_table" where
  "nft_ipv6 spec =
     \<lparr>nt_family = ''ip6'',
      nt_interfaces = map ep_Interface (ps_Endpoints spec),
      nt_non_public = [],
      nt_chains =
        [\<lparr>nc_name = ''input'', nc_type = ''filter'', nc_hook = ''input'', nc_priority = -10,
          nc_rules = [nft_rule_of [Iif_interfaces] Drop]\<rparr>,
         \<lparr>nc_name = ''forward'', nc_type = ''filter'', nc_hook = ''forward'', nc_priority = -10,
          nc_rules = [nft_rule_of [Iif_interfaces] Drop, nft_rule_of [Oif_interfaces] Drop]\<rparr>]\<rparr>"

section \<open>The iptables policy\<close>

datatype ipt_match =
    In_if string
  | Out_if string
  | Src prefix
  | Ctstate "ct_state list"
  | Ctorigdstport nat
  | Set_src_iface string
  | Set_dst string
  | Not_set_dst string
  | P_dport l4proto nat
  | P_dports l4proto "nat list"

datatype ipt_target = To verdict | Return | Jump string

record ipt_rule =
  ir_chain :: string
  ir_matches :: "ipt_match list"
  ir_target :: ipt_target

record ipt_table =
  it_name :: string
  it_chains :: "string list"
  it_rules :: "ipt_rule list"

text \<open>The sets, each with its type and its entries: a prefix, and an interface for \<^verbatim>\<open>hash:net,iface\<close>.\<close>

record ip_set =
  is_name :: string
  is_type :: string
  is_entries :: "(prefix \<times> string option) list"

definition rule :: "string \<Rightarrow> ipt_match list \<Rightarrow> ipt_target \<Rightarrow> ipt_rule" where
  "rule c ms t = \<lparr>ir_chain = c, ir_matches = ms, ir_target = t\<rparr>"

definition isoIPSetEndpoint :: "ISOEndpoint \<Rightarrow> (prefix \<times> string option) list" where
  "isoIPSetEndpoint ep =
     (PrefixFrom (ep_PeerIP ep) 32, Some (ep_Interface ep)) #
     (if p_valid (ep_Project ep) then [(ep_Project ep, Some (ep_Interface ep))] else [])"

definition ipt_sets :: "ISOPolicySpec \<Rightarrow> ip_set list" where
  "ipt_sets spec =
     [\<lparr>is_name = isoIPSetSources, is_type = ''hash:net,iface'',
       is_entries = concat (map isoIPSetEndpoint (ps_Endpoints spec))\<rparr>,
      \<lparr>is_name = isoIPSetNonPublic, is_type = ''hash:net'',
       is_entries = map (\<lambda>p. (Masked p, None)) (iso_non_public spec)\<rparr>]"

definition ipt_mangle_rules :: "ISOEndpoint \<Rightarrow> ipt_rule list" where
  "ipt_mangle_rules ep =
     (let i = ep_Interface ep in
      [rule isoIPTablesMangle [In_if i, Ctstate [CT_Invalid]] (To Drop),
       rule isoIPTablesMangle [In_if i, Set_src_iface isoIPSetSources] Return,
       rule isoIPTablesMangle [In_if i] (To Drop)])"

definition ipt_preroute_rules :: "nat \<Rightarrow> ISOEndpoint \<Rightarrow> ipt_rule list" where
  "ipt_preroute_rules port ep =
     (let i = ep_Interface ep in
      [rule isoIPTablesPreRoute [In_if i, P_dport L4_UDP 53] (To (Redirect port)),
       rule isoIPTablesPreRoute [In_if i, P_dport L4_TCP 53] (To (Redirect port))])"

definition ipt_input_rules :: "nat \<Rightarrow> ISOEndpoint \<Rightarrow> ipt_rule list" where
  "ipt_input_rules port ep =
     (let i = ep_Interface ep in
      [rule isoIPTablesInput [In_if i, Ctstate established] (To Accept),
       rule isoIPTablesInput [In_if i, P_dport L4_UDP port, Ctorigdstport 53] (To Accept),
       rule isoIPTablesInput [In_if i, P_dport L4_TCP port, Ctorigdstport 53] (To Accept),
       rule isoIPTablesInput [In_if i] (To Reject)])"

definition ipt_forward_in_rules :: "ISOEndpoint \<Rightarrow> ipt_rule list" where
  "ipt_forward_in_rules ep =
     (let i = ep_Interface ep in
      [rule isoIPTablesForward [In_if i, Ctstate established] (To Accept),
       rule isoIPTablesForward [In_if i, P_dports L4_TCP [53, 853]] (To Reject),
       rule isoIPTablesForward [In_if i, P_dports L4_UDP [53, 853]] (To Reject),
       rule isoIPTablesForward [In_if i, Set_dst isoIPSetNonPublic] (To Reject),
       rule isoIPTablesForward [In_if i, Not_set_dst isoIPSetNonPublic] (To Accept),
       rule isoIPTablesForward [In_if i] (To Reject)])"

definition ipt_forward_out_rules :: "ISOEndpoint \<Rightarrow> ipt_rule list" where
  "ipt_forward_out_rules ep =
     (let i = ep_Interface ep in
      [rule isoIPTablesForward [Out_if i, Ctstate established] (To Accept),
       rule isoIPTablesForward [Out_if i] (To Reject)])"

definition ipt_ipv4 :: "ISOPolicySpec \<Rightarrow> ipt_table list" where
  "ipt_ipv4 spec =
     (let eps = ps_Endpoints spec; port = unat (ps_DNSPort spec) in
      [\<lparr>it_name = ''mangle'', it_chains = [isoIPTablesMangle],
        it_rules = rule ''PREROUTING'' [] (Jump isoIPTablesMangle) # concat (map ipt_mangle_rules eps)\<rparr>,
       \<lparr>it_name = ''nat'', it_chains = [isoIPTablesPreRoute, isoIPTablesPostRoute],
        it_rules =
          [rule ''PREROUTING'' [] (Jump isoIPTablesPreRoute), rule ''POSTROUTING'' [] (Jump isoIPTablesPostRoute)] @
          concat (map (ipt_preroute_rules port) eps) @
          [rule isoIPTablesPostRoute [Src (ps_Pool spec), Not_set_dst isoIPSetNonPublic] (To Masquerade)]\<rparr>,
       \<lparr>it_name = ''filter'', it_chains = [isoIPTablesInput, isoIPTablesForward],
        it_rules =
          [rule ''INPUT'' [] (Jump isoIPTablesInput), rule ''FORWARD'' [] (Jump isoIPTablesForward)] @
          concat (map (\<lambda>ep. ipt_input_rules port ep @ ipt_forward_in_rules ep) eps) @
          concat (map ipt_forward_out_rules eps)\<rparr>])"

definition ipt_ipv6_rules :: "ISOEndpoint \<Rightarrow> ipt_rule list" where
  "ipt_ipv6_rules ep =
     (let i = ep_Interface ep in
      [rule isoIPTablesInput [In_if i] (To Drop),
       rule isoIPTablesForward [In_if i] (To Drop),
       rule isoIPTablesForward [Out_if i] (To Drop)])"

definition ipt_ipv6 :: "ISOPolicySpec \<Rightarrow> ipt_table list" where
  "ipt_ipv6 spec =
     [\<lparr>it_name = ''filter'', it_chains = [isoIPTablesInput, isoIPTablesForward],
       it_rules =
         [rule ''INPUT'' [] (Jump isoIPTablesInput), rule ''FORWARD'' [] (Jump isoIPTablesForward)] @
         concat (map ipt_ipv6_rules (ps_Endpoints spec))\<rparr>]"

section \<open>The text of a policy\<close>

definition nl :: string where "nl = [CHR 0x0A]"

text \<open>\<^verbatim>\<open>%q\<close> of a name that matches \<open>isoInterfaceNameRE\<close>: nothing in it needs an escape.\<close>

definition quoted :: "string \<Rightarrow> string" where
  "quoted s = [CHR 0x22] @ s @ [CHR 0x22]"

fun l4_text :: "l4proto \<Rightarrow> string" where
  "l4_text L4_TCP = ''tcp''"
| "l4_text L4_UDP = ''udp''"
| "l4_text (L4_Other n) = nat_digits n"

fun ct_text :: "ct_state \<Rightarrow> string" where
  "ct_text CT_New = ''new''"
| "ct_text CT_Established = ''established''"
| "ct_text CT_Related = ''related''"
| "ct_text CT_Invalid = ''invalid''"
| "ct_text CT_Untracked = ''untracked''"

fun ct_option :: "ct_state \<Rightarrow> string" where
  "ct_option CT_New = ''NEW''"
| "ct_option CT_Established = ''ESTABLISHED''"
| "ct_option CT_Related = ''RELATED''"
| "ct_option CT_Invalid = ''INVALID''"
| "ct_option CT_Untracked = ''UNTRACKED''"

definition nft_set_of :: "string list \<Rightarrow> string" where
  "nft_set_of xs = ''{ '' @ Join xs '', '' @ '' }''"

fun nft_match_text :: "nft_match \<Rightarrow> string" where
  "nft_match_text Iif_interfaces = ''iifname @interfaces''"
| "nft_match_text Oif_interfaces = ''oifname @interfaces''"
| "nft_match_text (Iif i) = ''iifname '' @ quoted i"
| "nft_match_text (Ct ss) = ''ct state '' @ Join (map ct_text ss) '',''"
| "nft_match_text (Saddr_not_in ps) = ''ip saddr != '' @ nft_set_of (map prefix_string ps)"
| "nft_match_text (Saddr p) = ''ip saddr '' @ prefix_string p"
| "nft_match_text Daddr_non_public = ''ip daddr @non_public''"
| "nft_match_text Daddr_not_non_public = ''ip daddr != @non_public''"
| "nft_match_text (Dport pr [n]) = l4_text pr @ '' dport '' @ nat_digits n"
| "nft_match_text (Dport pr ns) = l4_text pr @ '' dport '' @ nft_set_of (map nat_digits ns)"
| "nft_match_text (Ct_original_dport n) = ''ct original proto-dst '' @ nat_digits n"

fun nft_verdict_text :: "verdict \<Rightarrow> string" where
  "nft_verdict_text Accept = ''accept''"
| "nft_verdict_text Drop = ''drop''"
| "nft_verdict_text Reject = ''reject with icmp type admin-prohibited''"
| "nft_verdict_text (Redirect n) = ''redirect to :'' @ nat_digits n"
| "nft_verdict_text Masquerade = ''masquerade''"

definition nft_rule_text :: "nft_rule \<Rightarrow> string" where
  "nft_rule_text r =
     Join (map nft_match_text (nr_matches r) @ [nft_verdict_text (nr_verdict r)]) '' '' @ nr_comment r"

definition nft_chain_head :: "nft_chain \<Rightarrow> string" where
  "nft_chain_head c =
     ''  chain '' @ nc_name c @ '' { type '' @ nc_type c @ '' hook '' @ nc_hook c @ '' priority '' @
     Itoa (nc_priority c) @ ''; policy accept;''"

definition nft_chain_text :: "nft_chain \<Rightarrow> string" where
  "nft_chain_text c =
     nft_chain_head c @ nl @ concat (map (\<lambda>r. ''    '' @ nft_rule_text r @ nl) (nc_rules c)) @ ''  }'' @ nl"

definition nft_chain_line :: "nft_chain \<Rightarrow> string" where
  "nft_chain_line c =
     nft_chain_head c @ concat (map (\<lambda>r. '' '' @ nft_rule_text r @ '';'') (nc_rules c)) @ '' }'' @ nl"

definition nftQuotedInterfaces :: "string list \<Rightarrow> string list" where
  "nftQuotedInterfaces is = map quoted is"

definition writeNFTInterfaceSet :: "string list \<Rightarrow> string" where
  "writeNFTInterfaceSet interfaces =
     (if interfaces = [] then ''  set interfaces { type ifname; }'' @ nl
      else ''  set interfaces { type ifname; elements = '' @ nft_set_of interfaces @ '' }'' @ nl)"

definition nft_table_head :: "nft_table \<Rightarrow> string" where
  "nft_table_head t =
     ''table '' @ nt_family t @ '' '' @ isoNFTTable @ '' {'' @ nl @
     writeNFTInterfaceSet (nftQuotedInterfaces (nt_interfaces t))"

definition nft_ipv4_text :: "nft_table \<Rightarrow> string" where
  "nft_ipv4_text t =
     nft_table_head t @
     ''  set non_public { type ipv4_addr; flags interval; elements = '' @
       nft_set_of (prefixStrings (nt_non_public t)) @ '' }'' @ nl @
     concat (map nft_chain_text (nt_chains t)) @ ''}'' @ nl"

definition nft_ipv6_text :: "nft_table \<Rightarrow> string" where
  "nft_ipv6_text t = nft_table_head t @ concat (map nft_chain_line (nt_chains t)) @ ''}'' @ nl"

fun ipt_match_text :: "ipt_match \<Rightarrow> string" where
  "ipt_match_text (In_if i) = ''-i '' @ i"
| "ipt_match_text (Out_if i) = ''-o '' @ i"
| "ipt_match_text (Src p) = ''-s '' @ prefix_string p"
| "ipt_match_text (Ctstate ss) = ''-m conntrack --ctstate '' @ Join (map ct_option ss) '',''"
| "ipt_match_text (Ctorigdstport n) = ''-m conntrack --ctorigdstport '' @ nat_digits n"
| "ipt_match_text (Set_src_iface s) = ''-m set --match-set '' @ s @ '' src,src''"
| "ipt_match_text (Set_dst s) = ''-m set --match-set '' @ s @ '' dst''"
| "ipt_match_text (Not_set_dst s) = ''-m set ! --match-set '' @ s @ '' dst''"
| "ipt_match_text (P_dport pr n) = ''-p '' @ l4_text pr @ '' --dport '' @ nat_digits n"
| "ipt_match_text (P_dports pr ns) =
     ''-p '' @ l4_text pr @ '' -m multiport --dports '' @ Join (map nat_digits ns) '',''"

fun ipt_target_text :: "ipt_target \<Rightarrow> string" where
  "ipt_target_text (To Accept) = ''ACCEPT''"
| "ipt_target_text (To Drop) = ''DROP''"
| "ipt_target_text (To Reject) = ''REJECT --reject-with icmp-admin-prohibited''"
| "ipt_target_text (To (Redirect n)) = ''REDIRECT --to-ports '' @ nat_digits n"
| "ipt_target_text (To Masquerade) = ''MASQUERADE''"
| "ipt_target_text Return = ''RETURN''"
| "ipt_target_text (Jump c) = c"

definition ipt_rule_text :: "ipt_rule \<Rightarrow> string" where
  "ipt_rule_text r =
     Join ((''-A '' @ ir_chain r) # map ipt_match_text (ir_matches r) @ [''-j '' @ ipt_target_text (ir_target r)]) '' ''"

definition ipt_table_text :: "ipt_table \<Rightarrow> string" where
  "ipt_table_text t =
     ''*'' @ it_name t @ nl @
     concat (map (\<lambda>c. '':'' @ c @ '' - [0:0]'' @ nl) (it_chains t)) @
     concat (map (\<lambda>c. ''-F '' @ c @ nl) (it_chains t)) @
     concat (map (\<lambda>r. ipt_rule_text r @ nl) (it_rules t)) @ ''COMMIT'' @ nl"

definition ipt_tables_text :: "ipt_table list \<Rightarrow> string" where
  "ipt_tables_text ts = concat (map ipt_table_text ts)"

definition writeIPTablesISOEndpointComment :: "ISOEndpoint \<Rightarrow> string" where
  "writeIPTablesISOEndpointComment ep =
     ''# ISO endpoint '' @ ep_Interface ep @ '' source '' @ prefix_string (PrefixFrom (ep_PeerIP ep) 32) @
     (if p_valid (ep_Project ep) then '' project '' @ prefix_string (ep_Project ep) else []) @ nl"

definition ipt_comments :: "ISOPolicySpec \<Rightarrow> string" where
  "ipt_comments spec =
     concat (map writeIPTablesISOEndpointComment (ps_Endpoints spec)) @
     ''# ISO non-public destinations '' @ Join (prefixStrings (iso_non_public spec)) '','' @ nl"

fun ipset_entry_text :: "prefix \<times> string option \<Rightarrow> string" where
  "ipset_entry_text (p, Some i) = prefix_string p @ '','' @ i"
| "ipset_entry_text (p, None) = prefix_string p"

definition ipset_set_text :: "ip_set \<Rightarrow> string" where
  "ipset_set_text s =
     ''create '' @ is_name s @ '' '' @ is_type s @ '' family inet'' @ nl @
     concat (map (\<lambda>e. ''add '' @ is_name s @ '' '' @ ipset_entry_text e @ nl) (is_entries s))"

definition ipset_text :: "ip_set list \<Rightarrow> string" where
  "ipset_text ss = concat (map ipset_set_text ss)"

section \<open>Rendering\<close>

definition canonicalISOFirewallText :: "FirewallBackend \<Rightarrow> string \<Rightarrow> string" where
  "canonicalISOFirewallText backend raw =
     (if backend = BackendNFT then canonicalNFTText raw else canonicalIPTablesText raw)"

definition digestISOPolicy :: "ISOPolicyRules \<Rightarrow> string" where
  "digestISOPolicy rules =
     EncodeToString (Sum256 (string_bytes
       (Join [pr_Backend rules,
              canonicalISOFirewallText (pr_Backend rules) (pr_IPv4 rules),
              canonicalISOFirewallText (pr_Backend rules) (pr_IPv6 rules),
              canonicalISOIPSetText (pr_IPSet rules)] [CHR 0x00])))"

definition renderNFTISOPolicy :: "ISOPolicySpec \<Rightarrow> ISOPolicyRules" where
  "renderNFTISOPolicy spec =
     \<lparr>pr_Backend = [], pr_IPv4 = nft_ipv4_text (nft_ipv4 spec), pr_IPv6 = nft_ipv6_text (nft_ipv6 spec),
      pr_IPSet = [], pr_Decisions = [], pr_Digest = []\<rparr>"

definition renderIPTablesISOPolicy :: "FirewallBackend \<Rightarrow> ISOPolicySpec \<Rightarrow> ISOPolicyRules" where
  "renderIPTablesISOPolicy backend spec =
     \<lparr>pr_Backend = backend, pr_IPv4 = ipt_comments spec @ ipt_tables_text (ipt_ipv4 spec),
      pr_IPv6 = ipt_tables_text (ipt_ipv6 spec), pr_IPSet = ipset_text (ipt_sets spec),
      pr_Decisions = [], pr_Digest = []\<rparr>"

definition renderISOPolicyBackend :: "FirewallBackend \<Rightarrow> ISOPolicySpec \<Rightarrow> iso_fw_err + ISOPolicyRules" where
  "renderISOPolicyBackend backend spec =
     (if backend = BackendNFT then Inr (renderNFTISOPolicy spec)
      else if backend = BackendIPTablesNFT \<or> backend = BackendIPTablesLegacy
      then Inr (renderIPTablesISOPolicy backend spec)
      else Inl (UnsupportedBackend backend))"

definition iso_decisions :: "string list" where
  "iso_decisions =
     [''drop-invalid'', ''drop-spoof'', ''accept-established'', ''accept-iso-dns'',
      ''reject-new-host-access'', ''reject-direct-dns'', ''reject-non-public'',
      ''accept-public'', ''reject-rest'', ''masquerade-public'', ''drop-ipv6'']"

definition less_interface :: "ISOEndpoint \<Rightarrow> ISOEndpoint \<Rightarrow> bool" where
  "less_interface a b \<longleftrightarrow> ep_Interface a < ep_Interface b"

definition sorted_spec :: "ISOPolicySpec \<Rightarrow> ISOPolicySpec" where
  "sorted_spec spec = spec\<lparr>ps_Endpoints := sort_by less_interface (ps_Endpoints spec)\<rparr>"

definition RenderISOPolicy :: "FirewallBackend \<Rightarrow> ISOPolicySpec \<Rightarrow> iso_fw_err + ISOPolicyRules" where
  "RenderISOPolicy backend spec =
     (case validateISOPolicySpec spec of
        Inl e \<Rightarrow> Inl e
      | Inr _ \<Rightarrow>
        (case validateISOEndpoints (ps_Pool spec) (ps_Endpoints spec) of
           Inl e \<Rightarrow> Inl e
         | Inr _ \<Rightarrow>
           (case renderISOPolicyBackend backend (sorted_spec spec) of
              Inl e \<Rightarrow> Inl e
            | Inr rules \<Rightarrow>
                let rules' = rules\<lparr>pr_Backend := backend, pr_Decisions := iso_decisions\<rparr>
                in Inr (rules'\<lparr>pr_Digest := digestISOPolicy rules'\<rparr>))))"

section \<open>What the rules do to a packet\<close>

fun nft_matches :: "nft_table \<Rightarrow> packet \<Rightarrow> nft_match \<Rightarrow> bool" where
  "nft_matches t p Iif_interfaces = (pk_iif p \<in> set (nt_interfaces t))"
| "nft_matches t p Oif_interfaces = (pk_oif p \<in> set (nt_interfaces t))"
| "nft_matches t p (Iif i) = (pk_iif p = i)"
| "nft_matches t p (Ct ss) = (pk_ct p \<in> set ss)"
| "nft_matches t p (Saddr_not_in ps) = (\<not> in_prefixes ps (pk_src p))"
| "nft_matches t p (Saddr q) = p_contains q (V4 (pk_src p))"
| "nft_matches t p Daddr_non_public = in_prefixes (map Masked (nt_non_public t)) (pk_dst p)"
| "nft_matches t p Daddr_not_non_public = (\<not> in_prefixes (map Masked (nt_non_public t)) (pk_dst p))"
| "nft_matches t p (Dport pr ns) = (pk_proto p = pr \<and> pk_dport p \<in> set ns)"
| "nft_matches t p (Ct_original_dport n) = (pk_origdport p = n)"

fun nft_run :: "nft_table \<Rightarrow> packet \<Rightarrow> nft_rule list \<Rightarrow> verdict option" where
  "nft_run t p [] = None"
| "nft_run t p (r # rs) =
     (if list_all (nft_matches t p) (nr_matches r) then Some (nr_verdict r) else nft_run t p rs)"

text \<open>The verdict of the base chain of a type and a hook; without one its policy accepts: no decision.\<close>

definition nft_decide :: "nft_table \<Rightarrow> string \<Rightarrow> string \<Rightarrow> packet \<Rightarrow> verdict option" where
  "nft_decide t type hook p =
     (case find (\<lambda>c. nc_type c = type \<and> nc_hook c = hook) (nt_chains t) of
        Some c \<Rightarrow> nft_run t p (nc_rules c)
      | None \<Rightarrow> None)"

definition set_entries :: "ip_set list \<Rightarrow> string \<Rightarrow> (prefix \<times> string option) list" where
  "set_entries sets n = concat (map is_entries (filter (\<lambda>s. is_name s = n) sets))"

definition in_set_dst :: "ip_set list \<Rightarrow> packet \<Rightarrow> string \<Rightarrow> bool" where
  "in_set_dst sets p n \<longleftrightarrow> list_ex (\<lambda>(q, i). p_contains q (V4 (pk_dst p))) (set_entries sets n)"

fun ipt_matches :: "ip_set list \<Rightarrow> packet \<Rightarrow> ipt_match \<Rightarrow> bool" where
  "ipt_matches sets p (In_if i) = (pk_iif p = i)"
| "ipt_matches sets p (Out_if i) = (pk_oif p = i)"
| "ipt_matches sets p (Src q) = p_contains q (V4 (pk_src p))"
| "ipt_matches sets p (Ctstate ss) = (pk_ct p \<in> set ss)"
| "ipt_matches sets p (Ctorigdstport n) = (pk_origdport p = n)"
| "ipt_matches sets p (Set_src_iface n) =
     list_ex (\<lambda>(q, i). p_contains q (V4 (pk_src p)) \<and> i = Some (pk_iif p)) (set_entries sets n)"
| "ipt_matches sets p (Set_dst n) = in_set_dst sets p n"
| "ipt_matches sets p (Not_set_dst n) = (\<not> in_set_dst sets p n)"
| "ipt_matches sets p (P_dport pr n) = (pk_proto p = pr \<and> pk_dport p = n)"
| "ipt_matches sets p (P_dports pr ns) = (pk_proto p = pr \<and> pk_dport p \<in> set ns)"

text \<open>
  A chain of a table, \<open>depth\<close> bounding the nesting of jumps; the policy never jumps from a chain it
  owns, so one jump out of a built-in chain and then a chain without jumps, depth two, is all there is.
\<close>

fun ipt_run :: "nat \<Rightarrow> ip_set list \<Rightarrow> ipt_table \<Rightarrow> packet \<Rightarrow> ipt_rule list \<Rightarrow> verdict option" where
  "ipt_run depth sets t p [] = None"
| "ipt_run 0 sets t p (r # rs) = None"
| "ipt_run (Suc depth) sets t p (r # rs) =
     (if list_all (ipt_matches sets p) (ir_matches r) then
        (case ir_target r of
           To v \<Rightarrow> Some v
         | Return \<Rightarrow> None
         | Jump c \<Rightarrow>
             (case ipt_run depth sets t p (filter (\<lambda>r. ir_chain r = c) (it_rules t)) of
                Some v \<Rightarrow> Some v
              | None \<Rightarrow> ipt_run (Suc depth) sets t p rs))
      else ipt_run (Suc depth) sets t p rs)"

definition ipt_decide :: "ip_set list \<Rightarrow> ipt_table list \<Rightarrow> string \<Rightarrow> string \<Rightarrow> packet \<Rightarrow> verdict option" where
  "ipt_decide sets ts table chain p =
     (case find (\<lambda>t. it_name t = table) ts of
        Some t \<Rightarrow> ipt_run 2 sets t p (filter (\<lambda>r. ir_chain r = chain) (it_rules t))
      | None \<Rightarrow> None)"

text \<open>The five places of the IPv4 policy and the two of the IPv6 policy, in the order of the hooks.\<close>

record hooks =
  h_mangle :: "packet \<Rightarrow> verdict option"
  h_prenat :: "packet \<Rightarrow> verdict option"
  h_input :: "packet \<Rightarrow> verdict option"
  h_forward :: "packet \<Rightarrow> verdict option"
  h_postnat :: "packet \<Rightarrow> verdict option"
  h_input6 :: "packet \<Rightarrow> verdict option"
  h_forward6 :: "packet \<Rightarrow> verdict option"

definition nft_hooks :: "ISOPolicySpec \<Rightarrow> hooks" where
  "nft_hooks spec =
     \<lparr>h_mangle = nft_decide (nft_ipv4 spec) ''filter'' ''prerouting'',
      h_prenat = nft_decide (nft_ipv4 spec) ''nat'' ''prerouting'',
      h_input = nft_decide (nft_ipv4 spec) ''filter'' ''input'',
      h_forward = nft_decide (nft_ipv4 spec) ''filter'' ''forward'',
      h_postnat = nft_decide (nft_ipv4 spec) ''nat'' ''postrouting'',
      h_input6 = nft_decide (nft_ipv6 spec) ''filter'' ''input'',
      h_forward6 = nft_decide (nft_ipv6 spec) ''filter'' ''forward''\<rparr>"

definition ipt_hooks :: "ISOPolicySpec \<Rightarrow> hooks" where
  "ipt_hooks spec =
     (let sets = ipt_sets spec; t4 = ipt_ipv4 spec; t6 = ipt_ipv6 spec in
      \<lparr>h_mangle = ipt_decide sets t4 ''mangle'' ''PREROUTING'',
       h_prenat = ipt_decide sets t4 ''nat'' ''PREROUTING'',
       h_input = ipt_decide sets t4 ''filter'' ''INPUT'',
       h_forward = ipt_decide sets t4 ''filter'' ''FORWARD'',
       h_postnat = ipt_decide sets t4 ''nat'' ''POSTROUTING'',
       h_input6 = ipt_decide sets t6 ''filter'' ''INPUT'',
       h_forward6 = ipt_decide sets t6 ''filter'' ''FORWARD''\<rparr>)"

section \<open>One decision table for both\<close>

text \<open>What the policy is meant to do with a packet at each hook.\<close>

definition iso_side :: "ISOPolicySpec \<Rightarrow> string \<Rightarrow> bool" where
  "iso_side spec i \<longleftrightarrow> i \<in> set (map ep_Interface (ps_Endpoints spec))"

definition own_source :: "ISOPolicySpec \<Rightarrow> packet \<Rightarrow> bool" where
  "own_source spec p \<longleftrightarrow>
     (\<exists>ep \<in> set (ps_Endpoints spec). ep_Interface ep = pk_iif p \<and> in_prefixes (allowed_sources ep) (pk_src p))"

definition non_public_dst :: "ISOPolicySpec \<Rightarrow> packet \<Rightarrow> bool" where
  "non_public_dst spec p \<longleftrightarrow> in_prefixes (map Masked (iso_non_public spec)) (pk_dst p)"

definition to_ports :: "packet \<Rightarrow> nat list \<Rightarrow> bool" where
  "to_ports p ns \<longleftrightarrow> pk_proto p \<in> {L4_TCP, L4_UDP} \<and> pk_dport p \<in> set ns"

definition known_flow :: "packet \<Rightarrow> bool" where
  "known_flow p \<longleftrightarrow> pk_ct p \<in> {CT_Established, CT_Related}"

definition iso_hooks :: "ISOPolicySpec \<Rightarrow> hooks" where
  "iso_hooks spec =
     (let port = unat (ps_DNSPort spec) in
      \<lparr>h_mangle = (\<lambda>p. if \<not> iso_side spec (pk_iif p) then None
                      else if pk_ct p = CT_Invalid \<or> \<not> own_source spec p then Some Drop else None),
       h_prenat = (\<lambda>p. if iso_side spec (pk_iif p) \<and> to_ports p [53] then Some (Redirect port) else None),
       h_input = (\<lambda>p. if \<not> iso_side spec (pk_iif p) then None
                     else if known_flow p \<or> to_ports p [port] \<and> pk_origdport p = 53 then Some Accept
                     else Some Reject),
       h_forward = (\<lambda>p. if iso_side spec (pk_iif p) then
                          (if known_flow p then Some Accept
                           else if to_ports p [53, 853] \<or> non_public_dst spec p then Some Reject
                           else Some Accept)
                        else if iso_side spec (pk_oif p) then
                          (if known_flow p then Some Accept else Some Reject)
                        else None),
       h_postnat = (\<lambda>p. if p_contains (ps_Pool spec) (V4 (pk_src p)) \<and> \<not> non_public_dst spec p
                       then Some Masquerade else None),
       h_input6 = (\<lambda>p. if iso_side spec (pk_iif p) then Some Drop else None),
       h_forward6 = (\<lambda>p. if iso_side spec (pk_iif p) \<or> iso_side spec (pk_oif p) then Some Drop else None)\<rparr>)"

lemmas flow_defs = iso_side_def known_flow_def to_ports_def established_def non_public_dst_def

section \<open>The nft policy implements the table\<close>

lemma nft_spoof_rules:
  assumes "distinct (map ep_Interface eps)"
  shows "nft_run t p (map (\<lambda>ep. nft_rule_of [Iif (ep_Interface ep), Saddr_not_in (allowed_sources ep)] Drop) eps) =
    (if pk_iif p \<in> set (map ep_Interface eps) \<and>
        \<not> (\<exists>ep \<in> set eps. ep_Interface ep = pk_iif p \<and> in_prefixes (allowed_sources ep) (pk_src p))
     then Some Drop else None)"
  using assms by (induction eps) (auto simp: nft_rule_of_def image_iff)

lemma nft_hooks_iso:
  assumes "distinct (map ep_Interface (ps_Endpoints spec))"
  shows "nft_hooks spec = iso_hooks spec"
proof -
  have "h_mangle (nft_hooks spec) = h_mangle (iso_hooks spec)"
    by (rule ext)
      (auto simp: nft_hooks_def iso_hooks_def nft_decide_def nft_ipv4_def Let_def nft_rule_of_def [of _ Drop, symmetric]
         nft_spoof_rules [OF assms] own_source_def iso_side_def, simp_all add: nft_rule_of_def)
  moreover have "h_prenat (nft_hooks spec) = h_prenat (iso_hooks spec)"
    by (rule ext) (simp add: nft_hooks_def iso_hooks_def nft_decide_def nft_ipv4_def Let_def nft_rule_of_def flow_defs)
  moreover have "h_input (nft_hooks spec) = h_input (iso_hooks spec)"
    by (rule ext) (auto simp: nft_hooks_def iso_hooks_def nft_decide_def nft_ipv4_def Let_def nft_rule_of_def flow_defs)
  moreover have "h_forward (nft_hooks spec) = h_forward (iso_hooks spec)"
    by (rule ext) (auto simp: nft_hooks_def iso_hooks_def nft_decide_def nft_ipv4_def Let_def nft_rule_of_def flow_defs)
  moreover have "h_postnat (nft_hooks spec) = h_postnat (iso_hooks spec)"
    by (rule ext) (simp add: nft_hooks_def iso_hooks_def nft_decide_def nft_ipv4_def Let_def nft_rule_of_def flow_defs)
  moreover have "h_input6 (nft_hooks spec) = h_input6 (iso_hooks spec)"
    by (rule ext) (simp add: nft_hooks_def iso_hooks_def nft_decide_def nft_ipv6_def Let_def nft_rule_of_def flow_defs)
  moreover have "h_forward6 (nft_hooks spec) = h_forward6 (iso_hooks spec)"
    by (rule ext) (simp add: nft_hooks_def iso_hooks_def nft_decide_def nft_ipv6_def Let_def nft_rule_of_def flow_defs)
  ultimately show ?thesis by simp
qed

section \<open>The iptables policy implements the table\<close>

lemmas ipt_names = isoIPTablesMangle_def isoIPTablesInput_def isoIPTablesForward_def isoIPTablesPreRoute_def
  isoIPTablesPostRoute_def isoIPSetSources_def isoIPSetNonPublic_def

lemmas ipt_rules = ipt_mangle_rules_def ipt_preroute_rules_def ipt_input_rules_def ipt_forward_in_rules_def
  ipt_forward_out_rules_def ipt_ipv6_rules_def rule_def Let_def

lemma ipt_sources_match: "ipt_matches (ipt_sets spec) p (Set_src_iface isoIPSetSources) \<longleftrightarrow> own_source spec p"
  by (auto simp: set_entries_def ipt_sets_def ipt_names isoIPSetEndpoint_def own_source_def in_prefixes_def
        allowed_sources_def list_ex_iff split: if_splits)

lemma ipt_non_public_match: "in_set_dst (ipt_sets spec) p isoIPSetNonPublic \<longleftrightarrow> non_public_dst spec p"
  by (auto simp: in_set_dst_def set_entries_def ipt_sets_def ipt_names non_public_dst_def in_prefixes_def list_ex_iff)

lemma ipt_run_mangle:
  "ipt_run (Suc d) (ipt_sets spec) t p (concat (map ipt_mangle_rules eps)) =
   (if pk_iif p \<in> set (map ep_Interface eps) \<and> (pk_ct p = CT_Invalid \<or> \<not> own_source spec p) then Some Drop else None)"
  by (induction eps) (auto simp: ipt_rules ipt_sources_match simp del: ipt_matches.simps(6))

lemma ipt_run_preroute:
  "ipt_run (Suc d) sets t p (concat (map (ipt_preroute_rules port) eps)) =
   (if pk_iif p \<in> set (map ep_Interface eps) \<and> to_ports p [53] then Some (Redirect port) else None)"
  by (induction eps) (auto simp: ipt_rules flow_defs)

lemma ipt_run_input:
  "ipt_run (Suc d) sets t p (concat (map (ipt_input_rules port) eps)) =
   (if pk_iif p \<in> set (map ep_Interface eps)
    then Some (if known_flow p \<or> to_ports p [port] \<and> pk_origdport p = 53 then Accept else Reject) else None)"
  by (induction eps) (auto simp: ipt_rules flow_defs)

lemma ipt_run_forward_out:
  "ipt_run (Suc d) sets t p (concat (map ipt_forward_out_rules eps)) =
   (if pk_oif p \<in> set (map ep_Interface eps) then Some (if known_flow p then Accept else Reject) else None)"
  by (induction eps) (auto simp: ipt_rules flow_defs)

lemma ipt_run_forward_in:
  "ipt_run (Suc d) (ipt_sets spec) t p (concat (map ipt_forward_in_rules eps) @ rest) =
   (if pk_iif p \<in> set (map ep_Interface eps)
    then Some (if known_flow p then Accept
               else if to_ports p [53, 853] \<or> non_public_dst spec p then Reject else Accept)
    else ipt_run (Suc d) (ipt_sets spec) t p rest)"
  by (induction eps) (auto simp: ipt_rules ipt_non_public_match known_flow_def to_ports_def established_def)

lemma ipt_run_drop6:
  "ipt_run (Suc d) sets t p (map (\<lambda>ep. rule c [In_if (ep_Interface ep)] (To Drop)) eps) =
     (if pk_iif p \<in> set (map ep_Interface eps) then Some Drop else None)"
  "ipt_run (Suc d) sets t p (concat (map (\<lambda>ep. [rule c [In_if (ep_Interface ep)] (To Drop),
       rule c [Out_if (ep_Interface ep)] (To Drop)]) eps)) =
     (if pk_iif p \<in> set (map ep_Interface eps) \<or> pk_oif p \<in> set (map ep_Interface eps) then Some Drop else None)"
  by (induction eps) (auto simp: rule_def)

lemma filter_blocks:
  "filter P (concat (map f xs)) = concat (map (\<lambda>x. filter P (f x)) xs)"
  by (induction xs) auto

lemma concat_map_Nil: "concat (map (\<lambda>x. []) xs) = []"
  by (induction xs) auto

lemma chain_blocks:
  "filter (\<lambda>r. ir_chain r = c) (ipt_mangle_rules ep) = (if c = isoIPTablesMangle then ipt_mangle_rules ep else [])"
  "filter (\<lambda>r. ir_chain r = c) (ipt_preroute_rules n ep) = (if c = isoIPTablesPreRoute then ipt_preroute_rules n ep else [])"
  "filter (\<lambda>r. ir_chain r = c) (ipt_input_rules n ep) = (if c = isoIPTablesInput then ipt_input_rules n ep else [])"
  "filter (\<lambda>r. ir_chain r = c) (ipt_forward_in_rules ep) = (if c = isoIPTablesForward then ipt_forward_in_rules ep else [])"
  "filter (\<lambda>r. ir_chain r = c) (ipt_forward_out_rules ep) = (if c = isoIPTablesForward then ipt_forward_out_rules ep else [])"
  by (simp_all add: ipt_rules)

text \<open>A built-in chain that only jumps to one owned chain decides what the owned chain decides.\<close>

lemma ipt_jump:
  "ipt_run 2 sets t p [rule c [] (Jump u)] = ipt_run (Suc 0) sets t p (filter (\<lambda>r. ir_chain r = u) (it_rules t))"
  by (simp add: numeral_2_eq_2 rule_def split: option.splits)

lemma ir_chain_rule: "ir_chain (rule c ms t) = c"
  by (simp add: rule_def)

lemmas ipt_decide_simps = ipt_decide_def ipt_ipv4_def ipt_ipv6_def Let_def filter_blocks chain_blocks ir_chain_rule concat_map_Nil ipt_jump

lemma ipt_hooks_iso: "ipt_hooks spec = iso_hooks spec"
proof -
  have names: "isoIPTablesMangle \<noteq> ''PREROUTING''" "isoIPTablesPreRoute \<noteq> ''PREROUTING''" "isoIPTablesPreRoute \<noteq> ''POSTROUTING''"
    "isoIPTablesPostRoute \<noteq> ''PREROUTING''" "isoIPTablesPostRoute \<noteq> ''POSTROUTING''" "isoIPTablesPreRoute \<noteq> isoIPTablesPostRoute"
    "isoIPTablesInput \<noteq> ''INPUT''" "isoIPTablesInput \<noteq> ''FORWARD''" "isoIPTablesForward \<noteq> ''INPUT''"
    "isoIPTablesForward \<noteq> ''FORWARD''" "isoIPTablesInput \<noteq> isoIPTablesForward"
    by (simp_all add: ipt_names)
  note ne = names names [symmetric]
  have "h_mangle (ipt_hooks spec) = h_mangle (iso_hooks spec)"
    by (rule ext) (simp add: ipt_hooks_def iso_hooks_def ipt_decide_simps ipt_run_mangle iso_side_def ne)
  moreover have "h_prenat (ipt_hooks spec) = h_prenat (iso_hooks spec)"
    by (rule ext) (simp add: ipt_hooks_def iso_hooks_def ipt_decide_simps ipt_run_preroute iso_side_def ne)
  moreover have "h_input (ipt_hooks spec) = h_input (iso_hooks spec)"
    by (rule ext) (simp add: ipt_hooks_def iso_hooks_def ipt_decide_simps ipt_run_input iso_side_def ne)
  moreover have "h_forward (ipt_hooks spec) = h_forward (iso_hooks spec)"
    by (rule ext) (simp add: ipt_hooks_def iso_hooks_def ipt_decide_simps ipt_run_forward_in ipt_run_forward_out iso_side_def ne)
  moreover have "h_postnat (ipt_hooks spec) = h_postnat (iso_hooks spec)"
    by (rule ext) (simp add: ipt_hooks_def iso_hooks_def ipt_decide_simps ne, simp add: rule_def ipt_non_public_match)
  moreover have "h_input6 (ipt_hooks spec) = h_input6 (iso_hooks spec)"
    by (rule ext) (simp add: ipt_hooks_def iso_hooks_def ipt_decide_simps ipt_ipv6_rules_def iso_side_def ne ipt_run_drop6)
  moreover have "h_forward6 (ipt_hooks spec) = h_forward6 (iso_hooks spec)"
    by (rule ext) (simp add: ipt_hooks_def iso_hooks_def ipt_decide_simps ipt_ipv6_rules_def iso_side_def ne ipt_run_drop6)
  ultimately show ?thesis by simp
qed

end
