(* ===== verification/Iso_Fw_Isolation.thy ===== *)
theory Iso_Fw_Isolation
  imports Iso_Firewall
begin

text \<open>
  What the host firewall of isolated services guarantees: which policy inputs are accepted, that the
  compacted deny list is exact, that endpoint order does not matter, that both back ends decide every
  packet alike, and what a packet that enters from an isolated service can reach.
\<close>

section \<open>Accepted inputs\<close>

definition endpoint_ok :: "Layout \<Rightarrow> ISOEndpoint \<Rightarrow> bool" where
  "endpoint_ok layout ep \<longleftrightarrow>
     isoInterfaceNameRE (ep_Interface ep) \<and> validateISOEndpointNetwork layout ep = Inr ()"

definition endpoints_distinct :: "ISOEndpoint list \<Rightarrow> bool" where
  "endpoints_distinct eps \<longleftrightarrow>
     distinct (map ep_Interface eps) \<and> distinct (map ep_Link eps) \<and> distinct (map ep_PeerIP eps) \<and>
     distinct (filter p_valid (map ep_Project eps))"

definition unseen :: "isoEndpointIdentitySet \<Rightarrow> ISOEndpoint \<Rightarrow> bool" where
  "unseen seen ep \<longleftrightarrow>
     ep_Interface ep \<notin> fst ` set (seen_interfaces seen) \<and> ep_Link ep \<notin> fst ` set (seen_links seen) \<and>
     ep_PeerIP ep \<notin> fst ` set (seen_peers seen) \<and>
     (p_valid (ep_Project ep) \<longrightarrow> ep_Project ep \<notin> fst ` set (seen_projects seen))"

lemma keys_update: "fst ` set (AList.update k v al) = insert k (fst ` set al)"
  by (induction al) auto

lemma seen_add_ok:
  "seen_add seen ep = Inr seen' \<longleftrightarrow>
   unseen seen ep \<and>
   seen' = \<lparr>seen_interfaces = AList.update (ep_Interface ep) (ep_Interface ep) (seen_interfaces seen),
            seen_links = AList.update (ep_Link ep) (ep_Interface ep) (seen_links seen),
            seen_peers = AList.update (ep_PeerIP ep) (ep_Interface ep) (seen_peers seen),
            seen_projects = (if p_valid (ep_Project ep) then AList.update (ep_Project ep) (ep_Interface ep) (seen_projects seen)
                             else seen_projects seen)\<rparr>"
  unfolding seen_add_def unseen_def
  by (auto simp: Let_def map_of_eq_None_iff [symmetric] split: option.splits if_splits)

lemma all_other: "(\<forall>e \<in> A. f e \<noteq> c) \<longleftrightarrow> c \<notin> f ` A"
  by blast

lemma all_other_valid: "(\<forall>e \<in> A. v (f e) \<longrightarrow> f e \<noteq> c) \<longleftrightarrow> (v c \<longrightarrow> c \<notin> f ` A)"
  by blast

lemma validate_loop_iff:
  "validate_endpoints_loop layout eps seen = Inr () \<longleftrightarrow>
   (\<forall>ep \<in> set eps. endpoint_ok layout ep \<and> unseen seen ep) \<and> endpoints_distinct eps"
proof (induction eps arbitrary: seen)
  case Nil
  then show ?case by (simp add: endpoints_distinct_def)
next
  case (Cons ep eps)
  show ?case
  proof (cases "endpoint_ok layout ep \<and> unseen seen ep")
    case False
    then show ?thesis
      using seen_add_ok [of seen ep] by (auto simp: endpoint_ok_def split: sum.splits)
  next
    case True
    then obtain seen' where s: "seen_add seen ep = Inr seen'" using seen_add_ok by blast
    then have s': "seen' = \<lparr>seen_interfaces = AList.update (ep_Interface ep) (ep_Interface ep) (seen_interfaces seen),
            seen_links = AList.update (ep_Link ep) (ep_Interface ep) (seen_links seen),
            seen_peers = AList.update (ep_PeerIP ep) (ep_Interface ep) (seen_peers seen),
            seen_projects = (if p_valid (ep_Project ep) then AList.update (ep_Project ep) (ep_Interface ep) (seen_projects seen)
                             else seen_projects seen)\<rparr>"
      by (simp add: seen_add_ok)
    have u: "unseen seen' e \<longleftrightarrow> unseen seen e \<and> ep_Interface e \<noteq> ep_Interface ep \<and> ep_Link e \<noteq> ep_Link ep \<and>
        ep_PeerIP e \<noteq> ep_PeerIP ep \<and> (p_valid (ep_Project e) \<longrightarrow> ep_Project e \<noteq> ep_Project ep)" for e
      unfolding unseen_def s' by (auto simp: keys_update)
    have "(\<forall>e \<in> set eps. unseen seen' e) \<longleftrightarrow> (\<forall>e \<in> set eps. unseen seen e) \<and>
        ep_Interface ep \<notin> ep_Interface ` set eps \<and> ep_Link ep \<notin> ep_Link ` set eps \<and> ep_PeerIP ep \<notin> ep_PeerIP ` set eps \<and>
        (p_valid (ep_Project ep) \<longrightarrow> ep_Project ep \<notin> ep_Project ` set eps)"
      by (simp only: u ball_conj_distrib all_other all_other_valid)
    moreover have "validate_endpoints_loop layout (ep # eps) seen = validate_endpoints_loop layout eps seen'"
      using True by (simp add: s endpoint_ok_def)
    ultimately show ?thesis
      using True by (simp add: Cons.IH endpoints_distinct_def ball_conj_distrib del: validate_endpoints_loop.simps) blast
  qed
qed

lemma validateISOEndpoints_iff:
  "validateISOEndpoints pool eps = Inr () \<longleftrightarrow>
   (\<exists>layout. NewLayout pool = Inr layout \<and> (\<forall>ep \<in> set eps. endpoint_ok layout ep)) \<and> endpoints_distinct eps"
  by (auto simp: validateISOEndpoints_def validate_loop_iff unseen_def newISOEndpointIdentitySet_def split: sum.splits)

lemma endpoints_distinct_mset: "mset eps = mset eps' \<Longrightarrow> endpoints_distinct eps = endpoints_distinct eps'"
proof -
  assume m: "mset eps = mset eps'"
  have "distinct (map ep_Interface eps) = distinct (map ep_Interface eps')"
    "distinct (map ep_Link eps) = distinct (map ep_Link eps')"
    "distinct (map ep_PeerIP eps) = distinct (map ep_PeerIP eps')"
    by (rule mset_eq_imp_distinct_iff, simp add: m)+
  moreover have "distinct (filter p_valid (map ep_Project eps)) = distinct (filter p_valid (map ep_Project eps'))"
    by (rule mset_eq_imp_distinct_iff) (simp add: m)
  ultimately show ?thesis by (simp add: endpoints_distinct_def)
qed

lemma validateISOEndpoints_mset:
  "mset eps = mset eps' \<Longrightarrow> validateISOEndpoints pool eps = Inr () \<longleftrightarrow> validateISOEndpoints pool eps' = Inr ()"
  unfolding validateISOEndpoints_iff by (metis endpoints_distinct_mset mset_eq_setD)

section \<open>Endpoint order\<close>

text \<open>
  On the sorted endpoints the ties are impossible, since the interfaces are distinct, so the order
  of the input is lost whatever the sort does with ties.
\<close>

lemma insert_by_agree:
  "(\<And>y. y \<in> set ys \<Longrightarrow> lt y x = lt' y x) \<Longrightarrow> insert_by lt x ys = insert_by lt' x ys"
  by (induction ys) auto

lemma sort_by_agree:
  "(\<And>x y. x \<in> set xs \<Longrightarrow> y \<in> set xs \<Longrightarrow> lt x y = lt' x y) \<Longrightarrow> sort_by lt xs = sort_by lt' xs"
proof (induction xs)
  case (Cons x xs)
  then have "sort_by lt xs = sort_by lt' xs" by simp
  moreover have "insert_by lt x (sort_by lt' xs) = insert_by lt' x (sort_by lt' xs)"
    using Cons.prems by (intro insert_by_agree) simp
  ultimately show ?case by (simp add: sort_by_def)
qed (simp add: sort_by_def)

interpretation by_interface: go_order less_interface
  by unfold_locales (auto simp: less_interface_def)

lemma sorted_interfaces:
  "sorted (map ep_Interface (sort_by less_interface eps))"
  using by_interface.sorted_sort_by [of eps]
  by (simp add: sorted_map less_interface_def not_less)

lemma sort_interfaces_cong:
  assumes "mset eps = mset eps'" "distinct (map ep_Interface eps)"
  shows "sort_by less_interface eps = sort_by less_interface eps'"
proof (rule map_sorted_distinct_set_unique [where f = ep_Interface])
  show "inj_on ep_Interface (set (sort_by less_interface eps) \<union> set (sort_by less_interface eps'))"
    using assms by (metis distinct_map mset_eq_setD set_sort_by sup.idem)
  have "mset (map ep_Interface (sort_by less_interface eps)) = mset (map ep_Interface eps)"
    "mset (map ep_Interface (sort_by less_interface eps')) = mset (map ep_Interface eps)"
    by (simp_all add: assms(1))
  then show "distinct (map ep_Interface (sort_by less_interface eps))"
    "distinct (map ep_Interface (sort_by less_interface eps'))"
    using assms(2) by (metis mset_eq_imp_distinct_iff)+
  show "set (sort_by less_interface eps) = set (sort_by less_interface eps')"
    using assms(1) by (metis mset_eq_setD set_sort_by)
qed (rule sorted_interfaces)+

section \<open>The deny list\<close>

lemma v4_cases:
  assumes "p_valid p" "Is4 (p_addr p)"
  obtains a n where "p = v4_prefix a n"
  using assms by (cases p; cases "p_addr p") (auto simp: v4_prefix_def p_valid_def gr0_conv_Suc)

lemma canonical_aligned:
  assumes "p \<in> set (canonicalISOIPv4Prefixes ps)"
  obtains a n where "p = v4_prefix a n" "unat a = 2 ^ (32 - n) * block_of a n"
proof -
  obtain q where q: "p = Masked q" "p_valid p" "Is4 (p_addr p)"
    using assms by (auto simp: canonicalISOIPv4Prefixes_def)
  then obtain a n where p: "p = v4_prefix a n" using v4_cases by blast
  then obtain b where "mask_addr (V4 b) n = V4 a" using q(1) Masked_v4_base by metis
  with p show ?thesis using that unat_mask_addr block_of_mask by metis
qed

lemma lex_quads:
  fixes a b c d a' b' c' d' :: nat
  assumes "a < 256" "b < 256" "c < 256" "d < 256" "a' < 256" "b' < 256" "c' < 256" "d' < 256"
  shows "less_octets [a, b, c, d] [a', b', c', d'] tie \<longleftrightarrow>
    ((a * 256 + b) * 256 + c) * 256 + d < ((a' * 256 + b') * 256 + c') * 256 + d' \<or>
    ((a * 256 + b) * 256 + c) * 256 + d = ((a' * 256 + b') * 256 + c') * 256 + d' \<and> tie"
  using assms by (auto split: if_splits)

lemma less_v4: "lessISOPrefix (v4_prefix a m) (v4_prefix b n) \<longleftrightarrow> unat a < unat b \<or> a = b \<and> m < n"
proof -
  have q: "((octet x 3 * 256 + octet x 2) * 256 + octet x 1) * 256 + octet x 0 = unat x" for x :: "32 word"
    using quads [of "unat x"] v4_bound [of x] by (simp add: octet_nat)
  have o: "octet x k < 256" for x k by (simp add: octet_nat)
  show ?thesis
    unfolding lessISOPrefix_def by (simp only: v4_prefix_sel as4.simps list.map lex_quads [OF o o o o o o o o] q)
      (auto simp: word_unat_eq_iff)
qed

definition prefix_key :: "prefix \<Rightarrow> nat \<times> int" where
  "prefix_key p = (case p_addr p of V4 a \<Rightarrow> unat a | _ \<Rightarrow> 0, Bits p)"

definition less_key :: "prefix \<Rightarrow> prefix \<Rightarrow> bool" where
  "less_key p q \<longleftrightarrow> fst (prefix_key p) < fst (prefix_key q) \<or>
     fst (prefix_key p) = fst (prefix_key q) \<and> snd (prefix_key p) < snd (prefix_key q)"

interpretation by_key: go_order less_key
  by unfold_locales (auto simp: less_key_def)

lemma sort_canonical:
  "sort_by lessISOPrefix (canonicalISOIPv4Prefixes ps) = sort_by less_key (canonicalISOIPv4Prefixes ps)"
proof (rule sort_by_agree)
  fix p q assume "p \<in> set (canonicalISOIPv4Prefixes ps)" "q \<in> set (canonicalISOIPv4Prefixes ps)"
  then show "lessISOPrefix p q = less_key p q"
    by (elim canonical_aligned) (auto simp: less_v4 less_key_def prefix_key_def word_unat_eq_iff)
qed

lemma block_of_finer: "m \<le> n \<Longrightarrow> block_of x n = block_of y n \<Longrightarrow> block_of x m = block_of y m"
proof -
  assume h: "m \<le> n" "block_of x n = block_of y n"
  have "(2::nat) ^ (32 - m) = 2 ^ (32 - n) * 2 ^ (32 - m - (32 - n))"
    using h(1) by (simp add: power_add [symmetric])
  then have "block_of z m = block_of z n div 2 ^ (32 - m - (32 - n))" for z
    by (simp only: block_of_def div_mult2_eq)
  with h(2) show ?thesis by simp
qed

lemma covered_subset:
  assumes "Bits e \<le> Bits c" "p_contains e (p_addr c)" "p_contains c (V4 x)" "e = v4_prefix a m" "c = v4_prefix b n"
  shows "p_contains e (V4 x)"
  using assms block_of_finer [of m n x b] by (simp add: contains_v4_iff)

lemma overlap_covered:
  assumes "p_contains (v4_prefix a m) (V4 x)" "p_contains (v4_prefix b n) (V4 x)"
    and "unat b = 2 ^ (32 - n) * block_of b n" "\<not> less_key (v4_prefix b n) (v4_prefix a m)"
  shows "m \<le> n \<and> p_contains (v4_prefix a m) (V4 b)"
proof (cases "m \<le> n")
  case True
  then show ?thesis using assms(1,2) block_of_finer [of m n x b] by (simp add: contains_v4_iff)
next
  case False
  then have "block_of a n = block_of b n"
    using assms(1,2) block_of_finer [of n m x a] by (simp add: contains_v4_iff)
  then have "unat b \<le> unat a"
    using assms(3) by (metis block_of_def times_div_less_eq_dividend)
  then show ?thesis using False assms(4) by (auto simp: less_key_def prefix_key_def)
qed

definition disjoint_prefixes :: "prefix \<Rightarrow> prefix \<Rightarrow> bool" where
  "disjoint_prefixes p q \<longleftrightarrow> (\<forall>x. \<not> (p_contains p (V4 x) \<and> p_contains q (V4 x)))"

text \<open>The loop of \<open>compactISOPrefixes\<close>, over what is still to come and what was kept.\<close>

lemma compact_loop:
  assumes "sorted_wrt (\<lambda>p q. \<not> less_key q p) (out @ cs)" "sorted_wrt disjoint_prefixes out"
    and "\<And>p. p \<in> set (out @ cs) \<Longrightarrow> \<exists>a n. p = v4_prefix a n \<and> unat a = 2 ^ (32 - n) * block_of a n"
  defines "res \<equiv> fold (\<lambda>c out. if isoPrefixCovered out c then out else out @ [c]) cs out"
  shows "sorted_wrt disjoint_prefixes res \<and> set res \<subseteq> set (out @ cs) \<and>
    (\<forall>x. in_prefixes res x \<longleftrightarrow> in_prefixes (out @ cs) x)"
  using assms(1-3) unfolding res_def
proof (induction cs arbitrary: out)
  case Nil
  then show ?case by simp
next
  case (Cons c cs)
  obtain b n where c: "c = v4_prefix b n" "unat b = 2 ^ (32 - n) * block_of b n" using Cons.prems(3) [of c] by auto
  show ?case
  proof (cases "isoPrefixCovered out c")
    case True
    then obtain e where e: "e \<in> set out" "Bits e \<le> Bits c" "p_contains e (p_addr c)"
      by (auto simp: isoPrefixCovered_def list_ex_iff)
    moreover obtain a m where "e = v4_prefix a m" using e(1) Cons.prems(3) [of e] by auto
    ultimately have sub: "p_contains c (V4 x) \<Longrightarrow> in_prefixes out x" for x
      using covered_subset c(1) by (fastforce simp: in_prefixes_def list_ex_iff)
    have "sorted_wrt (\<lambda>p q. \<not> less_key q p) (out @ cs)" using Cons.prems(1) by (auto simp: sorted_wrt_append)
    then show ?thesis
      using Cons.IH [of out] Cons.prems True sub by (auto simp: in_prefixes_def)
  next
    case False
    have "disjoint_prefixes p c" if p: "p \<in> set out" for p
    proof -
      obtain a m where a: "p = v4_prefix a m" using p Cons.prems(3) [of p] by auto
      have "\<not> less_key c p" using Cons.prems(1) p by (auto simp: sorted_wrt_append)
      then have "p_contains p (V4 x) \<Longrightarrow> p_contains c (V4 x) \<Longrightarrow> Bits p \<le> Bits c \<and> p_contains p (p_addr c)" for x
        using overlap_covered [of a m x b n] a c by simp
      then show ?thesis
        using False p unfolding disjoint_prefixes_def isoPrefixCovered_def list_ex_iff by blast
    qed
    then have "sorted_wrt disjoint_prefixes (out @ [c])" using Cons.prems(2) by (simp add: sorted_wrt_append)
    moreover have "out @ c # cs = (out @ [c]) @ cs" by simp
    ultimately show ?thesis
      using Cons.IH [of "out @ [c]"] Cons.prems False by simp
  qed
qed

lemma in_prefixes_canonical: "in_prefixes (canonicalISOIPv4Prefixes ps) x \<longleftrightarrow> in_prefixes ps x"
proof -
  have v: "p_contains p (V4 x) \<Longrightarrow> p_valid p \<and> Is4 (p_addr p)" for p
    by (cases p; cases "p_addr p") (auto simp: p_valid_def)
  have "p_contains p (V4 x) \<Longrightarrow> p_valid p \<and> Is4 (p_addr (Masked p))" for p
    using v [of p] v [of "Masked p"] by (simp add: contains_Masked_v4)
  then show ?thesis
    by (fastforce simp: in_prefixes_def canonicalISOIPv4Prefixes_def list_ex_iff contains_Masked_v4)
qed

lemma compact_ok:
  "sorted_wrt disjoint_prefixes (compactISOPrefixes ps) \<and>
   set (compactISOPrefixes ps) \<subseteq> set (canonicalISOIPv4Prefixes ps) \<and>
   (\<forall>x. in_prefixes (compactISOPrefixes ps) x \<longleftrightarrow> in_prefixes ps x)"
proof -
  let ?cs = "sort_by less_key (canonicalISOIPv4Prefixes ps)"
  have "sorted_wrt (\<lambda>p q. \<not> less_key q p) ([] @ ?cs)" by (simp add: by_key.sorted_sort_by)
  moreover have "\<exists>a n. p = v4_prefix a n \<and> unat a = 2 ^ (32 - n) * block_of a n" if "p \<in> set ([] @ ?cs)" for p
    using that by (auto elim: canonical_aligned)
  ultimately have "sorted_wrt disjoint_prefixes (compactISOPrefixes ps) \<and> set (compactISOPrefixes ps) \<subseteq> set ([] @ ?cs) \<and>
      (\<forall>x. in_prefixes (compactISOPrefixes ps) x \<longleftrightarrow> in_prefixes ([] @ ?cs) x)"
    unfolding compactISOPrefixes_def sort_canonical by (intro compact_loop) simp_all
  moreover have "in_prefixes ?cs x = in_prefixes (canonicalISOIPv4Prefixes ps) x" for x
    by (simp add: in_prefixes_def list_ex_iff)
  ultimately show ?thesis by (simp add: in_prefixes_canonical)
qed

section \<open>Sources of an accepted endpoint\<close>

lemma NewLayout_pool:
  assumes "NewLayout pool = Inr l" "pool = Masked pool"
  obtains b where "layout_at l b" "pool = v4_prefix b 16"
proof -
  obtain b where b: "layout_at l b" using NewLayout_at [OF assms(1)] by blast
  moreover have "Pool l = Masked pool" using assms(1) by (auto simp: NewLayout_def Let_def split: if_splits sum.splits)
  ultimately show ?thesis using that assms(2) by (simp add: layout_at_def)
qed

lemma link_in_pool:
  assumes "endpoint_ok l ep" "layout_at l b"
  obtains a where "ep_Link ep = v4_prefix a 30" "unat a mod 4 = 0" "ep_PeerIP ep = V4 (a + 2)"
    "block_of a 17 = block_of b 17" "unat (a + 2) = unat a + 2"
proof -
  let ?k = "Masked (ep_Link ep)"
  have k: "p_valid ?k" "Is4 (p_addr ?k)" "Bits ?k = 30" "p_contains (Links l) (p_addr ?k)" "ep_Link ep = ?k"
    "ep_PeerIP ep = Next (Next (p_addr ?k))"
    using assms(1) by (auto simp: endpoint_ok_def validateISOEndpointNetwork_def Let_def split: if_splits)
  obtain a n where p: "?k = v4_prefix a n" using v4_cases [OF k(1,2)] by blast
  then have n: "n = 30" using k(3) by simp
  obtain c where "mask_addr (V4 c) 30 = V4 a" using p n Masked_v4_base by metis
  then have "unat a = 4 * block_of c 30" by (drule_tac unat_mask_addr) simp
  then have m: "unat a mod 4 = 0" by simp
  then have room: "unat a + 3 < 4294967296" using v4_bound [of a] by presburger
  have u: "unat (a + 2) = unat a + 2" "unat (a + 1) = unat a + 1"
    using unat_v4_add [of a 2] unat_v4_add [of a 1] room by simp_all
  have "unat (- 1 :: 32 word) = 4294967295" using unat_complement [of 0] by simp
  then have ne: "a \<noteq> - 1" "a + 1 \<noteq> - 1" using u room by force+
  then have pe: "ep_PeerIP ep = V4 (a + 2)" using k(6) p by (simp add: add.assoc)
  have bl: "block_of a 17 = block_of b 17"
    using k(4) p assms(2) by (simp add: layout_at_def contains_v4_iff)
  have "ep_Link ep = v4_prefix a 30" using k(5) p n by simp
  then show ?thesis by (rule that [OF _ m pe bl u(1)])
qed

lemma own_source_in_pool:
  assumes "endpoint_ok l ep" "layout_at l b" "in_prefixes (allowed_sources ep) x"
  shows "p_contains (v4_prefix b 16) (V4 x)"
proof -
  obtain a where "ep_Link ep = v4_prefix a 30" and a: "unat a mod 4 = 0" "ep_PeerIP ep = V4 (a + 2)"
    "block_of a 17 = block_of b 17" "unat (a + 2) = unat a + 2"
    by (rule link_in_pool [OF assms(1,2)])
  have "block_of x 16 = block_of b 16"
  proof (cases "p_contains (PrefixFrom (ep_PeerIP ep) 32) (V4 x)")
    case True
    then have "x = a + 2"
      using PrefixFrom_V4 [of 32 "a + 2"] by (simp add: a(2) contains_v4_iff block_of_def word_unat_eq_iff)
    moreover have "(unat a + 2) div 4 = unat a div 4" using a(1) by presburger
    ultimately have "block_of x 30 = block_of a 30" by (simp add: block_of_def a(4))
    then have "block_of x 17 = block_of a 17" by (rule block_of_finer [rotated]) simp
    with a(3) have "block_of x 17 = block_of b 17" by simp
    then show ?thesis by (rule block_of_finer [rotated]) simp
  next
    case False
    let ?r = "Masked (ep_Project ep)"
    have pr: "p_valid (ep_Project ep)" "p_contains (ep_Project ep) (V4 x)"
      using False assms(3) by (auto simp: in_prefixes_def allowed_sources_def split: if_splits)
    then have r: "Is4 (p_addr ?r)" "Bits ?r = 27" "ep_Project ep = ?r" "p_contains (Projects l) (p_addr ?r)"
      using assms(1)
      by (auto simp: endpoint_ok_def validateISOEndpointNetwork_def validateISOEndpointProject_def Let_def split: if_splits)
    obtain c n where c: "?r = v4_prefix c n" using v4_cases [of ?r] r(1) pr(1) by auto
    then have n: "n = 27" using r(2) by simp
    have "block_of x 27 = block_of c 27" using pr(2) r(3) c n by (simp add: contains_v4_iff)
    then have "block_of x 17 = block_of c 17" by (rule block_of_finer [rotated]) simp
    moreover have "block_of c 17 = block_of (b + of_nat 32768) 17"
      using r(4) c assms(2) by (simp add: layout_at_def contains_v4_iff)
    ultimately have "block_of x 16 = block_of (b + of_nat 32768) 16"
      by (intro block_of_finer [of 16 17]) simp_all
    moreover have "unat b mod 65536 = 0" using assms(2) by (simp add: layout_at_def)
    then have "block_of (b + of_nat 32768) 16 = block_of b 16"
      using block_of_offset [of b 32768 16] by (simp add: block_of_def)
    ultimately show ?thesis by simp
  qed
  then show ?thesis by (simp add: contains_v4_iff)
qed

section \<open>The path of a new flow\<close>

text \<open>
  The first packet of a flow through the policy: the mangle hook, the destination translation (a
  redirect sends it to the host, at the address of the interface it came in on), then input or
  forward, then source translation. \<open>host\<close> says which destinations are the host's own. Conntrack
  keeps the destination port from before the translation.
\<close>

datatype outcome = Stopped | To_host packet | Forwarded packet bool

definition passes :: "verdict option \<Rightarrow> bool" where
  "passes v \<longleftrightarrow> v = None \<or> v = Some Accept"

definition at_input :: "hooks \<Rightarrow> packet \<Rightarrow> outcome" where
  "at_input h p = (if passes (h_input h p) then To_host p else Stopped)"

definition at_forward :: "hooks \<Rightarrow> packet \<Rightarrow> outcome" where
  "at_forward h p =
     (if passes (h_forward h p) then Forwarded p (h_postnat h p = Some Masquerade) else Stopped)"

definition first_packet :: "packet \<Rightarrow> packet" where
  "first_packet p = p\<lparr>pk_ct := CT_New, pk_origdport := pk_dport p\<rparr>"

definition new_path :: "hooks \<Rightarrow> (32 word \<Rightarrow> bool) \<Rightarrow> (string \<Rightarrow> 32 word) \<Rightarrow> packet \<Rightarrow> outcome" where
  "new_path h host ifaddr p =
     (let q = first_packet p in
      if \<not> passes (h_mangle h q) then Stopped
      else
        (case h_prenat h q of
           Some (Redirect n) \<Rightarrow> at_input h (q\<lparr>pk_dport := n, pk_dst := ifaddr (pk_iif q)\<rparr>)
         | _ \<Rightarrow> if host (pk_dst q) then at_input h q else at_forward h q))"

definition policy_hooks :: "FirewallBackend \<Rightarrow> ISOPolicySpec \<Rightarrow> hooks" where
  "policy_hooks backend spec = (if backend = BackendNFT then nft_hooks spec else ipt_hooks spec)"

definition policy_texts :: "FirewallBackend \<Rightarrow> ISOPolicySpec \<Rightarrow> string list" where
  "policy_texts backend spec =
     (if backend = BackendNFT then [nft_ipv4_text (nft_ipv4 spec), nft_ipv6_text (nft_ipv6 spec), []]
      else [ipt_comments spec @ ipt_tables_text (ipt_ipv4 spec), ipt_tables_text (ipt_ipv6 spec), ipset_text (ipt_sets spec)])"

lemma RenderISOPolicy_ok:
  assumes "RenderISOPolicy backend spec = Inr rules"
  shows "validateISOPolicySpec spec = Inr ()" "validateISOEndpoints (ps_Pool spec) (ps_Endpoints spec) = Inr ()"
    "[pr_IPv4 rules, pr_IPv6 rules, pr_IPSet rules] = policy_texts backend (sorted_spec spec)"
    "pr_Backend rules = backend"
    "backend \<in> {BackendNFT, BackendIPTablesNFT, BackendIPTablesLegacy}"
  using assms
  by (auto simp: RenderISOPolicy_def renderISOPolicyBackend_def policy_texts_def renderNFTISOPolicy_def
      renderIPTablesISOPolicy_def Let_def split: sum.splits if_splits)

lemma sorted_spec_sel:
  "set (ps_Endpoints (sorted_spec spec)) = set (ps_Endpoints spec)" "ps_Pool (sorted_spec spec) = ps_Pool spec"
  "ps_DNSPort (sorted_spec spec) = ps_DNSPort spec"
  by (simp_all add: sorted_spec_def)

lemma rendered_hooks:
  assumes "RenderISOPolicy backend spec = Inr rules"
  shows "policy_hooks backend (sorted_spec spec) = iso_hooks (sorted_spec spec)"
proof -
  have "distinct (map ep_Interface (ps_Endpoints spec))"
    using RenderISOPolicy_ok(2) [OF assms] by (simp add: validateISOEndpoints_iff endpoints_distinct_def)
  then have "distinct (map ep_Interface (ps_Endpoints (sorted_spec spec)))"
    by (simp add: sorted_spec_def) (metis distinct_map mset_eq_setD mset_sort_by distinct_sort_by)
  then show ?thesis by (simp add: policy_hooks_def nft_hooks_iso ipt_hooks_iso)
qed

lemma own_source_unique:
  assumes "distinct (map ep_Interface eps)" "ep \<in> set eps" "ep' \<in> set eps" "ep_Interface ep' = ep_Interface ep"
  shows "ep' = ep"
  using assms by (auto simp: distinct_map inj_on_def)

lemma non_public_iff: "non_public_dst spec p \<longleftrightarrow> \<not> IsPublicIPv4 (V4 (pk_dst p)) (ps_Pool spec)"
proof -
  have "in_prefixes (map Masked ps) x = in_prefixes ps x" for ps x
    by (simp add: in_prefixes_def list_ex_iff contains_Masked_v4)
  then show ?thesis
    using compact_ok [of "NonPublicIPv4Prefixes (ps_Pool spec)"]
    by (simp add: non_public_dst_def iso_non_public_def IsPublicIPv4_iff in_prefixes_def)
qed

lemma RenderISOPolicy_total:
  assumes "validateISOPolicySpec spec = Inr ()" "validateISOEndpoints (ps_Pool spec) (ps_Endpoints spec) = Inr ()"
    and "backend \<in> {BackendNFT, BackendIPTablesNFT, BackendIPTablesLegacy}"
  shows "\<exists>rules. RenderISOPolicy backend spec = Inr rules"
  using assms by (auto simp: RenderISOPolicy_def renderISOPolicyBackend_def Let_def)

lemma endpoint_source_in_pool:
  assumes r: "RenderISOPolicy backend spec = Inr rules" and ep: "ep \<in> set (ps_Endpoints spec)"
    and own: "in_prefixes (allowed_sources ep) x"
  shows "p_contains (ps_Pool spec) (V4 x)"
proof -
  obtain l where l: "NewLayout (ps_Pool spec) = Inr l" "endpoint_ok l ep"
    using ep RenderISOPolicy_ok(2) [OF r] by (auto simp: validateISOEndpoints_iff)
  have "ps_Pool spec = Masked (ps_Pool spec)"
    using RenderISOPolicy_ok(1) [OF r] by (auto simp: validateISOPolicySpec_def Let_def split: if_splits)
  then obtain b where b: "layout_at l b" "ps_Pool spec = v4_prefix b 16" using NewLayout_pool l(1) by blast
  show ?thesis using own_source_in_pool [OF l(2) b(1) own] b(2) by simp
qed

text \<open>The whole path of the first packet of a flow that an isolated service opens.\<close>

lemma outgoing_path:
  assumes r: "RenderISOPolicy backend spec = Inr rules" and ep: "ep \<in> set (ps_Endpoints spec)" "pk_iif p = ep_Interface ep"
  shows "new_path (iso_hooks (sorted_spec spec)) host ifaddr p =
    (if \<not> in_prefixes (allowed_sources ep) (pk_src p) then Stopped
     else if to_ports p [53]
     then To_host ((first_packet p)\<lparr>pk_dport := unat (ps_DNSPort spec), pk_dst := ifaddr (pk_iif p)\<rparr>)
     else if host (pk_dst p) \<or> to_ports p [853] \<or> \<not> IsPublicIPv4 (V4 (pk_dst p)) (ps_Pool spec) then Stopped
     else Forwarded (first_packet p) True)"
proof -
  let ?s = "sorted_spec spec" and ?q = "first_packet p"
  have v: "validateISOEndpoints (ps_Pool spec) (ps_Endpoints spec) = Inr ()" by (rule RenderISOPolicy_ok(2) [OF r])
  then have d: "distinct (map ep_Interface (ps_Endpoints spec))" by (auto simp: validateISOEndpoints_iff endpoints_distinct_def)
  have side: "iso_side ?s (pk_iif p)" using ep by (auto simp: iso_side_def sorted_spec_sel)
  have own: "own_source ?s x \<longleftrightarrow> in_prefixes (allowed_sources ep) (pk_src x)" if "pk_iif x = pk_iif p" for x
    using own_source_unique [OF d ep(1)] ep that by (auto simp: own_source_def sorted_spec_sel)
  have pool: "p_contains (ps_Pool spec) (V4 (pk_src p))" if "in_prefixes (allowed_sources ep) (pk_src p)"
    using endpoint_source_in_pool [OF r ep(1) that] .
  have dst: "non_public_dst ?s x \<longleftrightarrow> \<not> IsPublicIPv4 (V4 (pk_dst x)) (ps_Pool spec)" for x
    by (simp add: non_public_iff sorted_spec_sel)
  have q: "pk_iif ?q = pk_iif p" "pk_src ?q = pk_src p" "pk_dst ?q = pk_dst p" "pk_dport ?q = pk_dport p"
    "pk_proto ?q = pk_proto p" "pk_ct ?q = CT_New" "pk_origdport ?q = pk_dport p"
    by (simp_all add: first_packet_def)
  show ?thesis
  proof (cases "in_prefixes (allowed_sources ep) (pk_src p) \<and> \<not> to_ports p [53]")
    case True
    then show ?thesis
      using side own [of ?q] pool q
      by (auto simp: new_path_def Let_def passes_def iso_hooks_def at_input_def at_forward_def to_ports_def known_flow_def
          dst sorted_spec_sel)
  next
    case False
    then show ?thesis
      using side own [of ?q] q
      by (auto simp: new_path_def Let_def passes_def iso_hooks_def at_input_def to_ports_def known_flow_def sorted_spec_sel)
  qed
qed

lemma incoming_path:
  assumes "\<not> iso_side spec (pk_iif p)" "iso_side spec (pk_oif p)"
  shows "new_path (iso_hooks spec) host ifaddr p \<noteq> Forwarded q m"
proof -
  let ?q = "first_packet p"
  have q: "pk_iif ?q = pk_iif p" "pk_oif ?q = pk_oif p" "pk_ct ?q = CT_New" by (simp_all add: first_packet_def)
  have "h_forward (iso_hooks spec) ?q = Some Reject" "h_prenat (iso_hooks spec) ?q = None"
    using assms q by (simp_all add: iso_hooks_def Let_def known_flow_def)
  then show ?thesis by (simp add: new_path_def Let_def at_input_def at_forward_def passes_def)
qed

section \<open>Properties\<close>

text \<open>
  C28: isolation. Take the rules rendered for an accepted input, on any back end: their text is that of
  a policy under which the first packet of a flow from an isolated service, coming in on the service's
  own interface, is stopped unless its source is the service's link address or project; if it is
  for port 53 it ends at the host's resolver wherever it was sent; otherwise it is forwarded, and
  masqueraded, exactly when its destination is a public IPv4 address outside the pool, not the
  host and not port 853. No flow from another interface is forwarded to an isolated service, and
  IPv6 from or to one is dropped.
\<close>

theorem iso_isolation:
  assumes "RenderISOPolicy backend spec = Inr rules"
  defines "h \<equiv> policy_hooks backend (sorted_spec spec)"
    and "inside \<equiv> (\<lambda>i. i \<in> ep_Interface ` set (ps_Endpoints spec))"
  shows "[pr_IPv4 rules, pr_IPv6 rules, pr_IPSet rules] = policy_texts backend (sorted_spec spec) \<and>
    (\<forall>ep \<in> set (ps_Endpoints spec). \<forall>p. pk_iif p = ep_Interface ep \<longrightarrow>
       new_path h host ifaddr p =
         (if \<not> in_prefixes (allowed_sources ep) (pk_src p) then Stopped
          else if to_ports p [53]
          then To_host ((first_packet p)\<lparr>pk_dport := unat (ps_DNSPort spec), pk_dst := ifaddr (pk_iif p)\<rparr>)
          else if host (pk_dst p) \<or> to_ports p [853] \<or> \<not> IsPublicIPv4 (V4 (pk_dst p)) (ps_Pool spec) then Stopped
          else Forwarded (first_packet p) True)) \<and>
    (\<forall>p q m. \<not> inside (pk_iif p) \<and> inside (pk_oif p) \<longrightarrow> new_path h host ifaddr p \<noteq> Forwarded q m) \<and>
    (\<forall>p. inside (pk_iif p) \<longrightarrow> h_input6 h p = Some Drop) \<and>
    (\<forall>p. inside (pk_iif p) \<or> inside (pk_oif p) \<longrightarrow> h_forward6 h p = Some Drop)"
proof -
  have h: "h = iso_hooks (sorted_spec spec)" unfolding h_def by (rule rendered_hooks [OF assms(1)])
  have i: "iso_side (sorted_spec spec) x = inside x" for x by (simp add: iso_side_def inside_def sorted_spec_sel)
  have "h_input6 h p = Some Drop" if "inside (pk_iif p)" for p
    using that by (simp add: h iso_hooks_def Let_def i)
  moreover have "h_forward6 h p = Some Drop" if "inside (pk_iif p) \<or> inside (pk_oif p)" for p
    using that by (simp add: h iso_hooks_def Let_def i)
  ultimately show ?thesis
    using RenderISOPolicy_ok(3) [OF assms(1)] outgoing_path [OF assms(1)] incoming_path [of "sorted_spec spec"]
    unfolding h i by blast
qed

definition example_endpoint :: "nat \<Rightarrow> ISOEndpoint" where
  "example_endpoint k =
     \<lparr>ep_Interface = ''yi-'' @ nat_digits k, ep_Link = v4_prefix (0xAC1E0000 + of_nat (4 * k)) 30,
      ep_PeerIP = V4 (0xAC1E0002 + of_nat (4 * k)), ep_Project = v4_prefix (0xAC1E8000 + of_nat (32 * k)) 27,
      ep_Tailscale = False\<rparr>"

definition example_spec :: ISOPolicySpec where
  "example_spec = \<lparr>ps_Pool = v4_prefix 0xAC1E0000 16, ps_DNSPort = 5353, ps_Endpoints = [example_endpoint 1, example_endpoint 0]\<rparr>"

definition example_packet :: "32 word \<Rightarrow> 32 word \<Rightarrow> nat \<Rightarrow> packet" where
  "example_packet src dst port =
     \<lparr>pk_iif = ''yi-0'', pk_oif = ''eth0'', pk_src = src, pk_dst = dst, pk_proto = L4_TCP, pk_dport = port,
      pk_ct = CT_New, pk_origdport = port\<rparr>"

lemma example_spec_ok:
  "validateISOPolicySpec example_spec = Inr ()"
  "validateISOEndpoints (ps_Pool example_spec) (ps_Endpoints example_spec) = Inr ()"
  by code_simp+

text \<open>A service reaches a public web server, not the service next to it, and not with a foreign source.\<close>

theorem iso_isolation_witness:
  "\<exists>rules. RenderISOPolicy BackendNFT example_spec = Inr rules \<and>
     [pr_IPv4 rules, pr_IPv6 rules, pr_IPSet rules] = policy_texts BackendNFT (sorted_spec example_spec) \<and>
     (let path = new_path (policy_hooks BackendNFT (sorted_spec example_spec)) (\<lambda>_. False) (\<lambda>_. 0) in
      path (example_packet 0xAC1E0002 0x08080808 443) = Forwarded (example_packet 0xAC1E0002 0x08080808 443) True \<and>
      path (example_packet 0xAC1E0002 0xAC1E0006 443) = Stopped \<and>
      path (example_packet 0xAC1E0006 0x08080808 443) = Stopped)"
proof -
  obtain rules where r: "RenderISOPolicy BackendNFT example_spec = Inr rules"
    using RenderISOPolicy_total [OF example_spec_ok, of BackendNFT] by auto
  have ep: "example_endpoint 0 \<in> set (ps_Endpoints example_spec)" by (simp add: example_spec_def)
  have "ep_Interface (example_endpoint 0) = ''yi-0''" by code_simp
  then have i: "pk_iif (example_packet a b n) = ep_Interface (example_endpoint 0)" for a b n
    by (simp add: example_packet_def)
  have fp: "first_packet (example_packet a b n) = example_packet a b n" for a b n
    by (simp add: first_packet_def example_packet_def)
  have sel: "pk_src (example_packet a b n) = a" "pk_dst (example_packet a b n) = b"
    "to_ports (example_packet a b n) ns = (n \<in> set ns)" for a b n ns
    by (simp_all add: example_packet_def to_ports_def)
  have "in_prefixes (allowed_sources (example_endpoint 0)) 0xAC1E0002"
    "\<not> in_prefixes (allowed_sources (example_endpoint 0)) 0xAC1E0006"
    "IsPublicIPv4 (V4 0x08080808) (ps_Pool example_spec)" "\<not> IsPublicIPv4 (V4 0xAC1E0006) (ps_Pool example_spec)"
    by code_simp+
  then show ?thesis
    using r iso_isolation [OF r, of "\<lambda>_. False" "\<lambda>_. 0"] ep
    by (intro exI [of _ rules]) (simp add: i fp sel Let_def)
qed

text \<open>
  C29: the two back ends agree. An input is accepted by one exactly when it is accepted by the others,
  and then the nft table and the iptables chains with their sets give the same verdict at every
  hook for every packet.
\<close>

theorem backends_agree:
  assumes "RenderISOPolicy backend spec = Inr rules"
    and "backend' \<in> {BackendNFT, BackendIPTablesNFT, BackendIPTablesLegacy}"
  shows "\<exists>rules'. RenderISOPolicy backend' spec = Inr rules' \<and>
    [pr_IPv4 rules', pr_IPv6 rules', pr_IPSet rules'] = policy_texts backend' (sorted_spec spec) \<and>
    policy_hooks backend' (sorted_spec spec) = policy_hooks backend (sorted_spec spec)"
proof -
  obtain rules' where r: "RenderISOPolicy backend' spec = Inr rules'"
    using RenderISOPolicy_total [OF RenderISOPolicy_ok(1,2) [OF assms(1)] assms(2)] by blast
  with RenderISOPolicy_ok(3) [OF r] show ?thesis by (simp add: rendered_hooks [OF assms(1)] rendered_hooks [OF r])
qed

theorem backends_agree_witness:
  "\<exists>rules rules'. RenderISOPolicy BackendNFT example_spec = Inr rules \<and>
     RenderISOPolicy BackendIPTablesLegacy example_spec = Inr rules' \<and>
     policy_hooks BackendIPTablesLegacy (sorted_spec example_spec) = policy_hooks BackendNFT (sorted_spec example_spec)"
proof -
  obtain rules where r: "RenderISOPolicy BackendNFT example_spec = Inr rules"
    using RenderISOPolicy_total [OF example_spec_ok, of BackendNFT] by auto
  then show ?thesis using backends_agree [OF r, of BackendIPTablesLegacy] by auto
qed

text \<open>
  The order in which the endpoints are listed never matters: an input with its endpoints permuted is
  accepted alike and gives the same rules, text, sets and digest.
\<close>

theorem render_order:
  assumes "RenderISOPolicy backend spec = Inr rules" and "mset eps = mset (ps_Endpoints spec)"
  shows "RenderISOPolicy backend (spec\<lparr>ps_Endpoints := eps\<rparr>) = Inr rules"
proof -
  let ?s = "spec\<lparr>ps_Endpoints := eps\<rparr>"
  have v: "validateISOEndpoints (ps_Pool spec) (ps_Endpoints spec) = Inr ()" by (rule RenderISOPolicy_ok(2) [OF assms(1)])
  then have "validateISOEndpoints (ps_Pool spec) eps = Inr ()" using validateISOEndpoints_mset assms(2) by metis
  moreover have "distinct (map ep_Interface eps)"
    using v endpoints_distinct_mset [OF assms(2)] by (simp add: validateISOEndpoints_iff endpoints_distinct_def)
  then have "sort_by less_interface eps = sort_by less_interface (ps_Endpoints spec)"
    by (rule sort_interfaces_cong [OF assms(2)])
  then have "sorted_spec ?s = sorted_spec spec" by (simp add: sorted_spec_def)
  moreover have "validateISOPolicySpec ?s = validateISOPolicySpec spec" by (simp add: validateISOPolicySpec_def)
  ultimately show ?thesis
    using assms(1) v RenderISOPolicy_ok(1) [OF assms(1)] by (simp add: RenderISOPolicy_def)
qed

theorem render_order_witness:
  "\<exists>rules. RenderISOPolicy BackendNFT example_spec = Inr rules \<and>
     RenderISOPolicy BackendNFT (example_spec\<lparr>ps_Endpoints := [example_endpoint 0, example_endpoint 1]\<rparr>) = Inr rules"
proof -
  obtain rules where r: "RenderISOPolicy BackendNFT example_spec = Inr rules"
    using RenderISOPolicy_total [OF example_spec_ok, of BackendNFT] by auto
  have "mset [example_endpoint 0, example_endpoint 1] = mset (ps_Endpoints example_spec)" by (simp add: example_spec_def)
  from render_order [OF r this] r show ?thesis by blast
qed

text \<open>
  Compacting a list of prefixes changes no address: the result contains exactly the IPv4 addresses
  the list contains, no two of its prefixes share an address (nft refuses overlapping intervals),
  and each of them is one of the masked input prefixes.
\<close>

theorem compact_exact:
  "(\<forall>x. in_prefixes (compactISOPrefixes ps) x = in_prefixes ps x) \<and>
   sorted_wrt disjoint_prefixes (compactISOPrefixes ps) \<and>
   set (compactISOPrefixes ps) \<subseteq> Masked ` set ps"
  using compact_ok [of ps] by (auto simp: canonicalISOIPv4Prefixes_def)

end
