(* ===== verification/Iso_Fw_Apply.thy ===== *)
theory Iso_Fw_Apply
  imports Iso_Fw_Isolation Go_Text
begin

text \<open>
  Installing and verifying the host firewall of isolated services, the second half of
  \<^verbatim>\<open>src/pkg/netns/iso_firewall.go\<close>, with the lookup of the iptables binary from
  \<^verbatim>\<open>src/pkg/netns/firewall.go\<close>: ipsets are filled under a temporary name and swapped in, owned chains
  are restored without touching others, the jumps to them are reconciled, and what the tools then
  list must have the digest of the desired rules.

  The tools are a parameter: \<open>t_exec\<close> runs a command with its standard input on a state \<open>'k\<close> of the
  kernel and gives an error text, if it fails, and the combined output; \<open>t_look\<close> says whether a command
  is in the path. The theorems rely on documented behaviour of the tools, stated as hypotheses:
  \<open>ipset_restores\<close> for \<^verbatim>\<open>ipset restore -exist\<close> and \<open>jump_tool\<close> for iptables listing, deleting and
  inserting rules. A command may fail at any point.
\<close>

section \<open>Commands\<close>

record 'k tools =
  t_exec :: "string \<Rightarrow> string \<Rightarrow> string list \<Rightarrow> 'k \<Rightarrow> (string option \<times> string) \<times> 'k"
  t_look :: "string \<Rightarrow> bool"

text \<open>\<open>Fw m\<close> is an error with message m, \<open>FwQ m x\<close> one that quotes x, \<open>FwIn m e\<close> wraps e with context m.\<close>

datatype fw_apply_err = Fw string | FwQ string string | FwIn string fw_apply_err

type_synonym ('k, 'a) io = "'k \<Rightarrow> (fw_apply_err + 'a) \<times> 'k"

definition fail :: "fw_apply_err \<Rightarrow> ('k, 'a) io" where
  "fail e k = (Inl e, k)"

definition ok :: "'a \<Rightarrow> ('k, 'a) io" where
  "ok x k = (Inr x, k)"

definition seq :: "('k, 'a) io \<Rightarrow> ('a \<Rightarrow> ('k, 'b) io) \<Rightarrow> ('k, 'b) io" where
  "seq m f k = (case m k of (Inl e, k') \<Rightarrow> (Inl e, k') | (Inr x, k') \<Rightarrow> f x k')"

definition ctx :: "string \<Rightarrow> ('k, 'a) io \<Rightarrow> ('k, 'a) io" where
  "ctx m a k = (case a k of (Inl e, k') \<Rightarrow> (Inl (FwIn m e), k') | (Inr x, k') \<Rightarrow> (Inr x, k'))"

fun all_steps :: "('k, unit) io list \<Rightarrow> ('k, unit) io" where
  "all_steps [] = ok ()"
| "all_steps (a # as) = seq a (\<lambda>_. all_steps as)"

text \<open>The text of a failed command: the error, and the trimmed output when there is some.\<close>

definition command_error :: "string \<Rightarrow> string list \<Rightarrow> string \<Rightarrow> string \<Rightarrow> string" where
  "command_error name args e out =
     ''run '' @ name @ '' '' @ Join args '' '' @ '': '' @ e @
     (if TrimSpace out = [] then [] else '': '' @ TrimSpace out)"

definition runISOCommand :: "'k tools \<Rightarrow> string \<Rightarrow> string \<Rightarrow> string list \<Rightarrow> 'k \<Rightarrow> (string + string) \<times> 'k" where
  "runISOCommand T input name args k =
     (case t_exec T input name args k of
        ((Some e, out), k') \<Rightarrow> (Inl (command_error name args e out), k')
      | ((None, out), k') \<Rightarrow> (Inr out, k'))"

definition run :: "'k tools \<Rightarrow> string \<Rightarrow> string \<Rightarrow> string list \<Rightarrow> ('k, string) io" where
  "run T input name args k =
     (case runISOCommand T input name args k of (Inl m, k') \<Rightarrow> (Inl (Fw m), k') | (Inr out, k') \<Rightarrow> (Inr out, k'))"

definition iptablesWaitArg :: string where "iptablesWaitArg = ''--wait''"

section \<open>Binaries\<close>

definition iptablesVersion :: "'k tools \<Rightarrow> string \<Rightarrow> ('k, string) io" where
  "iptablesVersion T name k =
     (if \<not> t_look T name then (Inl (Fw (name @ '' command not found'')), k)
      else
        (case t_exec T [] name [''--version''] k of
           ((Some e, out), k') \<Rightarrow> (Inl (Fw (''failed to run '' @ name @ '' --version: '' @ e)), k')
         | ((None, out), k') \<Rightarrow> (Inr (TrimSpace out), k')))"

fun first_binary :: "'k tools \<Rightarrow> string \<Rightarrow> string list \<Rightarrow> fw_apply_err \<Rightarrow> ('k, string) io" where
  "first_binary T mark [] e k = (Inl e, k)"
| "first_binary T mark (c # cs) e k =
     (case iptablesVersion T c k of
        (Inr v, k') \<Rightarrow> if Contains (ToLower v) mark then (Inr c, k') else first_binary T mark cs e k'
      | (Inl _, k') \<Rightarrow> first_binary T mark cs e k')"

definition iptablesBinary :: "'k tools \<Rightarrow> FirewallBackend \<Rightarrow> ('k, string) io" where
  "iptablesBinary T backend =
     (if backend = BackendIPTablesNFT then
        first_binary T ''nf_tables'' [''iptables-nft'', ''iptables'']
          (Fw ''iptables nft backend requested but no iptables binary found'')
      else if backend = BackendIPTablesLegacy then
        first_binary T ''legacy'' [''iptables-legacy'', ''iptables'']
          (Fw ''iptables legacy backend requested but no iptables binary found'')
      else fail (FwQ ''iptables binary lookup is unsupported for firewall backend'' backend))"

definition isoIPTablesTools :: "FirewallBackend \<Rightarrow> bool \<Rightarrow> fw_apply_err + string \<times> string" where
  "isoIPTablesTools backend ipv6 =
     (let prefix = (if ipv6 then ''ip6tables'' else ''iptables'') in
      if backend = BackendIPTablesNFT then Inr (prefix @ ''-nft-restore'', prefix @ ''-nft-save'')
      else if backend = BackendIPTablesLegacy then Inr (prefix @ ''-legacy-restore'', prefix @ ''-legacy-save'')
      else Inl (FwQ ''unsupported iptables backend'' backend))"

section \<open>ipsets\<close>

type_synonym creates = "(string \<times> string) list"
type_synonym entries = "(string \<times> string list) list"

fun parse_ipset_lines :: "string list \<Rightarrow> creates \<times> entries \<Rightarrow> fw_apply_err + creates \<times> entries" where
  "parse_ipset_lines [] acc = Inr acc"
| "parse_ipset_lines (raw # rest) (creates, entries) =
     (let line = TrimSpace raw; fs = Fields line in
      if fs = [] then parse_ipset_lines rest (creates, entries)
      else if hd fs = ''create'' then
        (if length fs < 3 then Inl (FwQ ''invalid ISO ipset create line'' line)
         else parse_ipset_lines rest (AList.update (fs ! 1) (Join (drop 2 fs) '' '') creates, entries))
      else if hd fs = ''add'' then
        (if length fs < 3 then Inl (FwQ ''invalid ISO ipset add line'' line)
         else parse_ipset_lines rest (creates, append_line (fs ! 1) (Join (drop 2 fs) '' '') entries))
      else Inl (FwQ ''invalid ISO ipset command'' line))"

definition parseISOIPSetRestore :: "string \<Rightarrow> fw_apply_err + creates \<times> entries" where
  "parseISOIPSetRestore desired =
     parse_ipset_lines (Split desired (CHR 0x0A)) ([], [(isoIPSetSources, []), (isoIPSetNonPublic, [])])"

definition create_line :: "string \<Rightarrow> string \<Rightarrow> string" where
  "create_line name kind = ''create '' @ name @ '' '' @ kind"

definition add_line :: "string \<Rightarrow> string \<Rightarrow> string" where
  "add_line name e = ''add '' @ name @ '' '' @ e"

definition flush_line :: "string \<Rightarrow> string" where
  "flush_line name = ''flush '' @ name"

definition swap_line :: "string \<Rightarrow> string \<Rightarrow> string" where
  "swap_line a b = ''swap '' @ a @ '' '' @ b"

definition destroy_line :: "string \<Rightarrow> string" where
  "destroy_line name = ''destroy '' @ name"

definition swap_script :: "string \<Rightarrow> string \<Rightarrow> string list \<Rightarrow> string list" where
  "swap_script name kind es =
     (let temp = name @ ''_next'' in
      [create_line name kind, create_line temp kind, flush_line temp] @ map (add_line temp) es @
      [swap_line temp name, destroy_line temp])"

definition swap_lines :: "creates \<Rightarrow> entries \<Rightarrow> string \<Rightarrow> fw_apply_err + string list" where
  "swap_lines creates entries name =
     (case map_of creates name of
        None \<Rightarrow> Inl (Fw (''ISO ipset '' @ name @ '' is missing''))
      | Some kind \<Rightarrow> Inr (swap_script name kind (lines_of entries name)))"

definition renderISOIPSetSwaps :: "creates \<times> entries \<Rightarrow> fw_apply_err + string" where
  "renderISOIPSetSwaps p =
     (case p of (creates, entries) \<Rightarrow>
        (case swap_lines creates entries isoIPSetSources of
           Inl e \<Rightarrow> Inl e
         | Inr ls1 \<Rightarrow>
             (case swap_lines creates entries isoIPSetNonPublic of
                Inl e \<Rightarrow> Inl e
              | Inr ls2 \<Rightarrow> Inr (lines_text (ls1 @ ls2)))))"

definition renderAtomicISOIPSetRestore :: "string \<Rightarrow> fw_apply_err + string" where
  "renderAtomicISOIPSetRestore desired =
     (case parseISOIPSetRestore desired of Inl e \<Rightarrow> Inl e | Inr p \<Rightarrow> renderISOIPSetSwaps p)"

definition unsupported :: "string \<Rightarrow> fw_apply_err" where
  "unsupported backend = FwQ ''unsupported ISO firewall backend'' backend"

definition applyISOIPSets :: "'k tools \<Rightarrow> ISOPolicyRules \<Rightarrow> ('k, unit) io" where
  "applyISOIPSets T rules =
     (if pr_Backend rules = BackendNFT then ok ()
      else if pr_Backend rules \<noteq> BackendIPTablesNFT \<and> pr_Backend rules \<noteq> BackendIPTablesLegacy
      then fail (unsupported (pr_Backend rules))
      else
        (case renderAtomicISOIPSetRestore (pr_IPSet rules) of
           Inl e \<Rightarrow> fail e
         | Inr script \<Rightarrow> ctx ''apply ISO ipsets'' (seq (run T script ''ipset'' [''restore'', ''-exist'']) (\<lambda>_. ok ()))))"

section \<open>nft tables\<close>

definition isoNamedNFTTableExists ::
  "'k tools \<Rightarrow> string \<Rightarrow> string list \<Rightarrow> string \<Rightarrow> string \<Rightarrow> ('k, bool) io" where
  "isoNamedNFTTableExists T name prefix family table k =
     (case runISOCommand T [] name (prefix @ [''list'', ''table'', family, table]) k of
        (Inr _, k') \<Rightarrow> (Inr True, k')
      | (Inl m, k') \<Rightarrow>
          if Contains (ToLower m) ''no such file or directory'' then (Inr False, k')
          else (Inl (FwIn (''probe ISO nft '' @ family @ '' table '' @ table) (Fw m)), k'))"

definition applyISONamedNFTTable ::
  "'k tools \<Rightarrow> string \<Rightarrow> string list \<Rightarrow> string \<Rightarrow> string \<Rightarrow> string \<Rightarrow> ('k, unit) io" where
  "applyISONamedNFTTable T name prefix family table rendered =
     seq (isoNamedNFTTableExists T name prefix family table)
       (\<lambda>present.
          seq (run T ((if present then ''delete table '' @ family @ '' '' @ table @ nl else []) @ rendered)
                 name (prefix @ [''-f'', ''-'']))
            (\<lambda>_. ok ()))"

definition applyISONFTTable :: "'k tools \<Rightarrow> string \<Rightarrow> string \<Rightarrow> ('k, unit) io" where
  "applyISONFTTable T family rendered = applyISONamedNFTTable T ''nft'' [] family isoNFTTable rendered"

section \<open>iptables chains\<close>

definition isISOBuiltinJump :: "string \<Rightarrow> bool" where
  "isISOBuiltinJump line \<longleftrightarrow>
     list_ex (HasPrefix line)
       [''-A PREROUTING -j YEET_ISO_'', ''-A POSTROUTING -j YEET_ISO_'', ''-A INPUT -j YEET_ISO_'', ''-A FORWARD -j YEET_ISO_'']"

definition iptablesRestoreOwnedChains :: "string \<Rightarrow> string" where
  "iptablesRestoreOwnedChains rendered =
     lines_text (filter (\<lambda>l. l \<noteq> [] \<and> \<not> isISOBuiltinJump l) (map TrimSpace (Split rendered (CHR 0x0A))))"

fun jump_state_loop :: "string \<Rightarrow> string \<Rightarrow> string list \<Rightarrow> nat \<times> nat \<times> bool \<Rightarrow> nat \<times> nat \<times> bool" where
  "jump_state_loop chain want [] acc = acc"
| "jump_state_loop chain want (line # rest) (ruleIndex, cnt, first) =
     (let fs = Fields line in
      if length fs < 2 \<or> fs ! 0 \<noteq> ''-A'' \<or> fs ! 1 \<noteq> chain
      then jump_state_loop chain want rest (ruleIndex, cnt, first)
      else if Join fs '' '' = want
      then jump_state_loop chain want rest (Suc ruleIndex, Suc cnt, first \<or> ruleIndex = 0)
      else jump_state_loop chain want rest (Suc ruleIndex, cnt, first))"

definition isoIPTablesJumpState :: "string \<Rightarrow> string \<Rightarrow> string \<Rightarrow> nat \<times> bool" where
  "isoIPTablesJumpState raw chain target =
     snd (jump_state_loop chain (''-A '' @ chain @ '' -j '' @ target) (Split raw (CHR 0x0A)) (0, 0, False))"

fun delete_jumps :: "nat \<Rightarrow> ('k, string) io \<Rightarrow> ('k, unit) io" where
  "delete_jumps 0 a = ok ()"
| "delete_jumps (Suc n) a = seq a (\<lambda>_. delete_jumps n a)"

definition reconcileISOIPTablesJump ::
  "'k tools \<Rightarrow> string \<Rightarrow> string list \<Rightarrow> string \<Rightarrow> string \<Rightarrow> string \<Rightarrow> ('k, unit) io" where
  "reconcileISOIPTablesJump T name prefix table chain target =
     (let args = (\<lambda>opr. prefix @ [iptablesWaitArg, ''-t'', table] @ opr); spot = table @ ''/'' @ chain in
      seq (ctx (''inspect ISO jump '' @ spot) (run T [] name (args [''-S'', chain])))
        (\<lambda>out. case isoIPTablesJumpState out chain target of (cnt, first) \<Rightarrow>
           if cnt = 1 \<and> first then ok ()
           else
             seq (ctx (''remove stale ISO jump '' @ spot)
                    (delete_jumps cnt (run T [] name (args [''-D'', chain, ''-j'', target]))))
               (\<lambda>_. seq (ctx (''install ISO jump '' @ spot)
                          (run T [] name (args [''-I'', chain, ''1'', ''-j'', target])))
                      (\<lambda>_. ok ()))))"

text \<open>\<^verbatim>\<open>strings.Replace(bin, "iptables", "ip6tables", 1)\<close>: the first occurrence.\<close>

fun replace_first :: "string \<Rightarrow> string \<Rightarrow> string \<Rightarrow> string" where
  "replace_first [] old new = []"
| "replace_first (c # s) old new =
     (if HasPrefix (c # s) old then new @ drop (length old) (c # s) else c # replace_first s old new)"

definition iso_jumps :: "bool \<Rightarrow> (string \<times> string \<times> string) list" where
  "iso_jumps ipv6 =
     [(''filter'', ''INPUT'', isoIPTablesInput), (''filter'', ''FORWARD'', isoIPTablesForward)] @
     (if ipv6 then []
      else [(''mangle'', ''PREROUTING'', isoIPTablesMangle), (''nat'', ''PREROUTING'', isoIPTablesPreRoute),
            (''nat'', ''POSTROUTING'', isoIPTablesPostRoute)])"

definition ensureISOIPTablesJumps :: "'k tools \<Rightarrow> FirewallBackend \<Rightarrow> bool \<Rightarrow> ('k, unit) io" where
  "ensureISOIPTablesJumps T backend ipv6 =
     seq (iptablesBinary T backend)
       (\<lambda>bin. let bin' = (if ipv6 then replace_first bin ''iptables'' ''ip6tables'' else bin) in
          all_steps (map (\<lambda>(table, chain, target). reconcileISOIPTablesJump T bin' [] table chain target)
                       (iso_jumps ipv6)))"

definition apply_family :: "'k tools \<Rightarrow> ISOPolicyRules \<Rightarrow> bool \<Rightarrow> ('k, unit) io" where
  "apply_family T rules ipv6 =
     (let rendered = (if ipv6 then pr_IPv6 rules else pr_IPv4 rules); ver = (if ipv6 then ''IPv6'' else ''IPv4'') in
      if pr_Backend rules = BackendNFT then
        ctx (''apply ISO nft '' @ ver @ '' policy'') (applyISONFTTable T (if ipv6 then ''ip6'' else ''ip'') rendered)
      else if pr_Backend rules = BackendIPTablesNFT \<or> pr_Backend rules = BackendIPTablesLegacy then
        (case isoIPTablesTools (pr_Backend rules) ipv6 of
           Inl e \<Rightarrow> fail e
         | Inr (restore, _) \<Rightarrow>
             seq (ctx (''apply ISO '' @ ver @ '' policy'')
                    (run T (iptablesRestoreOwnedChains rendered) restore [iptablesWaitArg, ''--noflush'']))
               (\<lambda>_. ensureISOIPTablesJumps T (pr_Backend rules) ipv6))
      else fail (unsupported (pr_Backend rules)))"

definition applyISOIPv4 :: "'k tools \<Rightarrow> ISOPolicyRules \<Rightarrow> ('k, unit) io" where
  "applyISOIPv4 T rules = apply_family T rules False"

definition applyISOIPv6 :: "'k tools \<Rightarrow> ISOPolicyRules \<Rightarrow> ('k, unit) io" where
  "applyISOIPv6 T rules = apply_family T rules True"

section \<open>Verification of the live policy\<close>

definition live_rules :: "FirewallBackend \<Rightarrow> string \<Rightarrow> string \<Rightarrow> string \<Rightarrow> ISOPolicyRules" where
  "live_rules backend v4 v6 ipset =
     \<lparr>pr_Backend = backend, pr_IPv4 = v4, pr_IPv6 = v6, pr_IPSet = ipset, pr_Decisions = [], pr_Digest = []\<rparr>"

definition readLiveISOPolicy :: "'k tools \<Rightarrow> FirewallBackend \<Rightarrow> ('k, ISOPolicyRules) io" where
  "readLiveISOPolicy T backend =
     (if backend = BackendNFT then
        seq (ctx ''read live ISO nft IPv4 policy'' (run T [] ''nft'' [''list'', ''table'', ''ip'', isoNFTTable]))
          (\<lambda>v4. seq (ctx ''read live ISO firewall policy'' (run T [] ''nft'' [''list'', ''table'', ''ip6'', isoNFTTable]))
            (\<lambda>v6. ok (live_rules backend v4 v6 [])))
      else if backend = BackendIPTablesNFT \<or> backend = BackendIPTablesLegacy then
        (case isoIPTablesTools backend False of
           Inl e \<Rightarrow> fail e
         | Inr (_, save4) \<Rightarrow>
             (case isoIPTablesTools backend True of
                Inl e \<Rightarrow> fail e
              | Inr (_, save6) \<Rightarrow>
                  ctx ''read live ISO firewall policy''
                    (seq (run T [] save4 []) (\<lambda>v4. seq (run T [] save6 []) (\<lambda>v6.
                       seq (run T [] ''ipset'' [''save'']) (\<lambda>sets. ok (live_rules backend v4 v6 sets)))))))
      else fail (unsupported backend))"

definition VerifyISOPolicy :: "'k tools \<Rightarrow> ISOPolicyRules \<Rightarrow> ('k, unit) io" where
  "VerifyISOPolicy T want =
     seq (readLiveISOPolicy T (pr_Backend want))
       (\<lambda>live. if digestISOPolicy live \<noteq> pr_Digest want
               then fail (Fw (''ISO firewall policy digest mismatch: got '' @ digestISOPolicy live @ '' want '' @ pr_Digest want))
               else ok ())"

definition EnsureISOPolicy :: "'k tools \<Rightarrow> ISOPolicyRules \<Rightarrow> ('k, unit) io" where
  "EnsureISOPolicy T rules =
     (if pr_Digest rules = [] \<or> pr_Digest rules \<noteq> digestISOPolicy rules
      then fail (Fw ''ISO firewall policy has an invalid desired digest'')
      else
        seq (applyISOIPSets T rules) (\<lambda>_. seq (applyISOIPv4 T rules) (\<lambda>_.
          seq (applyISOIPv6 T rules) (\<lambda>_. VerifyISOPolicy T rules))))"

section \<open>What ipset does with a script\<close>

text \<open>
  The documented effect of the commands of a script under \<^verbatim>\<open>-exist\<close>: creating a set that exists with the
  same type and adding an entry that is there are no errors; \<^verbatim>\<open>swap\<close> exchanges the contents of two
  sets of one type; \<open>None\<close> is an error.
\<close>

type_synonym ipset_state = "string \<Rightarrow> (string \<times> string set) option"

definition ipset_create :: "string \<Rightarrow> string \<Rightarrow> ipset_state \<Rightarrow> ipset_state option" where
  "ipset_create n kind st =
     (case st n of None \<Rightarrow> Some (st(n \<mapsto> (kind, {}))) | Some (k, _) \<Rightarrow> if k = kind then Some st else None)"

definition ipset_fill :: "string \<Rightarrow> (string set \<Rightarrow> string set) \<Rightarrow> ipset_state \<Rightarrow> ipset_state option" where
  "ipset_fill n f st = (case st n of None \<Rightarrow> None | Some (k, es) \<Rightarrow> Some (st(n \<mapsto> (k, f es))))"

definition ipset_swap :: "string \<Rightarrow> string \<Rightarrow> ipset_state \<Rightarrow> ipset_state option" where
  "ipset_swap a b st =
     (case (st a, st b) of
        (Some (k, es), Some (k', es')) \<Rightarrow> if k = k' then Some (st(a \<mapsto> (k, es'), b \<mapsto> (k, es))) else None
      | _ \<Rightarrow> None)"

definition ipset_destroy :: "string \<Rightarrow> ipset_state \<Rightarrow> ipset_state option" where
  "ipset_destroy n st = (if st n = None then None else Some (st(n := None)))"

definition ipset_command :: "string list \<Rightarrow> ipset_state \<Rightarrow> ipset_state option" where
  "ipset_command fs st =
     (case fs of
        [] \<Rightarrow> Some st
      | c # args \<Rightarrow>
          if c = ''create'' \<and> 2 \<le> length args then ipset_create (hd args) (Join (tl args) '' '') st
          else if c = ''add'' \<and> 2 \<le> length args then ipset_fill (hd args) (insert (Join (tl args) '' '')) st
          else if c = ''flush'' \<and> length args = 1 then ipset_fill (hd args) (\<lambda>_. {}) st
          else if c = ''swap'' \<and> length args = 2 then ipset_swap (hd args) (args ! 1) st
          else if c = ''destroy'' \<and> length args = 1 then ipset_destroy (hd args) st
          else None)"

fun run_ipset :: "string list \<Rightarrow> ipset_state \<Rightarrow> ipset_state option" where
  "run_ipset [] st = Some st"
| "run_ipset (l # ls) st = (case ipset_command (Fields l) st of None \<Rightarrow> None | Some st' \<Rightarrow> run_ipset ls st')"

text \<open>
  A restore runs the lines in order and stops where one fails or where it is interrupted; when it
  reports success it has run them all.
\<close>

definition ipset_restores :: "'k tools \<Rightarrow> ('k \<Rightarrow> ipset_state) \<Rightarrow> bool" where
  "ipset_restores T sets \<longleftrightarrow>
     (\<forall>script k r out k'. t_exec T script ''ipset'' [''restore'', ''-exist''] k = ((r, out), k') \<longrightarrow>
        (\<exists>m. run_ipset (take m (Split script (CHR 0x0A))) (sets k) = Some (sets k') \<and>
             (r = None \<longrightarrow> length (Split script (CHR 0x0A)) \<le> m)))"

section \<open>The swap script\<close>

lemma run_ipset_append:
  "run_ipset (a @ b) st = (case run_ipset a st of None \<Rightarrow> None | Some st' \<Rightarrow> run_ipset b st')"
  by (induction a arbitrary: st) (auto split: option.splits)

lemma command_line: "ws \<noteq> [] \<Longrightarrow> c @ '' '' @ n @ '' '' @ Join ws '' '' = Join (c # n # ws) '' ''"
  by (cases ws) auto

lemma Fields_line1: "word_text c \<Longrightarrow> word_text n \<Longrightarrow> Fields (c @ '' '' @ n) = [c, n]"
  using Fields_Join [of "[c, n]"] by simp

lemma Fields_line2: "word_text c \<Longrightarrow> word_text n \<Longrightarrow> word_text m \<Longrightarrow> Fields (c @ '' '' @ n @ '' '' @ m) = [c, n, m]"
  using Fields_Join [of "[c, n, m]"] by simp

lemma Fields_create:
  "word_text c \<Longrightarrow> word_text n \<Longrightarrow> ws \<noteq> [] \<Longrightarrow> list_all word_text ws \<Longrightarrow>
   Fields (c @ '' '' @ n @ '' '' @ Join ws '' '') = c # n # ws"
  unfolding command_line by (rule Fields_Join) simp

lemma command_words: "word_text ''create''" "word_text ''add''" "word_text ''flush''" "word_text ''swap''" "word_text ''destroy''"
  "word_text ''family''" "word_text ''inet''" "word_text ''hash:net,iface''" "word_text ''hash:net''"
  by code_simp+

lemma run_create:
  assumes "word_text n" "ws \<noteq> []" "list_all word_text ws"
  shows "ipset_command (Fields (create_line n (Join ws '' ''))) = ipset_create n (Join ws '' '')"
proof -
  have "Fields (create_line n (Join ws '' '')) = ''create'' # n # ws"
    using Fields_create [of "''create''" n ws] command_words assms by (simp add: create_line_def)
  then show ?thesis using assms(2) by (cases ws) (auto simp: ipset_command_def)
qed

lemma run_flush: "word_text n \<Longrightarrow> ipset_command (Fields (flush_line n)) = ipset_fill n (\<lambda>_. {})"
  using Fields_line1 [of "''flush''" n] command_words by (auto simp: flush_line_def ipset_command_def)

lemma run_add: "word_text n \<Longrightarrow> word_text e \<Longrightarrow> ipset_command (Fields (add_line n e)) = ipset_fill n (insert e)"
  using Fields_line2 [of "''add''" n e] command_words by (auto simp: add_line_def ipset_command_def)

lemma run_swap: "word_text a \<Longrightarrow> word_text b \<Longrightarrow> ipset_command (Fields (swap_line a b)) = ipset_swap a b"
  using Fields_line2 [of "''swap''" a b] command_words by (auto simp: swap_line_def ipset_command_def)

lemma run_destroy: "word_text n \<Longrightarrow> ipset_command (Fields (destroy_line n)) = ipset_destroy n"
  using Fields_line1 [of "''destroy''" n] command_words by (auto simp: destroy_line_def ipset_command_def)

lemma run_adds:
  assumes "list_all word_text es" "word_text t" "st t = Some (kind, A)"
  shows "run_ipset (map (add_line t) es) st = Some (st(t \<mapsto> (kind, A \<union> set es)))"
  using assms
proof (induction es arbitrary: st A)
  case Nil
  then show ?case by (simp add: fun_upd_idem)
next
  case (Cons e es)
  have "run_ipset (map (add_line t) es) (st(t \<mapsto> (kind, insert e A))) = Some (st(t \<mapsto> (kind, insert e A), t \<mapsto> (kind, insert e A \<union> set es)))"
    by (rule Cons.IH) (use Cons.prems in simp_all)
  then show ?case using Cons.prems by (simp add: run_add ipset_fill_def del: fun_upd_apply)
qed

definition swap_safe :: "string \<Rightarrow> string \<Rightarrow> string set \<Rightarrow> ipset_state \<Rightarrow> ipset_state \<Rightarrow> bool" where
  "swap_safe n kind es st st' \<longleftrightarrow>
     (st' n = st n \<or> st n = None \<and> st' n = Some (kind, {}) \<or> st' n = Some (kind, es)) \<and>
     (\<forall>x. x \<noteq> n \<and> x \<noteq> n @ ''_next'' \<longrightarrow> st' x = st x)"

text \<open>Wherever the script stops, the live set is the old one or the new one, never a part of it.\<close>

lemma temp_word: "word_text n \<Longrightarrow> word_text (n @ ''_next'') \<and> n @ ''_next'' \<noteq> n"
  by (auto simp: word_text_def is_space_def)

lemma swap_head:
  assumes "word_text n" "ws \<noteq> []" "list_all word_text ws" "kind = Join ws '' ''" "t = n @ ''_next''"
    and "run_ipset [create_line n kind, create_line t kind, flush_line t] st = Some st'"
  obtains E where "st' = st(n \<mapsto> (kind, E), t \<mapsto> (kind, {}))" "st n = Some (kind, E) \<or> st n = None \<and> E = {}"
proof -
  have t: "word_text t" "t \<noteq> n" using temp_word [OF assms(1)] assms(5) by auto
  have "\<exists>E. st' = st(n \<mapsto> (kind, E), t \<mapsto> (kind, {})) \<and> (st n = Some (kind, E) \<or> st n = None \<and> E = {})"
    using assms(6) t assms(1) unfolding assms(4)
    by (auto simp: run_create [OF _ assms(2,3)] run_flush ipset_create_def ipset_fill_def fun_upd_idem
        split: option.splits if_splits prod.splits)
  then show ?thesis using that by blast
qed

lemma swap_tail:
  assumes "word_text n" "t = n @ ''_next''" "st n = Some (kind, E)" "st t = Some (kind, es)"
    and "run_ipset (take m [swap_line t n, destroy_line t]) st = Some st'"
  shows "(st' = st \<or> st' n = Some (kind, es)) \<and> (\<forall>x. x \<noteq> n \<and> x \<noteq> t \<longrightarrow> st' x = st x) \<and>
    (2 \<le> m \<longrightarrow> st' = st(n \<mapsto> (kind, es), t := None))"
proof -
  have t: "word_text t" "t \<noteq> n" using temp_word [OF assms(1)] assms(2) by auto
  have s: "run_ipset [swap_line t n] st = Some (st(t \<mapsto> (kind, E), n \<mapsto> (kind, es)))"
    using assms t by (simp add: run_swap ipset_swap_def)
  have d: "run_ipset [swap_line t n, destroy_line t] st = Some (st(n \<mapsto> (kind, es), t := None))"
    using assms t by (auto simp: run_swap run_destroy ipset_swap_def ipset_destroy_def)
  consider "m = 0" | "m = 1" | "2 \<le> m" by linarith
  then show ?thesis
  proof cases
    case 2
    then show ?thesis using assms(5) s t by auto
  next
    case 3
    then show ?thesis using assms(5) d t by auto
  qed (use assms(5) in auto)
qed

lemma swap_script_prefix:
  assumes n: "word_text n" and ws: "ws \<noteq> []" "list_all word_text ws" and es: "list_all word_text es"
    and r: "run_ipset (take m (swap_script n (Join ws '' '') es)) st = Some st'"
  shows "swap_safe n (Join ws '' '') (set es) st st' \<and>
    (length (swap_script n (Join ws '' '') es) \<le> m \<longrightarrow> st' n = Some (Join ws '' '', set es) \<and> st' (n @ ''_next'') = None)"
proof -
  define t where "t = n @ ''_next''"
  define kind where "kind = Join ws '' ''"
  have t: "word_text t" "t \<noteq> n" using temp_word [OF n] by (auto simp: t_def)
  have script: "swap_script n kind es =
      [create_line n kind, create_line t kind, flush_line t] @ map (add_line t) es @ [swap_line t n, destroy_line t]"
    by (simp add: swap_script_def t_def Let_def)
  note rules = run_create [OF _ ws, folded kind_def] run_flush ipset_create_def ipset_fill_def
  show ?thesis unfolding kind_def [symmetric]
  proof (cases "m < 3")
    case True
    then consider "m = 0" | "m = 1" | "m = 2" by linarith
    then show "swap_safe n kind (set es) st st' \<and>
        (length (swap_script n kind es) \<le> m \<longrightarrow> st' n = Some (kind, set es) \<and> st' (n @ ''_next'') = None)"
      using r unfolding kind_def [symmetric] script swap_safe_def t_def [symmetric]
      by cases (use n t in \<open>auto simp: rules split: option.splits if_splits prod.splits\<close>)
  next
    case False
    then obtain j where j: "m = 3 + j" using le_Suc_ex [of 3 m] by auto
    let ?head = "[create_line n kind, create_line t kind, flush_line t]"
    let ?rest = "take j (map (add_line t) es) @ take (j - length es) [swap_line t n, destroy_line t]"
    have "take m (swap_script n kind es) = ?head @ ?rest"
      unfolding script j take_append by simp
    then have "run_ipset (?head @ ?rest) st = Some st'" using r by (simp add: kind_def)
    then obtain st1 where st1: "run_ipset ?head st = Some st1" and st': "run_ipset ?rest st1 = Some st'"
      unfolding run_ipset_append [of ?head] by (cases "run_ipset ?head st") simp_all
    obtain E where E: "st1 = st(n \<mapsto> (kind, E), t \<mapsto> (kind, {}))" "st n = Some (kind, E) \<or> st n = None \<and> E = {}"
      by (rule swap_head [OF n ws kind_def t_def st1])
    have "list_all word_text (take j es)" using es by (metis append_take_drop_id list_all_append)
    then have a: "run_ipset (map (add_line t) (take j es)) st1 = Some (st1(t \<mapsto> (kind, set (take j es))))"
      using run_adds [of "take j es" t st1 kind "{}"] t E(1) by simp
    define st2 where "st2 = st1(t \<mapsto> (kind, set (take j es)))"
    have st2: "st2 n = Some (kind, E)" "st2 t = Some (kind, set (take j es))" "x \<noteq> n \<Longrightarrow> x \<noteq> t \<Longrightarrow> st2 x = st x" for x
      using E(1) t by (auto simp: st2_def)
    have "run_ipset (take (j - length es) [swap_line t n, destroy_line t]) st2 = Some st'"
      using st' a by (simp add: run_ipset_append take_map st2_def)
    from swap_tail [OF n t_def st2(1,2) this]
    have tail: "st' = st2 \<or> st' n = Some (kind, set (take j es))" "x \<noteq> n \<Longrightarrow> x \<noteq> t \<Longrightarrow> st' x = st x"
      "2 \<le> j - length es \<Longrightarrow> st' = st2(n \<mapsto> (kind, set (take j es)), t := None)" for x
      using st2(3) by auto
    have full: "take j es = es" if "0 < j - length es" using that by simp
    have "st' = st2 \<or> st' n = Some (kind, set es)"
    proof (cases "j - length es = 0")
      case True
      then show ?thesis using \<open>run_ipset (take (j - length es) _) st2 = Some st'\<close> by simp
    next
      case False
      then show ?thesis using tail(1) full by auto
    qed
    then show "swap_safe n kind (set es) st st' \<and>
        (length (swap_script n kind es) \<le> m \<longrightarrow> st' n = Some (kind, set es) \<and> st' (n @ ''_next'') = None)"
      using tail(2,3) st2(1) E(2) full t unfolding swap_safe_def t_def [symmetric] script j by auto
  qed
qed

lemma swap_script_runs:
  assumes n: "word_text n" and ws: "ws \<noteq> []" "list_all word_text ws" and es: "list_all word_text es"
    and "st n = None" "st (n @ ''_next'') = None"
  shows "run_ipset (swap_script n (Join ws '' '') es) st = Some (st(n \<mapsto> (Join ws '' '', set es)))"
proof -
  define t where "t = n @ ''_next''"
  define kind where "kind = Join ws '' ''"
  have t: "word_text t" "t \<noteq> n" using temp_word [OF n] by (auto simp: t_def)
  let ?st = "st(n \<mapsto> (kind, {}), t \<mapsto> (kind, {}))"
  have "run_ipset [create_line n kind, create_line t kind, flush_line t] st = Some ?st"
    using n t assms(5,6) unfolding t_def [symmetric]
    by (simp add: run_create [OF _ ws, folded kind_def] run_flush ipset_create_def ipset_fill_def)
  moreover have "run_ipset (map (add_line t) es) ?st = Some (?st(t \<mapsto> (kind, {} \<union> set es)))"
    by (rule run_adds [OF es t(1)]) simp
  moreover have "run_ipset [swap_line t n, destroy_line t] (?st(t \<mapsto> (kind, {} \<union> set es))) = Some (st(n \<mapsto> (kind, set es)))"
    using n t assms(6) unfolding t_def [symmetric] by (auto simp: run_swap run_destroy ipset_swap_def ipset_destroy_def)
  ultimately show ?thesis
    unfolding swap_script_def Let_def t_def [symmetric] kind_def [symmetric] run_ipset_append
    by (simp add: run_ipset_append del: run_ipset.simps)
qed

section \<open>The rendered sets are read back\<close>

lemma v4_word: "word_text (prefix_string (v4_prefix a n))"
proof -
  have d: "list_all (\<lambda>c. \<not> is_space c) (nat_digits k)" for k using digits_word by (simp add: word_text_def)
  have "\<not> is_space c" if "c \<in> set (v4_string a)" for c
  proof -
    have "c \<in> \<Union> (set (map set (map (\<lambda>k. nat_digits (octet a k)) [3, 2, 1, 0]))) \<union> set ''.''"
      using that set_Join [of "map (\<lambda>k. nat_digits (octet a k)) [3, 2, 1, 0]" "''.''"] unfolding v4_string_def by blast
    then show ?thesis using d by (auto simp: list_all_iff is_space_def)
  qed
  then have "list_all (\<lambda>c. \<not> is_space c) (v4_string a)" by (simp add: list_all_iff)
  moreover have "\<not> is_space (CHR ''/'')" by (simp add: is_space_def)
  ultimately show ?thesis using d [of n] by (simp add: word_text_def prefix_string_def Itoa_def)
qed

lemma interface_word: "isoInterfaceNameRE i \<Longrightarrow> word_text i"
proof -
  have "isoInterfaceChar c \<Longrightarrow> \<not> is_space c" for c by (auto simp: isoInterfaceChar_def is_space_def Let_def)
  then show "isoInterfaceNameRE i \<Longrightarrow> word_text i" by (auto simp: isoInterfaceNameRE_def word_text_def list_all_iff)
qed

lemma entry_word:
  "word_text (ipset_entry_text (v4_prefix a n, None))"
  "isoInterfaceNameRE i \<Longrightarrow> word_text (ipset_entry_text (v4_prefix a n, Some i))"
  using v4_word [of a n] interface_word [of i] by (auto simp: word_text_def is_space_def)

definition ipset_kind :: "ip_set \<Rightarrow> string" where
  "ipset_kind s = Join [is_type s, ''family'', ''inet''] '' ''"

definition ipset_texts :: "ip_set \<Rightarrow> string list" where
  "ipset_texts s = map ipset_entry_text (is_entries s)"

definition ipset_set_lines :: "ip_set \<Rightarrow> string list" where
  "ipset_set_lines s = create_line (is_name s) (ipset_kind s) # map (add_line (is_name s)) (ipset_texts s)"

lemma ipset_text_lines: "ipset_text sets = lines_text (concat (map ipset_set_lines sets))"
proof -
  have "ipset_set_text s = lines_text (ipset_set_lines s)" for s
    by (simp add: ipset_set_text_def ipset_set_lines_def lines_text_def create_line_def ipset_kind_def add_line_def
        ipset_texts_def nl_def o_def)
  then show ?thesis by (induction sets) (simp_all add: ipset_text_def lines_text_append, simp add: lines_text_def)
qed

definition set_ok :: "ip_set \<Rightarrow> bool" where
  "set_ok s \<longleftrightarrow> word_text (is_name s) \<and> word_text (is_type s) \<and> list_all word_text (ipset_texts s)"

lemma kind_words: "set_ok s \<Longrightarrow> list_all word_text [is_type s, ''family'', ''inet'']"
  using command_words by (simp add: set_ok_def)

lemma parse_create:
  assumes "set_ok s"
  shows "parse_ipset_lines (create_line (is_name s) (ipset_kind s) # rest) (c, e) =
    parse_ipset_lines rest (AList.update (is_name s) (ipset_kind s) c, e)"
proof -
  let ?fs = "[''create'', is_name s, is_type s, ''family'', ''inet'']"
  have w: "list_all word_text ?fs" using assms command_words by (simp add: set_ok_def)
  have l: "create_line (is_name s) (ipset_kind s) = Join ?fs '' ''" by (simp add: create_line_def ipset_kind_def)
  then have "Fields (create_line (is_name s) (ipset_kind s)) = ?fs" using Fields_Join [OF w] by simp
  moreover have "TrimSpace (create_line (is_name s) (ipset_kind s)) = create_line (is_name s) (ipset_kind s)"
    unfolding l by (rule TrimSpace_words [OF _ w]) simp
  moreover have "Join (drop 2 ?fs) '' '' = ipset_kind s" by (simp add: ipset_kind_def)
  ultimately show ?thesis by (simp add: Let_def)
qed

lemma parse_adds:
  assumes "word_text n" "list_all word_text es"
  shows "parse_ipset_lines (map (add_line n) es @ rest) (c, ents) = parse_ipset_lines rest (c, fold (append_line n) es ents)"
  using assms(2)
proof (induction es arbitrary: ents)
  case (Cons x es)
  let ?fs = "[''add'', n, x]"
  have w: "list_all word_text ?fs" using assms(1) Cons.prems command_words by simp
  have l: "add_line n x = Join ?fs '' ''" by (simp add: add_line_def)
  then have "Fields (add_line n x) = ?fs" using Fields_Join [OF w] by simp
  moreover have "TrimSpace (add_line n x) = add_line n x" unfolding l by (rule TrimSpace_words [OF _ w]) simp
  ultimately show ?case using Cons by (simp add: Let_def)
qed simp

lemma parse_set:
  "set_ok s \<Longrightarrow> parse_ipset_lines (ipset_set_lines s @ rest) (c, e) =
   parse_ipset_lines rest (AList.update (is_name s) (ipset_kind s) c, fold (append_line (is_name s)) (ipset_texts s) e)"
  by (simp only: ipset_set_lines_def append_Cons parse_create) (simp only: parse_adds set_ok_def)

lemma lines_of_append: "lines_of (append_line n x m) k = lines_of m k @ (if k = n then [x] else [])"
  by (simp add: lines_of_def append_line_def map_of_update)

lemma lines_of_fold: "lines_of (fold (append_line n) es m) k = lines_of m k @ (if k = n then es else [])"
  by (induction es arbitrary: m) (simp_all add: lines_of_append)

lemma set_lines_no_newline:
  assumes "set_ok s"
  shows "list_all (\<lambda>l. CHR 0x0A \<notin> set l) (ipset_set_lines s)"
proof -
  have "CHR 0x0A \<notin> set (create_line (is_name s) (ipset_kind s))"
    using words_no_newline [of "[''create'', is_name s, is_type s, ''family'', ''inet'']"] assms command_words
    by (simp add: create_line_def ipset_kind_def set_ok_def)
  moreover have "CHR 0x0A \<notin> set (add_line (is_name s) e)" if "e \<in> set (ipset_texts s)" for e
    using words_no_newline [of "[''add'', is_name s, e]"] assms command_words that
    by (simp add: add_line_def set_ok_def list_all_iff)
  ultimately show ?thesis by (simp add: ipset_set_lines_def list_all_iff)
qed

text \<open>Two sets: the shape of the rendered text.\<close>

lemma atomic_restore:
  assumes "set_ok s" "set_ok s'" "is_name s = isoIPSetSources" "is_name s' = isoIPSetNonPublic"
  shows "renderAtomicISOIPSetRestore (ipset_text [s, s']) =
    Inr (lines_text (swap_script (is_name s) (ipset_kind s) (ipset_texts s) @
                     swap_script (is_name s') (ipset_kind s') (ipset_texts s')))"
proof -
  have ne: "isoIPSetSources \<noteq> isoIPSetNonPublic" by (simp add: ipt_names)
  have "Split (ipset_text [s, s']) (CHR 0x0A) = ipset_set_lines s @ ipset_set_lines s' @ [[]]"
    unfolding ipset_text_lines using set_lines_no_newline [OF assms(1)] set_lines_no_newline [OF assms(2)]
    by (simp add: Split_lines_text)
  then have "parseISOIPSetRestore (ipset_text [s, s']) =
      Inr (AList.update (is_name s') (ipset_kind s') (AList.update (is_name s) (ipset_kind s) []),
           fold (append_line (is_name s')) (ipset_texts s')
             (fold (append_line (is_name s)) (ipset_texts s) [(isoIPSetSources, []), (isoIPSetNonPublic, [])]))"
    by (simp only: parseISOIPSetRestore_def parse_set [OF assms(1)] parse_set [OF assms(2)]) (simp add: Let_def)
  then show ?thesis
    unfolding renderAtomicISOIPSetRestore_def renderISOIPSetSwaps_def swap_lines_def
    using assms(3,4) ne by (simp add: lines_of_fold, simp add: lines_of_def)
qed

lemma rendered_sets_ok:
  assumes "RenderISOPolicy backend spec = Inr rules" and "s \<in> set (ipt_sets (sorted_spec spec))"
  shows "set_ok s"
proof -
  have names: "word_text isoIPSetSources" "word_text isoIPSetNonPublic" by code_simp+
  obtain l where l: "NewLayout (ps_Pool spec) = Inr l" "\<And>ep. ep \<in> set (ps_Endpoints spec) \<Longrightarrow> endpoint_ok l ep"
    using RenderISOPolicy_ok(2) [OF assms(1)] by (auto simp: validateISOEndpoints_iff)
  obtain b where b: "layout_at l b" using NewLayout_at [OF l(1)] by blast
  have ep: "word_text (ipset_entry_text e)" if "ep \<in> set (ps_Endpoints spec)" "e \<in> set (isoIPSetEndpoint ep)" for ep e
  proof -
    have ok: "endpoint_ok l ep" by (rule l(2) [OF that(1)])
    then have i: "isoInterfaceNameRE (ep_Interface ep)" by (simp add: endpoint_ok_def)
    obtain a where "ep_PeerIP ep = V4 (a + 2)" using link_in_pool [OF ok b] by metis
    then have "PrefixFrom (ep_PeerIP ep) 32 = v4_prefix (a + 2) 32" using PrefixFrom_V4 [of 32 "a + 2"] by simp
    moreover have "\<exists>c n. ep_Project ep = v4_prefix c n" if v: "p_valid (ep_Project ep)"
    proof -
      have "Is4 (p_addr (Masked (ep_Project ep)))" "ep_Project ep = Masked (ep_Project ep)"
        using ok v by (auto simp: endpoint_ok_def validateISOEndpointNetwork_def validateISOEndpointProject_def Let_def
            split: if_splits)
      then show ?thesis using v4_cases [of "ep_Project ep"] v by metis
    qed
    ultimately show ?thesis using that(2) entry_word(2) [OF i]
      by (auto simp: isoIPSetEndpoint_def simp del: ipset_entry_text.simps split: if_splits)
  qed
  have np: "word_text (ipset_entry_text (Masked p, None))" if "p \<in> set (iso_non_public (sorted_spec spec))" for p
  proof -
    have "p \<in> set (canonicalISOIPv4Prefixes (NonPublicIPv4Prefixes (ps_Pool (sorted_spec spec))))"
      using that compact_ok unfolding iso_non_public_def by blast
    then obtain a n where "p = v4_prefix a n" by (rule canonical_aligned)
    then show ?thesis using entry_word(1) by (simp add: Masked_v4)
  qed
  show ?thesis
    using assms(2) ep np names command_words
    by (auto simp: ipt_sets_def set_ok_def ipset_texts_def list_all_iff sorted_spec_sel simp del: ipset_entry_text.simps)
qed

text \<open>The state of a set after an attempt: as it was, created empty if it was missing, or the new one.\<close>

definition new_set :: "ip_set \<Rightarrow> string \<times> string set" where
  "new_set s = (ipset_kind s, set (ipset_texts s))"

definition old_or_new :: "ip_set \<Rightarrow> ipset_state \<Rightarrow> ipset_state \<Rightarrow> bool" where
  "old_or_new s st st' \<longleftrightarrow>
     st' (is_name s) = st (is_name s) \<or>
     st (is_name s) = None \<and> st' (is_name s) = Some (ipset_kind s, {}) \<or>
     st' (is_name s) = Some (new_set s)"

definition set_script :: "ip_set \<Rightarrow> string list" where
  "set_script s = swap_script (is_name s) (ipset_kind s) (ipset_texts s)"

lemma set_script_prefix:
  assumes "set_ok s" "run_ipset (take m (set_script s)) st = Some st'"
  shows "old_or_new s st st'" "\<And>x. x \<noteq> is_name s \<Longrightarrow> x \<noteq> is_name s @ ''_next'' \<Longrightarrow> st' x = st x"
    "length (set_script s) \<le> m \<Longrightarrow> st' (is_name s) = Some (new_set s)"
  using swap_script_prefix [of "is_name s" "[is_type s, ''family'', ''inet'']" "ipset_texts s" m st st'] kind_words [OF assms(1)] assms
  unfolding set_script_def ipset_kind_def [symmetric]
  by (auto simp: set_ok_def swap_safe_def old_or_new_def new_set_def)

lemma two_scripts:
  assumes ok: "set_ok s" "set_ok s'" and names: "is_name s = isoIPSetSources" "is_name s' = isoIPSetNonPublic"
    and r: "run_ipset (take m (set_script s @ set_script s')) st = Some st'"
  shows "old_or_new s st st' \<and> old_or_new s' st st' \<and>
    (length (set_script s @ set_script s') \<le> m \<longrightarrow>
       st' (is_name s) = Some (new_set s) \<and> st' (is_name s') = Some (new_set s')) \<and>
    (\<forall>x. x \<notin> {is_name s, is_name s @ ''_next'', is_name s', is_name s' @ ''_next''} \<longrightarrow> st' x = st x)"
proof -
  obtain st1 where 1: "run_ipset (take m (set_script s)) st = Some st1"
    and 2: "run_ipset (take (m - length (set_script s)) (set_script s')) st1 = Some st'"
    using r by (auto simp: run_ipset_append split: option.splits)
  note a = set_script_prefix [OF ok(1) 1] and b = set_script_prefix [OF ok(2) 2]
  have "is_name s' \<notin> {is_name s, is_name s @ ''_next''}" "is_name s \<notin> {is_name s', is_name s' @ ''_next''}"
    using names by (auto simp: ipt_names)
  then have "st1 (is_name s') = st (is_name s')" "st' (is_name s) = st1 (is_name s)"
    using a(2) [of "is_name s'"] b(2) [of "is_name s"] by auto
  then show ?thesis using a b by (auto simp: old_or_new_def)
qed

lemma scripts_no_newline:
  assumes "set_ok s" "set_ok s'"
  shows "list_all (\<lambda>l. CHR 0x0A \<notin> set l) (set_script s @ set_script s')"
proof -
  have "CHR 0x0A \<notin> set l" if "set_ok z" "l \<in> set (set_script z)" for z l
  proof -
    have w: "word_text (is_name z)" "word_text (is_name z @ ''_next'')" "\<And>e. e \<in> set (ipset_texts z) \<Longrightarrow> word_text e"
      "word_text (is_type z)"
      using that(1) temp_word by (auto simp: set_ok_def list_all_iff)
    show ?thesis
      using that(2) w [THEN word_no_newline] command_words [THEN word_no_newline]
      by (auto simp: set_script_def swap_script_def Let_def create_line_def add_line_def flush_line_def swap_line_def
          destroy_line_def ipset_kind_def)
  qed
  then show ?thesis using assms by (auto simp: list_all_iff)
qed

lemma ipset_apply:
  assumes ok: "set_ok s" "set_ok s'" and names: "is_name s = isoIPSetSources" "is_name s' = isoIPSetNonPublic"
    and T: "ipset_restores T sets"
    and rules: "pr_Backend rules = BackendIPTablesNFT \<or> pr_Backend rules = BackendIPTablesLegacy" "pr_IPSet rules = ipset_text [s, s']"
    and r: "applyISOIPSets T rules k = (r, k')"
  shows "old_or_new s (sets k) (sets k') \<and> old_or_new s' (sets k) (sets k') \<and>
    (r = Inr () \<longrightarrow> sets k' (is_name s) = Some (new_set s) \<and> sets k' (is_name s') = Some (new_set s')) \<and>
    (\<forall>x. x \<notin> {is_name s, is_name s @ ''_next'', is_name s', is_name s' @ ''_next''} \<longrightarrow> sets k' x = sets k x)"
proof -
  let ?L = "set_script s @ set_script s'"
  have ne: "pr_Backend rules \<noteq> BackendNFT" using rules(1) by (auto simp: BackendNFT_def BackendIPTablesNFT_def BackendIPTablesLegacy_def)
  have R: "renderAtomicISOIPSetRestore (pr_IPSet rules) = Inr (lines_text ?L)"
    unfolding rules(2) set_script_def by (rule atomic_restore [OF ok names])
  obtain e out where x: "t_exec T (lines_text ?L) ''ipset'' [''restore'', ''-exist''] k = ((e, out), k')" "r = Inr () \<longrightarrow> e = None"
  proof -
    obtain e out k1 where "t_exec T (lines_text ?L) ''ipset'' [''restore'', ''-exist''] k = ((e, out), k1)"
      by (metis prod.collapse)
    then show ?thesis using r ne rules(1) that [of e out]
      by (cases e) (auto simp: applyISOIPSets_def R ctx_def seq_def run_def runISOCommand_def ok_def)
  qed
  have nn: "list_all (\<lambda>l. CHR 0x0A \<notin> set l) ?L" by (rule scripts_no_newline [OF ok])
  obtain m where m: "run_ipset (take m (?L @ [[]])) (sets k) = Some (sets k')" "e = None \<longrightarrow> length (?L @ [[]]) \<le> m"
    using T x(1) Split_lines_text [OF nn] unfolding ipset_restores_def by metis
  have "run_ipset (take j [[]]) st = Some st" for j st by (cases j) (simp_all add: ipset_command_def)
  then have "run_ipset (take m ?L) (sets k) = Some (sets k')"
    using m(1) unfolding take_append [of m ?L "[[]]"] run_ipset_append [of "take m ?L"] by (auto split: option.splits)
  note t = two_scripts [OF ok names this]
  have "r = Inr () \<Longrightarrow> length ?L \<le> m" using m(2) x(2) by simp
  then show ?thesis using t by blast
qed

text \<open>A concrete tool: a script that fails leaves the sets as they were.\<close>

definition set_tool :: "ipset_state tools" where
  "set_tool =
     \<lparr>t_exec = (\<lambda>input name args st.
        if name = ''ipset'' \<and> args = [''restore'', ''-exist''] then
          (case run_ipset (Split input (CHR 0x0A)) st of
             Some st' \<Rightarrow> ((None, []), st')
           | None \<Rightarrow> ((Some ''exit status 1'', []), st))
        else ((None, []), st)),
      t_look = (\<lambda>_. True)\<rparr>"

lemma set_tool_restores: "ipset_restores set_tool (\<lambda>st. st)"
  unfolding ipset_restores_def
proof (intro allI impI)
  fix script k r out k'
  assume h: "t_exec set_tool script ''ipset'' [''restore'', ''-exist''] k = ((r, out), k')"
  show "\<exists>m. run_ipset (take m (Split script (CHR 0x0A))) k = Some k' \<and> (r = None \<longrightarrow> length (Split script (CHR 0x0A)) \<le> m)"
  proof (cases "run_ipset (Split script (CHR 0x0A)) k")
    case None
    then show ?thesis using h by (intro exI [of _ 0]) (auto simp: set_tool_def)
  next
    case (Some st)
    then show ?thesis using h by (intro exI [of _ "length (Split script (CHR 0x0A))"]) (auto simp: set_tool_def)
  qed
qed

section \<open>What iptables does with a jump\<close>

text \<open>
  The rules of a chain as the listing \<^verbatim>\<open>-S\<close> shows them, each as its words after the chain name. A tool
  works on chains named by table and chain: the listing shows the rules in order, \<^verbatim>\<open>-D\<close> removes the
  first rule that is equal, \<^verbatim>\<open>-I 1\<close> puts one in front, other chains stay, and a command that fails
  changes nothing.
\<close>

type_synonym chains = "string \<Rightarrow> string \<Rightarrow> string list list"

definition rule_of_line :: "string \<Rightarrow> string \<Rightarrow> string list option" where
  "rule_of_line chain line =
     (let fs = Fields line in
      if length fs < 2 \<or> fs ! 0 \<noteq> ''-A'' \<or> fs ! 1 \<noteq> chain then None else Some (drop 2 fs))"

definition listed :: "string \<Rightarrow> string \<Rightarrow> string list list" where
  "listed out chain = List.map_filter (rule_of_line chain) (Split out (CHR 0x0A))"

definition with_chain :: "chains \<Rightarrow> string \<Rightarrow> string \<Rightarrow> string list list \<Rightarrow> chains" where
  "with_chain cs table chain rs = (\<lambda>t c. if t = table \<and> c = chain then rs else cs t c)"

definition jump_tool :: "'k tools \<Rightarrow> ('k \<Rightarrow> chains) \<Rightarrow> string list \<Rightarrow> bool" where
  "jump_tool T rules bins \<longleftrightarrow>
     (\<forall>name k r out k'. t_exec T [] name [''--version''] k = ((r, out), k') \<longrightarrow> rules k' = rules k) \<and>
     (\<forall>bin \<in> set bins. \<forall>table chain target k r out k'.
        (t_exec T [] bin [''--wait'', ''-t'', table, ''-S'', chain] k = ((r, out), k') \<longrightarrow>
           rules k' = rules k \<and> (r = None \<longrightarrow> listed out chain = rules k table chain)) \<and>
        (t_exec T [] bin [''--wait'', ''-t'', table, ''-D'', chain, ''-j'', target] k = ((r, out), k') \<longrightarrow>
           rules k' = (if r = None then with_chain (rules k) table chain (remove1 [''-j'', target] (rules k table chain))
                       else rules k)) \<and>
        (t_exec T [] bin [''--wait'', ''-t'', table, ''-I'', chain, ''1'', ''-j'', target] k = ((r, out), k') \<longrightarrow>
           rules k' = (if r = None then with_chain (rules k) table chain ([''-j'', target] # rules k table chain)
                       else rules k)))"

lemma jump_toolD:
  assumes "jump_tool T rules bins" "bin \<in> set bins"
  shows "t_exec T [] bin [''--wait'', ''-t'', table, ''-S'', chain] k = ((r, out), k') \<Longrightarrow>
      rules k' = rules k \<and> (r = None \<longrightarrow> listed out chain = rules k table chain)"
    and "t_exec T [] bin [''--wait'', ''-t'', table, ''-D'', chain, ''-j'', target] k = ((r, out), k') \<Longrightarrow>
      rules k' = (if r = None then with_chain (rules k) table chain (remove1 [''-j'', target] (rules k table chain)) else rules k)"
    and "t_exec T [] bin [''--wait'', ''-t'', table, ''-I'', chain, ''1'', ''-j'', target] k = ((r, out), k') \<Longrightarrow>
      rules k' = (if r = None then with_chain (rules k) table chain ([''-j'', target] # rules k table chain) else rules k)"
  using assms unfolding jump_tool_def by blast+

lemma run_cases:
  "run T input name args k = (r, k') \<longleftrightarrow>
   (\<exists>e out. t_exec T input name args k = ((e, out), k') \<and>
      r = (case e of None \<Rightarrow> Inr out | Some m \<Rightarrow> Inl (Fw (command_error name args m out))))"
  by (auto simp: run_def runISOCommand_def split: prod.splits option.splits)

lemma want_line:
  assumes "word_text chain" "word_text target" "rule_of_line chain line = Some r"
  shows "Join (Fields line) '' '' = ''-A '' @ chain @ '' -j '' @ target \<longleftrightarrow> r = [''-j'', target]"
proof -
  have w: "word_text ''-A''" "word_text ''-j''" by code_simp+
  obtain fs where fs: "Fields line = ''-A'' # chain # fs" "r = fs"
    using assms(3) unfolding rule_of_line_def Let_def
    by (cases "Fields line"; cases "tl (Fields line)") (auto split: if_splits)
  have "''-A '' @ chain @ '' -j '' @ target = Join [''-A'', chain, ''-j'', target] '' ''" by simp
  then have "Join (Fields line) '' '' = ''-A '' @ chain @ '' -j '' @ target \<longleftrightarrow> Fields line = [''-A'', chain, ''-j'', target]"
    using Join_inj [OF Fields_words [of line], of "[''-A'', chain, ''-j'', target]"] assms(1,2) w by simp
  then show ?thesis using fs by simp
qed

lemma jump_loop:
  assumes "word_text chain" "word_text target"
  defines "j \<equiv> [''-j'', target]" and "L \<equiv> \<lambda>ls. List.map_filter (rule_of_line chain) ls"
  shows "jump_state_loop chain (''-A '' @ chain @ '' -j '' @ target) ls (i, n, f) =
    (i + length (L ls), n + count_list (L ls) j, f \<or> i = 0 \<and> L ls \<noteq> [] \<and> hd (L ls) = j)"
proof (induction ls arbitrary: i n f)
  case Nil
  then show ?case by (simp add: L_def map_filter_simps)
next
  case (Cons line ls)
  show ?case
  proof (cases "rule_of_line chain line")
    case None
    then have "length (Fields line) < 2 \<or> Fields line ! 0 \<noteq> ''-A'' \<or> Fields line ! 1 \<noteq> chain"
      by (simp add: rule_of_line_def Let_def split: if_splits)
    with None Cons show ?thesis by (simp add: L_def map_filter_simps Let_def)
  next
    case (Some r)
    then have "\<not> (length (Fields line) < 2 \<or> Fields line ! 0 \<noteq> ''-A'' \<or> Fields line ! 1 \<noteq> chain)"
      by (simp add: rule_of_line_def Let_def split: if_splits)
    moreover note want_line [OF assms(1,2) Some]
    ultimately show ?thesis using Some Cons by (simp add: L_def map_filter_simps Let_def j_def)
  qed
qed

lemma jump_state:
  assumes "word_text chain" "word_text target"
  shows "isoIPTablesJumpState out chain target =
    (count_list (listed out chain) [''-j'', target], listed out chain \<noteq> [] \<and> hd (listed out chain) = [''-j'', target])"
  unfolding isoIPTablesJumpState_def jump_loop [OF assms] listed_def by simp

lemma seq_ctx_run: "run T input name args k = (Inr out, k1) \<Longrightarrow> seq (ctx c (run T input name args)) f k = f out k1"
  by (simp add: seq_def ctx_def)

lemma remove1_count: "(remove1 x ^^ count_list xs x) xs = removeAll x xs"
proof (induction xs)
  case (Cons y xs)
  have "(remove1 x ^^ n) (y # xs) = y # (remove1 x ^^ n) xs" if "y \<noteq> x" for n
    using that by (induction n) auto
  with Cons show ?case by (cases "y = x") (auto simp: funpow_Suc_right simp del: funpow.simps)
qed simp

lemma removeAll_remove1: "removeAll x (remove1 x xs) = removeAll x xs"
  by (induction xs) auto

lemma with_chain_twice: "with_chain (with_chain cs t c a) t c b = with_chain cs t c b"
  "with_chain cs t c (cs t c) = cs" "with_chain cs t c a t c = a"
  by (auto simp: with_chain_def fun_eq_iff)

lemma delete_jumps_ok:
  assumes T: "jump_tool T rules bins" "bin \<in> set bins"
    and r: "delete_jumps n (run T [] bin [''--wait'', ''-t'', table, ''-D'', chain, ''-j'', target]) k = (r, k')"
  shows "\<exists>m. rules k' = with_chain (rules k) table chain ((remove1 [''-j'', target] ^^ m) (rules k table chain)) \<and>
    (r = Inr () \<longrightarrow> m = n)"
  using r
proof (induction n arbitrary: k)
  case 0
  then show ?case by (intro exI [of _ 0]) (simp add: ok_def with_chain_twice)
next
  case (Suc n)
  let ?del = "run T [] bin [''--wait'', ''-t'', table, ''-D'', chain, ''-j'', target]"
  obtain r1 k1 where 1: "?del k = (r1, k1)" by fastforce
  then obtain e out where e: "t_exec T [] bin [''--wait'', ''-t'', table, ''-D'', chain, ''-j'', target] k = ((e, out), k1)"
    "r1 = (case e of None \<Rightarrow> Inr out | Some m \<Rightarrow> Inl (Fw (command_error bin [''--wait'', ''-t'', table, ''-D'', chain, ''-j'', target] m out)))"
    unfolding run_cases by blast
  note d = jump_toolD(2) [OF T e(1)]
  show ?case
  proof (cases e)
    case None
    then have "delete_jumps n ?del k1 = (r, k')" using Suc.prems 1 e(2) by (simp add: seq_def)
    from Suc.IH [OF this] obtain m where
      "rules k' = with_chain (rules k1) table chain ((remove1 [''-j'', target] ^^ m) (rules k1 table chain))" "r = Inr () \<longrightarrow> m = n"
      by blast
    then show ?thesis using d None
      by (intro exI [of _ "Suc m"]) (simp add: with_chain_twice funpow_swap1)
  next
    case (Some m)
    then show ?thesis using Suc.prems 1 e(2) d
      by (intro exI [of _ 0]) (auto simp: seq_def with_chain_twice)
  qed
qed

text \<open>
  Reconciling one jump: on success the chain holds the jump once, in front, and its other rules in
  their order; even a failure leaves the other rules and the other chains alone.
\<close>

definition jump_kept :: "string list \<Rightarrow> string \<Rightarrow> string \<Rightarrow> chains \<Rightarrow> chains \<Rightarrow> bool" where
  "jump_kept j table chain cs cs' \<longleftrightarrow>
     removeAll j (cs' table chain) = removeAll j (cs table chain) \<and>
     (\<forall>t c. (t, c) \<noteq> (table, chain) \<longrightarrow> cs' t c = cs t c)"

lemma removeAll_funpow: "removeAll x ((remove1 x ^^ m) xs) = removeAll x xs"
  by (induction m) (simp_all add: removeAll_remove1)

lemma jump_kept_with_chain:
  "removeAll j rs = removeAll j (cs table chain) \<Longrightarrow> jump_kept j table chain cs (with_chain cs table chain rs)"
  by (auto simp: jump_kept_def with_chain_def)

lemma front_jump:
  "count_list rs j = 1 \<Longrightarrow> rs \<noteq> [] \<Longrightarrow> hd rs = j \<Longrightarrow> rs = j # removeAll j rs"
proof (cases rs)
  case (Cons a list)
  assume "count_list rs j = 1" "hd rs = j"
  then have "count_list list j = 0" using Cons by simp
  then have "j \<notin> set list" by (simp add: count_list_0_iff)
  then show ?thesis using Cons \<open>hd rs = j\<close> by simp
qed simp

lemma reconcile_ok:
  assumes T: "jump_tool T rules bins" "bin \<in> set bins" and w: "word_text chain" "word_text target"
    and r: "reconcileISOIPTablesJump T bin [] table chain target k = (r, k')"
  defines "j \<equiv> [''-j'', target]"
  shows "jump_kept j table chain (rules k) (rules k') \<and>
    (r = Inr () \<longrightarrow> rules k' table chain = j # removeAll j (rules k table chain))"
proof -
  let ?S = "[''--wait'', ''-t'', table, ''-S'', chain]"
  obtain e out k1 where e: "t_exec T [] bin ?S k = ((e, out), k1)" by (metis prod.collapse)
  note l = jump_toolD(1) [OF T e]
  define rs where "rs = rules k table chain"
  have kept: "jump_kept j table chain (rules k) (rules k)" by (simp add: jump_kept_def)
  show ?thesis
  proof (cases e)
    case (Some m)
    then have "r \<noteq> Inr ()" "k' = k1"
      using r e by (auto simp: reconcileISOIPTablesJump_def Let_def iptablesWaitArg_def seq_def ctx_def run_def runISOCommand_def)
    then show ?thesis using l kept by simp
  next
    case None
    let ?D = "[''--wait'', ''-t'', table, ''-D'', chain, ''-j'', target]"
    let ?I = "[''--wait'', ''-t'', table, ''-I'', chain, ''1'', ''-j'', target]"
    have st: "isoIPTablesJumpState out chain target = (count_list rs j, rs \<noteq> [] \<and> hd rs = j)"
      using jump_state [OF w, of out] l None by (simp add: rs_def j_def)
    have run1: "run T [] bin ?S k = (Inr out, k1)" using e None by (simp add: run_def runISOCommand_def)
    have body: "(if count_list rs j = 1 \<and> (rs \<noteq> [] \<and> hd rs = j) then ok ()
        else seq (ctx (''remove stale ISO jump '' @ table @ ''/'' @ chain) (delete_jumps (count_list rs j) (run T [] bin ?D)))
          (\<lambda>_. seq (ctx (''install ISO jump '' @ table @ ''/'' @ chain) (run T [] bin ?I)) (\<lambda>_. ok ()))) k1 = (r, k')"
      using r by (auto simp: reconcileISOIPTablesJump_def Let_def iptablesWaitArg_def seq_ctx_run [OF run1] st split: if_splits)
    show ?thesis
    proof (cases "count_list rs j = 1 \<and> (rs \<noteq> [] \<and> hd rs = j)")
      case True
      then show ?thesis using body l kept front_jump [of rs j] by (simp add: ok_def rs_def)
    next
      case False
      obtain r2 k2 where d: "delete_jumps (count_list rs j) (run T [] bin ?D) k1 = (r2, k2)" by fastforce
      from delete_jumps_ok [OF T d] obtain m where
        m: "rules k2 = with_chain (rules k) table chain ((remove1 j ^^ m) rs)" "r2 = Inr () \<longrightarrow> m = count_list rs j"
        using l by (auto simp: rs_def j_def)
      show ?thesis
      proof (cases r2)
        case (Inl x)
        then have "r \<noteq> Inr ()" "k' = k2" using body False d by (auto simp: seq_def ctx_def)
        moreover have "jump_kept j table chain (rules k) (rules k2)"
          unfolding m(1) by (intro jump_kept_with_chain) (simp add: removeAll_funpow rs_def)
        ultimately show ?thesis by simp
      next
        case (Inr u)
        then have m2: "rules k2 = with_chain (rules k) table chain (removeAll j rs)" using m remove1_count [of rs j] by simp
        obtain e3 out3 k3 where e3: "t_exec T [] bin ?I k2 = ((e3, out3), k3)" by (metis prod.collapse)
        note i = jump_toolD(3) [OF T e3]
        have "k' = k3" "r = Inr () \<longrightarrow> e3 = None"
          using body False d Inr e3 by (cases e3; auto simp: seq_def ctx_def run_def runISOCommand_def ok_def)+
        moreover have "rules k3 = with_chain (rules k) table chain ((if e3 = None then [j] else []) @ removeAll j rs)"
          using i m2 by (simp add: with_chain_twice j_def)
        ultimately show ?thesis
          using jump_kept_with_chain [of j "(if e3 = None then [j] else []) @ removeAll j rs" "rules k" table chain]
          by (auto simp: with_chain_twice rs_def)
      qed
    qed
  qed
qed

section \<open>All jumps\<close>

definition jump_binaries :: "FirewallBackend \<Rightarrow> bool \<Rightarrow> string list" where
  "jump_binaries backend ipv6 =
     (let bins = (if backend = BackendIPTablesNFT then [''iptables-nft'', ''iptables''] else [''iptables-legacy'', ''iptables'']) in
      if ipv6 then map (\<lambda>b. replace_first b ''iptables'' ''ip6tables'') bins else bins)"

text \<open>
  After a run over jumps to distinct chains: chains that are not listed are untouched, of the listed
  ones the foreign rules are kept, and on success each starts with its jump and has it once.
\<close>

definition jumps_kept :: "(string \<times> string \<times> string) list \<Rightarrow> chains \<Rightarrow> chains \<Rightarrow> bool" where
  "jumps_kept js cs cs' \<longleftrightarrow>
     (\<forall>(t, c, u) \<in> set js. removeAll [''-j'', u] (cs' t c) = removeAll [''-j'', u] (cs t c)) \<and>
     (\<forall>t c. (t, c) \<notin> set (map (\<lambda>(t, c, u). (t, c)) js) \<longrightarrow> cs' t c = cs t c)"

lemma steps_jumps:
  assumes T: "jump_tool T rules bins" "bin \<in> set bins"
    and "distinct (map (\<lambda>(t, c, u). (t, c)) js)" "\<forall>(t, c, u) \<in> set js. word_text c \<and> word_text u"
    and "all_steps (map (\<lambda>(t, c, u). reconcileISOIPTablesJump T bin [] t c u) js) k = (r, k')"
  shows "jumps_kept js (rules k) (rules k') \<and>
    (r = Inr () \<longrightarrow> (\<forall>(t, c, u) \<in> set js. rules k' t c = [''-j'', u] # removeAll [''-j'', u] (rules k t c)))"
  using assms(3-)
proof (induction js arbitrary: k)
  case Nil
  then show ?case by (simp add: ok_def jumps_kept_def)
next
  case (Cons j js)
  obtain t c u where j: "j = (t, c, u)" by (cases j)
  obtain r1 k1 where 1: "reconcileISOIPTablesJump T bin [] t c u k = (r1, k1)" by fastforce
  note a = reconcile_ok [OF T _ _ 1]
  have w: "word_text c" "word_text u" using Cons.prems(2) j by auto
  show ?case
  proof (cases r1)
    case (Inl e)
    then have "r = Inl e" "k' = k1" using Cons.prems(3) 1 j by (auto simp: seq_def)
    moreover have "rules k1 t' c' = rules k t' c'" if "(t', c') \<noteq> (t, c)" for t' c'
      using a [OF w] that by (simp add: jump_kept_def)
    moreover have "(t', c') \<noteq> (t, c)" if "(t', c', u') \<in> set js" for t' c' u'
      using that Cons.prems(1) j by force
    moreover have "removeAll [''-j'', u] (rules k1 t c) = removeAll [''-j'', u] (rules k t c)"
      using a [OF w] by (simp add: jump_kept_def)
    ultimately show ?thesis unfolding jumps_kept_def j by auto
  next
    case (Inr x)
    then have rest: "all_steps (map (\<lambda>(t, c, u). reconcileISOIPTablesJump T bin [] t c u) js) k1 = (r, k')"
      using Cons.prems(3) 1 j by (simp add: seq_def)
    have d: "(t, c) \<notin> set (map (\<lambda>(t, c, u). (t, c)) js)" "distinct (map (\<lambda>(t, c, u). (t, c)) js)"
      using Cons.prems(1) j by auto
    note b = Cons.IH [OF d(2) _ rest]
    have b1: "jumps_kept js (rules k1) (rules k')" "r = Inr () \<Longrightarrow> (t', c', u') \<in> set js \<Longrightarrow>
        rules k' t' c' = [''-j'', u'] # removeAll [''-j'', u'] (rules k1 t' c')" for t' c' u'
      using b Cons.prems(2) by auto
    have k1: "rules k1 t c = [''-j'', u] # removeAll [''-j'', u] (rules k t c)" using a [OF w] Inr by simp
    have same: "rules k' t c = rules k1 t c" using b1(1) d(1) unfolding jumps_kept_def by blast
    have other: "rules k1 t' c' = rules k t' c'" if "(t', c') \<noteq> (t, c)" for t' c'
      using a [OF w] that by (auto simp: jump_kept_def)
    have ne: "(t', c') \<noteq> (t, c)" if "(t', c', u') \<in> set js" for t' c' u' using that d(1) by force
    have 2: "removeAll [''-j'', u'] (rules k' t' c') = removeAll [''-j'', u'] (rules k t' c')" if "(t', c', u') \<in> set js" for t' c' u'
      using b1(1) that other [OF ne [OF that]] by (auto simp: jumps_kept_def)
    have 3: "rules k' t' c' = rules k t' c'" if "(t', c') \<noteq> (t, c)" "(t', c') \<notin> set (map (\<lambda>(t, c, u). (t, c)) js)" for t' c'
      using b1(1) that other [OF that(1)] unfolding jumps_kept_def by auto
    have "removeAll [''-j'', u] (rules k' t c) = removeAll [''-j'', u] (rules k t c)" using k1 same by simp
    then have "jumps_kept (j # js) (rules k) (rules k')" using 2 3 unfolding jumps_kept_def j by auto
    moreover have "rules k' t' c' = [''-j'', u'] # removeAll [''-j'', u'] (rules k t' c')"
      if "r = Inr ()" "(t', c', u') \<in> set (j # js)" for t' c' u'
      using that b1(2) [OF that(1)] other [OF ne] k1 same j by (auto simp: Let_def)
    ultimately show ?thesis by blast
  qed
qed

lemma first_binary_ok:
  assumes "jump_tool T rules bins" "first_binary T mark cs e k = (r, k')"
  shows "rules k' = rules k \<and> (\<forall>b. r = Inr b \<longrightarrow> b \<in> set cs)"
  using assms(2)
proof (induction cs arbitrary: k)
  case Nil
  then show ?case by auto
next
  case (Cons c cs)
  obtain r1 k1 where 1: "iptablesVersion T c k = (r1, k1)" by fastforce
  have "rules k1 = rules k"
  proof (cases "t_look T c")
    case True
    obtain x out k2 where x: "t_exec T [] c [''--version''] k = ((x, out), k2)" by (metis prod.collapse)
    then have "rules k2 = rules k" using assms(1) unfolding jump_tool_def by blast
    moreover have "k2 = k1" using 1 True x by (cases x) (auto simp: iptablesVersion_def)
    ultimately show ?thesis by simp
  qed (use 1 in \<open>auto simp: iptablesVersion_def\<close>)
  then show ?case using Cons.prems 1 Cons.IH [of k1] by (auto split: sum.splits if_splits)
qed

lemma iso_jump_words: "\<forall>(t, c, u) \<in> set (iso_jumps b). word_text c \<and> word_text u"
proof -
  have "word_text ''INPUT''" "word_text ''FORWARD''" "word_text ''PREROUTING''" "word_text ''POSTROUTING''"
    "word_text isoIPTablesInput" "word_text isoIPTablesForward" "word_text isoIPTablesMangle"
    "word_text isoIPTablesPreRoute" "word_text isoIPTablesPostRoute"
    by code_simp+
  then show ?thesis by (simp add: iso_jumps_def)
qed

lemma ensure_jumps:
  assumes "backend = BackendIPTablesNFT \<or> backend = BackendIPTablesLegacy"
    and T: "jump_tool T rules (jump_binaries backend ipv6)"
    and r: "ensureISOIPTablesJumps T backend ipv6 k = (r, k')"
  shows "jumps_kept (iso_jumps ipv6) (rules k) (rules k') \<and>
    (r = Inr () \<longrightarrow> (\<forall>(t, c, u) \<in> set (iso_jumps ipv6). rules k' t c = [''-j'', u] # removeAll [''-j'', u] (rules k t c)))"
proof -
  have ne: "BackendIPTablesNFT \<noteq> BackendIPTablesLegacy" by (simp add: BackendIPTablesNFT_def BackendIPTablesLegacy_def)
  obtain r1 k1 where 1: "iptablesBinary T backend k = (r1, k1)" by fastforce
  define cs where "cs = (if backend = BackendIPTablesNFT then [''iptables-nft'', ''iptables''] else [''iptables-legacy'', ''iptables''])"
  obtain mark e where "iptablesBinary T backend = first_binary T mark cs e"
    using assms(1) ne unfolding iptablesBinary_def cs_def by (elim disjE) simp_all
  then have f: "rules k1 = rules k \<and> (\<forall>b. r1 = Inr b \<longrightarrow> b \<in> set cs)" using first_binary_ok [OF T, of mark cs e k r1 k1] 1 by simp
  have j: "jump_binaries backend ipv6 = (if ipv6 then map (\<lambda>b. replace_first b ''iptables'' ''ip6tables'') cs else cs)"
    by (simp only: jump_binaries_def cs_def Let_def)
  have b: "rules k1 = rules k" "\<And>bin. r1 = Inr bin \<Longrightarrow>
      (if ipv6 then replace_first bin ''iptables'' ''ip6tables'' else bin) \<in> set (jump_binaries backend ipv6)"
    using f unfolding j by (auto simp del: replace_first.simps)
  have d: "distinct (map (\<lambda>(t, c, u). (t, c)) (iso_jumps ipv6))" by (simp add: iso_jumps_def)
  note s = steps_jumps [OF T _ d iso_jump_words]
  show ?thesis
  proof (cases r1)
    case (Inl e)
    then show ?thesis using r 1 b(1) by (auto simp: ensureISOIPTablesJumps_def seq_def jumps_kept_def)
  next
    case (Inr bin)
    then show ?thesis using s [OF b(2) [OF Inr], of k1 r k'] r 1 b(1) by (simp add: ensureISOIPTablesJumps_def seq_def Let_def)
  qed
qed

text \<open>A concrete tool on one table of chains; it refuses to list what is not made of words.\<close>

definition chain_exec :: "string list \<Rightarrow> chains \<Rightarrow> (string option \<times> string) \<times> chains" where
  "chain_exec args k =
     (case args of
        [v] \<Rightarrow> ((None, ''iptables v1.8.9 (nf_tables)''), k)
      | [_, _, table, opr, chain] \<Rightarrow>
          if opr = ''-S'' \<and> word_text chain \<and> list_all (list_all word_text) (k table chain)
          then ((None, lines_text (map (\<lambda>r. Join (''-A'' # chain # r) '' '') (k table chain))), k)
          else ((Some ''exit status 1'', []), k)
      | [_, _, table, opr, chain, _, target] \<Rightarrow>
          if opr = ''-D'' \<and> [''-j'', target] \<in> set (k table chain)
          then ((None, []), with_chain k table chain (remove1 [''-j'', target] (k table chain)))
          else ((Some ''exit status 1'', []), k)
      | [_, _, table, opr, chain, _, _, target] \<Rightarrow>
          ((None, []), with_chain k table chain ([''-j'', target] # k table chain))
      | _ \<Rightarrow> ((None, []), k))"

definition chain_tool :: "chains tools" where
  "chain_tool = \<lparr>t_exec = (\<lambda>input name args k. chain_exec args k), t_look = (\<lambda>_. True)\<rparr>"

lemma map_filter_all: "(\<And>x. x \<in> set xs \<Longrightarrow> f (g x) = Some x) \<Longrightarrow> List.map_filter f (map g xs) = xs"
  by (induction xs) (simp_all add: map_filter_simps)

lemma listed_lines:
  assumes "word_text chain" "list_all (list_all word_text) rs"
  shows "listed (lines_text (map (\<lambda>r. Join (''-A'' # chain # r) '' '') rs)) chain = rs"
proof -
  let ?line = "\<lambda>r. Join (''-A'' # chain # r) '' ''"
  have a: "word_text ''-A''" by code_simp
  have w: "list_all word_text (''-A'' # chain # r)" if "r \<in> set rs" for r
    using assms that a by (simp add: list_all_iff)
  have "rule_of_line chain (?line r) = Some r" if "r \<in> set rs" for r
    unfolding rule_of_line_def Fields_Join [OF w [OF that]] by (simp add: Let_def)
  then have "List.map_filter (rule_of_line chain) (map ?line rs) = rs" by (rule map_filter_all)
  moreover have "list_all (\<lambda>l. CHR 0x0A \<notin> set l) (map ?line rs)"
    using words_no_newline [OF w] by (auto simp: list_all_iff simp del: Join.simps)
  moreover have "rule_of_line chain [] = None" by (simp add: rule_of_line_def Let_def)
  ultimately show ?thesis
    unfolding listed_def by (simp add: Split_lines_text map_filter_def)
qed

lemma chain_tool_ok: "jump_tool chain_tool (\<lambda>k. k) bins"
  unfolding jump_tool_def chain_tool_def
  by (auto simp: chain_exec_def listed_lines simp del: Join.simps split: if_splits)

definition example_chains :: chains where
  "example_chains =
     with_chain (\<lambda>t c. []) ''filter'' ''FORWARD''
       [[''-j'', ''DOCKER''], [''-j'', ''YEET_ISO_FORWARD''], [''-i'', ''lo'', ''-j'', ''ACCEPT''], [''-j'', ''YEET_ISO_FORWARD'']]"

lemma example_jumps_ok: "fst (ensureISOIPTablesJumps chain_tool BackendIPTablesNFT True example_chains) = Inr ()"
  by code_simp

section \<open>Properties\<close>



text \<open>
  C31: the jumps. Ensuring the jumps of the policy keeps, whether or not it succeeds, every chain it does
  not own and every foreign rule of the built-in chains in its order; after a success each built-in
  chain has the jump to its owned chain exactly once and as its first rule, so no foreign rule
  decides a packet before the policy does.
\<close>

theorem jumps_first:
  assumes "backend \<in> {BackendIPTablesNFT, BackendIPTablesLegacy}"
    and "jump_tool T rules (jump_binaries backend ipv6)"
    and "ensureISOIPTablesJumps T backend ipv6 k = (r, k')"
  shows "jumps_kept (iso_jumps ipv6) (rules k) (rules k') \<and>
    (r = Inr () \<longrightarrow> (\<forall>(t, c, u) \<in> set (iso_jumps ipv6). rules k' t c = [''-j'', u] # removeAll [''-j'', u] (rules k t c)))"
  using ensure_jumps [of backend T rules ipv6 k r k'] assms by auto

theorem jumps_first_witness:
  "\<exists>k'. ensureISOIPTablesJumps chain_tool BackendIPTablesNFT True example_chains = (Inr (), k') \<and>
     k' ''filter'' ''FORWARD'' = [[''-j'', ''YEET_ISO_FORWARD''], [''-j'', ''DOCKER''], [''-i'', ''lo'', ''-j'', ''ACCEPT'']]"
proof -
  obtain r k' where r: "ensureISOIPTablesJumps chain_tool BackendIPTablesNFT True example_chains = (r, k')" by fastforce
  then have "r = Inr ()" using example_jumps_ok by simp
  moreover have "k' ''filter'' ''FORWARD'' = [''-j'', isoIPTablesForward] # removeAll [''-j'', isoIPTablesForward] (example_chains ''filter'' ''FORWARD'')"
    using jumps_first [OF _ chain_tool_ok r] \<open>r = Inr ()\<close> by (auto simp: iso_jumps_def)
  ultimately show ?thesis using r by (simp add: example_chains_def with_chain_def isoIPTablesForward_def)
qed

end
