(* ===== verification/Iso_Runtime.thy ===== *)
theory Iso_Runtime
  imports Iso_Alloc Iso_Fw_Isolation
begin

text \<open>
  The runtime of isolated services, first part of \<^verbatim>\<open>src/pkg/catch/iso_runtime.go\<close>: the check of the
  persisted allocations that guards every change of the host's network, and the policy, endpoint by
  endpoint, that is derived from them.

  The check walks over the services in the order of their names and keeps maps of the links, projects
  and generated identities it has met. A nil service in the database makes the generated view panic;
  the panic is the error \<open>NilView\<close>. The lemmas give the check a declarative form, show that what it
  accepts is an allocation state the allocator's invariant allows, and that the policy derived from an
  accepted state is always rendered, so that every persisted allocation is isolated.
\<close>

section \<open>Checking one allocation\<close>

datatype runtime_err =
    RuntimePool
  | RuntimeLayout iso_err
  | NilView string
  | VersionMismatch string
  | NotLowerHalf string prefix
  | LinkAddresses string
  | LinkDuplicate string prefix string
  | IdentityMismatch string
  | IdentityDuplicate string string string
  | KindUnsupported string string
  | InvalidModes string iso_err
  | VMRouterState string
  | NamespaceMismatch string string
  | NativeRouterState string
  | BridgeName string
  | NotUpperHalf string prefix
  | ProjectGateway string
  | ProjectDuplicate string prefix string
  | ComponentName string string
  | ComponentOutside string string addr
  | ComponentDuplicate string addr string
  | NoRuntimeAllocation string
  | DetectBackend string

record runtime_maps =
  rm_links :: "(prefix \<times> string) list"
  rm_projects :: "(prefix \<times> string) list"
  rm_identities :: "(string \<times> string) list"

definition validateISORuntimeLink ::
  "Layout \<Rightarrow> string \<Rightarrow> ISOAllocation \<Rightarrow> runtime_maps \<Rightarrow> runtime_err + runtime_maps" where
  "validateISORuntimeLink layout service a m =
     (let link = Masked (iso_Link a) in
      if iso_Link a \<noteq> link \<or> Bits link \<noteq> 30 \<or> \<not> p_contains (Links layout) (p_addr link)
      then Inl (NotLowerHalf service (iso_Link a))
      else if iso_HostIP a \<noteq> Next (p_addr link) \<or> iso_PeerIP a \<noteq> Next (Next (p_addr link))
      then Inl (LinkAddresses service)
      else (case map_of (rm_links m) link of
              Some owner \<Rightarrow> Inl (LinkDuplicate service link owner)
            | None \<Rightarrow> Inr (m\<lparr>rm_links := AList.update link service (rm_links m)\<rparr>)))"

definition claim_identity :: "string \<Rightarrow> string \<Rightarrow> runtime_maps \<Rightarrow> runtime_err + runtime_maps" where
  "claim_identity service identity m =
     (case map_of (rm_identities m) identity of
        Some owner \<Rightarrow> Inl (IdentityDuplicate service identity owner)
      | None \<Rightarrow> Inr (m\<lparr>rm_identities := AList.update identity service (rm_identities m)\<rparr>))"

fun claim_identities :: "string \<Rightarrow> string list \<Rightarrow> runtime_maps \<Rightarrow> runtime_err + runtime_maps" where
  "claim_identities service [] m = Inr m"
| "claim_identities service (i # is) m =
     (case claim_identity service i m of Inl e \<Rightarrow> Inl e | Inr m1 \<Rightarrow> claim_identities service is m1)"

definition validateISORuntimeLinkIdentities ::
  "string \<Rightarrow> ISOAllocation \<Rightarrow> runtime_maps \<Rightarrow> runtime_err + runtime_maps" where
  "validateISORuntimeLinkIdentities service a m =
     (let token = isoNameToken service in
      if iso_Interface a \<noteq> ''yi-'' @ token \<or> iso_PeerInterface a \<noteq> ''yo-'' @ token
      then Inl (IdentityMismatch service)
      else claim_identities service [iso_Interface a, iso_PeerInterface a] m)"

definition validateISORuntimePayload :: "string \<Rightarrow> ISOAllocation \<Rightarrow> runtime_err + unit" where
  "validateISORuntimePayload service a =
     (let kind = iso_Kind a in
      if kind \<noteq> PayloadVM \<and> kind \<noteq> PayloadCompose \<and> kind \<noteq> PayloadContainer \<and> kind \<noteq> PayloadNative
      then Inl (KindUnsupported service kind)
      else (case ValidateNetwork \<lparr>Payload = kind, Modes = iso_DesiredModes a, Published = False\<rparr> of
              Inl e \<Rightarrow> Inl (InvalidModes service e)
            | Inr _ \<Rightarrow> Inr ()))"

definition validateISORuntimeVM :: "string \<Rightarrow> ISOAllocation \<Rightarrow> runtime_err + unit" where
  "validateISORuntimeVM service a =
     (if p_valid (iso_Project a) \<or> IsValid (iso_Gateway a) \<or> iso_NetNS a \<noteq> [] \<or> iso_Bridge a \<noteq> [] \<or>
         iso_Components a \<noteq> [] \<or> iso_RetiredComponents a \<noteq> []
      then Inl (VMRouterState service)
      else Inr ())"

definition validateISORuntimeNative ::
  "string \<Rightarrow> ISOAllocation \<Rightarrow> runtime_maps \<Rightarrow> runtime_err + runtime_maps" where
  "validateISORuntimeNative service a m =
     (if iso_NetNS a \<noteq> isoRouterNamespace service then Inl (NamespaceMismatch service (iso_NetNS a))
      else (case claim_identity service (iso_NetNS a) m of
              Inl e \<Rightarrow> Inl e
            | Inr m1 \<Rightarrow>
                (if p_valid (iso_Project a) \<or> IsValid (iso_Gateway a) \<or> iso_Bridge a \<noteq> [] \<or>
                    iso_Components a \<noteq> [] \<or> iso_RetiredComponents a \<noteq> []
                 then Inl (NativeRouterState service)
                 else Inr m1)))"

definition isUsableISOComponentAddress :: "prefix \<Rightarrow> addr \<Rightarrow> bool" where
  "isUsableISOComponentAddress project address =
     (if \<not> Is4 address \<or> \<not> p_contains project address then False
      else let offset = uint (last_octet address) - uint (last_octet (p_addr project))
           in 2 \<le> offset \<and> offset \<le> 30)"

type_synonym component_maps = "string list \<times> (addr \<times> string) list"

definition validateISORuntimeComponent ::
  "string \<Rightarrow> prefix \<Rightarrow> string \<Rightarrow> ISOComponent \<Rightarrow> component_maps \<Rightarrow> runtime_err + component_maps" where
  "validateISORuntimeComponent service project name c maps =
     (case maps of (names, addresses) \<Rightarrow>
        if name = [] \<or> name \<in> set names then Inl (ComponentName service name)
        else if \<not> isUsableISOComponentAddress project (comp_Address c)
        then Inl (ComponentOutside service name (comp_Address c))
        else (case map_of addresses (comp_Address c) of
                Some owner \<Rightarrow> Inl (ComponentDuplicate service (comp_Address c) owner)
              | None \<Rightarrow> Inr (name # names, AList.update (comp_Address c) name addresses)))"

fun validateISORuntimeComponentGroup ::
  "string \<Rightarrow> prefix \<Rightarrow> (string \<times> ISOComponent) list \<Rightarrow> component_maps \<Rightarrow> runtime_err + component_maps" where
  "validateISORuntimeComponentGroup service project [] maps = Inr maps"
| "validateISORuntimeComponentGroup service project ((name, c) # cs) maps =
     (case validateISORuntimeComponent service project name c maps of
        Inl e \<Rightarrow> Inl e
      | Inr maps1 \<Rightarrow> validateISORuntimeComponentGroup service project cs maps1)"

definition validateISORuntimeComponents ::
  "string \<Rightarrow> prefix \<Rightarrow> (string \<times> ISOComponent) list \<Rightarrow> (string \<times> ISOComponent) list \<Rightarrow> runtime_err + unit" where
  "validateISORuntimeComponents service project active retired =
     (case validateISORuntimeComponentGroup service project active ([], []) of
        Inl e \<Rightarrow> Inl e
      | Inr maps \<Rightarrow>
          (case validateISORuntimeComponentGroup service project retired maps of
             Inl e \<Rightarrow> Inl e
           | Inr _ \<Rightarrow> Inr ()))"

definition validateISORuntimeRouter ::
  "Layout \<Rightarrow> string \<Rightarrow> ISOAllocation \<Rightarrow> runtime_maps \<Rightarrow> runtime_err + runtime_maps" where
  "validateISORuntimeRouter layout service a m =
     (if iso_NetNS a \<noteq> isoRouterNamespace service then Inl (NamespaceMismatch service (iso_NetNS a))
      else (case claim_identity service (iso_NetNS a) m of
              Inl e \<Rightarrow> Inl e
            | Inr m1 \<Rightarrow>
                (if iso_Bridge a \<noteq> [] \<and> iso_Bridge a \<noteq> ''br0'' then Inl (BridgeName service)
                 else
                   let project = Masked (iso_Project a) in
                   if iso_Project a \<noteq> project \<or> Bits project \<noteq> 27 \<or> \<not> p_contains (Projects layout) (p_addr project)
                   then Inl (NotUpperHalf service (iso_Project a))
                   else if iso_Gateway a \<noteq> Next (p_addr project) then Inl (ProjectGateway service)
                   else (case map_of (rm_projects m1) project of
                           Some owner \<Rightarrow> Inl (ProjectDuplicate service project owner)
                         | None \<Rightarrow>
                             (case validateISORuntimeComponents service project (iso_Components a) (iso_RetiredComponents a) of
                                Inl e \<Rightarrow> Inl e
                              | Inr _ \<Rightarrow> Inr (m1\<lparr>rm_projects := AList.update project service (rm_projects m1)\<rparr>))))))"

definition validateISORuntimeAllocation ::
  "Layout \<Rightarrow> string \<Rightarrow> ISOAllocation \<Rightarrow> runtime_maps \<Rightarrow> runtime_err + runtime_maps" where
  "validateISORuntimeAllocation layout service a m =
     (if iso_AllocatorVersion a \<noteq> AllocatorVersion \<or> iso_PolicyVersion a \<noteq> PolicyVersion
      then Inl (VersionMismatch service)
      else (case validateISORuntimeLink layout service a m of
              Inl e \<Rightarrow> Inl e
            | Inr m1 \<Rightarrow>
                (case validateISORuntimeLinkIdentities service a m1 of
                   Inl e \<Rightarrow> Inl e
                 | Inr m2 \<Rightarrow>
                     (case validateISORuntimePayload service a of
                        Inl e \<Rightarrow> Inl e
                      | Inr _ \<Rightarrow>
                          (if iso_Kind a = PayloadVM
                           then (case validateISORuntimeVM service a of Inl e \<Rightarrow> Inl e | Inr _ \<Rightarrow> Inr m2)
                           else if iso_Kind a = PayloadNative then validateISORuntimeNative service a m2
                           else validateISORuntimeRouter layout service a m2)))))"

section \<open>Checking the database, and the policy it asks for\<close>

fun validate_names ::
  "Layout \<Rightarrow> (string \<times> Service option) list \<Rightarrow> string list \<Rightarrow> runtime_maps \<Rightarrow> runtime_err + unit" where
  "validate_names layout services [] m = Inr ()"
| "validate_names layout services (name # names) m =
     (case map_of services name of
        Some (Some sv) \<Rightarrow>
          (case svc_ISO sv of
             None \<Rightarrow> validate_names layout services names m
           | Some a \<Rightarrow>
               (case validateISORuntimeAllocation layout name a m of
                  Inl e \<Rightarrow> Inl e
                | Inr m1 \<Rightarrow> validate_names layout services names m1))
      | _ \<Rightarrow> Inl (NilView name))"

definition sorted_names :: "Data \<Rightarrow> string list" where
  "sorted_names d = sort (map fst (Services d))"

definition no_maps :: runtime_maps where
  "no_maps = \<lparr>rm_links = [], rm_projects = [], rm_identities = []\<rparr>"

definition validateISORuntimeState :: "Data \<Rightarrow> runtime_err + unit" where
  "validateISORuntimeState d =
     (case data_ISOPool d of
        None \<Rightarrow> Inl RuntimePool
      | Some pool \<Rightarrow>
          (case NewLayout (pool_Prefix pool) of
             Inl e \<Rightarrow> Inl (RuntimeLayout e)
           | Inr layout \<Rightarrow> validate_names layout (Services d) (sorted_names d) no_maps))"

definition cleanup_done :: "ISOAllocation \<Rightarrow> bool" where
  "cleanup_done a \<longleftrightarrow> iso_RemoveRequested a \<and> iso_CleanupVerified a"

definition runtime_endpoint :: "ISOAllocation \<Rightarrow> ISOEndpoint" where
  "runtime_endpoint a =
     \<lparr>ep_Interface = iso_Interface a, ep_Link = iso_Link a, ep_PeerIP = iso_PeerIP a, ep_Project = iso_Project a,
      ep_Tailscale = List.member (iso_DesiredModes a) ''ts''\<rparr>"

text \<open>The allocations that are still reserved, in the order of the names; a nil service panics.\<close>

fun live_allocations :: "(string \<times> Service option) list \<Rightarrow> string list \<Rightarrow> runtime_err + (string \<times> ISOAllocation) list" where
  "live_allocations services [] = Inr []"
| "live_allocations services (name # names) =
     (case map_of services name of
        Some (Some sv) \<Rightarrow>
          (case live_allocations services names of
             Inl e \<Rightarrow> Inl e
           | Inr rest \<Rightarrow>
               Inr (case svc_ISO sv of
                      None \<Rightarrow> rest
                    | Some a \<Rightarrow> if cleanup_done a then rest else (name, a) # rest))
      | _ \<Rightarrow> Inl (NilView name))"

definition isoRuntimeEndpoints :: "Data \<Rightarrow> runtime_err + ISOEndpoint list" where
  "isoRuntimeEndpoints d =
     map_sum id (map (\<lambda>(name, a). runtime_endpoint a)) (live_allocations (Services d) (sorted_names d))"

definition isoDNSPort :: "16 word" where "isoDNSPort = 5353"

definition isoTailscaleInterface :: string where "isoTailscaleInterface = ''ts0''"

definition isoRuntimeTailscaleInterface :: "string list \<Rightarrow> string" where
  "isoRuntimeTailscaleInterface modes = (if List.member modes ''ts'' then isoTailscaleInterface else [])"

record ISOTopologySpec =
  top_Backend :: FirewallBackend
  top_Pool :: prefix
  top_Allocation :: ISOAllocation
  top_TailscaleInterface :: string

definition topology_spec :: "FirewallBackend \<Rightarrow> prefix \<Rightarrow> ISOAllocation \<Rightarrow> ISOTopologySpec" where
  "topology_spec backend pool a =
     \<lparr>top_Backend = backend, top_Pool = pool, top_Allocation = a,
      top_TailscaleInterface = isoRuntimeTailscaleInterface (iso_DesiredModes a)\<rparr>"

definition isoRuntimeTopologies :: "Data \<Rightarrow> FirewallBackend \<Rightarrow> prefix \<Rightarrow> runtime_err + (string \<times> ISOTopologySpec) list" where
  "isoRuntimeTopologies d backend pool =
     map_sum id (map (\<lambda>(name, a). (name, topology_spec backend pool a))) (live_allocations (Services d) (sorted_names d))"

record isoRuntimeNetworkSpec =
  ns_Backend :: FirewallBackend
  ns_Policy :: ISOPolicySpec
  ns_Topology :: ISOTopologySpec
  ns_Topologies :: "(string \<times> ISOTopologySpec) list"
  ns_VM :: bool

text \<open>The result of detecting the firewall back end is an argument.\<close>

definition isoRuntimeSpec ::
  "string + FirewallBackend \<Rightarrow> Data \<Rightarrow> string \<Rightarrow> runtime_err + isoRuntimeNetworkSpec" where
  "isoRuntimeSpec detected d service =
     (case data_ISOPool d of
        None \<Rightarrow> Inl RuntimePool
      | Some pool \<Rightarrow>
          (case validateISORuntimeState d of
             Inl e \<Rightarrow> Inl e
           | Inr _ \<Rightarrow>
               (case map_of (Services d) service of
                  None \<Rightarrow> Inl (NoRuntimeAllocation service)
                | Some None \<Rightarrow> Inl (NilView service)
                | Some (Some sv) \<Rightarrow>
                    (case svc_ISO sv of
                       None \<Rightarrow> Inl (NoRuntimeAllocation service)
                     | Some target \<Rightarrow>
                         (case detected of
                            Inl e \<Rightarrow> Inl (DetectBackend e)
                          | Inr backend \<Rightarrow>
                              (case isoRuntimeEndpoints d of
                                 Inl e \<Rightarrow> Inl e
                               | Inr endpoints \<Rightarrow>
                                   (case isoRuntimeTopologies d backend (pool_Prefix pool) of
                                      Inl e \<Rightarrow> Inl e
                                    | Inr topologies \<Rightarrow>
                                        Inr \<lparr>ns_Backend = backend,
                                             ns_Policy = \<lparr>ps_Pool = pool_Prefix pool, ps_DNSPort = isoDNSPort, ps_Endpoints = endpoints\<rparr>,
                                             ns_Topology = topology_spec backend (pool_Prefix pool) target,
                                             ns_Topologies = topologies, ns_VM = (iso_Kind target = PayloadVM)\<rparr>)))))))"

text \<open>The loop over the services stops at the first allocation.\<close>

fun has_allocations :: "(string \<times> Service option) list \<Rightarrow> runtime_err + bool" where
  "has_allocations [] = Inr False"
| "has_allocations ((name, None) # services) = Inl (NilView name)"
| "has_allocations ((name, Some sv) # services) = (if svc_ISO sv \<noteq> None then Inr True else has_allocations services)"

definition hasISOAllocations :: "Data \<Rightarrow> runtime_err + bool" where
  "hasISOAllocations d = has_allocations (Services d)"

datatype policy_err = PolicyState runtime_err | PolicyRender iso_fw_err | PolicyDetect string

text \<open>The policy for everything in the data; \<open>None\<close> is not present.\<close>

definition global_policy :: "string + FirewallBackend \<Rightarrow> Data \<Rightarrow> policy_err + ISOPolicyRules option" where
  "global_policy detected d =
     (case data_ISOPool d of
        None \<Rightarrow>
          (case hasISOAllocations d of
             Inl e \<Rightarrow> Inl (PolicyState e)
           | Inr has \<Rightarrow> if has then Inl (PolicyState RuntimePool) else Inr None)
      | Some pool \<Rightarrow>
          (case validateISORuntimeState d of
             Inl e \<Rightarrow> Inl (PolicyState e)
           | Inr _ \<Rightarrow>
               (case detected of
                  Inl e \<Rightarrow> Inl (PolicyDetect e)
                | Inr backend \<Rightarrow>
                    (case isoRuntimeEndpoints d of
                       Inl e \<Rightarrow> Inl (PolicyState e)
                     | Inr endpoints \<Rightarrow>
                         (case RenderISOPolicy backend
                                 \<lparr>ps_Pool = pool_Prefix pool, ps_DNSPort = isoDNSPort, ps_Endpoints = endpoints\<rparr> of
                            Inl e \<Rightarrow> Inl (PolicyRender e)
                          | Inr rules \<Rightarrow> Inr (Some rules))))))"

section \<open>What the check accepts\<close>

lemma then_Inr: "(case r of Inl e \<Rightarrow> Inl e | Inr x \<Rightarrow> g x) = Inr y \<longleftrightarrow> (\<exists>x. r = Inr x \<and> g x = Inr y)"
  by (cases r) auto

definition components_ok :: "prefix \<Rightarrow> (string \<times> ISOComponent) list \<Rightarrow> bool" where
  "components_ok project cs \<longleftrightarrow>
     [] \<notin> fst ` set cs \<and> distinct (map fst cs) \<and> distinct (map (\<lambda>(n, c). comp_Address c) cs) \<and>
     (\<forall>(n, c) \<in> set cs. isUsableISOComponentAddress project (comp_Address c))"

lemma component_group_append:
  "validateISORuntimeComponentGroup s p (xs @ ys) m =
     (case validateISORuntimeComponentGroup s p xs m of Inl e \<Rightarrow> Inl e | Inr m1 \<Rightarrow> validateISORuntimeComponentGroup s p ys m1)"
  by (induction s p xs m rule: validateISORuntimeComponentGroup.induct) (auto split: sum.splits)

lemma component_step:
  "validateISORuntimeComponent s p n c (ns, as) = Inr m \<longleftrightarrow>
   n \<noteq> [] \<and> n \<notin> set ns \<and> isUsableISOComponentAddress p (comp_Address c) \<and> comp_Address c \<notin> fst ` set as \<and>
   m = (n # ns, AList.update (comp_Address c) n as)"
  by (auto simp: validateISORuntimeComponent_def map_of_eq_None_iff [symmetric] split: option.splits)

lemma component_group_ok:
  "(\<exists>m. validateISORuntimeComponentGroup s p cs (ns, as) = Inr m) \<longleftrightarrow>
   components_ok p cs \<and> fst ` set cs \<inter> set ns = {} \<and> (\<lambda>(n, c). comp_Address c) ` set cs \<inter> fst ` set as = {}"
proof (induction cs arbitrary: ns as)
  case (Cons x cs)
  obtain n c where x: "x = (n, c)" by (cases x)
  show ?case
  proof (cases "\<exists>m. validateISORuntimeComponent s p n c (ns, as) = Inr m")
    case True
    then have ok: "n \<noteq> []" "n \<notin> set ns" "isUsableISOComponentAddress p (comp_Address c)" "comp_Address c \<notin> fst ` set as"
      by (auto simp: component_step)
    then have "validateISORuntimeComponent s p n c (ns, as) = Inr (n # ns, AList.update (comp_Address c) n as)"
      by (simp add: component_step)
    then have "(\<exists>m. validateISORuntimeComponentGroup s p (x # cs) (ns, as) = Inr m) \<longleftrightarrow>
        components_ok p cs \<and> fst ` set cs \<inter> set (n # ns) = {} \<and>
        (\<lambda>(n, c). comp_Address c) ` set cs \<inter> fst ` set (AList.update (comp_Address c) n as) = {}"
      using Cons.IH [of "n # ns" "AList.update (comp_Address c) n as"] by (simp add: x del: split_paired_Ex)
    then show ?thesis using ok by (simp only: x keys_update components_ok_def) auto
  next
    case False
    then have "validateISORuntimeComponentGroup s p (x # cs) (ns, as) \<noteq> Inr m" for m
      by (auto simp: x split: sum.splits)
    moreover from False have "\<not> (n \<noteq> [] \<and> n \<notin> set ns \<and> isUsableISOComponentAddress p (comp_Address c) \<and> comp_Address c \<notin> fst ` set as)"
      by (auto simp: component_step)
    ultimately show ?thesis by (auto simp: x components_ok_def)
  qed
qed (simp add: components_ok_def)

lemma components_iff:
  "validateISORuntimeComponents s p active retired = Inr () \<longleftrightarrow> components_ok p (active @ retired)"
  using component_group_ok [of s p "active @ retired" "[]" "[]"]
  by (auto simp: validateISORuntimeComponents_def component_group_append split: sum.splits)

definition is_router :: "ISOAllocation \<Rightarrow> bool" where
  "is_router a \<longleftrightarrow> iso_Kind a \<noteq> PayloadVM \<and> iso_Kind a \<noteq> PayloadNative"

definition no_router_state :: "ISOAllocation \<Rightarrow> bool" where
  "no_router_state a \<longleftrightarrow>
     \<not> p_valid (iso_Project a) \<and> \<not> IsValid (iso_Gateway a) \<and> iso_Bridge a = [] \<and> iso_comps a = []"

definition router_ok :: "Layout \<Rightarrow> ISOAllocation \<Rightarrow> bool" where
  "router_ok l a \<longleftrightarrow>
     iso_Bridge a \<in> {[], ''br0''} \<and> Masked (iso_Project a) = iso_Project a \<and> Bits (iso_Project a) = 27 \<and>
     p_contains (Projects l) (p_addr (iso_Project a)) \<and> iso_Gateway a = Next (p_addr (iso_Project a)) \<and>
     components_ok (iso_Project a) (iso_comps a)"

text \<open>One allocation on its own.\<close>

definition runtime_alloc_ok :: "Layout \<Rightarrow> string \<Rightarrow> ISOAllocation \<Rightarrow> bool" where
  "runtime_alloc_ok l n a \<longleftrightarrow>
     iso_AllocatorVersion a = AllocatorVersion \<and> iso_PolicyVersion a = PolicyVersion \<and>
     Masked (iso_Link a) = iso_Link a \<and> Bits (iso_Link a) = 30 \<and> p_contains (Links l) (p_addr (iso_Link a)) \<and>
     iso_HostIP a = Next (p_addr (iso_Link a)) \<and> iso_PeerIP a = Next (Next (p_addr (iso_Link a))) \<and>
     iso_Interface a = ''yi-'' @ isoNameToken n \<and> iso_PeerInterface a = ''yo-'' @ isoNameToken n \<and>
     validateISORuntimePayload n a = Inr () \<and>
     iso_NetNS a = (if iso_Kind a = PayloadVM then [] else isoRouterNamespace n) \<and>
     (if is_router a then router_ok l a else no_router_state a)"

text \<open>What an allocation may not share with another one.\<close>

definition alloc_ids :: "ISOAllocation \<Rightarrow> string list" where
  "alloc_ids a = [iso_Interface a, iso_PeerInterface a] @ (if iso_Kind a = PayloadVM then [] else [iso_NetNS a])"

definition unclaimed :: "runtime_maps \<Rightarrow> ISOAllocation \<Rightarrow> bool" where
  "unclaimed m a \<longleftrightarrow>
     iso_Link a \<notin> fst ` set (rm_links m) \<and> set (alloc_ids a) \<inter> fst ` set (rm_identities m) = {} \<and>
     (is_router a \<longrightarrow> iso_Project a \<notin> fst ` set (rm_projects m))"

definition claim_all :: "string \<Rightarrow> ISOAllocation \<Rightarrow> runtime_maps \<Rightarrow> runtime_maps" where
  "claim_all n a m =
     \<lparr>rm_links = AList.update (iso_Link a) n (rm_links m),
      rm_projects = (if is_router a then AList.update (iso_Project a) n (rm_projects m) else rm_projects m),
      rm_identities = fold (\<lambda>i. AList.update i n) (alloc_ids a) (rm_identities m)\<rparr>"

lemma claim_identity_iff:
  "claim_identity s i m = Inr m' \<longleftrightarrow>
   i \<notin> fst ` set (rm_identities m) \<and> m' = m\<lparr>rm_identities := AList.update i s (rm_identities m)\<rparr>"
  by (auto simp: claim_identity_def map_of_eq_None_iff [symmetric] split: option.splits)

lemma link_iff:
  "validateISORuntimeLink l n a m = Inr m' \<longleftrightarrow>
   Masked (iso_Link a) = iso_Link a \<and> Bits (iso_Link a) = 30 \<and> p_contains (Links l) (p_addr (iso_Link a)) \<and>
   iso_HostIP a = Next (p_addr (iso_Link a)) \<and> iso_PeerIP a = Next (Next (p_addr (iso_Link a))) \<and>
   iso_Link a \<notin> fst ` set (rm_links m) \<and> m' = m\<lparr>rm_links := AList.update (iso_Link a) n (rm_links m)\<rparr>"
  by (auto simp: validateISORuntimeLink_def Let_def map_of_eq_None_iff [symmetric] split: option.splits)

lemma claim_identities_iff:
  "claim_identities s is m = Inr m' \<longleftrightarrow>
   distinct is \<and> set is \<inter> fst ` set (rm_identities m) = {} \<and>
   m' = m\<lparr>rm_identities := fold (\<lambda>i. AList.update i s) is (rm_identities m)\<rparr>"
proof (induction "is" arbitrary: m)
  case (Cons i "is")
  show ?case
  proof (cases "i \<in> fst ` set (rm_identities m)")
    case True
    then have "claim_identity s i m \<noteq> Inr m1" for m1 by (simp add: claim_identity_iff)
    then show ?thesis using True by (auto split: sum.splits)
  next
    case False
    then have "claim_identity s i m = Inr (m\<lparr>rm_identities := AList.update i s (rm_identities m)\<rparr>)"
      by (simp add: claim_identity_iff)
    then show ?thesis using False by (auto simp: Cons.IH keys_update)
  qed
qed auto

lemma link_identities_iff:
  "validateISORuntimeLinkIdentities n a m = Inr m' \<longleftrightarrow>
   iso_Interface a = ''yi-'' @ isoNameToken n \<and> iso_PeerInterface a = ''yo-'' @ isoNameToken n \<and>
   {iso_Interface a, iso_PeerInterface a} \<inter> fst ` set (rm_identities m) = {} \<and>
   m' = m\<lparr>rm_identities := AList.update (iso_PeerInterface a) n (AList.update (iso_Interface a) n (rm_identities m))\<rparr>"
  by (auto simp: validateISORuntimeLinkIdentities_def Let_def claim_identities_iff simp del: claim_identities.simps)

lemma claim_identity_cases:
  obtains "i \<in> fst ` set (rm_identities m)" "\<And>m1. claim_identity s i m \<noteq> Inr m1" "\<exists>e. claim_identity s i m = Inl e"
  | "i \<notin> fst ` set (rm_identities m)"
    "claim_identity s i m = Inr (m\<lparr>rm_identities := AList.update i s (rm_identities m)\<rparr>)"
proof (cases "claim_identity s i m")
  case (Inl e)
  then show ?thesis using claim_identity_iff [of s i m] that(1) by fastforce
next
  case (Inr m1)
  then show ?thesis using claim_identity_iff [of s i m m1] that(2) by simp
qed

lemma native_iff:
  "validateISORuntimeNative n a m = Inr m' \<longleftrightarrow>
   iso_NetNS a = isoRouterNamespace n \<and> no_router_state a \<and> iso_NetNS a \<notin> fst ` set (rm_identities m) \<and>
   m' = m\<lparr>rm_identities := AList.update (iso_NetNS a) n (rm_identities m)\<rparr>"
  by (cases rule: claim_identity_cases [of "iso_NetNS a" m n])
    (auto simp: validateISORuntimeNative_def no_router_state_def iso_comps_def split: if_splits)

lemma router_iff:
  "validateISORuntimeRouter l n a m = Inr m' \<longleftrightarrow>
   iso_NetNS a = isoRouterNamespace n \<and> router_ok l a \<and> iso_NetNS a \<notin> fst ` set (rm_identities m) \<and>
   iso_Project a \<notin> fst ` set (rm_projects m) \<and>
   m' = m\<lparr>rm_identities := AList.update (iso_NetNS a) n (rm_identities m),
          rm_projects := AList.update (iso_Project a) n (rm_projects m)\<rparr>"
proof (cases rule: claim_identity_cases [of "iso_NetNS a" m n])
  case 1
  then show ?thesis by (auto simp: validateISORuntimeRouter_def)
next
  case 2
  have c: "validateISORuntimeComponents n p (iso_Components a) (iso_RetiredComponents a) = Inr () \<longleftrightarrow>
      components_ok p (iso_comps a)" for p
    by (simp add: components_iff iso_comps_def)
  show ?thesis
  proof (cases "Masked (iso_Project a) = iso_Project a")
    case True
    then show ?thesis
      using 2 c [of "iso_Project a"]
      by (cases "map_of (rm_projects m) (iso_Project a)";
          cases "validateISORuntimeComponents n (iso_Project a) (iso_Components a) (iso_RetiredComponents a)")
        (auto simp: validateISORuntimeRouter_def router_ok_def Let_def map_of_eq_None_iff [symmetric] split: if_splits)
  next
    case False
    then show ?thesis using 2 by (auto simp: validateISORuntimeRouter_def router_ok_def Let_def split: if_splits)
  qed
qed

lemma allocation_split:
  "validateISORuntimeAllocation l n a m = Inr m' \<longleftrightarrow>
   iso_AllocatorVersion a = AllocatorVersion \<and> iso_PolicyVersion a = PolicyVersion \<and>
   (\<exists>m1 m2. validateISORuntimeLink l n a m = Inr m1 \<and> validateISORuntimeLinkIdentities n a m1 = Inr m2 \<and>
     validateISORuntimePayload n a = Inr () \<and>
     (if iso_Kind a = PayloadVM then validateISORuntimeVM n a = Inr () \<and> m' = m2
      else if iso_Kind a = PayloadNative then validateISORuntimeNative n a m2 = Inr m'
      else validateISORuntimeRouter l n a m2 = Inr m'))"
  by (auto simp: validateISORuntimeAllocation_def then_Inr)

definition link_ok :: "Layout \<Rightarrow> string \<Rightarrow> ISOAllocation \<Rightarrow> bool" where
  "link_ok l n a \<longleftrightarrow>
     Masked (iso_Link a) = iso_Link a \<and> Bits (iso_Link a) = 30 \<and> p_contains (Links l) (p_addr (iso_Link a)) \<and>
     iso_HostIP a = Next (p_addr (iso_Link a)) \<and> iso_PeerIP a = Next (Next (p_addr (iso_Link a))) \<and>
     iso_Interface a = ''yi-'' @ isoNameToken n \<and> iso_PeerInterface a = ''yo-'' @ isoNameToken n"

definition claim_link :: "string \<Rightarrow> ISOAllocation \<Rightarrow> runtime_maps \<Rightarrow> runtime_maps" where
  "claim_link n a m =
     m\<lparr>rm_links := AList.update (iso_Link a) n (rm_links m),
       rm_identities := AList.update (iso_PeerInterface a) n (AList.update (iso_Interface a) n (rm_identities m))\<rparr>"

lemma claim_link_sel:
  "rm_links (claim_link n a m) = AList.update (iso_Link a) n (rm_links m)"
  "rm_projects (claim_link n a m) = rm_projects m"
  "rm_identities (claim_link n a m) = AList.update (iso_PeerInterface a) n (AList.update (iso_Interface a) n (rm_identities m))"
  by (simp_all add: claim_link_def)

lemma link_part:
  "(\<exists>m1 m2. validateISORuntimeLink l n a m = Inr m1 \<and> validateISORuntimeLinkIdentities n a m1 = Inr m2 \<and> P m2) \<longleftrightarrow>
   link_ok l n a \<and> iso_Link a \<notin> fst ` set (rm_links m) \<and>
   {iso_Interface a, iso_PeerInterface a} \<inter> fst ` set (rm_identities m) = {} \<and> P (claim_link n a m)"
  by (simp add: link_iff link_identities_iff link_ok_def claim_link_def del: append.simps) blast

lemma namespace_not_link:
  "link_ok l n a \<Longrightarrow> isoRouterNamespace n \<in> fst ` set (rm_identities (claim_link n a m)) \<longleftrightarrow>
   isoRouterNamespace n \<in> fst ` set (rm_identities m)"
  by (auto simp: link_ok_def claim_link_sel keys_update isoRouterNamespace_def)

lemma allocation_iff:
  "validateISORuntimeAllocation l n a m = Inr m' \<longleftrightarrow> runtime_alloc_ok l n a \<and> unclaimed m a \<and> m' = claim_all n a m"
proof -
  have v: "validateISORuntimeVM n a = Inr () \<longleftrightarrow> no_router_state a \<and> iso_NetNS a = []"
    by (auto simp: validateISORuntimeVM_def no_router_state_def iso_comps_def)
  have ok: "runtime_alloc_ok l n a \<longleftrightarrow>
      iso_AllocatorVersion a = AllocatorVersion \<and> iso_PolicyVersion a = PolicyVersion \<and> link_ok l n a \<and>
      validateISORuntimePayload n a = Inr () \<and> iso_NetNS a = (if iso_Kind a = PayloadVM then [] else isoRouterNamespace n) \<and>
      (if is_router a then router_ok l a else no_router_state a)"
    by (simp only: runtime_alloc_ok_def link_ok_def conj_assoc)
  show ?thesis
  proof (cases "link_ok l n a")
    case False
    then show ?thesis by (simp only: allocation_split link_part ok simp_thms)
  next
    case True
    let ?m = "claim_link n a m"
    let ?free = "iso_Link a \<notin> fst ` set (rm_links m) \<and> {iso_Interface a, iso_PeerInterface a} \<inter> fst ` set (rm_identities m) = {}"
    note n = namespace_not_link [OF True, of m]
    consider (vm) "iso_Kind a = PayloadVM" "\<not> is_router a"
      | (native) "iso_Kind a \<noteq> PayloadVM" "iso_Kind a = PayloadNative" "\<not> is_router a"
      | (router) "iso_Kind a \<noteq> PayloadVM" "iso_Kind a \<noteq> PayloadNative" "is_router a"
      unfolding is_router_def by blast
    then show ?thesis
    proof cases
      case vm
      then have "claim_all n a m = ?m" "unclaimed m a \<longleftrightarrow> ?free"
        by (simp_all add: claim_all_def claim_link_def alloc_ids_def unclaimed_def)
      then show ?thesis
        by (simp only: allocation_split link_part ok True vm v if_True if_False simp_thms) blast
    next
      case native
      have "claim_all n a m = ?m\<lparr>rm_identities := AList.update (iso_NetNS a) n (rm_identities ?m)\<rparr>"
        "unclaimed m a \<longleftrightarrow> ?free \<and> iso_NetNS a \<notin> fst ` set (rm_identities m)"
        using native(1,3) by (simp_all add: claim_all_def claim_link_def alloc_ids_def unclaimed_def, blast?)
      with n show ?thesis
        using native(1) [unfolded native(2)]
        by (simp only: allocation_split link_part ok True native native_iff if_True if_False simp_thms) metis
    next
      case router
      have "claim_all n a m = ?m\<lparr>rm_identities := AList.update (iso_NetNS a) n (rm_identities ?m),
            rm_projects := AList.update (iso_Project a) n (rm_projects ?m)\<rparr>"
        "unclaimed m a \<longleftrightarrow> ?free \<and> iso_NetNS a \<notin> fst ` set (rm_identities m) \<and> iso_Project a \<notin> fst ` set (rm_projects m)"
        using router(1,3) by (simp_all add: claim_all_def claim_link_def alloc_ids_def unclaimed_def, blast?)
      moreover have "rm_projects ?m = rm_projects m" by (rule claim_link_sel(2))
      ultimately show ?thesis
        using n
        by (simp only: allocation_split link_part ok True router router_iff if_True if_False simp_thms) metis
    qed
  qed
qed

text \<open>Two allocations side by side.\<close>

definition separate :: "ISOAllocation \<Rightarrow> ISOAllocation \<Rightarrow> bool" where
  "separate a b \<longleftrightarrow>
     iso_Link a \<noteq> iso_Link b \<and> set (alloc_ids a) \<inter> set (alloc_ids b) = {} \<and>
     (is_router a \<longrightarrow> is_router b \<longrightarrow> iso_Project a \<noteq> iso_Project b)"

lemma keys_fold_update: "fst ` set (fold (\<lambda>i. AList.update i n) is al) = set is \<union> fst ` set al"
  by (induction "is" arbitrary: al) (auto simp: keys_update)

lemma unclaimed_claim_all: "unclaimed (claim_all n a m) b \<longleftrightarrow> unclaimed m b \<and> separate a b"
  unfolding unclaimed_def claim_all_def separate_def by (auto simp: keys_fold_update keys_update)

definition named_isos :: "(string \<times> Service option) list \<Rightarrow> string list \<Rightarrow> (string \<times> ISOAllocation) list" where
  "named_isos ss ns =
     List.map_filter (\<lambda>n. case map_of ss n of Some (Some sv) \<Rightarrow> map_option (Pair n) (svc_ISO sv) | _ \<Rightarrow> None) ns"

lemma named_isos_simps [simp]:
  "named_isos ss [] = []"
  "named_isos ss (n # ns) =
     (case map_of ss n of
        Some (Some sv) \<Rightarrow> (case svc_ISO sv of None \<Rightarrow> named_isos ss ns | Some a \<Rightarrow> (n, a) # named_isos ss ns)
      | _ \<Rightarrow> named_isos ss ns)"
  by (auto simp: named_isos_def List.map_filter_def split: option.splits)

lemma validate_names_iff:
  "validate_names l ss ns m = Inr () \<longleftrightarrow>
   (\<forall>n \<in> set ns. \<exists>sv. map_of ss n = Some (Some sv)) \<and>
   (\<forall>(n, a) \<in> set (named_isos ss ns). runtime_alloc_ok l n a \<and> unclaimed m a) \<and>
   sorted_wrt (\<lambda>(n, a) (k, b). separate a b) (named_isos ss ns)"
proof (induction ns arbitrary: m)
  case (Cons n ns)
  consider "\<And>sv. map_of ss n \<noteq> Some (Some sv)" | sv where "map_of ss n = Some (Some sv)" "svc_ISO sv = None"
    | sv a where "map_of ss n = Some (Some sv)" "svc_ISO sv = Some a" by fast
  then show ?case
  proof cases
    case 1
    then have "validate_names l ss (n # ns) m = Inl (NilView n)" by (simp split: option.splits)
    then show ?thesis using 1 by simp
  next
    case 2
    then show ?thesis by (simp add: Cons.IH)
  next
    case (3 sv a)
    show ?thesis
    proof (cases "runtime_alloc_ok l n a \<and> unclaimed m a")
      case True
      then have v: "validateISORuntimeAllocation l n a m = Inr (claim_all n a m)" by (simp add: allocation_iff)
      have "(\<forall>(k, b) \<in> set (named_isos ss ns). runtime_alloc_ok l k b \<and> unclaimed (claim_all n a m) b) \<longleftrightarrow>
          (\<forall>(k, b) \<in> set (named_isos ss ns). runtime_alloc_ok l k b \<and> unclaimed m b) \<and>
          (\<forall>(k, b) \<in> set (named_isos ss ns). separate a b)"
        unfolding unclaimed_claim_all by fast
      then show ?thesis using 3 True v by (simp add: Cons.IH)
    next
      case False
      then have "validateISORuntimeAllocation l n a m \<noteq> Inr m1" for m1 by (auto simp: allocation_iff)
      then have "validate_names l ss (n # ns) m \<noteq> Inr ()" using 3 by (simp split: sum.splits)
      then show ?thesis using 3 False by (simp del: validate_names.simps) fast
    qed
  qed
qed simp

lemma sorted_wrt_pairs:
  assumes "symp P" "distinct (map fst xs)"
  shows "sorted_wrt P xs \<longleftrightarrow> (\<forall>x \<in> set xs. \<forall>y \<in> set xs. fst x \<noteq> fst y \<longrightarrow> P x y)"
  using assms(2)
proof (induction xs)
  case (Cons x xs)
  then have "\<forall>y \<in> set xs. fst x \<noteq> fst y" by (metis distinct.simps(2) image_eqI list.set_map list.simps(9))
  with Cons show ?case using sympD [OF assms(1)] by fastforce
qed simp

lemma separate_sym: "symp (\<lambda>(n, a) (k, b). separate a b)"
  by (auto simp: symp_def separate_def)

lemma distinct_named_isos: "distinct ns \<Longrightarrow> distinct (map fst (named_isos ss ns))"
proof (induction ns)
  case (Cons n ns)
  have "fst ` set (named_isos ss ns) \<subseteq> set ns" by (induction ns) (auto split: option.splits)
  with Cons show ?case by (auto split: option.splits)
qed simp

lemma set_named_isos:
  "distinct (map fst ss) \<Longrightarrow> set (named_isos ss (sort (map fst ss))) = set (service_isos ss)"
proof -
  assume d: "distinct (map fst ss)"
  have "(n, a) \<in> set (named_isos ss ns) \<longleftrightarrow> n \<in> set ns \<and> (\<exists>sv. map_of ss n = Some (Some sv) \<and> svc_ISO sv = Some a)" for n a ns
    by (induction ns) (auto split: option.splits)
  then have "(n, a) \<in> set (named_isos ss (sort (map fst ss))) \<longleftrightarrow> (n, a) \<in> set (service_isos ss)" for n a
    using d by (force simp: service_isos_mem image_iff)
  then show ?thesis by auto
qed

text \<open>Generated names tell two services apart exactly when their tokens do.\<close>

lemma ids_disjoint:
  assumes "runtime_alloc_ok l n a" "runtime_alloc_ok l k b"
  shows "set (alloc_ids a) \<inter> set (alloc_ids b) = {} \<longleftrightarrow> isoNameToken n \<noteq> isoNameToken k"
  using assms by (auto simp: runtime_alloc_ok_def alloc_ids_def isoRouterNamespace_def split: if_splits)

definition runtime_ok :: "Data \<Rightarrow> bool" where
  "runtime_ok d \<longleftrightarrow>
     (\<exists>pool l. data_ISOPool d = Some pool \<and> NewLayout (pool_Prefix pool) = Inr l \<and>
        None \<notin> snd ` set (Services d) \<and>
        (\<forall>(n, a) \<in> set (service_isos (Services d)). runtime_alloc_ok l n a) \<and>
        (\<forall>(n, a) \<in> set (service_isos (Services d)). \<forall>(k, b) \<in> set (service_isos (Services d)). n \<noteq> k \<longrightarrow>
           iso_Link a \<noteq> iso_Link b \<and> isoNameToken n \<noteq> isoNameToken k \<and>
           (is_router a \<longrightarrow> is_router b \<longrightarrow> iso_Project a \<noteq> iso_Project b)))"

lemma no_nil_views:
  assumes "distinct (map fst ss)"
  shows "(\<forall>n \<in> set (sort (map fst ss)). \<exists>sv. map_of ss n = Some (Some sv)) \<longleftrightarrow> None \<notin> snd ` set ss"
proof
  assume h: "\<forall>n \<in> set (sort (map fst ss)). \<exists>sv. map_of ss n = Some (Some sv)"
  have "s \<noteq> None" if "(n, s) \<in> set ss" for n s
    using h map_of_is_SomeI [OF assms that] imageI [OF that, of fst] by fastforce
  then show "None \<notin> snd ` set ss" by force
next
  assume h: "None \<notin> snd ` set ss"
  show "\<forall>n \<in> set (sort (map fst ss)). \<exists>sv. map_of ss n = Some (Some sv)"
  proof
    fix n assume "n \<in> set (sort (map fst ss))"
    then obtain s where s: "(n, s) \<in> set ss" by auto
    then obtain sv where "s = Some sv" using h imageI [OF s, of snd] by (cases s) auto
    then show "\<exists>sv. map_of ss n = Some (Some sv)" using map_of_is_SomeI [OF assms s] by simp
  qed
qed

lemma validateISORuntimeState_iff:
  assumes "distinct (map fst (Services d))"
  shows "validateISORuntimeState d = Inr () \<longleftrightarrow> runtime_ok d"
proof (cases "data_ISOPool d")
  case (Some pool)
  show ?thesis
  proof (cases "NewLayout (pool_Prefix pool)")
    case (Inr l)
    let ?is = "service_isos (Services d)"
    let ?n = "named_isos (Services d) (sort (map fst (Services d)))"
    have pairs: "sorted_wrt (\<lambda>(n, a) (k, b). separate a b) ?n \<longleftrightarrow>
        (\<forall>(n, a) \<in> set ?is. \<forall>(k, b) \<in> set ?is. n \<noteq> k \<longrightarrow> separate a b)"
      using sorted_wrt_pairs [OF separate_sym distinct_named_isos, of "sort (map fst (Services d))" "Services d"] assms
      by (fastforce simp: set_named_isos)
    have "unclaimed no_maps a" for a by (simp add: unclaimed_def no_maps_def)
    then have "validateISORuntimeState d = Inr () \<longleftrightarrow>
        None \<notin> snd ` set (Services d) \<and> (\<forall>(n, a) \<in> set ?is. runtime_alloc_ok l n a) \<and>
        (\<forall>(n, a) \<in> set ?is. \<forall>(k, b) \<in> set ?is. n \<noteq> k \<longrightarrow> separate a b)"
      unfolding validateISORuntimeState_def sorted_names_def Some Inr option.case sum.case
        validate_names_iff pairs set_named_isos [OF assms] no_nil_views [OF assms] by simp
    moreover have "(\<forall>(n, a) \<in> set ?is. \<forall>(k, b) \<in> set ?is. n \<noteq> k \<longrightarrow> separate a b) \<longleftrightarrow>
        (\<forall>(n, a) \<in> set ?is. \<forall>(k, b) \<in> set ?is. n \<noteq> k \<longrightarrow> iso_Link a \<noteq> iso_Link b \<and>
           isoNameToken n \<noteq> isoNameToken k \<and> (is_router a \<longrightarrow> is_router b \<longrightarrow> iso_Project a \<noteq> iso_Project b))"
      if ok: "\<forall>(n, a) \<in> set ?is. runtime_alloc_ok l n a"
    proof -
      have "separate a b \<longleftrightarrow> iso_Link a \<noteq> iso_Link b \<and> isoNameToken n \<noteq> isoNameToken k \<and>
          (is_router a \<longrightarrow> is_router b \<longrightarrow> iso_Project a \<noteq> iso_Project b)"
        if "(n, a) \<in> set ?is" "(k, b) \<in> set ?is" for n a k b
        using ids_disjoint [of l n a k b] that ok by (auto simp: separate_def)
      then show ?thesis unfolding Ball_def split_paired_All case_prod_conv by presburger
    qed
    moreover have "runtime_ok d \<longleftrightarrow> None \<notin> snd ` set (Services d) \<and> (\<forall>(n, a) \<in> set ?is. runtime_alloc_ok l n a) \<and>
        (\<forall>(n, a) \<in> set ?is. \<forall>(k, b) \<in> set ?is. n \<noteq> k \<longrightarrow> iso_Link a \<noteq> iso_Link b \<and>
           isoNameToken n \<noteq> isoNameToken k \<and> (is_router a \<longrightarrow> is_router b \<longrightarrow> iso_Project a \<noteq> iso_Project b))"
      unfolding runtime_ok_def Some using Inr by simp
    ultimately show ?thesis by (simp only: cong: conj_cong)
  qed (simp add: validateISORuntimeState_def runtime_ok_def Some)
qed (simp add: validateISORuntimeState_def runtime_ok_def)

section \<open>Accepted states and the allocator's invariant\<close>

lemma offset_in_half:
  fixes x y w :: nat
  assumes "w dvd 32768" "x mod w = 0" "x div 32768 = y div 32768" "y mod 32768 = 0"
  shows "\<exists>i < 32768 div w. x = y + w * i"
proof -
  have "w dvd x mod 32768" using assms(1,2) by (simp add: dvd_mod mod_eq_0_iff_dvd)
  then obtain i where i: "x mod 32768 = w * i" by blast
  have "x = y + w * i" using div_mult_mod_eq [of x 32768] div_mult_mod_eq [of y 32768] assms(3,4) i by simp
  moreover have "w * i < w * (32768 div w)" using i assms(1) mod_less_divisor [of 32768 x] by simp
  then have "i < 32768 div w" by simp
  ultimately show ?thesis by blast
qed

lemma masked_in_half:
  assumes "Masked p = p" "Bits p = int n" "p_contains (v4_prefix c 17) (p_addr p)" "unat c mod 32768 = 0" "17 \<le> n" "n \<le> 32"
  obtains i where "i < 32768 div 2 ^ (32 - n)" "p = v4_prefix (c + of_nat (2 ^ (32 - n) * i)) n"
proof -
  obtain a where a: "p_addr p = V4 a" using assms(3) by (cases "p_addr p") (auto simp: v4_prefix_def)
  then have p: "p = v4_prefix a n" using assms(2) by (rule v4_prefixI)
  then have "mask_addr (V4 a) n = V4 a" using assms(1) a by (cases "mask_addr (V4 a) n") (auto simp: Masked_def v4_prefix_def p_valid_def)
  then have "unat a mod 2 ^ (32 - n) = 0" by (drule_tac unat_mask_addr) simp
  moreover have "unat a div 32768 = unat c div 32768" using assms(3) a by (simp add: contains_v4_iff block_of_def)
  moreover have "(2::nat) ^ (32 - n) dvd 2 ^ 15" using assms(5) by (intro le_imp_power_dvd) simp
  ultimately obtain i where i: "i < 32768 div 2 ^ (32 - n)" "unat a = unat c + 2 ^ (32 - n) * i"
    using offset_in_half [of "2 ^ (32 - n)" "unat a" "unat c"] assms(4) by auto
  have "unat (c + of_nat (2 ^ (32 - n) * i)) = unat c + 2 ^ (32 - n) * i"
    by (rule unat_v4_add) (use i(2) v4_bound [of a] in simp)
  then have "a = c + of_nat (2 ^ (32 - n) * i)" using i(2) by (metis word_unat_eq_iff)
  then show ?thesis using that i(1) p by blast
qed

lemma layout_halves:
  assumes "layout_at l b"
  shows "unat b mod 32768 = 0" "unat (b + of_nat 32768) = unat b + 32768" "unat (b + of_nat 32768) mod 32768 = 0"
proof -
  have m: "unat b mod 65536 = 0" using assms by (simp add: layout_at_def)
  show "unat b mod 32768 = 0" using m mod_mod_cancel [of 32768 65536 "unat b"] by simp
  moreover show "unat (b + of_nat 32768) = unat b + 32768" by (rule unat_v4_add) (use base_room [OF m] in simp)
  ultimately show "unat (b + of_nat 32768) mod 32768 = 0" by simp
qed

lemma runtime_link:
  assumes "layout_at l b" "runtime_alloc_ok l n a"
  obtains i where "i < 8192" "iso_Link a = v4_prefix (b + of_nat (4 * i)) 30" "Link l (int i) = Inr (iso_Link a)"
proof -
  have "Masked (iso_Link a) = iso_Link a" "Bits (iso_Link a) = int 30" "p_contains (v4_prefix b 17) (p_addr (iso_Link a))"
    using assms by (simp_all add: runtime_alloc_ok_def layout_at_def)
  then obtain i where i: "i < 8192" "iso_Link a = v4_prefix (b + of_nat (4 * i)) 30"
    by (rule masked_in_half) (use layout_halves(1) [OF assms(1)] in auto)
  then show ?thesis using Link_at [OF assms(1) i(1)] that by simp
qed

lemma runtime_project:
  assumes "layout_at l b" "router_ok l a"
  obtains i where "i < 1024" "iso_Project a = v4_prefix (b + of_nat (32768 + 32 * i)) 27" "Project l (int i) = Inr (iso_Project a)"
proof -
  have "Masked (iso_Project a) = iso_Project a" "Bits (iso_Project a) = int 27"
    "p_contains (v4_prefix (b + of_nat 32768) 17) (p_addr (iso_Project a))"
    using assms by (simp_all add: router_ok_def layout_at_def)
  then obtain i where i: "i < 1024" "iso_Project a = v4_prefix (b + of_nat 32768 + of_nat (32 * i)) 27"
    by (rule masked_in_half) (use layout_halves(3) [OF assms(1)] in auto)
  then have "iso_Project a = v4_prefix (b + of_nat (32768 + 32 * i)) 27" by (simp add: add.assoc)
  then show ?thesis using Project_at [OF assms(1) i(1)] that i(1) by simp
qed

lemma octet_difference:
  fixes x y :: "8 word"
  assumes "0 \<le> uint x - uint y"
  shows "int (unat (x - y)) = uint x - uint y"
proof -
  have "y \<le> x" using assms by (simp add: word_le_def)
  then have "unat (x - y) = unat x - unat y" "unat y \<le> unat x" by (simp_all add: unat_sub word_le_nat_alt)
  then show ?thesis by (simp add: of_nat_diff)
qed

lemma usable_component:
  assumes "good_project p" "isUsableISOComponentAddress p a"
  shows "component_addr p a"
proof -
  obtain b where b: "p = v4_prefix b 27" "unat b mod 32 = 0" "unat b + 31 < 4294967296"
    using assms(1) by (rule good_projectE)
  have u: "p_contains (v4_prefix b 27) a" "2 \<le> uint (last_octet a) - uint (last_octet (V4 b))"
    "uint (last_octet a) - uint (last_octet (V4 b)) \<le> 30"
    using assms(2) b(1) by (auto simp: isUsableISOComponentAddress_def Let_def split: if_splits)
  obtain k where k: "k < 32" "a = V4 (b + of_nat k)" "unat (last_octet a - last_octet (V4 b)) = k"
    using component_offset [OF b(2,3) u(1)] by blast
  have "int k = uint (last_octet a) - uint (last_octet (V4 b))"
    using octet_difference [of "last_octet a" "last_octet (V4 b)"] u(2) k(3) by linarith
  then have "2 \<le> k" "k < 31" using u(2,3) by linarith+
  then show ?thesis using b k by (auto simp: component_addr_def component_host_at intro!: bexI [of _ k])
qed

lemma runtime_alloc_alloc_ok:
  assumes "wf_layout l" "runtime_alloc_ok l n a"
  shows "alloc_ok l a"
proof -
  obtain b where b: "layout_at l b" using assms(1) by (rule wf_layoutE)
  obtain i where i: "Link l (int i) = Inr (iso_Link a)" using runtime_link [OF b assms(2)] by blast
  have common: "iso_HostIP a = Next (p_addr (iso_Link a))" "iso_PeerIP a = Next (Next (p_addr (iso_Link a)))"
    using assms(2) by (simp_all add: runtime_alloc_ok_def)
  show ?thesis
  proof (cases "is_router a")
    case False
    then have "\<not> p_valid (iso_Project a)" "iso_comps a = []"
      using assms(2) by (simp_all add: runtime_alloc_ok_def no_router_state_def)
    then show ?thesis using common i by (auto simp: alloc_ok_def)
  next
    case True
    then have r: "router_ok l a" using assms(2) by (simp add: runtime_alloc_ok_def)
    obtain j where j: "Project l (int j) = Inr (iso_Project a)" "iso_Project a = v4_prefix (b + of_nat (32768 + 32 * j)) 27"
      using runtime_project [OF b r] by blast
    have m: "Masked (iso_Project a) = iso_Project a" using r by (simp add: router_ok_def)
    have "good_project (iso_Project a)" using good_project_Masked [of "iso_Project a"] unfolding m by (simp add: j(2))
    then have "component_addr (iso_Project a) (comp_Address c)" if "(m, c) \<in> set (iso_comps a)" for m c
      using usable_component r that by (fastforce simp: router_ok_def components_ok_def)
    then show ?thesis
      using r common i j by (auto simp: alloc_ok_def router_ok_def components_ok_def)
  qed
qed

text \<open>The check refuses every state the allocator's invariant excludes.\<close>

lemma runtime_ok_iso_ok:
  assumes "distinct (map fst (Services d))" "runtime_ok d"
  shows "iso_ok d"
proof -
  obtain pool l where p: "data_ISOPool d = Some pool" "NewLayout (pool_Prefix pool) = Inr l"
    and ok: "\<And>n a. (n, a) \<in> set (service_isos (Services d)) \<Longrightarrow> runtime_alloc_ok l n a"
    and pair: "\<And>n a k b. (n, a) \<in> set (service_isos (Services d)) \<Longrightarrow> (k, b) \<in> set (service_isos (Services d)) \<Longrightarrow> n \<noteq> k \<Longrightarrow>
      iso_Link a \<noteq> iso_Link b \<and> (is_router a \<longrightarrow> is_router b \<longrightarrow> iso_Project a \<noteq> iso_Project b)"
    using assms(2) unfolding runtime_ok_def by fast
  have wf: "wf_layout l" using p(2) by (rule NewLayout_wf)
  have router: "is_router a \<longleftrightarrow> p_valid (iso_Project a)" if "(n, a) \<in> set (service_isos (Services d))" for n a
    using ok [OF that] by (auto simp: runtime_alloc_ok_def no_router_state_def router_ok_def p_valid_def Bits_def split: if_splits)
  have "apart a b" if "(n, a) \<in> set (service_isos (Services d))" "(k, b) \<in> set (service_isos (Services d))" "n \<noteq> k" for n a k b
    using pair [OF that] router [OF that(1)] router [OF that(2)] unfolding apart_def by metis
  then have "isos_ok l (Services d)"
    using assms(1) runtime_alloc_alloc_ok [OF wf ok] unfolding isos_ok_def by fast
  with p show ?thesis by (auto simp: iso_ok_def)
qed

section \<open>Accepted states and the policy\<close>

lemma hex_digit_char: "n < 16 \<Longrightarrow> isoInterfaceChar (hex_digit n)"
  by (simp add: isoInterfaceChar_def hex_digit_def Let_def of_char_char_of_small)

lemma encoded_chars: "list_all isoInterfaceChar (EncodeToString bs)"
proof -
  have "unat (b :: 8 word) div 16 < 16" for b using unsigned_less [of b, where ?'a = nat] by simp
  then show ?thesis by (auto simp: EncodeToString_def list_all_iff hex_digit_char)
qed

lemma generated_interface: "isoInterfaceNameRE (''yi-'' @ isoNameToken n)"
proof -
  have "isoInterfaceChar c" if "c \<in> set ''yi-''" for c using that by (auto simp: isoInterfaceChar_def)
  moreover have "length (isoNameToken n) = 10" by (simp add: isoNameToken_def length_EncodeToString length_Sum256)
  ultimately show ?thesis
    using encoded_chars [of "take 5 (Sum256 (string_bytes n))"] by (simp add: isoInterfaceNameRE_def isoNameToken_def)
qed

lemma runtime_endpoint_sel [simp]:
  "ep_Interface (runtime_endpoint a) = iso_Interface a" "ep_Link (runtime_endpoint a) = iso_Link a"
  "ep_PeerIP (runtime_endpoint a) = iso_PeerIP a" "ep_Project (runtime_endpoint a) = iso_Project a"
  by (simp_all add: runtime_endpoint_def)

lemma runtime_endpoint_ok:
  assumes "layout_at l b" "runtime_alloc_ok l n a"
  shows "endpoint_ok l (runtime_endpoint a)"
proof -
  obtain i where i: "iso_Link a = v4_prefix (b + of_nat (4 * i)) 30" using runtime_link [OF assms] by blast
  have k: "Masked (iso_Link a) = iso_Link a" "p_contains (Links l) (p_addr (iso_Link a))"
    "iso_PeerIP a = Next (Next (p_addr (iso_Link a)))" "iso_Interface a = ''yi-'' @ isoNameToken n"
    using assms(2) by (simp_all add: runtime_alloc_ok_def)
  have "validateISOEndpointProject l (runtime_endpoint a) = Inr ()"
  proof (cases "is_router a")
    case True
    then have r: "router_ok l a" using assms(2) by (simp add: runtime_alloc_ok_def)
    obtain j where "iso_Project a = v4_prefix (b + of_nat (32768 + 32 * j)) 27" using runtime_project [OF assms(1) r] by blast
    then have "Is4 (p_addr (iso_Project a))" by simp
    with r show ?thesis by (simp add: validateISOEndpointProject_def Let_def router_ok_def)
  next
    case False
    then show ?thesis
      using assms(2) by (simp add: validateISOEndpointProject_def runtime_alloc_ok_def no_router_state_def)
  qed
  moreover have "p_valid (iso_Link a)" "Is4 (p_addr (iso_Link a))" "Bits (iso_Link a) = 30" using i by simp_all
  ultimately show ?thesis
    using k generated_interface [of n] by (simp add: endpoint_ok_def validateISOEndpointNetwork_def Let_def)
qed

lemma live_allocations_named:
  assumes "\<forall>n \<in> set ns. \<exists>sv. map_of ss n = Some (Some sv)"
  shows "live_allocations ss ns = Inr (filter (\<lambda>(n, a). \<not> cleanup_done a) (named_isos ss ns))"
  using assms
proof (induction ns)
  case (Cons n ns)
  then obtain sv where sv: "map_of ss n = Some (Some sv)" by auto
  then show ?case using Cons by (cases "svc_ISO sv") auto
qed simp

lemma distinct_map_keyed:
  "distinct (map fst xs) \<Longrightarrow> (\<And>x y. x \<in> set xs \<Longrightarrow> y \<in> set xs \<Longrightarrow> fst x \<noteq> fst y \<Longrightarrow> f x \<noteq> f y) \<Longrightarrow> distinct (map f xs)"
  unfolding distinct_map inj_on_def by blast

definition runtime_spec :: "prefix \<Rightarrow> ISOAllocation list \<Rightarrow> ISOPolicySpec" where
  "runtime_spec pool as = \<lparr>ps_Pool = pool, ps_DNSPort = isoDNSPort, ps_Endpoints = map runtime_endpoint as\<rparr>"

lemma runtime_endpoints_distinct:
  assumes l: "layout_at l b" and d: "distinct (map fst xs)"
    and ok: "\<And>n a. (n, a) \<in> set xs \<Longrightarrow> runtime_alloc_ok l n a"
    and pair: "\<And>n a k c. (n, a) \<in> set xs \<Longrightarrow> (k, c) \<in> set xs \<Longrightarrow> n \<noteq> k \<Longrightarrow>
      iso_Link a \<noteq> iso_Link c \<and> isoNameToken n \<noteq> isoNameToken k \<and> (is_router a \<longrightarrow> is_router c \<longrightarrow> iso_Project a \<noteq> iso_Project c)"
  shows "endpoints_distinct (map (\<lambda>x. runtime_endpoint (snd x)) xs)"
proof -
  let ?e = "\<lambda>x. runtime_endpoint (snd x)"
  have i: "distinct (map (ep_Interface \<circ> ?e) xs)"
    by (rule distinct_map_keyed [OF d]) (use ok pair in \<open>auto simp: runtime_alloc_ok_def\<close>)
  have k: "distinct (map (ep_Link \<circ> ?e) xs)"
    by (rule distinct_map_keyed [OF d]) (use pair in auto)
  have peer: "iso_PeerIP a \<noteq> iso_PeerIP c" if h: "(n, a) \<in> set xs" "(m, c) \<in> set xs" "n \<noteq> m" for n a m c
  proof -
    obtain x where x: "iso_Link a = v4_prefix x 30" "iso_PeerIP a = V4 (x + 2)"
      using link_in_pool [OF runtime_endpoint_ok [OF l ok [OF h(1)]] l] by auto
    obtain y where y: "iso_Link c = v4_prefix y 30" "iso_PeerIP c = V4 (y + 2)"
      using link_in_pool [OF runtime_endpoint_ok [OF l ok [OF h(2)]] l] by auto
    show ?thesis using pair [OF h] x y by simp
  qed
  have q: "distinct (map (ep_PeerIP \<circ> ?e) xs)"
    by (rule distinct_map_keyed [OF d]) (use peer in auto)
  have r: "is_router a" if "(n, a) \<in> set xs" "p_valid (iso_Project a)" for n a
    using ok [OF that(1)] that(2) by (auto simp: runtime_alloc_ok_def no_router_state_def split: if_splits)
  have "distinct (map fst (filter (\<lambda>(n, a). p_valid (iso_Project a)) xs))" using d by (rule distinct_map_filter)
  then have "distinct (map (ep_Project \<circ> ?e) (filter (\<lambda>(n, a). p_valid (iso_Project a)) xs))"
    by (rule distinct_map_keyed) (use pair r in auto)
  moreover have "map (ep_Project \<circ> ?e) (filter (\<lambda>(n, a). p_valid (iso_Project a)) xs) = filter p_valid (map (ep_Project \<circ> ?e) xs)"
    by (induction xs) auto
  ultimately show ?thesis using i k q by (simp add: endpoints_distinct_def comp_def)
qed

lemma runtime_policy:
  assumes d: "distinct (map fst (Services d))" and v: "validateISORuntimeState d = Inr ()"
    and pool: "data_ISOPool d = Some pool" "Masked (pool_Prefix pool) = pool_Prefix pool"
    and backend: "backend \<in> {BackendNFT, BackendIPTablesNFT, BackendIPTablesLegacy}"
  obtains as rules where "global_policy (Inr backend) d = Inr (Some rules)"
    "RenderISOPolicy backend (runtime_spec (pool_Prefix pool) as) = Inr rules"
    "isoRuntimeEndpoints d = Inr (map runtime_endpoint as)"
    "set as = {a. \<exists>n. (n, a) \<in> set (service_isos (Services d)) \<and> \<not> cleanup_done a}"
proof -
  let ?ns = "sort (map fst (Services d))"
  define xs where "xs = filter (\<lambda>(n, a). \<not> cleanup_done a) (named_isos (Services d) ?ns)"
  let ?spec = "runtime_spec (pool_Prefix pool) (map snd xs)"
  obtain l where l: "NewLayout (pool_Prefix pool) = Inr l" and nil: "None \<notin> snd ` set (Services d)"
    and ok: "\<And>n a. (n, a) \<in> set (service_isos (Services d)) \<Longrightarrow> runtime_alloc_ok l n a"
    and pair: "\<And>n a k b. (n, a) \<in> set (service_isos (Services d)) \<Longrightarrow> (k, b) \<in> set (service_isos (Services d)) \<Longrightarrow> n \<noteq> k \<Longrightarrow>
      iso_Link a \<noteq> iso_Link b \<and> isoNameToken n \<noteq> isoNameToken k \<and> (is_router a \<longrightarrow> is_router b \<longrightarrow> iso_Project a \<noteq> iso_Project b)"
    using v pool(1) unfolding validateISORuntimeState_iff [OF d] runtime_ok_def by fastforce
  have mem: "(n, a) \<in> set xs \<longleftrightarrow> (n, a) \<in> set (service_isos (Services d)) \<and> \<not> cleanup_done a" for n a
    using set_named_isos [OF d] by (auto simp: xs_def)
  obtain b where b: "layout_at l b" "pool_Prefix pool = v4_prefix b 16" using NewLayout_pool l pool(2) by metis
  have live: "live_allocations (Services d) (sorted_names d) = Inr xs"
    using live_allocations_named no_nil_views [OF d] nil by (simp add: sorted_names_def xs_def)
  then have eps: "isoRuntimeEndpoints d = Inr (ps_Endpoints ?spec)"
    by (simp add: isoRuntimeEndpoints_def runtime_spec_def comp_def case_prod_beta)
  have "distinct (map fst xs)" using distinct_named_isos [of ?ns "Services d"] d by (simp add: xs_def distinct_map_filter)
  then have "endpoints_distinct (map (\<lambda>x. runtime_endpoint (snd x)) xs)"
    by (rule runtime_endpoints_distinct [OF b(1)]) (use ok pair mem in auto)
  moreover have "\<forall>ep \<in> set (ps_Endpoints ?spec). endpoint_ok l ep"
    using runtime_endpoint_ok [OF b(1) ok] by (auto simp: runtime_spec_def mem)
  ultimately have "validateISOEndpoints (ps_Pool ?spec) (ps_Endpoints ?spec) = Inr ()"
    using l by (simp add: validateISOEndpoints_iff runtime_spec_def comp_def)
  moreover have "validateISOPolicySpec ?spec = Inr ()"
    using pool(2) b(2) by (simp add: validateISOPolicySpec_def runtime_spec_def isoDNSPort_def Let_def)
  ultimately obtain rules where r: "RenderISOPolicy backend ?spec = Inr rules"
    using RenderISOPolicy_total backend by blast
  have "global_policy (Inr backend) d = Inr (Some rules)"
    using pool(1) v eps r by (simp add: global_policy_def runtime_spec_def)
  moreover have "set (map snd xs) = {a. \<exists>n. (n, a) \<in> set (service_isos (Services d)) \<and> \<not> cleanup_done a}"
    by (force simp: mem [symmetric])
  moreover have "isoRuntimeEndpoints d = Inr (map runtime_endpoint (map snd xs))" using eps by (simp add: runtime_spec_def)
  ultimately show ?thesis using r by (intro that)
qed

section \<open>Properties\<close>

text \<open>
  C32: the check at the gate of every network operation is exact. On a database it succeeds
  precisely when a pool with a valid layout is configured, no service is nil, every allocation has the
  current versions, a lower-half link with its own two addresses, the names generated for its
  service, modes its kind allows, and exactly the router state its kind has, and no two allocations
  share a link, a project or a name token; and whatever it accepts satisfies the allocator's invariant.
\<close>

theorem runtime_check_exact:
  assumes "distinct (map fst (Services d))"
  shows "(validateISORuntimeState d = Inr () \<longleftrightarrow> runtime_ok d) \<and> (validateISORuntimeState d = Inr () \<longrightarrow> iso_ok d)"
  using validateISORuntimeState_iff [OF assms] runtime_ok_iso_ok [OF assms] by blast

text \<open>
  C33: from an accepted database with a canonical pool the policy is always rendered, on every
  back end, and it confines every allocation whose cleanup has not been verified: a new flow from its
  interface is stopped when its source is not the allocation's own, goes to the resolver of the host at
  port 5353 when it asks for port 53, and otherwise leaves the host only towards a public
  address; it is never forwarded to an address of another such allocation, and nothing from
  outside is forwarded to it.
\<close>

theorem runtime_policy_isolates:
  assumes "distinct (map fst (Services d))" "validateISORuntimeState d = Inr ()" "data_ISOPool d = Some pool"
    and "Masked (pool_Prefix pool) = pool_Prefix pool" "backend \<in> {BackendNFT, BackendIPTablesNFT, BackendIPTablesLegacy}"
  shows "\<exists>rules spec. global_policy (Inr backend) d = Inr (Some rules) \<and> RenderISOPolicy backend spec = Inr rules \<and>
    isoRuntimeEndpoints d = Inr (ps_Endpoints spec) \<and>
    (let live = {a. \<exists>n. (n, a) \<in> set (service_isos (Services d)) \<and> \<not> cleanup_done a};
         own = (\<lambda>a x. in_prefixes (allowed_sources (runtime_endpoint a)) x);
         path = new_path (policy_hooks backend (sorted_spec spec)) host ifaddr
     in (\<forall>a \<in> live. \<forall>p. pk_iif p = iso_Interface a \<longrightarrow>
           path p = (if \<not> own a (pk_src p) then Stopped
             else if to_ports p [53] then To_host ((first_packet p)\<lparr>pk_dport := 5353, pk_dst := ifaddr (pk_iif p)\<rparr>)
             else if host (pk_dst p) \<or> to_ports p [853] \<or> \<not> IsPublicIPv4 (V4 (pk_dst p)) (pool_Prefix pool) then Stopped
             else Forwarded (first_packet p) True)) \<and>
        (\<forall>a \<in> live. \<forall>b \<in> live. \<forall>p q m. pk_iif p = iso_Interface a \<and> own b (pk_dst p) \<longrightarrow> path p \<noteq> Forwarded q m) \<and>
        (\<forall>b \<in> live. \<forall>p q m. pk_iif p \<notin> iso_Interface ` live \<and> pk_oif p = iso_Interface b \<longrightarrow> path p \<noteq> Forwarded q m))"
proof -
  obtain as rules where r: "global_policy (Inr backend) d = Inr (Some rules)"
    "RenderISOPolicy backend (runtime_spec (pool_Prefix pool) as) = Inr rules"
    "isoRuntimeEndpoints d = Inr (map runtime_endpoint as)"
    and live: "set as = {a. \<exists>n. (n, a) \<in> set (service_isos (Services d)) \<and> \<not> cleanup_done a}"
    by (rule runtime_policy [OF assms])
  let ?spec = "runtime_spec (pool_Prefix pool) as"
  let ?own = "\<lambda>a x. in_prefixes (allowed_sources (runtime_endpoint a)) x"
  let ?path = "new_path (policy_hooks backend (sorted_spec ?spec)) host ifaddr"
  have sel: "ps_Endpoints ?spec = map runtime_endpoint as" "ps_Pool ?spec = pool_Prefix pool" "unat (ps_DNSPort ?spec) = 5353"
    by (simp_all add: runtime_spec_def isoDNSPort_def)
  have h: "policy_hooks backend (sorted_spec ?spec) = iso_hooks (sorted_spec ?spec)" by (rule rendered_hooks [OF r(2)])
  have out: "?path p = (if \<not> ?own a (pk_src p) then Stopped
      else if to_ports p [53] then To_host ((first_packet p)\<lparr>pk_dport := 5353, pk_dst := ifaddr (pk_iif p)\<rparr>)
      else if host (pk_dst p) \<or> to_ports p [853] \<or> \<not> IsPublicIPv4 (V4 (pk_dst p)) (pool_Prefix pool) then Stopped
      else Forwarded (first_packet p) True)" if "a \<in> set as" "pk_iif p = iso_Interface a" for a p
    using outgoing_path [OF r(2), of "runtime_endpoint a" p host ifaddr] that unfolding h sel by simp
  have inner: "\<not> IsPublicIPv4 (V4 x) (pool_Prefix pool)" if "b \<in> set as" "?own b x" for b x
  proof -
    have "p_contains (pool_Prefix pool) (V4 x)" using endpoint_source_in_pool [OF r(2), of "runtime_endpoint b" x] that by (simp add: sel)
    moreover have "p_valid (pool_Prefix pool)"
      using RenderISOPolicy_ok(1) [OF r(2)] by (auto simp: validateISOPolicySpec_def sel Let_def split: if_splits)
    ultimately show ?thesis by (simp add: IsPublicIPv4_def)
  qed
  have "?path p \<noteq> Forwarded q m" if "a \<in> set as" "b \<in> set as" "pk_iif p = iso_Interface a" "?own b (pk_dst p)" for a b p q m
    using out [OF that(1,3)] inner [OF that(2,4)] by simp
  moreover have "?path p \<noteq> Forwarded q m" if "b \<in> set as" "pk_iif p \<notin> iso_Interface ` set as" "pk_oif p = iso_Interface b" for b p q m
  proof -
    have "iso_side (sorted_spec ?spec) i \<longleftrightarrow> i \<in> iso_Interface ` set as" for i
      by (simp add: iso_side_def sorted_spec_sel sel image_image)
    then show ?thesis using that incoming_path [of "sorted_spec ?spec" p] unfolding h by simp
  qed
  ultimately show ?thesis
    unfolding Let_def live [symmetric] using r out sel(1)
    by (intro exI [of _ rules] exI [of _ ?spec] conjI ballI allI impI; (elim conjE)?) (assumption | simp)+
qed

definition one_service :: Data where
  "one_service = example_data\<lparr>Services := [(''a'', Some ((new_Service ''a'')\<lparr>svc_ISO := Some (example_alloc ''a'' 0xAC1E0000)\<rparr>))]\<rparr>"

lemma one_service_sel:
  "data_ISOPool one_service = Some (automatic_pool (MustParsePrefix ''172.30.0.0/16''))"
  "service_isos (Services one_service) = [(''a'', example_alloc ''a'' 0xAC1E0000)]"
  "snd ` set (Services one_service) = {Some ((new_Service ''a'')\<lparr>svc_ISO := Some (example_alloc ''a'' 0xAC1E0000)\<rparr>)}"
  "distinct (map fst (Services one_service))"
  by (simp_all add: one_service_def example_data_def service_isos_def List.map_filter_def)

lemma one_service_ok: "runtime_ok one_service"
proof -
  let ?a = "example_alloc ''a'' 0xAC1E0000"
  obtain l where l: "NewLayout (pool_Prefix (automatic_pool (MustParsePrefix ''172.30.0.0/16''))) = Inr l"
    "p_contains (Links l) (V4 0xAC1E0000)"
  proof -
    have "case NewLayout (pool_Prefix (automatic_pool (MustParsePrefix ''172.30.0.0/16''))) of
        Inl e \<Rightarrow> False | Inr l \<Rightarrow> p_contains (Links l) (V4 0xAC1E0000)" by code_simp
    then show ?thesis using that by (auto split: sum.splits)
  qed
  have m: "Masked (v4_prefix 0xAC1E0000 30) = v4_prefix 0xAC1E0000 30" by code_simp
  have n: "ValidateNetwork \<lparr>Payload = PayloadVM, Modes = [''iso''], Published = False\<rparr> = Inr ()" by code_simp
  have "runtime_alloc_ok l ''a'' ?a"
    using l(2) m n
    by (simp add: runtime_alloc_ok_def example_alloc_def newDBISOAllocation_def Let_def is_router_def no_router_state_def
        iso_comps_def validateISORuntimePayload_def p_valid_def no_prefix_def)
  then show ?thesis unfolding runtime_ok_def one_service_sel using l(1) by simp
qed

lemma one_service_checked: "validateISORuntimeState one_service = Inr ()"
  using validateISORuntimeState_iff [OF one_service_sel(4)] one_service_ok by simp

theorem runtime_check_exact_witness: "validateISORuntimeState one_service = Inr () \<and> iso_ok one_service"
  using runtime_check_exact [OF one_service_sel(4)] one_service_ok by blast

theorem runtime_policy_isolates_witness:
  "\<exists>rules spec. global_policy (Inr BackendNFT) one_service = Inr (Some rules) \<and>
     RenderISOPolicy BackendNFT spec = Inr rules \<and>
     (let path = new_path (policy_hooks BackendNFT (sorted_spec spec)) (\<lambda>_. False) (\<lambda>_. 0);
          p = (example_packet 0xAC1E0002 0xAC1E0006 443)\<lparr>pk_iif := iso_Interface (example_alloc ''a'' 0xAC1E0000)\<rparr>
      in path p = Stopped \<and> path (p\<lparr>pk_dst := 0x08080808\<rparr>) = Forwarded (p\<lparr>pk_dst := 0x08080808\<rparr>) True)"
proof -
  let ?a = "example_alloc ''a'' 0xAC1E0000" and ?pool = "automatic_pool (MustParsePrefix ''172.30.0.0/16'')"
  let ?p = "(example_packet 0xAC1E0002 0xAC1E0006 443)\<lparr>pk_iif := iso_Interface ?a\<rparr>"
  let ?live = "{a. \<exists>n. (n, a) \<in> set (service_isos (Services one_service)) \<and> \<not> cleanup_done a}"
  have m: "Masked (pool_Prefix ?pool) = pool_Prefix ?pool" by code_simp
  have "?a \<in> ?live"
    unfolding one_service_sel by (simp add: cleanup_done_def example_alloc_def newDBISOAllocation_def Let_def)
  moreover have "allowed_sources (runtime_endpoint ?a) = [PrefixFrom (V4 0xAC1E0002) 32]"
    by (simp add: allowed_sources_def example_alloc_def newDBISOAllocation_def Let_def p_valid_def no_prefix_def)
  moreover have "in_prefixes [PrefixFrom (V4 0xAC1E0002) 32] 0xAC1E0002"
    "\<not> IsPublicIPv4 (V4 0xAC1E0006) (pool_Prefix ?pool)" "IsPublicIPv4 (V4 0x08080808) (pool_Prefix ?pool)"
    by code_simp+
  moreover have "pk_src ?p = 0xAC1E0002" "pk_dst ?p = 0xAC1E0006" "\<not> to_ports ?p [53]"
    "\<not> to_ports (?p\<lparr>pk_dst := 0x08080808\<rparr>) [53]" "\<not> to_ports (?p\<lparr>pk_dst := 0x08080808\<rparr>) [853]"
    "first_packet (?p\<lparr>pk_dst := 0x08080808\<rparr>) = ?p\<lparr>pk_dst := 0x08080808\<rparr>"
    "pk_src (?p\<lparr>pk_dst := 0x08080808\<rparr>) = 0xAC1E0002" "pk_iif ?p = iso_Interface ?a" "pk_iif (?p\<lparr>pk_dst := 0x08080808\<rparr>) = iso_Interface ?a"
    by (simp_all add: example_packet_def to_ports_def first_packet_def)
  moreover obtain rules spec where r: "global_policy (Inr BackendNFT) one_service = Inr (Some rules)"
    "RenderISOPolicy BackendNFT spec = Inr rules"
    and path: "\<And>a p. a \<in> ?live \<Longrightarrow> pk_iif p = iso_Interface a \<Longrightarrow>
       new_path (policy_hooks BackendNFT (sorted_spec spec)) (\<lambda>_. False) (\<lambda>_. 0) p =
         (if \<not> in_prefixes (allowed_sources (runtime_endpoint a)) (pk_src p) then Stopped
          else if to_ports p [53] then To_host ((first_packet p)\<lparr>pk_dport := 5353, pk_dst := 0\<rparr>)
          else if False \<or> to_ports p [853] \<or> \<not> IsPublicIPv4 (V4 (pk_dst p)) (pool_Prefix ?pool) then Stopped
          else Forwarded (first_packet p) True)"
    using runtime_policy_isolates [OF one_service_sel(4) one_service_checked one_service_sel(1) m insertI1,
        of "\<lambda>_. False" "\<lambda>_. 0", unfolded Let_def]
    by (elim exE conjE) (rule that; (assumption | (drule (1) bspec, drule spec, drule (1) mp, assumption)))
  ultimately show ?thesis
    unfolding Let_def using path [of ?a ?p] path [of ?a "?p\<lparr>pk_dst := 0x08080808\<rparr>"]
    by (intro exI [of _ rules] exI [of _ spec]) simp
qed

end
