(* ===== verification/Iso_Lifecycle.thy ===== *)
theory Iso_Lifecycle
  imports Iso_Runtime
begin

text \<open>
  The life of an isolated allocation, second part of \<^verbatim>\<open>src/pkg/catch/iso_runtime.go\<close>: the states recorded in
  the database (ready, stopped, quarantined, removing, tombstoned), the removal of a service, the
  retirement of components, the move to another kind of network, and the start and cleanup gates.

  The state of the server is the store of theory \<open>Db_Store\<close> together with the rest of the host, \<open>ho_ext\<close>,
  of any type. What the code asks of systemd, docker, the kernel and the firewall are functions on
  that state; a sequence of steps is a list of named functions that stops at the first error, as the
  loops over the steps do. Contexts are not modelled where the code detaches them from the caller's
  cancellation. \<open>txt\<close> is the text of an error, which is stored for display.
\<close>

section \<open>The server's state\<close>

record 'k host =
  ho_store :: "cache \<times> world"
  ho_ext :: 'k

datatype rt_err =
    DbErr "alloc_err db_err"
  | ExtErr string
  | StateErr runtime_err
  | RenderErr iso_fw_err
  | PolicyErr policy_err
  | StepErr string rt_err
  | NoISO string
  | NilRecord string
  | ServiceNotFound
  | RemoveUnsupported string
  | DNetOwns string string addr
  | UnitRemains string string
  | NilArtifact
  | VMCleanupRefused
  | UnnormalizedModes string
  | ModesMismatch
  | DesiredMismatch
  | ReplacementISO
  | ModeStateMismatch string
  | ForeignArtifact string
  | IsoModesErr iso_err
  | Canceled
  | JoinErr "rt_err list"

type_synonym 'k step = "string \<Rightarrow> 'k host \<Rightarrow> rt_err option \<times> 'k host"

definition on_store :: "(cache \<Rightarrow> world \<Rightarrow> 'r \<times> cache \<times> world) \<Rightarrow> 'k host \<Rightarrow> 'r \<times> 'k host" where
  "on_store f s = (case f (fst (ho_store s)) (snd (ho_store s)) of (r, sd, w) \<Rightarrow> (r, s\<lparr>ho_store := (sd, w)\<rparr>))"

definition on_ext :: "('k \<Rightarrow> string option \<times> 'k) \<Rightarrow> 'k host \<Rightarrow> rt_err option \<times> 'k host" where
  "on_ext f s = (case f (ho_ext s) of (e, x) \<Rightarrow> (map_option ExtErr e, s\<lparr>ho_ext := x\<rparr>))"

definition db_get :: "path \<Rightarrow> 'k host \<Rightarrow> (alloc_err db_err + Data) \<times> 'k host" where
  "db_get dir = on_store (getLocked dir)"

definition mutate_data :: "path \<Rightarrow> (Data \<Rightarrow> alloc_err + Data) \<Rightarrow> 'k host \<Rightarrow> rt_err option \<times> 'k host" where
  "mutate_data dir f s = (case on_store (MutateData dir f) s of ((_, e), s1) \<Rightarrow> (map_option DbErr e, s1))"

definition mutate_service ::
  "path \<Rightarrow> string \<Rightarrow> (Data \<Rightarrow> Service option \<Rightarrow> alloc_err + Data \<times> Service option) \<Rightarrow> 'k host \<Rightarrow> rt_err option \<times> 'k host" where
  "mutate_service dir name f s = (case on_store (MutateService dir name f) s of ((_, e), s1) \<Rightarrow> (map_option DbErr e, s1))"

fun run_steps :: "(string \<times> 'k step) list \<Rightarrow> string \<Rightarrow> 'k host \<Rightarrow> rt_err option \<times> 'k host" where
  "run_steps [] service s = (None, s)"
| "run_steps ((name, run) # rest) service s =
     (case run service s of
        (Some e, s1) \<Rightarrow> (Some (StepErr name e), s1)
      | (None, s1) \<Rightarrow> run_steps rest service s1)"

definition wrap_err :: "string \<Rightarrow> rt_err option \<times> 'k host \<Rightarrow> rt_err option \<times> 'k host" where
  "wrap_err name r = (map_option (StepErr name) (fst r), snd r)"

text \<open>\<^verbatim>\<open>errors.Join\<close>: the errors that are not nil, nil when there is none.\<close>

definition join_rt :: "rt_err option list \<Rightarrow> rt_err option" where
  "join_rt es = (let xs = List.map_filter id es in if xs = [] then None else Some (JoinErr xs))"

section \<open>States in the database\<close>

definition isoAllocationInData :: "Data \<Rightarrow> string \<Rightarrow> ISOAllocation option" where
  "isoAllocationInData d service =
     (case map_of (Services d) service of Some (Some sv) \<Rightarrow> svc_ISO sv | _ \<Rightarrow> None)"

definition update_allocation :: "(ISOAllocation \<Rightarrow> ISOAllocation) \<Rightarrow> Service \<Rightarrow> Service" where
  "update_allocation f sv = sv\<lparr>svc_ISO := map_option f (svc_ISO sv)\<rparr>"

definition mark_ready :: "string \<Rightarrow> Data \<Rightarrow> alloc_err + Data" where
  "mark_ready service d =
     (case data_ISOPool d of
        None \<Rightarrow> Inl (PoolDisappeared service)
      | Some pool \<Rightarrow>
          (case isoAllocationInData d service of
             None \<Rightarrow> Inl (NoAllocation service)
           | Some a \<Rightarrow>
               if iso_RemoveRequested a \<or> iso_CleanupVerified a then Inl (RemovalInProgress service)
               else if iso_State a = StateRemoving \<or> iso_State a = StateTombstoned \<or> iso_State a = StateQuarantined
               then Inl (NotReadyState service (iso_State a))
               else Inr (d\<lparr>data_ISOPool := Some (pool\<lparr>pool_AggregateRouteState := ''ready'', pool_LastConflict := []\<rparr>),
                           Services := AList.map_entry service
                             (map_option (update_allocation (\<lambda>a. a\<lparr>iso_State := StateReady, iso_LastError := []\<rparr>))) (Services d)\<rparr>)))"

definition markISOReady :: "path \<Rightarrow> string \<Rightarrow> 'k host \<Rightarrow> rt_err option \<times> 'k host" where
  "markISOReady dir service = mutate_data dir (mark_ready service)"

definition mark_stopped :: "Data \<Rightarrow> Service option \<Rightarrow> alloc_err + Data \<times> Service option" where
  "mark_stopped d s =
     (case s of
        None \<Rightarrow> Inl NilService
      | Some sv \<Rightarrow>
          Inr (d, Some (update_allocation
            (\<lambda>a. if iso_RemoveRequested a then a else a\<lparr>iso_State := StateStopped, iso_LastError := []\<rparr>) sv)))"

definition markISOStoppedIfAllocated :: "path \<Rightarrow> string \<Rightarrow> 'k host \<Rightarrow> rt_err option \<times> 'k host" where
  "markISOStoppedIfAllocated dir service = mutate_service dir service mark_stopped"

definition mark_conflict :: "string \<Rightarrow> Data \<Rightarrow> alloc_err + Data" where
  "mark_conflict cause d =
     Inr (d\<lparr>data_ISOPool := map_option (\<lambda>p. p\<lparr>pool_AggregateRouteState := ''conflict'', pool_LastConflict := cause\<rparr>) (data_ISOPool d),
            Services := map (\<lambda>(n, s). (n, map_option (update_allocation
              (\<lambda>a. if cleanup_done a then a else a\<lparr>iso_State := StateQuarantined, iso_LastError := cause\<rparr>)) s)) (Services d)\<rparr>)"

definition markISORuntimeConflict :: "path \<Rightarrow> string \<Rightarrow> 'k host \<Rightarrow> rt_err option \<times> 'k host" where
  "markISORuntimeConflict dir cause = mutate_data dir (mark_conflict cause)"

definition failISORuntime :: "path \<Rightarrow> (rt_err \<Rightarrow> string) \<Rightarrow> rt_err \<Rightarrow> 'k host \<Rightarrow> rt_err option \<times> 'k host" where
  "failISORuntime dir txt e s = (Some e, snd (markISORuntimeConflict dir (txt e) s))"

definition removal_intent :: "string \<Rightarrow> bool \<Rightarrow> Data \<Rightarrow> Service option \<Rightarrow> alloc_err + Data \<times> Service option" where
  "removal_intent name cleanData d s =
     (case s of
        None \<Rightarrow> Inl NilService
      | Some sv \<Rightarrow>
          (case svc_ISO sv of
             None \<Rightarrow> Inl (NoAllocation name)
           | Some a \<Rightarrow>
               (let a1 = (if iso_RemoveRequested a then a
                          else a\<lparr>iso_RemoveRequested := True, iso_CleanupVerified := False,
                                 iso_State := StateRemoving, iso_LastError := []\<rparr>)
                in Inr (d, Some (sv\<lparr>svc_ISO := Some (a1\<lparr>iso_RemoveCleanData := iso_RemoveCleanData a1 \<or> cleanData\<rparr>)\<rparr>)))))"

definition recordISORemovalIntent :: "path \<Rightarrow> string \<Rightarrow> bool \<Rightarrow> 'k host \<Rightarrow> rt_err option \<times> 'k host" where
  "recordISORemovalIntent dir service cleanData = mutate_service dir service (removal_intent service cleanData)"

definition markISORemoveRequested :: "path \<Rightarrow> string \<Rightarrow> 'k host \<Rightarrow> rt_err option \<times> 'k host" where
  "markISORemoveRequested dir service = recordISORemovalIntent dir service False"

definition cleanup_verified :: "string \<Rightarrow> Data \<Rightarrow> Service option \<Rightarrow> alloc_err + Data \<times> Service option" where
  "cleanup_verified name d s =
     (case s of
        None \<Rightarrow> Inl NilService
      | Some sv \<Rightarrow>
          (case svc_ISO sv of
             None \<Rightarrow> Inl (CleanupNotRequested name)
           | Some a \<Rightarrow>
               if \<not> iso_RemoveRequested a then Inl (CleanupNotRequested name)
               else Inr (d, Some (sv\<lparr>svc_ISO := Some (a\<lparr>iso_CleanupVerified := True, iso_State := StateTombstoned,
                 iso_LastError := []\<rparr>)\<rparr>))))"

definition markISOCleanupVerified :: "path \<Rightarrow> string \<Rightarrow> 'k host \<Rightarrow> rt_err option \<times> 'k host" where
  "markISOCleanupVerified dir service = mutate_service dir service (cleanup_verified service)"

definition mark_state_in :: "path \<Rightarrow> string \<Rightarrow> string \<Rightarrow> string \<Rightarrow> 'k host \<Rightarrow> rt_err option \<times> 'k host" where
  "mark_state_in dir service state cause s =
     (case on_store (markISOState dir service state (Some cause)) s of (e, s1) \<Rightarrow> (map_option DbErr e, s1))"

definition retainISOTombstone :: "path \<Rightarrow> (rt_err \<Rightarrow> string) \<Rightarrow> string \<Rightarrow> rt_err \<Rightarrow> 'k host \<Rightarrow> rt_err option \<times> 'k host" where
  "retainISOTombstone dir txt service cause s =
     (Some cause, snd (mark_state_in dir service StateTombstoned (txt cause) s))"

definition removeServiceFromDB :: "path \<Rightarrow> string \<Rightarrow> 'k host \<Rightarrow> rt_err option \<times> 'k host" where
  "removeServiceFromDB dir name = mutate_data dir (\<lambda>d. Inr (d\<lparr>Services := AList.delete name (Services d)\<rparr>))"

section \<open>Removal\<close>

record 'k isoRemoveSteps =
  rs_StopWorkload :: "'k step"
  rs_StopTailscale :: "'k step"
  rs_RemoveDockerEndpoints :: "'k step"
  rs_CleanTopology :: "'k step"
  rs_VerifyTopologyAbsent :: "'k step"
  rs_VerifyDockerAbsent :: "'k step"
  rs_VerifyDNetAbsent :: "'k step"
  rs_RenderGlobalPolicy :: "'k step"
  rs_VerifyGlobalPolicy :: "'k step"
  rs_BeforeDelete :: "'k step"

definition cleanup_steps :: "'k isoRemoveSteps \<Rightarrow> (string \<times> 'k step) list" where
  "cleanup_steps r =
     [(''stop-workload'', rs_StopWorkload r), (''stop-tailscale'', rs_StopTailscale r),
      (''remove-docker-endpoints'', rs_RemoveDockerEndpoints r), (''clean-topology'', rs_CleanTopology r),
      (''verify-topology-absent'', rs_VerifyTopologyAbsent r), (''verify-docker-absent'', rs_VerifyDockerAbsent r),
      (''verify-dnet-absent'', rs_VerifyDNetAbsent r)]"

definition policy_steps :: "'k isoRemoveSteps \<Rightarrow> (string \<times> 'k step) list" where
  "policy_steps r =
     [(''render-global-policy'', rs_RenderGlobalPolicy r), (''verify-global-policy'', rs_VerifyGlobalPolicy r)]"

text \<open>A failed step leaves a tombstone behind.\<close>

definition or_tombstone ::
  "path \<Rightarrow> (rt_err \<Rightarrow> string) \<Rightarrow> string \<Rightarrow> rt_err option \<times> 'k host \<Rightarrow> ('k host \<Rightarrow> rt_err option \<times> 'k host) \<Rightarrow> rt_err option \<times> 'k host" where
  "or_tombstone dir txt service r next_step =
     (case r of (Some e, s) \<Rightarrow> retainISOTombstone dir txt service e s | (None, s) \<Rightarrow> next_step s)"

definition removal_cleanup ::
  "path \<Rightarrow> (rt_err \<Rightarrow> string) \<Rightarrow> 'k isoRemoveSteps \<Rightarrow> string \<Rightarrow> 'k host \<Rightarrow> rt_err option \<times> 'k host" where
  "removal_cleanup dir txt steps service s =
     or_tombstone dir txt service (run_steps (cleanup_steps steps) service s) (\<lambda>s1.
       or_tombstone dir txt service (wrap_err ''record verified ISO cleanup'' (markISOCleanupVerified dir service s1)) (\<lambda>s2.
         (None, s2)))"

definition removal_finish ::
  "path \<Rightarrow> (rt_err \<Rightarrow> string) \<Rightarrow> 'k isoRemoveSteps \<Rightarrow> string \<Rightarrow> 'k host \<Rightarrow> rt_err option \<times> 'k host" where
  "removal_finish dir txt steps service s =
     or_tombstone dir txt service (run_steps (policy_steps steps) service s) (\<lambda>s1.
       or_tombstone dir txt service (wrap_err ''before-delete'' (rs_BeforeDelete steps service s1)) (\<lambda>s2.
         or_tombstone dir txt service (wrap_err ''delete verified ISO service'' (removeServiceFromDB dir service s2)) (\<lambda>s3.
           (None, s3))))"

definition removal_body ::
  "path \<Rightarrow> (rt_err \<Rightarrow> string) \<Rightarrow> 'k isoRemoveSteps \<Rightarrow> string \<Rightarrow> ISOAllocation \<Rightarrow> 'k host \<Rightarrow> rt_err option \<times> 'k host" where
  "removal_body dir txt steps service a s1 =
     (case (if iso_RemoveRequested a then (None, s1)
            else wrap_err ''record ISO removal intent'' (markISORemoveRequested dir service s1)) of
        (Some e, s2) \<Rightarrow> (Some e, s2)
      | (None, s2) \<Rightarrow>
          (case (if cleanup_done a then (None, s2) else removal_cleanup dir txt steps service s2) of
             (Some e, s3) \<Rightarrow> (Some e, s3)
           | (None, s3) \<Rightarrow> removal_finish dir txt steps service s3))"

definition removeISOServiceLockedWith ::
  "path \<Rightarrow> (rt_err \<Rightarrow> string) \<Rightarrow> 'k isoRemoveSteps \<Rightarrow> string \<Rightarrow> 'k host \<Rightarrow> rt_err option \<times> 'k host" where
  "removeISOServiceLockedWith dir txt steps service s =
     (case db_get dir s of
        (Inl e, s1) \<Rightarrow> (Some (StepErr ''load ISO removal state'' (DbErr e)), s1)
      | (Inr d, s1) \<Rightarrow>
          (case map_of (Services d) service of
             None \<Rightarrow> (Some (NoISO service), s1)
           | Some None \<Rightarrow> (Some (NilRecord service), s1)
           | Some (Some sv) \<Rightarrow>
               (case svc_ISO sv of
                  None \<Rightarrow> (Some (NoISO service), s1)
                | Some a \<Rightarrow> removal_body dir txt steps service a s1)))"

definition withISOOperationLock ::
  "('k \<Rightarrow> string option \<times> 'k) \<Rightarrow> ('k \<Rightarrow> 'k) \<Rightarrow> ('k host \<Rightarrow> rt_err option \<times> 'k host) \<Rightarrow> 'k host \<Rightarrow> rt_err option \<times> 'k host" where
  "withISOOperationLock acquire unlock operation s =
     (case on_ext acquire s of
        (Some e, s1) \<Rightarrow> (Some e, s1)
      | (None, s1) \<Rightarrow> (case operation s1 of (r, s2) \<Rightarrow> (r, s2\<lparr>ho_ext := unlock (ho_ext s2)\<rparr>)))"

definition removeISOServiceWithOptions ::
  "('k \<Rightarrow> string option \<times> 'k) \<Rightarrow> ('k \<Rightarrow> 'k) \<Rightarrow> path \<Rightarrow> (rt_err \<Rightarrow> string) \<Rightarrow> 'k isoRemoveSteps \<Rightarrow> bool \<Rightarrow> string \<Rightarrow>
   'k host \<Rightarrow> rt_err option \<times> 'k host" where
  "removeISOServiceWithOptions acquire unlock dir txt steps cleanData service =
     withISOOperationLock acquire unlock (\<lambda>s.
       case wrap_err ''record ISO removal intent'' (recordISORemovalIntent dir service cleanData s) of
         (Some e, s1) \<Rightarrow> (Some e, s1)
       | (None, s1) \<Rightarrow> removeISOServiceLockedWith dir txt steps service s1)"

section \<open>The steps of a removal on the host\<close>

text \<open>What the steps ask of the host; each is given the host's state and may fail with a message.\<close>

record 'k iso_env =
  en_systemctl :: "string list \<Rightarrow> 'k \<Rightarrow> (string \<times> string option) \<times> 'k"
  en_StopProjectContainers :: "string \<Rightarrow> 'k \<Rightarrow> string option \<times> 'k"
  en_VerifyProjectAbsent :: "string \<Rightarrow> 'k \<Rightarrow> string option \<times> 'k"
  en_VerifyDefaultNetworkAbsent :: "string \<Rightarrow> 'k \<Rightarrow> string option \<times> 'k"
  en_cleanupVMNetwork :: "Service \<Rightarrow> 'k \<Rightarrow> string option \<times> 'k"
  en_RemoveISOTopology :: "ISOTopologySpec \<Rightarrow> 'k \<Rightarrow> string option \<times> 'k"
  en_VerifyISOTopologyAbsent :: "ISOTopologySpec \<Rightarrow> 'k \<Rightarrow> string option \<times> 'k"
  en_EnsureISOTopology :: "ISOTopologySpec \<Rightarrow> 'k \<Rightarrow> string option \<times> 'k"
  en_VerifyISOTopology :: "ISOTopologySpec \<Rightarrow> 'k \<Rightarrow> string option \<times> 'k"
  en_EnsureISOPolicy :: "ISOPolicyRules \<Rightarrow> 'k \<Rightarrow> string option \<times> 'k"
  en_VerifyISOPolicy :: "ISOPolicyRules \<Rightarrow> 'k \<Rightarrow> string option \<times> 'k"
  en_uninstallNative :: "string \<Rightarrow> 'k \<Rightarrow> string option \<times> 'k"
  en_removeVMUnit :: "string \<Rightarrow> 'k \<Rightarrow> string option \<times> 'k"
  en_cleanVMJail :: "Service \<Rightarrow> string \<Rightarrow> 'k \<Rightarrow> string option \<times> 'k"
  en_destroyZFS :: "string \<Rightarrow> 'k \<Rightarrow> string option \<times> 'k"
  en_composeService :: "string \<Rightarrow> 'k \<Rightarrow> string option"
  en_backend :: "'k \<Rightarrow> string + FirewallBackend"

definition ArtifactTSService :: string where "ArtifactTSService = ''tailscale.service''"

definition ArtifactNetNSService :: string where "ArtifactNetNSService = ''netns.service''"

definition ArtifactSystemdTimerFile :: string where "ArtifactSystemdTimerFile = ''systemd.timer''"

definition has_artifact :: "Service \<Rightarrow> string \<Rightarrow> rt_err + bool" where
  "has_artifact sv name =
     (case ArtifactStore_Gen (svc_Artifacts sv) name (svc_Generation sv) of Inl _ \<Rightarrow> Inl NilArtifact | Inr r \<Rightarrow> Inr (r \<noteq> None))"

definition isoAuxiliaryUnits :: "Service \<Rightarrow> rt_err + string list" where
  "isoAuxiliaryUnits sv =
     (case has_artifact sv ArtifactTSService of
        Inl e \<Rightarrow> Inl e
      | Inr ts \<Rightarrow>
          (case has_artifact sv ArtifactNetNSService of
             Inl e \<Rightarrow> Inl e
           | Inr ns \<Rightarrow>
               Inr ((if ts then [''yeet-'' @ svc_Name sv @ ''-ts.service''] else []) @
                    (if ns then [''yeet-'' @ svc_Name sv @ ''-ns.service''] else []))))"

text \<open>The units to stop and to start for a service, for a record that is not nil.\<close>

definition serviceIdentityRuntimeUnits :: "Service \<Rightarrow> string \<Rightarrow> rt_err + string list \<times> string list" where
  "serviceIdentityRuntimeUnits sv fallback =
     (let name = (if svc_Name sv \<noteq> [] then svc_Name sv else fallback) in
      case has_artifact sv ArtifactSystemdTimerFile of
        Inl e \<Rightarrow> Inl e
      | Inr timer \<Rightarrow>
          (case has_artifact sv ArtifactTSService of
             Inl e \<Rightarrow> Inl e
           | Inr ts \<Rightarrow>
               (case has_artifact sv ArtifactNetNSService of
                  Inl e \<Rightarrow> Inl e
                | Inr ns \<Rightarrow>
                    (let primary = (if timer then name @ ''.timer'' else name @ ''.service'');
                         tsu = (if ts then [''yeet-'' @ name @ ''-ts.service''] else []);
                         nsu = (if ns then [''yeet-'' @ name @ ''-ns.service''] else [])
                     in Inr (primary # (if timer then [name @ ''.service''] else []) @ tsu @ nsu, nsu @ tsu @ [primary])))))"

fun verifyISOUnitsStopped :: "'k iso_env \<Rightarrow> string list \<Rightarrow> 'k host \<Rightarrow> rt_err option \<times> 'k host" where
  "verifyISOUnitsStopped env [] s = (None, s)"
| "verifyISOUnitsStopped env (unit # units) s =
     (case en_systemctl env [''show'', ''--property=ActiveState'', ''--value'', unit] (ho_ext s) of
        ((output, Some e), x) \<Rightarrow> (Some (ExtErr e), s\<lparr>ho_ext := x\<rparr>)
      | ((output, None), x) \<Rightarrow>
          (if TrimSpace output \<noteq> ''inactive'' \<and> TrimSpace output \<noteq> ''failed''
           then (Some (UnitRemains unit (TrimSpace output)), s\<lparr>ho_ext := x\<rparr>)
           else verifyISOUnitsStopped env units (s\<lparr>ho_ext := x\<rparr>)))"

definition stopAndVerifyISOUnits :: "'k iso_env \<Rightarrow> string list \<Rightarrow> 'k host \<Rightarrow> rt_err option \<times> 'k host" where
  "stopAndVerifyISOUnits env units s =
     (if units = [] then (None, s)
      else (case en_systemctl env (''stop'' # units) (ho_ext s) of
              ((output, Some e), x) \<Rightarrow> (Some (ExtErr e), s\<lparr>ho_ext := x\<rparr>)
            | ((output, None), x) \<Rightarrow> verifyISOUnitsStopped env units (s\<lparr>ho_ext := x\<rparr>)))"

definition stopAndVerifyISOAuxiliaryUnits :: "'k iso_env \<Rightarrow> Service \<Rightarrow> 'k host \<Rightarrow> rt_err option \<times> 'k host" where
  "stopAndVerifyISOAuxiliaryUnits env sv s =
     (case isoAuxiliaryUnits sv of Inl e \<Rightarrow> (Some e, s) | Inr units \<Rightarrow> stopAndVerifyISOUnits env units s)"

definition stopAndVerifyISONativeUnits :: "'k iso_env \<Rightarrow> Service \<Rightarrow> 'k host \<Rightarrow> rt_err option \<times> 'k host" where
  "stopAndVerifyISONativeUnits env sv s =
     (case serviceIdentityRuntimeUnits sv (svc_Name sv) of
        Inl e \<Rightarrow> (Some e, s)
      | Inr (units, _) \<Rightarrow> stopAndVerifyISOUnits env units s)"

definition vmSystemdUnitName :: "string \<Rightarrow> string" where
  "vmSystemdUnitName name = ''yeet-vm-'' @ name @ ''.service''"

definition runISOReconcileVMSystemctl :: "'k iso_env \<Rightarrow> string \<Rightarrow> string \<Rightarrow> 'k host \<Rightarrow> rt_err option \<times> 'k host" where
  "runISOReconcileVMSystemctl env action service =
     on_ext (\<lambda>x. case en_systemctl env [action, vmSystemdUnitName service] x of ((_, e), x1) \<Rightarrow> (e, x1))"

definition dnetAddressOwner :: "DockerNetwork option \<Rightarrow> addr list \<Rightarrow> (string \<times> addr) option" where
  "dnetAddressOwner network addresses =
     (case network of
        None \<Rightarrow> None
      | Some n \<Rightarrow>
          (case List.find (\<lambda>(eid, ep). case ep of None \<Rightarrow> False | Some e \<Rightarrow> p_addr (de_IPv4 e) \<in> set addresses) (dn_Endpoints n) of
             Some (eid, Some e) \<Rightarrow> Some (eid, p_addr (de_IPv4 e))
           | _ \<Rightarrow> None))"

fun verifyDNetAddressesAbsent :: "(string \<times> DockerNetwork option) list \<Rightarrow> addr list \<Rightarrow> rt_err option" where
  "verifyDNetAddressesAbsent [] addresses = None"
| "verifyDNetAddressesAbsent ((nid, n) # ns) addresses =
     (case dnetAddressOwner n addresses of
        Some (eid, a) \<Rightarrow> Some (DNetOwns nid eid a)
      | None \<Rightarrow> verifyDNetAddressesAbsent ns addresses)"

definition verifyISOAllocationDNetAbsent :: "path \<Rightarrow> ISOAllocation \<Rightarrow> 'k host \<Rightarrow> rt_err option \<times> 'k host" where
  "verifyISOAllocationDNetAbsent dir a s =
     (case db_get dir s of
        (Inl e, s1) \<Rightarrow> (Some (DbErr e), s1)
      | (Inr d, s1) \<Rightarrow> (verifyDNetAddressesAbsent (DockerNetworks d) (map (\<lambda>(n, c). comp_Address c) (iso_comps a)), s1))"

definition currentGlobalISOPolicy ::
  "path \<Rightarrow> 'k iso_env \<Rightarrow> 'k host \<Rightarrow> (rt_err + ISOPolicyRules option) \<times> 'k host" where
  "currentGlobalISOPolicy dir env s =
     (case db_get dir s of
        (Inl e, s1) \<Rightarrow> (Inl (DbErr e), s1)
      | (Inr d, s1) \<Rightarrow> (map_sum PolicyErr id (global_policy (en_backend env (ho_ext s1)) d), s1))"

definition with_global_policy ::
  "path \<Rightarrow> 'k iso_env \<Rightarrow> (ISOPolicyRules \<Rightarrow> 'k \<Rightarrow> string option \<times> 'k) \<Rightarrow> 'k host \<Rightarrow> rt_err option \<times> 'k host" where
  "with_global_policy dir env act s =
     (case currentGlobalISOPolicy dir env s of
        (Inl e, s1) \<Rightarrow> (Some e, s1)
      | (Inr None, s1) \<Rightarrow> (None, s1)
      | (Inr (Some rules), s1) \<Rightarrow> on_ext (act rules) s1)"

definition serviceRecordHasISOKind :: "Service \<Rightarrow> string \<Rightarrow> bool" where
  "serviceRecordHasISOKind sv kind = (case svc_ISO sv of None \<Rightarrow> False | Some a \<Rightarrow> iso_Kind a = kind)"

definition classifyISORemoveRecord :: "Service \<Rightarrow> rt_err + bool \<times> bool" where
  "classifyISORemoveRecord sv =
     (if svc_ServiceType sv = ServiceTypeVM \<or> serviceRecordHasISOKind sv PayloadVM then Inr (True, False)
      else if svc_ServiceType sv = ServiceTypeDockerCompose then Inr (False, False)
      else if svc_ServiceType sv = ServiceTypeSystemd \<and> serviceRecordHasISOKind sv PayloadNative then Inr (False, True)
      else Inl (RemoveUnsupported (svc_ServiceType sv)))"

record isoConcreteRemoveSteps =
  cr_service :: Service
  cr_alloc :: ISOAllocation
  cr_vm :: bool
  cr_native :: bool
  cr_spec :: isoRuntimeNetworkSpec
  cr_CleanData :: bool
  cr_zfsDataset :: string

definition cleanVMJailBeforeDelete :: "'k iso_env \<Rightarrow> isoConcreteRemoveSteps \<Rightarrow> 'k host \<Rightarrow> rt_err option \<times> 'k host" where
  "cleanVMJailBeforeDelete env r s =
     (case (cr_vm r, svc_VM (cr_service r)) of
        (True, Some vm) \<Rightarrow>
          (let rootFS = TrimSpace (vi_RootFS (vm_Image vm)) in
           if \<not> HasPrefix rootFS ''/'' then (None, s)
           else wrap_err ''clean up VM jail'' (on_ext (en_cleanVMJail env (cr_service r) rootFS) s))
      | _ \<Rightarrow> (None, s))"

definition BeforeDelete :: "'k iso_env \<Rightarrow> isoConcreteRemoveSteps \<Rightarrow> 'k step" where
  "BeforeDelete env r _ s =
     (case cleanVMJailBeforeDelete env r s of
        (Some e, s1) \<Rightarrow> (Some e, s1)
      | (None, s1) \<Rightarrow>
          (case (if cr_vm r then wrap_err ''remove VM systemd unit'' (on_ext (en_removeVMUnit env (svc_Name (cr_service r))) s1)
                 else (None, s1)) of
             (Some e, s2) \<Rightarrow> (Some e, s2)
           | (None, s2) \<Rightarrow>
               (case (if cr_native r
                      then wrap_err ''remove native systemd units'' (on_ext (en_uninstallNative env (svc_Name (cr_service r))) s2)
                      else (None, s2)) of
                  (Some e, s3) \<Rightarrow> (Some e, s3)
                | (None, s3) \<Rightarrow>
                    (if \<not> cr_CleanData r then (None, s3) else on_ext (en_destroyZFS env (cr_zfsDataset r)) s3))))"

definition concreteISORemoveSteps :: "path \<Rightarrow> 'k iso_env \<Rightarrow> isoConcreteRemoveSteps \<Rightarrow> 'k isoRemoveSteps" where
  "concreteISORemoveSteps dir env r =
     (let name = svc_Name (cr_service r); top = ns_Topology (cr_spec r) in
      \<lparr>rs_StopWorkload = (\<lambda>_ s.
         if cr_vm r then runISOReconcileVMSystemctl env ''stop'' name s
         else if cr_native r then stopAndVerifyISONativeUnits env (cr_service r) s
         else on_ext (en_StopProjectContainers env name) s),
       rs_StopTailscale = (\<lambda>_ s.
         if cr_vm r \<or> cr_native r then (None, s) else stopAndVerifyISOAuxiliaryUnits env (cr_service r) s),
       rs_RemoveDockerEndpoints = (\<lambda>_ s.
         if cr_vm r \<or> cr_native r then (None, s) else on_ext (en_StopProjectContainers env name) s),
       rs_CleanTopology = (\<lambda>_ s.
         if cr_vm r then on_ext (en_cleanupVMNetwork env (cr_service r)) s else on_ext (en_RemoveISOTopology env top) s),
       rs_VerifyTopologyAbsent = (\<lambda>_ s. on_ext (en_VerifyISOTopologyAbsent env top) s),
       rs_VerifyDockerAbsent = (\<lambda>_ s.
         if cr_vm r \<or> cr_native r then (None, s)
         else (case on_ext (en_VerifyProjectAbsent env name) s of
                 (e1, s1) \<Rightarrow> (case on_ext (en_VerifyDefaultNetworkAbsent env name) s1 of (e2, s2) \<Rightarrow> (join_rt [e1, e2], s2)))),
       rs_VerifyDNetAbsent = (\<lambda>_ s. if cr_native r then (None, s) else verifyISOAllocationDNetAbsent dir (cr_alloc r) s),
       rs_RenderGlobalPolicy = (\<lambda>_ s. with_global_policy dir env (en_EnsureISOPolicy env) s),
       rs_VerifyGlobalPolicy = (\<lambda>_ s. with_global_policy dir env (en_VerifyISOPolicy env) s),
       rs_BeforeDelete = BeforeDelete env r\<rparr>)"

definition loadISORuntimeSpec :: "path \<Rightarrow> 'k iso_env \<Rightarrow> string \<Rightarrow> 'k host \<Rightarrow> (rt_err + isoRuntimeNetworkSpec) \<times> 'k host" where
  "loadISORuntimeSpec dir env service s =
     (case db_get dir s of
        (Inl e, s1) \<Rightarrow> (Inl (DbErr e), s1)
      | (Inr d, s1) \<Rightarrow> (map_sum StateErr id (isoRuntimeSpec (en_backend env (ho_ext s1)) d service), s1))"

text \<open>The steps are built from the record as it is when the removal is prepared.\<close>

definition newConcreteISORemoveSteps ::
  "path \<Rightarrow> 'k iso_env \<Rightarrow> string \<Rightarrow> bool \<Rightarrow> string \<Rightarrow> 'k host \<Rightarrow> (rt_err + isoConcreteRemoveSteps) \<times> 'k host" where
  "newConcreteISORemoveSteps dir env service cleanData zfs s =
     (case db_get dir s of
        (Inl e, s1) \<Rightarrow> (Inl (DbErr e), s1)
      | (Inr d, s1) \<Rightarrow>
          (case map_of (Services d) service of
             None \<Rightarrow> (Inl ServiceNotFound, s1)
           | Some None \<Rightarrow> (Inl (NilRecord service), s1)
           | Some (Some sv) \<Rightarrow>
               (case classifyISORemoveRecord sv of
                  Inl e \<Rightarrow> (Inl e, s1)
                | Inr (vm, native) \<Rightarrow>
                    (case (if vm \<or> native then None else en_composeService env service (ho_ext s1)) of
                       Some e \<Rightarrow> (Inl (ExtErr e), s1)
                     | None \<Rightarrow>
                         (case loadISORuntimeSpec dir env service s1 of
                            (Inl e, s2) \<Rightarrow> (Inl e, s2)
                          | (Inr spec, s2) \<Rightarrow>
                              (case svc_ISO sv of
                                 None \<Rightarrow> (Inl (NoISO service), s2)
                               | Some a \<Rightarrow>
                                   (Inr \<lparr>cr_service = sv, cr_alloc = a, cr_vm = vm, cr_native = native, cr_spec = spec,
                                         cr_CleanData = cleanData, cr_zfsDataset = zfs\<rparr>, s2)))))))"

section \<open>Operations and the latest data\<close>

text \<open>A cache that holds something holds the latest data: no other process has written the file.\<close>

definition fresh :: "'k host \<Rightarrow> bool" where
  "fresh s \<longleftrightarrow> fst (ho_store s) = None \<or> fst (ho_store s) = store_view (ho_store s)"

definition view :: "'k host \<Rightarrow> Data option" where
  "view s = store_view (ho_store s)"

lemma getLocked_fresh:
  fixes r :: "'e db_err + Data"
  assumes g: "getLocked dir sd w = (r, sd', w')" and f: "sd = None \<or> sd = store_view (sd, w)"
  shows "store_view (sd', w') = store_view (sd, w) \<and> (sd' = None \<or> sd' = store_view (sd', w')) \<and>
    (\<forall>d. r = Inr d \<longrightarrow> store_view (sd, w) = Some d)"
proof (cases sd)
  case None
  let ?f = "\<lambda>w. case loadLatestDataLocked dir w of ((loaded, published, err), w1) \<Rightarrow>
      ((published, err :: 'e db_err option, loaded), w1)"
  obtain p and err :: "'e db_err option" and l w1 where
    lk: "withFileLock dir None ?f w = ((p, err, l), w1)" by (metis prod.collapse)
  have w': "w' = w1" and sd': "sd' = None \<or> sd' = l" and r: "\<forall>d. r = Inr d \<longrightarrow> l = Some d"
    using g None lk by (auto simp: getLocked_def Let_def split: option.splits if_splits)
  have v: "store_view (sd', w') = store_view (sd, w)" by (rule getLocked_view [OF g])
  have "l = None \<or> l = latest_view w"
    using lk
  proof (cases rule: withFileLock_cases)
    case (2 w2 operr w3)
    then have "loadLatestDataLocked dir w2 = ((l, p, operr), w3)" by (auto split: prod.splits)
    from loadLatestDataLocked_spec [OF this] latest_view_frame [OF 2(1)] show ?thesis by metis
  qed simp
  then show ?thesis using v sd' r by (auto simp: store_view_def)
qed (use g f in \<open>auto simp: getLocked_def\<close>)

lemma db_get_view:
  assumes "db_get dir s = (r, s')" "fresh s"
  shows "view s' = view s \<and> fresh s' \<and> (\<forall>d. r = Inr d \<longrightarrow> view s = Some d)"
proof -
  obtain sd w where st: "ho_store s = (sd, w)" by force
  obtain r1 :: "alloc_err db_err + Data" and sd' w' where g: "getLocked dir sd w = (r1, sd', w')" by (metis prod.collapse)
  have "r = r1" "s' = s\<lparr>ho_store := (sd', w')\<rparr>" using assms(1) g st by (auto simp: db_get_def on_store_def)
  moreover have "sd = None \<or> sd = store_view (sd, w)" using assms(2) by (simp add: fresh_def st)
  note getLocked_fresh [OF g this]
  ultimately show ?thesis by (auto simp: view_def fresh_def st)
qed

text \<open>A mutation either fails and changes nothing, or applies its function to the latest data.\<close>

definition outcome_of :: "(Data \<Rightarrow> 'e + Data) \<Rightarrow> 'k host \<Rightarrow> rt_err option \<Rightarrow> 'k host \<Rightarrow> bool" where
  "outcome_of f s e s' \<longleftrightarrow>
     fresh s' \<and> ((e \<noteq> None \<and> view s' = view s) \<or> (\<exists>d d'. view s = Some d \<and> f d = Inr d' \<and> view s' = Some d'))"

definition keeps_version :: "(Data \<Rightarrow> 'e + Data) \<Rightarrow> bool" where
  "keeps_version f \<longleftrightarrow> (\<forall>d d'. f d = Inr d' \<longrightarrow> DataVersion d' = DataVersion d)"

lemma mutateData_view:
  assumes "mutateData dir (plain_mutator f) sd w = ((r, err), sd', w')" "keeps_version f" "sd = None \<or> sd = latest_view w"
  shows "(sd' = None \<or> sd' = latest_view w') \<and>
    (err \<noteq> None \<and> latest_view w' = latest_view w \<or>
     (\<exists>d d'. latest_view w = Some d \<and> f d = Inr d' \<and> latest_view w' = Some d'))"
  using assms(1)
proof (cases rule: mutateData_cases)
  case (refused e)
  then show ?thesis using assms(3) latest_view_unchanged [OF refused(5)] by simp
next
  case (migrated x d)
  then show ?thesis using latest_view_current [of w d] latest_view_holds [of d w'] by simp
next
  case (committed d d1 c)
  then have f: "f d = Inr d1" by (simp add: plain_mutator_Inr)
  then have "current_data d1" using assms(2) latest_view_current [OF committed(2)] by (auto simp: keeps_version_def current_data_def)
  then show ?thesis using committed f latest_view_holds [of d1 w'] by auto
qed

lemma mutate_data_outcome:
  assumes "mutate_data dir f s = (e, s')" "keeps_version f" "fresh s"
  shows "outcome_of f s e s'"
proof -
  obtain sd w where st: "ho_store s = (sd, w)" by force
  obtain r err sd' w' where m: "mutateData dir (plain_mutator f) sd w = ((r, err), sd', w')" by (metis prod.collapse)
  then have "e = map_option DbErr err" "s' = s\<lparr>ho_store := (sd', w')\<rparr>"
    using assms(1) st by (auto simp: mutate_data_def on_store_def MutateData_def)
  moreover have "sd = None \<or> sd = latest_view w" using assms(3) by (simp add: fresh_def st store_view_def)
  note mutateData_view [OF m assms(2) this]
  ultimately show ?thesis by (auto simp: outcome_of_def view_def fresh_def st store_view_def)
qed

lemma MutateService_data:
  "MutateService dir name f sd w = ((r, err), sd', w') \<Longrightarrow>
   \<exists>r' err'. mutateData dir (plain_mutator (service_mutator name f)) sd w = ((r', err'), sd', w') \<and> (err = None \<longleftrightarrow> err' = None)"
  by (auto simp: MutateService_def MutateData_def split: prod.splits option.splits)

lemma mutate_service_outcome:
  assumes "mutate_service dir name f s = (e, s')" "keeps_version (service_mutator name f)" "fresh s"
  shows "outcome_of (service_mutator name f) s e s'"
proof -
  obtain sd w where st: "ho_store s = (sd, w)" by force
  obtain r err sd' w' where m: "MutateService dir name f sd w = ((r, err), sd', w')" by (metis prod.collapse)
  then have eq: "e = map_option DbErr err" "s' = s\<lparr>ho_store := (sd', w')\<rparr>"
    using assms(1) st by (auto simp: mutate_service_def on_store_def)
  obtain r' err' where m': "mutateData dir (plain_mutator (service_mutator name f)) sd w = ((r', err'), sd', w')"
    "err = None \<longleftrightarrow> err' = None" using MutateService_data [OF m] by blast
  have "sd = None \<or> sd = latest_view w" using assms(3) by (simp add: fresh_def st store_view_def)
  note mutateData_view [OF m'(1) assms(2) this]
  with m'(2) show ?thesis by (auto simp: outcome_of_def view_def fresh_def st eq store_view_def)
qed

section \<open>What a removal keeps\<close>

text \<open>The parts of an allocation that no lifecycle operation touches: its addresses, names and modes.\<close>

definition frozen :: "ISOAllocation \<Rightarrow> ISOAllocation" where
  "frozen a = a\<lparr>iso_State := [], iso_RemoveRequested := False, iso_CleanupVerified := False, iso_RemoveCleanData := False,
                iso_LastError := []\<rparr>"

text \<open>
  The data still holds the allocation \<open>a0\<close> of service \<open>n\<close>, everything else is as in \<open>d0\<close>, and the cleanup
  is recorded as verified only if \<open>ok\<close>.
\<close>

definition held :: "string \<Rightarrow> ISOAllocation \<Rightarrow> Data \<Rightarrow> bool \<Rightarrow> Data \<Rightarrow> bool" where
  "held n a0 d0 ok d \<longleftrightarrow>
     d\<lparr>Services := []\<rparr> = d0\<lparr>Services := []\<rparr> \<and> (\<forall>m. m \<noteq> n \<longrightarrow> map_of (Services d) m = map_of (Services d0) m) \<and>
     (\<exists>a. isoAllocationInData d n = Some a \<and> frozen a = frozen a0 \<and> (cleanup_done a \<longrightarrow> ok))"

definition holding :: "string \<Rightarrow> ISOAllocation \<Rightarrow> Data \<Rightarrow> bool \<Rightarrow> 'k host \<Rightarrow> bool" where
  "holding n a0 d0 ok s \<longleftrightarrow> fresh s \<and> (\<exists>d. view s = Some d \<and> held n a0 d0 ok d)"

lemma holding_mono: "holding n a0 d0 ok s \<Longrightarrow> (ok \<Longrightarrow> ok') \<Longrightarrow> holding n a0 d0 ok' s"
  unfolding holding_def held_def by blast

text \<open>A service mutation that changes the lifecycle fields of an existing allocation.\<close>

definition lifecycle_change ::
  "(ISOAllocation \<Rightarrow> ISOAllocation \<Rightarrow> bool) \<Rightarrow> (Data \<Rightarrow> Service option \<Rightarrow> 'e + Data \<times> Service option) \<Rightarrow> bool" where
  "lifecycle_change P f \<longleftrightarrow>
     (\<forall>d s d' s'. f d s = Inr (d', s') \<longrightarrow> d' = d \<and>
        (\<exists>sv a a'. s = Some sv \<and> svc_ISO sv = Some a \<and> s' = Some (sv\<lparr>svc_ISO := Some a'\<rparr>) \<and> frozen a' = frozen a \<and> P a a'))"

lemma frozen_update [simp]:
  "frozen (a\<lparr>iso_State := st\<rparr>) = frozen a" "frozen (a\<lparr>iso_RemoveRequested := b\<rparr>) = frozen a"
  "frozen (a\<lparr>iso_CleanupVerified := b\<rparr>) = frozen a" "frozen (a\<lparr>iso_RemoveCleanData := b\<rparr>) = frozen a"
  "frozen (a\<lparr>iso_LastError := st\<rparr>) = frozen a"
  by (simp_all add: frozen_def)

lemma lifecycle_changeI:
  assumes "\<And>d d' s'. f d None \<noteq> Inr (d', s')" "\<And>d sv d' s'. svc_ISO sv = None \<Longrightarrow> f d (Some sv) \<noteq> Inr (d', s')"
    and "\<And>d sv a d' s'. svc_ISO sv = Some a \<Longrightarrow> f d (Some sv) = Inr (d', s') \<Longrightarrow>
      d' = d \<and> (\<exists>a'. s' = Some (sv\<lparr>svc_ISO := Some a'\<rparr>) \<and> frozen a' = frozen a \<and> P a a')"
  shows "lifecycle_change P f"
  unfolding lifecycle_change_def
proof (intro allI impI)
  fix d s d' s' assume f: "f d s = Inr (d', s')"
  then obtain sv a where "s = Some sv" "svc_ISO sv = Some a" using assms(1,2) by (metis not_None_eq)
  then show "d' = d \<and> (\<exists>sv a a'. s = Some sv \<and> svc_ISO sv = Some a \<and> s' = Some (sv\<lparr>svc_ISO := Some a'\<rparr>) \<and> frozen a' = frozen a \<and> P a a')"
    using assms(3) [of sv a d d' s'] f by blast
qed

lemma intent_change: "lifecycle_change (\<lambda>a a'. cleanup_done a' \<longrightarrow> cleanup_done a) (removal_intent n c)"
proof (rule lifecycle_changeI, goal_cases)
  case (3 d sv a d' s')
  then show ?case
    by (cases "iso_RemoveRequested a") (auto simp: removal_intent_def cleanup_done_def Let_def)
qed (simp_all add: removal_intent_def)

lemma verified_change: "lifecycle_change (\<lambda>a a'. iso_RemoveRequested a \<and> cleanup_done a') (cleanup_verified n)"
proof (rule lifecycle_changeI, goal_cases)
  case (3 d sv a d' s')
  then show ?case
    by (cases "iso_RemoveRequested a") (auto simp: cleanup_verified_def cleanup_done_def)
qed (simp_all add: cleanup_verified_def)

lemma state_change: "lifecycle_change (\<lambda>a a'. cleanup_done a' = cleanup_done a) (mark_state n st cause)"
proof (rule lifecycle_changeI, goal_cases)
  case (3 d sv a d' s')
  then show ?case by (auto simp: mark_state_def cleanup_done_def)
qed (simp_all add: mark_state_def)

lemma update_same: "map_of xs k = Some v \<Longrightarrow> AList.update k v xs = xs"
  by (induction xs) (auto split: if_splits)

lemma lifecycle_version:
  assumes "lifecycle_change P f"
  shows "keeps_version (service_mutator n f)"
  unfolding keeps_version_def
proof (intro allI impI)
  fix d d' assume "service_mutator n f d = Inr d'"
  then show "DataVersion d' = DataVersion d"
    using assms unfolding lifecycle_change_def by (fastforce simp: service_mutator_def Let_def split: sum.splits prod.splits)
qed

lemma lifecycle_held:
  assumes "lifecycle_change P f" "held n a0 d0 ok d" "service_mutator n f d = Inr d'"
    and "\<And>a a'. P a a' \<Longrightarrow> (cleanup_done a \<longrightarrow> ok) \<Longrightarrow> cleanup_done a' \<Longrightarrow> ok'"
  shows "held n a0 d0 ok' d'"
proof -
  obtain a where a: "isoAllocationInData d n = Some a" "frozen a = frozen a0" "cleanup_done a \<longrightarrow> ok"
    using assms(2) by (auto simp: held_def)
  then obtain sv where sv: "map_of (Services d) n = Some (Some sv)" "svc_ISO sv = Some a"
    by (auto simp: isoAllocationInData_def split: option.splits)
  have "d\<lparr>Services := Services d\<rparr> = d" by simp
  then obtain d1 s1 where f: "f d (Some sv) = Inr (d1, s1)" "d' = d1\<lparr>Services := AList.update n s1 (Services d1)\<rparr>"
    using assms(3) by (auto simp: service_mutator_def sv update_same [OF sv(1)] split: sum.splits)
  then obtain a' where a': "d1 = d" "s1 = Some (sv\<lparr>svc_ISO := Some a'\<rparr>)" "frozen a' = frozen a" "P a a'"
    using assms(1) sv(2) unfolding lifecycle_change_def by (metis option.inject)
  show ?thesis
    using assms(2) a a' assms(4) [OF a'(4) a(3)]
    by (simp add: held_def f(2) isoAllocationInData_def map_of_update)
qed

lemma lifecycle_holding:
  assumes "lifecycle_change P f" "holding n a0 d0 ok s" "mutate_service dir n f s = (e, s')"
    and "\<And>a a'. P a a' \<Longrightarrow> (cleanup_done a \<longrightarrow> ok) \<Longrightarrow> cleanup_done a' \<Longrightarrow> ok'" "ok \<Longrightarrow> ok'"
  shows "holding n a0 d0 ok' s'"
proof -
  obtain d where d: "view s = Some d" "held n a0 d0 ok d" "fresh s" using assms(2) by (auto simp: holding_def)
  have o: "outcome_of (service_mutator n f) s e s'"
    by (rule mutate_service_outcome [OF assms(3) lifecycle_version [OF assms(1)] d(3)])
  then consider "view s' = view s" | d' where "service_mutator n f d = Inr d'" "view s' = Some d'"
    using d(1) by (auto simp: outcome_of_def)
  then show ?thesis
  proof cases
    case 1
    then have "holding n a0 d0 ok s'" using d o by (simp add: holding_def outcome_of_def)
    then show ?thesis by (rule holding_mono) (rule assms(5))
  next
    case (2 d')
    have "held n a0 d0 ok' d'" by (rule lifecycle_held [OF assms(1) d(2) 2(1)]) (rule assms(4))
    then show ?thesis using 2(2) o by (simp add: holding_def outcome_of_def)
  qed
qed

lemma markISOState_service: "mark_state_in dir n st cause s = mutate_service dir n (mark_state n st (Some cause)) s"
  by (simp add: mark_state_in_def mutate_service_def markISOState_def on_store_def split: prod.splits)

lemma retain_holding:
  assumes "holding n a0 d0 ok s"
  shows "holding n a0 d0 ok (snd (retainISOTombstone dir txt n e s))"
proof -
  obtain e' s' where m: "mutate_service dir n (mark_state n StateTombstoned (Some (txt e))) s = (e', s')" by force
  have "holding n a0 d0 ok s'" by (rule lifecycle_holding [OF state_change assms m]) auto
  then show ?thesis by (simp add: retainISOTombstone_def markISOState_service m)
qed

section \<open>The contract of the steps\<close>

text \<open>
  A step may change anything on the host, but the database only through the store's own reads. The
  locale is the interface the removal is verified against; the steps on the host implement it.
\<close>

definition quiet :: "('k host \<Rightarrow> 'r \<times> 'k host) \<Rightarrow> bool" where
  "quiet f \<longleftrightarrow> (\<forall>s. (fresh s \<longrightarrow> fresh (snd (f s))) \<and> view (snd (f s)) = view s)"

definition step_funs :: "'k isoRemoveSteps \<Rightarrow> 'k step set" where
  "step_funs r = set (map snd (cleanup_steps r @ policy_steps r)) \<union> {rs_BeforeDelete r}"

lemma quietD: "quiet f \<Longrightarrow> f s = (r, s') \<Longrightarrow> (fresh s \<longrightarrow> fresh s') \<and> view s' = view s"
  unfolding quiet_def by (metis snd_conv)

lemma quietI: "(\<And>s r s'. f s = (r, s') \<Longrightarrow> (fresh s \<longrightarrow> fresh s') \<and> view s' = view s) \<Longrightarrow> quiet f"
  unfolding quiet_def by (metis prod.collapse)

lemma quiet_seq:
  assumes "quiet f" "quiet g"
  shows "quiet (\<lambda>s. case f s of (Some e, s1) \<Rightarrow> (h e, s1) | (None, s1) \<Rightarrow> g s1)"
proof (rule quietI)
  fix s r s' assume *: "(case f s of (Some e, s1) \<Rightarrow> (h e, s1) | (None, s1) \<Rightarrow> g s1) = (r, s')"
  obtain e s1 where f: "f s = (e, s1)" by force
  show "(fresh s \<longrightarrow> fresh s') \<and> view s' = view s"
    using * quietD [OF assms(1) f] quietD [OF assms(2), of s1 r s'] by (cases e) (auto simp: f)
qed

lemma holding_quiet:
  assumes "holding n a0 d0 ok s" "quiet f" "f s = (r, s')"
  shows "holding n a0 d0 ok s'"
proof -
  have "snd (f s) = s'" by (simp add: assms(3))
  then show ?thesis using assms(1,2) unfolding holding_def quiet_def by metis
qed

text \<open>After the record has been deleted nothing brings it back.\<close>

definition released :: "string \<Rightarrow> Data \<Rightarrow> 'k host \<Rightarrow> bool" where
  "released n d0 s \<longleftrightarrow> fresh s \<and>
     (\<exists>d. view s = Some d \<and> d\<lparr>Services := []\<rparr> = d0\<lparr>Services := []\<rparr> \<and>
        (\<forall>m. m \<noteq> n \<longrightarrow> map_of (Services d) m = map_of (Services d0) m) \<and> map_of (Services d) n = None)"

lemma retain_released:
  assumes "released n d0 s"
  shows "released n d0 (snd (retainISOTombstone dir txt n e s))"
proof -
  obtain e' s' where m: "mutate_service dir n (mark_state n StateTombstoned (Some (txt e))) s = (e', s')" by force
  obtain d where d: "fresh s" "view s = Some d" "map_of (Services d) n = None" using assms by (auto simp: released_def)
  have o: "outcome_of (service_mutator n (mark_state n StateTombstoned (Some (txt e)))) s e' s'"
    by (rule mutate_service_outcome [OF m lifecycle_version [OF state_change] d(1)])
  have "\<exists>x. service_mutator n (mark_state n StateTombstoned (Some (txt e))) d = Inl x"
    by (simp add: service_mutator_def d(3) mark_state_def new_Service_def)
  then have "fresh s'" "view s' = view s" using o d(2) by (auto simp: outcome_of_def)
  then show ?thesis using assms by (simp add: retainISOTombstone_def markISOState_service m released_def)
qed

lemma or_tombstone_cases:
  assumes "or_tombstone dir txt n (r, s) k = (e, s')"
  obtains x where "r = Some x" "e \<noteq> None" "s' = snd (retainISOTombstone dir txt n x s)"
  | "r = None" "k s = (e, s')"
  using assms by (cases r) (auto simp: or_tombstone_def retainISOTombstone_def)

lemma delete_outcome:
  assumes "removeServiceFromDB dir n s = (e, s')" "holding n a0 d0 ok s"
  obtains "e \<noteq> None" "holding n a0 d0 ok s'" | "released n d0 s'"
proof -
  obtain d where d: "fresh s" "view s = Some d" "held n a0 d0 ok d" using assms(2) by (auto simp: holding_def)
  let ?f = "\<lambda>d. Inr (d\<lparr>Services := AList.delete n (Services d)\<rparr>) :: alloc_err + Data"
  have "outcome_of ?f s e s'"
    by (rule mutate_data_outcome [OF _ _ d(1)]) (use assms(1) in \<open>auto simp: removeServiceFromDB_def keeps_version_def\<close>)
  then consider "fresh s'" "e \<noteq> None" "view s' = view s"
    | "fresh s'" "view s' = Some (d\<lparr>Services := AList.delete n (Services d)\<rparr>)"
    using d(2) by (auto simp: outcome_of_def)
  then show ?thesis
  proof cases
    case 1
    then show ?thesis using that(1) d by (simp add: holding_def)
  next
    case 2
    then have "released n d0 s'" using d(3) by (auto simp: released_def held_def delete_conv')
    then show ?thesis by (rule that(2))
  qed
qed

locale removal_steps =
  fixes steps :: "'k isoRemoveSteps"
  assumes quiet_step: "f \<in> step_funs steps \<Longrightarrow> quiet (f n)"
begin

lemma quiet_run: "set (map snd xs) \<subseteq> step_funs steps \<Longrightarrow> quiet (run_steps xs n)"
proof (induction xs)
  case (Cons x xs)
  obtain name f where x: "x = (name, f)" by force
  have f: "quiet (f n)" using Cons.prems quiet_step by (simp add: x)
  have "quiet (run_steps xs n)" using Cons by simp
  with f show ?case unfolding x run_steps.simps by (rule quiet_seq)
qed (simp add: quiet_def)

lemma quiet_cleanup: "quiet (run_steps (cleanup_steps steps) n)"
  by (rule quiet_run) (auto simp: step_funs_def)

lemma quiet_policy: "quiet (run_steps (policy_steps steps) n)"
  by (rule quiet_run) (auto simp: step_funs_def)

lemma quiet_before_delete: "quiet (rs_BeforeDelete steps n)"
  by (rule quiet_step) (simp add: step_funs_def)

lemma cleanup_keeps:
  assumes "removal_cleanup dir txt steps n s = (e, s')" "holding n a0 d0 ok s"
  shows "holding n a0 d0 (ok \<or> fst (run_steps (cleanup_steps steps) n s) = None) s' \<and>
    (e = None \<longrightarrow> fst (run_steps (cleanup_steps steps) n s) = None)"
proof -
  obtain r s1 where r: "run_steps (cleanup_steps steps) n s = (r, s1)" by force
  have h1: "holding n a0 d0 ok s1" by (rule holding_quiet [OF assms(2) quiet_cleanup r])
  obtain r2 s2 where v: "markISOCleanupVerified dir n s1 = (r2, s2)" by force
  have h2: "holding n a0 d0 True s2"
    by (rule lifecycle_holding [OF verified_change h1 v [unfolded markISOCleanupVerified_def]]) auto
  from assms(1) [unfolded removal_cleanup_def r] show ?thesis
  proof (cases rule: or_tombstone_cases)
    case (1 x)
    then show ?thesis using retain_holding [OF h1] r holding_mono by (metis fst_conv option.distinct(1))
  next
    case 2
    then show ?thesis using retain_holding [OF h2] h2 r v
      by (auto simp: or_tombstone_def wrap_err_def retainISOTombstone_def split: option.splits)
  qed
qed

lemma finish_keeps:
  assumes "removal_finish dir txt steps n s = (e, s')" "holding n a0 d0 ok s"
  shows "holding n a0 d0 ok s' \<and> e \<noteq> None \<or> released n d0 s' \<and> fst (run_steps (policy_steps steps) n s) = None"
proof -
  obtain r s1 where r: "run_steps (policy_steps steps) n s = (r, s1)" by force
  obtain rb s2 where b: "rs_BeforeDelete steps n s1 = (rb, s2)" by force
  obtain rd s3 where d: "removeServiceFromDB dir n s2 = (rd, s3)" by force
  have h1: "holding n a0 d0 ok s1" by (rule holding_quiet [OF assms(2) quiet_policy r])
  have h2: "holding n a0 d0 ok s2" by (rule holding_quiet [OF h1 quiet_before_delete b])
  from assms(1) [unfolded removal_finish_def r] show ?thesis
  proof (cases rule: or_tombstone_cases)
    case (1 x)
    then show ?thesis using retain_holding [OF h1] by simp
  next
    case first: 2
    show ?thesis
    proof (cases rb)
      case (Some x)
      then show ?thesis
        using first(2) retain_holding [OF h2] by (auto simp: b wrap_err_def or_tombstone_def retainISOTombstone_def)
    next
      case None
      then have e: "or_tombstone dir txt n (wrap_err ''delete verified ISO service'' (rd, s3)) (\<lambda>s. (None, s)) = (e, s')"
        using first(2) by (cases rd) (simp_all add: b d wrap_err_def or_tombstone_def)
      have p: "fst (run_steps (policy_steps steps) n s) = None" using first(1) r by simp
      have s': "s' = (case rd of None \<Rightarrow> s3 | Some x \<Rightarrow> snd (retainISOTombstone dir txt n (StepErr ''delete verified ISO service'' x) s3))"
        "e = None \<longleftrightarrow> rd = None"
        using e by (cases rd; auto simp: wrap_err_def or_tombstone_def retainISOTombstone_def)+
      from d h2 show ?thesis
        by (rule delete_outcome)
          (use p s' retain_holding [where s = s3] retain_released [where s = s3] in \<open>auto split: option.splits\<close>)
    qed
  qed
qed

lemma body_keeps:
  assumes "removal_body dir txt steps n a s = (e, s')" "holding n a0 d0 (cleanup_done a) s"
  defines "start \<equiv> snd (if iso_RemoveRequested a then (None, s) else markISORemoveRequested dir n s)"
  defines "cleaned \<equiv> cleanup_done a \<or> fst (run_steps (cleanup_steps steps) n start) = None"
  shows "holding n a0 d0 cleaned s' \<and> e \<noteq> None \<or> released n d0 s' \<and> cleaned"
proof -
  obtain r s2 where r: "(if iso_RemoveRequested a then (None, s) else markISORemoveRequested dir n s) = (r, s2)" by force
  then have start: "start = s2" by (simp add: start_def)
  have h2: "holding n a0 d0 (cleanup_done a) s2"
  proof (cases "iso_RemoveRequested a")
    case False
    then have "mutate_service dir n (removal_intent n False) s = (r, s2)"
      using r by (simp add: markISORemoveRequested_def recordISORemovalIntent_def)
    then show ?thesis by (rule lifecycle_holding [OF intent_change assms(2)]) auto
  qed (use assms(2) r in simp)
  show ?thesis
  proof (cases r)
    case (Some x)
    then have "s' = s2" "e \<noteq> None" using assms(1) r by (auto simp: removal_body_def wrap_err_def split: if_splits)
    moreover have "holding n a0 d0 cleaned s2" using h2 by (rule holding_mono) (simp add: cleaned_def)
    ultimately show ?thesis by simp
  next
    case None
    obtain rc s3 where c: "(if cleanup_done a then (None, s2) else removal_cleanup dir txt steps n s2) = (rc, s3)" by force
    have h3: "holding n a0 d0 cleaned s3 \<and> (rc = None \<longrightarrow> cleaned)"
    proof (cases "cleanup_done a")
      case True
      then show ?thesis using h2 c by (simp add: cleaned_def)
    next
      case False
      then have "removal_cleanup dir txt steps n s2 = (rc, s3)" using c by simp
      from cleanup_keeps [OF this h2] show ?thesis using False by (simp add: cleaned_def start)
    qed
    have f: "(case (rc, s3) of (Some e, s3) \<Rightarrow> (Some e, s3) | (None, s3) \<Rightarrow> removal_finish dir txt steps n s3) = (e, s')"
      using assms(1) r None by (simp add: removal_body_def wrap_err_def c split: if_splits)
    show ?thesis
    proof (cases rc)
      case None
      then show ?thesis using finish_keeps [of dir "txt" n s3 e s' a0 d0 cleaned] f h3 by auto
    qed (use f h3 in auto)
  qed
qed

end

text \<open>The steps on the host keep the contract.\<close>

lemma ext_keeps [simp]: "fresh (s\<lparr>ho_ext := x\<rparr>) = fresh s" "view (s\<lparr>ho_ext := x\<rparr>) = view s"
  by (simp_all add: fresh_def view_def)

named_theorems quiet_intros

lemma quiet_return [quiet_intros]: "quiet (\<lambda>s. (r, s))"
  by (simp add: quiet_def)

lemma quiet_ext [quiet_intros]: "quiet (on_ext f)"
  by (auto simp: quiet_def on_ext_def split: prod.splits)

lemma quiet_wrap [quiet_intros]: "quiet f \<Longrightarrow> quiet (\<lambda>s. wrap_err name (f s))"
  by (simp add: quiet_def wrap_err_def)

lemma quiet_if [quiet_intros]: "quiet f \<Longrightarrow> quiet g \<Longrightarrow> quiet (\<lambda>s. if b then f s else g s)"
  by (simp add: quiet_def)

lemma quiet_bind: "quiet f \<Longrightarrow> (\<And>r. quiet (g r)) \<Longrightarrow> quiet (\<lambda>s. case f s of (r, s1) \<Rightarrow> g r s1)"
  by (rule quietI) (fastforce split: prod.splits dest: quietD)

lemma db_get_same_view:
  assumes "db_get dir s = (r, s')"
  shows "view s' = view s"
proof -
  obtain sd w where st: "ho_store s = (sd, w)" by force
  obtain r1 :: "alloc_err db_err + Data" and sd' w' where g: "getLocked dir sd w = (r1, sd', w')" by (metis prod.collapse)
  have "s' = s\<lparr>ho_store := (sd', w')\<rparr>" using assms g st by (auto simp: db_get_def on_store_def)
  then show ?thesis using getLocked_view [OF g] by (simp add: view_def st)
qed

lemma quiet_get: "quiet (db_get dir)"
  unfolding quiet_def using db_get_view db_get_same_view by (metis prod.collapse)

lemma quiet_units: "quiet (verifyISOUnitsStopped env units)"
proof (induction units)
  case (Cons u us)
  then show ?case by (auto simp: quiet_def split: prod.splits option.splits)
qed (simp add: quiet_def)

lemma quiet_stop_units: "quiet (stopAndVerifyISOUnits env units)"
  using quiet_units [of env units] by (auto simp: quiet_def stopAndVerifyISOUnits_def split: prod.splits option.splits)

lemma quiet_stop_auxiliary [quiet_intros]: "quiet (stopAndVerifyISOAuxiliaryUnits env sv)"
  using quiet_stop_units [of env] by (auto simp: quiet_def stopAndVerifyISOAuxiliaryUnits_def split: sum.splits)

lemma quiet_stop_native [quiet_intros]: "quiet (stopAndVerifyISONativeUnits env sv)"
  using quiet_stop_units [of env] by (auto simp: quiet_def stopAndVerifyISONativeUnits_def split: sum.splits prod.splits)

lemma quiet_vm_systemctl [quiet_intros]: "quiet (runISOReconcileVMSystemctl env action service)"
  unfolding runISOReconcileVMSystemctl_def by (rule quiet_ext)

lemma quiet_dnet [quiet_intros]: "quiet (verifyISOAllocationDNetAbsent dir a)"
  by (rule quietI) (auto simp: verifyISOAllocationDNetAbsent_def split: prod.splits sum.splits dest!: quietD [OF quiet_get])

lemma quiet_current_policy: "quiet (currentGlobalISOPolicy dir env)"
  by (rule quietI) (auto simp: currentGlobalISOPolicy_def split: prod.splits sum.splits dest!: quietD [OF quiet_get])

lemma quiet_global_policy [quiet_intros]: "quiet (with_global_policy dir env act)"
  unfolding with_global_policy_def
proof (rule quiet_bind [OF quiet_current_policy])
  fix r :: "rt_err + ISOPolicyRules option"
  show "quiet (\<lambda>s1. case r of Inl e \<Rightarrow> (Some e, s1) | Inr None \<Rightarrow> (None, s1) | Inr (Some rules) \<Rightarrow> on_ext (act rules) s1)"
    using quiet_ext by (auto simp: quiet_def split: sum.splits option.splits)
qed

lemma quiet_docker_absent [quiet_intros]:
  "quiet (\<lambda>s. case on_ext f s of (e1, s1) \<Rightarrow> (case on_ext g s1 of (e2, s2) \<Rightarrow> (join_rt [e1, e2], s2)))"
  by (auto simp: quiet_def on_ext_def split: prod.splits)

lemma quiet_jail: "quiet (cleanVMJailBeforeDelete env r)"
  using quiet_wrap [OF quiet_ext] by (auto simp: quiet_def cleanVMJailBeforeDelete_def Let_def split: option.splits bool.splits)

lemma quiet_BeforeDelete [quiet_intros]: "quiet (BeforeDelete env r n)"
  unfolding BeforeDelete_def by (intro quiet_seq quiet_jail quiet_intros)

interpretation concrete: removal_steps "concreteISORemoveSteps dir env r"
proof
  fix f :: "'a step" and n
  assume "f \<in> step_funs (concreteISORemoveSteps dir env r)"
  then show "quiet (f n)"
    by (auto simp: step_funs_def cleanup_steps_def policy_steps_def concreteISORemoveSteps_def Let_def intro!: quiet_intros)
qed

section \<open>Properties\<close>

text \<open>
  C34: a removal gives nothing back before the cleanup is proven. Whatever fails on the host or in
  the store, a removal changes no other service; as long as the record exists its
  addresses, names and modes are untouched, so that nothing else can be given them; and the record
  is deleted, or the cleanup recorded as verified, which drops the endpoint from the host policy, only if
  that was recorded before or all seven cleanup steps, from stopping the workload to checking
  that no docker endpoint owns its addresses, succeeded in this run. A removal without error has
  deleted the record.
\<close>

theorem removal_safe:
  assumes "fresh s" "view s = Some d" "isoAllocationInData d n = Some a"
    and "removeISOServiceLockedWith dir txt (concreteISORemoveSteps dir env r) n s = (e, s')"
  defines "start \<equiv> snd (if iso_RemoveRequested a then (None, snd (db_get dir s)) else markISORemoveRequested dir n (snd (db_get dir s)))"
  defines "cleaned \<equiv> cleanup_done a \<or> fst (run_steps (cleanup_steps (concreteISORemoveSteps dir env r)) n start) = None"
  shows "\<exists>d'. view s' = Some d' \<and> d'\<lparr>Services := []\<rparr> = d\<lparr>Services := []\<rparr> \<and>
    (\<forall>m. m \<noteq> n \<longrightarrow> map_of (Services d') m = map_of (Services d) m) \<and>
    (case isoAllocationInData d' n of
       None \<Rightarrow> map_of (Services d') n = None \<and> cleaned
     | Some a' \<Rightarrow> frozen a' = frozen a \<and> (cleanup_done a' \<longrightarrow> cleaned)) \<and>
    (e = None \<longrightarrow> map_of (Services d') n = None)"
proof -
  obtain g s1 where g: "db_get dir s = (g, s1)" by force
  note v = db_get_view [OF g assms(1)]
  have h: "holding n a d (cleanup_done a) s1" using v assms(2,3) by (simp add: holding_def held_def)
  have result: "holding n a d cleaned s' \<and> e \<noteq> None \<or> released n d s' \<and> cleaned"
  proof (cases g)
    case (Inl x)
    then have "e \<noteq> None" "s' = s1" using assms(4) g by (auto simp: removeISOServiceLockedWith_def)
    then show ?thesis using holding_mono [OF h] by (simp add: cleaned_def)
  next
    case (Inr d1)
    with v assms(2) have "d1 = d" by simp
    obtain sv where sv: "map_of (Services d) n = Some (Some sv)" "svc_ISO sv = Some a"
      using assms(3) by (auto simp: isoAllocationInData_def split: option.splits)
    have b: "removal_body dir txt (concreteISORemoveSteps dir env r) n a s1 = (e, s')"
      using assms(4) g Inr \<open>d1 = d\<close> sv by (simp add: removeISOServiceLockedWith_def)
    show ?thesis unfolding cleaned_def start_def g snd_conv by (rule concrete.body_keeps [OF b h])
  qed
  show ?thesis
  proof (cases "released n d s'")
    case True
    then obtain d' where d': "view s' = Some d'" "d'\<lparr>Services := []\<rparr> = d\<lparr>Services := []\<rparr>"
      "\<forall>m. m \<noteq> n \<longrightarrow> map_of (Services d') m = map_of (Services d) m" "map_of (Services d') n = None"
      by (auto simp: released_def)
    then have "isoAllocationInData d' n = None" by (simp add: isoAllocationInData_def)
    moreover have cleaned
    proof -
      have "\<not> holding n a d cleaned s'" using d' by (auto simp: holding_def held_def isoAllocationInData_def)
      then show ?thesis using result by blast
    qed
    ultimately show ?thesis using d' by (intro exI [of _ d']) simp
  next
    case False
    then have "holding n a d cleaned s'" "e \<noteq> None" using result by auto
    then show ?thesis by (auto simp: holding_def held_def)
  qed
qed

definition example_env :: "unit iso_env" where
  "example_env =
     \<lparr>en_systemctl = (\<lambda>_ x. ((''inactive'', None), x)), en_StopProjectContainers = (\<lambda>_ x. (None, x)),
      en_VerifyProjectAbsent = (\<lambda>_ x. (None, x)), en_VerifyDefaultNetworkAbsent = (\<lambda>_ x. (None, x)),
      en_cleanupVMNetwork = (\<lambda>_ x. (None, x)), en_RemoveISOTopology = (\<lambda>_ x. (None, x)),
      en_VerifyISOTopologyAbsent = (\<lambda>_ x. (Some ''veth still present'', x)), en_EnsureISOTopology = (\<lambda>_ x. (None, x)),
      en_VerifyISOTopology = (\<lambda>_ x. (None, x)), en_EnsureISOPolicy = (\<lambda>_ x. (None, x)),
      en_VerifyISOPolicy = (\<lambda>_ x. (None, x)), en_uninstallNative = (\<lambda>_ x. (None, x)),
      en_removeVMUnit = (\<lambda>_ x. (None, x)), en_cleanVMJail = (\<lambda>_ _ x. (None, x)), en_destroyZFS = (\<lambda>_ x. (None, x)),
      en_composeService = (\<lambda>_ _. None), en_backend = (\<lambda>_. Inr BackendNFT)\<rparr>"

definition example_host :: "unit host" where
  "example_host = \<lparr>ho_store = (None, quiet_world (Holds one_service) (\<lambda>_. False)), ho_ext = ()\<rparr>"

lemma example_host_view: "fresh example_host" "view example_host = Some one_service"
proof -
  have "current_data one_service" by (simp add: one_service_def example_data_def current_data_def)
  then show "view example_host = Some one_service"
    by (simp add: view_def example_host_def store_view_def quiet_world_def latest_view_holds)
qed (simp add: fresh_def example_host_def)

lemma one_service_alloc: "isoAllocationInData one_service ''a'' = Some (example_alloc ''a'' 0xAC1E0000)"
  by (simp add: isoAllocationInData_def one_service_def)

definition example_removal :: isoConcreteRemoveSteps where
  "example_removal =
     \<lparr>cr_service = (new_Service ''a'')\<lparr>svc_ISO := Some (example_alloc ''a'' 0xAC1E0000)\<rparr>, cr_alloc = example_alloc ''a'' 0xAC1E0000,
      cr_vm = True, cr_native = False,
      cr_spec = \<lparr>ns_Backend = BackendNFT, ns_Policy = example_spec,
        ns_Topology = topology_spec BackendNFT (v4_prefix 0xAC1E0000 16) (example_alloc ''a'' 0xAC1E0000), ns_Topologies = [], ns_VM = True\<rparr>,
      cr_CleanData = False, cr_zfsDataset = []\<rparr>"

text \<open>On a host where the topology does not go away the record and its addresses stay.\<close>

theorem removal_safe_witness:
  "\<exists>d' a'. view (snd (removeISOServiceLockedWith [] (\<lambda>_. ''failed'') (concreteISORemoveSteps [] example_env example_removal) ''a'' example_host)) = Some d' \<and>
     isoAllocationInData d' ''a'' = Some a' \<and> frozen a' = frozen (example_alloc ''a'' 0xAC1E0000) \<and> \<not> cleanup_done a'"
proof -
  let ?r = "concreteISORemoveSteps [] example_env example_removal" and ?a = "example_alloc ''a'' 0xAC1E0000"
  have "fst (run_steps (cleanup_steps ?r) n s) \<noteq> None" for n s
    by (simp add: cleanup_steps_def concreteISORemoveSteps_def example_removal_def example_env_def on_ext_def
        runISOReconcileVMSystemctl_def Let_def)
  moreover have "\<not> cleanup_done ?a" by (simp add: cleanup_done_def example_alloc_def newDBISOAllocation_def Let_def)
  ultimately show ?thesis
    using removal_safe [OF example_host_view one_service_alloc prod.collapse [symmetric], of "[]" "\<lambda>_. ''failed''" example_env example_removal]
    by (auto split: option.splits)
qed

end
