(* ===== verification/Net_Config.thy ===== *)
theory Net_Config
  imports Db_Types Go_Text
begin

text \<open>
  The network settings of a service (\<^verbatim>\<open>src/pkg/catch/service_network_config.go\<close>, and the modes in effect
  from \<^verbatim>\<open>service_info.go\<close>): what a user asks for is normalised and checked before it is persisted, a
  patch changes only the flags that were given, and for records of older versions the settings are
  read off the networks the service has. The check of a single tag is Tailscale's (\<^verbatim>\<open>tailcfg.CheckTag\<close>) and an
  argument. The lemmas characterise the accepted settings, show that normalised settings are
  stable, and that a patch without network flags keeps them.
\<close>

section \<open>Data\<close>

datatype net_err =
    NetModeErr iso_err
  | InvalidTag string string
  | NetHostCombined
  | NetIsoCombined
  | TagsRequired
  | VlanRange
  | MacvlanNeedsLan

text \<open>The network flags of \<^verbatim>\<open>service set\<close>; a flag that was not given is \<open>False\<close> in its \<open>Set\<close> field.\<close>

record ServiceSetFlags =
  sf_Net :: string
  sf_NetSet :: bool
  sf_TsVer :: string
  sf_TsVerSet :: bool
  sf_TsExit :: string
  sf_TsExitSet :: bool
  sf_TsTags :: "string list"
  sf_TsTagsSet :: bool
  sf_TsAuthKey :: string
  sf_TsAuthKeySet :: bool
  sf_MacvlanMac :: string
  sf_MacvlanMacSet :: bool
  sf_MacvlanVlan :: int
  sf_MacvlanVlanSet :: bool
  sf_MacvlanParent :: string
  sf_MacvlanParentSet :: bool

definition HasNetworkChange :: "ServiceSetFlags \<Rightarrow> bool" where
  "HasNetworkChange f \<longleftrightarrow>
     sf_NetSet f \<or> sf_TsVerSet f \<or> sf_TsExitSet f \<or> sf_TsTagsSet f \<or> sf_TsAuthKeySet f \<or>
     sf_MacvlanMacSet f \<or> sf_MacvlanVlanSet f \<or> sf_MacvlanParentSet f"

record TailscaleOpts =
  to_Version :: string
  to_ExitNode :: string
  to_Tags :: "string list"
  to_AuthKey :: string

record MacvlanOpts =
  mo_Mac :: string
  mo_Parent :: string
  mo_VLAN :: int

record NetworkOpts =
  no_Interfaces :: string
  no_Tailscale :: TailscaleOpts
  no_Macvlan :: MacvlanOpts
  no_Modes :: "string list"
  no_ISO :: bool

section \<open>The modes in effect\<close>

definition isoAllocationIsEffective :: "string \<Rightarrow> bool" where
  "isoAllocationIsEffective state \<longleftrightarrow> state = StateReady"

fun normalized_modes_loop :: "string list \<Rightarrow> string list \<Rightarrow> string list" where
  "normalized_modes_loop [] out = out"
| "normalized_modes_loop (raw # rest) out =
     (let mode = ToLower (TrimSpace raw) in
      if mode = [] \<or> mode \<in> set out then normalized_modes_loop rest out
      else normalized_modes_loop rest (out @ [mode]))"

definition normalizedServiceNetworkModes :: "string list \<Rightarrow> string list" where
  "normalizedServiceNetworkModes modes = sort (normalized_modes_loop modes [])"

definition runtime_modes :: "Service \<Rightarrow> string list" where
  "runtime_modes sv =
     (if svc_SvcNetwork sv = None then [] else [''svc'']) @
     (if svc_Macvlan sv = None then [] else [''lan'']) @
     (if svc_TSNet sv = None then [] else [''ts'']) @
     (case svc_VM sv of None \<Rightarrow> [] | Some vm \<Rightarrow> map vn_Mode (vm_Networks vm))"

definition effectiveServiceNetworkModes :: "Service \<Rightarrow> string list" where
  "effectiveServiceNetworkModes sv =
     (case svc_ISO sv of
        Some a \<Rightarrow>
          if isoAllocationIsEffective (iso_State a) then normalizedServiceNetworkModes (iso_DesiredModes a)
          else (case normalizedServiceNetworkModes (runtime_modes sv) of [] \<Rightarrow> [''host''] | ms \<Rightarrow> ms)
      | None \<Rightarrow> (case normalizedServiceNetworkModes (runtime_modes sv) of [] \<Rightarrow> [''host''] | ms \<Rightarrow> ms))"

definition empty_network_config :: ServiceNetworkConfig where
  "empty_network_config =
     \<lparr>snc_Modes = [], snc_TSVersion = [], snc_TSExitNode = [], snc_TSTags = [],
      snc_MacvlanParent = [], snc_MacvlanVLAN = 0, snc_MacvlanMAC = []\<rparr>"

definition effectiveServiceNetworkConfig :: "Service option \<Rightarrow> ServiceNetworkConfig" where
  "effectiveServiceNetworkConfig service =
     (case service of
        None \<Rightarrow> empty_network_config
      | Some sv \<Rightarrow>
          let config = empty_network_config\<lparr>snc_Modes := effectiveServiceNetworkModes sv\<rparr>;
              config = (case svc_TSNet sv of
                  None \<Rightarrow> config
                | Some ts \<Rightarrow> config\<lparr>snc_TSVersion := ts_Version ts, snc_TSExitNode := ts_ExitNode ts, snc_TSTags := ts_Tags ts\<rparr>)
          in (case svc_Macvlan sv of
                None \<Rightarrow> config
              | Some mv \<Rightarrow> config\<lparr>snc_MacvlanParent := mv_Parent mv, snc_MacvlanVLAN := mv_VLAN mv, snc_MacvlanMAC := mv_Mac mv\<rparr>))"

definition desiredServiceNetworkConfig :: "Service \<Rightarrow> ServiceNetworkConfig" where
  "desiredServiceNetworkConfig sv =
     (case svc_Network sv of Some configured \<Rightarrow> configured | None \<Rightarrow> effectiveServiceNetworkConfig (Some sv))"

section \<open>Normalisation\<close>

text \<open>\<^verbatim>\<open>strings.EqualFold\<close> on ASCII text.\<close>

definition EqualFold :: "string \<Rightarrow> string \<Rightarrow> bool" where
  "EqualFold s t \<longleftrightarrow> ToLower s = ToLower t"

fun split_host :: "string list \<Rightarrow> string list \<Rightarrow> bool \<Rightarrow> string list \<times> bool" where
  "split_host [] nonHost hasHost = (nonHost, hasHost)"
| "split_host (raw # rest) nonHost hasHost =
     (if EqualFold (TrimSpace raw) ''host'' then split_host rest nonHost True
      else split_host rest (nonHost @ [raw]) hasHost)"

definition normalizeDesiredNetworkModes :: "string list \<Rightarrow> net_err + string list" where
  "normalizeDesiredNetworkModes rawModes =
     (case split_host rawModes [] False of
        (nonHost, hasHost) \<Rightarrow>
          (case NormalizeModes nonHost of
             Inl e \<Rightarrow> Inl (NetModeErr e)
           | Inr modes \<Rightarrow> Inr (if hasHost then sort (modes @ [''host'']) else modes)))"

text \<open>\<open>checkTag\<close> is \<^verbatim>\<open>tailcfg.CheckTag\<close>: the error of a bad tag.\<close>

fun tags_loop :: "(string \<Rightarrow> string option) \<Rightarrow> string list \<Rightarrow> string list \<Rightarrow> net_err + string list" where
  "tags_loop checkTag [] tags = Inr tags"
| "tags_loop checkTag (raw # rest) tags =
     (let tag = TrimSpace raw in
      if tag = [] \<or> tag \<in> set tags then tags_loop checkTag rest tags
      else case checkTag tag of
             Some e \<Rightarrow> Inl (InvalidTag tag e)
           | None \<Rightarrow> tags_loop checkTag rest (tags @ [tag]))"

definition normalizeTailscaleTags :: "(string \<Rightarrow> string option) \<Rightarrow> string list \<Rightarrow> net_err + string list" where
  "normalizeTailscaleTags checkTag rawTags = tags_loop checkTag rawTags []"

definition validateServiceNetworkModes :: "string list \<Rightarrow> ServiceNetworkConfig \<Rightarrow> net_err option" where
  "validateServiceNetworkModes modes cfg =
     (if ''host'' \<in> set modes \<and> length modes \<noteq> 1 then Some NetHostCombined
      else if ''iso'' \<in> set modes \<and> (''svc'' \<in> set modes \<or> ''lan'' \<in> set modes) then Some NetIsoCombined
      else if ''ts'' \<in> set modes \<and> snc_TSTags cfg = [] then Some TagsRequired
      else if snc_MacvlanVLAN cfg < 0 \<or> snc_MacvlanVLAN cfg > 4094 then Some VlanRange
      else None)"

definition normalizeServiceNetworkConfig ::
  "(string \<Rightarrow> string option) \<Rightarrow> ServiceNetworkConfig \<Rightarrow> net_err + ServiceNetworkConfig" where
  "normalizeServiceNetworkConfig checkTag cfg =
     (case normalizeDesiredNetworkModes (snc_Modes cfg) of
        Inl e \<Rightarrow> Inl e
      | Inr modes \<Rightarrow>
          (case normalizeTailscaleTags checkTag (snc_TSTags cfg) of
             Inl e \<Rightarrow> Inl e
           | Inr tags \<Rightarrow>
               let cfg = cfg\<lparr>snc_TSTags := tags\<rparr> in
               (case validateServiceNetworkModes modes cfg of
                  Some e \<Rightarrow> Inl e
                | None \<Rightarrow> Inr (cfg\<lparr>snc_Modes := modes\<rparr>))))"

section \<open>Patches\<close>

definition patchedMacvlanHasValue :: "ServiceNetworkConfig \<Rightarrow> ServiceSetFlags \<Rightarrow> bool" where
  "patchedMacvlanHasValue cfg f \<longleftrightarrow>
     sf_MacvlanParentSet f \<and> TrimSpace (snc_MacvlanParent cfg) \<noteq> [] \<or>
     sf_MacvlanVlanSet f \<and> snc_MacvlanVLAN cfg \<noteq> 0 \<or>
     sf_MacvlanMacSet f \<and> TrimSpace (snc_MacvlanMAC cfg) \<noteq> []"

definition validatePatchedMacvlanModes :: "ServiceNetworkConfig \<Rightarrow> ServiceSetFlags \<Rightarrow> net_err option" where
  "validatePatchedMacvlanModes cfg f =
     (if \<not> sf_MacvlanParentSet f \<and> \<not> sf_MacvlanVlanSet f \<and> \<not> sf_MacvlanMacSet f then None
      else case normalizeDesiredNetworkModes (snc_Modes cfg) of
             Inl e \<Rightarrow> Some e
           | Inr modes \<Rightarrow> if ''lan'' \<notin> set modes \<and> patchedMacvlanHasValue cfg f then Some MacvlanNeedsLan else None)"

definition patched :: "ServiceNetworkConfig \<Rightarrow> ServiceSetFlags \<Rightarrow> ServiceNetworkConfig" where
  "patched current f =
     \<lparr>snc_Modes = (if sf_NetSet f then Split (sf_Net f) (CHR '','') else snc_Modes current),
      snc_TSVersion = (if sf_TsVerSet f then sf_TsVer f else snc_TSVersion current),
      snc_TSExitNode = (if sf_TsExitSet f then sf_TsExit f else snc_TSExitNode current),
      snc_TSTags = (if sf_TsTagsSet f then sf_TsTags f else snc_TSTags current),
      snc_MacvlanParent = (if sf_MacvlanParentSet f then sf_MacvlanParent f else snc_MacvlanParent current),
      snc_MacvlanVLAN = (if sf_MacvlanVlanSet f then sf_MacvlanVlan f else snc_MacvlanVLAN current),
      snc_MacvlanMAC = (if sf_MacvlanMacSet f then sf_MacvlanMac f else snc_MacvlanMAC current)\<rparr>"

definition applyServiceNetworkPatch ::
  "(string \<Rightarrow> string option) \<Rightarrow> ServiceNetworkConfig \<Rightarrow> ServiceSetFlags \<Rightarrow> net_err + ServiceNetworkConfig" where
  "applyServiceNetworkPatch checkTag current f =
     (case validatePatchedMacvlanModes (patched current f) f of
        Some e \<Rightarrow> Inl e
      | None \<Rightarrow> normalizeServiceNetworkConfig checkTag (patched current f))"

definition networkOptsFromDesired :: "ServiceNetworkConfig \<Rightarrow> string \<Rightarrow> NetworkOpts" where
  "networkOptsFromDesired cfg authKey =
     \<lparr>no_Interfaces = Join (snc_Modes cfg) '','',
      no_Tailscale =
        \<lparr>to_Version = snc_TSVersion cfg, to_ExitNode = snc_TSExitNode cfg, to_Tags = snc_TSTags cfg, to_AuthKey = authKey\<rparr>,
      no_Macvlan = \<lparr>mo_Mac = snc_MacvlanMAC cfg, mo_Parent = snc_MacvlanParent cfg, mo_VLAN = snc_MacvlanVLAN cfg\<rparr>,
      no_Modes = snc_Modes cfg, no_ISO = (''iso'' \<in> set (snc_Modes cfg))\<rparr>"

section \<open>Modes as sets\<close>

definition mode_of :: "string \<Rightarrow> string" where
  "mode_of raw = ToLower (TrimSpace raw)"

lemma known_modes_fixed: "m \<in> set known_modes \<Longrightarrow> mode_of m = m \<and> m \<noteq> []"
  by (auto simp: known_modes_def mode_of_def ToLower_def TrimSpace_def is_space_def to_lower_char_def Let_def)

lemma normalize_modes_loop_accepts:
  "\<forall>m \<in> set ms. mode_of m \<in> set known_modes \<Longrightarrow> \<exists>r. normalize_modes_loop ms out = Inr r"
  by (induction ms out rule: normalize_modes_loop.induct)
    (auto simp: Let_def mode_of_def [symmetric] known_modes_fixed dest: known_modes_fixed)

lemma NormalizeModes_iff:
  "NormalizeModes ms = Inr r \<longleftrightarrow>
   (\<forall>m \<in> set ms. mode_of m \<in> set known_modes) \<and> r = sorted_list_of_set (mode_of ` set ms)" (is "?l \<longleftrightarrow> ?r")
proof
  assume l: ?l
  then have r: "sorted r" "distinct r" "set r \<subseteq> set known_modes" "set r = mode_of ` set ms"
    using NormalizeModes_ok [OF l] by (auto simp: mode_of_def)
  then show ?r using sorted_list_of_set.idem_if_sorted_distinct [of r] by auto
next
  assume r: ?r
  then obtain x where x: "normalize_modes_loop ms [] = Inr x" using normalize_modes_loop_accepts by blast
  then have l: "NormalizeModes ms = Inr (sort x)" by (simp add: NormalizeModes_def)
  then have "sort x = sorted_list_of_set (mode_of ` set ms)"
    using NormalizeModes_ok [OF l] sorted_list_of_set.idem_if_sorted_distinct [of "sort x"] by (simp add: mode_of_def)
  with l r show ?l by simp
qed

lemma EqualFold_host: "EqualFold (TrimSpace raw) ''host'' \<longleftrightarrow> mode_of raw = ''host''"
proof -
  have "ToLower ''host'' = ''host''" by (simp add: ToLower_def to_lower_char_def)
  then show ?thesis by (simp add: EqualFold_def mode_of_def)
qed

lemma split_host_eq:
  "split_host raws nonHost hasHost =
     (nonHost @ filter (\<lambda>r. mode_of r \<noteq> ''host'') raws, hasHost \<or> ''host'' \<in> mode_of ` set raws)"
  by (induction raws nonHost hasHost rule: split_host.induct) (auto simp: EqualFold_host)

lemma sort_snoc_set:
  assumes "x \<notin> A" "finite A"
  shows "sort (sorted_list_of_set A @ [x]) = sorted_list_of_set (insert x A)"
  using assms by (intro sorted_distinct_set_unique) (auto simp: set_insort_key distinct_insort sorted_insort)

text \<open>The desired modes are accepted exactly when each is known, and become the sorted set of them.\<close>

lemma desired_modes_iff:
  "normalizeDesiredNetworkModes raws = Inr ms \<longleftrightarrow>
   mode_of ` set raws \<subseteq> set known_modes \<and> ms = sorted_list_of_set (mode_of ` set raws)"
proof -
  define rest where "rest = filter (\<lambda>r. mode_of r \<noteq> ''host'') raws"
  define A where "A = mode_of ` set rest"
  have known: "(\<forall>m \<in> set rest. mode_of m \<in> set known_modes) \<longleftrightarrow> mode_of ` set raws \<subseteq> set known_modes"
  proof -
    have "''host'' \<in> set known_modes" by (simp add: known_modes_def)
    then show ?thesis by (force simp: rest_def)
  qed
  have sorted: "(if ''host'' \<in> mode_of ` set raws then sort (sorted_list_of_set A @ [''host'']) else sorted_list_of_set A) =
      sorted_list_of_set (mode_of ` set raws)"
  proof -
    have A: "A = mode_of ` set raws - {''host''}" by (auto simp: A_def rest_def)
    then have "''host'' \<notin> A" "finite A" by auto
    then have s: "sort (sorted_list_of_set A @ [''host'']) = sorted_list_of_set (insert ''host'' A)" by (rule sort_snoc_set)
    have "''host'' \<in> mode_of ` set raws \<Longrightarrow> insert ''host'' A = mode_of ` set raws" unfolding A by blast
    moreover have "''host'' \<notin> mode_of ` set raws \<Longrightarrow> A = mode_of ` set raws" unfolding A by blast
    ultimately show ?thesis unfolding s by simp
  qed
  have n: "normalizeDesiredNetworkModes raws =
      (case NormalizeModes rest of Inl e \<Rightarrow> Inl (NetModeErr e)
       | Inr modes \<Rightarrow> Inr (if ''host'' \<in> mode_of ` set raws then sort (modes @ [''host'']) else modes))"
    unfolding normalizeDesiredNetworkModes_def split_host_eq rest_def by simp
  show ?thesis
  proof (cases "NormalizeModes rest")
    case (Inl e)
    then have "\<not> mode_of ` set raws \<subseteq> set known_modes" using NormalizeModes_iff [of rest "sorted_list_of_set A"] known by (simp add: A_def)
    then show ?thesis by (simp add: n Inl)
  next
    case (Inr m)
    then have "m = sorted_list_of_set A" "mode_of ` set raws \<subseteq> set known_modes" using NormalizeModes_iff [of rest m] known by (simp_all add: A_def)
    then show ?thesis unfolding n Inr sum.case sorted [symmetric] by auto
  qed
qed

lemma desired_modes_fixed:
  "normalizeDesiredNetworkModes ms = Inr ms \<longleftrightarrow> sorted ms \<and> distinct ms \<and> set ms \<subseteq> set known_modes" (is "?l \<longleftrightarrow> ?r")
proof
  assume l: ?l
  then have ms: "mode_of ` set ms \<subseteq> set known_modes" "ms = sorted_list_of_set (mode_of ` set ms)"
    by (simp_all add: desired_modes_iff)
  have "set ms = mode_of ` set ms" "sorted ms" "distinct ms"
    by (subst ms(2), simp)+
  with ms(1) show ?r by simp
next
  assume r: ?r
  then have "mode_of ` set ms = set ms" using known_modes_fixed by (force simp: image_iff subset_iff)
  with r show ?l by (simp add: desired_modes_iff sorted_list_of_set.idem_if_sorted_distinct)
qed

section \<open>Tags\<close>

lemma TrimSpace_idem [simp]: "TrimSpace (TrimSpace s) = TrimSpace s"
proof (cases "TrimSpace s = []")
  case False
  let ?u = "dropWhile is_space s"
  have t: "TrimSpace s = rev (dropWhile is_space (rev ?u))" by (simp add: TrimSpace_def)
  have r: "dropWhile is_space (rev ?u) \<noteq> []" using False t by simp
  have "\<not> is_space (last (TrimSpace s))" unfolding t using hd_dropWhile [of is_space "rev ?u"] r by (auto simp: last_rev dropWhile_eq_Nil_conv)
  moreover have "\<not> is_space (hd (TrimSpace s))"
  proof -
    obtain v where v: "rev ?u = v @ dropWhile is_space (rev ?u)" by (metis takeWhile_dropWhile_id)
    then have "?u = TrimSpace s @ rev v" unfolding t by (metis rev_append rev_rev_ident)
    then have "hd (TrimSpace s) = hd ?u" "?u \<noteq> []" using False by (simp_all add: hd_append)
    then show ?thesis using hd_dropWhile [of is_space s] by (auto simp: dropWhile_eq_Nil_conv)
  qed
  ultimately show ?thesis using False by (intro TrimSpace_id)
qed simp

definition tag_ok :: "(string \<Rightarrow> string option) \<Rightarrow> string \<Rightarrow> bool" where
  "tag_ok checkTag t \<longleftrightarrow> t \<noteq> [] \<and> TrimSpace t = t \<and> checkTag t = None"

lemma tags_loop_ok:
  "tags_loop checkTag raws tags = Inr r \<Longrightarrow> distinct tags \<Longrightarrow> list_all (tag_ok checkTag) tags \<Longrightarrow>
   distinct r \<and> list_all (tag_ok checkTag) r \<and> set r = set tags \<union> (TrimSpace ` set raws - {[]})"
  by (induction checkTag raws tags rule: tags_loop.induct)
    (auto simp: Let_def tag_ok_def split: if_splits option.splits)

lemma tags_loop_accepts:
  "(\<exists>r. tags_loop checkTag raws tags = Inr r) \<longleftrightarrow> (\<forall>x \<in> set raws. TrimSpace x \<noteq> [] \<and> TrimSpace x \<notin> set tags \<longrightarrow> checkTag (TrimSpace x) = None)"
  by (induction checkTag raws tags rule: tags_loop.induct) (auto simp: Let_def split: option.splits)

lemma tags_loop_fixed:
  "list_all (tag_ok checkTag) raws \<Longrightarrow> distinct (tags @ raws) \<Longrightarrow> tags_loop checkTag raws tags = Inr (tags @ raws)"
  by (induction checkTag raws tags rule: tags_loop.induct) (auto simp: Let_def tag_ok_def)

section \<open>Accepted settings\<close>

definition combination_ok :: "string set \<Rightarrow> bool" where
  "combination_ok M \<longleftrightarrow>
     M \<subseteq> set known_modes \<and> (''host'' \<in> M \<longrightarrow> M = {''host''}) \<and>
     (''iso'' \<in> M \<longrightarrow> ''svc'' \<notin> M \<and> ''lan'' \<notin> M)"

definition network_ok :: "(string \<Rightarrow> string option) \<Rightarrow> ServiceNetworkConfig \<Rightarrow> bool" where
  "network_ok checkTag c \<longleftrightarrow>
     sorted (snc_Modes c) \<and> distinct (snc_Modes c) \<and> combination_ok (set (snc_Modes c)) \<and>
     distinct (snc_TSTags c) \<and> list_all (tag_ok checkTag) (snc_TSTags c) \<and>
     (''ts'' \<in> set (snc_Modes c) \<longrightarrow> snc_TSTags c \<noteq> []) \<and> 0 \<le> snc_MacvlanVLAN c \<and> snc_MacvlanVLAN c \<le> 4094"

lemma modes_check_iff:
  assumes "distinct ms" "set ms \<subseteq> set known_modes"
  shows "validateServiceNetworkModes ms cfg = None \<longleftrightarrow>
    combination_ok (set ms) \<and> (''ts'' \<in> set ms \<longrightarrow> snc_TSTags cfg \<noteq> []) \<and> 0 \<le> snc_MacvlanVLAN cfg \<and> snc_MacvlanVLAN cfg \<le> 4094"
proof -
  have "''host'' \<in> set ms \<Longrightarrow> (set ms = {''host''}) = (length ms = 1)"
    using assms(1) by (metis One_nat_def distinct_card card_1_singleton_iff singletonD)
  then show ?thesis using assms(2) by (auto simp: validateServiceNetworkModes_def combination_ok_def)
qed

lemma normalize_cases:
  "normalizeServiceNetworkConfig checkTag cfg = Inr c \<longleftrightarrow>
   (\<exists>tags. mode_of ` set (snc_Modes cfg) \<subseteq> set known_modes \<and> normalizeTailscaleTags checkTag (snc_TSTags cfg) = Inr tags \<and>
      validateServiceNetworkModes (sorted_list_of_set (mode_of ` set (snc_Modes cfg))) (cfg\<lparr>snc_TSTags := tags\<rparr>) = None \<and>
      c = cfg\<lparr>snc_TSTags := tags, snc_Modes := sorted_list_of_set (mode_of ` set (snc_Modes cfg))\<rparr>)"
proof (cases "normalizeDesiredNetworkModes (snc_Modes cfg)")
  case (Inl e)
  then have "\<not> mode_of ` set (snc_Modes cfg) \<subseteq> set known_modes"
    using desired_modes_iff [of "snc_Modes cfg" "sorted_list_of_set (mode_of ` set (snc_Modes cfg))"] by simp
  with Inl show ?thesis by (simp add: normalizeServiceNetworkConfig_def)
next
  case (Inr ms)
  then have "mode_of ` set (snc_Modes cfg) \<subseteq> set known_modes" "ms = sorted_list_of_set (mode_of ` set (snc_Modes cfg))"
    by (simp_all add: desired_modes_iff)
  with Inr show ?thesis
    by (cases "normalizeTailscaleTags checkTag (snc_TSTags cfg)")
      (auto simp: normalizeServiceNetworkConfig_def Let_def split: option.splits)
qed

lemma normalized_ok:
  assumes "normalizeServiceNetworkConfig checkTag cfg = Inr c"
  shows "network_ok checkTag c"
    and "set (snc_Modes c) = mode_of ` set (snc_Modes cfg)"
    and "set (snc_TSTags c) = TrimSpace ` set (snc_TSTags cfg) - {[]}"
    and "c\<lparr>snc_Modes := snc_Modes cfg, snc_TSTags := snc_TSTags cfg\<rparr> = cfg"
proof -
  let ?ms = "sorted_list_of_set (mode_of ` set (snc_Modes cfg))"
  obtain tags where t: "mode_of ` set (snc_Modes cfg) \<subseteq> set known_modes" "tags_loop checkTag (snc_TSTags cfg) [] = Inr tags"
    "validateServiceNetworkModes ?ms (cfg\<lparr>snc_TSTags := tags\<rparr>) = None" "c = cfg\<lparr>snc_TSTags := tags, snc_Modes := ?ms\<rparr>"
    using assms by (auto simp: normalize_cases normalizeTailscaleTags_def)
  note l = tags_loop_ok [OF t(2)]
  show "network_ok checkTag c" using t(1,3,4) l modes_check_iff [of ?ms] by (simp add: network_ok_def)
  show "set (snc_Modes c) = mode_of ` set (snc_Modes cfg)" "set (snc_TSTags c) = TrimSpace ` set (snc_TSTags cfg) - {[]}"
    "c\<lparr>snc_Modes := snc_Modes cfg, snc_TSTags := snc_TSTags cfg\<rparr> = cfg"
    using t l by simp_all
qed

lemma normalize_fixed: "normalizeServiceNetworkConfig checkTag c = Inr c \<longleftrightarrow> network_ok checkTag c"
proof
  assume n: "network_ok checkTag c"
  then have k: "set (snc_Modes c) \<subseteq> set known_modes" by (simp add: network_ok_def combination_ok_def)
  then have m: "mode_of ` set (snc_Modes c) = set (snc_Modes c)" using known_modes_fixed by (force simp: image_iff subset_iff)
  have s: "sorted_list_of_set (set (snc_Modes c)) = snc_Modes c"
    using n by (simp add: network_ok_def sorted_list_of_set.idem_if_sorted_distinct)
  have t: "normalizeTailscaleTags checkTag (snc_TSTags c) = Inr (snc_TSTags c)"
    using n tags_loop_fixed [of checkTag "snc_TSTags c" "[]"] by (simp add: network_ok_def normalizeTailscaleTags_def)
  show "normalizeServiceNetworkConfig checkTag c = Inr c"
    unfolding normalize_cases m s t using n k modes_check_iff [of "snc_Modes c" c] by (auto simp: network_ok_def)
qed (rule normalized_ok(1))

lemma normalize_accepts:
  "(\<exists>c. normalizeServiceNetworkConfig checkTag cfg = Inr c) \<longleftrightarrow>
   combination_ok (mode_of ` set (snc_Modes cfg)) \<and>
   (\<forall>t \<in> set (snc_TSTags cfg). TrimSpace t \<noteq> [] \<longrightarrow> checkTag (TrimSpace t) = None) \<and>
   (''ts'' \<in> mode_of ` set (snc_Modes cfg) \<longrightarrow> (\<exists>t \<in> set (snc_TSTags cfg). TrimSpace t \<noteq> [])) \<and>
   0 \<le> snc_MacvlanVLAN cfg \<and> snc_MacvlanVLAN cfg \<le> 4094"
proof (cases "mode_of ` set (snc_Modes cfg) \<subseteq> set known_modes \<and> (\<exists>tags. normalizeTailscaleTags checkTag (snc_TSTags cfg) = Inr tags)")
  case True
  then obtain tags where t: "normalizeTailscaleTags checkTag (snc_TSTags cfg) = Inr tags" by auto
  then have l: "tags_loop checkTag (snc_TSTags cfg) [] = Inr tags" by (simp add: normalizeTailscaleTags_def)
  have tags: "set tags = TrimSpace ` set (snc_TSTags cfg) - {[]}" using tags_loop_ok [OF l] by simp
  have "set tags \<noteq> {} \<longleftrightarrow> (\<exists>t \<in> set (snc_TSTags cfg). TrimSpace t \<noteq> [])" unfolding tags by auto
  then have "tags \<noteq> [] \<longleftrightarrow> (\<exists>t \<in> set (snc_TSTags cfg). TrimSpace t \<noteq> [])" by simp
  moreover have "\<forall>t \<in> set (snc_TSTags cfg). TrimSpace t \<noteq> [] \<longrightarrow> checkTag (TrimSpace t) = None"
    using tags_loop_accepts [of checkTag "snc_TSTags cfg" "[]"] l by simp
  ultimately show ?thesis
    using True t modes_check_iff [of "sorted_list_of_set (mode_of ` set (snc_Modes cfg))" "cfg\<lparr>snc_TSTags := tags\<rparr>"]
    by (simp add: normalize_cases)
next
  case False
  then show ?thesis using tags_loop_accepts [of checkTag "snc_TSTags cfg" "[]"]
    by (auto simp: normalize_cases combination_ok_def normalizeTailscaleTags_def)
qed

section \<open>Patches of normalised settings\<close>

lemma patched_unchanged: "\<not> HasNetworkChange f \<Longrightarrow> patched c f = c"
  by (simp add: patched_def HasNetworkChange_def)

lemma macvlan_check_unset: "\<not> HasNetworkChange f \<Longrightarrow> validatePatchedMacvlanModes c f = None"
  by (simp add: validatePatchedMacvlanModes_def HasNetworkChange_def)

lemma macvlan_check_ok:
  assumes "validatePatchedMacvlanModes c f = None" "patchedMacvlanHasValue c f"
  shows "''lan'' \<in> mode_of ` set (snc_Modes c)"
proof -
  obtain ms where "normalizeDesiredNetworkModes (snc_Modes c) = Inr ms" "''lan'' \<in> set ms"
    using assms by (auto simp: validatePatchedMacvlanModes_def patchedMacvlanHasValue_def split: if_splits sum.splits)
  then show ?thesis by (auto simp: desired_modes_iff)
qed

lemma patch_cases:
  "applyServiceNetworkPatch checkTag cur f = Inr c \<Longrightarrow>
   validatePatchedMacvlanModes (patched cur f) f = None \<and> normalizeServiceNetworkConfig checkTag (patched cur f) = Inr c"
  by (auto simp: applyServiceNetworkPatch_def split: option.splits)

text \<open>The loops keep modes that are already normalised as they are.\<close>

lemma known_modes_no_comma: "m \<in> set known_modes \<Longrightarrow> CHR '','' \<notin> set m"
  by (auto simp: known_modes_def)

lemma interfaces_roundtrip:
  assumes "network_ok checkTag c" "snc_Modes c \<noteq> []"
  shows "normalizeDesiredNetworkModes (Split (no_Interfaces (networkOptsFromDesired c k)) (CHR '','')) = Inr (snc_Modes c)"
proof -
  have ms: "set (snc_Modes c) \<subseteq> set known_modes" "sorted (snc_Modes c)" "distinct (snc_Modes c)"
    using assms(1) by (simp_all add: network_ok_def combination_ok_def)
  then have "Split (Join (snc_Modes c) '','') (CHR '','') = snc_Modes c"
    using assms(2) known_modes_no_comma by (intro Split_Join) auto
  then show ?thesis using ms by (simp add: networkOptsFromDesired_def desired_modes_fixed)
qed

section \<open>Properties\<close>

text \<open>
  C38: the settings of a service are accepted exactly when its modes are known and may be combined
  (host alone, iso without svc and lan), every tag passes Tailscale's check, ts comes with a tag and the
  VLAN is in range. What is accepted has the modes and tags asked for, sorted and without
  duplicates or blanks, and every other field as it was. Exactly such settings are left alone
  by another normalisation, and the interface list handed to the installer is read back as the same modes.
\<close>

theorem network_config_exact:
  "((\<exists>c. normalizeServiceNetworkConfig checkTag cfg = Inr c) \<longleftrightarrow>
     combination_ok (mode_of ` set (snc_Modes cfg)) \<and>
     (\<forall>t \<in> set (snc_TSTags cfg). TrimSpace t \<noteq> [] \<longrightarrow> checkTag (TrimSpace t) = None) \<and>
     (''ts'' \<in> mode_of ` set (snc_Modes cfg) \<longrightarrow> (\<exists>t \<in> set (snc_TSTags cfg). TrimSpace t \<noteq> [])) \<and>
     0 \<le> snc_MacvlanVLAN cfg \<and> snc_MacvlanVLAN cfg \<le> 4094) \<and>
   (normalizeServiceNetworkConfig checkTag cfg = Inr c \<longrightarrow>
     network_ok checkTag c \<and> set (snc_Modes c) = mode_of ` set (snc_Modes cfg) \<and>
     set (snc_TSTags c) = TrimSpace ` set (snc_TSTags cfg) - {[]} \<and>
     c\<lparr>snc_Modes := snc_Modes cfg, snc_TSTags := snc_TSTags cfg\<rparr> = cfg) \<and>
   (normalizeServiceNetworkConfig checkTag c = Inr c \<longleftrightarrow> network_ok checkTag c) \<and>
   (network_ok checkTag c \<and> snc_Modes c \<noteq> [] \<longrightarrow>
     normalizeDesiredNetworkModes (Split (no_Interfaces (networkOptsFromDesired c k)) (CHR '','')) = Inr (snc_Modes c))"
proof (intro conjI impI normalize_accepts normalize_fixed)
  show "normalizeDesiredNetworkModes (Split (no_Interfaces (networkOptsFromDesired c k)) (CHR '','')) = Inr (snc_Modes c)"
    if "network_ok checkTag c \<and> snc_Modes c \<noteq> []"
    using that by (intro interfaces_roundtrip) auto
qed (rule normalized_ok; assumption)+

definition example_request :: ServiceNetworkConfig where
  "example_request = empty_network_config\<lparr>snc_Modes := ['' TS'', ''svc'', ''ts''], snc_TSTags := ['' tag:a'', [], ''tag:a'']\<rparr>"

theorem network_config_exact_witness:
  "normalizeServiceNetworkConfig (\<lambda>_. None) example_request =
     Inr (empty_network_config\<lparr>snc_Modes := [''svc'', ''ts''], snc_TSTags := [''tag:a'']\<rparr>) \<and>
   network_ok (\<lambda>_. None) (empty_network_config\<lparr>snc_Modes := [''svc'', ''ts''], snc_TSTags := [''tag:a'']\<rparr>)"
proof -
  have "normalizeServiceNetworkConfig (\<lambda>_. None) example_request =
     Inr (empty_network_config\<lparr>snc_Modes := [''svc'', ''ts''], snc_TSTags := [''tag:a'']\<rparr>)" by code_simp
  then show ?thesis using network_config_exact [of "\<lambda>_. None" example_request] by simp
qed

text \<open>
  A patch changes what its flags name and nothing else. Applied to normalised settings it gives
  normalised settings; a flag that was not given leaves its field as it was, a given one
  has set it, and without network flags nothing changes; settings of a LAN interface are only
  taken on when the resulting modes include lan.
\<close>

theorem network_patch_local:
  assumes "network_ok checkTag cur"
  shows "(\<not> HasNetworkChange f \<longrightarrow> applyServiceNetworkPatch checkTag cur f = Inr cur) \<and>
    (applyServiceNetworkPatch checkTag cur f = Inr c \<longrightarrow>
      network_ok checkTag c \<and>
      (if sf_NetSet f then set (snc_Modes c) = mode_of ` set (Split (sf_Net f) (CHR '','')) else snc_Modes c = snc_Modes cur) \<and>
      (if sf_TsTagsSet f then set (snc_TSTags c) = TrimSpace ` set (sf_TsTags f) - {[]} else snc_TSTags c = snc_TSTags cur) \<and>
      snc_TSVersion c = (if sf_TsVerSet f then sf_TsVer f else snc_TSVersion cur) \<and>
      snc_TSExitNode c = (if sf_TsExitSet f then sf_TsExit f else snc_TSExitNode cur) \<and>
      snc_MacvlanParent c = (if sf_MacvlanParentSet f then sf_MacvlanParent f else snc_MacvlanParent cur) \<and>
      snc_MacvlanVLAN c = (if sf_MacvlanVlanSet f then sf_MacvlanVlan f else snc_MacvlanVLAN cur) \<and>
      snc_MacvlanMAC c = (if sf_MacvlanMacSet f then sf_MacvlanMac f else snc_MacvlanMAC cur) \<and>
      (patchedMacvlanHasValue c f \<longrightarrow> ''lan'' \<in> set (snc_Modes c)))"
proof (intro conjI impI)
  assume "\<not> HasNetworkChange f"
  then show "applyServiceNetworkPatch checkTag cur f = Inr cur"
    using assms by (simp add: applyServiceNetworkPatch_def patched_unchanged macvlan_check_unset normalize_fixed)
next
  assume "applyServiceNetworkPatch checkTag cur f = Inr c"
  then have p: "validatePatchedMacvlanModes (patched cur f) f = None" "normalizeServiceNetworkConfig checkTag (patched cur f) = Inr c"
    using patch_cases by auto
  note n = normalized_ok [OF p(2)]
  have other: "snc_TSVersion c = snc_TSVersion (patched cur f)" "snc_TSExitNode c = snc_TSExitNode (patched cur f)"
    "snc_MacvlanParent c = snc_MacvlanParent (patched cur f)" "snc_MacvlanVLAN c = snc_MacvlanVLAN (patched cur f)"
    "snc_MacvlanMAC c = snc_MacvlanMAC (patched cur f)"
    using p(2) by (auto simp: normalize_cases)
  show "network_ok checkTag c" by (rule n(1))
  show "if sf_NetSet f then set (snc_Modes c) = mode_of ` set (Split (sf_Net f) (CHR '','')) else snc_Modes c = snc_Modes cur"
  proof (cases "sf_NetSet f")
    case True
    then show ?thesis using n(2) by (simp add: patched_def)
  next
    case False
    then have "normalizeDesiredNetworkModes (snc_Modes (patched cur f)) = Inr (snc_Modes cur)"
      using assms by (simp add: desired_modes_fixed network_ok_def combination_ok_def patched_def)
    then show ?thesis using p(2) False by (auto simp: normalize_cases desired_modes_iff)
  qed
  show "if sf_TsTagsSet f then set (snc_TSTags c) = TrimSpace ` set (sf_TsTags f) - {[]} else snc_TSTags c = snc_TSTags cur"
  proof (cases "sf_TsTagsSet f")
    case True
    then show ?thesis using n(3) by (simp add: patched_def)
  next
    case False
    then have "normalizeTailscaleTags checkTag (snc_TSTags (patched cur f)) = Inr (snc_TSTags cur)"
      using assms tags_loop_fixed [of checkTag "snc_TSTags cur" "[]"] by (simp add: network_ok_def normalizeTailscaleTags_def patched_def)
    then show ?thesis using p(2) False by (auto simp: normalize_cases)
  qed
  show "''lan'' \<in> set (snc_Modes c)" if "patchedMacvlanHasValue c f"
    using that macvlan_check_ok [OF p(1)] n(2) by (simp add: patchedMacvlanHasValue_def other)
qed (auto simp: normalize_cases patched_def dest!: patch_cases)

definition no_flags :: ServiceSetFlags where
  "no_flags =
     \<lparr>sf_Net = [], sf_NetSet = False, sf_TsVer = [], sf_TsVerSet = False, sf_TsExit = [], sf_TsExitSet = False,
      sf_TsTags = [], sf_TsTagsSet = False, sf_TsAuthKey = [], sf_TsAuthKeySet = False, sf_MacvlanMac = [],
      sf_MacvlanMacSet = False, sf_MacvlanVlan = 0, sf_MacvlanVlanSet = False, sf_MacvlanParent = [], sf_MacvlanParentSet = False\<rparr>"

text \<open>Moving a service from svc to svc and lan with a VLAN keeps its tags.\<close>

theorem network_patch_local_witness:
  "\<exists>c. applyServiceNetworkPatch (\<lambda>_. None) (empty_network_config\<lparr>snc_Modes := [''svc''], snc_TSTags := [''tag:a'']\<rparr>)
         (no_flags\<lparr>sf_Net := ''svc,LAN'', sf_NetSet := True, sf_MacvlanVlan := 7, sf_MacvlanVlanSet := True\<rparr>) = Inr c \<and>
       network_ok (\<lambda>_. None) c \<and> snc_TSTags c = [''tag:a''] \<and> snc_MacvlanVLAN c = 7 \<and> ''lan'' \<in> set (snc_Modes c)"
proof -
  let ?cur = "empty_network_config\<lparr>snc_Modes := [''svc''], snc_TSTags := [''tag:a'']\<rparr>"
  let ?f = "no_flags\<lparr>sf_Net := ''svc,LAN'', sf_NetSet := True, sf_MacvlanVlan := 7, sf_MacvlanVlanSet := True\<rparr>"
  let ?c = "empty_network_config\<lparr>snc_Modes := [''lan'', ''svc''], snc_TSTags := [''tag:a''], snc_MacvlanVLAN := 7\<rparr>"
  have r: "applyServiceNetworkPatch (\<lambda>_. None) ?cur ?f = Inr ?c" by code_simp
  have "network_ok (\<lambda>_. None) ?cur" unfolding normalize_fixed [symmetric] by code_simp
  from network_patch_local [OF this, of ?f ?c] r have "network_ok (\<lambda>_. None) ?c" by blast
  with r show ?thesis by (intro exI [of _ ?c]) simp
qed

end
