(* ===== verification/Iso_Gates.thy ===== *)
theory Iso_Gates
  imports Iso_Lifecycle Net_Config
begin

text \<open>
  The gates of the isolated network (\<^verbatim>\<open>src/pkg/catch/iso_runtime.go\<close>): the start gate, which marks an allocation
  ready only after the host policy and all topologies are in place; the retirement of components, which
  releases their addresses only after the project is stopped and the addresses are proven unused; and the transition
  of a service to another network, which drops the allocation only after the isolated network is gone.
  The steps the installer plugs in (\<^verbatim>\<open>installer_service.go\<close>, \<^verbatim>\<open>installer_file.go\<close>) are modelled too, on the host of
  theory \<open>Iso_Lifecycle\<close>. \<^verbatim>\<open>ctx.Err()\<close> is a predicate on the host; the text of an error is an argument.
\<close>

section \<open>The start gate\<close>

fun verifyISORuntimeSiblings ::
  "'k iso_env \<Rightarrow> string \<Rightarrow> (string \<times> ISOTopologySpec) list \<Rightarrow> 'k host \<Rightarrow> rt_err option \<times> 'k host" where
  "verifyISORuntimeSiblings env service [] s = (None, s)"
| "verifyISORuntimeSiblings env service ((name, spec) # rest) s =
     (if name = service then verifyISORuntimeSiblings env service rest s
      else case on_ext (en_EnsureISOTopology env spec) s of
             (Some e, s1) \<Rightarrow> (Some (StepErr name e), s1)
           | (None, s1) \<Rightarrow>
               (case on_ext (en_VerifyISOTopology env spec) s1 of
                  (Some e, s2) \<Rightarrow> (Some e, s2)
                | (None, s2) \<Rightarrow> verifyISORuntimeSiblings env service rest s2))"

definition reconcileISONetwork :: "'k iso_env \<Rightarrow> string \<Rightarrow> isoRuntimeNetworkSpec \<Rightarrow> 'k host \<Rightarrow> rt_err option \<times> 'k host" where
  "reconcileISONetwork env service spec s =
     (case RenderISOPolicy (ns_Backend spec) (ns_Policy spec) of
        Inl e \<Rightarrow> (Some (RenderErr e), s)
      | Inr policy \<Rightarrow>
          (case on_ext (en_EnsureISOPolicy env policy) s of
             (Some e, s1) \<Rightarrow> (Some e, s1)
           | (None, s1) \<Rightarrow>
               (case on_ext (en_EnsureISOTopology env (ns_Topology spec)) s1 of
                  (Some e, s2) \<Rightarrow> (Some e, s2)
                | (None, s2) \<Rightarrow> verifyISORuntimeSiblings env service (ns_Topologies spec) s2)))"

definition ensureISONetworkBoundaryLocked ::
  "path \<Rightarrow> (rt_err \<Rightarrow> string) \<Rightarrow> 'k iso_env \<Rightarrow> string \<Rightarrow> 'k host \<Rightarrow> rt_err option \<times> 'k host" where
  "ensureISONetworkBoundaryLocked dir txt env service s =
     (case db_get dir s of
        (Inl e, s1) \<Rightarrow> (Some (DbErr e), s1)
      | (Inr d, s1) \<Rightarrow>
          (case validateISORuntimeState d of
             Inl e \<Rightarrow> failISORuntime dir txt (StateErr e) s1
           | Inr _ \<Rightarrow>
               (case isoRuntimeSpec (en_backend env (ho_ext s1)) d service of
                  Inl e \<Rightarrow> failISORuntime dir txt (StateErr e) s1
                | Inr spec \<Rightarrow>
                    (case reconcileISONetwork env service spec s1 of
                       (Some e, s2) \<Rightarrow> failISORuntime dir txt e s2
                     | (None, s2) \<Rightarrow> (None, s2)))))"

definition ensureISONetworkLocked ::
  "path \<Rightarrow> (rt_err \<Rightarrow> string) \<Rightarrow> 'k iso_env \<Rightarrow> string \<Rightarrow> 'k host \<Rightarrow> rt_err option \<times> 'k host" where
  "ensureISONetworkLocked dir txt env service s =
     (case ensureISONetworkBoundaryLocked dir txt env service s of
        (Some e, s1) \<Rightarrow> (Some e, s1)
      | (None, s1) \<Rightarrow>
          (case markISOReady dir service s1 of
             (Some e, s2) \<Rightarrow> failISORuntime dir txt e s2
           | (None, s2) \<Rightarrow> (None, s2)))"

definition EnsureISONetwork ::
  "('k \<Rightarrow> string option \<times> 'k) \<Rightarrow> ('k \<Rightarrow> 'k) \<Rightarrow> path \<Rightarrow> (rt_err \<Rightarrow> string) \<Rightarrow> 'k iso_env \<Rightarrow> string \<Rightarrow> 'k host \<Rightarrow> rt_err option \<times> 'k host" where
  "EnsureISONetwork acquire unlock dir txt env service =
     withISOOperationLock acquire unlock (ensureISONetworkLocked dir txt env service)"

definition EnsureISONetworkBoundary ::
  "('k \<Rightarrow> string option \<times> 'k) \<Rightarrow> ('k \<Rightarrow> 'k) \<Rightarrow> path \<Rightarrow> (rt_err \<Rightarrow> string) \<Rightarrow> 'k iso_env \<Rightarrow> string \<Rightarrow> 'k host \<Rightarrow> rt_err option \<times> 'k host" where
  "EnsureISONetworkBoundary acquire unlock dir txt env service =
     withISOOperationLock acquire unlock (ensureISONetworkBoundaryLocked dir txt env service)"

section \<open>The local cleanup\<close>

definition installISOPolicyAfterCleanup ::
  "path \<Rightarrow> (rt_err \<Rightarrow> string) \<Rightarrow> 'k iso_env \<Rightarrow> string \<Rightarrow> 'k host \<Rightarrow> rt_err option \<times> 'k host" where
  "installISOPolicyAfterCleanup dir txt env service s =
     (case loadISORuntimeSpec dir env service s of
        (Inl e, s1) \<Rightarrow> retainISOTombstone dir txt service e (snd (markISORuntimeConflict dir (txt e) s1))
      | (Inr spec, s1) \<Rightarrow>
          (case (case RenderISOPolicy (ns_Backend spec) (ns_Policy spec) of
                   Inl e \<Rightarrow> (Some (RenderErr e), s1)
                 | Inr policy \<Rightarrow> on_ext (en_EnsureISOPolicy env policy) s1) of
             (Some e, s2) \<Rightarrow> retainISOTombstone dir txt service e (snd (markISORuntimeConflict dir (txt e) s2))
           | (None, s2) \<Rightarrow> (None, s2)))"

definition cleanISONetworkLocked ::
  "path \<Rightarrow> (rt_err \<Rightarrow> string) \<Rightarrow> 'k iso_env \<Rightarrow> string \<Rightarrow> 'k host \<Rightarrow> rt_err option \<times> 'k host" where
  "cleanISONetworkLocked dir txt env service s =
     (case loadISORuntimeSpec dir env service s of
        (Inl e, s1) \<Rightarrow> (Some e, snd (markISORuntimeConflict dir (txt e) s1))
      | (Inr spec, s1) \<Rightarrow>
          if ns_VM spec
          then (Some VMCleanupRefused, snd (mark_state_in dir service StateQuarantined (txt VMCleanupRefused) s1))
          else case markISORemoveRequested dir service s1 of
                 (Some e, s2) \<Rightarrow> (Some e, s2)
               | (None, s2) \<Rightarrow>
                   or_tombstone dir txt service (on_ext (en_RemoveISOTopology env (ns_Topology spec)) s2) (\<lambda>s3.
                     or_tombstone dir txt service (markISOCleanupVerified dir service s3)
                       (installISOPolicyAfterCleanup dir txt env service)))"

definition CleanISONetwork ::
  "('k \<Rightarrow> string option \<times> 'k) \<Rightarrow> ('k \<Rightarrow> 'k) \<Rightarrow> path \<Rightarrow> (rt_err \<Rightarrow> string) \<Rightarrow> 'k iso_env \<Rightarrow> string \<Rightarrow> 'k host \<Rightarrow> rt_err option \<times> 'k host" where
  "CleanISONetwork acquire unlock dir txt env service =
     withISOOperationLock acquire unlock (cleanISONetworkLocked dir txt env service)"

section \<open>Retirement of components\<close>

type_synonym components = "(string \<times> ISOComponent) list"

record 'k isoRetirementSteps =
  rt_StopProject :: "'k step"
  rt_VerifyContainersAbsent :: "components \<Rightarrow> 'k step"
  rt_VerifyDockerEndpointsAbsent :: "components \<Rightarrow> 'k step"
  rt_VerifyDNetRecordsAbsent :: "components \<Rightarrow> 'k step"
  rt_Reserve :: "'k step"
  rt_Quarantine :: "rt_err \<Rightarrow> 'k step"

definition quarantineISORetirement ::
  "'k isoRetirementSteps \<Rightarrow> string \<Rightarrow> rt_err \<Rightarrow> 'k host \<Rightarrow> rt_err option \<times> 'k host" where
  "quarantineISORetirement steps service cause s =
     (case rt_Quarantine steps cause service s of (e, s1) \<Rightarrow> (join_rt [Some cause, e], s1))"

definition retirement_checks :: "'k isoRetirementSteps \<Rightarrow> components \<Rightarrow> (string \<times> 'k step) list" where
  "retirement_checks steps retired =
     [(''verify retired containers absent'', rt_VerifyContainersAbsent steps retired),
      (''verify retired Docker endpoints absent'', rt_VerifyDockerEndpointsAbsent steps retired),
      (''verify retired dnet records absent'', rt_VerifyDNetRecordsAbsent steps retired)]"

text \<open>The checks stop at the first failure, and before any check once the context is cancelled.\<close>

fun run_checks :: "('k \<Rightarrow> bool) \<Rightarrow> (string \<times> 'k step) list \<Rightarrow> string \<Rightarrow> 'k host \<Rightarrow> rt_err option \<times> 'k host" where
  "run_checks canceled [] service s = (None, s)"
| "run_checks canceled ((name, run) # rest) service s =
     (if canceled (ho_ext s) then (Some (StepErr name Canceled), s)
      else case run service s of
             (Some e, s1) \<Rightarrow> (Some (StepErr name e), s1)
           | (None, s1) \<Rightarrow> run_checks canceled rest service s1)"

definition clear_retired :: "string \<Rightarrow> Data \<Rightarrow> Service option \<Rightarrow> alloc_err + Data \<times> Service option" where
  "clear_retired name d s =
     (case s of
        None \<Rightarrow> Inl NilService
      | Some sv \<Rightarrow>
          (case svc_ISO sv of
             None \<Rightarrow> Inl (NoAllocation name)
           | Some a \<Rightarrow> Inr (d, Some (sv\<lparr>svc_ISO := Some (a\<lparr>iso_RetiredComponents := []\<rparr>)\<rparr>))))"

definition retire_checked ::
  "path \<Rightarrow> ('k \<Rightarrow> bool) \<Rightarrow> 'k isoRetirementSteps \<Rightarrow> string \<Rightarrow> components \<Rightarrow> 'k host \<Rightarrow> rt_err option \<times> 'k host" where
  "retire_checked dir canceled steps service retired s =
     (case wrap_err ''stop ISO project before component retirement'' (rt_StopProject steps service s) of
        (Some e, s1) \<Rightarrow> (Some e, s1)
      | (None, s1) \<Rightarrow> run_checks canceled (retirement_checks steps retired) service s1)"

definition retire_commit ::
  "path \<Rightarrow> 'k isoRetirementSteps \<Rightarrow> string \<Rightarrow> 'k host \<Rightarrow> rt_err option \<times> 'k host" where
  "retire_commit dir steps service s =
     (case wrap_err ''clear verified retired component mappings'' (mutate_service dir service (clear_retired service) s) of
        (Some e, s1) \<Rightarrow> quarantineISORetirement steps service e s1
      | (None, s1) \<Rightarrow>
          (case wrap_err ''re-reserve ISO components'' (rt_Reserve steps service s1) of
             (Some e, s2) \<Rightarrow> quarantineISORetirement steps service e s2
           | (None, s2) \<Rightarrow> (None, s2)))"

definition finalizeISORetirementsWith ::
  "path \<Rightarrow> ('k \<Rightarrow> bool) \<Rightarrow> 'k isoRetirementSteps \<Rightarrow> string \<Rightarrow> 'k host \<Rightarrow> rt_err option \<times> 'k host" where
  "finalizeISORetirementsWith dir canceled steps service s =
     (case db_get dir s of
        (Inl e, s1) \<Rightarrow> (Some (DbErr e), s1)
      | (Inr d, s1) \<Rightarrow>
          (case map_of (Services d) service of
             None \<Rightarrow> (Some (NoISO service), s1)
           | Some None \<Rightarrow> (Some (NilRecord service), s1)
           | Some (Some sv) \<Rightarrow>
               (case svc_ISO sv of
                  None \<Rightarrow> (Some (NoISO service), s1)
                | Some a \<Rightarrow>
                    if iso_RetiredComponents a = [] then (None, s1)
                    else case retire_checked dir canceled steps service (iso_RetiredComponents a) s1 of
                           (Some e, s2) \<Rightarrow> quarantineISORetirement steps service e s2
                         | (None, s2) \<Rightarrow> retire_commit dir steps service s2)))"

text \<open>The steps of the installer, for a compose project with the components of its base file.\<close>

definition verify_retired_dnet :: "path \<Rightarrow> components \<Rightarrow> 'k host \<Rightarrow> rt_err option \<times> 'k host" where
  "verify_retired_dnet dir retired s =
     (case db_get dir s of
        (Inl e, s1) \<Rightarrow> (Some (DbErr e), s1)
      | (Inr d, s1) \<Rightarrow> (verifyDNetAddressesAbsent (DockerNetworks d) (map (\<lambda>(n, c). comp_Address c) retired), s1))"

definition reserve_in ::
  "path \<Rightarrow> isoPoolProbe \<Rightarrow> ('k \<Rightarrow> bool) \<Rightarrow> isoReservationRequest \<Rightarrow> string \<Rightarrow> 'k host \<Rightarrow> rt_err option \<times> 'k host" where
  "reserve_in dir probe canceled req service s =
     (case on_store (reserveISOAllocationExact dir probe (if canceled (ho_ext s) then Some (ProbeErr ''context canceled'') else None) service req) s of
        (Inl e, s1) \<Rightarrow> (Some (DbErr e), s1)
      | (Inr _, s1) \<Rightarrow> (None, s1))"

definition isoConcreteRetirementSteps ::
  "path \<Rightarrow> (rt_err \<Rightarrow> string) \<Rightarrow> 'k iso_env \<Rightarrow> isoPoolProbe \<Rightarrow> ('k \<Rightarrow> bool) \<Rightarrow> string list \<Rightarrow> string list \<Rightarrow> 'k isoRetirementSteps" where
  "isoConcreteRetirementSteps dir txt env probe canceled modes comps =
     \<lparr>rt_StopProject = (\<lambda>n. on_ext (en_StopProjectContainers env n)),
      rt_VerifyContainersAbsent = (\<lambda>_ n. on_ext (en_VerifyProjectAbsent env n)),
      rt_VerifyDockerEndpointsAbsent = (\<lambda>_ n. on_ext (en_VerifyDefaultNetworkAbsent env n)),
      rt_VerifyDNetRecordsAbsent = (\<lambda>retired n. verify_retired_dnet dir retired),
      rt_Reserve = (\<lambda>n. reserve_in dir probe canceled \<lparr>rr_Kind = PayloadCompose, rr_Modes = modes, rr_Components = comps\<rparr> n),
      rt_Quarantine = (\<lambda>cause n. mark_state_in dir n StateQuarantined (txt cause))\<rparr>"

section \<open>Leaving the isolated network\<close>

text \<open>
  The artifacts that describe the network of a service, and those a replacement may bring along.
\<close>

definition ArtifactDockerComposeNetwork :: string where "ArtifactDockerComposeNetwork = ''compose.network''"
definition ArtifactNetNSEnv :: string where "ArtifactNetNSEnv = ''netns.env''"
definition ArtifactNetNSResolv :: string where "ArtifactNetNSResolv = ''resolv.conf''"
definition ArtifactTSEnv :: string where "ArtifactTSEnv = ''tailscale.env''"
definition ArtifactTSBinary :: string where "ArtifactTSBinary = ''tailscaled''"
definition ArtifactTSConfig :: string where "ArtifactTSConfig = ''tailscaled.json''"
definition ArtifactSystemdUnit :: string where "ArtifactSystemdUnit = ''systemd.service''"

definition isoNetworkArtifactNames :: "string list" where
  "isoNetworkArtifactNames =
     [ArtifactDockerComposeNetwork, ArtifactNetNSService, ArtifactNetNSEnv, ArtifactNetNSResolv,
      ArtifactTSService, ArtifactTSEnv, ArtifactTSBinary, ArtifactTSConfig]"

definition isoReplacementArtifactNames :: "string list" where
  "isoReplacementArtifactNames = isoNetworkArtifactNames @ [ArtifactSystemdUnit]"

text \<open>
  The prepared network. \<open>rn_NilSlice\<close> says that a slice of the desired settings is nil rather than empty,
  which \<^verbatim>\<open>reflect.DeepEqual\<close> tells apart from the empty slices of normalised settings.
\<close>

record isoReplacementNetwork =
  rn_Modes :: "string list"
  rn_Desired :: "ServiceNetworkConfig option"
  rn_NilSlice :: bool
  rn_Expected :: "Service option"
  rn_SvcNetwork :: "SvcNetwork option"
  rn_Macvlan :: "MacvlanNetwork option"
  rn_Tailscale :: "TailscaleNetwork option"
  rn_Artifacts :: ArtifactStore

record 'k isoTransitionSteps =
  tr_PrepareReplacement :: "string \<Rightarrow> string list \<Rightarrow> 'k host \<Rightarrow> (rt_err + isoReplacementNetwork) \<times> 'k host"
  tr_StopISO :: "'k step"
  tr_CleanISO :: "'k step"
  tr_VerifyISOAbsent :: "'k step"
  tr_StartReplacement :: "isoReplacementNetwork \<Rightarrow> 'k step"

definition normalizedISOReplacementModes :: "string \<Rightarrow> string list \<Rightarrow> rt_err + string list" where
  "normalizedISOReplacementModes label modes =
     (case NormalizeModes modes of
        Inl e \<Rightarrow> Inl (IsoModesErr e)
      | Inr normalized \<Rightarrow> if modes \<noteq> normalized then Inl (UnnormalizedModes label) else Inr normalized)"

definition validateISOReplacementModeState :: "isoReplacementNetwork \<Rightarrow> rt_err option" where
  "validateISOReplacementModeState p =
     (if (''svc'' \<in> set (rn_Modes p)) \<noteq> (rn_SvcNetwork p \<noteq> None) then Some (ModeStateMismatch ''svc'')
      else if (''lan'' \<in> set (rn_Modes p)) \<noteq> (rn_Macvlan p \<noteq> None) then Some (ModeStateMismatch ''lan'')
      else if (''ts'' \<in> set (rn_Modes p)) \<noteq> (rn_Tailscale p \<noteq> None) then Some (ModeStateMismatch ''ts'')
      else None)"

fun validateISOReplacementArtifacts :: "ArtifactStore \<Rightarrow> rt_err option" where
  "validateISOReplacementArtifacts [] = None"
| "validateISOReplacementArtifacts ((name, _) # rest) =
     (if name \<notin> set isoReplacementArtifactNames then Some (ForeignArtifact name) else validateISOReplacementArtifacts rest)"

definition validate_prepared_desired ::
  "(string \<Rightarrow> string option) \<Rightarrow> string list \<Rightarrow> isoReplacementNetwork \<Rightarrow> rt_err option" where
  "validate_prepared_desired checkTag normalizedDesired p =
     (case rn_Desired p of
        None \<Rightarrow> None
      | Some desired \<Rightarrow>
          (case normalizeServiceNetworkConfig checkTag desired of
             Inl e \<Rightarrow> Some (StepErr ''normalize prepared desired network'' DesiredMismatch)
           | Inr c \<Rightarrow>
               if rn_NilSlice p \<or> c \<noteq> desired \<or> snc_Modes c \<noteq> normalizedDesired then Some DesiredMismatch else None))"

definition validateISOReplacementNetwork ::
  "(string \<Rightarrow> string option) \<Rightarrow> string list \<Rightarrow> isoReplacementNetwork \<Rightarrow> rt_err option" where
  "validateISOReplacementNetwork checkTag desired p =
     (case normalizedISOReplacementModes ''requested'' desired of
        Inl e \<Rightarrow> Some e
      | Inr normalizedDesired \<Rightarrow>
          (case normalizedISOReplacementModes ''prepared'' (rn_Modes p) of
             Inl e \<Rightarrow> Some e
           | Inr _ \<Rightarrow>
               if rn_Modes p \<noteq> normalizedDesired then Some ModesMismatch
               else case validate_prepared_desired checkTag normalizedDesired p of
                      Some e \<Rightarrow> Some e
                    | None \<Rightarrow>
                        if ''iso'' \<in> set (rn_Modes p) then Some ReplacementISO
                        else case validateISOReplacementModeState p of
                               Some e \<Rightarrow> Some e
                             | None \<Rightarrow> validateISOReplacementArtifacts (rn_Artifacts p)))"

text \<open>
  Two records are equal when they are marshalled to the same JSON: maps are written with sorted keys.
\<close>

definition by_key :: "(string \<times> 'v) list \<Rightarrow> (string \<times> 'v) list" where
  "by_key m = sort_key fst m"

definition marshalled_iso :: "ISOAllocation \<Rightarrow> ISOAllocation" where
  "marshalled_iso a = a\<lparr>iso_Components := by_key (iso_Components a), iso_RetiredComponents := by_key (iso_RetiredComponents a)\<rparr>"

definition marshalled :: "Service \<Rightarrow> Service" where
  "marshalled sv = sv\<lparr>
     svc_Sandbox := map_option (\<lambda>st. st\<lparr>ss_Refs := by_key (ss_Refs st)\<rparr>) (svc_Sandbox sv),
     svc_Artifacts := by_key (map (\<lambda>(n, a). (n, map_option (\<lambda>a. a\<lparr>art_Refs := by_key (art_Refs a)\<rparr>) a)) (svc_Artifacts sv)),
     svc_ISO := map_option marshalled_iso (svc_ISO sv)\<rparr>"

definition serviceNetworkRecordsEqual :: "Service option \<Rightarrow> Service option \<Rightarrow> bool" where
  "serviceNetworkRecordsEqual left right \<longleftrightarrow> map_option marshalled left = map_option marshalled right"

definition mergeISOReplacementNetworkArtifacts :: "ArtifactStore \<Rightarrow> ArtifactStore \<Rightarrow> ArtifactStore" where
  "mergeISOReplacementNetworkArtifacts existing replacement =
     foldl (\<lambda>m (name, a). AList.update name a m)
       (filter (\<lambda>(name, _). name \<notin> set isoNetworkArtifactNames) existing) replacement"

definition replace_network :: "string \<Rightarrow> isoReplacementNetwork \<Rightarrow> Data \<Rightarrow> Service option \<Rightarrow> alloc_err + Data \<times> Service option" where
  "replace_network name p d s =
     (if rn_Expected p \<noteq> None \<and> \<not> serviceNetworkRecordsEqual s (rn_Expected p) then Inl (ServiceChanged name)
      else case s of
             None \<Rightarrow> Inl NilService
           | Some sv \<Rightarrow>
               if svc_ISO sv = None then Inl (NoAllocation name)
               else Inr (d, Some (sv\<lparr>
                      svc_SvcNetwork := rn_SvcNetwork p, svc_Macvlan := rn_Macvlan p, svc_TSNet := rn_Tailscale p,
                      svc_Artifacts := mergeISOReplacementNetworkArtifacts (svc_Artifacts sv) (rn_Artifacts p),
                      svc_Network := (if rn_Desired p = None then svc_Network sv else rn_Desired p),
                      svc_ISO := None\<rparr>)))"

definition commitReplacementNetwork :: "path \<Rightarrow> string \<Rightarrow> isoReplacementNetwork \<Rightarrow> 'k host \<Rightarrow> rt_err option \<times> 'k host" where
  "commitReplacementNetwork dir service p = mutate_service dir service (replace_network service p)"

definition retainISOTransitionTombstone ::
  "path \<Rightarrow> (rt_err \<Rightarrow> string) \<Rightarrow> string \<Rightarrow> rt_err \<Rightarrow> 'k host \<Rightarrow> rt_err option \<times> 'k host" where
  "retainISOTransitionTombstone dir txt service cause s =
     (case mark_state_in dir service StateTombstoned (txt cause) s of (e, s1) \<Rightarrow> (join_rt [Some cause, e], s1))"

text \<open>Stopping, cleaning and verifying, in this order; the check is not started once the context is cancelled.\<close>

definition isolation_gone ::
  "('k \<Rightarrow> bool) \<Rightarrow> 'k isoTransitionSteps \<Rightarrow> string \<Rightarrow> 'k host \<Rightarrow> rt_err option \<times> 'k host" where
  "isolation_gone canceled steps service s =
     (case wrap_err ''stop ISO service before transition'' (tr_StopISO steps service s) of
        (Some e, s1) \<Rightarrow> (Some e, s1)
      | (None, s1) \<Rightarrow>
          (case wrap_err ''clean ISO service before transition'' (tr_CleanISO steps service s1) of
             (Some e, s2) \<Rightarrow> (Some e, s2)
           | (None, s2) \<Rightarrow>
               if canceled (ho_ext s2) then (Some (StepErr ''verify ISO absence before transition'' Canceled), s2)
               else wrap_err ''verify ISO absence before transition'' (tr_VerifyISOAbsent steps service s2)))"

definition start_replacement ::
  "('k \<Rightarrow> bool) \<Rightarrow> 'k isoTransitionSteps \<Rightarrow> string \<Rightarrow> isoReplacementNetwork \<Rightarrow> 'k host \<Rightarrow> rt_err option \<times> 'k host" where
  "start_replacement canceled steps service p s =
     (if canceled (ho_ext s) then (Some (StepErr ''start replacement network'' Canceled), s)
      else wrap_err ''start replacement network'' (tr_StartReplacement steps p service s))"

definition transition_prepared ::
  "path \<Rightarrow> (rt_err \<Rightarrow> string) \<Rightarrow> ('k \<Rightarrow> bool) \<Rightarrow> 'k isoTransitionSteps \<Rightarrow> string \<Rightarrow> isoReplacementNetwork \<Rightarrow> 'k host \<Rightarrow>
   rt_err option \<times> 'k host" where
  "transition_prepared dir txt canceled steps service p s =
     (case isolation_gone canceled steps service s of
        (Some e, s1) \<Rightarrow> retainISOTransitionTombstone dir txt service e s1
      | (None, s1) \<Rightarrow>
          (case wrap_err ''commit replacement network'' (commitReplacementNetwork dir service p s1) of
             (Some e, s2) \<Rightarrow> retainISOTransitionTombstone dir txt service e s2
           | (None, s2) \<Rightarrow> start_replacement canceled steps service p s2))"

definition transitionFromISOWith ::
  "path \<Rightarrow> (rt_err \<Rightarrow> string) \<Rightarrow> ('k \<Rightarrow> bool) \<Rightarrow> (string \<Rightarrow> string option) \<Rightarrow> 'k isoTransitionSteps \<Rightarrow> string \<Rightarrow> string list \<Rightarrow> 'k host \<Rightarrow>
   rt_err option \<times> 'k host" where
  "transitionFromISOWith dir txt canceled checkTag steps service desired s =
     (case tr_PrepareReplacement steps service desired s of
        (Inl e, s1) \<Rightarrow> (Some (StepErr ''prepare replacement network'' e), s1)
      | (Inr p, s1) \<Rightarrow>
          (case validateISOReplacementNetwork checkTag desired p of
             Some e \<Rightarrow> (Some (StepErr ''validate prepared replacement network'' e), s1)
           | None \<Rightarrow> transition_prepared dir txt canceled steps service p s1))"

definition transitionFromISO ::
  "('k \<Rightarrow> string option \<times> 'k) \<Rightarrow> ('k \<Rightarrow> 'k) \<Rightarrow> path \<Rightarrow> (rt_err \<Rightarrow> string) \<Rightarrow> ('k \<Rightarrow> bool) \<Rightarrow> (string \<Rightarrow> string option) \<Rightarrow> 'k isoTransitionSteps \<Rightarrow>
   string \<Rightarrow> string list \<Rightarrow> 'k host \<Rightarrow> rt_err option \<times> 'k host" where
  "transitionFromISO acquire unlock dir txt canceled checkTag steps service desired =
     withISOOperationLock acquire unlock (transitionFromISOWith dir txt canceled checkTag steps service desired)"

text \<open>A copy of a service starts without the isolated network of the original.\<close>

definition clearISOCloneState :: "Service option \<Rightarrow> Service option" where
  "clearISOCloneState =
     map_option (\<lambda>sv. sv\<lparr>svc_ISO := None, svc_Artifacts := filter (\<lambda>(name, _). name \<notin> set isoNetworkArtifactNames) (svc_Artifacts sv)\<rparr>)"

text \<open>
  The steps of the file installer. Staging and installing the new generation are arguments; they run
  after the replacement is committed.
\<close>

record 'k fileInstallerISOTransition =
  ft_prepared :: isoReplacementNetwork
  ft_native :: bool
  ft_topology :: ISOTopologySpec
  ft_StageOnly :: bool
  ft_stageInstallPlan :: "'k step"
  ft_installStagedService :: "'k step"

definition service_in :: "path \<Rightarrow> string \<Rightarrow> 'k host \<Rightarrow> (rt_err + Service) \<times> 'k host" where
  "service_in dir service s =
     (case db_get dir s of
        (Inl e, s1) \<Rightarrow> (Inl (DbErr e), s1)
      | (Inr d, s1) \<Rightarrow>
          (case map_of (Services d) service of
             None \<Rightarrow> (Inl ServiceNotFound, s1)
           | Some None \<Rightarrow> (Inl (NilRecord service), s1)
           | Some (Some sv) \<Rightarrow> (Inr sv, s1)))"

fun join_steps :: "('k host \<Rightarrow> rt_err option \<times> 'k host) list \<Rightarrow> rt_err option list \<Rightarrow> 'k host \<Rightarrow> rt_err option \<times> 'k host" where
  "join_steps [] errs s = (join_rt errs, s)"
| "join_steps (f # fs) errs s = (case f s of (e, s1) \<Rightarrow> join_steps fs (errs @ [e]) s1)"

definition stop_isolated :: "path \<Rightarrow> 'k iso_env \<Rightarrow> bool \<Rightarrow> 'k step" where
  "stop_isolated dir env native service s =
     (case service_in dir service s of
        (Inl e, s1) \<Rightarrow> (Some e, s1)
      | (Inr sv, s1) \<Rightarrow>
          if native then stopAndVerifyISONativeUnits env sv s1
          else join_steps [on_ext (en_StopProjectContainers env service), stopAndVerifyISOAuxiliaryUnits env sv] [] s1)"

definition verify_isolation_absent :: "path \<Rightarrow> 'k iso_env \<Rightarrow> bool \<Rightarrow> ISOTopologySpec \<Rightarrow> 'k step" where
  "verify_isolation_absent dir env native topology service =
     join_steps
       ([on_ext (en_VerifyISOTopologyAbsent env topology)] @
        (if native then [] else [on_ext (en_VerifyProjectAbsent env service), on_ext (en_VerifyDefaultNetworkAbsent env service)]) @
        [verifyISOAllocationDNetAbsent dir (top_Allocation topology)]) []"

definition start_staged :: "path \<Rightarrow> 'k iso_env \<Rightarrow> 'k fileInstallerISOTransition \<Rightarrow> 'k step" where
  "start_staged dir env t service s =
     (case currentGlobalISOPolicy dir env s of
        (Inl e, s1) \<Rightarrow> (Some e, s1)
      | (Inr present, s1) \<Rightarrow>
          (case (case present of
                   None \<Rightarrow> (None, s1)
                 | Some rules \<Rightarrow>
                     (case on_ext (en_EnsureISOPolicy env rules) s1 of
                        (Some e, s2) \<Rightarrow> (Some e, s2)
                      | (None, s2) \<Rightarrow> on_ext (en_VerifyISOPolicy env rules) s2)) of
             (Some e, s2) \<Rightarrow> (Some e, s2)
           | (None, s2) \<Rightarrow>
               (case ft_stageInstallPlan t service s2 of
                  (Some e, s3) \<Rightarrow> (Some e, s3)
                | (None, s3) \<Rightarrow> if ft_StageOnly t then (None, s3) else ft_installStagedService t service s3)))"

definition fileInstallerTransitionSteps :: "path \<Rightarrow> 'k iso_env \<Rightarrow> 'k fileInstallerISOTransition \<Rightarrow> 'k isoTransitionSteps" where
  "fileInstallerTransitionSteps dir env t =
     \<lparr>tr_PrepareReplacement = (\<lambda>_ _ s. (Inr (ft_prepared t), s)),
      tr_StopISO = stop_isolated dir env (ft_native t),
      tr_CleanISO = (\<lambda>_. on_ext (en_RemoveISOTopology env (ft_topology t))),
      tr_VerifyISOAbsent = verify_isolation_absent dir env (ft_native t) (ft_topology t),
      tr_StartReplacement = (\<lambda>_. start_staged dir env t)\<rparr>"

section \<open>The start gate and the data\<close>

lemma alloc_map_services:
  "isoAllocationInData (d\<lparr>Services := map (\<lambda>(n, s). (n, map_option (update_allocation f) s)) (Services d)\<rparr>) m =
     map_option f (isoAllocationInData d m)"
proof -
  have "map_of (map (\<lambda>(n, s). (n, map_option (update_allocation f) s)) xs) m =
      map_option (map_option (update_allocation f)) (map_of xs m)" for xs :: "(string \<times> Service option) list"
    by (induction xs) auto
  then show ?thesis by (auto simp: isoAllocationInData_def update_allocation_def split: option.splits)
qed

lemma alloc_map_entry:
  "isoAllocationInData (d\<lparr>Services := AList.map_entry n (map_option (update_allocation f)) (Services d)\<rparr>) m =
     (if m = n then map_option f (isoAllocationInData d m) else isoAllocationInData d m)"
  by (auto simp: isoAllocationInData_def update_allocation_def AList.map_of_map_entry split: option.splits)

lemma alloc_pool [simp]: "isoAllocationInData (d\<lparr>data_ISOPool := p, Services := ss\<rparr>) m = isoAllocationInData (d\<lparr>Services := ss\<rparr>) m"
  by (simp add: isoAllocationInData_def)

lemma conflict_alloc:
  "mark_conflict cause d = Inr d' \<Longrightarrow>
   isoAllocationInData d' m = map_option (\<lambda>a. if cleanup_done a then a else a\<lparr>iso_State := StateQuarantined, iso_LastError := cause\<rparr>) (isoAllocationInData d m)"
  unfolding mark_conflict_def by (auto simp: alloc_map_services simp del: alloc_pool; simp add: alloc_map_services)

lemma ready_alloc:
  assumes "mark_ready n d = Inr d'"
  obtains a where "isoAllocationInData d n = Some a" "\<not> iso_RemoveRequested a" "\<not> iso_CleanupVerified a"
    "iso_State a \<notin> {StateRemoving, StateTombstoned, StateQuarantined}"
    "\<And>m. isoAllocationInData d' m = (if m = n then Some (a\<lparr>iso_State := StateReady, iso_LastError := []\<rparr>) else isoAllocationInData d m)"
  using assms that by (auto simp: mark_ready_def alloc_map_entry split: option.splits if_splits)

lemma conflict_version: "keeps_version (mark_conflict cause)"
  by (auto simp: keeps_version_def mark_conflict_def)

lemma ready_version: "keeps_version (mark_ready n)"
  by (auto simp: keeps_version_def mark_ready_def split: option.splits if_splits)

text \<open>
  What may happen to the allocations: their addresses stay, and none becomes ready that was not, except
  that of the service the gate was passed for.
\<close>

definition gated :: "string \<Rightarrow> bool \<Rightarrow> Data \<Rightarrow> 'k host \<Rightarrow> bool" where
  "gated n passed d s \<longleftrightarrow> fresh s \<and> (\<exists>d'. view s = Some d' \<and>
     (\<forall>m. map_option frozen (isoAllocationInData d' m) = map_option frozen (isoAllocationInData d m)) \<and>
     (\<forall>m a. isoAllocationInData d' m = Some a \<longrightarrow> iso_State a = StateReady \<longrightarrow> isoAllocationInData d m = Some a \<or> m = n \<and> passed))"

lemma states_differ [simp]: "StateQuarantined \<noteq> StateReady" "StateTombstoned \<noteq> StateReady" "StateRemoving \<noteq> StateReady"
  by (simp_all add: StateQuarantined_def StateTombstoned_def StateRemoving_def StateReady_def)

lemma fail_gated:
  assumes "gated n passed d s" "failISORuntime dir txt err s = (e, s')"
  shows "gated n passed d s' \<and> e = Some err"
proof -
  obtain e1 s1 where m: "mutate_data dir (mark_conflict (txt err)) s = (e1, s1)" by force
  then have r: "e = Some err" "s' = s1" using assms(2) by (auto simp: failISORuntime_def markISORuntimeConflict_def)
  obtain d1 where d1: "fresh s" "view s = Some d1"
    "\<And>m. map_option frozen (isoAllocationInData d1 m) = map_option frozen (isoAllocationInData d m)"
    "\<And>m a. isoAllocationInData d1 m = Some a \<Longrightarrow> iso_State a = StateReady \<Longrightarrow> isoAllocationInData d m = Some a \<or> m = n \<and> passed"
    using assms(1) unfolding gated_def by blast
  have "outcome_of (mark_conflict (txt err)) s e1 s1" by (rule mutate_data_outcome [OF m conflict_version d1(1)])
  then consider "fresh s1" "view s1 = view s" | d2 where "fresh s1" "mark_conflict (txt err) d1 = Inr d2" "view s1 = Some d2"
    using d1(2) by (auto simp: outcome_of_def)
  then show ?thesis
  proof cases
    case 1
    then show ?thesis using assms(1) r by (simp add: gated_def)
  next
    case (2 d2)
    note c = conflict_alloc [OF 2(2)]
    have "map_option frozen (isoAllocationInData d2 m) = map_option frozen (isoAllocationInData d m)" for m
      unfolding d1(3) [symmetric] c by (cases "isoAllocationInData d1 m") auto
    moreover have "isoAllocationInData d m = Some a \<or> m = n \<and> passed"
      if ready: "isoAllocationInData d2 m = Some a" "iso_State a = StateReady" for m a
    proof -
      obtain b where b: "isoAllocationInData d1 m = Some b"
        "a = (if cleanup_done b then b else b\<lparr>iso_State := StateQuarantined, iso_LastError := txt err\<rparr>)"
        using ready(1) c by auto
      then have "a = b" using ready(2) by (auto split: if_splits)
      then show ?thesis using d1(4) b(1) ready(2) by blast
    qed
    ultimately show ?thesis using 2 r by (auto simp: gated_def)
  qed
qed

lemma gated_refl: "fresh s \<Longrightarrow> view s = Some d \<Longrightarrow> gated n passed d s"
  by (simp add: gated_def)

lemma gated_mono: "gated n False d s \<Longrightarrow> gated n passed d s"
  unfolding gated_def by blast

lemma quiet_siblings: "quiet (verifyISORuntimeSiblings env n ts)"
proof (induction ts)
  case Nil
  then show ?case by (simp add: quiet_def)
next
  case (Cons t ts)
  obtain name spec where t: "t = (name, spec)" by force
  have "quiet (\<lambda>s. case on_ext (en_EnsureISOTopology env spec) s of (Some e, s1) \<Rightarrow> (Some (StepErr name e), s1)
      | (None, s1) \<Rightarrow> (case on_ext (en_VerifyISOTopology env spec) s1 of (Some e, s2) \<Rightarrow> (Some e, s2)
          | (None, s2) \<Rightarrow> verifyISORuntimeSiblings env n ts s2))"
    by (intro quiet_seq quiet_ext Cons)
  then show ?case using Cons by (cases "name = n") (simp_all add: t)
qed

lemma quiet_reconcile: "quiet (reconcileISONetwork env n spec)"
proof (cases "RenderISOPolicy (ns_Backend spec) (ns_Policy spec)")
  case (Inl e)
  then have "reconcileISONetwork env n spec = (\<lambda>s. (Some (RenderErr e), s))" by (simp add: fun_eq_iff reconcileISONetwork_def)
  then show ?thesis by (simp add: quiet_return)
next
  case (Inr policy)
  have eq: "reconcileISONetwork env n spec =
      (\<lambda>s. case on_ext (en_EnsureISOPolicy env policy) s of (Some e, s1) \<Rightarrow> (Some e, s1)
        | (None, s1) \<Rightarrow> (case on_ext (en_EnsureISOTopology env (ns_Topology spec)) s1 of (Some e, s2) \<Rightarrow> (Some e, s2)
            | (None, s2) \<Rightarrow> verifyISORuntimeSiblings env n (ns_Topologies spec) s2))"
    by (rule ext) (simp add: reconcileISONetwork_def Inr)
  show ?thesis unfolding eq by (intro quiet_seq quiet_ext quiet_siblings)
qed

lemma quiet_gated: "quiet f \<Longrightarrow> gated n passed d s \<Longrightarrow> f s = (r, s') \<Longrightarrow> gated n passed d s'"
  unfolding quiet_def gated_def by (metis snd_conv)

text \<open>The gate of a service: its runtime specification exists and the network was brought up to it.\<close>

definition gate_passed :: "path \<Rightarrow> 'k iso_env \<Rightarrow> string \<Rightarrow> Data \<Rightarrow> 'k host \<Rightarrow> bool" where
  "gate_passed dir env n d s \<longleftrightarrow>
     (\<exists>spec. validateISORuntimeState d = Inr () \<and> isoRuntimeSpec (en_backend env (ho_ext (snd (db_get dir s)))) d n = Inr spec \<and>
        fst (reconcileISONetwork env n spec (snd (db_get dir s))) = None)"

lemma boundary_gated:
  assumes "ensureISONetworkBoundaryLocked dir txt env n s = (e, s')" "fresh s" "view s = Some d"
  shows "gated n False d s' \<and> (e = None \<longrightarrow> gate_passed dir env n d s \<and> view s' = Some d)"
proof -
  obtain g s1 where g: "db_get dir s = (g, s1)" by force
  note v = db_get_view [OF g assms(2)]
  have h: "gated n False d s1" using v assms(3) by (simp add: gated_refl)
  show ?thesis
  proof (cases g)
    case (Inl x)
    then show ?thesis using assms(1) g h by (auto simp: ensureISONetworkBoundaryLocked_def)
  next
    case (Inr d1)
    with v assms(3) have "d1 = d" by simp
    show ?thesis
    proof (cases "\<exists>spec. validateISORuntimeState d = Inr () \<and> isoRuntimeSpec (en_backend env (ho_ext s1)) d n = Inr spec")
      case False
      then obtain err where "failISORuntime dir txt err s1 = (e, s')"
        using assms(1) g Inr \<open>d1 = d\<close> by (auto simp: ensureISONetworkBoundaryLocked_def split: sum.splits)
      from fail_gated [OF h this] show ?thesis by simp
    next
      case True
      then obtain spec where spec: "validateISORuntimeState d = Inr ()" "isoRuntimeSpec (en_backend env (ho_ext s1)) d n = Inr spec" by blast
      obtain r s2 where r: "reconcileISONetwork env n spec s1 = (r, s2)" by force
      have h2: "gated n False d s2" by (rule quiet_gated [OF quiet_reconcile h r])
      have v2: "view s2 = Some d" using quiet_reconcile [of env n spec] v assms(3) r unfolding quiet_def by (metis snd_conv)
      show ?thesis
      proof (cases r)
        case None
        then have "e = None" "s' = s2" using assms(1) g Inr \<open>d1 = d\<close> spec r by (auto simp: ensureISONetworkBoundaryLocked_def)
        then show ?thesis using h2 v2 spec r None g by (auto simp: gate_passed_def)
      next
        case (Some err)
        then have "failISORuntime dir txt err s2 = (e, s')"
          using assms(1) g Inr \<open>d1 = d\<close> spec r by (simp add: ensureISONetworkBoundaryLocked_def)
        from fail_gated [OF h2 this] show ?thesis by simp
      qed
    qed
  qed
qed

lemma ready_gated:
  assumes "markISOReady dir n s = (e, s')" "fresh s" "view s = Some d"
  shows "gated n True d s' \<and>
    (e = None \<longrightarrow> (\<exists>d' a. view s' = Some d' \<and> isoAllocationInData d' n = Some a \<and> iso_State a = StateReady \<and> \<not> iso_RemoveRequested a))"
proof -
  have "outcome_of (mark_ready n) s e s'"
    by (rule mutate_data_outcome [OF _ ready_version assms(2)]) (use assms(1) in \<open>simp add: markISOReady_def\<close>)
  then consider "fresh s'" "e \<noteq> None" "view s' = view s" | d' where "fresh s'" "mark_ready n d = Inr d'" "view s' = Some d'"
    using assms(3) by (auto simp: outcome_of_def)
  then show ?thesis
  proof cases
    case 1
    then show ?thesis using gated_refl [of s' d n True] assms(3) by auto
  next
    case (2 d')
    obtain a where a: "isoAllocationInData d n = Some a" "\<not> iso_RemoveRequested a"
      "\<And>m. isoAllocationInData d' m = (if m = n then Some (a\<lparr>iso_State := StateReady, iso_LastError := []\<rparr>) else isoAllocationInData d m)"
      using ready_alloc [OF 2(2)] by metis
    then show ?thesis using 2 by (auto simp: gated_def)
  qed
qed

lemma gated_trans: "gated n passed d s \<Longrightarrow> view s = Some d1 \<Longrightarrow> gated n True d1 s' \<Longrightarrow> gated n True d s'"
  unfolding gated_def by (metis option.inject)

section \<open>Every operation keeps the networks apart\<close>

lemma alloc_of_record: "isoAllocationInData d n = Some a \<longleftrightarrow> (\<exists>s. map_of (Services d) n = Some s \<and> iso_of s = Some a)"
  by (auto simp: isoAllocationInData_def iso_of_def split: option.splits)

lemma alloc_in_isos:
  "distinct (map fst (Services d)) \<Longrightarrow> (n, a) \<in> set (service_isos (Services d)) \<longleftrightarrow> isoAllocationInData d n = Some a"
  unfolding alloc_of_record by (rule service_isos_lookup)

lemma frozen_addresses:
  assumes "frozen a = frozen b"
  shows "iso_Link a = iso_Link b" "iso_Project a = iso_Project b" "iso_HostIP a = iso_HostIP b" "iso_PeerIP a = iso_PeerIP b"
    "iso_Gateway a = iso_Gateway b" "iso_comps a = iso_comps b" "iso_RetiredComponents a = iso_RetiredComponents b"
  using arg_cong [OF assms, of iso_RetiredComponents] arg_cong [OF assms, of iso_Link] arg_cong [OF assms, of iso_Project] arg_cong [OF assms, of iso_HostIP]
    arg_cong [OF assms, of iso_PeerIP] arg_cong [OF assms, of iso_Gateway] arg_cong [OF assms, of iso_comps]
  by (simp_all add: frozen_def iso_comps_def)

lemma iso_ok_relabel:
  assumes "iso_ok d" "map fst (Services d') = map fst (Services d)"
    and "map_option pool_Prefix (data_ISOPool d') = map_option pool_Prefix (data_ISOPool d)"
    and frz: "\<And>n. map_option frozen (isoAllocationInData d' n) = map_option frozen (isoAllocationInData d n)"
  shows "iso_ok d'"
proof -
  have dist: "distinct (map fst (Services d))" "distinct (map fst (Services d'))"
    using iso_ok_distinct [OF assms(1)] assms(2) by simp_all
  have mem: "\<exists>b. (n, b) \<in> set (service_isos (Services d)) \<and> frozen a = frozen b" if "(n, a) \<in> set (service_isos (Services d'))" for n a
    using that frz [of n] unfolding alloc_in_isos [OF dist(1)] alloc_in_isos [OF dist(2)]
    by (cases "isoAllocationInData d n") auto
  show ?thesis
  proof (cases "data_ISOPool d")
    case None
    then have "service_isos (Services d) = []" using assms(1) by (simp add: iso_ok_def)
    then have "x \<notin> set (service_isos (Services d'))" for x using mem by (cases x) auto
    then have "service_isos (Services d') = []" by (metis list.set_intros(1) neq_Nil_conv)
    then show ?thesis using None assms(3) dist by (simp add: iso_ok_def)
  next
    case (Some pool)
    then obtain l where l: "NewLayout (pool_Prefix pool) = Inr l" "isos_ok l (Services d)" using assms(1) by (auto simp: iso_ok_def)
    have "alloc_ok l a" if "(n, a) \<in> set (service_isos (Services d'))" for n a
      using mem [OF that] isos_okD [OF l(2)] alloc_ok_cong frozen_addresses by metis
    moreover have "apart a b" if "(n, a) \<in> set (service_isos (Services d'))" "(m, b) \<in> set (service_isos (Services d'))" "n \<noteq> m" for n m a b
      using mem [OF that(1)] mem [OF that(2)] isos_ok_apart [OF l(2)] that(3) frozen_addresses(1,2) unfolding apart_def by metis
    ultimately have "isos_ok l (Services d')" using dist by (auto simp: isos_ok_def)
    then show ?thesis using Some assms(3) l(1) by (auto simp: iso_ok_def)
  qed
qed

lemma update_keys: "map_of xs k = Some v \<Longrightarrow> map fst (AList.update k w xs) = map fst xs"
  by (induction xs) (auto split: if_splits)

lemma relabel_service:
  assumes "iso_ok d" "map_of (Services d) n = Some s" "map_option frozen (iso_of s') = map_option frozen (iso_of s)"
  shows "iso_ok (d\<lparr>Services := AList.update n s' (Services d)\<rparr>)"
proof (rule iso_ok_relabel [OF assms(1)])
  show "map_option frozen (isoAllocationInData (d\<lparr>Services := AList.update n s' (Services d)\<rparr>) m) = map_option frozen (isoAllocationInData d m)" for m
    using assms(2,3) by (auto simp: isoAllocationInData_def map_of_update iso_of_def split: option.splits)
qed (simp_all add: update_keys [OF assms(2)])

lemma lifecycle_keeps: "lifecycle_change P f \<Longrightarrow> keeps_service n f"
  unfolding keeps_service_def
proof (intro allI impI)
  fix d s d' s' assume f: "lifecycle_change P f" "iso_ok d" "map_of (Services d) n = Some s" "f d s = Inr (d', s')"
  then obtain sv a a' where "d' = d" "s = Some sv" "svc_ISO sv = Some a" "s' = Some (sv\<lparr>svc_ISO := Some a'\<rparr>)" "frozen a' = frozen a"
    unfolding lifecycle_change_def by metis
  then show "d' = d \<and> iso_ok (d\<lparr>Services := AList.update n s' (Services d)\<rparr>)"
    using relabel_service [OF f(2,3)] by simp
qed

lemma stopped_keeps: "keeps_service n mark_stopped"
proof -
  have "map_option frozen (svc_ISO (update_allocation (\<lambda>a. if iso_RemoveRequested a then a else a\<lparr>iso_State := StateStopped, iso_LastError := []\<rparr>) sv)) =
      map_option frozen (svc_ISO sv)" for sv
    by (cases "svc_ISO sv") (auto simp: update_allocation_def)
  then show ?thesis
    by (auto simp: keeps_service_def mark_stopped_def relabel_service split: option.splits)
qed

lemma clear_retired_keeps: "keeps_service n (clear_retired n)"
  unfolding keeps_service_def
proof (intro allI impI)
  fix d s d' s'
  assume ok: "iso_ok d" "map_of (Services d) n = Some s" and m: "clear_retired n d s = Inr (d', s')"
  from m obtain sv a where sv: "s = Some sv" "svc_ISO sv = Some a" "d' = d" "s' = Some (sv\<lparr>svc_ISO := Some (a\<lparr>iso_RetiredComponents := []\<rparr>)\<rparr>)"
    by (auto simp: clear_retired_def split: option.splits)
  obtain l where l: "isoLayoutForPool (data_ISOPool d) = Inr l"
    by (rule iso_ok_layout [OF ok(1) _ sv(2)]) (use ok(2) sv(1) in simp)
  have "iso_ok (d\<lparr>Services := AList.update n (Some (sv\<lparr>svc_ISO := Some (a\<lparr>iso_RetiredComponents := []\<rparr>)\<rparr>)) (Services d)\<rparr>)"
    by (rule iso_ok_same_alloc [OF ok(1) _ sv(2) _ _ _ l])
      (use ok(2) sv(1) in \<open>auto simp: alloc_ok_def iso_comps_def\<close>)
  with sv show "d' = d \<and> iso_ok (d\<lparr>Services := AList.update n s' (Services d)\<rparr>)" by simp
qed

lemma replace_keeps: "keeps_service n (replace_network n p)"
  by (auto simp: keeps_service_def replace_network_def iso_ok_drop split: option.splits if_splits)

lemma map_entry_keys: "map fst (AList.map_entry k f xs) = map fst xs"
  by (induction xs) auto

lemma ready_keeps: "iso_ok d \<Longrightarrow> mark_ready n d = Inr d' \<Longrightarrow> iso_ok d'"
proof -
  assume d: "iso_ok d" and m: "mark_ready n d = Inr d'"
  obtain a where a: "isoAllocationInData d n = Some a"
    "\<And>m. isoAllocationInData d' m = (if m = n then Some (a\<lparr>iso_State := StateReady, iso_LastError := []\<rparr>) else isoAllocationInData d m)"
    using ready_alloc [OF m] by metis
  show "iso_ok d'"
  proof (rule iso_ok_relabel [OF d])
    show "map fst (Services d') = map fst (Services d)" "map_option pool_Prefix (data_ISOPool d') = map_option pool_Prefix (data_ISOPool d)"
      using m by (auto simp: mark_ready_def map_entry_keys split: option.splits if_splits)
  qed (use a in auto)
qed

lemma conflict_keeps: "iso_ok d \<Longrightarrow> mark_conflict cause d = Inr d' \<Longrightarrow> iso_ok d'"
proof -
  assume d: "iso_ok d" and m: "mark_conflict cause d = Inr d'"
  show "iso_ok d'"
  proof (rule iso_ok_relabel [OF d])
    show "map fst (Services d') = map fst (Services d)" "map_option pool_Prefix (data_ISOPool d') = map_option pool_Prefix (data_ISOPool d)"
      using m by (auto simp: mark_conflict_def comp_def case_prod_unfold option.map_comp)
    show "map_option frozen (isoAllocationInData d' n) = map_option frozen (isoAllocationInData d n)" for n
      unfolding conflict_alloc [OF m] by (cases "isoAllocationInData d n") auto
  qed
qed

lemma delete_keeps: "iso_ok d \<Longrightarrow> iso_ok (d\<lparr>Services := AList.delete n (Services d)\<rparr>)"
proof -
  assume d: "iso_ok d"
  have dist: "distinct (map fst (AList.delete n (Services d)))" using iso_ok_distinct [OF d] by (rule distinct_delete)
  have sub: "set (service_isos (AList.delete n (Services d))) \<subseteq> set (service_isos (Services d))"
    by (auto simp: service_isos_iff AList.delete_eq)
  show ?thesis
  proof (cases "data_ISOPool d")
    case None
    then show ?thesis using d dist sub by (auto simp: iso_ok_def)
  next
    case (Some pool)
    then obtain l where l: "NewLayout (pool_Prefix pool) = Inr l" "isos_ok l (Services d)" using d by (auto simp: iso_ok_def)
    have "isos_ok l (AList.delete n (Services d))" unfolding isos_ok_def using dist sub l(2) [unfolded isos_ok_def] by blast
    then show ?thesis using Some l(1) by (auto simp: iso_ok_def)
  qed
qed

text \<open>An operation on the host that keeps the invariant of the latest data.\<close>

definition keeps_apart :: "('k host \<Rightarrow> 'r \<times> 'k host) \<Rightarrow> bool" where
  "keeps_apart f \<longleftrightarrow> (\<forall>s. view_ok (ho_store s) \<longrightarrow> view_ok (ho_store (snd (f s))))"

named_theorems apart_intros

lemma apartI: "(\<And>s r s'. f s = (r, s') \<Longrightarrow> view_ok (ho_store s) \<Longrightarrow> view_ok (ho_store s')) \<Longrightarrow> keeps_apart f"
  unfolding keeps_apart_def by (metis prod.collapse)

lemma apartD: "keeps_apart f \<Longrightarrow> f s = (r, s') \<Longrightarrow> view_ok (ho_store s) \<Longrightarrow> view_ok (ho_store s')"
  unfolding keeps_apart_def by (metis snd_conv)

lemma apart_quiet: "quiet f \<Longrightarrow> keeps_apart f"
  by (auto intro!: apartI dest!: quietD simp: view_def view_ok_def)

lemma apart_bind: "keeps_apart f \<Longrightarrow> (\<And>r. keeps_apart (g r)) \<Longrightarrow> keeps_apart (\<lambda>s. case f s of (r, s1) \<Rightarrow> g r s1)"
  by (rule apartI) (fastforce split: prod.splits dest: apartD)

lemma apart_return [apart_intros]: "keeps_apart (\<lambda>s. (r, s))"
  by (rule apartI) simp

lemma apart_ext [apart_intros]: "keeps_apart (on_ext f)"
  by (rule apart_quiet [OF quiet_ext])

lemma apart_get [apart_intros]: "keeps_apart (db_get dir)"
  by (rule apart_quiet [OF quiet_get])

lemma apart_wrap [apart_intros]: "keeps_apart f \<Longrightarrow> keeps_apart (\<lambda>s. wrap_err name (f s))"
  by (simp add: keeps_apart_def wrap_err_def)

lemma apart_case [apart_intros]:
  assumes "keeps_apart f" "\<And>e. keeps_apart (h e)" "keeps_apart g"
  shows "keeps_apart (\<lambda>s. case f s of (Some e, s1) \<Rightarrow> h e s1 | (None, s1) \<Rightarrow> g s1)"
proof (rule apartI)
  fix s r s' assume *: "(case f s of (Some e, s1) \<Rightarrow> h e s1 | (None, s1) \<Rightarrow> g s1) = (r, s')" "view_ok (ho_store s)"
  obtain e s1 where f: "f s = (e, s1)" by force
  then show "view_ok (ho_store s')" using * apartD [OF assms(1) f] apartD [OF assms(2)] apartD [OF assms(3)] by (cases e) auto
qed

lemma apart_sum [apart_intros]:
  assumes "keeps_apart f" "\<And>e. keeps_apart (h e)" "\<And>x. keeps_apart (g x)"
  shows "keeps_apart (\<lambda>s. case f s of (Inl e, s1) \<Rightarrow> h e s1 | (Inr x, s1) \<Rightarrow> g x s1)"
proof (rule apartI)
  fix s r s' assume *: "(case f s of (Inl e, s1) \<Rightarrow> h e s1 | (Inr x, s1) \<Rightarrow> g x s1) = (r, s')" "view_ok (ho_store s)"
  obtain e s1 where f: "f s = (e, s1)" by force
  then show "view_ok (ho_store s')" using * apartD [OF assms(1) f] apartD [OF assms(2)] apartD [OF assms(3)] by (cases e) auto
qed

lemma apart_if [apart_intros]: "keeps_apart f \<Longrightarrow> keeps_apart g \<Longrightarrow> keeps_apart (\<lambda>s. if b s then f s else g s)"
  by (simp add: keeps_apart_def)

lemma apart_mutate_service:
  assumes "keeps_service n f"
  shows "keeps_apart (mutate_service dir n f)"
proof (rule apartI)
  fix s r s' assume m: "mutate_service dir n f s = (r, s')" "view_ok (ho_store s)"
  obtain x sd w where "MutateService dir n f (fst (ho_store s)) (snd (ho_store s)) = (x, sd, w)" by (metis prod.collapse)
  then show "view_ok (ho_store s')"
    using m MutateService_view_ok [OF _ _ assms, of dir "fst (ho_store s)" "snd (ho_store s)" x sd w]
    by (auto simp: mutate_service_def on_store_def split: prod.splits)
qed

lemma apart_mutate_data:
  assumes "\<And>d d'. iso_ok d \<Longrightarrow> f d = Inr d' \<Longrightarrow> iso_ok d'" "keeps_version f"
  shows "keeps_apart (mutate_data dir f)"
proof (rule apartI)
  fix s r s' assume m: "mutate_data dir f s = (r, s')" "view_ok (ho_store s)"
  obtain x sd w where x: "MutateData dir f (fst (ho_store s)) (snd (ho_store s)) = (x, sd, w)" by (metis prod.collapse)
  have "store.keeps iso_ok f" unfolding store.keeps_def current_data_def using assms by (metis keeps_version_def)
  from MutateData_view_ok [OF x _ this] m x show "view_ok (ho_store s')"
    by (auto simp: mutate_data_def on_store_def split: prod.splits)
qed

lemma apart_ready [apart_intros]: "keeps_apart (markISOReady dir n)"
  unfolding markISOReady_def by (rule apart_mutate_data [OF ready_keeps ready_version])

lemma apart_conflict [apart_intros]: "keeps_apart (markISORuntimeConflict dir cause)"
  unfolding markISORuntimeConflict_def by (rule apart_mutate_data [OF conflict_keeps conflict_version])

lemma apart_delete [apart_intros]: "keeps_apart (removeServiceFromDB dir n)"
  unfolding removeServiceFromDB_def by (rule apart_mutate_data) (auto simp: delete_keeps keeps_version_def)

lemma apart_fail [apart_intros]: "keeps_apart (failISORuntime dir txt e)"
  using apart_conflict [of dir "txt e"] by (simp add: keeps_apart_def failISORuntime_def)

lemma apart_intent [apart_intros]: "keeps_apart (recordISORemovalIntent dir n c)"
  unfolding recordISORemovalIntent_def by (rule apart_mutate_service [OF lifecycle_keeps [OF intent_change]])

lemma apart_requested [apart_intros]: "keeps_apart (markISORemoveRequested dir n)"
  unfolding markISORemoveRequested_def by (rule apart_intent)

lemma apart_verified [apart_intros]: "keeps_apart (markISOCleanupVerified dir n)"
  unfolding markISOCleanupVerified_def by (rule apart_mutate_service [OF lifecycle_keeps [OF verified_change]])

lemma apart_state [apart_intros]: "keeps_apart (mark_state_in dir n st cause)"
proof -
  have "mark_state_in dir n st cause = (mutate_service dir n (mark_state n st (Some cause)) :: 'a host \<Rightarrow> _)"
    by (rule ext) (rule markISOState_service)
  then show ?thesis using apart_mutate_service [OF lifecycle_keeps [OF state_change]] by metis
qed

lemma apart_stopped [apart_intros]: "keeps_apart (markISOStoppedIfAllocated dir n)"
  unfolding markISOStoppedIfAllocated_def by (rule apart_mutate_service [OF stopped_keeps])

lemma apart_retain [apart_intros]: "keeps_apart (retainISOTombstone dir txt n e)"
  using apart_state [of dir n StateTombstoned "txt e"] by (simp add: keeps_apart_def retainISOTombstone_def)

lemma apart_tombstone [apart_intros]:
  "keeps_apart f \<Longrightarrow> keeps_apart g \<Longrightarrow> keeps_apart (\<lambda>s. or_tombstone dir txt n (f s) g)"
  unfolding or_tombstone_def by (intro apart_intros)

lemma apart_retain_transition [apart_intros]: "keeps_apart (retainISOTransitionTombstone dir txt n e)"
  using apart_state [of dir n StateTombstoned "txt e"]
  by (simp add: keeps_apart_def retainISOTransitionTombstone_def case_prod_unfold)

lemma apart_after_conflict: "keeps_apart f \<Longrightarrow> keeps_apart (\<lambda>s. f (snd (markISORuntimeConflict dir cause s)))"
  using apart_conflict unfolding keeps_apart_def by blast

lemma apart_load [apart_intros]: "keeps_apart (loadISORuntimeSpec dir env n)"
  by (rule apart_quiet, rule quietI) (auto simp: loadISORuntimeSpec_def split: prod.splits sum.splits dest!: quietD [OF quiet_get])

lemma apart_lock: "keeps_apart f \<Longrightarrow> keeps_apart (withISOOperationLock acquire unlock f)"
  by (rule apartI) (auto simp: withISOOperationLock_def on_ext_def split: prod.splits option.splits dest!: apartD)

text \<open>The compound operations.\<close>

lemma apart_boundary: "keeps_apart (ensureISONetworkBoundaryLocked dir txt env n)"
proof -
  have "keeps_apart (\<lambda>s. ensureISONetworkBoundaryLocked dir txt env n s)"
    unfolding ensureISONetworkBoundaryLocked_def
  proof (rule apart_sum [OF apart_get apart_return], goal_cases)
    case (1 d)
    have r: "keeps_apart (\<lambda>s. case reconcileISONetwork env n spec s of (Some e, s2) \<Rightarrow> failISORuntime dir txt e s2 | (None, s2) \<Rightarrow> (None, s2))" for spec
      by (intro apart_intros apart_quiet [OF quiet_reconcile])
    show ?case
      by (rule apartI)
        (auto split: sum.splits dest: apartD [OF apart_fail] apartD [OF r])
  qed
  then show ?thesis by simp
qed

lemma apart_ensure: "keeps_apart (ensureISONetworkLocked dir txt env n)"
proof -
  have "keeps_apart (\<lambda>s. ensureISONetworkLocked dir txt env n s)"
    unfolding ensureISONetworkLocked_def by (intro apart_intros apart_boundary)
  then show ?thesis by simp
qed

lemma apart_policy_after: "keeps_apart (installISOPolicyAfterCleanup dir txt env n)"
proof -
  have p: "keeps_apart (\<lambda>s. case RenderISOPolicy b p of Inl e \<Rightarrow> (Some (RenderErr e), s) | Inr policy \<Rightarrow> on_ext (en_EnsureISOPolicy env policy) s)" for b p
    by (cases "RenderISOPolicy b p") (simp_all add: apart_intros)
  have "keeps_apart (\<lambda>s. installISOPolicyAfterCleanup dir txt env n s)"
    unfolding installISOPolicyAfterCleanup_def by (intro apart_intros apart_after_conflict p)
  then show ?thesis by simp
qed

lemma apart_clean: "keeps_apart (cleanISONetworkLocked dir txt env n)"
proof -
  have refuse: "keeps_apart (\<lambda>s. (Some VMCleanupRefused, snd (mark_state_in dir n StateQuarantined c s)))" for c
    using apart_state [of dir n StateQuarantined c] by (simp add: keeps_apart_def)
  have conflict: "keeps_apart (\<lambda>s. (Some e, snd (markISORuntimeConflict dir c s)))" for e c
    using apart_conflict [of dir c] by (simp add: keeps_apart_def)
  have "keeps_apart (\<lambda>s. cleanISONetworkLocked dir txt env n s)"
    unfolding cleanISONetworkLocked_def by (intro apart_intros apart_policy_after refuse conflict)
  then show ?thesis by simp
qed

lemma apart_reserve: "keeps_apart (reserve_in dir probe canceled req n)"
proof (rule apartI)
  fix s r s' assume m: "reserve_in dir probe canceled req n s = (r, s')" "view_ok (ho_store s)"
  obtain x sd w where x: "reserveISOAllocationExact dir probe (if canceled (ho_ext s) then Some (ProbeErr ''context canceled'') else None) n req
      (fst (ho_store s)) (snd (ho_store s)) = (x, sd, w)" by (metis prod.collapse)
  from reserve_view_ok [OF x] m x show "view_ok (ho_store s')"
    by (auto simp: reserve_in_def on_store_def split: sum.splits)
qed

lemma apart_steps:
  "(\<And>f. f \<in> set (map snd xs) \<Longrightarrow> keeps_apart (f n)) \<Longrightarrow> keeps_apart (run_steps xs n)"
proof (induction xs)
  case (Cons x xs)
  obtain name f where x: "x = (name, f)" by force
  have "keeps_apart (f n)" "keeps_apart (run_steps xs n)" using Cons by (simp_all add: x)
  then show ?case unfolding x run_steps.simps by (intro apart_intros)
qed (simp add: keeps_apart_def)

lemma apart_remove: "keeps_apart (removeISOServiceLockedWith dir txt (concreteISORemoveSteps dir env r) n)"
proof -
  let ?c = "concreteISORemoveSteps dir env r"
  have cleanup: "keeps_apart (removal_cleanup dir txt ?c n)"
  proof -
    have "keeps_apart (\<lambda>s. removal_cleanup dir txt ?c n s)"
      unfolding removal_cleanup_def by (intro apart_intros apart_quiet [OF concrete.quiet_cleanup])
    then show ?thesis by simp
  qed
  have before: "keeps_apart (rs_BeforeDelete ?c n)" 
    by (simp add: concreteISORemoveSteps_def Let_def apart_quiet quiet_BeforeDelete)
  have finish: "keeps_apart (removal_finish dir txt ?c n)"
  proof -
    have "keeps_apart (\<lambda>s. removal_finish dir txt ?c n s)"
      unfolding removal_finish_def by (intro apart_intros apart_quiet [OF concrete.quiet_policy] before)
    then show ?thesis by simp
  qed
  have body: "keeps_apart (removal_body dir txt ?c n a)" for a
  proof -
    have "keeps_apart (\<lambda>s. removal_body dir txt ?c n a s)"
      unfolding removal_body_def by (intro apart_intros cleanup finish)
    then show ?thesis by simp
  qed
  have "keeps_apart (\<lambda>s. removeISOServiceLockedWith dir txt ?c n s)"
    unfolding removeISOServiceLockedWith_def
  proof (rule apart_sum [OF apart_get apart_return], goal_cases)
    case (1 d)
    show ?case by (rule apartI) (auto split: option.splits dest: apartD [OF body])
  qed
  then show ?thesis by simp
qed

lemma apart_remove_options:
  "keeps_apart (removeISOServiceWithOptions acquire unlock dir txt (concreteISORemoveSteps dir env r) cleanData n)"
  unfolding removeISOServiceWithOptions_def by (intro apart_lock apart_intros apart_remove)

lemma apart_checks:
  "(\<And>f. f \<in> set (map snd xs) \<Longrightarrow> quiet (f n)) \<Longrightarrow> quiet (run_checks canceled xs n)"
proof (induction xs)
  case (Cons x xs)
  obtain name f where x: "x = (name, f)" by force
  have q: "quiet (f n)" "quiet (run_checks canceled xs n)" using Cons by (simp_all add: x)
  have c: "quiet (\<lambda>s. case f n s of (Some e, s1) \<Rightarrow> (Some (StepErr name e), s1) | (None, s1) \<Rightarrow> run_checks canceled xs n s1)"
    using q by (rule quiet_seq)
  show ?case unfolding x
    by (rule quietI) (auto split: if_splits dest: quietD [OF c])
qed (simp add: quiet_def)

lemma quiet_retired_dnet: "quiet (verify_retired_dnet dir retired)"
  by (rule quietI) (auto simp: verify_retired_dnet_def split: prod.splits sum.splits dest!: quietD [OF quiet_get])

lemma quiet_retire_checked: "quiet (retire_checked dir canceled (isoConcreteRetirementSteps dir txt env probe canceled modes comps) n retired)"
proof -
  let ?c = "isoConcreteRetirementSteps dir txt env probe canceled modes comps"
  have "quiet (\<lambda>s. retire_checked dir canceled ?c n retired s)"
    unfolding retire_checked_def
    by (intro quiet_seq quiet_wrap apart_checks)
      (auto simp: isoConcreteRetirementSteps_def retirement_checks_def intro: quiet_ext quiet_retired_dnet)
  then show ?thesis by simp
qed

lemma apart_retire_quarantine:
  "keeps_apart (quarantineISORetirement (isoConcreteRetirementSteps dir txt env probe canceled modes comps) n e)"
  using apart_state [of dir n StateQuarantined "txt e"]
  by (simp add: keeps_apart_def quarantineISORetirement_def isoConcreteRetirementSteps_def case_prod_unfold)

lemma apart_finalize:
  "keeps_apart (finalizeISORetirementsWith dir canceled (isoConcreteRetirementSteps dir txt env probe canceled modes comps) n)"
proof -
  let ?c = "isoConcreteRetirementSteps dir txt env probe canceled modes comps"
  have reserve: "keeps_apart (rt_Reserve ?c n)" by (simp add: isoConcreteRetirementSteps_def apart_reserve)
  have commit: "keeps_apart (retire_commit dir ?c n)"
  proof -
    have "keeps_apart (\<lambda>s. retire_commit dir ?c n s)"
      unfolding retire_commit_def
      by (intro apart_intros apart_mutate_service [OF clear_retired_keeps] apart_retire_quarantine reserve)
    then show ?thesis by simp
  qed
  have checked: "keeps_apart (\<lambda>s. case retire_checked dir canceled ?c n rs s of
      (Some e, s2) \<Rightarrow> quarantineISORetirement ?c n e s2 | (None, s2) \<Rightarrow> retire_commit dir ?c n s2)" for rs
    by (intro apart_intros apart_quiet [OF quiet_retire_checked] apart_retire_quarantine commit)
  have "keeps_apart (\<lambda>s. finalizeISORetirementsWith dir canceled ?c n s)"
    unfolding finalizeISORetirementsWith_def
  proof (rule apart_sum [OF apart_get apart_return], goal_cases)
    case (1 d)
    show ?case by (rule apartI) (auto split: option.splits if_splits dest: apartD [OF checked])
  qed
  then show ?thesis by simp
qed

text \<open>Staging and installing a generation is the installer's; it has to leave the networks apart.\<close>

definition staging_keeps_apart :: "'k fileInstallerISOTransition \<Rightarrow> bool" where
  "staging_keeps_apart t \<longleftrightarrow> (\<forall>n. keeps_apart (ft_stageInstallPlan t n) \<and> keeps_apart (ft_installStagedService t n))"

lemma quiet_join_steps: "(\<And>f. f \<in> set fs \<Longrightarrow> quiet f) \<Longrightarrow> quiet (join_steps fs errs)"
proof (induction fs arbitrary: errs)
  case (Cons f fs)
  have f: "quiet f" using Cons.prems by simp
  have "quiet (join_steps fs es)" for es using Cons by simp
  then show ?case unfolding join_steps.simps using f by (intro quiet_bind)
qed (simp add: quiet_def)

lemma quiet_service_in: "quiet (service_in dir n)"
  by (rule quietI) (auto simp: service_in_def split: prod.splits sum.splits option.splits dest!: quietD [OF quiet_get])

lemma quiet_stop_isolated: "quiet (stop_isolated dir env native n)"
proof -
  have j: "quiet (join_steps [on_ext (en_StopProjectContainers env n), stopAndVerifyISOAuxiliaryUnits env sv] [])" for sv
    by (rule quiet_join_steps) (auto intro: quiet_intros)
  show ?thesis
  proof (rule quietI)
    fix s r s' assume "stop_isolated dir env native n s = (r, s')"
    then show "(fresh s \<longrightarrow> fresh s') \<and> view s' = view s"
      by (auto simp: stop_isolated_def simp del: join_steps.simps split: prod.splits sum.splits if_splits
          dest!: quietD [OF quiet_service_in] quietD [OF quiet_stop_native] quietD [OF j])
  qed
qed

lemma quiet_verify_isolation: "quiet (verify_isolation_absent dir env native topology n)"
  unfolding verify_isolation_absent_def by (rule quiet_join_steps) (auto intro: quiet_intros split: if_splits)

lemma quiet_isolation_gone: "quiet (isolation_gone canceled (fileInstallerTransitionSteps dir env t) n)"
proof -
  have v: "quiet (\<lambda>s. if canceled (ho_ext s) then (Some (StepErr m Canceled), s) else wrap_err m (verify_isolation_absent dir env nt tp n s))" for m nt tp
    by (simp add: quiet_def wrap_err_def quiet_verify_isolation [unfolded quiet_def, rule_format])
  have "quiet (\<lambda>s. isolation_gone canceled (fileInstallerTransitionSteps dir env t) n s)"
    unfolding isolation_gone_def fileInstallerTransitionSteps_def isoTransitionSteps.simps
    by (intro quiet_seq quiet_wrap quiet_stop_isolated quiet_ext v)
  then show ?thesis by simp
qed

lemma apart_start:
  assumes "staging_keeps_apart t"
  shows "keeps_apart (start_staged dir env t n)"
proof -
  have st: "keeps_apart (ft_stageInstallPlan t n)" "keeps_apart (ft_installStagedService t n)" using assms by (auto simp: staging_keeps_apart_def)
  have policy: "keeps_apart (\<lambda>s. case present of None \<Rightarrow> (None, s)
      | Some rules \<Rightarrow> (case on_ext (en_EnsureISOPolicy env rules) s of (Some e, s2) \<Rightarrow> (Some e, s2)
          | (None, s2) \<Rightarrow> on_ext (en_VerifyISOPolicy env rules) s2))" for present
    by (cases present) (simp_all, (intro apart_intros)+)
  have "keeps_apart (\<lambda>s. start_staged dir env t n s)"
    unfolding start_staged_def by (intro apart_intros apart_quiet [OF quiet_current_policy] policy st)
  then show ?thesis by simp
qed

lemma apart_transition:
  assumes "staging_keeps_apart t"
  shows "keeps_apart (transitionFromISOWith dir txt canceled checkTag (fileInstallerTransitionSteps dir env t) n desired)"
proof -
  let ?c = "fileInstallerTransitionSteps dir env t"
  have commit: "keeps_apart (commitReplacementNetwork dir n p)" for p
    unfolding commitReplacementNetwork_def by (rule apart_mutate_service [OF replace_keeps])
  have start: "keeps_apart (start_replacement canceled ?c n p)" for p
  proof -
    have "keeps_apart (\<lambda>s. start_replacement canceled ?c n p s)"
      unfolding start_replacement_def fileInstallerTransitionSteps_def isoTransitionSteps.simps
      by (intro apart_intros apart_start [OF assms])
    then show ?thesis by simp
  qed
  have prepared: "keeps_apart (transition_prepared dir txt canceled ?c n p)" for p
  proof -
    have "keeps_apart (\<lambda>s. transition_prepared dir txt canceled ?c n p s)"
      unfolding transition_prepared_def
      by (intro apart_intros apart_quiet [OF quiet_isolation_gone] commit start)
    then show ?thesis by simp
  qed
  show ?thesis
    by (rule apartI)
      (auto simp: transitionFromISOWith_def fileInstallerTransitionSteps_def
        split: option.splits dest!: apartD [OF prepared, unfolded fileInstallerTransitionSteps_def])
qed

text \<open>The operations of the server on the isolated networks, with any results of the tools and any failures.\<close>

inductive iso_operation :: "path \<Rightarrow> 'k host \<Rightarrow> 'k host \<Rightarrow> bool" for dir where
  Allocator: "iso_step dir (ho_store s) st \<Longrightarrow> iso_operation dir s (s\<lparr>ho_store := st\<rparr>)"
| External: "iso_operation dir s (s\<lparr>ho_ext := x\<rparr>)"
| Boundary: "EnsureISONetworkBoundary acquire unlock dir txt env n s = (e, s') \<Longrightarrow> iso_operation dir s s'"
| Ensure: "EnsureISONetwork acquire unlock dir txt env n s = (e, s') \<Longrightarrow> iso_operation dir s s'"
| Stopped: "markISOStoppedIfAllocated dir n s = (e, s') \<Longrightarrow> iso_operation dir s s'"
| Clean: "CleanISONetwork acquire unlock dir txt env n s = (e, s') \<Longrightarrow> iso_operation dir s s'"
| Remove: "removeISOServiceWithOptions acquire unlock dir txt (concreteISORemoveSteps dir env r) cleanData n s = (e, s') \<Longrightarrow>
    iso_operation dir s s'"
| Retire: "finalizeISORetirementsWith dir canceled (isoConcreteRetirementSteps dir txt env probe canceled modes comps) n s = (e, s') \<Longrightarrow>
    iso_operation dir s s'"
| Transition: "staging_keeps_apart t \<Longrightarrow>
    transitionFromISO acquire unlock dir txt canceled checkTag (fileInstallerTransitionSteps dir env t) n desired s = (e, s') \<Longrightarrow>
    iso_operation dir s s'"

lemma operation_apart: "iso_operation dir s s' \<Longrightarrow> view_ok (ho_store s) \<Longrightarrow> view_ok (ho_store s')"
proof (induction rule: iso_operation.induct)
  case (Allocator s st)
  then show ?case using iso_step_view_ok by simp
next
  case (Boundary acquire unlock _ env n s e s')
  then show ?case by (auto simp: EnsureISONetworkBoundary_def dest: apartD [OF apart_lock [OF apart_boundary]])
next
  case (Ensure acquire unlock _ env n s e s')
  then show ?case by (auto simp: EnsureISONetwork_def dest: apartD [OF apart_lock [OF apart_ensure]])
next
  case (Clean acquire unlock _ env n s e s')
  then show ?case by (auto simp: CleanISONetwork_def dest: apartD [OF apart_lock [OF apart_clean]])
next
  case (Transition t acquire unlock _ canceled checkTag env n desired s e s')
  then show ?case by (auto simp: transitionFromISO_def dest: apartD [OF apart_lock [OF apart_transition]])
qed (auto dest: apartD [OF apart_stopped] apartD [OF apart_remove_options] apartD [OF apart_finalize])

section \<open>Properties\<close>





section \<open>Retirement and transition\<close>

lemma dnet_absent:
  assumes "verifyDNetAddressesAbsent ns addrs = None" "(nid, Some nw) \<in> set ns" "(eid, Some ep) \<in> set (dn_Endpoints nw)"
  shows "p_addr (de_IPv4 ep) \<notin> set addrs"
  using assms(1,2)
proof (induction ns addrs rule: verifyDNetAddressesAbsent.induct)
  case (2 nid' n ns addrs)
  then have none: "dnetAddressOwner n addrs = None" and rest: "verifyDNetAddressesAbsent ns addrs = None" by (auto split: option.splits)
  show ?case
  proof (cases "n = Some nw")
    case True
    let ?P = "\<lambda>(eid, ep). case ep of None \<Rightarrow> False | Some e \<Rightarrow> p_addr (de_IPv4 e) \<in> set addrs"
    have "List.find ?P (dn_Endpoints nw) = None"
    proof (rule ccontr)
      assume "List.find ?P (dn_Endpoints nw) \<noteq> None"
      then obtain k e where "List.find ?P (dn_Endpoints nw) = Some (k, e)" by auto
      moreover then have "?P (k, e)" by (metis (mono_tags, lifting) find_Some_iff)
      ultimately show False using none True by (auto simp: dnetAddressOwner_def split: option.splits)
    qed
    then show ?thesis using assms(3) unfolding find_None_iff by fastforce
  next
    case False
    then have "(nid, Some nw) \<in> set ns" using 2(3) by auto
    then show ?thesis using 2(1) none rest by simp
  qed
qed simp

lemma run_checks_last:
  assumes "run_checks canceled [c1, c2, (l, f)] n s = (None, s')" "quiet (snd c1 n)" "quiet (snd c2 n)"
  shows "\<exists>s2. f n s2 = (None, s') \<and> view s2 = view s \<and> (fresh s \<longrightarrow> fresh s2)"
proof -
  obtain s1 s2 where "snd c1 n s = (None, s1)" "snd c2 n s1 = (None, s2)" "f n s2 = (None, s')"
    using assms(1) by (cases c1, cases c2) (auto split: if_splits prod.splits option.splits)
  then show ?thesis using quietD [OF assms(2)] quietD [OF assms(3)] by metis
qed

lemma retire_checked_dnet:
  assumes "retire_checked dir canceled (isoConcreteRetirementSteps dir txt env probe canceled modes comps) n retired s = (None, s')"
    and "fresh s" "view s = Some d"
  shows "verifyDNetAddressesAbsent (DockerNetworks d) (map (\<lambda>(n, c). comp_Address c) retired) = None"
proof -
  let ?c = "isoConcreteRetirementSteps dir txt env probe canceled modes comps"
  obtain s1 where s1: "on_ext (en_StopProjectContainers env n) s = (None, s1)"
    and r: "run_checks canceled (retirement_checks ?c retired) n s1 = (None, s')"
    using assms(1)
    by (cases "on_ext (en_StopProjectContainers env n) s")
      (auto simp: retire_checked_def wrap_err_def isoConcreteRetirementSteps_def split: option.splits)
  have v1: "fresh s1" "view s1 = Some d" using quietD [OF quiet_ext s1] assms(2,3) by auto
  obtain s2 where s2: "verify_retired_dnet dir retired s2 = (None, s')" "view s2 = view s1" "fresh s2"
    using run_checks_last [OF r [unfolded retirement_checks_def]] v1(1) by (auto simp: isoConcreteRetirementSteps_def quiet_ext)
  then show ?thesis
    using v1(2) by (auto simp: verify_retired_dnet_def split: prod.splits sum.splits dest!: db_get_view)
qed

lemma holding_refl: "fresh s \<Longrightarrow> view s = Some d \<Longrightarrow> isoAllocationInData d n = Some a \<Longrightarrow> holding n a d (cleanup_done a) s"
  by (simp add: holding_def held_def)

lemma state_holding:
  assumes "holding n a0 d0 ok s" "mark_state_in dir n st cause s = (e, s')"
  shows "holding n a0 d0 ok s'"
  using lifecycle_holding [OF state_change assms(1)] assms(2) unfolding markISOState_service by blast

text \<open>An address is in use when an endpoint record of a docker network has it.\<close>

definition owned_address :: "Data \<Rightarrow> addr \<Rightarrow> bool" where
  "owned_address d x \<longleftrightarrow> (\<exists>nid nw eid ep. (nid, Some nw) \<in> set (DockerNetworks d) \<and> (eid, Some ep) \<in> set (dn_Endpoints nw) \<and>
     p_addr (de_IPv4 ep) = x)"

lemma absent_not_owned: "verifyDNetAddressesAbsent (DockerNetworks d) addrs = None \<Longrightarrow> x \<in> set addrs \<Longrightarrow> \<not> owned_address d x"
  using dnet_absent unfolding owned_address_def by blast


definition retiring_service :: Data where
  "retiring_service = one_service\<lparr>Services := [(''a'', Some ((new_Service ''a'')\<lparr>svc_ISO :=
     Some ((example_alloc ''a'' 0xAC1E0000)\<lparr>iso_RetiredComponents := [(''web'', \<lparr>comp_Address = V4 0xAC1E8002, comp_State = ''retiring''\<rparr>)]\<rparr>)\<rparr>))]\<rparr>"

definition retiring_host :: "unit host" where
  "retiring_host = \<lparr>ho_store = (None, quiet_world (Holds retiring_service) (\<lambda>_. False)), ho_ext = ()\<rparr>"

lemma retiring_host_view: "fresh retiring_host" "view retiring_host = Some retiring_service"
proof -
  have "current_data retiring_service" by (simp add: retiring_service_def one_service_def example_data_def current_data_def)
  then show "view retiring_host = Some retiring_service"
    by (simp add: view_def retiring_host_def store_view_def quiet_world_def latest_view_holds)
qed (simp add: fresh_def retiring_host_def)


section \<open>The record after a transition\<close>

lemma normalized_loop_set:
  "distinct out \<Longrightarrow> distinct (normalized_modes_loop ms out) \<and> set (normalized_modes_loop ms out) = set out \<union> (mode_of ` set ms - {[]})"
  by (induction ms out rule: normalized_modes_loop.induct) (auto simp: Let_def mode_of_def)

lemma normalized_modes_set: "normalizedServiceNetworkModes ms = sorted_list_of_set (mode_of ` set ms - {[]})"
  unfolding normalizedServiceNetworkModes_def
  by (rule sorted_distinct_set_unique) (use normalized_loop_set [of "[]" ms] in auto)

lemma artifacts_allowed: "validateISOReplacementArtifacts as = None \<longleftrightarrow> fst ` set as \<subseteq> set isoReplacementArtifactNames"
  by (induction as rule: validateISOReplacementArtifacts.induct) auto

lemma replacement_valid:
  assumes "validateISOReplacementNetwork checkTag desired p = None"
  shows "rn_Modes p = desired" "sorted desired" "distinct desired" "set desired \<subseteq> set known_modes" "''iso'' \<notin> set desired"
    and "''svc'' \<in> set desired \<longleftrightarrow> rn_SvcNetwork p \<noteq> None" "''lan'' \<in> set desired \<longleftrightarrow> rn_Macvlan p \<noteq> None"
    "''ts'' \<in> set desired \<longleftrightarrow> rn_Tailscale p \<noteq> None"
    and "fst ` set (rn_Artifacts p) \<subseteq> set isoReplacementArtifactNames"
    and "rn_Desired p = Some c \<Longrightarrow> network_ok checkTag c \<and> snc_Modes c = desired"
proof -
  note v = assms [unfolded validateISOReplacementNetwork_def normalizedISOReplacementModes_def]
  have n: "NormalizeModes desired = Inr desired" using v by (auto split: sum.splits if_splits)
  then show "sorted desired" "distinct desired" "set desired \<subseteq> set known_modes" using NormalizeModes_ok [OF n] by auto
  have m: "rn_Modes p = desired" "validate_prepared_desired checkTag desired p = None" "''iso'' \<notin> set desired"
    "validateISOReplacementModeState p = None" "validateISOReplacementArtifacts (rn_Artifacts p) = None"
    using v n by (auto split: sum.splits if_splits option.splits)
  then show "rn_Modes p = desired" "''iso'' \<notin> set desired" "fst ` set (rn_Artifacts p) \<subseteq> set isoReplacementArtifactNames"
    by (simp_all add: artifacts_allowed)
  show "''svc'' \<in> set desired \<longleftrightarrow> rn_SvcNetwork p \<noteq> None" "''lan'' \<in> set desired \<longleftrightarrow> rn_Macvlan p \<noteq> None"
    "''ts'' \<in> set desired \<longleftrightarrow> rn_Tailscale p \<noteq> None"
    using m(1,4) by (auto simp: validateISOReplacementModeState_def split: if_splits)
  show "rn_Desired p = Some c \<Longrightarrow> network_ok checkTag c \<and> snc_Modes c = desired"
    using m(2) normalize_fixed [of checkTag c]
    by (auto simp: validate_prepared_desired_def split: sum.splits if_splits)
qed

definition replaced :: "isoReplacementNetwork \<Rightarrow> Service \<Rightarrow> Service" where
  "replaced p sv = sv\<lparr>svc_SvcNetwork := rn_SvcNetwork p, svc_Macvlan := rn_Macvlan p, svc_TSNet := rn_Tailscale p,
     svc_Artifacts := mergeISOReplacementNetworkArtifacts (svc_Artifacts sv) (rn_Artifacts p),
     svc_Network := (if rn_Desired p = None then svc_Network sv else rn_Desired p), svc_ISO := None\<rparr>"

text \<open>The modes read off the new record are those that were asked for.\<close>

lemma replaced_modes:
  assumes "validateISOReplacementNetwork checkTag desired p = None" "rn_Desired p = Some c" "svc_VM sv = None"
  shows "effectiveServiceNetworkModes (replaced p sv) = (if desired = [] then [''host''] else desired)"
proof -
  note v = replacement_valid [OF assms(1)]
  have host: "''host'' \<in> set desired \<Longrightarrow> set desired = {''host''}"
    using v(10) [OF assms(2)] by (auto simp: network_ok_def combination_ok_def)
  have "set (runtime_modes (replaced p sv)) = {m \<in> {''svc'', ''lan'', ''ts''}. m \<in> set desired}"
  proof -
    have "set (runtime_modes (replaced p sv)) =
        (if ''svc'' \<in> set desired then {''svc''} else {}) \<union> (if ''lan'' \<in> set desired then {''lan''} else {}) \<union>
        (if ''ts'' \<in> set desired then {''ts''} else {})"
      using assms(3) by (simp add: runtime_modes_def replaced_def v(6-8))
    then show ?thesis by auto
  qed
  also have "\<dots> = set desired - {''host''}"
  proof -
    have "m \<in> {''host'', ''svc'', ''lan'', ''ts'', ''iso''}" if "m \<in> set desired" for m
      using that v(4) by (auto simp: known_modes_def)
    then show ?thesis using v(5) by fastforce
  qed
  finally have r: "set (runtime_modes (replaced p sv)) = set desired - {''host''}" .
  have "mode_of m = m \<and> m \<noteq> []" if "m \<in> set desired" for m using that v(4) known_modes_fixed by blast
  then have "mode_of ` set (runtime_modes (replaced p sv)) - {[]} = set desired - {''host''}" unfolding r by force
  then have n: "normalizedServiceNetworkModes (runtime_modes (replaced p sv)) = sorted_list_of_set (set desired - {''host''})"
    by (simp add: normalized_modes_set)
  have e: "effectiveServiceNetworkModes (replaced p sv) =
      (case normalizedServiceNetworkModes (runtime_modes (replaced p sv)) of [] \<Rightarrow> [''host''] | ms \<Rightarrow> ms)"
    by (simp add: effectiveServiceNetworkModes_def, simp add: replaced_def)
  show ?thesis
  proof (cases "''host'' \<in> set desired")
    case True
    then have "desired = [''host'']" using host v(2,3) by (metis distinct_singleton sorted_distinct_set_unique list.simps(15) set_empty sorted1)
    then show ?thesis by (simp add: e n)
  next
    case False
    then have "normalizedServiceNetworkModes (runtime_modes (replaced p sv)) = desired"
      using n v(2,3) by (simp add: sorted_list_of_set.idem_if_sorted_distinct)
    then show ?thesis by (cases desired) (simp_all add: e)
  qed
qed

lemma update_other: "k \<notin> fst ` set xs \<Longrightarrow> map_of (foldl (\<lambda>m (n, a). AList.update n a m) m xs) k = map_of m k"
  by (induction xs arbitrary: m) (auto simp: map_of_update)

lemma merge_payload:
  assumes "fst ` set new \<subseteq> set isoReplacementArtifactNames" "name \<notin> set isoReplacementArtifactNames"
  shows "map_of (mergeISOReplacementNetworkArtifacts old new) name = map_of old name"
proof -
  have "name \<notin> set isoNetworkArtifactNames" using assms(2) by (simp add: isoReplacementArtifactNames_def)
  then have "map_of (filter (\<lambda>(m, _). m \<notin> set isoNetworkArtifactNames) old) name = map_of old name"
    by (induction old) auto
  moreover have "name \<notin> fst ` set new" using assms by blast
  ultimately show ?thesis unfolding mergeISOReplacementNetworkArtifacts_def by (simp add: update_other)
qed

text \<open>The data holds the new record of the service, and otherwise what it held before.\<close>

definition moved :: "string \<Rightarrow> Service \<Rightarrow> Data \<Rightarrow> 'k host \<Rightarrow> bool" where
  "moved n sv' d0 s \<longleftrightarrow> fresh s \<and> (\<exists>d. view s = Some d \<and> d\<lparr>Services := []\<rparr> = d0\<lparr>Services := []\<rparr> \<and>
     (\<forall>m. m \<noteq> n \<longrightarrow> map_of (Services d) m = map_of (Services d0) m) \<and> map_of (Services d) n = Some (Some sv'))"

lemma replace_version: "keeps_version (service_mutator n (replace_network n p))"
  by (auto simp: keeps_version_def service_mutator_def replace_network_def Let_def split: option.splits if_splits)

lemma commit_outcome:
  assumes "commitReplacementNetwork dir n p s = (e, s')" "fresh s" "view s = Some d" "map_of (Services d) n = Some (Some sv)"
  obtains "e \<noteq> None" "fresh s'" "view s' = Some d" | "moved n (replaced p sv) d s'"
proof -
  have o: "outcome_of (service_mutator n (replace_network n p)) s e s'"
    by (rule mutate_service_outcome [OF _ replace_version assms(2)]) (use assms(1) in \<open>simp add: commitReplacementNetwork_def\<close>)
  then consider "e \<noteq> None" "fresh s'" "view s' = Some d"
    | d' where "fresh s'" "service_mutator n (replace_network n p) d = Inr d'" "view s' = Some d'"
    using assms(3) by (auto simp: outcome_of_def)
  then show thesis
  proof cases
    case (2 d')
    have "d\<lparr>Services := Services d\<rparr> = d" by simp
    then have "d' = d\<lparr>Services := AList.update n (Some (replaced p sv)) (Services d)\<rparr>"
      using 2(2) assms(4)
      by (cases "rn_Desired p") (auto simp: service_mutator_def replace_network_def replaced_def update_same [OF assms(4)] Let_def split: if_splits)
    then show thesis using that(2) 2 by (simp add: moved_def map_of_update)
  qed (use that in blast)
qed

lemma retain_moved:
  assumes "moved n sv' d0 s" "svc_ISO sv' = None"
  shows "moved n sv' d0 (snd (retainISOTransitionTombstone dir txt n e s))"
proof -
  obtain e' s' where m: "mutate_service dir n (mark_state n StateTombstoned (Some (txt e))) s = (e', s')" by force
  obtain d where d: "fresh s" "view s = Some d" "map_of (Services d) n = Some (Some sv')" using assms(1) by (auto simp: moved_def)
  have o: "outcome_of (service_mutator n (mark_state n StateTombstoned (Some (txt e)))) s e' s'"
    by (rule mutate_service_outcome [OF m lifecycle_version [OF state_change] d(1)])
  have "\<exists>x. service_mutator n (mark_state n StateTombstoned (Some (txt e))) d = Inl x"
    by (simp add: service_mutator_def d(3) mark_state_def assms(2))
  then have "fresh s'" "view s' = view s" using o d(2) by (auto simp: outcome_of_def)
  then show ?thesis using assms(1) by (simp add: retainISOTransitionTombstone_def markISOState_service m moved_def)
qed

lemma retain_transition_holding:
  assumes "holding n a0 d0 ok s"
  shows "holding n a0 d0 ok (snd (retainISOTransitionTombstone dir txt n e s))"
  using state_holding [OF assms prod.collapse [symmetric], of dir StateTombstoned "txt e"]
  by (simp add: retainISOTransitionTombstone_def case_prod_unfold)

lemma retain_transition_err: "fst (retainISOTransitionTombstone dir txt n e s) \<noteq> None"
  by (simp add: retainISOTransitionTombstone_def join_rt_def map_filter_simps Let_def case_prod_unfold)

lemma join_rt_None: "join_rt es = None \<longleftrightarrow> (\<forall>e \<in> set es. e = None)"
  by (induction es) (auto simp: join_rt_def map_filter_simps Let_def split: option.splits)

lemma join_steps_errs: "join_steps fs errs s = (None, s') \<Longrightarrow> e \<in> set errs \<Longrightarrow> e = None"
  by (induction fs arbitrary: errs s) (auto simp: join_rt_None split: prod.splits)

lemma join_steps_None:
  assumes "join_steps fs errs s = (None, s')" "\<And>f. f \<in> set fs \<Longrightarrow> quiet f" "f \<in> set fs"
  shows "\<exists>s1 s2. f s1 = (None, s2) \<and> view s1 = view s \<and> (fresh s \<longrightarrow> fresh s1)"
  using assms
proof (induction fs arbitrary: errs s)
  case (Cons g fs)
  obtain e s1 where g: "g s = (e, s1)" by force
  then have j: "join_steps fs (errs @ [e]) s1 = (None, s')" using Cons.prems(1) by simp
  then have "e = None" using join_steps_errs by force
  have q: "(fresh s \<longrightarrow> fresh s1) \<and> view s1 = view s" using quietD [of g, OF _ g] Cons.prems(2) by simp
  show ?case
  proof (cases "f = g")
    case True
    then show ?thesis using \<open>e = None\<close> g by auto
  next
    case False
    then have "f \<in> set fs" using Cons.prems(3) by simp
    then show ?thesis using Cons.IH [OF j] Cons.prems(2) q by (metis list.set_intros(2))
  qed
qed simp

text \<open>What it takes to leave: the topology was seen to be gone, and no endpoint has an address of the allocation.\<close>

lemma gone_verified:
  fixes t :: "'k fileInstallerISOTransition"
  assumes "isolation_gone canceled (fileInstallerTransitionSteps dir env t) n s = (None, s')" "fresh s" "view s = Some d"
  shows "(\<exists>x y. en_VerifyISOTopologyAbsent env (ft_topology t) x = (None, y)) \<and>
    (\<forall>(m, c) \<in> set (iso_comps (top_Allocation (ft_topology t))). \<not> owned_address d (comp_Address c))"
proof -
  let ?fs = "[on_ext (en_VerifyISOTopologyAbsent env (ft_topology t))] @
        (if ft_native t then [] else [on_ext (en_VerifyProjectAbsent env n), on_ext (en_VerifyDefaultNetworkAbsent env n)]) @
        [verifyISOAllocationDNetAbsent dir (top_Allocation (ft_topology t))]"
  obtain e1 s1 where s1: "stop_isolated dir env (ft_native t) n s = (e1, s1)" by force
  obtain e2 s2 where s2: "on_ext (en_RemoveISOTopology env (ft_topology t)) s1 = (e2, s2)" by force
  obtain e3 s3 where s3: "verify_isolation_absent dir env (ft_native t) (ft_topology t) n s2 = (e3, s3)" by force
  have "e1 = None" "e2 = None" "e3 = None" "s3 = s'"
    using assms(1) by (auto simp: isolation_gone_def fileInstallerTransitionSteps_def wrap_err_def s1 s2 s3 split: option.splits if_splits)
  then have st: "stop_isolated dir env (ft_native t) n s = (None, s1)" "on_ext (en_RemoveISOTopology env (ft_topology t)) s1 = (None, s2)"
    "join_steps ?fs [] s2 = (None, s')"
    using s1 s2 s3 by (simp_all only: verify_isolation_absent_def)
  have v2: "fresh s2" "view s2 = Some d" using quietD [OF quiet_stop_isolated st(1)] quietD [OF quiet_ext st(2)] assms(2,3) by auto
  have q: "quiet f" if "f \<in> set ?fs" for f using that by (auto intro: quiet_intros split: if_splits)
  obtain x1 x2 where "on_ext (en_VerifyISOTopologyAbsent env (ft_topology t)) x1 = (None, x2)"
    using join_steps_None [OF st(3) q, of "on_ext (en_VerifyISOTopologyAbsent env (ft_topology t))"] by auto
  then have "\<exists>x y. en_VerifyISOTopologyAbsent env (ft_topology t) x = (None, y)" by (auto simp: on_ext_def split: prod.splits)
  moreover obtain y1 y2 :: "'k host" where y: "verifyISOAllocationDNetAbsent dir (top_Allocation (ft_topology t)) y1 = (None, y2)" "view y1 = Some d" "fresh y1"
    using join_steps_None [OF st(3) q, of "verifyISOAllocationDNetAbsent dir (top_Allocation (ft_topology t))"] v2 by auto
  then have "verifyDNetAddressesAbsent (DockerNetworks d) (map (\<lambda>(n, c). comp_Address c) (iso_comps (top_Allocation (ft_topology t)))) = None"
    by (auto simp: verifyISOAllocationDNetAbsent_def split: prod.splits sum.splits dest!: db_get_view)
  from absent_not_owned [OF this]
  have "\<forall>(m, c) \<in> set (iso_comps (top_Allocation (ft_topology t))). \<not> owned_address d (comp_Address c)" by force
  ultimately show ?thesis by blast
qed

lemma prepared_outcome:
  assumes "transition_prepared dir txt canceled (fileInstallerTransitionSteps dir env t) n p s = (e, s')"
    and "fresh s" "view s = Some d" "map_of (Services d) n = Some (Some sv)" "svc_ISO sv = Some a"
  obtains (kept) "holding n a d (cleanup_done a) s'" "e \<noteq> None"
  | (gone) s2 where "fst (isolation_gone canceled (fileInstallerTransitionSteps dir env t) n s) = None" "moved n (replaced p sv) d s2"
      "s' = s2 \<and> e \<noteq> None \<or> start_replacement canceled (fileInstallerTransitionSteps dir env t) n p s2 = (e, s')"
proof -
  let ?c = "fileInstallerTransitionSteps dir env t"
  obtain r s1 where r: "isolation_gone canceled ?c n s = (r, s1)" by force
  have v1: "fresh s1" "view s1 = Some d" using quietD [OF quiet_isolation_gone r] assms(2,3) by auto
  have al: "isoAllocationInData d n = Some a" using assms(4,5) by (simp add: isoAllocationInData_def)
  have h1: "holding n a d (cleanup_done a) s1" by (rule holding_refl [OF v1 al])
  show thesis
  proof (cases r)
    case (Some x)
    then have "retainISOTransitionTombstone dir txt n x s1 = (e, s')" using assms(1) r by (simp add: transition_prepared_def)
    then show thesis using kept retain_transition_holding [OF h1] retain_transition_err by (metis fst_conv snd_conv)
  next
    case None
    obtain ce s2 where c: "commitReplacementNetwork dir n p s1 = (ce, s2)" by force
    show thesis using c v1 assms(4)
    proof (cases rule: commit_outcome)
      case 1
      then obtain x where "retainISOTransitionTombstone dir txt n x s2 = (e, s')"
        using assms(1) r None c by (auto simp: transition_prepared_def wrap_err_def)
      then show thesis
        using kept retain_transition_holding [OF holding_refl [OF 1(2,3) al]] retain_transition_err by (metis fst_conv snd_conv)
    next
      case 2
      show thesis
      proof (cases ce)
        case None
        then have "start_replacement canceled ?c n p s2 = (e, s')"
          using assms(1) r \<open>r = None\<close> c by (simp add: transition_prepared_def wrap_err_def)
        then show thesis using gone 2 r \<open>r = None\<close> by auto
      next
        case (Some x)
        then obtain y where y: "retainISOTransitionTombstone dir txt n y s2 = (e, s')"
          using assms(1) r None c by (auto simp: transition_prepared_def wrap_err_def)
        have "moved n (replaced p sv) d s'" using retain_moved [OF 2, of dir "txt" y] y by (simp add: replaced_def)
        then show thesis using gone r None y retain_transition_err by (metis fst_conv)
      qed
    qed
  qed
qed


definition native_service :: Service where
  "native_service = (new_Service ''a'')\<lparr>svc_ServiceType := ServiceTypeSystemd,
     svc_ISO := Some (example_alloc ''a'' 0xAC1E0000)\<rparr>"

definition native_data :: Data where
  "native_data = one_service\<lparr>Services := [(''a'', Some native_service)]\<rparr>"

definition native_host :: "unit host" where
  "native_host = \<lparr>ho_store = (None, quiet_world (Holds native_data) (\<lambda>_. False)), ho_ext = ()\<rparr>"

lemma native_host_view: "fresh native_host" "view native_host = Some native_data"
proof -
  have "current_data native_data" by (simp add: native_data_def one_service_def example_data_def current_data_def)
  then show "view native_host = Some native_data"
    by (simp add: view_def native_host_def store_view_def quiet_world_def latest_view_holds)
qed (simp add: fresh_def native_host_def)

definition to_host :: "unit fileInstallerISOTransition" where
  "to_host =
     \<lparr>ft_prepared = \<lparr>rn_Modes = [''host''], rn_Desired = Some (empty_network_config\<lparr>snc_Modes := [''host'']\<rparr>), rn_NilSlice = False,
        rn_Expected = Some native_service, rn_SvcNetwork = None, rn_Macvlan = None, rn_Tailscale = None, rn_Artifacts = []\<rparr>,
      ft_native = True, ft_topology = topology_spec BackendNFT (v4_prefix 0xAC1E0000 16) (example_alloc ''a'' 0xAC1E0000),
      ft_StageOnly = True, ft_stageInstallPlan = (\<lambda>_ s. (None, s)), ft_installStagedService = (\<lambda>_ s. (None, s))\<rparr>"


end
