(* ===== verification/Iso_Startup.thy ===== *)
theory Iso_Startup
  imports Iso_Gates
begin

text \<open>
  The security gate at start-up (\<^verbatim>\<open>reconcileISONetworksWith\<close> and what it calls in \<^verbatim>\<open>src/pkg/catch/iso_runtime.go\<close>). For every isolated service the
  policy and the topology are ensured and verified and its workload is inspected; what cannot be trusted is stopped and quarantined,
  and workloads are restarted only after the policy of the whole host was verified. The steps are a record of functions on the host, as the
  interface of the source. To speak of the order of the steps, \<open>observed\<close> wraps any steps so that
  each call is written to a log; the wrapped run does what the plain one does.
\<close>

section \<open>The gate\<close>

record 'k isoReconcileSteps =
  rc_ValidatePool :: "'k host \<Rightarrow> rt_err option \<times> 'k host"
  rc_InstallDNS :: "'k host \<Rightarrow> rt_err option \<times> 'k host"
  rc_EnsurePolicy :: "'k step"
  rc_VerifyPolicy :: "'k step"
  rc_EnsureTopology :: "'k step"
  rc_VerifyTopology :: "'k step"
  rc_InspectRuntime :: "string \<Rightarrow> 'k host \<Rightarrow> (rt_err + string) \<times> 'k host"
  rc_VerifyStopped :: "'k step"
  rc_VerifyTailscale :: "'k step"
  rc_ResumeRemoval :: "'k step"
  rc_StopUntrusted :: "'k step"
  rc_Quarantine :: "rt_err \<Rightarrow> 'k step"
  rc_VerifyGlobalPolicy :: "'k host \<Rightarrow> rt_err option \<times> 'k host"
  rc_RestartTrusted :: "'k step"

definition isoReconcileRuntimeRunning :: string where "isoReconcileRuntimeRunning = ''running''"
definition isoReconcileRuntimeAbsent :: string where "isoReconcileRuntimeAbsent = ''absent''"

text \<open>\<^verbatim>\<open>isoSecurityCleanupContext\<close> detaches the context from its parent's cancellation: these two steps always run.\<close>

definition stopAndQuarantineISO ::
  "'k isoReconcileSteps \<Rightarrow> string \<Rightarrow> rt_err \<Rightarrow> 'k host \<Rightarrow> rt_err option \<times> 'k host" where
  "stopAndQuarantineISO steps service cause s =
     (case rc_StopUntrusted steps service s of
        (stopErr, s1) \<Rightarrow>
          (case rc_Quarantine steps cause service s1 of
             (quarantineErr, s2) \<Rightarrow> (join_rt [Some cause, stopErr, quarantineErr], s2)))"

definition runISOReconcileGlobalPhase ::
  "('k \<Rightarrow> bool) \<Rightarrow> string \<Rightarrow> ('k host \<Rightarrow> rt_err option \<times> 'k host) \<Rightarrow> 'k host \<Rightarrow> rt_err option \<times> 'k host" where
  "runISOReconcileGlobalPhase canceled name run s =
     (if canceled (ho_ext s) then (Some (StepErr name Canceled), s) else wrap_err name (run s))"

definition reconcile_phases :: "'k isoReconcileSteps \<Rightarrow> ISOAllocation \<Rightarrow> (string \<times> 'k step) list" where
  "reconcile_phases steps a =
     [(''ensure policy'', rc_EnsurePolicy steps), (''verify policy'', rc_VerifyPolicy steps)] @
     (if iso_Kind a \<noteq> PayloadVM
      then [(''ensure topology'', rc_EnsureTopology steps), (''verify topology'', rc_VerifyTopology steps)] else [])"

definition untrusted ::
  "'k isoReconcileSteps \<Rightarrow> string \<Rightarrow> rt_err \<Rightarrow> 'k host \<Rightarrow> (bool \<times> rt_err option) \<times> 'k host" where
  "untrusted steps service cause s = (case stopAndQuarantineISO steps service cause s of (e, s1) \<Rightarrow> ((False, e), s1))"

definition reconcile_runtime ::
  "'k isoReconcileSteps \<Rightarrow> string \<Rightarrow> ISOAllocation \<Rightarrow> 'k host \<Rightarrow> (bool \<times> rt_err option) \<times> 'k host" where
  "reconcile_runtime steps service a s =
     (if iso_State a \<noteq> StateReady
      then (case rc_VerifyStopped steps service s of
              (Some e, s1) \<Rightarrow> untrusted steps service (StepErr ''verify stopped runtime'' e) s1
            | (None, s1) \<Rightarrow> ((False, None), s1))
      else (case rc_InspectRuntime steps service s of
              (Inl e, s1) \<Rightarrow> untrusted steps service (StepErr ''inspect runtime'' e) s1
            | (Inr runtimeState, s1) \<Rightarrow>
                if runtimeState = isoReconcileRuntimeRunning
                then (if ''ts'' \<in> set (iso_DesiredModes a)
                      then (case rc_VerifyTailscale steps service s1 of
                              (Some e, s2) \<Rightarrow> untrusted steps service (StepErr ''verify Tailscale'' e) s2
                            | (None, s2) \<Rightarrow> ((False, None), s2))
                      else ((False, None), s1))
                else if runtimeState = isoReconcileRuntimeAbsent then ((True, None), s1)
                else untrusted steps service (UnitRemains ''unknown runtime state'' runtimeState) s1))"

definition reconcileISOServiceWith ::
  "('k \<Rightarrow> bool) \<Rightarrow> 'k isoReconcileSteps \<Rightarrow> string \<Rightarrow> ISOAllocation \<Rightarrow> 'k host \<Rightarrow> (bool \<times> rt_err option) \<times> 'k host" where
  "reconcileISOServiceWith canceled steps service a s =
     (case run_checks canceled (reconcile_phases steps a) service s of
        (Some e, s1) \<Rightarrow> untrusted steps service e s1
      | (None, s1) \<Rightarrow> reconcile_runtime steps service a s1)"

fun stop_all :: "'k isoReconcileSteps \<Rightarrow> string list \<Rightarrow> rt_err \<Rightarrow> rt_err option list \<Rightarrow> 'k host \<Rightarrow> rt_err option list \<times> 'k host" where
  "stop_all steps [] cause errs s = (errs, s)"
| "stop_all steps (n # ns) cause errs s =
     (case stopAndQuarantineISO steps n cause s of (e, s1) \<Rightarrow> stop_all steps ns cause (errs @ [e]) s1)"

fun reconcile_all ::
  "('k \<Rightarrow> bool) \<Rightarrow> 'k isoReconcileSteps \<Rightarrow> (string \<times> ISOAllocation) list \<Rightarrow> rt_err option list \<Rightarrow> string list \<Rightarrow> 'k host \<Rightarrow>
   (rt_err option list \<times> string list) \<times> 'k host" where
  "reconcile_all canceled steps [] errs restarts s = ((errs, restarts), s)"
| "reconcile_all canceled steps ((n, a) # rest) errs restarts s =
     (if iso_RemoveRequested a
      then (case wrap_err ''resume ISO removal'' (rc_ResumeRemoval steps n s) of
              (e, s1) \<Rightarrow> reconcile_all canceled steps rest (errs @ [e]) restarts s1)
      else (case reconcileISOServiceWith canceled steps n a s of
              ((restart, Some e), s1) \<Rightarrow> reconcile_all canceled steps rest (errs @ [Some e]) restarts s1
            | ((restart, None), s1) \<Rightarrow>
                reconcile_all canceled steps rest errs (if restart then restarts @ [n] else restarts) s1))"

fun restart_all ::
  "('k \<Rightarrow> bool) \<Rightarrow> 'k isoReconcileSteps \<Rightarrow> string list \<Rightarrow> rt_err option list \<Rightarrow> 'k host \<Rightarrow> rt_err option list \<times> 'k host" where
  "restart_all canceled steps [] errs s = (errs, s)"
| "restart_all canceled steps (n # ns) errs s =
     (if canceled (ho_ext s)
      then (case stopAndQuarantineISO steps n (StepErr ''restart verified ISO service'' Canceled) s of
              (e, s1) \<Rightarrow> restart_all canceled steps ns (errs @ [e]) s1)
      else (case rc_RestartTrusted steps n s of
              (None, s1) \<Rightarrow> restart_all canceled steps ns errs s1
            | (Some e, s1) \<Rightarrow>
                (case stopAndQuarantineISO steps n (StepErr ''restart verified ISO service'' e) s1 of
                   (e2, s2) \<Rightarrow> restart_all canceled steps ns (errs @ [e2]) s2)))"

text \<open>A nil record would make the source panic; here it is an error.\<close>

definition currentISOAllocationNames :: "path \<Rightarrow> 'k host \<Rightarrow> (rt_err + string list) \<times> 'k host" where
  "currentISOAllocationNames dir s =
     (case db_get dir s of
        (Inl e, s1) \<Rightarrow> (Inl (DbErr e), s1)
      | (Inr d, s1) \<Rightarrow>
          (case List.find (\<lambda>(n, sv). sv = None) (Services d) of
             Some (n, _) \<Rightarrow> (Inl (NilRecord n), s1)
           | None \<Rightarrow>
               (Inr (sort (List.map_filter (\<lambda>(n, sv). case sv of
                  Some v \<Rightarrow> (if svc_ISO v = None then None else Some (svc_Name v)) | None \<Rightarrow> None) (Services d))), s1)))"

definition global_phases ::
  "('k \<Rightarrow> bool) \<Rightarrow> 'k isoReconcileSteps \<Rightarrow> 'k host \<Rightarrow> rt_err option \<times> 'k host" where
  "global_phases canceled steps s =
     (case runISOReconcileGlobalPhase canceled ''validate ISO pool'' (rc_ValidatePool steps) s of
        (Some e, s1) \<Rightarrow> (Some e, s1)
      | (None, s1) \<Rightarrow> runISOReconcileGlobalPhase canceled ''install ISO DNS'' (rc_InstallDNS steps) s1)"

definition reconcile_records ::
  "('k \<Rightarrow> bool) \<Rightarrow> 'k isoReconcileSteps \<Rightarrow> (string \<times> ISOAllocation) list \<Rightarrow> 'k host \<Rightarrow> (rt_err option list \<times> string list) \<times> 'k host" where
  "reconcile_records canceled steps records s =
     (case global_phases canceled steps s of
        (Some e, s1) \<Rightarrow>
          (case stop_all steps (map fst records) (JoinErr [e]) [Some e] s1 of (errs, s2) \<Rightarrow> ((errs, []), s2))
      | (None, s1) \<Rightarrow> reconcile_all canceled steps records [] [] s1)"

definition reconcile_finish ::
  "path \<Rightarrow> ('k \<Rightarrow> bool) \<Rightarrow> 'k isoReconcileSteps \<Rightarrow> string list \<Rightarrow> string list \<Rightarrow> rt_err option list \<Rightarrow> 'k host \<Rightarrow> rt_err option list \<times> 'k host" where
  "reconcile_finish dir canceled steps names restarts errs s =
     (case runISOReconcileGlobalPhase canceled ''verify global ISO policy'' (rc_VerifyGlobalPolicy steps) s of
        (Some e, s1) \<Rightarrow>
          (case currentISOAllocationNames dir s1 of
             (Inl loadErr, s2) \<Rightarrow>
               stop_all steps names e (errs @ [Some e, Some (StepErr ''reload ISO records after global policy failure'' loadErr)]) s2
           | (Inr current, s2) \<Rightarrow> stop_all steps current e (errs @ [Some e]) s2)
      | (None, s1) \<Rightarrow> restart_all canceled steps restarts errs s1)"

definition reconcileISONetworksWith ::
  "path \<Rightarrow> ('k \<Rightarrow> bool) \<Rightarrow> 'k isoReconcileSteps \<Rightarrow> 'k host \<Rightarrow> rt_err option \<times> 'k host" where
  "reconcileISONetworksWith dir canceled steps s =
     (case db_get dir s of
        (Inl e, s1) \<Rightarrow> (Some (DbErr e), s1)
      | (Inr d, s1) \<Rightarrow>
          (let records = sort_key fst (service_isos (Services d)) in
           case reconcile_records canceled steps records s1 of
             ((errs, restarts), s2) \<Rightarrow>
               (case reconcile_finish dir canceled steps (map fst records) restarts errs s2 of
                  (errs', s3) \<Rightarrow> (join_rt errs', s3))))"

text \<open>When the gate itself cannot run, every isolated service is stopped and quarantined.\<close>

definition failClosedISONetworks ::
  "path \<Rightarrow> 'k isoReconcileSteps \<Rightarrow> rt_err \<Rightarrow> 'k host \<Rightarrow> rt_err option \<times> 'k host" where
  "failClosedISONetworks dir steps cause s =
     (case currentISOAllocationNames dir s of
        (Inl e, s1) \<Rightarrow> (Some (StepErr ''load ISO records for fail-closed startup'' e), s1)
      | (Inr names, s1) \<Rightarrow> (case stop_all steps names cause [] s1 of (errs, s2) \<Rightarrow> (join_rt errs, s2)))"

section \<open>The log of a run\<close>

datatype event =
    Global string "rt_err option"
  | Called string string "rt_err option"
  | Inspected string "rt_err + string"

definition strip_log :: "('k \<times> event list) host \<Rightarrow> 'k host" where
  "strip_log s = \<lparr>ho_store = ho_store s, ho_ext = fst (ho_ext s)\<rparr>"

definition log_of :: "('k \<times> event list) host \<Rightarrow> event list" where
  "log_of s = snd (ho_ext s)"

definition observe :: "('r \<Rightarrow> event) \<Rightarrow> ('k host \<Rightarrow> 'r \<times> 'k host) \<Rightarrow> ('k \<times> event list) host \<Rightarrow> 'r \<times> ('k \<times> event list) host" where
  "observe ev f s =
     (case f (strip_log s) of (r, s1) \<Rightarrow> (r, \<lparr>ho_store = ho_store s1, ho_ext = (ho_ext s1, log_of s @ [ev r])\<rparr>))"

definition observed :: "'k isoReconcileSteps \<Rightarrow> ('k \<times> event list) isoReconcileSteps" where
  "observed steps =
     \<lparr>rc_ValidatePool = observe (Global ''validate-pool'') (rc_ValidatePool steps),
      rc_InstallDNS = observe (Global ''install-dns'') (rc_InstallDNS steps),
      rc_EnsurePolicy = (\<lambda>n. observe (Called ''ensure-policy'' n) (rc_EnsurePolicy steps n)),
      rc_VerifyPolicy = (\<lambda>n. observe (Called ''verify-policy'' n) (rc_VerifyPolicy steps n)),
      rc_EnsureTopology = (\<lambda>n. observe (Called ''ensure-topology'' n) (rc_EnsureTopology steps n)),
      rc_VerifyTopology = (\<lambda>n. observe (Called ''verify-topology'' n) (rc_VerifyTopology steps n)),
      rc_InspectRuntime = (\<lambda>n. observe (Inspected n) (rc_InspectRuntime steps n)),
      rc_VerifyStopped = (\<lambda>n. observe (Called ''verify-stopped'' n) (rc_VerifyStopped steps n)),
      rc_VerifyTailscale = (\<lambda>n. observe (Called ''verify-tailscale'' n) (rc_VerifyTailscale steps n)),
      rc_ResumeRemoval = (\<lambda>n. observe (Called ''resume-removal'' n) (rc_ResumeRemoval steps n)),
      rc_StopUntrusted = (\<lambda>n. observe (Called ''stop'' n) (rc_StopUntrusted steps n)),
      rc_Quarantine = (\<lambda>cause n. observe (Called ''quarantine'' n) (rc_Quarantine steps cause n)),
      rc_VerifyGlobalPolicy = observe (Global ''verify-global-policy'') (rc_VerifyGlobalPolicy steps),
      rc_RestartTrusted = (\<lambda>n. observe (Called ''restart'' n) (rc_RestartTrusted steps n))\<rparr>"

text \<open>An operation on the logging host that does what another does on the plain host.\<close>

definition mirrors :: "(('k \<times> event list) host \<Rightarrow> 'r \<times> ('k \<times> event list) host) \<Rightarrow> ('k host \<Rightarrow> 'r \<times> 'k host) \<Rightarrow> bool" where
  "mirrors f g \<longleftrightarrow> (\<forall>s. g (strip_log s) = (fst (f s), strip_log (snd (f s))))"

named_theorems mirror_intros

lemma mirror_observe [mirror_intros]: "mirrors (observe ev f) f"
  by (simp add: mirrors_def observe_def strip_log_def split: prod.splits)

lemma mirror_get [mirror_intros]: "mirrors (db_get dir) (db_get dir)"
  by (simp add: mirrors_def db_get_def on_store_def strip_log_def split: prod.splits)

lemma mirror_return [mirror_intros]: "mirrors (\<lambda>s. (r, s)) (\<lambda>s. (r, s))"
  by (simp add: mirrors_def)

lemma mirror_bind [mirror_intros]:
  "mirrors f g \<Longrightarrow> (\<And>r. mirrors (f' r) (g' r)) \<Longrightarrow> mirrors (\<lambda>s. case f s of (r, s1) \<Rightarrow> f' r s1) (\<lambda>s. case g s of (r, s1) \<Rightarrow> g' r s1)"
  by (simp add: mirrors_def case_prod_unfold)

lemma mirror_if [mirror_intros]:
  "mirrors f g \<Longrightarrow> mirrors f' g' \<Longrightarrow> mirrors (\<lambda>s. if (canceled \<circ> fst) (ho_ext s) then f s else f' s) (\<lambda>s. if canceled (ho_ext s) then g s else g' s)"
  by (simp add: mirrors_def strip_log_def)

lemma mirror_option [mirror_intros]:
  "mirrors f g \<Longrightarrow> (\<And>e. mirrors (f' e) (g' e)) \<Longrightarrow>
   mirrors (\<lambda>s. case r of None \<Rightarrow> f s | Some e \<Rightarrow> f' e s) (\<lambda>s. case r of None \<Rightarrow> g s | Some e \<Rightarrow> g' e s)"
  by (cases r) simp_all

lemma mirror_sum [mirror_intros]:
  "(\<And>e. mirrors (f e) (g e)) \<Longrightarrow> (\<And>e. mirrors (f' e) (g' e)) \<Longrightarrow>
   mirrors (\<lambda>s. case r of Inl e \<Rightarrow> f e s | Inr e \<Rightarrow> f' e s) (\<lambda>s. case r of Inl e \<Rightarrow> g e s | Inr e \<Rightarrow> g' e s)"
  by (cases r) simp_all

lemma mirror_prod [mirror_intros]:
  "(\<And>x y. mirrors (f x y) (g x y)) \<Longrightarrow> mirrors (\<lambda>s. case r of (x, y) \<Rightarrow> f x y s) (\<lambda>s. case r of (x, y) \<Rightarrow> g x y s)"
  by (cases r) simp

lemma mirror_cond [mirror_intros]:
  "(b \<Longrightarrow> mirrors f g) \<Longrightarrow> (\<not> b \<Longrightarrow> mirrors f' g') \<Longrightarrow> mirrors (\<lambda>s. if b then f s else f' s) (\<lambda>s. if b then g s else g' s)"
  by (cases b) simp_all

lemma mirror_wrap [mirror_intros]: "mirrors f g \<Longrightarrow> mirrors (\<lambda>s. wrap_err name (f s)) (\<lambda>s. wrap_err name (g s))"
  by (simp add: mirrors_def wrap_err_def)

lemma observed_sel [simp]:
  "rc_ValidatePool (observed steps) = observe (Global ''validate-pool'') (rc_ValidatePool steps)"
  "rc_InstallDNS (observed steps) = observe (Global ''install-dns'') (rc_InstallDNS steps)"
  "rc_EnsurePolicy (observed steps) n = observe (Called ''ensure-policy'' n) (rc_EnsurePolicy steps n)"
  "rc_VerifyPolicy (observed steps) n = observe (Called ''verify-policy'' n) (rc_VerifyPolicy steps n)"
  "rc_EnsureTopology (observed steps) n = observe (Called ''ensure-topology'' n) (rc_EnsureTopology steps n)"
  "rc_VerifyTopology (observed steps) n = observe (Called ''verify-topology'' n) (rc_VerifyTopology steps n)"
  "rc_InspectRuntime (observed steps) n = observe (Inspected n) (rc_InspectRuntime steps n)"
  "rc_VerifyStopped (observed steps) n = observe (Called ''verify-stopped'' n) (rc_VerifyStopped steps n)"
  "rc_VerifyTailscale (observed steps) n = observe (Called ''verify-tailscale'' n) (rc_VerifyTailscale steps n)"
  "rc_ResumeRemoval (observed steps) n = observe (Called ''resume-removal'' n) (rc_ResumeRemoval steps n)"
  "rc_StopUntrusted (observed steps) n = observe (Called ''stop'' n) (rc_StopUntrusted steps n)"
  "rc_Quarantine (observed steps) cause n = observe (Called ''quarantine'' n) (rc_Quarantine steps cause n)"
  "rc_VerifyGlobalPolicy (observed steps) = observe (Global ''verify-global-policy'') (rc_VerifyGlobalPolicy steps)"
  "rc_RestartTrusted (observed steps) n = observe (Called ''restart'' n) (rc_RestartTrusted steps n)"
  by (simp_all add: observed_def)

lemma mirror_eta: "mirrors (\<lambda>s. f s) (\<lambda>s. g s) \<Longrightarrow> mirrors f g"
  by simp

lemma mirror_stop [mirror_intros]: "mirrors (stopAndQuarantineISO (observed steps) n cause) (stopAndQuarantineISO steps n cause)"
  by (rule mirror_eta, unfold stopAndQuarantineISO_def observed_sel) (intro mirror_intros)

lemma mirror_untrusted [mirror_intros]: "mirrors (untrusted (observed steps) n cause) (untrusted steps n cause)"
  by (rule mirror_eta, unfold untrusted_def) (intro mirror_intros)

lemma mirror_runtime [mirror_intros]: "mirrors (reconcile_runtime (observed steps) n a) (reconcile_runtime steps n a)"
  by (rule mirror_eta, unfold reconcile_runtime_def observed_sel) (intro mirror_intros)

lemma mirror_checks:
  "list_all2 (\<lambda>(l, f) (m, g). l = m \<and> mirrors (f n) (g n)) xs ys \<Longrightarrow>
   mirrors (run_checks (canceled \<circ> fst) xs n) (run_checks canceled ys n)"
proof (induction xs ys rule: list_all2_induct)
  case Nil
  then show ?case by (simp add: mirrors_def)
next
  case (Cons x xs y ys)
  obtain l f g where xy: "x = (l, f)" "y = (l, g)" "mirrors (f n) (g n)" using Cons(1) by (cases x, cases y) auto
  show ?case by (rule mirror_eta, unfold xy run_checks.simps) (intro mirror_intros xy(3) Cons.IH)
qed

lemma mirror_service [mirror_intros]:
  "mirrors (reconcileISOServiceWith (canceled \<circ> fst) (observed steps) n a) (reconcileISOServiceWith canceled steps n a)"
proof -
  have c: "mirrors (run_checks (canceled \<circ> fst) (reconcile_phases (observed steps) a) n) (run_checks canceled (reconcile_phases steps a) n)"
    by (rule mirror_checks) (simp add: reconcile_phases_def mirror_observe)
  show ?thesis by (rule mirror_eta, unfold reconcileISOServiceWith_def) (intro mirror_intros c)
qed

lemma mirror_stop_all [mirror_intros]: "mirrors (stop_all (observed steps) ns cause errs) (stop_all steps ns cause errs)"
proof (induction ns arbitrary: errs)
  case (Cons n ns)
  show ?case by (rule mirror_eta, unfold stop_all.simps) (intro mirror_intros Cons)
qed (simp add: mirrors_def)

lemma mirror_reconcile_all [mirror_intros]:
  "mirrors (reconcile_all (canceled \<circ> fst) (observed steps) rs errs restarts) (reconcile_all canceled steps rs errs restarts)"
proof (induction rs arbitrary: errs restarts)
  case (Cons r rs)
  obtain n a where r: "r = (n, a)" by force
  show ?case by (rule mirror_eta, unfold r reconcile_all.simps observed_sel) (intro mirror_intros Cons)
qed (simp add: mirrors_def)

lemma mirror_restart_all [mirror_intros]:
  "mirrors (restart_all (canceled \<circ> fst) (observed steps) ns errs) (restart_all canceled steps ns errs)"
proof (induction ns arbitrary: errs)
  case (Cons n ns)
  show ?case by (rule mirror_eta, unfold restart_all.simps observed_sel) (intro mirror_intros Cons)
qed (simp add: mirrors_def)

lemma mirror_names [mirror_intros]: "mirrors (currentISOAllocationNames dir) (currentISOAllocationNames dir)"
  by (rule mirror_eta, unfold currentISOAllocationNames_def) (intro mirror_intros)

lemma mirror_global_phase [mirror_intros]:
  "mirrors f g \<Longrightarrow> mirrors (runISOReconcileGlobalPhase (canceled \<circ> fst) name f) (runISOReconcileGlobalPhase canceled name g)"
  by (rule mirror_eta, unfold runISOReconcileGlobalPhase_def) (intro mirror_intros)

text \<open>Watching the run does not change it.\<close>

lemma observed_run:
  "mirrors (reconcileISONetworksWith dir (canceled \<circ> fst) (observed steps)) (reconcileISONetworksWith dir canceled steps)"
  by (rule mirror_eta, unfold reconcileISONetworksWith_def reconcile_records_def reconcile_finish_def global_phases_def Let_def observed_sel)
    (intro mirror_intros)

section \<open>What the log shows\<close>

fun failing :: "string \<Rightarrow> event \<Rightarrow> bool" where
  "failing n (Global p e) = False"
| "failing n (Called p m e) = (m = n \<and> e \<noteq> None \<and> p \<notin> {''stop'', ''quarantine'', ''resume-removal''})"
| "failing n (Inspected m r) =
     (m = n \<and> (case r of Inl _ \<Rightarrow> True | Inr st \<Rightarrow> st \<noteq> isoReconcileRuntimeRunning \<and> st \<noteq> isoReconcileRuntimeAbsent))"

fun about :: "string \<Rightarrow> event \<Rightarrow> bool" where
  "about n (Global p e) = False"
| "about n (Called p m e) = (m = n)"
| "about n (Inspected m r) = (m = n)"

definition is_restart :: "string \<Rightarrow> event \<Rightarrow> bool" where
  "is_restart n ev \<longleftrightarrow> (\<exists>e. ev = Called ''restart'' n e)"

definition is_stop :: "string \<Rightarrow> event \<Rightarrow> bool" where
  "is_stop n ev \<longleftrightarrow> (\<exists>e. ev = Called ''stop'' n e)"

text \<open>The workload is stopped and then quarantined.\<close>

definition fenced :: "string \<Rightarrow> event list \<Rightarrow> bool" where
  "fenced n l \<longleftrightarrow> (\<exists>us e1 e2 vs. l = us @ Called ''stop'' n e1 # Called ''quarantine'' n e2 # vs)"

text \<open>Whatever fails for a service is followed by its stop and its quarantine and never by its restart.\<close>

definition fail_closed :: "string \<Rightarrow> event list \<Rightarrow> bool" where
  "fail_closed n l \<longleftrightarrow>
     (\<forall>xs ev ys. l = xs @ ev # ys \<longrightarrow> failing n ev \<longrightarrow> fenced n ys \<and> (\<forall>e \<in> set ys. \<not> is_restart n e))"

lemma fenced_append: "fenced n l \<Longrightarrow> fenced n (l @ m)" "fenced n m \<Longrightarrow> fenced n (l @ m)"
proof -
  assume "fenced n l"
  then obtain us e1 e2 vs where "l = us @ Called ''stop'' n e1 # Called ''quarantine'' n e2 # vs" by (auto simp: fenced_def)
  then have "l @ m = us @ Called ''stop'' n e1 # Called ''quarantine'' n e2 # (vs @ m)" by simp
  then show "fenced n (l @ m)" unfolding fenced_def by blast
next
  assume "fenced n m"
  then obtain us e1 e2 vs where "m = us @ Called ''stop'' n e1 # Called ''quarantine'' n e2 # vs" by (auto simp: fenced_def)
  then have "l @ m = (l @ us) @ Called ''stop'' n e1 # Called ''quarantine'' n e2 # vs" by simp
  then show "fenced n (l @ m)" unfolding fenced_def by blast
qed

lemma fail_closed_append:
  assumes "fail_closed n l" "fail_closed n m" "(\<exists>e \<in> set l. failing n e) \<Longrightarrow> \<forall>e \<in> set m. \<not> is_restart n e"
  shows "fail_closed n (l @ m)"
  unfolding fail_closed_def
proof (intro allI impI)
  fix xs ev ys assume l: "l @ m = xs @ ev # ys" and f: "failing n ev"
  then consider us where "l = xs @ ev # us" "ys = us @ m" | us where "m = us @ ev # ys"
    by (auto simp: append_eq_append_conv2 append_eq_Cons_conv Cons_eq_append_conv)
  then show "fenced n ys \<and> (\<forall>e \<in> set ys. \<not> is_restart n e)"
  proof cases
    case (1 us)
    then have "fenced n us \<and> (\<forall>e \<in> set us. \<not> is_restart n e)" using assms(1) f unfolding fail_closed_def by blast
    moreover have "\<forall>e \<in> set m. \<not> is_restart n e" using assms(3) 1(1) f by auto
    ultimately show ?thesis using 1(2) fenced_append by auto
  next
    case (2 us)
    then show ?thesis using assms(2) f unfolding fail_closed_def by blast
  qed
qed

lemma fail_closed_clean: "(\<And>e. e \<in> set l \<Longrightarrow> \<not> failing n e) \<Longrightarrow> fail_closed n l"
  by (auto simp: fail_closed_def)

text \<open>A failing tail that is stopped and quarantined.\<close>

lemma fail_closed_stop:
  assumes "\<And>e. e \<in> set l \<Longrightarrow> \<not> is_restart n e" "m = [Called ''stop'' n e1, Called ''quarantine'' n e2]"
  shows "fail_closed n (l @ m)"
  unfolding fail_closed_def
proof (intro allI impI)
  fix xs ev ys assume l: "l @ m = xs @ ev # ys" and f: "failing n ev"
  then consider us where "l = xs @ ev # us" "ys = us @ m" | us where "m = us @ ev # ys"
    by (auto simp: append_eq_append_conv2 append_eq_Cons_conv Cons_eq_append_conv)
  then show "fenced n ys \<and> (\<forall>e \<in> set ys. \<not> is_restart n e)"
  proof cases
    case (1 us)
    have "fenced n m" unfolding fenced_def assms(2) by blast
    moreover have "\<forall>e \<in> set ys. \<not> is_restart n e" using assms 1 by (auto simp: is_restart_def)
    ultimately show ?thesis using 1(2) fenced_append(2) by blast
  next
    case (2 us)
    then have "ev \<in> set m" by simp
    then show ?thesis using f assms(2) by auto
  qed
qed

text \<open>An operation that only appends to the log, and what it appends.\<close>

definition logs :: "(('k \<times> event list) host \<Rightarrow> 'r \<times> ('k \<times> event list) host) \<Rightarrow> ('r \<Rightarrow> event list \<Rightarrow> bool) \<Rightarrow> bool" where
  "logs f P \<longleftrightarrow> (\<forall>s r s'. f s = (r, s') \<longrightarrow> (\<exists>l. log_of s' = log_of s @ l \<and> P r l))"

lemma logsD: "logs f P \<Longrightarrow> f s = (r, s') \<Longrightarrow> \<exists>l. log_of s' = log_of s @ l \<and> P r l"
  by (simp add: logs_def)

lemma logs_observe: "logs (observe ev f) (\<lambda>r l. l = [ev r])"
  by (auto simp: logs_def observe_def log_of_def split: prod.splits)

lemma logs_quiet: "(\<And>s. log_of (snd (f s)) = log_of s) \<Longrightarrow> logs f (\<lambda>r l. l = [])"
  by (auto simp: logs_def) (metis snd_conv)

lemma logs_bind:
  assumes "logs f P" "\<And>r. logs (g r) (Q r)"
  shows "logs (\<lambda>s. case f s of (r, s1) \<Rightarrow> g r s1) (\<lambda>r' l. \<exists>r l1 l2. l = l1 @ l2 \<and> P r l1 \<and> Q r r' l2)"
  unfolding logs_def
proof (intro allI impI)
  fix s r' s' assume "(case f s of (r, s1) \<Rightarrow> g r s1) = (r', s')"
  then obtain r s1 where fg: "f s = (r, s1)" "g r s1 = (r', s')" by (cases "f s") auto
  obtain l1 l2 where "log_of s1 = log_of s @ l1" "P r l1" "log_of s' = log_of s1 @ l2" "Q r r' l2"
    using logsD [OF assms(1) fg(1)] logsD [OF assms(2) fg(2)] by blast
  then have "log_of s' = log_of s @ (l1 @ l2)" "P r l1" "Q r r' l2" by simp_all
  then show "\<exists>l. log_of s' = log_of s @ l \<and> (\<exists>r l1 l2. l = l1 @ l2 \<and> P r l1 \<and> Q r r' l2)" by blast
qed

lemma logs_mono: "logs f P \<Longrightarrow> (\<And>r l. P r l \<Longrightarrow> Q r l) \<Longrightarrow> logs f Q"
  unfolding logs_def by meson

lemma logs_return: "logs (\<lambda>s. (x, s)) (\<lambda>r l. r = x \<and> l = [])"
  by (auto simp: logs_def)

lemma logs_option:
  "logs f P \<Longrightarrow> (\<And>e. logs (g e) (Q e)) \<Longrightarrow>
   logs (\<lambda>s. case r of None \<Rightarrow> f s | Some e \<Rightarrow> g e s) (\<lambda>x l. case r of None \<Rightarrow> P x l | Some e \<Rightarrow> Q e x l)"
  by (cases r) simp_all

lemma logs_sum:
  "(\<And>e. logs (f e) (P e)) \<Longrightarrow> (\<And>e. logs (g e) (Q e)) \<Longrightarrow>
   logs (\<lambda>s. case r of Inl e \<Rightarrow> f e s | Inr e \<Rightarrow> g e s) (\<lambda>x l. case r of Inl e \<Rightarrow> P e x l | Inr e \<Rightarrow> Q e x l)"
  by (cases r) simp_all

lemma logs_if: "logs f P \<Longrightarrow> logs g Q \<Longrightarrow> logs (\<lambda>s. if b then f s else g s) (\<lambda>x l. if b then P x l else Q x l)"
  by (cases b) simp_all

lemma logs_stop:
  "logs (stopAndQuarantineISO (observed steps) n cause)
     (\<lambda>r l. r \<noteq> None \<and> (\<exists>e1 e2. l = [Called ''stop'' n e1, Called ''quarantine'' n e2]))"
proof -
  have q: "logs (\<lambda>s. case observe (Called ''quarantine'' n) (rc_Quarantine steps cause n) s of (e2, s2) \<Rightarrow> (join_rt [Some cause, e1, e2], s2))
      (\<lambda>r l. r \<noteq> None \<and> (\<exists>e2. l = [Called ''quarantine'' n e2]))" for e1
  proof (rule logs_mono [OF logs_bind [OF logs_observe logs_return]])
    have "join_rt [Some cause, e1, e2] \<noteq> None" for e2 using join_rt_None [of "[Some cause, e1, e2]"] by simp
    then show "\<exists>r' l1 l2. l = l1 @ l2 \<and> l1 = [Called ''quarantine'' n r'] \<and> r = join_rt [Some cause, e1, r'] \<and> l2 = [] \<Longrightarrow>
        r \<noteq> None \<and> (\<exists>e2. l = [Called ''quarantine'' n e2])" for r l by auto
  qed
  have "logs (\<lambda>s. stopAndQuarantineISO (observed steps) n cause s)
     (\<lambda>r l. r \<noteq> None \<and> (\<exists>e1 e2. l = [Called ''stop'' n e1, Called ''quarantine'' n e2]))"
    unfolding stopAndQuarantineISO_def observed_sel
    by (rule logs_mono [OF logs_bind [OF logs_observe q]]) auto
  then show ?thesis by simp
qed

text \<open>The log of one service: it ends with the stop and the quarantine, or nothing failed.\<close>

definition service_log :: "string \<Rightarrow> bool \<times> rt_err option \<Rightarrow> event list \<Rightarrow> bool" where
  "service_log n r l \<longleftrightarrow>
     (\<forall>ev \<in> set l. about n ev \<and> \<not> is_restart n ev) \<and>
     (if snd r = None then \<forall>ev \<in> set l. \<not> failing n ev \<and> \<not> is_stop n ev
      else \<not> fst r \<and> (\<exists>m e1 e2. l = m @ [Called ''stop'' n e1, Called ''quarantine'' n e2]))"

lemma service_log_prefix:
  assumes "service_log n r l" "\<forall>ev \<in> set c. about n ev \<and> \<not> is_restart n ev"
    and "snd r = None \<Longrightarrow> \<forall>ev \<in> set c. \<not> failing n ev \<and> \<not> is_stop n ev"
  shows "service_log n r (c @ l)"
proof (cases "snd r")
  case None
  then show ?thesis using assms by (auto simp: service_log_def)
next
  case (Some x)
  then obtain m e1 e2 where m: "l = m @ [Called ''stop'' n e1, Called ''quarantine'' n e2]" "\<not> fst r"
    using assms(1) by (auto simp: service_log_def)
  have "c @ l = (c @ m) @ [Called ''stop'' n e1, Called ''quarantine'' n e2]" by (simp add: m(1))
  then show ?thesis using Some assms(1,2) m(2) unfolding service_log_def by auto
qed

lemma service_log_closed:
  assumes "service_log n r l"
  shows "fail_closed n l" "snd r \<noteq> None \<Longrightarrow> fenced n l" "m \<noteq> n \<Longrightarrow> fail_closed m l"
proof -
  show "fenced n l" if err: "snd r \<noteq> None"
  proof -
    obtain m e1 e2 where "l = m @ Called ''stop'' n e1 # Called ''quarantine'' n e2 # []" using assms err by (auto simp: service_log_def)
    then show ?thesis unfolding fenced_def by blast
  qed
  show "fail_closed n l"
  proof (cases "snd r")
    case None
    then show ?thesis using assms by (intro fail_closed_clean) (simp add: service_log_def)
  next
    case (Some x)
    then obtain k e1 e2 where k: "l = k @ [Called ''stop'' n e1, Called ''quarantine'' n e2]" using assms by (auto simp: service_log_def)
    then show ?thesis using assms by (simp only: k) (rule fail_closed_stop, auto simp: service_log_def k)
  qed
  have "about n ev \<Longrightarrow> m \<noteq> n \<Longrightarrow> \<not> failing m ev" for ev by (cases ev) auto
  then show "m \<noteq> n \<Longrightarrow> fail_closed m l" using assms by (intro fail_closed_clean) (auto simp: service_log_def)
qed

lemma logs_untrusted: "logs (untrusted (observed steps) n cause) (\<lambda>r l. snd r \<noteq> None \<and> service_log n r l)"
proof -
  have "logs (\<lambda>s. untrusted (observed steps) n cause s) (\<lambda>r l. snd r \<noteq> None \<and> service_log n r l)"
    unfolding untrusted_def
    by (rule logs_mono [OF logs_bind [OF logs_stop logs_return]]) (auto simp: service_log_def is_restart_def)
  then show ?thesis by simp
qed

definition inspected_absent :: "string \<Rightarrow> event" where
  "inspected_absent n = Inspected n (Inr isoReconcileRuntimeAbsent)"

lemma logs_step:
  assumes "p \<notin> {''stop'', ''quarantine'', ''resume-removal'', ''restart''}"
  shows "logs (\<lambda>s. case observe (Called p n) f s of (None, s1) \<Rightarrow> ((False, None), s1) | (Some e, s1) \<Rightarrow> untrusted (observed steps) n (h e) s1) (\<lambda>r l. service_log n r l \<and> \<not> fst r)"
proof (rule logs_mono [OF logs_bind [OF logs_observe logs_option [OF logs_return logs_untrusted]]])
  fix r' l
  assume "\<exists>r l1 l2. l = l1 @ l2 \<and> l1 = [Called p n r] \<and>
    (case r of None \<Rightarrow> r' = (False, None) \<and> l2 = [] | Some e \<Rightarrow> snd r' \<noteq> None \<and> service_log n r' l2)"
  then obtain r l2 where l: "l = [Called p n r] @ l2"
    "case r of None \<Rightarrow> r' = (False, None) \<and> l2 = [] | Some e \<Rightarrow> snd r' \<noteq> None \<and> service_log n r' l2" by blast
  show "service_log n r' l \<and> \<not> fst r'"
  proof (cases r)
    case None
    then show ?thesis using l assms by (auto simp: service_log_def is_restart_def is_stop_def)
  next
    case (Some e)
    then have r': "snd r' \<noteq> None" "service_log n r' l2" using l(2) by auto
    then have "service_log n r' l" unfolding l(1) using assms by (intro service_log_prefix) (auto simp: is_restart_def)
    then show ?thesis using r'(1) by (auto simp: service_log_def)
  qed
qed

text \<open>What has to succeed before a workload may be restarted.\<close>

definition trusted_events :: "string \<Rightarrow> ISOAllocation \<Rightarrow> event list" where
  "trusted_events n a =
     [Called ''ensure-policy'' n None, Called ''verify-policy'' n None] @
     (if iso_Kind a \<noteq> PayloadVM then [Called ''ensure-topology'' n None, Called ''verify-topology'' n None] else [])"

lemma logs_runtime:
  "logs (reconcile_runtime (observed steps) n a)
     (\<lambda>r l. service_log n r l \<and> (fst r \<longrightarrow> iso_State a = StateReady \<and> inspected_absent n \<in> set l))"
proof -
  let ?P = "\<lambda>r l. service_log n r l \<and> (fst r \<longrightarrow> iso_State a = StateReady \<and> inspected_absent n \<in> set l)"
  have stopped: "logs (\<lambda>s. case observe (Called ''verify-stopped'' n) f s of (Some e, s1) \<Rightarrow> untrusted (observed steps) n (h e) s1
      | (None, s1) \<Rightarrow> ((False, None), s1)) ?P" for f h
    by (rule logs_mono [OF logs_step]) auto
  have running: "logs (\<lambda>s. if ''ts'' \<in> set (iso_DesiredModes a)
        then case observe (Called ''verify-tailscale'' n) f s of (Some e, s2) \<Rightarrow> untrusted (observed steps) n (h e) s2
             | (None, s2) \<Rightarrow> ((False, None), s2)
        else ((False, None), s)) (\<lambda>r l. service_log n r l \<and> \<not> fst r)" for f h
    by (rule logs_mono [OF logs_if [OF logs_step logs_return]]) (auto simp: service_log_def split: if_splits)
  have state: "logs (\<lambda>s. if st = isoReconcileRuntimeRunning then
          (if ''ts'' \<in> set (iso_DesiredModes a)
           then case observe (Called ''verify-tailscale'' n) f s of (Some e, s2) \<Rightarrow> untrusted (observed steps) n (h e) s2
                | (None, s2) \<Rightarrow> ((False, None), s2)
           else ((False, None), s))
        else if st = isoReconcileRuntimeAbsent then ((True, None), s) else untrusted (observed steps) n (g st) s)
      (\<lambda>r l. service_log n r l \<and> (fst r \<longrightarrow> st = isoReconcileRuntimeAbsent) \<and> (snd r = None \<longrightarrow> \<not> failing n (Inspected n (Inr st))))" for st f h g
    by (rule logs_mono [OF logs_if [OF running logs_if [OF logs_return logs_untrusted]]]) (auto simp: service_log_def split: if_splits)
  have inspect: "logs (\<lambda>s. case observe (Inspected n) f s of (Inl e, s1) \<Rightarrow> untrusted (observed steps) n (k e) s1
      | (Inr st, s1) \<Rightarrow> if st = isoReconcileRuntimeRunning then
          (if ''ts'' \<in> set (iso_DesiredModes a)
           then case observe (Called ''verify-tailscale'' n) f' s1 of (Some e, s2) \<Rightarrow> untrusted (observed steps) n (h e) s2
                | (None, s2) \<Rightarrow> ((False, None), s2)
           else ((False, None), s1))
        else if st = isoReconcileRuntimeAbsent then ((True, None), s1) else untrusted (observed steps) n (g st) s1)
      (\<lambda>r l. service_log n r l \<and> (fst r \<longrightarrow> inspected_absent n \<in> set l))" for f f' g h k
  proof (rule logs_mono [OF logs_bind [OF logs_observe logs_sum [OF logs_untrusted state]]])
    fix r' l
    assume "\<exists>r l1 l2. l = l1 @ l2 \<and> l1 = [Inspected n r] \<and>
      (case r of Inl e \<Rightarrow> snd r' \<noteq> None \<and> service_log n r' l2
       | Inr st \<Rightarrow> service_log n r' l2 \<and> (fst r' \<longrightarrow> st = isoReconcileRuntimeAbsent) \<and> (snd r' = None \<longrightarrow> \<not> failing n (Inspected n (Inr st))))"
    then obtain r l2 where l: "l = [Inspected n r] @ l2"
      "case r of Inl e \<Rightarrow> snd r' \<noteq> None \<and> service_log n r' l2
       | Inr st \<Rightarrow> service_log n r' l2 \<and> (fst r' \<longrightarrow> st = isoReconcileRuntimeAbsent) \<and> (snd r' = None \<longrightarrow> \<not> failing n (Inspected n (Inr st)))" by blast
    have s2: "service_log n r' l2" "snd r' = None \<Longrightarrow> \<not> failing n (Inspected n r)" using l(2) by (auto split: sum.splits)
    have "service_log n r' l" unfolding l(1) using s2 by (intro service_log_prefix) (auto simp: is_restart_def is_stop_def)
    moreover have "inspected_absent n \<in> set l" if "fst r'"
      using l that by (cases r) (auto simp: inspected_absent_def service_log_def)
    ultimately show "service_log n r' l \<and> (fst r' \<longrightarrow> inspected_absent n \<in> set l)" by blast
  qed
  have "logs (\<lambda>s. reconcile_runtime (observed steps) n a s) ?P"
    unfolding reconcile_runtime_def observed_sel
    by (cases "iso_State a = StateReady") (use stopped inspect in \<open>simp_all\<close>)
  then show ?thesis by simp
qed

lemma logs_checks:
  "logs (run_checks canceled (map (\<lambda>(l, p, f). (l, \<lambda>n. observe (Called p n) (f n))) xs) n)
     (\<lambda>e l. (\<forall>ev \<in> set l. \<exists>p x. ev = Called p n x \<and> p \<in> (fst \<circ> snd) ` set xs) \<and>
        (e = None \<longrightarrow> l = map (\<lambda>(l, p, f). Called p n None) xs))"
proof (induction xs)
  case Nil
  then show ?case by (auto simp: logs_def)
next
  case (Cons x xs)
  obtain m p f where x: "x = (m, p, f)" by (metis surj_pair)
  let ?Q = "\<lambda>e l. (\<forall>ev \<in> set l. \<exists>p x. ev = Called p n x \<and> p \<in> (fst \<circ> snd) ` set xs) \<and> (e = None \<longrightarrow> l = map (\<lambda>(l, p, f). Called p n None) xs)"
  let ?R = "\<lambda>e l. (\<forall>ev \<in> set l. \<exists>q y. ev = Called q n y \<and> q \<in> (fst \<circ> snd) ` set (x # xs)) \<and> (e = None \<longrightarrow> l = map (\<lambda>(l, p, f). Called p n None) (x # xs))"
  have run: "logs (\<lambda>s. case observe (Called p n) (f n) s of (Some e, s1) \<Rightarrow> (Some (StepErr m e), s1)
      | (None, s1) \<Rightarrow> run_checks canceled (map (\<lambda>(l, p, f). (l, \<lambda>n. observe (Called p n) (f n))) xs) n s1) ?R"
    by (rule logs_mono [OF logs_bind [OF logs_observe logs_option [OF Cons logs_return]]]) (fastforce simp: x split: option.splits)
  have stop: "logs (\<lambda>s. (Some (StepErr m Canceled), s)) ?R" by (rule logs_mono [OF logs_return]) auto
  show ?case
    unfolding logs_def
  proof (intro allI impI)
    fix s e s' assume *: "run_checks canceled (map (\<lambda>(l, p, f). (l, \<lambda>n. observe (Called p n) (f n))) (x # xs)) n s = (e, s')"
    show "\<exists>l. log_of s' = log_of s @ l \<and> ?R e l"
    proof (cases "canceled (ho_ext s)")
      case True
      then show ?thesis using * logsD [OF stop] by (simp add: x)
    next
      case False
      then have "(case observe (Called p n) (f n) s of (Some e, s1) \<Rightarrow> (Some (StepErr m e), s1)
        | (None, s1) \<Rightarrow> run_checks canceled (map (\<lambda>(l, p, f). (l, \<lambda>n. observe (Called p n) (f n))) xs) n s1) = (e, s')"
        using * by (simp add: x)
      then show ?thesis by (rule logsD [OF run])
    qed
  qed
qed

lemma observed_phases:
  "reconcile_phases (observed steps) a = map (\<lambda>(l, p, f). (l, \<lambda>n. observe (Called p n) (f n)))
     ([(''ensure policy'', ''ensure-policy'', rc_EnsurePolicy steps), (''verify policy'', ''verify-policy'', rc_VerifyPolicy steps)] @
      (if iso_Kind a \<noteq> PayloadVM
       then [(''ensure topology'', ''ensure-topology'', rc_EnsureTopology steps), (''verify topology'', ''verify-topology'', rc_VerifyTopology steps)] else []))"
  by (simp add: reconcile_phases_def observed_def)

lemma logs_phases:
  "logs (run_checks canceled (reconcile_phases (observed steps) a) n)
     (\<lambda>e l. (\<forall>ev \<in> set l. about n ev \<and> \<not> is_restart n ev \<and> \<not> is_stop n ev) \<and> (e = None \<longrightarrow> l = trusted_events n a))"
  unfolding observed_phases
  by (rule logs_mono [OF logs_checks]) (auto simp: is_restart_def is_stop_def trusted_events_def split: if_splits)

lemma logs_service:
  "logs (reconcileISOServiceWith canceled (observed steps) n a)
     (\<lambda>r l. service_log n r l \<and> (fst r \<longrightarrow> snd r = None \<and> iso_State a = StateReady \<and> set (inspected_absent n # trusted_events n a) \<subseteq> set l))"
proof -
  have "logs (\<lambda>s. reconcileISOServiceWith canceled (observed steps) n a s)
     (\<lambda>r l. service_log n r l \<and> (fst r \<longrightarrow> snd r = None \<and> iso_State a = StateReady \<and> set (inspected_absent n # trusted_events n a) \<subseteq> set l))"
    unfolding reconcileISOServiceWith_def
  proof (rule logs_mono [OF logs_bind [OF logs_phases logs_option [OF logs_runtime logs_untrusted]]])
    fix r l
    assume "\<exists>(e :: rt_err option) l1 l2. l = l1 @ l2 \<and>
       ((\<forall>ev \<in> set l1. about n ev \<and> \<not> is_restart n ev \<and> \<not> is_stop n ev) \<and> (e = None \<longrightarrow> l1 = trusted_events n a)) \<and>
       (case e of None \<Rightarrow> service_log n r l2 \<and> (fst r \<longrightarrow> iso_State a = StateReady \<and> inspected_absent n \<in> set l2)
        | Some x \<Rightarrow> snd r \<noteq> None \<and> service_log n r l2)"
    then obtain e :: "rt_err option" and l1 l2 where *: "l = l1 @ l2 \<and>
       ((\<forall>ev \<in> set l1. about n ev \<and> \<not> is_restart n ev \<and> \<not> is_stop n ev) \<and> (e = None \<longrightarrow> l1 = trusted_events n a)) \<and>
       (case e of None \<Rightarrow> service_log n r l2 \<and> (fst r \<longrightarrow> iso_State a = StateReady \<and> inspected_absent n \<in> set l2)
        | Some x \<Rightarrow> snd r \<noteq> None \<and> service_log n r l2)" by (elim exE) (rule that)
    note l = conjunct1 [OF *] conjunct1 [OF conjunct1 [OF conjunct2 [OF *]]] conjunct2 [OF conjunct1 [OF conjunct2 [OF *]]] conjunct2 [OF conjunct2 [OF *]]
    have t: "\<forall>ev \<in> set (trusted_events n a). \<not> failing n ev" by (auto simp: trusted_events_def)
    have s2: "service_log n r l2" using l(4) by (cases e) auto
    have nf: "\<forall>ev \<in> set l1. \<not> failing n ev \<and> \<not> is_stop n ev" if "snd r = None" using l(2-4) t that by (cases e) auto
    have sl: "service_log n r l" unfolding l(1) using s2 l(2) nf by (intro service_log_prefix) blast+
    then have "snd r = None" if "fst r" using that by (auto simp: service_log_def split: if_splits)
    moreover have "iso_State a = StateReady \<and> set (inspected_absent n # trusted_events n a) \<subseteq> set l" if f: "fst r"
    proof -
      have "snd r = None" using sl f by (auto simp: service_log_def split: if_splits)
      then have "e = None" using l(4) by (cases e) auto
      then show ?thesis using l(1,3,4) f by auto
    qed
    ultimately show "service_log n r l \<and> (fst r \<longrightarrow> snd r = None \<and> iso_State a = StateReady \<and> set (inspected_absent n # trusted_events n a) \<subseteq> set l)"
      using sl by blast
  qed
  then show ?thesis by simp
qed

section \<open>The loops\<close>

lemma about_other: "about n ev \<Longrightarrow> m \<noteq> n \<Longrightarrow> \<not> failing m ev \<and> \<not> is_stop m ev \<and> \<not> is_restart m ev"
  by (cases ev) (auto simp: is_stop_def is_restart_def)

text \<open>An error in the list of errors.\<close>

definition has_err :: "rt_err option list \<Rightarrow> bool" where
  "has_err errs \<longleftrightarrow> (\<exists>x. Some x \<in> set errs)"

lemma has_err_join: "join_rt errs = None \<longleftrightarrow> \<not> has_err errs"
  by (auto simp: has_err_def join_rt_None) (metis not_None_eq)

text \<open>
  The part of a log that one loop writes: it speaks only of the given services, is fail-closed for each, and what
  goes wrong is in the list of errors.
\<close>

definition loop_log :: "string set \<Rightarrow> rt_err option list \<Rightarrow> rt_err option list \<Rightarrow> event list \<Rightarrow> bool" where
  "loop_log N errs errs' l \<longleftrightarrow>
     (has_err errs \<longrightarrow> has_err errs') \<and> (\<forall>ev \<in> set l. \<exists>n \<in> N. about n ev) \<and> (\<forall>n. fail_closed n l) \<and>
     ((\<exists>n. \<exists>ev \<in> set l. failing n ev \<or> is_stop n ev) \<longrightarrow> has_err errs')"

lemma loop_log_nil: "loop_log N errs errs []"
  by (simp add: loop_log_def fail_closed_def)

lemma loop_log_append:
  assumes "loop_log N errs errs1 l" "loop_log M errs1 errs2 m" "N \<inter> M = {} \<or> (\<forall>n. \<forall>ev \<in> set m. \<not> is_restart n ev)"
  shows "loop_log (N \<union> M) errs errs2 (l @ m)"
proof -
  have fc: "fail_closed n (l @ m)" for n
  proof (rule fail_closed_append)
    show "fail_closed n l" "fail_closed n m" using assms(1,2) by (auto simp: loop_log_def)
    assume "\<exists>e \<in> set l. failing n e"
    then obtain e k where "e \<in> set l" "failing n e" "k \<in> N" "about k e" using assms(1) by (auto simp: loop_log_def)
    then have n: "n \<in> N" using about_other [of k e n] by (cases "n = k") auto
    show "\<forall>e \<in> set m. \<not> is_restart n e"
    proof
      fix e assume "e \<in> set m"
      then obtain j where j: "j \<in> M" "about j e" using assms(2) by (auto simp: loop_log_def)
      show "\<not> is_restart n e" using assms(3)
      proof
        assume "N \<inter> M = {}"
        then have "n \<noteq> j" using n j by blast
        then show ?thesis using about_other [OF j(2)] by blast
      qed (use \<open>e \<in> set m\<close> in blast)
    qed
  qed
  then show ?thesis using assms(1,2) unfolding loop_log_def set_append by (meson Un_iff)
qed

lemma loop_log_service:
  assumes "service_log n r l" "has_err errs \<or> snd r \<noteq> None \<Longrightarrow> has_err errs'"
  shows "loop_log {n} errs errs' l"
proof -
  have "fail_closed m l" for m using service_log_closed [OF assms(1)] by (cases "m = n") auto
  moreover have "has_err errs'" if "ev \<in> set l" "failing m ev \<or> is_stop m ev" for m ev
  proof -
    have "m = n" using that about_other assms(1) by (auto simp: service_log_def)
    then have "snd r \<noteq> None" using that assms(1) by (auto simp: service_log_def split: if_splits)
    then show ?thesis using assms(2) by blast
  qed
  ultimately show ?thesis using assms by (auto simp: loop_log_def service_log_def)
qed

lemma stop_log: "service_log n (False, Some x) [Called ''stop'' n e1, Called ''quarantine'' n e2]"
  by (simp add: service_log_def is_restart_def)

lemma logs_stop_all:
  "logs (stop_all (observed steps) ns cause errs)
     (\<lambda>errs' l. loop_log (set ns) errs errs' l \<and> (\<forall>n. \<forall>ev \<in> set l. \<not> is_restart n ev) \<and> (\<forall>n \<in> set ns. fenced n l))"
proof (induction ns arbitrary: errs)
  case Nil
  then show ?case by (auto simp: logs_def loop_log_nil)
next
  case (Cons n ns)
  have "logs (\<lambda>s. stop_all (observed steps) (n # ns) cause errs s)
     (\<lambda>errs' l. loop_log (set (n # ns)) errs errs' l \<and> (\<forall>m. \<forall>ev \<in> set l. \<not> is_restart m ev) \<and> (\<forall>m \<in> set (n # ns). fenced m l))"
    unfolding stop_all.simps
  proof (rule logs_mono [OF logs_bind [OF logs_stop Cons.IH]])
    fix errs' l
    assume "\<exists>e l1 l2. l = l1 @ l2 \<and> (e \<noteq> None \<and> (\<exists>e1 e2. l1 = [Called ''stop'' n e1, Called ''quarantine'' n e2])) \<and>
      (loop_log (set ns) (errs @ [e]) errs' l2 \<and> (\<forall>n. \<forall>ev \<in> set l2. \<not> is_restart n ev) \<and> (\<forall>n \<in> set ns. fenced n l2))"
    then obtain e l1 l2 e1 e2 where l: "l = l1 @ l2" "e \<noteq> None" "l1 = [Called ''stop'' n e1, Called ''quarantine'' n e2]"
      "loop_log (set ns) (errs @ [e]) errs' l2" "\<forall>n. \<forall>ev \<in> set l2. \<not> is_restart n ev" "\<forall>n \<in> set ns. fenced n l2" by blast
    have "has_err (errs @ [e])" using l(2) by (auto simp: has_err_def)
    then have "loop_log {n} errs (errs @ [e]) l1" unfolding l(3) using loop_log_service stop_log by metis
    from loop_log_append [OF this l(4)] l(5) have "loop_log (set (n # ns)) errs errs' l" by (simp add: l(1))
    moreover have "fenced n l1" unfolding l(3) fenced_def by blast
    ultimately show "loop_log (set (n # ns)) errs errs' l \<and> (\<forall>m. \<forall>ev \<in> set l. \<not> is_restart m ev) \<and> (\<forall>m \<in> set (n # ns). fenced m l)"
      using l(5,6) fenced_append(1) [of _ l1 l2] fenced_append(2) [of _ l2 l1] unfolding l(1) by (auto simp: is_restart_def l(3) simp del: append_Cons)
  qed
  then show ?case by simp
qed

text \<open>A service may be restarted when everything required of it succeeded and nothing of it failed.\<close>

definition restartable :: "(string \<times> ISOAllocation) list \<Rightarrow> event list \<Rightarrow> string \<Rightarrow> bool" where
  "restartable rs l n \<longleftrightarrow>
     (\<exists>a. (n, a) \<in> set rs \<and> \<not> iso_RemoveRequested a \<and> iso_State a = StateReady \<and>
        set (inspected_absent n # trusted_events n a) \<subseteq> set l) \<and>
     (\<forall>ev \<in> set l. \<not> failing n ev \<and> \<not> is_stop n ev)"

lemma restartable_mono:
  assumes "restartable rs l n" "set rs \<subseteq> set rs'" "set l \<subseteq> set l'" "\<And>ev. ev \<in> set l' \<Longrightarrow> ev \<in> set l \<or> \<not> failing n ev \<and> \<not> is_stop n ev"
  shows "restartable rs' l' n"
proof -
  obtain a where a: "(n, a) \<in> set rs" "\<not> iso_RemoveRequested a" "iso_State a = StateReady" "set (inspected_absent n # trusted_events n a) \<subseteq> set l"
    using assms(1) unfolding restartable_def by blast
  have "\<forall>ev \<in> set l'. \<not> failing n ev \<and> \<not> is_stop n ev" using assms(1,4) unfolding restartable_def by blast
  moreover have "(n, a) \<in> set rs'" "set (inspected_absent n # trusted_events n a) \<subseteq> set l'" using a assms(2,3) by blast+
  ultimately show ?thesis using a(2,3) unfolding restartable_def by blast
qed

definition records_log ::
  "(string \<times> ISOAllocation) list \<Rightarrow> rt_err option list \<Rightarrow> string list \<Rightarrow> rt_err option list \<times> string list \<Rightarrow> event list \<Rightarrow> bool" where
  "records_log rs errs restarts r l \<longleftrightarrow>
     loop_log (fst ` set rs) errs (fst r) l \<and> (\<forall>n. \<forall>ev \<in> set l. \<not> is_restart n ev) \<and>
     (\<exists>R. snd r = restarts @ R \<and> distinct R \<and> set R \<subseteq> fst ` set rs \<and> (\<forall>n \<in> set R. restartable rs l n))"

lemma records_log_cons:
  assumes "loop_log {n} errs errs1 l1" "\<forall>m. \<forall>ev \<in> set l1. \<not> is_restart m ev" "n \<notin> fst ` set rs"
    and "records_log rs errs1 (restarts @ R1) r l2"
    and "R1 = [] \<or> R1 = [n] \<and> restartable [(n, a)] l1 n"
  shows "records_log ((n, a) # rs) errs restarts r (l1 @ l2)"
proof -
  have rl: "loop_log (fst ` set rs) errs1 (fst r) l2" "\<forall>n. \<forall>ev \<in> set l2. \<not> is_restart n ev"
    "\<exists>R. snd r = (restarts @ R1) @ R \<and> distinct R \<and> set R \<subseteq> fst ` set rs \<and> (\<forall>n \<in> set R. restartable rs l2 n)"
    using assms(4) unfolding records_log_def by (rule conjunct1, blast, blast)
  obtain R where R: "snd r = (restarts @ R1) @ R" "distinct R" "set R \<subseteq> fst ` set rs" "\<forall>n \<in> set R. restartable rs l2 n"
    using rl(3) by (elim exE conjE) (rule that)
  have "loop_log ({n} \<union> fst ` set rs) errs (fst r) (l1 @ l2)" by (rule loop_log_append [OF assms(1) rl(1)]) (use assms(3) in blast)
  then have ll: "loop_log (fst ` set ((n, a) # rs)) errs (fst r) (l1 @ l2)" by simp
  have other2: "\<not> failing n ev \<and> \<not> is_stop n ev" if ev: "ev \<in> set l2" for ev
  proof -
    obtain j where j: "j \<in> fst ` set rs" "about j ev" using ev rl(1) unfolding loop_log_def by blast
    then have "n \<noteq> j" using assms(3) by blast
    then show ?thesis using about_other [OF j(2)] by blast
  qed
  have ra1: "restartable ((n, a) # rs) (l1 @ l2) m" if m: "m \<in> set R1" for m
  proof -
    have "R1 = [n]" and r1: "restartable [(n, a)] l1 n" using assms(5) m by (cases "R1 = []"; simp)+
    then have mn: "m = n" using m by simp
    show ?thesis unfolding mn
      by (rule restartable_mono [OF r1]) (use other2 in \<open>simp_all only: set_append list.set Un_iff, blast+\<close>)
  qed
  have ra2: "restartable ((n, a) # rs) (l1 @ l2) m" if m: "m \<in> set R" for m
  proof -
    have "m \<noteq> n" using m R(3) assms(3) by blast
    moreover have "\<forall>ev \<in> set l1. about n ev" using assms(1) unfolding loop_log_def by blast
    ultimately have o1: "\<forall>ev \<in> set l1. \<not> failing m ev \<and> \<not> is_stop m ev" using about_other by blast
    moreover have "restartable rs l2 m" using R(4) m by blast
    ultimately show ?thesis
      by - (rule restartable_mono, assumption, simp_all only: set_append list.set Un_iff, blast+)
  qed
  have "distinct (R1 @ R)" "set (R1 @ R) \<subseteq> fst ` set ((n, a) # rs)" using assms(3,5) R(2,3) by auto
  moreover have "snd r = restarts @ (R1 @ R)" using R(1) by simp
  moreover have "\<forall>m \<in> set (R1 @ R). restartable ((n, a) # rs) (l1 @ l2) m" using ra1 ra2 by auto
  moreover have "\<forall>m. \<forall>ev \<in> set (l1 @ l2). \<not> is_restart m ev" using assms(2) rl(2) by auto
  ultimately show ?thesis using ll unfolding records_log_def by blast
qed

lemma logs_reconcile_all:
  "distinct (map fst rs) \<Longrightarrow> logs (reconcile_all canceled (observed steps) rs errs restarts) (records_log rs errs restarts)"
proof (induction rs arbitrary: errs restarts)
  case Nil
  then show ?case by (auto simp: logs_def records_log_def loop_log_nil)
next
  case (Cons r rs)
  obtain n a where r: "r = (n, a)" by force
  with Cons.prems have d: "distinct (map fst rs)" "n \<notin> fst ` set rs" by auto
  have resume: "logs (\<lambda>s. case wrap_err m (observe (Called ''resume-removal'' n) f s) of (e, s1) \<Rightarrow> reconcile_all canceled (observed steps) rs (errs @ [e]) restarts s1)
      (records_log ((n, a) # rs) errs restarts)" for m f
  proof -
    have w: "logs (\<lambda>s. wrap_err m (observe (Called ''resume-removal'' n) f s)) (\<lambda>e l. \<exists>x. l = [Called ''resume-removal'' n x])"
      using logs_observe [of "Called ''resume-removal'' n" f] unfolding logs_def wrap_err_def by (metis prod.collapse snd_conv)
    show ?thesis
    proof (rule logs_mono [OF logs_bind [OF w Cons.IH [OF d(1)]]])
      fix r l
      assume "\<exists>e l1 l2. l = l1 @ l2 \<and> (\<exists>x. l1 = [Called ''resume-removal'' n x]) \<and> records_log rs (errs @ [e]) restarts r l2"
      then obtain e x l2 where l: "l = [Called ''resume-removal'' n x] @ l2" "records_log rs (errs @ [e]) (restarts @ []) r l2" by auto
      have "loop_log {n} errs (errs @ [e]) [Called ''resume-removal'' n x]"
        by (auto simp: loop_log_def has_err_def is_stop_def intro!: fail_closed_clean)
      from records_log_cons [OF this _ d(2) l(2), of a] show "records_log ((n, a) # rs) errs restarts r l"
        unfolding l(1) by (simp add: is_restart_def)
    qed
  qed
  have service: "logs (\<lambda>s. case reconcileISOServiceWith canceled (observed steps) n a s of
        ((restart, Some e), s1) \<Rightarrow> reconcile_all canceled (observed steps) rs (errs @ [Some e]) restarts s1
      | ((restart, None), s1) \<Rightarrow> reconcile_all canceled (observed steps) rs errs (if restart then restarts @ [n] else restarts) s1)
      (records_log ((n, a) # rs) errs restarts)" if nr: "\<not> iso_RemoveRequested a"
    unfolding logs_def
  proof (intro allI impI)
    fix s r s'
    assume *: "(case reconcileISOServiceWith canceled (observed steps) n a s of
        ((restart, Some e), s1) \<Rightarrow> reconcile_all canceled (observed steps) rs (errs @ [Some e]) restarts s1
      | ((restart, None), s1) \<Rightarrow> reconcile_all canceled (observed steps) rs errs (if restart then restarts @ [n] else restarts) s1) = (r, s')"
    obtain restart e s1 where rc: "reconcileISOServiceWith canceled (observed steps) n a s = ((restart, e), s1)" by (metis surj_pair)
    obtain l1 where l1: "log_of s1 = log_of s @ l1" "service_log n (restart, e) l1"
      "restart \<longrightarrow> e = None \<and> iso_State a = StateReady \<and> set (inspected_absent n # trusted_events n a) \<subseteq> set l1"
      using logsD [OF logs_service rc] by auto
    define errs1 R1 where "errs1 = (case e of None \<Rightarrow> errs | Some x \<Rightarrow> errs @ [Some x])" and "R1 = (if restart then [n] else [])"
    have next_run: "reconcile_all canceled (observed steps) rs errs1 (restarts @ R1) s1 = (r, s')"
      using * rc l1(3) by (cases e) (auto simp: errs1_def R1_def)
    obtain l2 where l2: "log_of s' = log_of s1 @ l2" "records_log rs errs1 (restarts @ R1) r l2"
      using logsD [OF Cons.IH [OF d(1)] next_run] by blast
    have ll: "loop_log {n} errs errs1 l1"
      by (rule loop_log_service [OF l1(2)]) (auto simp: errs1_def has_err_def split: option.splits)
    have nrs: "\<forall>m. \<forall>ev \<in> set l1. \<not> is_restart m ev" using l1(2) about_other unfolding service_log_def by metis
    have ra: "R1 = [] \<or> R1 = [n] \<and> restartable [(n, a)] l1 n"
      using l1(2,3) nr by (auto simp: R1_def restartable_def service_log_def)
    from records_log_cons [OF ll nrs d(2) l2(2) ra] l1(1) l2(1)
    show "\<exists>l. log_of s' = log_of s @ l \<and> records_log ((n, a) # rs) errs restarts r l" by (intro exI [of _ "l1 @ l2"]) simp
  qed
  have "logs (\<lambda>s. reconcile_all canceled (observed steps) ((n, a) # rs) errs restarts s) (records_log ((n, a) # rs) errs restarts)"
    unfolding reconcile_all.simps observed_sel using resume service by (cases "iso_RemoveRequested a") simp_all
  then show ?case by (simp add: r)
qed

text \<open>No service is restarted after something of it failed or was stopped.\<close>

definition clean_restarts :: "event list \<Rightarrow> bool" where
  "clean_restarts l \<longleftrightarrow>
     (\<forall>n xs x ys. l = xs @ Called ''restart'' n x # ys \<longrightarrow> (\<forall>ev \<in> set xs. \<not> failing n ev \<and> \<not> is_stop n ev))"

lemma split_event:
  assumes "l @ m = xs @ ev # ys"
  shows "(\<exists>us. l = xs @ ev # us) \<or> (\<exists>us. xs = l @ us \<and> m = us @ ev # ys)"
  using assms by (auto simp: append_eq_append_conv2 append_eq_Cons_conv Cons_eq_append_conv)

lemma clean_restarts_append:
  assumes "clean_restarts l" "clean_restarts m" "\<And>n ev. is_restart n ev \<Longrightarrow> ev \<in> set m \<Longrightarrow> \<forall>ev' \<in> set l. \<not> failing n ev' \<and> \<not> is_stop n ev'"
  shows "clean_restarts (l @ m)"
  unfolding clean_restarts_def
proof (intro allI impI)
  fix n xs x ys assume "l @ m = xs @ Called ''restart'' n x # ys"
  from split_event [OF this] show "\<forall>ev \<in> set xs. \<not> failing n ev \<and> \<not> is_stop n ev"
  proof (elim disjE exE conjE)
    fix us assume "l = xs @ Called ''restart'' n x # us"
    then show ?thesis using assms(1) unfolding clean_restarts_def by blast
  next
    fix us assume us: "xs = l @ us" "m = us @ Called ''restart'' n x # ys"
    then have "\<forall>ev' \<in> set l. \<not> failing n ev' \<and> \<not> is_stop n ev'"
      by (intro assms(3) [of n "Called ''restart'' n x"]) (auto simp: is_restart_def)
    moreover have "\<forall>ev \<in> set us. \<not> failing n ev \<and> \<not> is_stop n ev" using assms(2) us(2) unfolding clean_restarts_def by blast
    ultimately show ?thesis by (auto simp: us(1))
  qed
qed

lemma clean_restarts_none: "(\<And>n ev. ev \<in> set l \<Longrightarrow> \<not> is_restart n ev) \<Longrightarrow> clean_restarts l"
  by (fastforce simp: clean_restarts_def is_restart_def)

text \<open>The log of one restart.\<close>

definition restart_log :: "string \<Rightarrow> rt_err option \<Rightarrow> event list \<Rightarrow> bool" where
  "restart_log n e l \<longleftrightarrow>
     (if e = None then l = [Called ''restart'' n None]
      else \<exists>us e1 e2. l = us @ [Called ''stop'' n e1, Called ''quarantine'' n e2] \<and> (us = [] \<or> (\<exists>x. us = [Called ''restart'' n x])))"

lemma restart_log_loop:
  assumes "restart_log n e l" "errs' = (if e = None then errs else errs @ [e])"
  shows "loop_log {n} errs errs' l" "clean_restarts l"
proof -
  have all: "about n ev" if "ev \<in> set l" for ev
    using that assms(1) by (auto simp: restart_log_def split: if_splits)
  have fc: "fail_closed n l"
  proof (cases e)
    case None
    then show ?thesis using assms(1) by (intro fail_closed_clean) (auto simp: restart_log_def)
  next
    case (Some x)
    then obtain us e1 e2 where l: "l = us @ [Called ''stop'' n e1, Called ''quarantine'' n e2]" "us = [] \<or> (\<exists>x. us = [Called ''restart'' n x])"
      using assms(1) by (auto simp: restart_log_def)
    have "fail_closed n ([Called ''restart'' n y] @ [Called ''stop'' n e1, Called ''quarantine'' n e2])" for y
      unfolding fail_closed_def fenced_def by (auto simp: Cons_eq_append_conv is_restart_def intro!: exI [of _ "[]"])
    moreover have "fail_closed n ([] @ [Called ''stop'' n e1, Called ''quarantine'' n e2])" by (rule fail_closed_stop) simp_all
    ultimately show ?thesis using l by auto
  qed
  have "fail_closed m l" for m
    using fc all about_other by (cases "m = n") (auto intro!: fail_closed_clean)
  moreover have "has_err errs'" if "ev \<in> set l" "failing m ev \<or> is_stop m ev" for m ev
    using that assms by (cases e) (auto simp: restart_log_def is_stop_def has_err_def)
  moreover have "has_err errs \<Longrightarrow> has_err errs'" using assms(2) by (auto simp: has_err_def)
  ultimately show "loop_log {n} errs errs' l" using all unfolding loop_log_def by blast
  show "clean_restarts l"
    using assms(1) by (auto simp: clean_restarts_def restart_log_def Cons_eq_append_conv split: if_splits)
qed

lemma logs_cond: "logs f P \<Longrightarrow> logs g P \<Longrightarrow> logs (\<lambda>s. if c s then f s else g s) P"
  by (auto simp: logs_def)

lemma logs_restart_one:
  "logs (\<lambda>s. if canceled (ho_ext s) then stopAndQuarantineISO (observed steps) n c1 s
      else case observe (Called ''restart'' n) f s of
          (None, s1) \<Rightarrow> (None, s1) | (Some e, s1) \<Rightarrow> stopAndQuarantineISO (observed steps) n (c2 e) s1) (restart_log n)"
  (is "logs (\<lambda>s. if _ then ?stop s else ?restart s) _")
proof -
  have st: "logs ?stop (restart_log n)"
    by (rule logs_mono [OF logs_stop]) (auto simp: restart_log_def)
  have "logs ?restart (restart_log n)"
  proof (rule logs_mono [OF logs_bind [OF logs_observe logs_option [OF logs_return logs_stop]]])
    fix r :: "rt_err option" and l
    assume "\<exists>x l1 l2. l = l1 @ l2 \<and> l1 = [Called ''restart'' n x] \<and> (case x of None \<Rightarrow> r = None \<and> l2 = []
      | Some e \<Rightarrow> r \<noteq> None \<and> (\<exists>e1 e2. l2 = [Called ''stop'' n e1, Called ''quarantine'' n e2]))"
    then obtain x l2 where "l = [Called ''restart'' n x] @ l2" "case x of None \<Rightarrow> r = None \<and> l2 = []
      | Some e \<Rightarrow> r \<noteq> None \<and> (\<exists>e1 e2. l2 = [Called ''stop'' n e1, Called ''quarantine'' n e2])" by blast
    then show "restart_log n r l" by (cases x) (auto simp: restart_log_def)
  qed
  with st show ?thesis by (rule logs_cond)
qed

lemma logs_restart_all:
  "distinct ns \<Longrightarrow> logs (restart_all canceled (observed steps) ns errs) (\<lambda>errs' l. loop_log (set ns) errs errs' l \<and> clean_restarts l)"
proof (induction ns arbitrary: errs)
  case Nil
  then show ?case by (auto simp: logs_def loop_log_nil clean_restarts_def)
next
  case (Cons n ns)
  then have d: "distinct ns" "n \<notin> set ns" by auto
  show ?case unfolding logs_def
  proof (intro allI impI)
    fix s errs' s' assume run: "restart_all canceled (observed steps) (n # ns) errs s = (errs', s')"
    let ?one = "\<lambda>s. if canceled (ho_ext s) then stopAndQuarantineISO (observed steps) n (StepErr ''restart verified ISO service'' Canceled) s
        else case observe (Called ''restart'' n) (rc_RestartTrusted steps n) s of (None, s1) \<Rightarrow> (None, s1)
          | (Some e, s1) \<Rightarrow> stopAndQuarantineISO (observed steps) n (StepErr ''restart verified ISO service'' e) s1"
    obtain e s1 where one: "?one s = (e, s1)" by (cases "?one s")
    obtain l1 where l1: "log_of s1 = log_of s @ l1" "restart_log n e l1"
      using logsD [of ?one, OF logs_restart_one one] by blast
    define errs1 where "errs1 = (if e = None then errs else errs @ [e])"
    have stopped: "stopAndQuarantineISO (observed steps) n c t = (e, s1) \<Longrightarrow> e \<noteq> None" for c t
      using logsD [OF logs_stop] by fastforce
    have rest: "restart_all canceled (observed steps) ns errs1 s1 = (errs', s')"
      using run one stopped by (auto simp: errs1_def split: if_splits prod.splits option.splits)
    obtain l2 where l2: "log_of s' = log_of s1 @ l2" "loop_log (set ns) errs1 errs' l2" "clean_restarts l2"
      using logsD [OF Cons.IH [OF d(1)] rest] by blast
    note one_log = restart_log_loop [OF l1(2) errs1_def]
    from loop_log_append [OF one_log(1) l2(2)] d(2) have "loop_log (set (n # ns)) errs errs' (l1 @ l2)" by simp
    moreover have "clean_restarts (l1 @ l2)"
    proof (rule clean_restarts_append [OF one_log(2) l2(3)])
      fix m ev assume ev: "is_restart m ev" "ev \<in> set l2"
      then obtain j where j: "j \<in> set ns" "about j ev" using l2(2) unfolding loop_log_def by blast
      then have "m = j" using ev(1) about_other [OF j(2), of m] by blast
      then have "m \<noteq> n" using d(2) j(1) by blast
      moreover have "\<forall>ev' \<in> set l1. about n ev'" using one_log(1) unfolding loop_log_def by blast
      ultimately show "\<forall>ev' \<in> set l1. \<not> failing m ev' \<and> \<not> is_stop m ev'" using about_other [of n _ m] by blast
    qed
    ultimately show "\<exists>l. log_of s' = log_of s @ l \<and> loop_log (set (n # ns)) errs errs' l \<and> clean_restarts l"
      using l1(1) l2(1) by (intro exI [of _ "l1 @ l2"]) simp
  qed
qed

section \<open>The whole run\<close>

definition failed_global :: "event \<Rightarrow> bool" where
  "failed_global ev \<longleftrightarrow> (\<exists>p x. ev = Global p (Some x))"

lemma about_not_global: "about n ev \<Longrightarrow> ev \<noteq> Global p x"
  by (cases ev) auto

lemma logs_global:
  "logs (runISOReconcileGlobalPhase canceled name (observe (Global p) f))
     (\<lambda>e l. l = [] \<and> e \<noteq> None \<or> (\<exists>x. l = [Global p x] \<and> (x = None \<longleftrightarrow> e = None)))"
proof -
  have "logs (\<lambda>s. if canceled (ho_ext s) then (Some (StepErr name Canceled), s) else wrap_err name (observe (Global p) f s))
     (\<lambda>e l. l = [] \<and> e \<noteq> None \<or> (\<exists>x. l = [Global p x] \<and> (x = None \<longleftrightarrow> e = None)))"
  proof (rule logs_cond)
    show "logs (\<lambda>s. wrap_err name (observe (Global p) f s))
       (\<lambda>e l. l = [] \<and> e \<noteq> None \<or> (\<exists>x. l = [Global p x] \<and> (x = None \<longleftrightarrow> e = None)))"
      by (auto simp: logs_def wrap_err_def observe_def log_of_def split: prod.splits)
  qed (auto simp: logs_def)
  then show ?thesis by (simp add: runISOReconcileGlobalPhase_def [abs_def])
qed

text \<open>The two phases before the services: a failure of one of them leaves an error.\<close>

lemma logs_global_phases:
  "logs (global_phases canceled (observed steps))
     (\<lambda>e l. (\<forall>ev \<in> set l. \<exists>p x. ev = Global p x) \<and> (e = None \<longrightarrow> (\<forall>ev \<in> set l. \<not> failed_global ev)))"
proof -
  have "logs (\<lambda>s. global_phases canceled (observed steps) s)
     (\<lambda>e l. (\<forall>ev \<in> set l. \<exists>p x. ev = Global p x) \<and> (e = None \<longrightarrow> (\<forall>ev \<in> set l. \<not> failed_global ev)))"
    unfolding global_phases_def observed_sel
    by (rule logs_mono [OF logs_bind [OF logs_global logs_option [OF logs_global logs_return]]])
      (auto simp: failed_global_def split: option.splits)
  then show ?thesis by simp
qed

lemma globals_clean:
  assumes "\<forall>ev \<in> set g. \<exists>p x. ev = Global p x" "ev \<in> set g"
  shows "\<not> failing n ev \<and> \<not> is_stop n ev \<and> \<not> is_restart n ev"
  using assms by (auto simp: is_stop_def is_restart_def)

lemma globals_closed: "\<forall>ev \<in> set g. \<exists>p x. ev = Global p x \<Longrightarrow> fail_closed n g"
  using globals_clean by (blast intro: fail_closed_clean)

lemma loop_log_no_global: "loop_log N errs errs' l \<Longrightarrow> Global p x \<notin> set l"
  using about_not_global unfolding loop_log_def by blast

text \<open>What the log shows before the policy of the host is verified.\<close>

definition first_part :: "(string \<times> ISOAllocation) list \<Rightarrow> rt_err option list \<times> string list \<Rightarrow> event list \<Rightarrow> bool" where
  "first_part rs r l \<longleftrightarrow>
     (\<forall>n. fail_closed n l) \<and> (\<forall>n. \<forall>ev \<in> set l. \<not> is_restart n ev) \<and>
     ((\<exists>ev \<in> set l. failed_global ev \<or> (\<exists>n. failing n ev \<or> is_stop n ev)) \<longrightarrow> has_err (fst r)) \<and>
     distinct (snd r) \<and> (\<forall>n \<in> set (snd r). restartable rs l n) \<and>
     ((\<exists>ev \<in> set l. failed_global ev) \<longrightarrow> snd r = [] \<and> (\<forall>n \<in> fst ` set rs. fenced n l))"

lemma first_part_ok:
  assumes g: "\<forall>ev \<in> set g. \<exists>p x. ev = Global p x" "\<forall>ev \<in> set g. \<not> failed_global ev" and l: "records_log rs [] [] r l"
  shows "first_part rs r (g @ l)"
proof -
  have ll: "loop_log (fst ` set rs) [] (fst r) l" "\<forall>n. \<forall>ev \<in> set l. \<not> is_restart n ev"
    and rr: "distinct (snd r)" "\<forall>n \<in> set (snd r). restartable rs l n"
    using l unfolding records_log_def by auto
  have nf: "\<not> failed_global ev" if "ev \<in> set (g @ l)" for ev
    using that g(2) loop_log_no_global [OF ll(1)] unfolding failed_global_def by auto
  have "fail_closed n (g @ l)" for n
    using globals_closed [OF g(1)] globals_clean [OF g(1)] ll(1) unfolding loop_log_def by (blast intro: fail_closed_append)
  moreover have "restartable rs (g @ l) n" if "n \<in> set (snd r)" for n
    by (rule restartable_mono [OF rr(2) [rule_format, OF that]]) (use globals_clean [OF g(1)] in auto)
  moreover have "has_err (fst r)" if "ev \<in> set (g @ l)" "failing n ev \<or> is_stop n ev" for n ev
    using that globals_clean [OF g(1)] ll(1) unfolding loop_log_def set_append by blast
  moreover have "\<forall>n. \<forall>ev \<in> set (g @ l). \<not> is_restart n ev" using ll(2) globals_clean [OF g(1)] by auto
  ultimately show ?thesis using rr(1) nf unfolding first_part_def by blast
qed

lemma first_part_stopped:
  assumes g: "\<forall>ev \<in> set g. \<exists>p x. ev = Global p x" and "has_err errs"
    and l: "loop_log N errs errs' l" "\<forall>n. \<forall>ev \<in> set l. \<not> is_restart n ev" "\<forall>n \<in> fst ` set rs. fenced n l"
  shows "first_part rs (errs', []) (g @ l)"
proof -
  have "fail_closed n (g @ l)" for n
    using globals_closed [OF g] globals_clean [OF g] l(1) unfolding loop_log_def by (blast intro: fail_closed_append)
  moreover have "has_err errs'" using assms(2) l(1) unfolding loop_log_def by blast
  moreover have "\<forall>n. \<forall>ev \<in> set (g @ l). \<not> is_restart n ev" using l(2) globals_clean [OF g] by auto
  moreover have "\<forall>n \<in> fst ` set rs. fenced n (g @ l)" using l(3) fenced_append(2) by blast
  ultimately show ?thesis unfolding first_part_def by simp
qed

lemma logs_reconcile_records:
  assumes "distinct (map fst rs)"
  shows "logs (reconcile_records canceled (observed steps) rs) (first_part rs)"
  unfolding logs_def
proof (intro allI impI)
  fix s r s' assume run: "reconcile_records canceled (observed steps) rs s = (r, s')"
  obtain e s1 where gp: "global_phases canceled (observed steps) s = (e, s1)" by force
  obtain g where g: "log_of s1 = log_of s @ g" "\<forall>ev \<in> set g. \<exists>p x. ev = Global p x"
    "e = None \<longrightarrow> (\<forall>ev \<in> set g. \<not> failed_global ev)" using logsD [OF logs_global_phases gp] by blast
  have "\<exists>l. log_of s' = log_of s1 @ l \<and> first_part rs r (g @ l)"
  proof (cases e)
    case None
    then have "reconcile_all canceled (observed steps) rs [] [] s1 = (r, s')" using run gp by (simp add: reconcile_records_def)
    from logsD [OF logs_reconcile_all [OF assms] this] show ?thesis using first_part_ok [OF g(2)] g(3) None by blast
  next
    case (Some x)
    then obtain errs where st: "stop_all (observed steps) (map fst rs) (JoinErr [x]) [Some x] s1 = (errs, s')" "r = (errs, [])"
      using run gp by (auto simp: reconcile_records_def split: prod.splits)
    have x: "has_err [Some x]" by (simp add: has_err_def)
    from logsD [OF logs_stop_all st(1)] show ?thesis using first_part_stopped [OF g(2) x] unfolding st(2) by (metis set_map)
  qed
  then show "\<exists>l. log_of s' = log_of s @ l \<and> first_part rs r l" using g(1) by (metis append.assoc)
qed

text \<open>What the log shows from the verification of the policy of the host on.\<close>

definition second_part :: "string list \<Rightarrow> rt_err option list \<Rightarrow> rt_err option list \<Rightarrow> event list \<Rightarrow> bool" where
  "second_part R errs errs' l \<longleftrightarrow>
     (\<forall>n. fail_closed n l) \<and> (has_err errs \<longrightarrow> has_err errs') \<and> clean_restarts l \<and>
     ((\<exists>ev \<in> set l. failed_global ev \<or> (\<exists>n. failing n ev \<or> is_stop n ev)) \<longrightarrow> has_err errs') \<and>
     (\<forall>n xs x ys. l = xs @ Called ''restart'' n x # ys \<longrightarrow>
        n \<in> set R \<and> Global ''verify-global-policy'' None \<in> set xs \<and> (\<forall>ev \<in> set l. \<not> failed_global ev)) \<and>
     (\<forall>p x. Global p x \<in> set l \<longrightarrow> p = ''verify-global-policy'')"

lemma second_part_stopped:
  assumes "g = [] \<or> (\<exists>x. g = [Global ''verify-global-policy'' x])" "has_err errs0" "loop_log N errs0 errs' l"
    and "\<forall>n. \<forall>ev \<in> set l. \<not> is_restart n ev"
  shows "second_part R errs errs' (g @ l)"
proof -
  have g: "\<forall>ev \<in> set g. \<exists>p x. ev = Global p x" using assms(1) by auto
  have nr: "\<forall>n. \<forall>ev \<in> set (g @ l). \<not> is_restart n ev" using assms(4) globals_clean [OF g] by auto
  have "fail_closed n (g @ l)" for n
    using globals_closed [OF g] globals_clean [OF g] assms(3) unfolding loop_log_def by (blast intro: fail_closed_append)
  moreover have "has_err errs'" using assms(2,3) unfolding loop_log_def by blast
  moreover have "clean_restarts (g @ l)" by (rule clean_restarts_none) (use nr in blast)
  moreover have "g @ l \<noteq> xs @ Called ''restart'' n x # ys" for n xs x ys
    using nr unfolding is_restart_def by (metis in_set_conv_decomp)
  moreover have "Global p x \<in> set (g @ l) \<Longrightarrow> p = ''verify-global-policy''" for p x
    using assms(1) loop_log_no_global [OF assms(3)] by auto
  ultimately show ?thesis unfolding second_part_def by blast
qed

lemma second_part_restarts:
  assumes l: "loop_log (set R) errs errs' l" "clean_restarts l"
  shows "second_part R errs errs' (Global ''verify-global-policy'' None # l)"
proof -
  let ?g = "[Global ''verify-global-policy'' None]"
  have g: "\<forall>ev \<in> set ?g. \<exists>p x. ev = Global p x" by simp
  have fc: "fail_closed n (?g @ l)" for n
    using globals_closed [OF g] globals_clean [OF g] l(1) unfolding loop_log_def by (blast intro: fail_closed_append)
  have cl: "clean_restarts (?g @ l)"
  proof (rule clean_restarts_append [OF _ l(2)])
    show "clean_restarts ?g" by (rule clean_restarts_none) (use globals_clean [OF g] in blast)
  qed (use globals_clean [OF g] in blast)
  have nf: "\<not> failed_global ev" if "ev \<in> set (?g @ l)" for ev
    using that loop_log_no_global [OF l(1)] by (auto simp: failed_global_def)
  have err: "has_err errs'" if "ev \<in> set (?g @ l)" "failing n ev \<or> is_stop n ev" for n ev
    using that globals_clean [OF g] l(1) unfolding loop_log_def set_append by blast
  have rs: "n \<in> set R \<and> Global ''verify-global-policy'' None \<in> set xs" if split: "?g @ l = xs @ Called ''restart'' n x # ys" for n xs x ys
  proof -
    have hd: "xs = Global ''verify-global-policy'' None # tl xs" "l = tl xs @ Called ''restart'' n x # ys"
      using split by (auto simp: Cons_eq_append_conv)
    then obtain j where j: "j \<in> set R" "about j (Called ''restart'' n x)" using l(1) unfolding loop_log_def by (metis in_set_conv_decomp)
    then show ?thesis using hd(1) by (metis about.simps(2) list.set_intros(1))
  qed
  have "Global p x \<in> set (?g @ l) \<Longrightarrow> p = ''verify-global-policy''" for p x
    using loop_log_no_global [OF l(1)] by auto
  then have "second_part R errs errs' (?g @ l)"
    using fc cl nf err rs l(1) unfolding second_part_def loop_log_def by blast
  then show ?thesis by simp
qed

lemma logs_names: "logs (currentISOAllocationNames dir) (\<lambda>r l. l = [])"
proof (rule logs_quiet)
  show "log_of (snd (currentISOAllocationNames dir s)) = log_of s" for s :: "('k \<times> event list) host"
    by (auto simp: currentISOAllocationNames_def db_get_def on_store_def log_of_def split: prod.splits sum.splits option.splits)
qed

lemma logs_reconcile_finish:
  assumes "distinct R"
  shows "logs (reconcile_finish dir canceled (observed steps) names R errs) (second_part R errs)"
  unfolding logs_def
proof (intro allI impI)
  fix s errs' s' assume run: "reconcile_finish dir canceled (observed steps) names R errs s = (errs', s')"
  obtain e s1 where gp: "runISOReconcileGlobalPhase canceled ''verify global ISO policy'' (rc_VerifyGlobalPolicy (observed steps)) s = (e, s1)" by force
  obtain g where g: "log_of s1 = log_of s @ g"
    "g = [] \<and> e \<noteq> None \<or> (\<exists>x. g = [Global ''verify-global-policy'' x] \<and> (x = None \<longleftrightarrow> e = None))"
    using logsD [OF logs_global gp [unfolded observed_sel]] by blast
  have "\<exists>l. log_of s' = log_of s1 @ l \<and> second_part R errs errs' (g @ l)"
  proof (cases e)
    case None
    then have "restart_all canceled (observed steps) R errs s1 = (errs', s')" using run gp by (simp add: reconcile_finish_def)
    from logsD [OF logs_restart_all [OF assms] this] show ?thesis using second_part_restarts g(2) None by fastforce
  next
    case (Some x)
    obtain ns s2 where nm: "currentISOAllocationNames dir s1 = (ns, s2)" by force
    have s2: "log_of s2 = log_of s1" using logsD [OF logs_names nm] by simp
    have "has_err (errs @ Some x # ys)" for ys by (auto simp: has_err_def)
    then have "\<exists>ms errs0. stop_all (observed steps) ms x errs0 s2 = (errs', s') \<and> has_err errs0"
      using run gp nm Some by (cases ns) (auto simp: reconcile_finish_def)
    then obtain ms errs0 where st: "stop_all (observed steps) ms x errs0 s2 = (errs', s')" "has_err errs0" by blast
    have g': "g = [] \<or> (\<exists>y. g = [Global ''verify-global-policy'' y])" using g(2) by blast
    from logsD [OF logs_stop_all st(1)] show ?thesis using second_part_stopped [OF g' st(2)] unfolding s2 by blast
  qed
  then show "\<exists>l. log_of s' = log_of s @ l \<and> second_part R errs errs' l" using g(1) by (metis append.assoc)
qed

lemma isos_distinct:
  assumes "distinct (map fst ss)"
  shows "distinct (map fst (sort_key fst (service_isos ss)))"
proof -
  have "distinct (map fst (service_isos ss))" using assms
  proof (induction ss)
    case (Cons r ss)
    obtain n sv where r: "r = (n, sv)" by force
    have "n \<notin> fst ` set (service_isos ss)" using Cons.prems r by (force simp: service_isos_mem)
    moreover have "service_isos (r # ss) = (case iso_of sv of None \<Rightarrow> [] | Some a \<Rightarrow> [(n, a)]) @ service_isos ss"
      by (simp add: r service_isos_def iso_of_def List.map_filter_simps split: option.splits)
    ultimately show ?case using Cons by (auto split: option.splits)
  qed (simp add: service_isos_def List.map_filter_simps)
  moreover have "mset (map fst (sort_key fst (service_isos ss))) = mset (map fst (service_isos ss))" by simp
  ultimately show ?thesis by (metis mset_eq_imp_distinct_iff)
qed


text \<open>One ready service, whose workload is absent, on a host where every step succeeds.\<close>

definition absent_steps :: "unit isoReconcileSteps" where
  "absent_steps =
     \<lparr>rc_ValidatePool = Pair None, rc_InstallDNS = Pair None, rc_EnsurePolicy = (\<lambda>_. Pair None), rc_VerifyPolicy = (\<lambda>_. Pair None),
      rc_EnsureTopology = (\<lambda>_. Pair None), rc_VerifyTopology = (\<lambda>_. Pair None),
      rc_InspectRuntime = (\<lambda>_. Pair (Inr isoReconcileRuntimeAbsent)), rc_VerifyStopped = (\<lambda>_. Pair None),
      rc_VerifyTailscale = (\<lambda>_. Pair None), rc_ResumeRemoval = (\<lambda>_. Pair None), rc_StopUntrusted = (\<lambda>_. Pair None),
      rc_Quarantine = (\<lambda>_ _. Pair None), rc_VerifyGlobalPolicy = Pair None, rc_RestartTrusted = (\<lambda>_. Pair None)\<rparr>"

definition ready_alloc :: ISOAllocation where
  "ready_alloc = (example_alloc ''a'' 0xAC1E0000)\<lparr>iso_State := StateReady\<rparr>"

definition ready_data :: Data where
  "ready_data = one_service\<lparr>Services := [(''a'', Some ((new_Service ''a'')\<lparr>svc_ISO := Some ready_alloc\<rparr>))]\<rparr>"

definition ready_host :: "(unit \<times> event list) host" where
  "ready_host = \<lparr>ho_store = (Some ready_data, quiet_world (Holds ready_data) (\<lambda>_. False)), ho_ext = ((), [])\<rparr>"

lemma ready_isos: "service_isos (Services ready_data) = [(''a'', ready_alloc)]"
  by (simp add: ready_data_def service_isos_def List.map_filter_simps)

lemma ready_alloc_sel: "iso_State ready_alloc = StateReady" "\<not> iso_RemoveRequested ready_alloc" "iso_Kind ready_alloc = iso_Kind (example_alloc ''a'' 0xAC1E0000)"
  by (simp_all add: ready_alloc_def example_alloc_def newDBISOAllocation_def Let_def)


end
