(* ===== verification/Iso_Reconcile.thy ===== *)
theory Iso_Reconcile
  imports Iso_Startup
begin

text \<open>
  The steps of the start-up gate on the host (\<^verbatim>\<open>isoConcreteReconcileSteps\<close> in \<^verbatim>\<open>src/pkg/catch/iso_runtime.go\<close>) and the gate
  run with them. The adapter keeps the operation lock from one step to the next: \<open>ho_ext\<close> is the host beside the flag that the
  field \<^verbatim>\<open>unlock\<close> is set. What the steps ask of docker, systemd, the machines' networks, the removal of services and the
  installer is in the arguments \<open>env\<close> and \<open>rv\<close>.
\<close>

section \<open>The steps on the host\<close>

text \<open>\<open>'p\<close> is the plan of a machine's network.\<close>

record ('k, 'p) reconcile_env =
  rv_acquire :: "'k \<Rightarrow> string option \<times> 'k"
  rv_unlock :: "'k \<Rightarrow> 'k"
  rv_installDNS :: "'k \<Rightarrow> string option \<times> 'k"
  rv_networkPlan :: "Data \<Rightarrow> string \<Rightarrow> string + 'p"
  rv_hasISO :: "'p \<Rightarrow> bool"
  rv_withTapOwner :: "'p \<Rightarrow> 'k \<Rightarrow> (string + 'p) \<times> 'k"
  rv_IsServiceRunning :: "string \<Rightarrow> Data \<Rightarrow> 'k \<Rightarrow> (string + bool) \<times> 'k"
  rv_ensureSysctls :: "'p \<Rightarrow> string \<Rightarrow> 'k \<Rightarrow> string option \<times> 'k"
  rv_ensureOwnedVMNetwork :: "'p \<Rightarrow> string \<Rightarrow> 'k \<Rightarrow> string option \<times> 'k"
  rv_verifyVMNetworkPlan :: "'p \<Rightarrow> 'k \<Rightarrow> string option \<times> 'k"
  rv_cleanupVMNetworkPlan :: "'p \<Rightarrow> 'k \<Rightarrow> string option \<times> 'k"
  rv_AnyRunning :: "string \<Rightarrow> 'k \<Rightarrow> (string + bool) \<times> 'k"
  rv_inspectProject :: "Service \<Rightarrow> string list \<Rightarrow> (string \<times> addr) list \<Rightarrow> 'k \<Rightarrow> string option \<times> 'k"
  rv_systemdService :: "string \<Rightarrow> 'k \<Rightarrow> string option \<times> 'k"
  rv_verifySidecar :: "string \<Rightarrow> 'k \<Rightarrow> string option \<times> 'k"
  rv_RemoveService :: "bool \<Rightarrow> 'k step"
  rv_NewInstaller :: "'k step"
  rv_installGen :: "int \<Rightarrow> 'k step"

text \<open>An operation on the host, beside the adapter's field.\<close>

definition beside :: "('k host \<Rightarrow> 'r \<times> 'k host) \<Rightarrow> ('k \<times> bool) host \<Rightarrow> 'r \<times> ('k \<times> bool) host" where
  "beside f s =
     (case f \<lparr>ho_store = ho_store s, ho_ext = fst (ho_ext s)\<rparr> of
        (r, s1) \<Rightarrow> (r, \<lparr>ho_store = ho_store s1, ho_ext = (ho_ext s1, snd (ho_ext s))\<rparr>))"

definition set_unlock :: "('k \<times> bool) host \<Rightarrow> ('k \<times> bool) host" where
  "set_unlock s = s\<lparr>ho_ext := (fst (ho_ext s), True)\<rparr>"

definition release :: "('k, 'p) reconcile_env \<Rightarrow> ('k \<times> bool) host \<Rightarrow> ('k \<times> bool) host" where
  "release rv s = (if snd (ho_ext s) then s\<lparr>ho_ext := (rv_unlock rv (fst (ho_ext s)), False)\<rparr> else s)"

definition or_release ::
  "('k, 'p) reconcile_env \<Rightarrow> rt_err option \<times> ('k \<times> bool) host \<Rightarrow> rt_err option \<times> ('k \<times> bool) host" where
  "or_release rv r = (case r of (None, s) \<Rightarrow> (None, s) | (Some e, s) \<Rightarrow> (Some e, release rv s))"

definition ValidatePool :: "path \<Rightarrow> 'k host \<Rightarrow> rt_err option \<times> 'k host" where
  "ValidatePool dir s =
     (case db_get dir s of
        (Inl e, s1) \<Rightarrow> (Some (DbErr e), s1)
      | (Inr d, s1) \<Rightarrow>
          (case hasISOAllocations d of
             Inl e \<Rightarrow> (Some (StateErr e), s1)
           | Inr has \<Rightarrow>
               if \<not> has then (None, s1)
               else (case validateISORuntimeState d of Inl e \<Rightarrow> (Some (StateErr e), s1) | Inr _ \<Rightarrow> (None, s1))))"

text \<open>Loads the specification of the service and applies the rendered policy; the specification is the result.\<close>

definition with_policy ::
  "path \<Rightarrow> 'k iso_env \<Rightarrow> (ISOPolicyRules \<Rightarrow> 'k \<Rightarrow> string option \<times> 'k) \<Rightarrow> string \<Rightarrow> 'k host \<Rightarrow> (rt_err + isoRuntimeNetworkSpec) \<times> 'k host" where
  "with_policy dir env act service s =
     (case loadISORuntimeSpec dir env service s of
        (Inl e, s1) \<Rightarrow> (Inl e, s1)
      | (Inr spec, s1) \<Rightarrow>
          (case RenderISOPolicy (ns_Backend spec) (ns_Policy spec) of
             Inl e \<Rightarrow> (Inl (RenderErr e), s1)
           | Inr rules \<Rightarrow>
               (case on_ext (act rules) s1 of
                  (Some e, s2) \<Rightarrow> (Inl e, s2)
                | (None, s2) \<Rightarrow> (Inr spec, s2))))"

definition EnsurePolicy ::
  "path \<Rightarrow> 'k iso_env \<Rightarrow> ('k, 'p) reconcile_env \<Rightarrow> string \<Rightarrow> ('k \<times> bool) host \<Rightarrow> rt_err option \<times> ('k \<times> bool) host" where
  "EnsurePolicy dir env rv service s =
     (case beside (on_ext (rv_acquire rv)) s of
        (Some e, s1) \<Rightarrow> (Some e, s1)
      | (None, s1) \<Rightarrow>
          (case beside (with_policy dir env (en_EnsureISOPolicy env) service) (set_unlock s1) of
             (Inl e, s2) \<Rightarrow> (Some e, release rv s2)
           | (Inr spec, s2) \<Rightarrow> (None, s2)))"

definition ensureVMISOAttachmentForStartup ::
  "('k, 'p) reconcile_env \<Rightarrow> 'p \<Rightarrow> string \<Rightarrow> bool \<Rightarrow> 'k host \<Rightarrow> rt_err option \<times> 'k host" where
  "ensureVMISOAttachmentForStartup rv plan service running s =
     (if running then on_ext (rv_ensureSysctls rv plan service) s
      else case on_ext (rv_ensureOwnedVMNetwork rv plan service) s of
             (None, s1) \<Rightarrow> (None, s1)
           | (Some e, s1) \<Rightarrow> (case on_ext (rv_cleanupVMNetworkPlan rv plan) s1 of (e2, s2) \<Rightarrow> (join_rt [Some e, e2], s2)))"

text \<open>A query of the host.\<close>

definition ask :: "('k \<Rightarrow> (string + 'r) \<times> 'k) \<Rightarrow> 'k host \<Rightarrow> (rt_err + 'r) \<times> 'k host" where
  "ask f s = (case f (ho_ext s) of (r, x) \<Rightarrow> (map_sum ExtErr id r, s\<lparr>ho_ext := x\<rparr>))"

definition service_running :: "path \<Rightarrow> ('k, 'p) reconcile_env \<Rightarrow> string \<Rightarrow> 'k host \<Rightarrow> (rt_err + bool) \<times> 'k host" where
  "service_running dir rv service s =
     (case db_get dir s of
        (Inl e, s1) \<Rightarrow> (Inl (DbErr e), s1)
      | (Inr d, s1) \<Rightarrow> ask (rv_IsServiceRunning rv service d) s1)"

definition attach_vm ::
  "path \<Rightarrow> ('k, 'p) reconcile_env \<Rightarrow> string \<Rightarrow> 'p \<Rightarrow> 'k host \<Rightarrow> rt_err option \<times> 'k host" where
  "attach_vm dir rv service plan s =
     (case service_running dir rv service s of
        (Inl e, s1) \<Rightarrow> (Some e, s1)
      | (Inr running, s1) \<Rightarrow>
          (case ensureVMISOAttachmentForStartup rv plan service running s1 of
             (Some e, s2) \<Rightarrow> (Some e, s2)
           | (None, s2) \<Rightarrow>
               (case on_ext (rv_verifyVMNetworkPlan rv plan) s2 of
                  (None, s3) \<Rightarrow> (None, s3)
                | (Some e, s3) \<Rightarrow>
                    if running then (Some e, s3)
                    else (case on_ext (rv_cleanupVMNetworkPlan rv plan) s3 of (e2, s4) \<Rightarrow> (join_rt [Some e, e2], s4)))))"

definition ensureOrVerifyVMISOAttachmentForStartup ::
  "path \<Rightarrow> ('k, 'p) reconcile_env \<Rightarrow> string \<Rightarrow> 'k host \<Rightarrow> rt_err option \<times> 'k host" where
  "ensureOrVerifyVMISOAttachmentForStartup dir rv service s =
     (case db_get dir s of
        (Inl e, s1) \<Rightarrow> (Some (DbErr e), s1)
      | (Inr d, s1) \<Rightarrow>
          (case rv_networkPlan rv d service of
             Inl e \<Rightarrow> (Some (ExtErr e), s1)
           | Inr plan \<Rightarrow>
               if \<not> rv_hasISO rv plan then (Some (ExtErr ''VM ISO allocation but no ISO VM network''), s1)
               else (case ask (rv_withTapOwner rv plan) s1 of
                       (Inl e, s2) \<Rightarrow> (Some e, s2)
                     | (Inr owned, s2) \<Rightarrow> attach_vm dir rv service owned s2)))"

definition VerifyPolicy ::
  "path \<Rightarrow> 'k iso_env \<Rightarrow> ('k, 'p) reconcile_env \<Rightarrow> string \<Rightarrow> ('k \<times> bool) host \<Rightarrow> rt_err option \<times> ('k \<times> bool) host" where
  "VerifyPolicy dir env rv service s =
     (case beside (with_policy dir env (en_VerifyISOPolicy env) service) s of
        (Inl e, s1) \<Rightarrow> (Some e, release rv s1)
      | (Inr spec, s1) \<Rightarrow>
          if ns_VM spec
          then (case beside (ensureOrVerifyVMISOAttachmentForStartup dir rv service) s1 of (e, s2) \<Rightarrow> (e, release rv s2))
          else (None, s1))"

definition on_topology ::
  "path \<Rightarrow> 'k iso_env \<Rightarrow> (ISOTopologySpec \<Rightarrow> 'k \<Rightarrow> string option \<times> 'k) \<Rightarrow> string \<Rightarrow> 'k host \<Rightarrow> rt_err option \<times> 'k host" where
  "on_topology dir env act service s =
     (case loadISORuntimeSpec dir env service s of
        (Inl e, s1) \<Rightarrow> (Some e, s1)
      | (Inr spec, s1) \<Rightarrow> on_ext (act (ns_Topology spec)) s1)"

definition EnsureTopology ::
  "path \<Rightarrow> 'k iso_env \<Rightarrow> ('k, 'p) reconcile_env \<Rightarrow> string \<Rightarrow> ('k \<times> bool) host \<Rightarrow> rt_err option \<times> ('k \<times> bool) host" where
  "EnsureTopology dir env rv service s = or_release rv (beside (on_topology dir env (en_EnsureISOTopology env) service) s)"

definition VerifyTopology ::
  "path \<Rightarrow> 'k iso_env \<Rightarrow> ('k, 'p) reconcile_env \<Rightarrow> string \<Rightarrow> ('k \<times> bool) host \<Rightarrow> rt_err option \<times> ('k \<times> bool) host" where
  "VerifyTopology dir env rv service s =
     (case beside (on_topology dir env (en_VerifyISOTopology env) service) s of (e, s1) \<Rightarrow> (e, release rv s1))"

definition serviceIdentityPrimaryRuntimeUnit :: "Service \<Rightarrow> string \<Rightarrow> rt_err + string" where
  "serviceIdentityPrimaryRuntimeUnit sv fallback = map_sum id (\<lambda>(stop, start). last start) (serviceIdentityRuntimeUnits sv fallback)"

definition isoSystemdUnitState :: "'k iso_env \<Rightarrow> string \<Rightarrow> 'k host \<Rightarrow> (rt_err + string) \<times> 'k host" where
  "isoSystemdUnitState env unit =
     ask (\<lambda>x. case en_systemctl env [''show'', ''--property=ActiveState'', ''--value'', unit] x of
            ((output, Some e), x1) \<Rightarrow> (Inl e, x1)
          | ((output, None), x1) \<Rightarrow> (Inr (TrimSpace output), x1))"

definition inspectISONativeRuntime :: "'k iso_env \<Rightarrow> Service \<Rightarrow> 'k host \<Rightarrow> (rt_err + string) \<times> 'k host" where
  "inspectISONativeRuntime env sv s =
     (case serviceIdentityPrimaryRuntimeUnit sv (svc_Name sv) of
        Inl e \<Rightarrow> (Inl e, s)
      | Inr unit \<Rightarrow>
          (case isoSystemdUnitState env unit s of
             (Inl e, s1) \<Rightarrow> (Inl e, s1)
           | (Inr state, s1) \<Rightarrow>
               if state = ''active'' then (Inr isoReconcileRuntimeRunning, s1)
               else if state = ''inactive'' \<or> state = ''failed'' then (Inr isoReconcileRuntimeAbsent, s1)
               else (Inl (UnitRemains unit state), s1)))"

definition inspectISOVMRuntime :: "path \<Rightarrow> ('k, 'p) reconcile_env \<Rightarrow> string \<Rightarrow> 'k host \<Rightarrow> (rt_err + string) \<times> 'k host" where
  "inspectISOVMRuntime dir rv service s =
     (case service_running dir rv service s of
        (Inl e, s1) \<Rightarrow> (Inl e, s1)
      | (Inr running, s1) \<Rightarrow> (Inr (if running then isoReconcileRuntimeRunning else isoReconcileRuntimeAbsent), s1))"

definition composeService :: "path \<Rightarrow> 'k iso_env \<Rightarrow> string \<Rightarrow> 'k host \<Rightarrow> (rt_err + Service) \<times> 'k host" where
  "composeService dir env service s =
     (case service_in dir service s of
        (Inl e, s1) \<Rightarrow> (Inl e, s1)
      | (Inr sv, s1) \<Rightarrow>
          (case en_composeService env service (ho_ext s1) of
             Some e \<Rightarrow> (Inl (ExtErr e), s1)
           | None \<Rightarrow> (Inr sv, s1)))"

definition inspectAbsentISOComposeRuntime :: "'k iso_env \<Rightarrow> string \<Rightarrow> 'k host \<Rightarrow> (rt_err + string) \<times> 'k host" where
  "inspectAbsentISOComposeRuntime env service s =
     (case join_steps [on_ext (en_VerifyProjectAbsent env service), on_ext (en_VerifyDefaultNetworkAbsent env service)] [] s of
        (Some e, s1) \<Rightarrow> (Inl (StepErr ''ISO Compose runtime is not cleanly absent'' e), s1)
      | (None, s1) \<Rightarrow> (Inr isoReconcileRuntimeAbsent, s1))"

definition ArtifactDockerComposeFile :: string where "ArtifactDockerComposeFile = ''compose.yml''"

definition inspection_artifact :: "Service \<Rightarrow> string \<Rightarrow> string \<Rightarrow> rt_err + string" where
  "inspection_artifact sv name missing =
     (case ArtifactStore_Gen (svc_Artifacts sv) name (svc_Generation sv) of
        Inl _ \<Rightarrow> Inl NilArtifact
      | Inr None \<Rightarrow> Inl (ExtErr missing)
      | Inr (Some p) \<Rightarrow> Inr p)"

definition isoComposeInspectionArtifacts :: "Service \<Rightarrow> rt_err + string \<times> string" where
  "isoComposeInspectionArtifacts sv =
     (case inspection_artifact sv ArtifactDockerComposeFile ''ISO Compose base artifact is missing'' of
        Inl e \<Rightarrow> Inl e
      | Inr base \<Rightarrow>
          map_sum id (Pair base) (inspection_artifact sv ArtifactDockerComposeNetwork ''ISO Compose overlay artifact is missing''))"

definition isoComponentAddresses :: "(string \<times> ISOComponent) list \<Rightarrow> (string \<times> addr) list" where
  "isoComponentAddresses components = map (\<lambda>(name, c). (name, comp_Address c)) components"

definition inspectRunningISOComposeRuntime ::
  "('k, 'p) reconcile_env \<Rightarrow> Service \<Rightarrow> 'k host \<Rightarrow> (rt_err + string) \<times> 'k host" where
  "inspectRunningISOComposeRuntime rv sv s =
     (case isoComposeInspectionArtifacts sv of
        Inl e \<Rightarrow> (Inl e, s)
      | Inr (base, overlay) \<Rightarrow>
          (case svc_ISO sv of
             None \<Rightarrow> (Inl (NoISO (svc_Name sv)), s)
           | Some a \<Rightarrow>
               (case on_ext (rv_inspectProject rv sv [base, overlay] (isoComponentAddresses (iso_Components a))) s of
                  (Some e, s1) \<Rightarrow> (Inl e, s1)
                | (None, s1) \<Rightarrow> (Inr isoReconcileRuntimeRunning, s1))))"

definition inspectISOComposeRuntime ::
  "path \<Rightarrow> 'k iso_env \<Rightarrow> ('k, 'p) reconcile_env \<Rightarrow> string \<Rightarrow> 'k host \<Rightarrow> (rt_err + string) \<times> 'k host" where
  "inspectISOComposeRuntime dir env rv service s =
     (case composeService dir env service s of
        (Inl e, s1) \<Rightarrow> (Inl e, s1)
      | (Inr sv, s1) \<Rightarrow>
          (case ask (rv_AnyRunning rv service) s1 of
             (Inl e, s2) \<Rightarrow> (Inl e, s2)
           | (Inr running, s2) \<Rightarrow>
               if \<not> running then inspectAbsentISOComposeRuntime env service s2
               else inspectRunningISOComposeRuntime rv sv s2))"

definition InspectRuntime ::
  "path \<Rightarrow> 'k iso_env \<Rightarrow> ('k, 'p) reconcile_env \<Rightarrow> string \<Rightarrow> 'k host \<Rightarrow> (rt_err + string) \<times> 'k host" where
  "InspectRuntime dir env rv service s =
     (case service_in dir service s of
        (Inl e, s1) \<Rightarrow> (Inl e, s1)
      | (Inr sv, s1) \<Rightarrow>
          if svc_ServiceType sv = ServiceTypeVM then inspectISOVMRuntime dir rv service s1
          else if svc_ServiceType sv = ServiceTypeSystemd then inspectISONativeRuntime env sv s1
          else inspectISOComposeRuntime dir env rv service s1)"

definition verifyStoppedISOVM :: "path \<Rightarrow> ('k, 'p) reconcile_env \<Rightarrow> string \<Rightarrow> 'k host \<Rightarrow> rt_err option \<times> 'k host" where
  "verifyStoppedISOVM dir rv service s =
     (case service_running dir rv service s of
        (Inl e, s1) \<Rightarrow> (Some e, s1)
      | (Inr running, s1) \<Rightarrow> (if running then Some (UnitRemains service ''running'') else None, s1))"

definition verifyStoppedISONative :: "'k iso_env \<Rightarrow> Service \<Rightarrow> 'k host \<Rightarrow> rt_err option \<times> 'k host" where
  "verifyStoppedISONative env sv s =
     (case serviceIdentityRuntimeUnits sv (svc_Name sv) of
        Inl e \<Rightarrow> (Some e, s)
      | Inr (stop, _) \<Rightarrow> verifyISOUnitsStopped env stop s)"

definition verifyISOAuxiliaryUnitsStopped :: "'k iso_env \<Rightarrow> Service \<Rightarrow> 'k host \<Rightarrow> rt_err option \<times> 'k host" where
  "verifyISOAuxiliaryUnitsStopped env sv s =
     (case isoAuxiliaryUnits sv of Inl e \<Rightarrow> (Some e, s) | Inr units \<Rightarrow> verifyISOUnitsStopped env units s)"

definition verifyStoppedISOCompose ::
  "path \<Rightarrow> 'k iso_env \<Rightarrow> ('k, 'p) reconcile_env \<Rightarrow> string \<Rightarrow> Service \<Rightarrow> 'k host \<Rightarrow> rt_err option \<times> 'k host" where
  "verifyStoppedISOCompose dir env rv service sv s =
     (case composeService dir env service s of
        (Inl e, s1) \<Rightarrow> (Some e, s1)
      | (Inr _, s1) \<Rightarrow>
          (case ask (rv_AnyRunning rv service) s1 of
             (Inl e, s2) \<Rightarrow> (Some e, s2)
           | (Inr running, s2) \<Rightarrow>
               if running then (Some (UnitRemains service ''running''), s2)
               else verifyISOAuxiliaryUnitsStopped env sv s2))"

definition VerifyStopped ::
  "path \<Rightarrow> 'k iso_env \<Rightarrow> ('k, 'p) reconcile_env \<Rightarrow> string \<Rightarrow> 'k host \<Rightarrow> rt_err option \<times> 'k host" where
  "VerifyStopped dir env rv service s =
     (case service_in dir service s of
        (Inl e, s1) \<Rightarrow> (Some e, s1)
      | (Inr sv, s1) \<Rightarrow>
          if svc_ServiceType sv = ServiceTypeVM then verifyStoppedISOVM dir rv service s1
          else if svc_ServiceType sv = ServiceTypeSystemd then verifyStoppedISONative env sv s1
          else verifyStoppedISOCompose dir env rv service sv s1)"

definition VerifyTailscale :: "path \<Rightarrow> ('k, 'p) reconcile_env \<Rightarrow> string \<Rightarrow> 'k host \<Rightarrow> rt_err option \<times> 'k host" where
  "VerifyTailscale dir rv service s =
     (case service_in dir service s of
        (Inl e, s1) \<Rightarrow> (Some e, s1)
      | (Inr sv, s1) \<Rightarrow>
          if svc_TSNet sv = None then (Some (ExtErr ''Tailscale requested without persisted Tailscale state''), s1)
          else (case wrap_err ''load ISO Tailscale service'' (on_ext (rv_systemdService rv service) s1) of
                  (Some e, s2) \<Rightarrow> (Some e, s2)
                | (None, s2) \<Rightarrow> wrap_err ''verify ISO Tailscale service'' (on_ext (rv_verifySidecar rv service) s2)))"

text \<open>A record without an allocation would make the source panic in the next two; here it is an error.\<close>

definition ResumeRemoval :: "path \<Rightarrow> ('k, 'p) reconcile_env \<Rightarrow> string \<Rightarrow> 'k host \<Rightarrow> rt_err option \<times> 'k host" where
  "ResumeRemoval dir rv service s =
     (case service_in dir service s of
        (Inl e, s1) \<Rightarrow> (Some e, s1)
      | (Inr sv, s1) \<Rightarrow>
          (case svc_ISO sv of
             None \<Rightarrow> (Some (NoISO service), s1)
           | Some a \<Rightarrow> rv_RemoveService rv (iso_RemoveCleanData a) service s1))"

definition quarantine_record :: "path \<Rightarrow> (rt_err \<Rightarrow> string) \<Rightarrow> rt_err \<Rightarrow> string \<Rightarrow> 'k host \<Rightarrow> rt_err option \<times> 'k host" where
  "quarantine_record dir txt cause service s =
     (case service_in dir service s of
        (Inl _, s1) \<Rightarrow> mark_state_in dir service StateQuarantined (txt cause) s1
      | (Inr sv, s1) \<Rightarrow>
          (case svc_ISO sv of
             None \<Rightarrow> (Some (NoISO service), s1)
           | Some a \<Rightarrow>
               mark_state_in dir service (if iso_RemoveRequested a then StateTombstoned else StateQuarantined) (txt cause) s1))"

definition stop_untrusted :: "path \<Rightarrow> 'k iso_env \<Rightarrow> string \<Rightarrow> 'k host \<Rightarrow> rt_err option \<times> 'k host" where
  "stop_untrusted dir env service s =
     (case service_in dir service s of
        (Inl e, s1) \<Rightarrow> (Some e, s1)
      | (Inr sv, s1) \<Rightarrow>
          if svc_ServiceType sv = ServiceTypeVM then runISOReconcileVMSystemctl env ''stop'' service s1
          else if svc_ServiceType sv = ServiceTypeSystemd then stopAndVerifyISONativeUnits env sv s1
          else (case composeService dir env service s1 of
                  (Inl e, s2) \<Rightarrow> (Some e, s2)
                | (Inr record_, s2) \<Rightarrow>
                    join_steps [on_ext (en_StopProjectContainers env service), stopAndVerifyISOAuxiliaryUnits env record_] [] s2))"

definition restart_trusted ::
  "path \<Rightarrow> ('k \<Rightarrow> bool) \<Rightarrow> 'k iso_env \<Rightarrow> ('k, 'p) reconcile_env \<Rightarrow> string \<Rightarrow> 'k host \<Rightarrow> rt_err option \<times> 'k host" where
  "restart_trusted dir canceled env rv service s =
     (case service_in dir service s of
        (Inl e, s1) \<Rightarrow> (Some e, s1)
      | (Inr sv, s1) \<Rightarrow>
          if svc_ServiceType sv = ServiceTypeVM then runISOReconcileVMSystemctl env ''start'' service s1
          else (case rv_NewInstaller rv service s1 of
                  (Some e, s2) \<Rightarrow> (Some e, s2)
                | (None, s2) \<Rightarrow>
                    if canceled (ho_ext s2) then (Some Canceled, s2)
                    else rv_installGen rv (svc_Generation sv) service s2))"

definition VerifyGlobalPolicy ::
  "path \<Rightarrow> 'k iso_env \<Rightarrow> ('k, 'p) reconcile_env \<Rightarrow> ('k \<times> bool) host \<Rightarrow> rt_err option \<times> ('k \<times> bool) host" where
  "VerifyGlobalPolicy dir env rv s =
     beside (withISOOperationLock (rv_acquire rv) (rv_unlock rv) (with_global_policy dir env (en_VerifyISOPolicy env))) (release rv s)"

definition isoConcreteReconcileSteps ::
  "path \<Rightarrow> (rt_err \<Rightarrow> string) \<Rightarrow> ('k \<Rightarrow> bool) \<Rightarrow> 'k iso_env \<Rightarrow> ('k, 'p) reconcile_env \<Rightarrow> ('k \<times> bool) isoReconcileSteps" where
  "isoConcreteReconcileSteps dir txt canceled env rv =
     \<lparr>rc_ValidatePool = beside (ValidatePool dir),
      rc_InstallDNS = beside (on_ext (rv_installDNS rv)),
      rc_EnsurePolicy = EnsurePolicy dir env rv,
      rc_VerifyPolicy = VerifyPolicy dir env rv,
      rc_EnsureTopology = EnsureTopology dir env rv,
      rc_VerifyTopology = VerifyTopology dir env rv,
      rc_InspectRuntime = (\<lambda>n. beside (InspectRuntime dir env rv n)),
      rc_VerifyStopped = (\<lambda>n. beside (VerifyStopped dir env rv n)),
      rc_VerifyTailscale = (\<lambda>n. beside (VerifyTailscale dir rv n)),
      rc_ResumeRemoval = (\<lambda>n. beside (ResumeRemoval dir rv n)),
      rc_StopUntrusted = (\<lambda>n s. beside (stop_untrusted dir env n) (release rv s)),
      rc_Quarantine = (\<lambda>cause n s. beside (quarantine_record dir txt cause n) (release rv s)),
      rc_VerifyGlobalPolicy = VerifyGlobalPolicy dir env rv,
      rc_RestartTrusted = (\<lambda>n s. beside (restart_trusted dir canceled env rv n) (release rv s))\<rparr>"

definition reconcileISONetworks ::
  "path \<Rightarrow> (rt_err \<Rightarrow> string) \<Rightarrow> ('k \<Rightarrow> bool) \<Rightarrow> 'k iso_env \<Rightarrow> ('k, 'p) reconcile_env \<Rightarrow> ('k \<times> bool) host \<Rightarrow> rt_err option \<times> ('k \<times> bool) host" where
  "reconcileISONetworks dir txt canceled env rv =
     reconcileISONetworksWith dir (canceled \<circ> fst) (isoConcreteReconcileSteps dir txt canceled env rv)"

section \<open>The lock across the steps\<close>

text \<open>
  What the steps promise the gate about the lock, for states \<open>P b\<close> in which the adapter holds it exactly if \<open>b\<close>, and the machines \<open>vm\<close>:
  it is taken by the first phase and kept to the last one of a service, or to the first failure.
\<close>

definition lock_protocol ::
  "path \<Rightarrow> (bool \<Rightarrow> 'k host \<Rightarrow> bool) \<Rightarrow> (string \<Rightarrow> bool) \<Rightarrow> 'k isoReconcileSteps \<Rightarrow> bool" where
  "lock_protocol dir P vm steps \<longleftrightarrow>
     (\<forall>b s. P b s \<longrightarrow> P b (snd (db_get dir s))) \<and>
     (\<forall>s. P False s \<longrightarrow> P False (snd (rc_ValidatePool steps s)) \<and> P False (snd (rc_InstallDNS steps s)) \<and> P False (snd (rc_VerifyGlobalPolicy steps s))) \<and>
     (\<forall>n s. P False s \<longrightarrow> P (fst (rc_EnsurePolicy steps n s) = None) (snd (rc_EnsurePolicy steps n s))) \<and>
     (\<forall>n s. P True s \<longrightarrow> P (fst (rc_VerifyPolicy steps n s) = None \<and> \<not> vm n) (snd (rc_VerifyPolicy steps n s))) \<and>
     (\<forall>n s. P True s \<longrightarrow> P (fst (rc_EnsureTopology steps n s) = None) (snd (rc_EnsureTopology steps n s))) \<and>
     (\<forall>n s. P True s \<longrightarrow> P False (snd (rc_VerifyTopology steps n s))) \<and>
     (\<forall>n s. P False s \<longrightarrow> P False (snd (rc_InspectRuntime steps n s)) \<and> P False (snd (rc_VerifyStopped steps n s)) \<and>
        P False (snd (rc_VerifyTailscale steps n s)) \<and> P False (snd (rc_ResumeRemoval steps n s)) \<and> P False (snd (rc_RestartTrusted steps n s))) \<and>
     (\<forall>n b s. P b s \<longrightarrow> P False (snd (rc_StopUntrusted steps n s))) \<and>
     (\<forall>c n s. P False s \<longrightarrow> P False (snd (rc_Quarantine steps c n s)))"

lemma protocolD:
  assumes "lock_protocol dir P vm steps"
  shows "P b s \<Longrightarrow> db_get dir s = (r, s') \<Longrightarrow> P b s'"
    "P False s \<Longrightarrow> rc_ValidatePool steps s = (e, s') \<Longrightarrow> P False s'"
    "P False s \<Longrightarrow> rc_InstallDNS steps s = (e, s') \<Longrightarrow> P False s'"
    "P False s \<Longrightarrow> rc_VerifyGlobalPolicy steps s = (e, s') \<Longrightarrow> P False s'"
    "P False s \<Longrightarrow> rc_EnsurePolicy steps n s = (e, s') \<Longrightarrow> P (e = None) s'"
    "P True s \<Longrightarrow> rc_VerifyPolicy steps n s = (e, s') \<Longrightarrow> P (e = None \<and> \<not> vm n) s'"
    "P True s \<Longrightarrow> rc_EnsureTopology steps n s = (e, s') \<Longrightarrow> P (e = None) s'"
    "P True s \<Longrightarrow> rc_VerifyTopology steps n s = (e, s') \<Longrightarrow> P False s'"
    "P False s \<Longrightarrow> rc_InspectRuntime steps n s = (q, s') \<Longrightarrow> P False s'"
    "P False s \<Longrightarrow> rc_VerifyStopped steps n s = (e, s') \<Longrightarrow> P False s'"
    "P False s \<Longrightarrow> rc_VerifyTailscale steps n s = (e, s') \<Longrightarrow> P False s'"
    "P False s \<Longrightarrow> rc_ResumeRemoval steps n s = (e, s') \<Longrightarrow> P False s'"
    "P False s \<Longrightarrow> rc_RestartTrusted steps n s = (e, s') \<Longrightarrow> P False s'"
    "P b s \<Longrightarrow> rc_StopUntrusted steps n s = (e, s') \<Longrightarrow> P False s'"
    "P False s \<Longrightarrow> rc_Quarantine steps c n s = (e, s') \<Longrightarrow> P False s'"
  using assms unfolding lock_protocol_def by (metis fst_conv snd_conv)+

lemma stop_frees:
  assumes "lock_protocol dir P vm steps" "P b s" "stopAndQuarantineISO steps n c s = (e, s')"
  shows "P False s'"
proof -
  obtain e1 s1 where 1: "rc_StopUntrusted steps n s = (e1, s1)" by force
  obtain e2 s2 where 2: "rc_Quarantine steps c n s1 = (e2, s2)" by force
  have "P False s2" using protocolD(14) [OF assms(1,2) 1] protocolD(15) [OF assms(1) _ 2] by blast
  then show ?thesis using assms(3) 1 2 by (simp add: stopAndQuarantineISO_def)
qed

lemma untrusted_frees:
  assumes "lock_protocol dir P vm steps" "P b s" "untrusted steps n c s = (r, s')"
  shows "P False s'"
  using assms(3) stop_frees [OF assms(1,2)] by (auto simp: untrusted_def split: prod.splits)

lemma runtime_free:
  assumes "lock_protocol dir P vm steps" "P False s" "reconcile_runtime steps n a s = (r, s')"
  shows "P False s'"
proof -
  note p = protocolD [OF assms(1)] and u = untrusted_frees [OF assms(1)]
  obtain e1 s1 where 1: "rc_VerifyStopped steps n s = (e1, s1)" by force
  obtain q s2 where 2: "rc_InspectRuntime steps n s = (q, s2)" by force
  obtain e3 s3 where 3: "rc_VerifyTailscale steps n s2 = (e3, s3)" by force
  note P1 = p(10) [OF assms(2) 1] and P2 = p(9) [OF assms(2) 2]
  note P3 = p(11) [OF P2 3]
  show ?thesis
    using assms(3) 1 2 3 P1 P2 P3 u [OF P1] u [OF P2] u [OF P3]
    by (cases e1; cases q; cases e3) (auto simp: reconcile_runtime_def split: if_splits)
qed

text \<open>The phases of one service, with what a failure leaves behind.\<close>

lemma phases_lock:
  assumes "lock_protocol dir P vm steps" "P False s" "vm n \<longleftrightarrow> iso_Kind a = PayloadVM"
    and "run_checks canceled (reconcile_phases steps a) n s = (e, s')"
  shows "\<exists>b. P b s' \<and> (e = None \<longrightarrow> \<not> b)"
proof -
  note p = protocolD [OF assms(1)]
  obtain e1 s1 where 1: "rc_EnsurePolicy steps n s = (e1, s1)" by force
  obtain e2 s2 where 2: "rc_VerifyPolicy steps n s1 = (e2, s2)" by force
  obtain e3 s3 where 3: "rc_EnsureTopology steps n s2 = (e3, s3)" by force
  obtain e4 s4 where 4: "rc_VerifyTopology steps n s3 = (e4, s4)" by force
  have P1: "P (e1 = None) s1" by (rule p(5) [OF assms(2) 1])
  have P2: "e1 = None \<Longrightarrow> P (e2 = None \<and> \<not> vm n) s2" using p(6) [OF _ 2] P1 by simp
  have P3: "e1 = None \<Longrightarrow> e2 = None \<Longrightarrow> \<not> vm n \<Longrightarrow> P (e3 = None) s3" using p(7) [OF _ 3] P2 by simp
  have P4: "e1 = None \<Longrightarrow> e2 = None \<Longrightarrow> \<not> vm n \<Longrightarrow> e3 = None \<Longrightarrow> P False s4" using p(8) [OF _ 4] P3 by simp
  show ?thesis
    using assms(2,4) assms(3) 1 2 3 4 P1 P2 P3 P4
    by (cases e1; cases e2; cases e3; cases e4) (auto simp: reconcile_phases_def split: if_splits)
qed

lemma service_free:
  assumes "lock_protocol dir P vm steps" "P False s" "vm n \<longleftrightarrow> iso_Kind a = PayloadVM"
    and "reconcileISOServiceWith canceled steps n a s = (r, s')"
  shows "P False s'"
proof -
  obtain e s1 where 1: "run_checks canceled (reconcile_phases steps a) n s = (e, s1)" by force
  obtain b where b: "P b s1" "e = None \<longrightarrow> \<not> b" using phases_lock [OF assms(1-3) 1] by blast
  show ?thesis
  proof (cases e)
    case None
    then show ?thesis using assms(4) 1 b runtime_free [OF assms(1)] by (simp add: reconcileISOServiceWith_def)
  next
    case (Some x)
    then show ?thesis using assms(4) 1 untrusted_frees [OF assms(1) b(1)] by (simp add: reconcileISOServiceWith_def)
  qed
qed

lemma stop_all_free:
  assumes "lock_protocol dir P vm steps"
  shows "P False s \<Longrightarrow> stop_all steps ns c errs s = (r, s') \<Longrightarrow> P False s'"
  by (induction ns arbitrary: errs s) (auto split: prod.splits dest: stop_frees [OF assms])

lemma reconcile_all_free:
  assumes "lock_protocol dir P vm steps"
  shows "P False s \<Longrightarrow> (\<And>n a. (n, a) \<in> set rs \<Longrightarrow> vm n \<longleftrightarrow> iso_Kind a = PayloadVM) \<Longrightarrow>
    reconcile_all canceled steps rs errs restarts s = (r, s') \<Longrightarrow> P False s'"
proof (induction rs arbitrary: errs restarts s)
  case (Cons q rs)
  obtain n a where q: "q = (n, a)" by force
  obtain e1 s1 where 1: "rc_ResumeRemoval steps n s = (e1, s1)" by force
  obtain w e2 s2 where 2: "reconcileISOServiceWith canceled steps n a s = ((w, e2), s2)" by (metis surj_pair)
  have "P False s1" "P False s2"
    using protocolD(12) [OF assms Cons.prems(1) 1] service_free [OF assms Cons.prems(1) _ 2] Cons.prems(2) [of n a] by (auto simp: q)
  then show ?case using Cons.IH [of s1] Cons.IH [of s2] Cons.prems(2,3) 1 2
    by (auto simp: q wrap_err_def split: if_splits option.splits)
qed simp

lemma restart_all_free:
  assumes "lock_protocol dir P vm steps"
  shows "P False s \<Longrightarrow> restart_all canceled steps ns errs s = (r, s') \<Longrightarrow> P False s'"
proof (induction ns arbitrary: errs s)
  case (Cons n ns)
  obtain e1 s1 where 1: "stopAndQuarantineISO steps n (StepErr ''restart verified ISO service'' Canceled) s = (e1, s1)" by force
  obtain e2 s2 where 2: "rc_RestartTrusted steps n s = (e2, s2)" by force
  note P1 = stop_frees [OF assms Cons.prems(1) 1] and P2 = protocolD(13) [OF assms Cons.prems(1) 2]
  show ?case
  proof (cases "canceled (ho_ext s) \<or> e2 = None")
    case True
    then show ?thesis using Cons.IH [OF P1] Cons.IH [OF P2] Cons.prems(2) 1 2 by (auto split: if_splits)
  next
    case False
    then obtain x where x: "e2 = Some x" "\<not> canceled (ho_ext s)" by blast
    obtain e3 s3 where 3: "stopAndQuarantineISO steps n (StepErr ''restart verified ISO service'' x) s2 = (e3, s3)" by force
    show ?thesis using Cons.IH [OF stop_frees [OF assms P2 3]] Cons.prems(2) 2 3 x by simp
  qed
qed simp

lemma phase_free:
  assumes "\<And>e s'. run s = (e, s') \<Longrightarrow> Q s'" "Q s" "runISOReconcileGlobalPhase canceled name run s = (r, s')"
  shows "Q s'"
  using assms by (cases "run s") (auto simp: runISOReconcileGlobalPhase_def wrap_err_def split: if_splits)

text \<open>However the run goes, the lock is free after it.\<close>

lemma run_free:
  assumes "lock_protocol dir P vm steps" "P False s" "reconcileISONetworksWith dir canceled steps s = (e, s')"
    and "\<And>d s0 n a. db_get dir s = (Inr d, s0) \<Longrightarrow> (n, a) \<in> set (service_isos (Services d)) \<Longrightarrow> vm n \<longleftrightarrow> iso_Kind a = PayloadVM"
  shows "P False s'"
proof -
  note p = protocolD [OF assms(1)]
  obtain g s0 where g: "db_get dir s = (g, s0)" by force
  have 0: "P False s0" by (rule p(1) [OF assms(2) g])
  have fin: "P False t'" if "P False t" "reconcile_finish dir canceled steps ns R errs t = (errs', t')" for t ns R errs errs' t'
  proof -
    obtain e1 t1 where 1: "runISOReconcileGlobalPhase canceled ''verify global ISO policy'' (rc_VerifyGlobalPolicy steps) t = (e1, t1)" by force
    have P1: "P False t1" by (rule phase_free [where Q = "P False", OF p(4) [OF that(1)] that(1) 1])
    obtain q t2 where 2: "currentISOAllocationNames dir t1 = (q, t2)" by force
    have "P False t2" using 2 p(1) [OF P1] by (auto simp: currentISOAllocationNames_def split: prod.splits sum.splits option.splits)
    then show ?thesis
      using that(2) 1 2 stop_all_free [OF assms(1), of t2 _ _ _ errs' t'] restart_all_free [OF assms(1) P1, of _ _ _ errs' t']
      by (cases e1; cases q) (simp_all add: reconcile_finish_def)
  qed
  have glob: "P False t'" if "P False t" "global_phases canceled steps t = (e1, t')" for t e1 t'
  proof -
    obtain e1 t1 where 1: "runISOReconcileGlobalPhase canceled ''validate ISO pool'' (rc_ValidatePool steps) t = (e1, t1)" by force
    have P1: "P False t1" by (rule phase_free [where Q = "P False", OF p(2) [OF that(1)] that(1) 1])
    obtain e2 t2 where 2: "runISOReconcileGlobalPhase canceled ''install ISO DNS'' (rc_InstallDNS steps) t1 = (e2, t2)" by force
    have "P False t2" by (rule phase_free [where Q = "P False", OF p(3) [OF P1] P1 2])
    then show ?thesis using that(2) 1 2 P1 by (cases e1) (auto simp: global_phases_def)
  qed
  show ?thesis
  proof (cases g)
    case (Inl x)
    then show ?thesis using assms(3) g 0 by (simp add: reconcileISONetworksWith_def)
  next
    case (Inr d)
    let ?rs = "sort_key fst (service_isos (Services d))"
    obtain e1 s1 where 1: "global_phases canceled steps s0 = (e1, s1)" by force
    obtain errs R s2 where 2: "reconcile_records canceled steps ?rs s0 = ((errs, R), s2)" by (metis surj_pair)
    note P1 = glob [OF 0 1]
    have "P False s2"
    proof (cases e1)
      case None
      then have "reconcile_all canceled steps ?rs [] [] s1 = ((errs, R), s2)" using 2 1 by (simp add: reconcile_records_def)
      then show ?thesis by (rule reconcile_all_free [OF assms(1) P1, rotated]) (use assms(4) [of d s0] g Inr in simp)
    next
      case (Some x)
      then show ?thesis using 2 1 stop_all_free [OF assms(1) P1] by (auto simp: reconcile_records_def split: prod.splits)
    qed
    then show ?thesis using fin assms(3) g Inr 2 by (auto simp: reconcileISONetworksWith_def split: prod.splits)
  qed
qed

section \<open>The steps on the host keep the protocol\<close>

text \<open>
  \<open>lk\<close> tells of a state of the host whether this process holds the lock and whether it has ever waited for it while
  it held it. Operations that change neither the data nor this:
\<close>

definition steady :: "('k \<Rightarrow> bool \<times> bool) \<Rightarrow> ('k host \<Rightarrow> 'r \<times> 'k host) \<Rightarrow> bool" where
  "steady lk f \<longleftrightarrow> quiet f \<and> (\<forall>s. lk (ho_ext (snd (f s))) = lk (ho_ext s))"

definition neutral :: "('k \<Rightarrow> bool \<times> bool) \<Rightarrow> ('k \<Rightarrow> 'r \<times> 'k) \<Rightarrow> bool" where
  "neutral lk f \<longleftrightarrow> (\<forall>x. lk (snd (f x)) = lk x)"

named_theorems steady_intros

lemma steady_return [steady_intros]: "steady lk (\<lambda>s. (r s, s))"
  by (simp add: steady_def quiet_def)

lemma steady_get [steady_intros]: "steady lk (db_get dir)"
  unfolding steady_def by (rule conjI [OF quiet_get]) (simp add: db_get_def on_store_def split: prod.splits)

lemma steady_ext [steady_intros]: "neutral lk f \<Longrightarrow> steady lk (on_ext f)"
  by (auto simp: steady_def quiet_ext neutral_def on_ext_def split: prod.splits) (metis snd_conv)

lemma steady_ask [steady_intros]: "neutral lk f \<Longrightarrow> steady lk (ask f)"
  by (auto simp: steady_def quiet_def neutral_def ask_def fresh_def view_def split: prod.splits) (metis snd_conv)

lemma steady_bind [steady_intros]: "steady lk f \<Longrightarrow> (\<And>r. steady lk (g r)) \<Longrightarrow> steady lk (\<lambda>s. case f s of (r, s1) \<Rightarrow> g r s1)"
  by (simp add: steady_def quiet_bind case_prod_unfold) (simp add: quiet_def)

lemma steady_option [steady_intros]:
  "steady lk f \<Longrightarrow> (\<And>e. steady lk (g e)) \<Longrightarrow> steady lk (\<lambda>s. case r s of None \<Rightarrow> f s | Some e \<Rightarrow> g e s)"
  by (simp add: steady_def quiet_def split: option.splits)

lemma steady_sum [steady_intros]:
  "(\<And>e. steady lk (f e)) \<Longrightarrow> (\<And>e. steady lk (g e)) \<Longrightarrow> steady lk (\<lambda>s. case r s of Inl e \<Rightarrow> f e s | Inr e \<Rightarrow> g e s)"
  by (simp add: steady_def quiet_def split: sum.splits)

lemma steady_prod [steady_intros]:
  "(\<And>x y. steady lk (f x y)) \<Longrightarrow> steady lk (\<lambda>s. case r of (x, y) \<Rightarrow> f x y s)"
  by (cases r) simp

lemma steady_if [steady_intros]: "steady lk f \<Longrightarrow> steady lk g \<Longrightarrow> steady lk (\<lambda>s. if c s then f s else g s)"
  by (simp add: steady_def quiet_def)

lemma steady_wrap [steady_intros]: "steady lk f \<Longrightarrow> steady lk (\<lambda>s. wrap_err name (f s))"
  by (simp add: steady_def quiet_def wrap_err_def)

lemma steady_eta: "steady lk (\<lambda>s. f s) \<Longrightarrow> steady lk f"
  by simp

lemma steady_join: "(\<And>f. f \<in> set fs \<Longrightarrow> steady lk f) \<Longrightarrow> steady lk (join_steps fs errs)"
proof (induction fs arbitrary: errs)
  case (Cons f fs)
  show ?case by (rule steady_eta, unfold join_steps.simps) (intro steady_intros Cons; simp)
qed (simp add: steady_def quiet_def)

lemma steady_spec [steady_intros]: "steady lk (loadISORuntimeSpec dir env n)"
  by (rule steady_eta, unfold loadISORuntimeSpec_def) (intro steady_intros)

lemma steady_service [steady_intros]: "steady lk (service_in dir n)"
  by (rule steady_eta, unfold service_in_def) (intro steady_intros)

lemma steady_units:
  assumes "\<And>args. neutral lk (en_systemctl env args)"
  shows "steady lk (verifyISOUnitsStopped env units)" "steady lk (stopAndVerifyISOUnits env units)"
proof -
  have n: "lk (snd (en_systemctl env args x)) = lk x" for args x using assms unfolding neutral_def by blast
  show 1: "steady lk (verifyISOUnitsStopped env us)" for us
  proof (induction us)
    case (Cons u us)
    have "lk x' = lk (ho_ext s)" if "en_systemctl env args (ho_ext s) = (r, x')" for args r x' and s :: "'a host"
      using n [of args "ho_ext s"] that by simp
    then show ?case using Cons unfolding steady_def
      by (intro conjI [OF quiet_units]) (auto split: prod.splits option.splits)
  qed (simp add: steady_def quiet_def)
  have "lk x' = lk (ho_ext s)" if "en_systemctl env args (ho_ext s) = (r, x')" for args r x' and s :: "'a host"
    using n [of args "ho_ext s"] that by simp
  then show "steady lk (stopAndVerifyISOUnits env units)"
    using 1 [of units] by (auto simp: steady_def quiet_stop_units stopAndVerifyISOUnits_def split: prod.splits option.splits)
qed

text \<open>
  States of the host in which the lock is held exactly if \<open>b\<close> and was never waited for in vain, and in which exactly
  the services \<open>vm\<close> among those with an allocation are machines.
\<close>

definition settled :: "('k \<Rightarrow> bool \<times> bool) \<Rightarrow> (string \<Rightarrow> bool) \<Rightarrow> bool \<Rightarrow> 'k host \<Rightarrow> bool" where
  "settled lk vm b s \<longleftrightarrow>
     fresh s \<and> (\<forall>d n a. view s = Some d \<longrightarrow> isoAllocationInData d n = Some a \<longrightarrow> (vm n \<longleftrightarrow> iso_Kind a = PayloadVM)) \<and>
     lk (ho_ext s) = (b, False)"

definition inner :: "('k \<times> bool) host \<Rightarrow> 'k host" where
  "inner s = \<lparr>ho_store = ho_store s, ho_ext = fst (ho_ext s)\<rparr>"

definition in_step :: "('k \<Rightarrow> bool \<times> bool) \<Rightarrow> (string \<Rightarrow> bool) \<Rightarrow> bool \<Rightarrow> ('k \<times> bool) host \<Rightarrow> bool" where
  "in_step lk vm b s \<longleftrightarrow> settled lk vm b (inner s) \<and> snd (ho_ext s) = b"

text \<open>
  The contract of what the steps call. Acquiring a free lock holds it unless it fails, acquiring a held lock waits, unlocking frees it. The tools leave the
  lock alone. The removal of a service and the installer take and give back the lock themselves and do not turn
  machines into other services.
\<close>

definition leaves_free :: "('k \<Rightarrow> bool \<times> bool) \<Rightarrow> ('k host \<Rightarrow> 'r \<times> 'k host) \<Rightarrow> bool" where
  "leaves_free lk f \<longleftrightarrow> (\<forall>vm s. settled lk vm False s \<longrightarrow> settled lk vm False (snd (f s)))"

definition lock_law :: "('k \<Rightarrow> bool \<times> bool) \<Rightarrow> ('k \<Rightarrow> string option \<times> 'k) \<Rightarrow> ('k \<Rightarrow> 'k) \<Rightarrow> bool" where
  "lock_law lk acquire unlock \<longleftrightarrow>
     (\<forall>x. \<not> fst (lk x) \<longrightarrow> lk (snd (acquire x)) = (fst (acquire x) = None, snd (lk x))) \<and>
     (\<forall>x. fst (lk x) \<longrightarrow> snd (lk (snd (acquire x)))) \<and>
     (\<forall>x. lk (unlock x) = (False, snd (lk x)))"

definition env_law :: "('k \<Rightarrow> bool \<times> bool) \<Rightarrow> 'k iso_env \<Rightarrow> bool" where
  "env_law lk env \<longleftrightarrow>
     (\<forall>args. neutral lk (en_systemctl env args)) \<and> (\<forall>r. neutral lk (en_EnsureISOPolicy env r)) \<and> (\<forall>r. neutral lk (en_VerifyISOPolicy env r)) \<and>
     (\<forall>t. neutral lk (en_EnsureISOTopology env t)) \<and> (\<forall>t. neutral lk (en_VerifyISOTopology env t)) \<and>
     (\<forall>n. neutral lk (en_StopProjectContainers env n)) \<and> (\<forall>n. neutral lk (en_VerifyProjectAbsent env n)) \<and>
     (\<forall>n. neutral lk (en_VerifyDefaultNetworkAbsent env n))"

definition reconcile_law :: "('k \<Rightarrow> bool \<times> bool) \<Rightarrow> ('k, 'p) reconcile_env \<Rightarrow> bool" where
  "reconcile_law lk rv \<longleftrightarrow>
     lock_law lk (rv_acquire rv) (rv_unlock rv) \<and> neutral lk (rv_installDNS rv) \<and> (\<forall>p. neutral lk (rv_withTapOwner rv p)) \<and>
     (\<forall>n d. neutral lk (rv_IsServiceRunning rv n d)) \<and> (\<forall>p n. neutral lk (rv_ensureSysctls rv p n)) \<and>
     (\<forall>p n. neutral lk (rv_ensureOwnedVMNetwork rv p n)) \<and> (\<forall>p. neutral lk (rv_verifyVMNetworkPlan rv p)) \<and>
     (\<forall>p. neutral lk (rv_cleanupVMNetworkPlan rv p)) \<and> (\<forall>n. neutral lk (rv_AnyRunning rv n)) \<and>
     (\<forall>sv files cs. neutral lk (rv_inspectProject rv sv files cs)) \<and> (\<forall>n. neutral lk (rv_systemdService rv n)) \<and>
     (\<forall>n. neutral lk (rv_verifySidecar rv n)) \<and> (\<forall>c n. leaves_free lk (rv_RemoveService rv c n)) \<and>
     (\<forall>n. leaves_free lk (rv_NewInstaller rv n)) \<and> (\<forall>g n. leaves_free lk (rv_installGen rv g n))"

lemma env_neutral:
  assumes "env_law lk env"
  shows "neutral lk (en_systemctl env args)" "neutral lk (en_EnsureISOPolicy env r)" "neutral lk (en_VerifyISOPolicy env r)"
    "neutral lk (en_EnsureISOTopology env t)" "neutral lk (en_VerifyISOTopology env t)" "neutral lk (en_StopProjectContainers env n)"
    "neutral lk (en_VerifyProjectAbsent env n)" "neutral lk (en_VerifyDefaultNetworkAbsent env n)"
  using assms unfolding env_law_def by blast+

lemma reconcile_neutral:
  assumes "reconcile_law lk rv"
  shows "neutral lk (rv_installDNS rv)" "neutral lk (rv_withTapOwner rv p)" "neutral lk (rv_IsServiceRunning rv n d)"
    "neutral lk (rv_ensureSysctls rv p n)" "neutral lk (rv_ensureOwnedVMNetwork rv p n)" "neutral lk (rv_verifyVMNetworkPlan rv p)"
    "neutral lk (rv_cleanupVMNetworkPlan rv p)" "neutral lk (rv_AnyRunning rv n)" "neutral lk (rv_inspectProject rv sv files cs)"
    "neutral lk (rv_systemdService rv n)" "neutral lk (rv_verifySidecar rv n)"
  using assms unfolding reconcile_law_def by blast+

lemma steady_systemctl: "env_law lk env \<Longrightarrow> steady lk (runISOReconcileVMSystemctl env act n)"
  unfolding runISOReconcileVMSystemctl_def
  by (rule steady_ext) (simp add: neutral_def case_prod_unfold env_neutral(1) [unfolded neutral_def])

lemma steady_unit_state: "env_law lk env \<Longrightarrow> steady lk (isoSystemdUnitState env u)"
  unfolding isoSystemdUnitState_def
  by (rule steady_ask) (simp add: neutral_def case_prod_unfold env_neutral(1) [unfolded neutral_def] split: option.split)

lemma steady_parts:
  assumes "env_law lk env" "reconcile_law lk rv"
  shows "steady lk (service_running dir rv n)" "steady lk (composeService dir env n)" "steady lk (inspectISONativeRuntime env sv)"
    "steady lk (inspectAbsentISOComposeRuntime env n)" "steady lk (inspectRunningISOComposeRuntime rv sv)"
    "steady lk (verifyISOUnitsStopped env us)" "steady lk (stopAndVerifyISOAuxiliaryUnits env sv)" "steady lk (stopAndVerifyISONativeUnits env sv)"
proof -
  note n = env_neutral [OF assms(1)] reconcile_neutral [OF assms(2)]
  note u = steady_units [OF n(1)]
  have j: "steady lk (join_steps [on_ext (en_VerifyProjectAbsent env n), on_ext (en_VerifyDefaultNetworkAbsent env n)] [])"
    by (rule steady_join) (auto intro: steady_ext n)
  show "steady lk (service_running dir rv n)" by (rule steady_eta, unfold service_running_def) (intro steady_intros n)
  show "steady lk (composeService dir env n)" by (rule steady_eta, unfold composeService_def) (intro steady_intros n)
  show "steady lk (inspectISONativeRuntime env sv)"
    by (rule steady_eta, unfold inspectISONativeRuntime_def) (intro steady_intros steady_unit_state assms)
  show "steady lk (inspectAbsentISOComposeRuntime env n)"
    by (rule steady_eta, unfold inspectAbsentISOComposeRuntime_def) (intro steady_intros j)
  show "steady lk (inspectRunningISOComposeRuntime rv sv)"
    by (rule steady_eta, unfold inspectRunningISOComposeRuntime_def) (intro steady_intros n)
  show "steady lk (verifyISOUnitsStopped env us)" by (rule u)
  show "steady lk (stopAndVerifyISOAuxiliaryUnits env sv)" by (rule steady_eta, unfold stopAndVerifyISOAuxiliaryUnits_def) (intro steady_intros u)
  show "steady lk (stopAndVerifyISONativeUnits env sv)" by (rule steady_eta, unfold stopAndVerifyISONativeUnits_def) (intro steady_intros u)
qed

lemma steady_queries:
  assumes "env_law lk env" "reconcile_law lk rv"
  shows "steady lk (ValidatePool dir)" "steady lk (InspectRuntime dir env rv n)" "steady lk (VerifyStopped dir env rv n)"
    "steady lk (VerifyTailscale dir rv n)" "steady lk (stop_untrusted dir env n)"
    "steady lk (ensureOrVerifyVMISOAttachmentForStartup dir rv n)" "steady lk (with_global_policy dir env (en_VerifyISOPolicy env))"
proof -
  note n = env_neutral [OF assms(1)] reconcile_neutral [OF assms(2)]
  note p = steady_parts [OF assms]
  show "steady lk (ValidatePool dir)" by (rule steady_eta, unfold ValidatePool_def) (intro steady_intros)
  show "steady lk (InspectRuntime dir env rv n)"
    by (rule steady_eta, unfold InspectRuntime_def inspectISOVMRuntime_def inspectISOComposeRuntime_def) (intro steady_intros n p)
  show "steady lk (VerifyStopped dir env rv n)"
    by (rule steady_eta, unfold VerifyStopped_def verifyStoppedISOVM_def verifyStoppedISONative_def verifyStoppedISOCompose_def
        verifyISOAuxiliaryUnitsStopped_def) (intro steady_intros n p)
  show "steady lk (VerifyTailscale dir rv n)" by (rule steady_eta, unfold VerifyTailscale_def) (intro steady_intros n)
  have j: "steady lk (join_steps [on_ext (en_StopProjectContainers env n), stopAndVerifyISOAuxiliaryUnits env sv] [])" for sv
    by (rule steady_join) (auto intro: steady_ext n p)
  show "steady lk (stop_untrusted dir env n)"
    by (rule steady_eta, unfold stop_untrusted_def) (intro steady_intros steady_systemctl [OF assms(1)] p j)
  show "steady lk (ensureOrVerifyVMISOAttachmentForStartup dir rv n)"
    by (rule steady_eta, unfold ensureOrVerifyVMISOAttachmentForStartup_def attach_vm_def ensureVMISOAttachmentForStartup_def)
      (intro steady_intros n p)
  show "steady lk (with_global_policy dir env (en_VerifyISOPolicy env))"
    by (rule steady_eta, unfold with_global_policy_def currentGlobalISOPolicy_def) (intro steady_intros n)
qed

lemma steady_settled: "steady lk f \<Longrightarrow> settled lk vm b s \<Longrightarrow> f s = (r, s') \<Longrightarrow> settled lk vm b s'"
  unfolding steady_def settled_def quiet_def by (metis snd_conv)

lemma beside_inner: "beside f s = (r, s') \<Longrightarrow> f (inner s) = (r, inner s') \<and> snd (ho_ext s') = snd (ho_ext s)"
  by (auto simp: beside_def inner_def split: prod.splits)

lemma beside_steady: "steady lk f \<Longrightarrow> in_step lk vm b s \<Longrightarrow> beside f s = (r, s') \<Longrightarrow> in_step lk vm b s'"
  unfolding in_step_def using beside_inner steady_settled by metis

lemma lock_lawD:
  assumes "reconcile_law lk rv"
  shows "\<not> fst (lk x) \<Longrightarrow> lk (snd (rv_acquire rv x)) = (fst (rv_acquire rv x) = None, snd (lk x))" "lk (rv_unlock rv x) = (False, snd (lk x))"
proof -
  have l: "lock_law lk (rv_acquire rv) (rv_unlock rv)" using assms unfolding reconcile_law_def by (rule conjunct1)
  show "\<not> fst (lk x) \<Longrightarrow> lk (snd (rv_acquire rv x)) = (fst (rv_acquire rv x) = None, snd (lk x))" "lk (rv_unlock rv x) = (False, snd (lk x))"
    using l by (simp_all add: lock_law_def)
qed

lemma release_free:
  assumes "reconcile_law lk rv" "in_step lk vm b s"
  shows "in_step lk vm False (release rv s)"
  using assms(2) lock_lawD(2) [OF assms(1)] by (auto simp: in_step_def release_def inner_def settled_def fresh_def view_def)

lemma acquire_settled:
  assumes "reconcile_law lk rv" "settled lk vm False s" "on_ext (rv_acquire rv) s = (e, s')"
  shows "settled lk vm (e = None) s'"
  using lock_lawD(1) [OF assms(1), of "ho_ext s"] assms(2,3)
  by (cases "rv_acquire rv (ho_ext s)") (auto simp: on_ext_def settled_def fresh_def view_def)

text \<open>The specification that is loaded for a service tells whether it is a machine.\<close>

lemma spec_vm:
  assumes "isoRuntimeSpec backend d n = Inr spec"
  shows "\<exists>a. isoAllocationInData d n = Some a \<and> (ns_VM spec \<longleftrightarrow> iso_Kind a = PayloadVM)"
  using assms by (auto simp: isoRuntimeSpec_def isoAllocationInData_def split: option.splits sum.splits)

lemma load_vm:
  assumes "settled lk vm b s" "loadISORuntimeSpec dir env n s = (Inr spec, s')"
  shows "ns_VM spec \<longleftrightarrow> vm n"
proof -
  obtain g s1 where g: "db_get dir s = (g, s1)" by force
  then obtain d where d: "g = Inr d" "isoRuntimeSpec (en_backend env (ho_ext s1)) d n = Inr spec"
    using assms(2) by (cases g) (auto simp: loadISORuntimeSpec_def map_sum_def split: sum.splits)
  have "view s = Some d" using db_get_view [OF g] assms(1) d(1) by (auto simp: settled_def)
  then show ?thesis using spec_vm [OF d(2)] assms(1) unfolding settled_def by blast
qed

lemma policy_steady:
  assumes "\<And>r. neutral lk (act r)"
  shows "steady lk (with_policy dir env act n)"
  by (rule steady_eta, unfold with_policy_def) (intro steady_intros assms)

lemma policy_vm: "settled lk vm b s \<Longrightarrow> with_policy dir env act n s = (Inr spec, s') \<Longrightarrow> ns_VM spec \<longleftrightarrow> vm n"
  by (auto simp: with_policy_def split: prod.splits sum.splits option.splits dest: load_vm)

lemma ensure_policy_lock:
  assumes "env_law lk env" "reconcile_law lk rv" "in_step lk vm False s" "EnsurePolicy dir env rv n s = (e, s')"
  shows "in_step lk vm (e = None) s'"
proof -
  obtain e1 s1 where 1: "beside (on_ext (rv_acquire rv)) s = (e1, s1)" by force
  obtain q s2 where 2: "beside (with_policy dir env (en_EnsureISOPolicy env) n) (set_unlock s1) = (q, s2)" by force
  note b = beside_inner [OF 1]
  have st: "settled lk vm (e1 = None) (inner s1)"
    using acquire_settled [OF assms(2)] assms(3) b by (auto simp: in_step_def)
  show ?thesis
  proof (cases e1)
    case None
    then have "in_step lk vm True (set_unlock s1)" using st by (simp add: in_step_def set_unlock_def inner_def)
    then have "in_step lk vm True s2" using beside_steady [OF policy_steady _ 2] env_neutral(2) [OF assms(1)] by blast
    then show ?thesis using assms(4) 1 2 None release_free [OF assms(2)] by (cases q) (auto simp: EnsurePolicy_def)
  next
    case (Some x)
    then show ?thesis using assms(3,4) 1 st b by (auto simp: EnsurePolicy_def in_step_def)
  qed
qed

lemma verify_policy_lock:
  assumes "env_law lk env" "reconcile_law lk rv" "in_step lk vm True s" "VerifyPolicy dir env rv n s = (e, s')"
  shows "in_step lk vm (e = None \<and> \<not> vm n) s'"
proof -
  obtain q s1 where 1: "beside (with_policy dir env (en_VerifyISOPolicy env) n) s = (q, s1)" by force
  have P1: "in_step lk vm True s1" using beside_steady [OF policy_steady assms(3) 1] env_neutral(3) [OF assms(1)] by blast
  obtain e2 s2 where 2: "beside (ensureOrVerifyVMISOAttachmentForStartup dir rv n) s1 = (e2, s2)" by force
  have P2: "in_step lk vm True s2" by (rule beside_steady [OF steady_queries(6) [OF assms(1,2)] P1 2])
  show ?thesis
  proof (cases q)
    case (Inl x)
    then show ?thesis using assms(4) 1 release_free [OF assms(2) P1] by (auto simp: VerifyPolicy_def)
  next
    case (Inr spec)
    have "with_policy dir env (en_VerifyISOPolicy env) n (inner s) = (Inr spec, inner s1)" using beside_inner [OF 1] Inr by simp
    then have "ns_VM spec \<longleftrightarrow> vm n" using policy_vm assms(3) unfolding in_step_def by blast
    then show ?thesis using assms(4) 1 2 Inr P1 release_free [OF assms(2) P2] by (auto simp: VerifyPolicy_def split: if_splits)
  qed
qed

lemma topology_steady: "(\<And>t. neutral lk (act t)) \<Longrightarrow> steady lk (on_topology dir env act n)"
  by (rule steady_eta, unfold on_topology_def) (intro steady_intros; blast)

lemma topology_lock:
  assumes "env_law lk env" "reconcile_law lk rv" "in_step lk vm True s"
  shows "EnsureTopology dir env rv n s = (e, s') \<Longrightarrow> in_step lk vm (e = None) s'"
    "VerifyTopology dir env rv n s = (e, s') \<Longrightarrow> in_step lk vm False s'"
proof -
  obtain e1 s1 where 1: "beside (on_topology dir env (en_EnsureISOTopology env) n) s = (e1, s1)" by force
  obtain e2 s2 where 2: "beside (on_topology dir env (en_VerifyISOTopology env) n) s = (e2, s2)" by force
  have P1: "in_step lk vm True s1" by (rule beside_steady [OF topology_steady assms(3) 1]) (rule env_neutral(4) [OF assms(1)])
  have P2: "in_step lk vm True s2" by (rule beside_steady [OF topology_steady assms(3) 2]) (rule env_neutral(5) [OF assms(1)])
  show "EnsureTopology dir env rv n s = (e, s') \<Longrightarrow> in_step lk vm (e = None) s'"
    using 1 P1 release_free [OF assms(2) P1] by (cases e1) (auto simp: EnsureTopology_def or_release_def)
  show "VerifyTopology dir env rv n s = (e, s') \<Longrightarrow> in_step lk vm False s'"
    using 2 release_free [OF assms(2) P2] by (simp add: VerifyTopology_def)
qed

lemma with_lock_free:
  assumes "reconcile_law lk rv" "steady lk f" "settled lk vm False s" "withISOOperationLock (rv_acquire rv) (rv_unlock rv) f s = (e, s')"
  shows "settled lk vm False s'"
proof -
  obtain e1 s1 where 1: "on_ext (rv_acquire rv) s = (e1, s1)" by force
  obtain e2 s2 where 2: "f s1 = (e2, s2)" by force
  note P1 = acquire_settled [OF assms(1,3) 1]
  note P2 = steady_settled [OF assms(2) P1 2]
  have "settled lk vm False (s2\<lparr>ho_ext := rv_unlock rv (ho_ext s2)\<rparr>)"
    using P2 lock_lawD(2) [OF assms(1)] by (auto simp: settled_def fresh_def view_def)
  then show ?thesis using assms(4) 1 2 P1 by (cases e1) (auto simp: withISOOperationLock_def)
qed

lemma state_kinds:
  assumes "service_mutator n (mark_state n st c) d = Inr d'" "isoAllocationInData d' m = Some a'"
  shows "\<exists>a. isoAllocationInData d m = Some a \<and> iso_Kind a = iso_Kind a'"
  using assms
  by (auto simp: service_mutator_def Let_def mark_state_def isoAllocationInData_def map_of_update new_Service_def
      split: option.splits sum.splits if_splits)

lemma mark_settled:
  assumes "settled lk vm b s" "mark_state_in dir n st cause s = (e, s')"
  shows "settled lk vm b s'"
proof -
  have m: "mutate_service dir n (mark_state n st (Some cause)) s = (e, s')" using assms(2) by (simp add: markISOState_service)
  have o: "outcome_of (service_mutator n (mark_state n st (Some cause))) s e s'"
    by (rule mutate_service_outcome [OF m lifecycle_version [OF state_change]]) (use assms(1) in \<open>simp add: settled_def\<close>)
  have x: "ho_ext s' = ho_ext s" using m by (auto simp: mutate_service_def on_store_def split: prod.splits)
  have f: "fresh s'" using o by (simp add: outcome_of_def)
  have "vm k \<longleftrightarrow> iso_Kind a' = PayloadVM" if v: "view s' = Some d'" and a': "isoAllocationInData d' k = Some a'" for d' k a'
  proof -
    consider "view s' = view s" | d where "view s = Some d" "service_mutator n (mark_state n st (Some cause)) d = Inr d'"
      using o v by (auto simp: outcome_of_def)
    then show ?thesis
    proof cases
      case 1
      then show ?thesis using assms(1) v a' unfolding settled_def by metis
    next
      case (2 d)
      from state_kinds [OF 2(2) a'] show ?thesis using assms(1) 2(1) unfolding settled_def by metis
    qed
  qed
  then show ?thesis using assms(1) f x by (simp add: settled_def)
qed

lemma quarantine_settled:
  assumes "settled lk vm b s" "quarantine_record dir txt cause n s = (e, s')"
  shows "settled lk vm b s'"
proof -
  obtain q s1 where 1: "service_in dir n s = (q, s1)" by force
  have "settled lk vm b s1" by (rule steady_settled [OF steady_service assms(1) 1])
  then show ?thesis using assms(2) 1 mark_settled by (fastforce simp: quarantine_record_def split: sum.splits option.splits)
qed

lemma leaves_freeD: "leaves_free lk f \<Longrightarrow> settled lk vm False s \<Longrightarrow> f s = (r, s') \<Longrightarrow> settled lk vm False s'"
  unfolding leaves_free_def by (metis snd_conv)

lemma removal_settled:
  assumes "reconcile_law lk rv" "settled lk vm False s" "ResumeRemoval dir rv n s = (e, s')"
  shows "settled lk vm False s'"
proof -
  have r: "leaves_free lk (rv_RemoveService rv c n)" for c using assms(1) unfolding reconcile_law_def by blast
  obtain q s1 where 1: "service_in dir n s = (q, s1)" by force
  have "settled lk vm False s1" by (rule steady_settled [OF steady_service assms(2) 1])
  then show ?thesis using assms(3) 1 leaves_freeD [OF r] by (fastforce simp: ResumeRemoval_def split: sum.splits option.splits)
qed

lemma restart_settled:
  assumes "env_law lk env" "reconcile_law lk rv" "settled lk vm False s" "restart_trusted dir canceled env rv n s = (e, s')"
  shows "settled lk vm False s'"
proof -
  have i: "leaves_free lk (rv_NewInstaller rv n)" "leaves_free lk (rv_installGen rv g n)" for g
    using assms(2) unfolding reconcile_law_def by blast+
  obtain q s1 where 1: "service_in dir n s = (q, s1)" by force
  have P1: "settled lk vm False s1" by (rule steady_settled [OF steady_service assms(3) 1])
  obtain e2 s2 where 2: "rv_NewInstaller rv n s1 = (e2, s2)" by force
  note P2 = leaves_freeD [OF i(1) P1 2]
  show ?thesis
    using assms(4) 1 2 P1 P2 leaves_freeD [OF i(2) P2] steady_settled [OF steady_systemctl [OF assms(1)] P1]
    by (cases q; cases e2) (auto simp: restart_trusted_def split: if_splits)
qed

lemma beside_settled:
  assumes "\<And>t r t'. settled lk vm False t \<Longrightarrow> f t = (r, t') \<Longrightarrow> settled lk vm False t'" "in_step lk vm False s"
  shows "in_step lk vm False (snd (beside f s))"
proof -
  obtain r s' where b: "beside f s = (r, s')" by force
  from beside_inner [OF b] show ?thesis using assms by (auto simp: in_step_def b)
qed

lemma beside_steady_snd: "steady lk f \<Longrightarrow> in_step lk vm b s \<Longrightarrow> in_step lk vm b (snd (beside f s))"
  by (rule beside_steady [OF _ _ prod.collapse [symmetric]])

lemma get_beside: "db_get dir s = beside (db_get dir) s"
  by (simp add: beside_def db_get_def on_store_def split: prod.splits)

lemma concrete_protocol:
  assumes "env_law lk env" "reconcile_law lk rv"
  shows "lock_protocol dir (in_step lk vm) vm (isoConcreteReconcileSteps dir txt canceled env rv)"
proof -
  note q = steady_queries [OF assms] and free = release_free [OF assms(2)]
  have get: "in_step lk vm b s \<Longrightarrow> in_step lk vm b (snd (db_get dir s))" for b and s :: "('a \<times> bool) host"
    unfolding get_beside by (rule beside_steady_snd [OF steady_get])
  have global: "in_step lk vm False s \<Longrightarrow> in_step lk vm False (snd (VerifyGlobalPolicy dir env rv s))" for s
    unfolding VerifyGlobalPolicy_def by (rule beside_settled [OF with_lock_free [OF assms(2) q(7)] free])
  have stop: "in_step lk vm b s \<Longrightarrow> in_step lk vm False (snd (beside (stop_untrusted dir env n) (release rv s)))" for b n s
    by (rule beside_steady_snd [OF q(5) free])
  have quarantine: "in_step lk vm False s \<Longrightarrow> in_step lk vm False (snd (beside (quarantine_record dir txt c n) (release rv s)))" for c n s
    by (rule beside_settled [OF quarantine_settled free])
  have restart: "in_step lk vm False s \<Longrightarrow> in_step lk vm False (snd (beside (restart_trusted dir canceled env rv n) (release rv s)))" for n s
    by (rule beside_settled [OF restart_settled [OF assms] free])
  have removal: "in_step lk vm False s \<Longrightarrow> in_step lk vm False (snd (beside (ResumeRemoval dir rv n) s))" for n s
    by (rule beside_settled [OF removal_settled [OF assms(2)]])
  have dns: "in_step lk vm False s \<Longrightarrow> in_step lk vm False (snd (beside (on_ext (rv_installDNS rv)) s))" for s
    by (rule beside_steady_snd [OF steady_ext [OF reconcile_neutral(1) [OF assms(2)]]])
  show ?thesis
    unfolding lock_protocol_def isoConcreteReconcileSteps_def isoReconcileSteps.select_convs
    using get global stop quarantine restart removal dns q(1-4) [THEN beside_steady_snd]
      ensure_policy_lock [OF assms, OF _ prod.collapse [symmetric]] verify_policy_lock [OF assms, OF _ prod.collapse [symmetric]]
      topology_lock(1) [OF assms, OF _ prod.collapse [symmetric]] topology_lock(2) [OF assms, OF _ prod.collapse [symmetric]]
    by (intro conjI allI impI) simp_all
qed

text \<open>
  C40: the operation lock at start-up. Run with its steps on the host, the gate never waits for the lock that it holds itself, and when it is
  done the lock is free and the adapter no longer refers to it, whatever fails and whenever the context is cancelled. This relies on the
  two views of a service agreeing: the gate asks the record it started from whether a service is a machine and so skips the topology,
  the step that gives the lock back asks the data as it is then.
\<close>

theorem startup_lock_free:
  assumes "env_law lk env" "reconcile_law lk rv" "fresh s" "view s = Some d" "distinct (map fst (Services d))"
    and "ho_ext s = (x, False)" "lk x = (False, False)" "reconcileISONetworks dir txt canceled env rv s = (e, s')"
  shows "\<exists>x'. ho_ext s' = (x', False) \<and> lk x' = (False, False)"
proof -
  define vm where "vm n \<longleftrightarrow> (\<exists>a. isoAllocationInData d n = Some a \<and> iso_Kind a = PayloadVM)" for n
  have "in_step lk vm False s"
    using assms(3,4,6,7) by (auto simp: in_step_def settled_def inner_def vm_def fresh_def view_def)
  moreover have "vm n \<longleftrightarrow> iso_Kind a = PayloadVM"
    if "db_get dir s = (Inr d', s0)" "(n, a) \<in> set (service_isos (Services d'))" for d' s0 n a
  proof -
    have "d' = d" using db_get_view [OF that(1) assms(3)] assms(4) by auto
    then have "isoAllocationInData d n = Some a" using that(2) alloc_in_isos [OF assms(5)] by simp
    then show ?thesis by (simp add: vm_def)
  qed
  ultimately have "in_step lk vm False s'"
    using run_free [OF concrete_protocol [OF assms(1,2)]] assms(8) unfolding reconcileISONetworks_def by blast
  then show ?thesis by (cases "ho_ext s'") (auto simp: in_step_def settled_def inner_def)
qed

text \<open>A host on which the lock is the whole state, and a ready service whose workload is absent.\<close>

definition lock_only_env :: "(bool \<times> bool) iso_env" where
  "lock_only_env =
     \<lparr>en_systemctl = (\<lambda>_. Pair (''inactive'', None)), en_StopProjectContainers = (\<lambda>_. Pair None), en_VerifyProjectAbsent = (\<lambda>_. Pair None),
      en_VerifyDefaultNetworkAbsent = (\<lambda>_. Pair None), en_cleanupVMNetwork = (\<lambda>_. Pair None), en_RemoveISOTopology = (\<lambda>_. Pair None),
      en_VerifyISOTopologyAbsent = (\<lambda>_. Pair None), en_EnsureISOTopology = (\<lambda>_. Pair None), en_VerifyISOTopology = (\<lambda>_. Pair None),
      en_EnsureISOPolicy = (\<lambda>_. Pair None), en_VerifyISOPolicy = (\<lambda>_. Pair None), en_uninstallNative = (\<lambda>_. Pair None),
      en_removeVMUnit = (\<lambda>_. Pair None), en_cleanVMJail = (\<lambda>_ _. Pair None), en_destroyZFS = (\<lambda>_. Pair None),
      en_composeService = (\<lambda>_ _. None), en_backend = (\<lambda>_. Inr BackendNFT)\<rparr>"

definition lock_only_reconcile :: "(bool \<times> bool, unit) reconcile_env" where
  "lock_only_reconcile =
     \<lparr>rv_acquire = (\<lambda>(h, waited). if h then (Some ''blocked'', (True, True)) else (None, (True, waited))),
      rv_unlock = (\<lambda>(_, waited). (False, waited)), rv_installDNS = Pair None, rv_networkPlan = (\<lambda>_ _. Inr ()), rv_hasISO = (\<lambda>_. True),
      rv_withTapOwner = (\<lambda>p. Pair (Inr p)), rv_IsServiceRunning = (\<lambda>_ _. Pair (Inr False)), rv_ensureSysctls = (\<lambda>_ _. Pair None),
      rv_ensureOwnedVMNetwork = (\<lambda>_ _. Pair None), rv_verifyVMNetworkPlan = (\<lambda>_. Pair None), rv_cleanupVMNetworkPlan = (\<lambda>_. Pair None),
      rv_AnyRunning = (\<lambda>_. Pair (Inr False)), rv_inspectProject = (\<lambda>_ _ _. Pair None), rv_systemdService = (\<lambda>_. Pair None),
      rv_verifySidecar = (\<lambda>_. Pair None), rv_RemoveService = (\<lambda>_ _. Pair None), rv_NewInstaller = (\<lambda>_. Pair None),
      rv_installGen = (\<lambda>_ _. Pair None)\<rparr>"

lemma lock_only_laws: "env_law id lock_only_env" "reconcile_law id lock_only_reconcile"
  by (simp_all add: env_law_def reconcile_law_def lock_law_def neutral_def leaves_free_def lock_only_env_def lock_only_reconcile_def)

definition lock_only_host :: "((bool \<times> bool) \<times> bool) host" where
  "lock_only_host = \<lparr>ho_store = (None, quiet_world (Holds ready_data) (\<lambda>_. False)), ho_ext = ((False, False), False)\<rparr>"

lemma lock_only_view: "fresh lock_only_host" "view lock_only_host = Some ready_data" "distinct (map fst (Services ready_data))"
proof -
  have "current_data ready_data" by (simp add: ready_data_def one_service_def example_data_def current_data_def)
  then show "view lock_only_host = Some ready_data"
    by (simp add: view_def lock_only_host_def store_view_def quiet_world_def latest_view_holds)
qed (simp_all add: fresh_def lock_only_host_def ready_data_def)

theorem startup_lock_free_witness:
  "ho_ext (snd (reconcileISONetworks [] (\<lambda>_. ''failed'') (\<lambda>_. False) lock_only_env lock_only_reconcile lock_only_host)) = ((False, False), False)"
proof -
  have "ho_ext lock_only_host = ((False, False), False)" "id (False, False) = (False, False)" by (simp_all add: lock_only_host_def)
  from startup_lock_free [OF lock_only_laws lock_only_view this prod.collapse [symmetric], of "[]" "\<lambda>_. ''failed''" "\<lambda>_. False"]
  show ?thesis by auto
qed

end
