(* ===== verification/Spec2Isabelle.thy ===== *)
theory Spec2Isabelle
  imports Iso_Alloc Dnet_Nat Op_Locks Authz Snapshots Vm_Memory Cron_Names Iso_Fw_Apply Iso_Reconcile
begin

text \<open>
  Verification of yeet, a tool that deploys services (binaries, scripts, compose projects, cron
  jobs and Firecracker machines) to a host. The server, called catch (\<^verbatim>\<open>src/pkg/catch\<close>), keeps its
  state in one JSON file (\<^verbatim>\<open>src/pkg/db\<close>), gives isolated services addresses out of one pool
  (\<^verbatim>\<open>src/pkg/iso\<close>, \<^verbatim>\<open>src/pkg/catch/iso_allocator.go\<close>, \<^verbatim>\<open>iso_pool.go\<close>), serves docker's network plugin
  protocol (\<^verbatim>\<open>src/pkg/dnet\<close>), and is driven by clients over Tailscale, whose grants decide what they
  may do. The theories model these parts as functions on explicit state, failures included:

  \<^item> \<open>Prelude\<close>, \<open>Go_Parse\<close>, \<open>Netip\<close>, \<open>Sha256\<close>: what the code uses of Go's library (64-bit wrap-around,
    strings, sorting with a less function, \<^verbatim>\<open>strconv\<close>, \<^verbatim>\<open>net/netip\<close>, \<^verbatim>\<open>crypto/sha256\<close>), with the lemmas
    all components share and the locales for orders.
  \<^item> \<open>Iso_Net\<close>: \<^verbatim>\<open>layout.go\<close>, \<^verbatim>\<open>components.go\<close>, \<^verbatim>\<open>modes.go\<close>, \<^verbatim>\<open>ranges.go\<close> of \<^verbatim>\<open>src/pkg/iso\<close>. Links and projects of a
    pool never collide; component plans keep, extend and release addresses as documented; a
    request with ISO is accepted exactly in the documented combinations.
  \<^item> \<open>Db_Types\<close>, \<open>Db_Store\<close>: \<^verbatim>\<open>db.go\<close> and \<^verbatim>\<open>migrate.go\<close>. The store is a function on a cache and a world (file,
    directories, clock of system calls that may each fail). A mutation is atomic, its
    compensation runs exactly when it was not published, the cache stays coherent. The locale
    \<open>transactional_store\<close> is the interface the clients of the store are verified against.
  \<^item> \<open>Iso_Alloc\<close>: the allocator and the pool. Over any history of its operations under any failures
    the networks of different services never overlap.
  \<^item> \<open>Iso_Fw_Text\<close>, \<open>Iso_Firewall\<close>, \<open>Iso_Fw_Isolation\<close>, \<open>Iso_Fw_Apply\<close>: \<^verbatim>\<open>iso_firewall.go\<close> of \<^verbatim>\<open>src/pkg/netns\<close>, on \<open>Go_Text\<close>:
    the policy that keeps isolated services apart is rendered as structured rules and as the exact
    text handed to the tools; a packet is judged by the rules, for nftables and iptables alike. The
    rendered policy isolates every endpoint, both back ends agree, and applying it swaps sets
    atomically and puts the jumps first. The tools are arguments whose contracts are named.
  \<^item> \<open>Iso_Runtime\<close>: the check of the persisted allocations in \<^verbatim>\<open>iso_runtime.go\<close> and the policy derived from them:
    the check is exact, and an accepted database always gives a policy that isolates every allocation.
  \<^item> \<open>Iso_Lifecycle\<close>: the state changes of an allocation and the removal of a service in the same file, on a host of
    which the tools are arguments: nothing is given back before the cleanup is proven. The locale \<open>removal_steps\<close> is the contract of
    the steps a removal is given.
  \<^item> \<open>Net_Config\<close>: \<^verbatim>\<open>service_network_config.go\<close> and the modes in effect from \<^verbatim>\<open>service_info.go\<close>: which settings are accepted, that
    normalised settings are stable, and what a patch changes.
  \<^item> \<open>Iso_Gates\<close>: the start gate, the local cleanup, the retirement of components and the transition to another network, again from
    \<^verbatim>\<open>iso_runtime.go\<close>, with the steps the installer plugs in. An allocation becomes ready only behind the gate, addresses are given up only
    when nothing uses them, and over any history of all operations the networks of different services never overlap.
  \<^item> \<open>Iso_Startup\<close>: the security gate at start-up in the same file, over any steps: it fails closed, and workloads are restarted only behind it.
    The order of the steps is read from a log that does not change the run.
  \<^item> \<open>Iso_Reconcile\<close>: the steps of that gate on the host. The operation lock is kept from one step to the next and is free at the end
    of every run, and the gate never waits for itself.
  \<^item> \<open>Dnet\<close>, \<open>Dnet_Nat\<close>: \<^verbatim>\<open>dnet.go\<close>, the data and then the commands. Every history keeps the shape of
    the networks; an answered request leaves the nat chains of the namespace exactly as the
    data asks for. Commands run against a kernel given as an argument whose contract is named.
  \<^item> \<open>Op_Locks\<close>: \<^verbatim>\<open>service_operation_lock.go\<close> as a step relation over goroutines: mutual exclusion, no
    deadlock, every call ends.
  \<^item> \<open>Authz\<close>: \<^verbatim>\<open>authz.go\<close>, \<^verbatim>\<open>tty_authz.go\<close> and the dispatchers: nothing runs without the grants its
    kind needs.
  \<^item> \<open>Snapshots\<close>: \<^verbatim>\<open>service_snapshots.go\<close>: the snapshot taken before a risky operation survives it;
    pruning destroys only old, unprotected snapshots of the service.
  \<^item> \<open>Vm_Memory\<close>: sizes, shapes, admission and balloons of machines.
  \<^item> \<open>Cron_Names\<close>: \<^verbatim>\<open>cronutil.go\<close> and \<^verbatim>\<open>serviceid.go\<close>.

  Recursion is structural or has a termination proof; nothing needs fuel. Loops over Go maps run
  over association lists in an arbitrary order. Bounds: sizes are below \<open>2 ^ 59\<close> where a product
  by 15 must not wrap, as the theorems say. Counters of references and of lock objects are
  unbounded in \<open>Op_Locks\<close>.

  Not modelled, because they are input and output around the parts above: web sockets, JSON, the
  terminal, systemd and docker themselves, archives, the client (\<^verbatim>\<open>src/pkg/yeet\<close>), generated views
  and clones. Not modelled yet: identity migration, network mutation, host storage moves, the
  journal of runtime upgrades, installation.
\<close>

end
